(* ===== verification/Prelude.thy ===== *)
theory Prelude
  imports Complex_Main "HOL-Library.Word" "HOL-Library.Sublist"
begin

text \<open>
  Shared vocabulary of the development: the result type of fallible Rust
  functions, database tables as lists of rows with the four statement shapes the
  store issues (\<open>SELECT\<close>, \<open>UPDATE ... WHERE\<close>, \<open>COUNT(*)\<close>, a first-row
  lookup), the string primitives the parsers use, saturating machine
  arithmetic, and reachability with its invariant principle.
\<close>

named_theorems store_simps \<open>unfolding rules of the statements a store operation issues\<close>
named_theorems machine_simps \<open>transition tables of the lifecycle machines\<close>
named_theorems inv_intros \<open>preservation lemmas of the invariants\<close>

section \<open>Results\<close>

text \<open>A Rust \<open>Result<T, E>\<close> is a value of \<open>'e + 'a\<close>, the error on the left.\<close>

abbreviation Err :: "'e \<Rightarrow> 'e + 'a" where
  "Err \<equiv> Inl"

abbreviation Okay :: "'a \<Rightarrow> 'e + 'a" where
  "Okay \<equiv> Inr"

fun is_okay :: "'e + 'a \<Rightarrow> bool" where
  "is_okay (Inl _) = False"
| "is_okay (Inr _) = True"

text \<open>The \<open>?\<close> operator.\<close>

fun try_bind :: "'e + 'a \<Rightarrow> ('a \<Rightarrow> 'e + 'b) \<Rightarrow> 'e + 'b" where
  "try_bind (Inl e) f = Inl e"
| "try_bind (Inr a) f = f a"

lemma try_bind_eq_Inr: "try_bind m f = Inr b \<longleftrightarrow> (\<exists>a. m = Inr a \<and> f a = Inr b)"
  by (cases m) auto

lemma is_okay_iff: "is_okay r \<longleftrightarrow> (\<exists>a. r = Inr a)"
  by (cases r) auto

section \<open>Reachable states\<close>

inductive reachable :: "('s \<Rightarrow> bool) \<Rightarrow> ('s \<Rightarrow> 's \<Rightarrow> bool) \<Rightarrow> 's \<Rightarrow> bool"
  for init step where
  reach_init: "init s \<Longrightarrow> reachable init step s"
| reach_step: "reachable init step s \<Longrightarrow> step s t \<Longrightarrow> reachable init step t"

locale invariant_system =
  fixes init :: "'s \<Rightarrow> bool"
    and step :: "'s \<Rightarrow> 's \<Rightarrow> bool"
    and inv :: "'s \<Rightarrow> bool"
  assumes init_inv: "init s \<Longrightarrow> inv s"
    and step_inv: "inv s \<Longrightarrow> step s t \<Longrightarrow> inv t"
begin

lemma reachable_inv: "reachable init step s \<Longrightarrow> inv s"
  by (induction rule: reachable.induct) (auto intro: init_inv step_inv)

end


section \<open>Tables\<close>

text \<open>A table is the list of its rows in insertion order. The statements are
  given with their \<open>WHERE\<close> clause as a predicate.\<close>

definition sql_update :: "('r \<Rightarrow> bool) \<Rightarrow> ('r \<Rightarrow> 'r) \<Rightarrow> 'r list \<Rightarrow> 'r list" where
  "sql_update p f rows = map (\<lambda>r. if p r then f r else r) rows"

definition sql_count :: "('r \<Rightarrow> bool) \<Rightarrow> 'r list \<Rightarrow> nat" where
  "sql_count p rows = length (filter p rows)"

definition sql_first :: "('r \<Rightarrow> bool) \<Rightarrow> 'r list \<Rightarrow> 'r option" where
  "sql_first p rows = find p rows"

text \<open>\<open>MAX(0, x - n)\<close> on a counter column is truncated subtraction.\<close>

abbreviation sql_dec :: "nat \<Rightarrow> nat \<Rightarrow> nat" where
  "sql_dec x n \<equiv> x - n"

text \<open>The content of a table as a map from its primary key.\<close>

definition table_map :: "('r \<Rightarrow> 'k) \<Rightarrow> ('r \<Rightarrow> 'v) \<Rightarrow> 'r list \<Rightarrow> 'k \<rightharpoonup> 'v" where
  "table_map key val rows = map_of (map (\<lambda>r. (key r, val r)) rows)"

lemma table_map_Nil [simp]: "table_map key val [] = Map.empty"
  by (simp add: table_map_def)

lemma table_map_Cons [simp]:
  "table_map key val (r # rows) = (table_map key val rows)(key r \<mapsto> val r)"
  by (simp add: table_map_def)

lemma table_map_append: "table_map key val (xs @ ys) = table_map key val ys ++ table_map key val xs"
  by (simp add: table_map_def)

lemma sql_update_Nil [simp]: "sql_update p f [] = []"
  by (simp add: sql_update_def)

lemma sql_update_Cons [simp]:
  "sql_update p f (r # rows) = (if p r then f r else r) # sql_update p f rows"
  by (simp add: sql_update_def)

lemma sql_update_length [simp]: "length (sql_update p f rows) = length rows"
  by (simp add: sql_update_def)

lemma sql_update_none: "(\<And>r. r \<in> set rows \<Longrightarrow> \<not> p r) \<Longrightarrow> sql_update p f rows = rows"
  by (induction rows) auto

lemma sql_update_append:
  "sql_update p f (xs @ ys) = sql_update p f xs @ sql_update p f ys"
  by (simp add: sql_update_def)

lemma map_sql_update:
  "(\<And>r. g (f r) = g r) \<Longrightarrow> map g (sql_update p f rows) = map g rows"
  by (induction rows) auto

lemma set_sql_update:
  "r' \<in> set (sql_update p f rows) \<longleftrightarrow> (\<exists>r \<in> set rows. r' = (if p r then f r else r))"
  by (auto simp: sql_update_def)

text \<open>An update seen on the map: the rows whose value satisfies the clause change
  their value, the keys stay.\<close>

lemma table_map_update:
  assumes "\<And>r. key (f r) = key r"
    and "\<And>r. r \<in> set rows \<Longrightarrow> p r \<longleftrightarrow> P (key r) (val r)"
    and "\<And>r. val (f r) = F (val r)"
  shows "table_map key val (sql_update p f rows) =
         (\<lambda>k. map_option (\<lambda>v. if P k v then F v else v) (table_map key val rows k))"
  using assms(2) by (induction rows) (auto simp: assms(1,3) fun_eq_iff)

lemma table_map_update_same:
  assumes "\<And>r. key (f r) = key r" and "\<And>r. val (f r) = val r"
  shows "table_map key val (sql_update p f rows) = table_map key val rows"
  by (induction rows) (auto simp: assms fun_eq_iff)

lemma table_map_upd_key:
  assumes "\<And>r. key (f r) = key r" and "\<And>r. val (f r) = F (val r)"
    and "table_map key val rows k = Some v"
  shows "table_map key val (sql_update (\<lambda>r. key r = k) f rows) =
         (table_map key val rows)(k \<mapsto> F v)"
  using assms(3)
  by (subst table_map_update [where P = "\<lambda>k' _. k' = k" and F = F])
     (auto simp: assms(1,2) fun_eq_iff option.map_ident)

lemma table_map_upd_one:
  assumes "\<And>r. key (f r) = key r"
    and "\<And>r. r \<in> set rows \<Longrightarrow> p r \<longleftrightarrow> P (key r) (val r)"
    and "\<And>r. val (f r) = F (val r)"
    and "table_map key val rows k = Some v" and "P k v"
    and "\<And>k' v'. table_map key val rows k' = Some v' \<Longrightarrow> P k' v' \<Longrightarrow> k' = k"
  shows "table_map key val (sql_update p f rows) = (table_map key val rows)(k \<mapsto> F v)"
proof -
  have "table_map key val (sql_update p f rows) =
      (\<lambda>k. map_option (\<lambda>v. if P k v then F v else v) (table_map key val rows k))"
    using table_map_update [where key = key and f = f and rows = rows and p = p and P = P
      and val = val and F = F] assms(1-3) by blast
  also have "\<dots> = (table_map key val rows)(k \<mapsto> F v)"
  proof
    fix x show "map_option (\<lambda>v. if P x v then F v else v) (table_map key val rows x) =
        ((table_map key val rows)(k \<mapsto> F v)) x"
    proof (cases "x = k")
      case True
      then show ?thesis using assms(4,5) by simp
    next
      case False
      then have "\<not> P x w" if "table_map key val rows x = Some w" for w
        using assms(6) [OF that] by blast
      then show ?thesis using False by (cases "table_map key val rows x") simp_all
    qed
  qed
  finally show ?thesis .
qed

lemma table_map_None_iff: "table_map key val rows k = None \<longleftrightarrow> k \<notin> key ` set rows"
  by (induction rows) auto

lemma dom_table_map: "dom (table_map key val rows) = key ` set rows"
  using table_map_None_iff [of key val rows] by (auto simp: dom_def)

lemma table_map_Some_row:
  "table_map key val rows k = Some v \<Longrightarrow> \<exists>r \<in> set rows. key r = k \<and> val r = v"
  by (induction rows) (auto split: if_splits)

lemma table_map_row:
  "distinct (map key rows) \<Longrightarrow> r \<in> set rows \<Longrightarrow> table_map key val rows (key r) = Some (val r)"
proof (induction rows)
  case (Cons x rows)
  then show ?case by (cases "r = x") (auto simp: image_iff)
qed simp

lemma sql_first_None: "sql_first p rows = None \<longleftrightarrow> (\<forall>r \<in> set rows. \<not> p r)"
  by (auto simp: sql_first_def find_None_iff)

lemma sql_first_SomeD: "sql_first p rows = Some r \<Longrightarrow> r \<in> set rows \<and> p r"
  by (auto simp: sql_first_def find_Some_iff)

lemma sql_first_append: "sql_first p xs = Some r \<Longrightarrow> sql_first p (xs @ ys) = Some r"
  by (induction xs) (auto simp: sql_first_def)

lemma sql_first_key:
  "table_map key val rows k = map_option val (sql_first (\<lambda>r. key r = k) rows)"
  by (induction rows) (auto simp: sql_first_def)

lemma sql_count_key:
  assumes "distinct (map key rows)" "r \<in> set rows" "key r = k" "q r"
  shows "sql_count (\<lambda>r. key r = k \<and> q r) rows = 1"
  using assms(1,2)
proof (induction rows)
  case (Cons x rows)
  show ?case
  proof (cases "r = x")
    case True
    have "filter (\<lambda>r. key r = k \<and> q r) rows = []"
      using Cons.prems(1) True assms(3) by (auto simp: filter_empty_conv image_iff)
    then show ?thesis using True assms(3,4) by (simp add: sql_count_def)
  next
    case False
    then have "r \<in> set rows" and "key x \<noteq> k"
      using Cons.prems assms(3) by (auto simp: image_iff)
    then show ?thesis using Cons.IH Cons.prems(1) by (simp add: sql_count_def)
  qed
qed simp

lemma sql_count_Nil [simp]: "sql_count p [] = 0"
  by (simp add: sql_count_def)

lemma sql_count_Cons [simp]:
  "sql_count p (r # rows) = (if p r then Suc (sql_count p rows) else sql_count p rows)"
  by (simp add: sql_count_def)

lemma sql_count_append [simp]: "sql_count p (xs @ ys) = sql_count p xs + sql_count p ys"
  by (simp add: sql_count_def)

lemma sql_count_pos: "0 < sql_count p rows \<longleftrightarrow> (\<exists>r \<in> set rows. p r)"
  by (induction rows) auto

lemma sql_count_cong: "(\<And>r. r \<in> set rows \<Longrightarrow> p r \<longleftrightarrow> q r) \<Longrightarrow> sql_count p rows = sql_count q rows"
  by (induction rows) auto

text \<open>Counting rows of a keyed table is counting keys of its map.\<close>

lemma sql_count_card:
  assumes "distinct (map key rows)"
  shows "sql_count (\<lambda>r. P (val r)) rows =
         card {k. \<exists>v. table_map key val rows k = Some v \<and> P v}"
  using assms
proof (induction rows)
  case (Cons r rows)
  let ?S = "{k. \<exists>v. table_map key val rows k = Some v \<and> P v}"
  have fin: "finite ?S"
  proof (rule finite_subset)
    show "?S \<subseteq> dom (table_map key val rows)" by (auto simp: dom_def)
    show "finite (dom (table_map key val rows))" by (simp add: dom_table_map)
  qed
  have notin: "key r \<notin> key ` set rows" using Cons.prems by auto
  then have "table_map key val rows (key r) = None" by (simp add: table_map_None_iff)
  then have "{k. \<exists>v. table_map key val (r # rows) k = Some v \<and> P v} =
      (if P (val r) then insert (key r) ?S else ?S)" and "key r \<notin> ?S"
    by auto
  then show ?case using Cons fin by simp
qed simp

section \<open>Strings\<close>

text \<open>Strings are lists of bytes; the parsers modelled here only inspect ASCII.\<close>

definition is_ws :: "char \<Rightarrow> bool" where
  "is_ws c = (c \<in> {CHR 0x20, CHR 0x09, CHR 0x0A, CHR 0x0B, CHR 0x0C, CHR 0x0D})"

definition trim_start :: "string \<Rightarrow> string" where
  "trim_start s = dropWhile is_ws s"

definition trim_end :: "string \<Rightarrow> string" where
  "trim_end s = rev (dropWhile is_ws (rev s))"

definition trim :: "string \<Rightarrow> string" where
  "trim s = trim_end (trim_start s)"

definition starts_with :: "string \<Rightarrow> string \<Rightarrow> bool" where
  "starts_with s p = prefix p s"

definition ends_with :: "string \<Rightarrow> string \<Rightarrow> bool" where
  "ends_with s p = suffix p s"

definition strip_prefix :: "string \<Rightarrow> string \<Rightarrow> string option" where
  "strip_prefix p s = (if prefix p s then Some (drop (length p) s) else None)"

fun split_on :: "char \<Rightarrow> string \<Rightarrow> string list" where
  "split_on d [] = [[]]"
| "split_on d (c # cs) =
     (if c = d then [] # split_on d cs
      else (case split_on d cs of [] \<Rightarrow> [[c]] | w # ws \<Rightarrow> (c # w) # ws))"

fun split_once :: "char \<Rightarrow> string \<Rightarrow> (string \<times> string) option" where
  "split_once d [] = None"
| "split_once d (c # cs) =
     (if c = d then Some ([], cs)
      else map_option (\<lambda>(a, b). (c # a, b)) (split_once d cs))"

fun words_acc :: "string \<Rightarrow> string \<Rightarrow> string list" where
  "words_acc w [] = (if w = [] then [] else [rev w])"
| "words_acc w (c # cs) =
     (if is_ws c then (if w = [] then words_acc [] cs else rev w # words_acc [] cs)
      else words_acc (c # w) cs)"

definition split_whitespace :: "string \<Rightarrow> string list" where
  "split_whitespace s = words_acc [] s"

fun join :: "string \<Rightarrow> string list \<Rightarrow> string" where
  "join sep [] = []"
| "join sep [w] = w"
| "join sep (w # ws) = w @ sep @ join sep ws"

definition is_digit :: "char \<Rightarrow> bool" where
  "is_digit c = (c \<in> {CHR ''0'', CHR ''1'', CHR ''2'', CHR ''3'', CHR ''4'',
                     CHR ''5'', CHR ''6'', CHR ''7'', CHR ''8'', CHR ''9''})"

definition digit_val :: "char \<Rightarrow> nat" where
  "digit_val c = of_char c - 48"

definition ascii_upper :: "char \<Rightarrow> bool" where
  "ascii_upper c = (65 \<le> (of_char c :: nat) \<and> (of_char c :: nat) \<le> 90)"

definition ascii_lower :: "char \<Rightarrow> bool" where
  "ascii_lower c = (97 \<le> (of_char c :: nat) \<and> (of_char c :: nat) \<le> 122)"

definition is_alnum :: "char \<Rightarrow> bool" where
  "is_alnum c = (is_digit c \<or> ascii_upper c \<or> ascii_lower c)"

definition to_lower :: "char \<Rightarrow> char" where
  "to_lower c = (if ascii_upper c then char_of (of_char c + 32 :: nat) else c)"

definition to_ascii_lowercase :: "string \<Rightarrow> string" where
  "to_ascii_lowercase s = map to_lower s"

text \<open>\<open>str::parse::<u64>\<close>: an optional plus sign, at least one digit, no overflow.\<close>

fun digits_val :: "nat \<Rightarrow> string \<Rightarrow> nat option" where
  "digits_val acc [] = Some acc"
| "digits_val acc (c # cs) = (if is_digit c then digits_val (acc * 10 + digit_val c) cs else None)"

definition parse_unsigned :: "nat \<Rightarrow> string \<Rightarrow> nat option" where
  "parse_unsigned bound s =
     (let ds = (case s of c # cs \<Rightarrow> if c = CHR ''+'' \<and> cs \<noteq> [] then cs else s | [] \<Rightarrow> s) in
      if ds = [] then None
      else case digits_val 0 ds of None \<Rightarrow> None | Some n \<Rightarrow> if n < bound then Some n else None)"

definition parse_u64 :: "string \<Rightarrow> nat option" where
  "parse_u64 s = parse_unsigned (2 ^ 64) s"

end
