(* ===== verification/Lifecycle.thy ===== *)
theory Lifecycle
  imports Prelude
begin

text \<open>
  The pure lifecycle machines of \<open>crates/common\<close>: task and attempt statuses
  (\<open>state_machine.rs\<close>) and durable approvals (\<open>approval.rs\<close>).
  The interface \<open>lifecycle\<close> states what every machine promises (terminal
  statuses reject every event), \<open>ranked_lifecycle\<close> adds a rank that every
  accepted event increases, from which the length of any run is bounded.
\<close>

section \<open>Statuses and transitions\<close>

datatype task_status =
  TaskQueued | TaskAssigned | TaskRunning | TaskValidating
| TaskSucceeded | TaskFailed | TaskCancelled

datatype attempt_status =
  AttemptAssigned | AttemptRunning | AttemptValidating
| AttemptSucceeded | AttemptFailed | AttemptCancelled | AttemptLost

datatype task_transition =
  TAssign | TStart | TBeginValidate | TSucceed | TFail | TCancel | TRetry | TNodeLost

datatype attempt_transition =
  AStart | ABeginValidate | ASucceed | AFail | ACancel | ANodeLost

text \<open>The error value carries the two names it prints.\<close>

record invalid_transition =
  it_from :: string
  it_transition :: string

fun status_str :: "task_status \<Rightarrow> string" where
  "status_str TaskQueued = ''queued''"
| "status_str TaskAssigned = ''assigned''"
| "status_str TaskRunning = ''running''"
| "status_str TaskValidating = ''validating''"
| "status_str TaskSucceeded = ''succeeded''"
| "status_str TaskFailed = ''failed''"
| "status_str TaskCancelled = ''cancelled''"

fun transition_str :: "task_transition \<Rightarrow> string" where
  "transition_str TAssign = ''assign''"
| "transition_str TStart = ''start''"
| "transition_str TBeginValidate = ''begin_validate''"
| "transition_str TSucceed = ''succeed''"
| "transition_str TFail = ''fail''"
| "transition_str TCancel = ''cancel''"
| "transition_str TRetry = ''retry''"
| "transition_str TNodeLost = ''node_lost''"

fun attempt_status_str :: "attempt_status \<Rightarrow> string" where
  "attempt_status_str AttemptAssigned = ''assigned''"
| "attempt_status_str AttemptRunning = ''running''"
| "attempt_status_str AttemptValidating = ''validating''"
| "attempt_status_str AttemptSucceeded = ''succeeded''"
| "attempt_status_str AttemptFailed = ''failed''"
| "attempt_status_str AttemptCancelled = ''cancelled''"
| "attempt_status_str AttemptLost = ''lost''"

fun attempt_transition_str :: "attempt_transition \<Rightarrow> string" where
  "attempt_transition_str AStart = ''start''"
| "attempt_transition_str ABeginValidate = ''begin_validate''"
| "attempt_transition_str ASucceed = ''succeed''"
| "attempt_transition_str AFail = ''fail''"
| "attempt_transition_str ACancel = ''cancel''"
| "attempt_transition_str ANodeLost = ''node_lost''"

fun next_task_status :: "task_status \<Rightarrow> task_transition \<Rightarrow> invalid_transition + task_status" where
  "next_task_status TaskQueued TAssign = Inr TaskAssigned"
| "next_task_status TaskQueued TCancel = Inr TaskCancelled"
| "next_task_status TaskQueued TNodeLost = Inr TaskFailed"
| "next_task_status TaskAssigned TStart = Inr TaskRunning"
| "next_task_status TaskAssigned TCancel = Inr TaskCancelled"
| "next_task_status TaskAssigned TRetry = Inr TaskQueued"
| "next_task_status TaskAssigned TNodeLost = Inr TaskFailed"
| "next_task_status TaskRunning TBeginValidate = Inr TaskValidating"
| "next_task_status TaskRunning TSucceed = Inr TaskSucceeded"
| "next_task_status TaskRunning TFail = Inr TaskFailed"
| "next_task_status TaskRunning TCancel = Inr TaskCancelled"
| "next_task_status TaskRunning TNodeLost = Inr TaskFailed"
| "next_task_status TaskValidating TSucceed = Inr TaskSucceeded"
| "next_task_status TaskValidating TFail = Inr TaskFailed"
| "next_task_status TaskValidating TCancel = Inr TaskCancelled"
| "next_task_status TaskValidating TNodeLost = Inr TaskFailed"
| "next_task_status TaskFailed TRetry = Inr TaskQueued"
| "next_task_status TaskCancelled TRetry = Inr TaskQueued"
| "next_task_status s t = Inl \<lparr>it_from = status_str s, it_transition = transition_str t\<rparr>"

fun next_attempt_status ::
  "attempt_status \<Rightarrow> attempt_transition \<Rightarrow> invalid_transition + attempt_status" where
  "next_attempt_status AttemptAssigned AStart = Inr AttemptRunning"
| "next_attempt_status AttemptAssigned ACancel = Inr AttemptCancelled"
| "next_attempt_status AttemptAssigned ANodeLost = Inr AttemptLost"
| "next_attempt_status AttemptRunning ABeginValidate = Inr AttemptValidating"
| "next_attempt_status AttemptRunning ASucceed = Inr AttemptSucceeded"
| "next_attempt_status AttemptRunning AFail = Inr AttemptFailed"
| "next_attempt_status AttemptRunning ACancel = Inr AttemptCancelled"
| "next_attempt_status AttemptRunning ANodeLost = Inr AttemptLost"
| "next_attempt_status AttemptValidating ASucceed = Inr AttemptSucceeded"
| "next_attempt_status AttemptValidating AFail = Inr AttemptFailed"
| "next_attempt_status AttemptValidating ACancel = Inr AttemptCancelled"
| "next_attempt_status AttemptValidating ANodeLost = Inr AttemptLost"
| "next_attempt_status s t =
     Inl \<lparr>it_from = attempt_status_str s, it_transition = attempt_transition_str t\<rparr>"

section \<open>Approvals\<close>

datatype approval_status =
  ApprovalPending | ApprovalAllowed | ApprovalDenied | ApprovalExpired | ApprovalCancelled

datatype approval_event = EvAllow | EvDeny | EvExpire | EvCancel

fun next_approval ::
  "approval_status \<Rightarrow> approval_event \<Rightarrow> (approval_status \<times> approval_event) + approval_status" where
  "next_approval ApprovalPending EvAllow = Inr ApprovalAllowed"
| "next_approval ApprovalPending EvDeny = Inr ApprovalDenied"
| "next_approval ApprovalPending EvExpire = Inr ApprovalExpired"
| "next_approval ApprovalPending EvCancel = Inr ApprovalCancelled"
| "next_approval s e = Inl (s, e)"

section \<open>Runs\<close>

text \<open>A run applies events left to right and stops at the first rejected one.\<close>

fun run_machine :: "('s \<Rightarrow> 'e \<Rightarrow> 'x + 's) \<Rightarrow> 's \<Rightarrow> 'e list \<Rightarrow> 'x + 's" where
  "run_machine f s [] = Inr s"
| "run_machine f s (e # es) = try_bind (f s e) (\<lambda>t. run_machine f t es)"

fun task_terminal :: "task_status \<Rightarrow> bool" where
  "task_terminal s = (s \<in> {TaskSucceeded, TaskFailed, TaskCancelled})"

fun attempt_terminal :: "attempt_status \<Rightarrow> bool" where
  "attempt_terminal s =
     (s \<in> {AttemptSucceeded, AttemptFailed, AttemptCancelled, AttemptLost})"

fun approval_terminal :: "approval_status \<Rightarrow> bool" where
  "approval_terminal s = (s \<noteq> ApprovalPending)"

section \<open>The interface of a lifecycle machine\<close>

locale lifecycle =
  fixes nxt :: "'s \<Rightarrow> 'e \<Rightarrow> 'x + 's"
    and terminal :: "'s \<Rightarrow> bool"
  assumes terminal_rejects: "terminal s \<Longrightarrow> \<exists>x. nxt s e = Inl x"
begin

lemma terminal_run: "terminal s \<Longrightarrow> run_machine nxt s es = Inr t \<Longrightarrow> es = [] \<and> t = s"
  using terminal_rejects by (cases es) (auto simp: try_bind_eq_Inr, metis Inl_Inr_False)

lemma accepted_not_terminal: "nxt s e = Inr t \<Longrightarrow> \<not> terminal s"
  using terminal_rejects [of s e] by auto

end

locale ranked_lifecycle = lifecycle +
  fixes rank :: "'a \<Rightarrow> nat"
    and top :: nat
  assumes rank_increases: "nxt s e = Inr t \<Longrightarrow> rank s < rank t"
    and rank_bound: "rank s \<le> top"
begin

lemma run_length_rank: "run_machine nxt s es = Inr t \<Longrightarrow> rank s + length es \<le> rank t"
proof (induction es arbitrary: s)
  case (Cons e es)
  then obtain u where u: "nxt s e = Inr u" "run_machine nxt u es = Inr t"
    by (auto simp: try_bind_eq_Inr)
  show ?case using Cons.IH [OF u(2)] rank_increases [OF u(1)] by simp
qed simp

lemma run_bounded: "run_machine nxt s es = Inr t \<Longrightarrow> length es \<le> top - rank s"
  using run_length_rank [of s es t] rank_bound [of t] by simp

lemma no_return: "run_machine nxt s (e # es) = Inr t \<Longrightarrow> t \<noteq> s"
  using run_length_rank [of s "e # es" t] by auto

end


section \<open>The three machines implement the interface\<close>

fun attempt_rank :: "attempt_status \<Rightarrow> nat" where
  "attempt_rank AttemptAssigned = 0"
| "attempt_rank AttemptRunning = 1"
| "attempt_rank AttemptValidating = 2"
| "attempt_rank _ = 3"

fun approval_rank :: "approval_status \<Rightarrow> nat" where
  "approval_rank ApprovalPending = 0"
| "approval_rank _ = 1"

fun task_rank :: "task_status \<Rightarrow> nat" where
  "task_rank TaskQueued = 0"
| "task_rank TaskAssigned = 1"
| "task_rank TaskRunning = 2"
| "task_rank TaskValidating = 3"
| "task_rank _ = 4"

interpretation attempt: ranked_lifecycle next_attempt_status attempt_terminal attempt_rank 3
proof unfold_locales
  fix s e t
  show "attempt_terminal s \<Longrightarrow> \<exists>x. next_attempt_status s e = Inl x"
    by (cases s; cases e) auto
  show "next_attempt_status s e = Inr t \<Longrightarrow> attempt_rank s < attempt_rank t"
    by (cases s; cases e) auto
  show "attempt_rank s \<le> 3" by (cases s) auto
qed

interpretation approval: ranked_lifecycle next_approval approval_terminal approval_rank 1
proof unfold_locales
  fix s e t
  show "approval_terminal s \<Longrightarrow> \<exists>x. next_approval s e = Inl x"
    by (cases s; cases e) auto
  show "next_approval s e = Inr t \<Longrightarrow> approval_rank s < approval_rank t"
    by (cases s; cases e) auto
  show "approval_rank s \<le> 1" by (cases s) auto
qed

text \<open>The task machine is ranked once \<open>Retry\<close>, its only way back, is left out.\<close>

definition forward_task_status ::
  "task_status \<Rightarrow> task_transition \<Rightarrow> invalid_transition + task_status" where
  "forward_task_status s t =
     (if t = TRetry then Inl \<lparr>it_from = status_str s, it_transition = transition_str t\<rparr>
      else next_task_status s t)"

interpretation forward_task: ranked_lifecycle forward_task_status task_terminal task_rank 4
proof unfold_locales
  fix s e t
  show "task_terminal s \<Longrightarrow> \<exists>x. forward_task_status s e = Inl x"
    by (cases s; cases e) (auto simp: forward_task_status_def)
  show "forward_task_status s e = Inr t \<Longrightarrow> task_rank s < task_rank t"
    by (cases s; cases e) (auto simp: forward_task_status_def)
  show "task_rank s \<le> 4" by (cases s) auto
qed

section \<open>Properties\<close>

lemma retry_task_status:
  "next_task_status s TRetry = Inr t \<longleftrightarrow>
     t = TaskQueued \<and> s \<in> {TaskAssigned, TaskFailed, TaskCancelled}"
  by (cases s) auto

lemma task_step_rank:
  assumes "next_task_status s e = Inr t"
  shows "task_rank s + (if e = TRetry then 0 else 1) \<le> task_rank t + (if e = TRetry then 4 else 0)"
  using assms by (cases s; cases e) auto

lemma task_run_rank:
  "run_machine next_task_status s es = Inr t \<Longrightarrow>
   task_rank s + length es \<le> task_rank t + 5 * count_list es TRetry"
proof (induction es arbitrary: s)
  case (Cons e es)
  then obtain u where u: "next_task_status s e = Inr u" "run_machine next_task_status u es = Inr t"
    by (auto simp: try_bind_eq_Inr)
  show ?case using Cons.IH [OF u(2)] task_step_rank [OF u(1)] by (auto split: if_splits)
qed simp

text \<open>
  An attempt is a one-way street. Whatever sequence of transitions the
  attempt machine accepts has at most three of them, never comes back to the status
  it left, and no transition is accepted in a terminal status.
\<close>
theorem attempt_runs_are_bounded:
  assumes "run_machine next_attempt_status s es = Inr t"
  shows "length es \<le> 3 \<and> (es = [] \<and> t = s \<or> t \<noteq> s \<and> \<not> attempt_terminal s)"
proof -
  have "length es \<le> 3" using attempt.run_bounded [OF assms] by simp
  moreover have "es = [] \<and> t = s \<or> t \<noteq> s \<and> \<not> attempt_terminal s"
  proof (cases es)
    case (Cons e es')
    with assms show ?thesis using attempt.no_return attempt.terminal_run by blast
  qed (use assms in simp)
  ultimately show ?thesis by blast
qed

theorem attempt_runs_are_bounded_witness:
  "run_machine next_attempt_status AttemptAssigned [AStart, ABeginValidate, AFail]
     = Inr AttemptFailed \<and> length [AStart, ABeginValidate, AFail] \<le> 3"
  using attempt_runs_are_bounded
      [of AttemptAssigned "[AStart, ABeginValidate, AFail]" AttemptFailed]
  by simp

text \<open>
  C13: Terminal task statuses are sinks except for an explicit retry: from a
  succeeded task no run is possible at all, and a failed or cancelled task is only
  left by \<open>Retry\<close>, to \<open>queued\<close>. A task run is therefore at most
  four steps plus five per retry.
\<close>
theorem task_runs_are_bounded:
  assumes "run_machine next_task_status s es = Inr t"
  shows "length es \<le> 4 + 5 * count_list es TRetry
       \<and> (s = TaskSucceeded \<longrightarrow> es = [])
       \<and> (task_terminal s \<longrightarrow> es = [] \<or> hd es = TRetry \<and> s \<noteq> TaskSucceeded)"
proof -
  have "task_rank t \<le> 4" by (cases t) auto
  then have "length es \<le> 4 + 5 * count_list es TRetry"
    using task_run_rank [OF assms] by simp
  moreover have "es = [] \<or> \<not> task_terminal s \<or> hd es = TRetry \<and> s \<noteq> TaskSucceeded"
  proof (cases es)
    case (Cons e es')
    with assms obtain u where "next_task_status s e = Inr u" by (auto simp: try_bind_eq_Inr)
    then show ?thesis using Cons by (cases s; cases e) auto
  qed simp
  ultimately show ?thesis by auto
qed

theorem task_runs_are_bounded_witness:
  "run_machine next_task_status TaskFailed [TRetry, TAssign, TStart, TSucceed] = Inr TaskSucceeded
   \<and> length [TRetry, TAssign, TStart, TSucceed]
       \<le> 4 + 5 * count_list [TRetry, TAssign, TStart, TSucceed] TRetry"
  using task_runs_are_bounded
      [of TaskFailed "[TRetry, TAssign, TStart, TSucceed]" TaskSucceeded]
  by simp

section \<open>The task machine simulates the attempt machine\<close>

text \<open>How the store reads an attempt's status as the status of the task that
  owns it: the names agree except that a lost attempt is a failed task.\<close>

fun task_of_attempt :: "attempt_status \<Rightarrow> task_status" where
  "task_of_attempt AttemptAssigned = TaskAssigned"
| "task_of_attempt AttemptRunning = TaskRunning"
| "task_of_attempt AttemptValidating = TaskValidating"
| "task_of_attempt AttemptSucceeded = TaskSucceeded"
| "task_of_attempt AttemptFailed = TaskFailed"
| "task_of_attempt AttemptCancelled = TaskCancelled"
| "task_of_attempt AttemptLost = TaskFailed"

fun task_event_of :: "attempt_transition \<Rightarrow> task_transition" where
  "task_event_of AStart = TStart"
| "task_event_of ABeginValidate = TBeginValidate"
| "task_event_of ASucceed = TSucceed"
| "task_event_of AFail = TFail"
| "task_event_of ACancel = TCancel"
| "task_event_of ANodeLost = TNodeLost"

lemma task_attempt_lockstep:
  "(next_task_status (task_of_attempt s) (task_event_of e) = Inr u) \<longleftrightarrow>
   (\<exists>t. next_attempt_status s e = Inr t \<and> task_of_attempt t = u)"
  by (cases s; cases e) auto

text \<open>
  The two machines run in lockstep. A sequence of attempt transitions is
  accepted by the attempt machine exactly when the corresponding task transitions
  are accepted by the task machine from the corresponding status, and the two runs
  end in corresponding statuses.
\<close>
theorem attempt_run_simulated_by_task:
  "run_machine next_task_status (task_of_attempt s) (map task_event_of es) = Inr u \<longleftrightarrow>
   (\<exists>t. run_machine next_attempt_status s es = Inr t \<and> task_of_attempt t = u)"
proof (induction es arbitrary: s)
  case (Cons e es)
  have "run_machine next_task_status (task_of_attempt s) (map task_event_of (e # es)) = Inr u \<longleftrightarrow>
      (\<exists>v. next_task_status (task_of_attempt s) (task_event_of e) = Inr v
         \<and> run_machine next_task_status v (map task_event_of es) = Inr u)"
    by (simp add: try_bind_eq_Inr)
  also have "\<dots> \<longleftrightarrow> (\<exists>v. next_attempt_status s e = Inr v
         \<and> run_machine next_task_status (task_of_attempt v) (map task_event_of es) = Inr u)"
    by (auto simp: task_attempt_lockstep)
  also have "\<dots> \<longleftrightarrow> (\<exists>t. run_machine next_attempt_status s (e # es) = Inr t \<and> task_of_attempt t = u)"
    by (auto simp: Cons.IH try_bind_eq_Inr)
  finally show ?case .
qed simp

text \<open>
  An approval is decided once and only an explicit \<open>Allow\<close> grants it. Any
  accepted run from \<open>pending\<close> has at most one event, and it ends
  \<open>allowed\<close> exactly when that event is \<open>Allow\<close>.
\<close>
theorem approval_fails_closed:
  assumes "run_machine next_approval ApprovalPending es = Inr t"
  shows "length es \<le> 1 \<and> (t = ApprovalAllowed \<longleftrightarrow> es = [EvAllow])"
proof -
  have len: "length es \<le> 1" using approval.run_bounded [OF assms] by simp
  show ?thesis
  proof (cases es)
    case (Cons e es')
    with len assms show ?thesis by (cases e) auto
  qed (use assms in simp)
qed

theorem approval_fails_closed_witness:
  "run_machine next_approval ApprovalPending [EvAllow] = Inr ApprovalAllowed
   \<and> length [EvAllow] \<le> 1"
  using approval_fails_closed [of "[EvAllow]" ApprovalAllowed] by simp

lemma status_str_inject: "status_str s = status_str t \<longleftrightarrow> s = t"
  by (cases s; cases t) auto

lemma attempt_status_str_inject: "attempt_status_str s = attempt_status_str t \<longleftrightarrow> s = t"
  by (cases s; cases t) auto

end
