(* ===== verification/StoreModel.thy ===== *)
theory StoreModel
  imports Lifecycle
begin

text \<open>
  The state of the control plane's store: the rows of the tables its lifecycle
  operations read or write, the on-disk artifact files, and the in-memory counters of
  \<open>Store\<close>. One record per table, with the column names of the schema under
  a one-letter prefix. Columns that no operation changes after the insert are grouped
  in a nested record. Ids and tokens are strings; timestamps are nanoseconds on one
  clock (the code stores RFC 3339 strings of one zone, whose lexicographic order is
  the order of the instants); counter columns are natural numbers.
\<close>

type_synonym id = string
type_synonym time = nat

definition secs :: "nat \<Rightarrow> time" where
  "secs n = n * 1000000000"

section \<open>Rows\<close>

datatype node_status =
  NodePending | NodeOnline | NodeDegraded | NodeOffline | NodeRevoked

datatype event_type =
  EvtStatus | EvtStdout | EvtStderr | EvtTool | EvtArtifact | EvtMetric | EvtResult | EvtError

text \<open>The columns of \<open>tasks\<close> copied from the request that created the task.\<close>

record task_spec =
  ts_repository :: string
  ts_prompt :: string
  ts_adapter :: string
  ts_requested_node_id :: "id option"
  ts_base_commit :: "string option"
  ts_parent_acp_session_id :: "string option"
  ts_network_mode :: "string option"
  ts_timeout_secs :: nat
  ts_validation_command :: "string option"
  ts_security_profile :: "string option"
  ts_group_id :: "string option"
  ts_agent_id :: "id option"
  ts_consensus_group_id :: "string option"
  ts_consensus_member :: "string option"
  ts_opencode_override :: "string option"
  ts_github_push :: bool
  ts_github_repo :: "string option"
  ts_github_issue :: "int option"
  ts_github_base_ref :: "string option"
  ts_github_create :: bool
  ts_max_attempts :: nat
  ts_consensus_mode :: string
  ts_review_of :: "id option"
  ts_max_tokens :: "nat option"
  ts_max_cost_cents :: "nat option"
  ts_retry_on_node_loss :: bool

record task_row =
  t_id :: id
  t_spec :: task_spec
  t_status :: task_status
  t_created_at :: time
  t_started_at :: "time option"
  t_finished_at :: "time option"
  t_assigned_attempt_id :: "id option"
  t_avoid_node_id :: "id option"
  t_error_code :: "string option"

record provenance =
  pv_json :: string
  pv_security_profile :: "string option"

text \<open>The columns of \<open>attempts\<close> a completion report fills in.\<close>

record attempt_report =
  r_exit_code :: "int option"
  r_commit_sha :: "string option"
  r_acp_session_id :: "string option"
  r_resolved_base_sha :: "string option"
  r_remote_head_at_start :: "string option"
  r_remote_head_at_finish :: "string option"
  r_error_code :: "string option"
  r_validation_rounds :: nat
  r_provenance :: "string option"
  r_plan :: "string option"
  r_pending_artifacts :: "string list option"
  r_tokens_avoided_bytes :: "int option"

definition empty_report :: attempt_report where
  "empty_report = \<lparr>r_exit_code = None, r_commit_sha = None, r_acp_session_id = None,
     r_resolved_base_sha = None, r_remote_head_at_start = None, r_remote_head_at_finish = None,
     r_error_code = None, r_validation_rounds = 0, r_provenance = None, r_plan = None,
     r_pending_artifacts = None, r_tokens_avoided_bytes = None\<rparr>"

record attempt_row =
  a_id :: id
  a_task_id :: id
  a_number :: nat
  a_node_id :: id
  a_status :: attempt_status
  a_lease_expires_at :: "time option"
  a_ack_deadline :: "time option"
  a_started_at :: time
  a_finished_at :: "time option"
  a_validated_at :: "time option"
  a_fencing_token :: string
  a_cancel_requested :: bool
  a_report :: attempt_report

text \<open>What a heartbeat reports about the host.\<close>

record node_facts =
  nf_load_avg :: rat
  nf_cpu_count :: nat
  nf_free_disk_mb :: nat
  nf_free_memory_mb :: nat
  nf_mem_available_mb :: nat
  nf_active_rss_mib :: nat
  nf_max_rss_mib :: nat
  nf_permission_interception :: string
  nf_network_mode :: string

record node_row =
  n_id :: id
  n_name :: string
  n_status :: node_status
  n_max_concurrency :: nat
  n_adapters :: "string list"
  n_repositories :: "string list"
  n_active_attempts :: nat
  n_last_heartbeat_at :: "time option"
  n_created_at :: time
  n_drained :: bool
  n_revoked_at :: "time option"
  n_credential_hash :: "string option"
  n_facts :: node_facts

record session_row =
  s_attempt_id :: id
  s_adapter :: string
  s_started_at :: time
  s_ended_at :: "time option"
  s_status :: string
  s_error_code :: "string option"

record approval_row =
  ap_id :: id
  ap_task_id :: id
  ap_attempt_id :: "id option"
  ap_session_id :: "id option"
  ap_permission :: string
  ap_status :: approval_status
  ap_reason :: "string option"
  ap_actor :: "string option"
  ap_created_at :: time
  ap_expires_at :: time
  ap_decided_at :: "time option"
  ap_step_run_id :: "id option"
  ap_scope :: string

record event_row =
  e_attempt_id :: id
  e_sequence :: int
  e_type :: event_type
  e_payload :: string
  e_created_at :: time
  e_ingest_id :: int

record audit_row =
  au_actor_type :: string
  au_actor_id :: "string option"
  au_action :: string
  au_subject :: "string option"
  au_payload :: "string option"
  au_created_at :: time

record artifact_row =
  ar_attempt_id :: id
  ar_name :: string
  ar_size_bytes :: nat
  ar_stored_at :: time
  ar_media_type :: "string option"
  ar_sha256 :: "string option"
  ar_stored_compressed :: bool
  ar_stored_sha256 :: "string option"

record repo_requirements =
  rq_memory_mb :: "nat option"
  rq_disk_mb :: "nat option"

record repository_row =
  rp_name :: string
  rp_git_url :: string
  rp_default_branch :: string
  rp_validation_command :: "string option"
  rp_requirements :: "repo_requirements option"

text \<open>A re-key token carries the node it is bound to.\<close>

record enrollment_token =
  et_id :: id
  et_token_hash :: string
  et_expires_at :: time
  et_used_at :: "time option"
  et_node_id :: "id option"

section \<open>The store\<close>

record store =
  tasks :: "task_row list"
  attempts :: "attempt_row list"
  nodes :: "node_row list"
  sessions :: "session_row list"
  approvals :: "approval_row list"
  task_events :: "event_row list"
  ingest_next :: int
  audits :: "audit_row list"
  artifacts :: "artifact_row list"
  files :: "id \<times> string \<rightharpoonup> string"
  repositories :: "repository_row list"
  step_roles :: "(id \<times> string) list"
  enrollment_tokens :: "enrollment_token list"
  opencode_profiles :: "id \<rightharpoonup> (id \<times> string)"
  capacity_pressure :: "(id \<times> nat \<times> nat \<times> nat) list"
  validation_duration_sum :: "64 word"
  validation_duration_count :: "64 word"
  validation_outcomes :: "string \<rightharpoonup> nat"
  security_profile_attempts :: "string \<rightharpoonup> nat"
  lease_reverts :: "64 word"
  active_attempt_drift :: "64 word"

text \<open>\<open>*map.entry(k).or_insert(0) += 1\<close>.\<close>

definition bump :: "('k \<rightharpoonup> nat) \<Rightarrow> 'k \<Rightarrow> ('k \<rightharpoonup> nat)" where
  "bump m k = m(k \<mapsto> (case m k of None \<Rightarrow> 1 | Some n \<Rightarrow> n + 1))"

definition audit :: "time \<Rightarrow> string \<Rightarrow> string option \<Rightarrow> string \<Rightarrow> string option \<Rightarrow>
    string option \<Rightarrow> store \<Rightarrow> store" where
  "audit now actor_type actor_id action subject payload st =
     st\<lparr>audits := audits st @ [\<lparr>au_actor_type = actor_type, au_actor_id = actor_id,
        au_action = action, au_subject = subject, au_payload = payload,
        au_created_at = now\<rparr>]\<rparr>"

fun attempt_active :: "attempt_status \<Rightarrow> bool" where
  "attempt_active s = (s \<in> {AttemptAssigned, AttemptRunning, AttemptValidating})"

lemma attempt_active_terminal: "attempt_active s \<longleftrightarrow> \<not> attempt_terminal s"
  by (cases s) auto

section \<open>Statements that recur\<close>

text \<open>\<open>UPDATE nodes SET active_attempts = MAX(0, active_attempts - n) WHERE id = ?\<close>.\<close>

definition dec_active :: "id \<Rightarrow> nat \<Rightarrow> store \<Rightarrow> store" where
  "dec_active nid n st = st\<lparr>nodes := sql_update (\<lambda>r. n_id r = nid)
     (\<lambda>r. r\<lparr>n_active_attempts := sql_dec (n_active_attempts r) n\<rparr>) (nodes st)\<rparr>"

definition inc_active :: "id \<Rightarrow> nat \<Rightarrow> store \<Rightarrow> store" where
  "inc_active nid n st = st\<lparr>nodes := sql_update (\<lambda>r. n_id r = nid)
     (\<lambda>r. r\<lparr>n_active_attempts := n_active_attempts r + n\<rparr>) (nodes st)\<rparr>"

definition find_attempt :: "store \<Rightarrow> id \<Rightarrow> attempt_row option" where
  "find_attempt st aid = sql_first (\<lambda>a. a_id a = aid) (attempts st)"

definition find_task :: "store \<Rightarrow> id \<Rightarrow> task_row option" where
  "find_task st tid = sql_first (\<lambda>t. t_id t = tid) (tasks st)"

definition find_node :: "store \<Rightarrow> id \<Rightarrow> node_row option" where
  "find_node st nid = sql_first (\<lambda>n. n_id n = nid) (nodes st)"

definition update_attempt :: "id \<Rightarrow> (attempt_row \<Rightarrow> attempt_row) \<Rightarrow> store \<Rightarrow> store" where
  "update_attempt aid f st = st\<lparr>attempts := sql_update (\<lambda>a. a_id a = aid) f (attempts st)\<rparr>"

definition attempts_of_task :: "store \<Rightarrow> id \<Rightarrow> nat" where
  "attempts_of_task st tid = sql_count (\<lambda>a. a_task_id a = tid) (attempts st)"

text \<open>\<open>SELECT ... ORDER BY number DESC LIMIT 1\<close>.\<close>

fun max_number :: "attempt_row option \<Rightarrow> attempt_row list \<Rightarrow> attempt_row option" where
  "max_number best [] = best"
| "max_number best (a # as) =
     (case best of None \<Rightarrow> max_number (Some a) as
      | Some b \<Rightarrow> max_number (Some (if a_number b < a_number a then a else b)) as)"

definition latest_attempt_id :: "store \<Rightarrow> id \<Rightarrow> id option" where
  "latest_attempt_id st tid =
     map_option a_id (max_number None (filter (\<lambda>a. a_task_id a = tid) (attempts st)))"

end
