(* ===== verification/Artifacts.thy ===== *)
theory Artifacts
  imports StoreModel
begin

text \<open>
  Artifact storage (\<open>store/artifacts.rs\<close> and the name checks of
  \<open>store.rs\<close>): the safety predicates on ids and names, the binary-safe write with
  its hash check and its optional zstd shape, and the read paths. SHA-256, the zstd
  codec and UTF-8 validation are library code and enter as the fields of
  \<open>codec\<close>. Files are a map from an attempt's directory and a file name to the
  bytes; the temporary file of the atomic rename is not visible in it, and the symbolic
  link checks of \<open>artifact_path\<close> have nothing to reject there.
\<close>

record codec =
  sha256_hex :: "string \<Rightarrow> string"
  zstd_encode :: "string \<Rightarrow> string"
  zstd_decode :: "string \<Rightarrow> string option"
  utf8_valid :: "string \<Rightarrow> bool"

datatype artifact_error =
  HashMismatch string string | InvalidAttemptId | InvalidArtifactName | NotUtf8

definition is_control :: "char \<Rightarrow> bool" where
  "is_control c = ((of_char c :: nat) < 32 \<or> (of_char c :: nat) = 127)"

definition is_safe_opaque_id :: "string \<Rightarrow> bool" where
  "is_safe_opaque_id i = (i \<noteq> [] \<and> length i \<le> 64 \<and>
     list_all (\<lambda>b. is_alnum b \<or> b = CHR ''_'' \<or> b = CHR ''-'') i)"

definition is_safe_artifact_name :: "string \<Rightarrow> bool" where
  "is_safe_artifact_name n =
     (if n = [] \<or> length n > 255 then False
      else if CHR ''/'' \<in> set n \<or> CHR 0x5C \<in> set n \<or> CHR 0x00 \<in> set n then False
      else if n = ''.'' \<or> n = ''..'' \<or> starts_with n ''../'' \<or> starts_with n [CHR ''.'', CHR ''.'', CHR 0x5C]
        then False
      else list_all (\<lambda>c. \<not> is_control c) n)"

text \<open>The resolved path, as the directory and file name below the artifact root.\<close>

definition artifact_path :: "id \<Rightarrow> string \<Rightarrow> artifact_error + (id \<times> string)" where
  "artifact_path aid name =
     (if \<not> is_safe_opaque_id aid then Inl InvalidAttemptId
      else if \<not> is_safe_artifact_name name then Inl InvalidArtifactName
      else Inr (aid, name))"

definition compress_if_worthwhile :: "codec \<Rightarrow> string \<Rightarrow> rat \<Rightarrow> string option" where
  "compress_if_worthwhile cd bytes min_ratio =
     (let z = zstd_encode cd bytes;
          win = 1 - of_nat (length z) / of_nat (length bytes)
      in if win \<ge> min_ratio then Some z else None)"

text \<open>\<open>INSERT ... ON CONFLICT(attempt_id, name) DO UPDATE\<close>.\<close>

definition upsert_artifact :: "artifact_row \<Rightarrow> artifact_row list \<Rightarrow> artifact_row list" where
  "upsert_artifact row rows =
     (let same = (\<lambda>r. ar_attempt_id r = ar_attempt_id row \<and> ar_name r = ar_name row) in
      if sql_count same rows = 0 then rows @ [row] else sql_update same (\<lambda>_. row) rows)"

definition zst_name :: "string \<Rightarrow> string" where
  "zst_name name = name @ ''.zst''"

definition log_class :: "string \<Rightarrow> string option \<Rightarrow> bool" where
  "log_class name media_type =
     (ends_with name ''.log'' \<or>
      (case media_type of None \<Rightarrow> False | Some m \<Rightarrow> starts_with m ''text/''))"

definition save_artifact_bytes ::
  "codec \<Rightarrow> time \<Rightarrow> id \<Rightarrow> string \<Rightarrow> string \<Rightarrow> string option \<Rightarrow> string option \<Rightarrow>
   store \<Rightarrow> (artifact_error + (nat \<times> string)) \<times> store" where
  "save_artifact_bytes cd now aid name bytes media_type sha256 st =
     (if \<not> is_safe_opaque_id aid then (Inl InvalidAttemptId, st)
      else
       let computed = sha256_hex cd bytes;
           expected = (case sha256 of None \<Rightarrow> [] | Some e \<Rightarrow> to_ascii_lowercase (trim e))
       in
       if expected \<noteq> [] \<and> expected \<noteq> computed then (Inl (HashMismatch expected computed), st)
       else case artifact_path aid name of
         Inl e \<Rightarrow> (Inl e, st)
       | Inr path \<Rightarrow>
         let compressed = (if log_class name media_type \<and> length bytes \<ge> 4096
                           then compress_if_worthwhile cd bytes (3 / 10) else None);
             (write_bytes, stored_compressed, on_disk_name) =
               (case compressed of Some z \<Rightarrow> (z, True, zst_name name) | None \<Rightarrow> (bytes, False, name));
             stored_sha = sha256_hex cd write_bytes;
             written = (files st)((aid, on_disk_name) \<mapsto> write_bytes);
             cleaned = (if on_disk_name \<noteq> name then written((aid, name) := None) else written);
             row = \<lparr>ar_attempt_id = aid, ar_name = name, ar_size_bytes = length bytes,
                    ar_stored_at = now, ar_media_type = media_type, ar_sha256 = Some computed,
                    ar_stored_compressed = stored_compressed,
                    ar_stored_sha256 = Some stored_sha\<rparr>
         in (Inr (length bytes, computed),
             st\<lparr>files := cleaned, artifacts := upsert_artifact row (artifacts st)\<rparr>))"

definition artifact_flag :: "store \<Rightarrow> id \<Rightarrow> string \<Rightarrow> bool" where
  "artifact_flag st aid name =
     (case sql_first (\<lambda>r. ar_attempt_id r = aid \<and> ar_name r = name) (artifacts st) of
        None \<Rightarrow> False | Some r \<Rightarrow> ar_stored_compressed r)"

definition resolve_on_disk :: "store \<Rightarrow> id \<Rightarrow> string \<Rightarrow> (id \<times> string) \<times> bool" where
  "resolve_on_disk st aid name =
     (if artifact_flag st aid name
      then if files st (aid, zst_name name) \<noteq> None then ((aid, zst_name name), True)
           else if files st (aid, name) \<noteq> None then ((aid, name), False)
           else ((aid, zst_name name), True)
      else ((aid, name), False))"

definition decompress_blocking :: "codec \<Rightarrow> string \<Rightarrow> string" where
  "decompress_blocking cd b = (case zstd_decode cd b of None \<Rightarrow> [] | Some d \<Rightarrow> d)"

text \<open>The body of \<open>read_artifact_bytes\<close> once the attempt is known.\<close>

definition read_attempt_bytes :: "codec \<Rightarrow> store \<Rightarrow> id \<Rightarrow> string \<Rightarrow> string option" where
  "read_attempt_bytes cd st aid name =
     (case artifact_path aid name of
        Inl _ \<Rightarrow> None
      | Inr _ \<Rightarrow>
          let (path, compressed) = resolve_on_disk st aid name in
          case files st path of
            None \<Rightarrow> None
          | Some b \<Rightarrow> Some (if compressed then decompress_blocking cd b else b))"

definition read_artifact_bytes :: "codec \<Rightarrow> store \<Rightarrow> id \<Rightarrow> string \<Rightarrow> string option" where
  "read_artifact_bytes cd st tid name =
     (case latest_attempt_id st tid of
        None \<Rightarrow> None
      | Some aid \<Rightarrow> read_attempt_bytes cd st aid name)"

text \<open>The text reader first reads the stored file as UTF-8 and only then asks whether
  it is compressed.\<close>

definition read_artifact_for_attempt ::
  "codec \<Rightarrow> store \<Rightarrow> id \<Rightarrow> string \<Rightarrow> artifact_error + string option" where
  "read_artifact_for_attempt cd st aid name =
     (case artifact_path aid name of
        Inl _ \<Rightarrow> Inr None
      | Inr _ \<Rightarrow>
          let (path, compressed) = resolve_on_disk st aid name in
          case files st path of
            None \<Rightarrow> Inr None
          | Some s \<Rightarrow>
              if \<not> utf8_valid cd s then Inl NotUtf8
              else Inr (Some (if compressed then decompress_blocking cd s else s)))"

section \<open>Lemmas\<close>

lemma sql_first_upsert:
  "sql_first (\<lambda>r. ar_attempt_id r = a \<and> ar_name r = n) (upsert_artifact row rows) =
   (if a = ar_attempt_id row \<and> n = ar_name row then Some row
    else sql_first (\<lambda>r. ar_attempt_id r = a \<and> ar_name r = n) rows)"
proof -
  let ?same = "\<lambda>r. ar_attempt_id r = ar_attempt_id row \<and> ar_name r = ar_name row"
  let ?p = "\<lambda>r. ar_attempt_id r = a \<and> ar_name r = n"
  have app: "find ?p (rows @ [row]) = (case find ?p rows of None \<Rightarrow> if ?p row then Some row else None | Some r \<Rightarrow> Some r)"
    by (induction rows) auto
  have upd: "find ?p (sql_update ?same (\<lambda>_. row) rows) =
      (if a = ar_attempt_id row \<and> n = ar_name row
       then if sql_count ?same rows = 0 then None else Some row else find ?p rows)"
    by (induction rows) auto
  have none: "sql_count ?same rows = 0 \<Longrightarrow> a = ar_attempt_id row \<Longrightarrow> n = ar_name row \<Longrightarrow> find ?p rows = None"
    by (simp add: sql_count_def filter_empty_conv find_None_iff)
  show ?thesis
    using app upd none
    by (cases "sql_count ?same rows = 0")
       (auto simp: upsert_artifact_def sql_first_def Let_def split: option.splits)
qed

lemma zst_name_neq [simp]: "zst_name n \<noteq> n" "n \<noteq> zst_name n"
  by (simp_all add: zst_name_def)

lemma zst_name_inject [simp]: "zst_name m = zst_name n \<longleftrightarrow> m = n"
  by (simp add: zst_name_def)

lemma safe_name_no_separator:
  "is_safe_artifact_name n \<Longrightarrow> CHR ''/'' \<notin> set n \<and> CHR 0x5C \<notin> set n \<and> n \<noteq> ''..'' \<and> n \<noteq> ''.'' \<and> n \<noteq> []"
  by (simp add: is_safe_artifact_name_def split: if_splits)

lemma safe_id_no_separator:
  "is_safe_opaque_id i \<Longrightarrow> CHR ''/'' \<notin> set i \<and> CHR ''.'' \<notin> set i \<and> CHR 0x5C \<notin> set i"
proof -
  have bad: "\<not> is_alnum (CHR ''/'')" "\<not> is_alnum (CHR ''.'')" "\<not> is_alnum (CHR 0x5C)"
    by code_simp+
  assume "is_safe_opaque_id i"
  then have ok: "\<And>b. b \<in> set i \<Longrightarrow> is_alnum b \<or> b = CHR ''_'' \<or> b = CHR ''-''"
    by (simp add: is_safe_opaque_id_def list_all_iff)
  show ?thesis using ok [of "CHR ''/''"] ok [of "CHR ''.''"] ok [of "CHR 0x5C"] bad by auto
qed

text \<open>What a write may touch: two file names, one metadata row.\<close>

lemma save_files_frame:
  assumes "k \<noteq> (aid, name)" "k \<noteq> (aid, zst_name name)"
  shows "files (snd (save_artifact_bytes cd now aid name bytes mt sha st)) k = files st k"
  using assms by (auto simp: save_artifact_bytes_def Let_def split: sum.splits option.splits)

lemma save_flag_frame:
  assumes "aid' \<noteq> aid \<or> name' \<noteq> name"
  shows "artifact_flag (snd (save_artifact_bytes cd now aid name bytes mt sha st)) aid' name' =
         artifact_flag st aid' name'"
  using assms
  by (auto simp: save_artifact_bytes_def artifact_flag_def sql_first_upsert Let_def
      split: sum.splits option.splits)

lemma save_core_frame [store_simps]:
  "tasks (snd (save_artifact_bytes cd now aid name bytes mt sha st)) = tasks st"
  "attempts (snd (save_artifact_bytes cd now aid name bytes mt sha st)) = attempts st"
  "nodes (snd (save_artifact_bytes cd now aid name bytes mt sha st)) = nodes st"
  by (auto simp: save_artifact_bytes_def Let_def split: sum.splits option.splits)

section \<open>Properties\<close>

text \<open>
  An accepted artifact write lands on a file inside the attempt's own
  directory: neither the attempt id nor the name contains a path separator, the id has
  no dot at all and the name is neither a dot nor a double dot.
\<close>
theorem artifact_path_stays_inside:
  assumes "artifact_path aid name = Inr (d, f)"
  shows "d = aid \<and> f = name \<and> CHR ''/'' \<notin> set d \<and> CHR ''.'' \<notin> set d
       \<and> CHR ''/'' \<notin> set f \<and> CHR 0x5C \<notin> set f \<and> f \<notin> {[], ''.'', ''..''}"
  using assms safe_name_no_separator safe_id_no_separator
  by (auto simp: artifact_path_def split: if_splits)

theorem artifact_path_stays_inside_witness:
  "artifact_path ''att-1'' ''changes.patch'' = Inr (''att-1'', ''changes.patch'')
   \<and> CHR ''/'' \<notin> set ''changes.patch''"
proof -
  have a: "artifact_path ''att-1'' ''changes.patch'' = Inr (''att-1'', ''changes.patch'')"
    by code_simp
  show ?thesis using artifact_path_stays_inside [OF a] a by blast
qed

lemma save_then_read:
  assumes "\<And>b. zstd_decode cd (zstd_encode cd b) = Some b"
    and "save_artifact_bytes cd now aid name bytes mt sha st = (Inr (n, h), st')"
  shows "read_attempt_bytes cd st' aid name = Some bytes
       \<and> n = length bytes \<and> h = sha256_hex cd bytes"
  using assms(2)
  by (auto simp: save_artifact_bytes_def read_attempt_bytes_def resolve_on_disk_def
      artifact_flag_def sql_first_upsert artifact_path_def decompress_blocking_def assms(1)
      compress_if_worthwhile_def Let_def split: if_splits option.splits prod.splits)

text \<open>
  C12: Round trip. Whatever shape the write chose (plain or zstd) and whatever was
  stored under that name before, reading the artifact back returns exactly the bytes
  that were uploaded, provided zstd decodes its own frames; and the size and hash the
  write reports are those of the uncompressed content.
\<close>
theorem artifact_write_read_roundtrip:
  assumes "\<And>b. zstd_decode cd (zstd_encode cd b) = Some b"
    and "save_artifact_bytes cd now aid name bytes mt sha st = (Inr (n, h), st')"
  shows "read_attempt_bytes cd st' aid name = Some bytes
       \<and> n = length bytes \<and> h = sha256_hex cd bytes"
  using save_then_read [OF assms] .

text \<open>
  Isolation of writes. An upload changes what a reader sees of another
  artifact only if the two share an on-disk name, that is, only if one name is the other
  with \<open>.zst\<close> appended.
\<close>
theorem artifact_write_isolated:
  assumes "aid' \<noteq> aid \<or> name' \<noteq> name \<and> name' \<noteq> zst_name name \<and> zst_name name' \<noteq> name"
  shows "read_attempt_bytes cd (snd (save_artifact_bytes cd now aid name bytes mt sha st)) aid' name'
       = read_attempt_bytes cd st aid' name'"
proof -
  let ?st' = "snd (save_artifact_bytes cd now aid name bytes mt sha st)"
  have "files ?st' (aid', name') = files st (aid', name')"
    "files ?st' (aid', zst_name name') = files st (aid', zst_name name')"
    "artifact_flag ?st' aid' name' = artifact_flag st aid' name'"
    using assms by (auto intro!: save_files_frame save_flag_frame)
  then show ?thesis
    by (simp add: read_attempt_bytes_def resolve_on_disk_def split: sum.split)
qed

text \<open>A concrete codec for the examples below: one text of 4096 equal bytes has a
  frame of one byte, every other text one that is two bytes longer than itself, and every
  frame starts with the byte \<open>0xB5\<close>, which starts no UTF-8 character.\<close>

definition sample_log :: string where
  "sample_log = replicate 4096 (CHR ''a'')"

definition sample_codec :: codec where
  "sample_codec = \<lparr>sha256_hex = (\<lambda>_. ''d41d''),
     zstd_encode = (\<lambda>b. if b = sample_log then [CHR 0xB5] else CHR 0xB5 # CHR 0xB5 # b),
     zstd_decode = (\<lambda>z. case z of [] \<Rightarrow> None | [_] \<Rightarrow> Some sample_log | _ # _ # b \<Rightarrow> Some b),
     utf8_valid = (\<lambda>b. case b of [] \<Rightarrow> True | c # _ \<Rightarrow> c \<noteq> CHR 0xB5)\<rparr>"

definition empty_store :: store where
  "empty_store = \<lparr>tasks = [], attempts = [], nodes = [], sessions = [], approvals = [],
     task_events = [], ingest_next = 0, audits = [], artifacts = [], files = Map.empty,
     repositories = [], step_roles = [], enrollment_tokens = [],
     opencode_profiles = Map.empty, capacity_pressure = [], validation_duration_sum = 0,
     validation_duration_count = 0, validation_outcomes = Map.empty,
     security_profile_attempts = Map.empty, lease_reverts = 0, active_attempt_drift = 0\<rparr>"

lemma sample_codec_roundtrip:
  "zstd_decode sample_codec (zstd_encode sample_codec b) = Some b"
  by (simp add: sample_codec_def)

lemma sample_codec_frames: "\<not> utf8_valid sample_codec (zstd_encode sample_codec b)"
  by (simp add: sample_codec_def)

lemma sample_paths:
  "artifact_path ''a1'' ''x.log'' = Inr (''a1'', ''x.log'')"
  "artifact_path ''a1'' ''x.log.zst'' = Inr (''a1'', ''x.log.zst'')"
  "is_safe_opaque_id ''a1''"
  "log_class ''x.log'' None" "\<not> log_class ''x.log.zst'' None"
  by code_simp+

lemma sample_codec_eval:
  "sha256_hex sample_codec b = ''d41d''"
  "zstd_encode sample_codec sample_log = [CHR 0xB5]"
  "zstd_decode sample_codec [c] = Some sample_log"
  "zstd_decode sample_codec (c # d # e) = Some e"
  by (simp_all add: sample_codec_def)

definition sample_stored :: store where
  "sample_stored = empty_store
     \<lparr>files := Map.empty((''a1'', ''x.log.zst'') \<mapsto> [CHR 0xB5]),
      artifacts := [\<lparr>ar_attempt_id = ''a1'', ar_name = ''x.log'', ar_size_bytes = 4096,
        ar_stored_at = 0, ar_media_type = None, ar_sha256 = Some ''d41d'',
        ar_stored_compressed = True, ar_stored_sha256 = Some ''d41d''\<rparr>]\<rparr>"

lemma sample_save:
  "save_artifact_bytes sample_codec 0 ''a1'' ''x.log'' sample_log None None empty_store =
     (Inr (4096, ''d41d''), sample_stored)"
proof -
  have "length sample_log = 4096" by (simp add: sample_log_def)
  then show ?thesis
    by (simp add: save_artifact_bytes_def sample_paths compress_if_worthwhile_def Let_def
        upsert_artifact_def zst_name_def empty_store_def sample_stored_def sample_codec_eval)
qed

theorem artifact_write_read_roundtrip_witness:
  "read_attempt_bytes sample_codec
     (snd (save_artifact_bytes sample_codec 0 ''a1'' ''x.log'' sample_log None None empty_store))
     ''a1'' ''x.log'' = Some sample_log"
  using artifact_write_read_roundtrip [OF sample_codec_roundtrip sample_save]
  by (simp only: sample_save snd_conv)

theorem artifact_write_isolated_witness:
  "read_attempt_bytes sample_codec
     (snd (save_artifact_bytes sample_codec 0 ''a1'' ''x.log'' sample_log None None empty_store))
     ''a1'' ''y.log'' = read_attempt_bytes sample_codec empty_store ''a1'' ''y.log''"
  by (rule artifact_write_isolated) (simp add: zst_name_def)

text \<open>
  The exception is real. After a compressible log is stored, an upload
  of a second artifact whose name is the first one's with \<open>.zst\<close> appended is
  accepted and overwrites the first one's file, so that reading the log no longer gives
  what was uploaded.
\<close>
theorem artifact_zst_name_collision:
  "\<exists>st1 st2 r1 r2.
     save_artifact_bytes sample_codec 0 ''a1'' ''x.log'' sample_log None None empty_store = (Inr r1, st1)
   \<and> save_artifact_bytes sample_codec 0 ''a1'' ''x.log.zst'' ''other'' None None st1 = (Inr r2, st2)
   \<and> read_attempt_bytes sample_codec st1 ''a1'' ''x.log'' = Some sample_log
   \<and> read_attempt_bytes sample_codec st2 ''a1'' ''x.log'' = Some ''her''"
proof -
  let ?r = "save_artifact_bytes sample_codec 0 ''a1'' ''x.log.zst'' ''other'' None None sample_stored"
  have s1: "read_attempt_bytes sample_codec sample_stored ''a1'' ''x.log'' = Some sample_log"
    using save_then_read [OF sample_codec_roundtrip sample_save] by simp
  have s2: "?r = (Inr (5, ''d41d''), sample_stored
      \<lparr>files := (files sample_stored)((''a1'', ''x.log.zst'') \<mapsto> ''other''),
       artifacts := artifacts (snd ?r)\<rparr>)"
    by (simp add: save_artifact_bytes_def sample_paths sample_codec_eval Let_def)
  have flag: "artifact_flag (snd ?r) ''a1'' ''x.log''"
    using save_flag_frame [of "''a1''" "''a1''" "''x.log''" "''x.log.zst''"]
    by (simp add: sample_stored_def artifact_flag_def sql_first_def)
  have "files (snd ?r) (''a1'', ''x.log.zst'') = Some ''other''"
    by (subst s2) (simp only: snd_conv, simp)
  then have s3: "read_attempt_bytes sample_codec (snd ?r) ''a1'' ''x.log'' = Some ''her''"
    by (simp add: read_attempt_bytes_def sample_paths resolve_on_disk_def flag zst_name_def
        decompress_blocking_def sample_codec_eval)
  show ?thesis using s1 s2 s3 sample_save by (metis prod.collapse fst_conv)
qed

text \<open>
  The text reader cannot read a compressed artifact. Since no zstd frame is
  valid UTF-8, every artifact that was stored compressed makes it return an error, although
  the byte reader returns the uploaded content.
\<close>
theorem compressed_artifact_text_read_fails:
  assumes "\<And>b. zstd_decode cd (zstd_encode cd b) = Some b"
    and "\<And>b. \<not> utf8_valid cd (zstd_encode cd b)"
    and "save_artifact_bytes cd now aid name bytes mt sha st = (Inr r, st')"
    and "artifact_flag st' aid name"
  shows "read_artifact_for_attempt cd st' aid name = Inl NotUtf8
       \<and> read_attempt_bytes cd st' aid name = Some bytes"
proof -
  have "read_attempt_bytes cd st' aid name = Some bytes"
    using save_then_read [OF assms(1)] assms(3) by (metis surj_pair)
  moreover have "read_artifact_for_attempt cd st' aid name = Inl NotUtf8"
    using assms(2-4)
    by (auto simp: save_artifact_bytes_def read_artifact_for_attempt_def resolve_on_disk_def
        artifact_flag_def sql_first_upsert artifact_path_def compress_if_worthwhile_def Let_def
        split: if_splits option.splits prod.splits)
  ultimately show ?thesis by simp
qed

theorem compressed_artifact_text_read_fails_witness:
  "read_artifact_for_attempt sample_codec
     (snd (save_artifact_bytes sample_codec 0 ''a1'' ''x.log'' sample_log None None empty_store))
     ''a1'' ''x.log'' = Inl NotUtf8"
proof -
  have "artifact_flag sample_stored ''a1'' ''x.log''"
    by (simp add: sample_stored_def artifact_flag_def sql_first_def)
  from compressed_artifact_text_read_fails
      [OF sample_codec_roundtrip sample_codec_frames sample_save this]
  show ?thesis by (simp only: sample_save snd_conv)
qed

end
