(* ===== verification/StoreOps.thy ===== *)
theory StoreOps
  imports Artifacts
begin

text \<open>
  The lifecycle operations of the store (\<open>store/attempts.rs\<close>,
  \<open>store/events.rs\<close>, \<open>store/tasks.rs\<close>, \<open>store/approvals.rs\<close> and
  the loss handling of \<open>store.rs\<close>), one definition per operation. Each takes the
  clock reading and the random ids it draws as arguments and returns its result with the
  new store; a rolled-back transaction returns the store it was given. The deployment is
  the one without a replication gate, where a commit succeeds; the gate is the subject of
  \<open>HaGate\<close>. The full text index is library code and enters, with the codecs, through
  \<open>externals\<close>.
\<close>

record externals =
  ex_codec :: codec
  ex_fts :: "event_row list \<Rightarrow> id \<Rightarrow> string \<Rightarrow> string list"

datatype store_error = TransitionError invalid_transition | RowNotFound

section \<open>JSON text\<close>

definition hex_digit :: "nat \<Rightarrow> char" where
  "hex_digit n = ''0123456789abcdef'' ! (n mod 16)"

definition json_char :: "char \<Rightarrow> string" where
  "json_char c =
     (let n = (of_char c :: nat); bs = CHR 0x5C in
      if c = CHR 0x22 then [bs, CHR 0x22]
      else if c = bs then [bs, bs]
      else if n = 8 then [bs, CHR ''b'']
      else if n = 9 then [bs, CHR ''t'']
      else if n = 10 then [bs, CHR ''n'']
      else if n = 12 then [bs, CHR ''f'']
      else if n = 13 then [bs, CHR ''r'']
      else if n < 32 then bs # ''u00'' @ [hex_digit (n div 16), hex_digit n]
      else [c])"

definition json_str :: "string \<Rightarrow> string" where
  "json_str s = CHR 0x22 # concat (map json_char s) @ [CHR 0x22]"

text \<open>\<open>serde_json::json!\<close> with string values; keys come out sorted.\<close>

definition json_obj :: "(string \<times> string) list \<Rightarrow> string" where
  "json_obj kvs = ''{'' @ join '','' (map (\<lambda>(k, v). json_str k @ '':'' @ json_str v) kvs) @ ''}''"

section \<open>Creating tasks\<close>

record create_task_request =
  cq_spec :: task_spec
  cq_timeout_secs :: "nat option"
  cq_consensus_mode :: "string option"
  cq_retry_on_node_loss :: "bool option"

text \<open>The columns as stored: the defaults of the optional fields filled in.\<close>

definition stored_spec :: "create_task_request \<Rightarrow> task_spec" where
  "stored_spec req = (cq_spec req)
     \<lparr>ts_timeout_secs := (case cq_timeout_secs req of None \<Rightarrow> 3600 | Some n \<Rightarrow> n),
      ts_consensus_mode := (case cq_consensus_mode req of None \<Rightarrow> ''solve'' | Some m \<Rightarrow> m),
      ts_retry_on_node_loss := (case cq_retry_on_node_loss req of None \<Rightarrow> True | Some b \<Rightarrow> b)\<rparr>"

definition queued_task :: "time \<Rightarrow> id \<Rightarrow> task_spec \<Rightarrow> task_row" where
  "queued_task now tid spec = \<lparr>t_id = tid, t_spec = spec, t_status = TaskQueued,
     t_created_at = now, t_started_at = None, t_finished_at = None,
     t_assigned_attempt_id = None, t_avoid_node_id = None, t_error_code = None\<rparr>"

definition create_task :: "time \<Rightarrow> id \<Rightarrow> create_task_request \<Rightarrow> store \<Rightarrow> task_row \<times> store" where
  "create_task now tid req st =
     (let row = queued_task now tid (stored_spec req)
      in (row, st\<lparr>tasks := tasks st @ [row]\<rparr>))"

text \<open>The transactional variant does not name the \<open>github_create\<close> column, so the
  row gets the column default while the returned view echoes the request, and it returns
  no consensus fields.\<close>

definition insert_task_tx :: "time \<Rightarrow> id \<Rightarrow> create_task_request \<Rightarrow> store \<Rightarrow> task_row \<times> store" where
  "insert_task_tx now tid req st =
     (let row = queued_task now tid ((stored_spec req)\<lparr>ts_github_create := False\<rparr>);
          view = queued_task now tid
            ((stored_spec req)\<lparr>ts_consensus_group_id := None, ts_consensus_member := None\<rparr>)
      in (view, st\<lparr>tasks := tasks st @ [row]\<rparr>))"

section \<open>Events\<close>

record ingest_event =
  ie_sequence :: "64 word"
  ie_type :: event_type
  ie_payload :: string

definition insert_event :: "event_row \<Rightarrow> store \<Rightarrow> nat \<times> store" where
  "insert_event row st =
     (if 0 < sql_count (\<lambda>e. e_attempt_id e = e_attempt_id row \<and> e_sequence e = e_sequence row)
               (task_events st)
      then (0, st)
      else (1, st\<lparr>task_events := task_events st @ [row]\<rparr>))"

definition next_sequence :: "store \<Rightarrow> id \<Rightarrow> int" where
  "next_sequence st aid =
     (let ss = map e_sequence (filter (\<lambda>e. e_attempt_id e = aid) (task_events st))
      in (if ss = [] then 0 else Max (set ss)) + 1)"

definition append_event :: "time \<Rightarrow> id \<Rightarrow> string \<Rightarrow> store \<Rightarrow> store" where
  "append_event now aid payload st =
     (let seq = next_sequence st aid;
          st1 = st\<lparr>ingest_next := ingest_next st + 1\<rparr>
      in snd (insert_event \<lparr>e_attempt_id = aid, e_sequence = seq, e_type = EvtStdout,
           e_payload = payload, e_created_at = now, e_ingest_id = ingest_next st1\<rparr> st1))"

definition append_audit_event :: "time \<Rightarrow> id \<Rightarrow> string \<Rightarrow> string \<Rightarrow> store \<Rightarrow> store" where
  "append_audit_event now aid kind txt st =
     append_event now aid (json_obj [(''kind'', kind), (''text'', txt)]) st"

definition insert_verification_note :: "time \<Rightarrow> id \<Rightarrow> string \<Rightarrow> store \<Rightarrow> store" where
  "insert_verification_note now aid txt st =
     append_event now aid (json_obj [(''kind'', ''verification_note''), (''text'', txt)]) st"

text \<open>The loop over the batch: event \<open>i\<close> takes the cursor value
  \<open>block_first + i\<close> whether or not its row lands.\<close>

fun insert_events :: "time \<Rightarrow> id \<Rightarrow> int \<Rightarrow> ingest_event list \<Rightarrow> store \<Rightarrow> nat \<times> store" where
  "insert_events now aid cursor [] st = (0, st)"
| "insert_events now aid cursor (ev # evs) st =
     (let (n, st1) = insert_event \<lparr>e_attempt_id = aid, e_sequence = sint (ie_sequence ev),
            e_type = ie_type ev, e_payload = ie_payload ev, e_created_at = now,
            e_ingest_id = cursor\<rparr> st;
          (m, st2) = insert_events now aid (cursor + 1) evs st1
      in (n + m, st2))"

text \<open>The window query: on the distinct sorted sequences, the first row number that
  differs from its sequence, less one; with no gap the largest sequence.\<close>

definition prefix_of_sequences :: "int list \<Rightarrow> int option" where
  "prefix_of_sequences ss =
     (let ds = sort (remdups ss);
          numbered = zip (map int [1..<Suc (length ds)]) ds
      in if ds = [] then None
         else case filter (\<lambda>(rn, s). s \<noteq> rn) numbered of
           [] \<Rightarrow> Some (last ds)
         | (rn, _) # _ \<Rightarrow> Some (rn - 1))"

definition attempt_sequences :: "store \<Rightarrow> id \<Rightarrow> int list" where
  "attempt_sequences st aid = map e_sequence (filter (\<lambda>e. e_attempt_id e = aid) (task_events st))"

definition contiguous_event_prefix :: "store \<Rightarrow> id \<Rightarrow> int option" where
  "contiguous_event_prefix st aid = prefix_of_sequences (attempt_sequences st aid)"

record ingest_ack =
  ack_accepted :: nat
  ack_highest :: "int option"

definition ingest_events ::
  "time \<Rightarrow> id \<Rightarrow> ingest_event list \<Rightarrow> store \<Rightarrow> ingest_ack \<times> store" where
  "ingest_events now aid evs st =
     (case find_attempt st aid of
        None \<Rightarrow> (\<lparr>ack_accepted = 0, ack_highest = None\<rparr>, st)
      | Some a \<Rightarrow>
          if attempt_terminal (a_status a) then (\<lparr>ack_accepted = 0, ack_highest = None\<rparr>, st)
          else
            let st1 = (if a_status a = AttemptAssigned
                  then st\<lparr>attempts := sql_update (\<lambda>r. a_id r = aid)
                             (\<lambda>r. r\<lparr>a_status := AttemptRunning\<rparr>) (attempts st),
                          tasks := sql_update (\<lambda>t. t_id t = a_task_id a)
                             (\<lambda>t. t\<lparr>t_status := TaskRunning, t_started_at := Some now\<rparr>) (tasks st)\<rparr>
                  else st);
                batch_n = int (length evs);
                st2 = st1\<lparr>ingest_next := ingest_next st1 + batch_n\<rparr>;
                block_last = (if batch_n > 0 then ingest_next st2 else 0);
                (accepted, st3) = insert_events now aid (block_last - batch_n + 1) evs st2;
                highest = contiguous_event_prefix st3 aid
            in (\<lparr>ack_accepted = accepted,
                 ack_highest = (case highest of None \<Rightarrow> Some 0 | Some n \<Rightarrow> Some n)\<rparr>, st3))"

section \<open>Acknowledging and validating\<close>

definition ack_attempt :: "time \<Rightarrow> id \<Rightarrow> store \<Rightarrow> bool \<times> store" where
  "ack_attempt now aid st =
     (case find_attempt st aid of
        None \<Rightarrow> (False, st)
      | Some a \<Rightarrow>
          if a_status a \<noteq> AttemptAssigned
          then (a_status a \<in> {AttemptRunning, AttemptSucceeded, AttemptFailed, AttemptLost,
                             AttemptValidating}, st)
          else
            let cas = (\<lambda>r. a_id r = aid \<and> a_status r = AttemptAssigned) in
            if sql_count cas (attempts st) \<noteq> 1 then (False, st)
            else (True, st
              \<lparr>attempts := sql_update cas
                 (\<lambda>r. r\<lparr>a_status := AttemptRunning, a_ack_deadline := None, a_started_at := now\<rparr>)
                 (attempts st),
               tasks := sql_update
                 (\<lambda>t. t_assigned_attempt_id t = Some aid \<and> t_status t \<in> {TaskAssigned, TaskQueued})
                 (\<lambda>t. t\<lparr>t_status := TaskRunning, t_started_at := Some now\<rparr>) (tasks st)\<rparr>))"

definition begin_validate :: "time \<Rightarrow> id \<Rightarrow> store \<Rightarrow> bool \<times> store" where
  "begin_validate now aid st =
     (let cas = (\<lambda>r. a_id r = aid \<and> a_status r = AttemptRunning) in
      if sql_count cas (attempts st) \<noteq> 1 then (False, st)
      else (True, st
        \<lparr>attempts := sql_update cas
           (\<lambda>r. r\<lparr>a_status := AttemptValidating, a_validated_at := Some now\<rparr>) (attempts st),
         tasks := sql_update
           (\<lambda>t. t_assigned_attempt_id t = Some aid \<and> t_status t = TaskRunning)
           (\<lambda>t. t\<lparr>t_status := TaskValidating\<rparr>) (tasks st)\<rparr>))"


section \<open>Completion\<close>

record complete_request =
  cr_exit_code :: int
  cr_commit_sha :: "string option"
  cr_resolved_base_sha :: "string option"
  cr_remote_head_at_start :: "string option"
  cr_remote_head_at_finish :: "string option"
  cr_error_code :: "string option"
  cr_acp_session_id :: "string option"
  cr_plan :: "string option"
  cr_provenance :: "provenance option"
  cr_pending_artifacts :: "string list"
  cr_validation_rounds :: nat

definition finish_agent_session ::
  "time \<Rightarrow> id \<Rightarrow> string \<Rightarrow> string option \<Rightarrow> store \<Rightarrow> store" where
  "finish_agent_session now aid status error_code st =
     st\<lparr>sessions := sql_update (\<lambda>s. s_attempt_id s = aid \<and> s_ended_at s = None)
         (\<lambda>s. s\<lparr>s_ended_at := Some now, s_status := status, s_error_code := error_code\<rparr>)
         (sessions st)\<rparr>"

definition create_agent_session :: "time \<Rightarrow> id \<Rightarrow> string \<Rightarrow> store \<Rightarrow> store" where
  "create_agent_session now aid adapter st =
     st\<lparr>sessions := sessions st @ [\<lparr>s_attempt_id = aid, s_adapter = adapter, s_started_at = now,
        s_ended_at = None, s_status = ''running'', s_error_code = None\<rparr>]\<rparr>"

definition set_some :: "'a option \<Rightarrow> 'a option \<Rightarrow> 'a option" where
  "set_some new old = (case new of None \<Rightarrow> old | Some x \<Rightarrow> Some x)"

text \<open>The \<open>UPDATE attempts\<close> statements of a completion, on the report columns.\<close>

definition apply_report :: "complete_request \<Rightarrow> attempt_report \<Rightarrow> attempt_report" where
  "apply_report req r = r
     \<lparr>r_exit_code := Some (cr_exit_code req),
      r_commit_sha := set_some (cr_commit_sha req) (r_commit_sha r),
      r_acp_session_id := set_some (cr_acp_session_id req) (r_acp_session_id r),
      r_resolved_base_sha := set_some (cr_resolved_base_sha req) (r_resolved_base_sha r),
      r_remote_head_at_start := set_some (cr_remote_head_at_start req) (r_remote_head_at_start r),
      r_remote_head_at_finish := set_some (cr_remote_head_at_finish req) (r_remote_head_at_finish r),
      r_error_code := set_some (cr_error_code req) (r_error_code r),
      r_validation_rounds := (if cr_validation_rounds req > 0 then cr_validation_rounds req
                              else r_validation_rounds r),
      r_provenance := map_option pv_json (cr_provenance req),
      r_plan := set_some (cr_plan req) (r_plan r),
      r_pending_artifacts := (if cr_pending_artifacts req \<noteq> [] then Some (cr_pending_artifacts req)
                              else r_pending_artifacts r)\<rparr>"

definition req_success :: "complete_request \<Rightarrow> bool" where
  "req_success req = (cr_exit_code req = 0 \<and> cr_error_code req = None)"

definition silent_success_note :: string where
  "silent_success_note = ''verification: attempt produced a commit but no adapter result event '' @
     ''(silent success '' @ [CHR 0xE2, CHR 0x80, CHR 0x94] @ '' diff exists without a claimed finish)''"

text \<open>The in-memory counters: validation time and outcome, and the attempts per
  security profile.\<close>

definition record_metrics ::
  "time \<Rightarrow> attempt_row \<Rightarrow> complete_request \<Rightarrow> store \<Rightarrow> store" where
  "record_metrics now a req st =
     (let st1 = (if a_status a \<noteq> AttemptValidating then st
           else
             let timed = (case a_validated_at a of None \<Rightarrow> st
                   | Some vat \<Rightarrow> st
                       \<lparr>validation_duration_sum :=
                          validation_duration_sum st + of_nat ((now - vat) div 1000000),
                        validation_duration_count := validation_duration_count st + 1\<rparr>);
                 outcome = (if req_success req then ''succeeded''
                   else case cr_error_code req of Some ec \<Rightarrow> ec | None \<Rightarrow> ''failed'')
             in timed\<lparr>validation_outcomes := bump (validation_outcomes timed) outcome\<rparr>)
      in case cr_provenance req of None \<Rightarrow> st1
         | Some p \<Rightarrow> (case pv_security_profile p of None \<Rightarrow> st1
             | Some sp \<Rightarrow> st1\<lparr>security_profile_attempts := bump (security_profile_attempts st1) sp\<rparr>))"

text \<open>The character offset at which a digest fragment is cut.\<close>

definition fragment_cap :: "string \<Rightarrow> nat" where
  "fragment_cap frag =
     (let offs = takeWhile (\<lambda>i. i \<le> 1024) [0..<length frag]
      in if offs = [] then 0 else last offs)"

definition trim_matches :: "(char \<Rightarrow> bool) \<Rightarrow> string \<Rightarrow> string" where
  "trim_matches p s = rev (dropWhile p (rev (dropWhile p s)))"

definition digest_query :: "string \<Rightarrow> string" where
  "digest_query prompt =
     join '' OR '' (filter (\<lambda>s. s \<noteq> [])
       (map (\<lambda>t. CHR 0x22 # trim_matches (\<lambda>c. \<not> is_alnum c) t @ [CHR 0x22])
         (take 10 (split_whitespace prompt))))"

definition resume_digest :: "string list \<Rightarrow> string" where
  "resume_digest frags =
     ''# Resume digest (BM25 top-3)'' @ [CHR 0x0A, CHR 0x0A] @
     concat (map (\<lambda>f. ''---'' @ [CHR 0x0A] @ take (fragment_cap f) f @ [CHR 0x0A]) frags)"

definition resume_name :: "id \<Rightarrow> string" where
  "resume_name tid = ''resume-context-'' @ tid @ ''.md''"

definition bake_resume_digest :: "externals \<Rightarrow> time \<Rightarrow> id \<Rightarrow> string \<Rightarrow> store \<Rightarrow> store" where
  "bake_resume_digest ex now tid prompt st =
     (case latest_attempt_id st tid of
        None \<Rightarrow> st
      | Some aid \<Rightarrow>
          let full_bytes = int (sum_list (map (\<lambda>e. length (e_payload e))
                (filter (\<lambda>e. e_attempt_id e = aid) (task_events st))));
              query = digest_query prompt
          in if query = [] then st
             else
               let frags = take 3 (ex_fts ex (task_events st) aid query) in
               if frags = [] then st
               else
                 let digest = resume_digest frags;
                     avoided = full_bytes - int (length digest)
                 in case save_artifact_bytes (ex_codec ex) now aid (resume_name tid) digest
                           (Some ''text/markdown'') None st of
                      (Inl _, st1) \<Rightarrow> st1
                    | (Inr _, st1) \<Rightarrow> update_attempt aid
                        (\<lambda>a. a\<lparr>a_report := (a_report a)\<lparr>r_tokens_avoided_bytes := Some avoided\<rparr>\<rparr>) st1)"

definition indent_lines :: "string \<Rightarrow> string" where
  "indent_lines s = concat (map (\<lambda>c. if c = CHR 0x0A then [CHR 0x0A, CHR '' '', CHR '' ''] else [c]) s)"

definition eval_case :: "id \<Rightarrow> string option \<Rightarrow> string \<Rightarrow> string" where
  "eval_case aid sha cmd =
     ''id: eval-case-'' @ aid @ [CHR 0x0A] @ ''created_by: attempt'' @ [CHR 0x0A] @
     ''attempt_id: '' @ aid @ [CHR 0x0A] @
     ''commit_sha: '' @ (case sha of None \<Rightarrow> [] | Some s \<Rightarrow> s) @ [CHR 0x0A] @
     ''command: |'' @ [CHR 0x0A] @ ''  '' @ indent_lines cmd @ [CHR 0x0A]"

definition stamp_eval_case ::
  "externals \<Rightarrow> time \<Rightarrow> id \<Rightarrow> string option \<Rightarrow> string option \<Rightarrow> store \<Rightarrow> store" where
  "stamp_eval_case ex now aid sha cmd st =
     (case cmd of None \<Rightarrow> st
      | Some c \<Rightarrow> snd (save_artifact_bytes (ex_codec ex) now aid (''eval-case-'' @ aid @ ''-0.yaml'')
           (eval_case aid sha c) (Some ''application/x-yaml'') None st))"

text \<open>The final targets, with the cancellation override.\<close>

definition completion_targets ::
  "attempt_row \<Rightarrow> task_row \<Rightarrow> bool \<Rightarrow> store_error + (attempt_status \<times> task_status)" where
  "completion_targets a t success =
     (case next_attempt_status (a_status a) (if success then ASucceed else AFail) of
        Inl e \<Rightarrow> Inl (TransitionError e)
      | Inr at0 \<Rightarrow>
     (case next_task_status (t_status t) (if success then TSucceed else TFail) of
        Inl e \<Rightarrow> Inl (TransitionError e)
      | Inr tt0 \<Rightarrow>
          if \<not> a_cancel_requested a then Inr (at0, tt0)
          else
     (case next_attempt_status (a_status a) ACancel of
        Inl e \<Rightarrow> Inl (TransitionError e)
      | Inr at1 \<Rightarrow>
     (case next_task_status (t_status t) TCancel of
        Inl e \<Rightarrow> Inl (TransitionError e)
      | Inr tt1 \<Rightarrow> Inr (at1, tt1)))))"

definition completion_error_code :: "complete_request \<Rightarrow> task_status \<Rightarrow> string option" where
  "completion_error_code req target =
     (case target of
        TaskFailed \<Rightarrow> (case cr_error_code req of Some e \<Rightarrow> Some e | None \<Rightarrow> Some ''agent_failed'')
      | TaskCancelled \<Rightarrow> Some ''cancelled''
      | _ \<Rightarrow> None)"

definition auto_retry :: "task_status \<Rightarrow> task_row \<Rightarrow> store \<Rightarrow> bool" where
  "auto_retry target t st =
     (target = TaskFailed \<and> ts_max_attempts (t_spec t) > 1 \<and>
      attempts_of_task st (t_id t) < ts_max_attempts (t_spec t))"

definition completed_task ::
  "time \<Rightarrow> bool \<Rightarrow> task_status \<Rightarrow> string option \<Rightarrow> task_row \<Rightarrow> task_row" where
  "completed_task now requeue target error_code t =
     (if requeue
      then t\<lparr>t_status := TaskQueued, t_finished_at := None, t_error_code := None,
             t_assigned_attempt_id := None\<rparr>
      else t\<lparr>t_status := target, t_finished_at := Some now, t_error_code := error_code,
             t_assigned_attempt_id := None\<rparr>)"

definition patch_review :: "time \<Rightarrow> id \<Rightarrow> id \<Rightarrow> id \<Rightarrow> approval_row" where
  "patch_review now apid tid aid =
     \<lparr>ap_id = apid, ap_task_id = tid, ap_attempt_id = Some aid, ap_session_id = None,
      ap_permission = json_obj [(''attempt_id'', aid), (''kind'', ''patch_review''), (''task_id'', tid)],
      ap_status = ApprovalPending, ap_reason = None, ap_actor = None, ap_created_at = now,
      ap_expires_at = now + secs 86400, ap_decided_at = None, ap_step_run_id = None,
      ap_scope = ''task_patch_review''\<rparr>"

text \<open>The transaction body once the targets are known.\<close>

definition complete_commit ::
  "time \<Rightarrow> id \<Rightarrow> attempt_row \<Rightarrow> task_row \<Rightarrow> complete_request \<Rightarrow> attempt_status \<Rightarrow> task_status \<Rightarrow>
   store \<Rightarrow> store" where
  "complete_commit now apid a t req ats tt st =
     (let st0 = finish_agent_session now (a_id a)
            (if req_success req then ''done'' else ''failed'') (cr_error_code req) st;
          st1 = update_attempt (a_id a)
            (\<lambda>r. r\<lparr>a_status := ats, a_finished_at := Some now, a_report := apply_report req (a_report r)\<rparr>)
            st0;
          st2 = (if tt = TaskSucceeded \<and> cr_commit_sha req \<noteq> None
                   \<and> sql_count (\<lambda>e. e_attempt_id e = a_id a \<and> e_type e = EvtResult) (task_events st1) = 0
                 then insert_verification_note now (a_id a) silent_success_note st1 else st1);
          st3 = record_metrics now a req st2;
          st4 = st3\<lparr>tasks := sql_update (\<lambda>r. t_id r = t_id t)
                  (completed_task now (auto_retry tt t st) tt (completion_error_code req tt)) (tasks st3)\<rparr>;
          st5 = dec_active (a_node_id a) 1 st4
      in if tt = TaskSucceeded
         then st5\<lparr>approvals := approvals st5 @ [patch_review now apid (t_id t) (a_id a)]\<rparr>
         else st5)"

definition eval_command :: "task_status \<Rightarrow> task_row \<Rightarrow> string option" where
  "eval_command tt t =
     (if tt = TaskSucceeded
      then case ts_validation_command (t_spec t) of
             None \<Rightarrow> None | Some c \<Rightarrow> if trim c = [] then None else Some c
      else None)"

definition complete_attempt ::
  "externals \<Rightarrow> time \<Rightarrow> id \<Rightarrow> id \<Rightarrow> complete_request \<Rightarrow> store \<Rightarrow> (store_error + bool) \<times> store" where
  "complete_attempt ex now apid aid req st =
     (case find_attempt st aid of
        None \<Rightarrow> (Inr False, st)
      | Some a \<Rightarrow>
          if attempt_terminal (a_status a)
          then (Inr True, audit now ''attempt'' (Some aid) ''complete.rejected_terminal''
                  (Some (attempt_status_str (a_status a))) None st)
          else
     (case find_task st (a_task_id a) of
        None \<Rightarrow> (case next_attempt_status (a_status a) (if req_success req then ASucceed else AFail) of
                   Inl e \<Rightarrow> (Inl (TransitionError e), st)
                 | Inr _ \<Rightarrow> (Inl RowNotFound, st))
      | Some t \<Rightarrow>
     (case completion_targets a t (req_success req) of
        Inl e \<Rightarrow> (Inl e, st)
      | Inr (ats, tt) \<Rightarrow>
          let committed = complete_commit now apid a t req ats tt st;
              stamped = stamp_eval_case ex now aid (cr_commit_sha req) (eval_command tt t) committed
          in (Inr True,
              if auto_retry tt t st
              then audit now ''task'' (Some (t_id t)) ''retry.auto'' (Some ''queued'') None
                     (bake_resume_digest ex now (t_id t) (ts_prompt (t_spec t)) stamped)
              else stamped))))"


section \<open>Losing attempts\<close>

record loss_retry_policy =
  lp_max_attempts :: nat
  lp_retry_allowed :: bool

definition from_columns :: "nat \<Rightarrow> bool \<Rightarrow> loss_retry_policy" where
  "from_columns max_attempts retry_on_node_loss =
     \<lparr>lp_max_attempts = max_attempts, lp_retry_allowed = retry_on_node_loss\<rparr>"

definition terminal_policy :: loss_retry_policy where
  "terminal_policy = \<lparr>lp_max_attempts = 1, lp_retry_allowed = False\<rparr>"

definition requeue_lost_attempt ::
  "id \<Rightarrow> id \<Rightarrow> id \<Rightarrow> time \<Rightarrow> string \<Rightarrow> loss_retry_policy \<Rightarrow> store \<Rightarrow> bool \<times> store" where
  "requeue_lost_attempt tid aid nid now reason policy st =
     (if \<not> lp_retry_allowed policy then (False, st)
      else if attempts_of_task st tid \<ge> lp_max_attempts policy then (False, st)
      else
        let live = (\<lambda>t. t_id t = tid \<and> \<not> task_terminal (t_status t));
            st1 = st\<lparr>tasks := sql_update live
              (\<lambda>t. t\<lparr>t_status := TaskQueued, t_finished_at := None, t_error_code := None,
                     t_assigned_attempt_id := None, t_avoid_node_id := Some nid\<rparr>) (tasks st)\<rparr>
        in if sql_count live (tasks st) \<noteq> 1 then (False, st1)
           else (True, audit now ''system'' None ''task.retry.auto'' (Some tid)
                  (Some (json_obj [(''attempt_id'', aid), (''node_id'', nid), (''reason'', reason)])) st1))"

text \<open>One iteration of the loop over a node's in-flight attempts; the policy columns
  were read with the row.\<close>

definition lose_one :: "id \<Rightarrow> time \<Rightarrow> attempt_row \<times> task_row \<Rightarrow> store \<Rightarrow> store" where
  "lose_one nid now row st =
     (let (a, t) = row;
          st1 = update_attempt (a_id a) (\<lambda>r. r\<lparr>a_status := AttemptLost, a_finished_at := Some now\<rparr>) st;
          policy = from_columns (ts_max_attempts (t_spec t)) (ts_retry_on_node_loss (t_spec t));
          (requeued, st2) =
            requeue_lost_attempt (a_task_id a) (a_id a) nid now ''node_lost'' policy st1
      in if requeued then st2
         else st2\<lparr>tasks := sql_update
                (\<lambda>t. t_id t = a_task_id a \<and> \<not> task_terminal (t_status t))
                (\<lambda>t. t\<lparr>t_status := TaskFailed, t_error_code := Some ''node_lost'',
                       t_finished_at := Some now, t_assigned_attempt_id := None\<rparr>) (tasks st2)\<rparr>)"

text \<open>\<open>attempts a JOIN tasks t ON t.id = a.task_id\<close>, restricted to the live attempts
  of the node.\<close>

definition in_flight :: "store \<Rightarrow> id \<Rightarrow> (attempt_row \<times> task_row) list" where
  "in_flight st nid =
     concat (map (\<lambda>a. map (Pair a) (filter (\<lambda>t. t_id t = a_task_id a) (tasks st)))
       (filter (\<lambda>a. a_node_id a = nid \<and> attempt_active (a_status a)) (attempts st)))"

definition lose_node_attempts :: "time \<Rightarrow> id \<Rightarrow> store \<Rightarrow> store" where
  "lose_node_attempts now nid st =
     (let rows = in_flight st nid in
      if rows = [] then st
      else dec_active nid (length rows) (fold (lose_one nid now) rows st))"

definition reject_assignment :: "time \<Rightarrow> id \<Rightarrow> string \<Rightarrow> store \<Rightarrow> bool \<times> store" where
  "reject_assignment now aid reason st =
     (case find_attempt st aid of
        None \<Rightarrow> (False, st)
      | Some a \<Rightarrow>
          if a_status a \<noteq> AttemptAssigned then (False, st)
          else
            let cas = (\<lambda>r. a_id r = aid \<and> a_status r = AttemptAssigned) in
            if sql_count cas (attempts st) \<noteq> 1 then (False, st)
            else
              let st1 = st\<lparr>attempts := sql_update cas
                    (\<lambda>r. r\<lparr>a_status := AttemptLost, a_finished_at := Some now\<rparr>) (attempts st)\<rparr>;
                  policy = (case find_task st (a_task_id a) of
                      None \<Rightarrow> terminal_policy
                    | Some t \<Rightarrow> from_columns (ts_max_attempts (t_spec t)) (ts_retry_on_node_loss (t_spec t)));
                  (requeued, st2) = requeue_lost_attempt (a_task_id a) aid (a_node_id a) now
                    ''node_rejected'' policy st1;
                  st3 = (if requeued then st2
                         else st2\<lparr>tasks := sql_update
                                (\<lambda>t. t_id t = a_task_id a \<and> t_status t = TaskAssigned)
                                (\<lambda>t. t\<lparr>t_status := TaskFailed, t_finished_at := Some now,
                                       t_assigned_attempt_id := None\<rparr>) (tasks st2)\<rparr>);
                  st4 = dec_active (a_node_id a) 1 st3
              in (True, audit now ''attempt'' (Some aid) ''attempt.node_rejected'' (Some reason) None st4))"

section \<open>Cancelling and retrying\<close>

definition request_cancel :: "id \<Rightarrow> store \<Rightarrow> store" where
  "request_cancel tid st = st\<lparr>attempts := sql_update
     (\<lambda>a. a_task_id a = tid \<and> attempt_active (a_status a))
     (\<lambda>a. a\<lparr>a_cancel_requested := True\<rparr>) (attempts st)\<rparr>"

definition cancel_task :: "time \<Rightarrow> id \<Rightarrow> store \<Rightarrow> bool \<times> store" where
  "cancel_task now tid st =
     (case find_task st tid of
        None \<Rightarrow> (False, st)
      | Some t \<Rightarrow>
          if t_status t = TaskQueued
          then (True, st\<lparr>tasks := sql_update (\<lambda>r. t_id r = tid)
                  (\<lambda>r. r\<lparr>t_status := TaskCancelled, t_finished_at := Some now,
                         t_assigned_attempt_id := None\<rparr>) (tasks st)\<rparr>)
          else if t_status t \<in> {TaskAssigned, TaskRunning, TaskValidating}
          then (True, request_cancel tid st)
          else (False, st))"

definition cancel_targets_for_task :: "store \<Rightarrow> id \<Rightarrow> (id \<times> id) list" where
  "cancel_targets_for_task st tid =
     map (\<lambda>a. (a_id a, a_node_id a))
       (filter (\<lambda>a. a_task_id a = tid \<and> a_cancel_requested a \<and> attempt_active (a_status a))
         (attempts st))"

definition attempt_cancel_requested :: "store \<Rightarrow> id \<Rightarrow> bool" where
  "attempt_cancel_requested st aid =
     (case find_attempt st aid of None \<Rightarrow> False | Some a \<Rightarrow> a_cancel_requested a)"

definition retry_task :: "externals \<Rightarrow> time \<Rightarrow> id \<Rightarrow> store \<Rightarrow> bool \<times> store" where
  "retry_task ex now tid st =
     (case find_task st tid of
        None \<Rightarrow> (False, st)
      | Some t \<Rightarrow>
          if t_status t = TaskFailed \<or> t_status t = TaskCancelled
          then (True, bake_resume_digest ex now tid (ts_prompt (t_spec t))
                 (st\<lparr>tasks := sql_update (\<lambda>r. t_id r = tid)
                   (\<lambda>r. r\<lparr>t_status := TaskQueued, t_finished_at := None,
                          t_assigned_attempt_id := None\<rparr>) (tasks st)\<rparr>))
          else (False, audit now ''task'' (Some tid) ''retry.rejected_nonterminal''
                 (Some (status_str (t_status t))) None st))"

section \<open>Leases\<close>

text \<open>One iteration of the reaper: compare-and-set on the attempt, then the task and
  the node. \<open>fence\<close> gives the token drawn for the attempt.\<close>

definition revert_one :: "time \<Rightarrow> (id \<Rightarrow> string) \<Rightarrow> attempt_row \<Rightarrow> nat \<times> store \<Rightarrow> nat \<times> store" where
  "revert_one now fence a acc =
     (let (reverted, st) = acc;
          cas = (\<lambda>r. a_id r = a_id a \<and> a_status r = AttemptAssigned)
      in if sql_count cas (attempts st) \<noteq> 1
         then (reverted,
               st\<lparr>attempts := sql_update cas
                  (\<lambda>r. r\<lparr>a_status := AttemptCancelled, a_finished_at := Some now,
                         a_fencing_token := fence (a_id a)\<rparr>) (attempts st)\<rparr>)
         else
           let st1 = st
             \<lparr>attempts := sql_update cas
                (\<lambda>r. r\<lparr>a_status := AttemptCancelled, a_finished_at := Some now,
                       a_fencing_token := fence (a_id a)\<rparr>) (attempts st),
              tasks := sql_update
                (\<lambda>t. t_id t = a_task_id a \<and> t_assigned_attempt_id t = Some (a_id a)
                     \<and> t_status t = TaskAssigned)
                (\<lambda>t. t\<lparr>t_status := TaskQueued, t_assigned_attempt_id := None\<rparr>) (tasks st)\<rparr>
           in (reverted + 1, dec_active (a_node_id a) 1 st1))"

definition expired :: "time \<Rightarrow> attempt_row \<Rightarrow> bool" where
  "expired now a =
     (a_status a = AttemptAssigned \<and>
      (case a_ack_deadline a of None \<Rightarrow> False | Some d \<Rightarrow> d < now))"

definition revert_expired_leases :: "time \<Rightarrow> (id \<Rightarrow> string) \<Rightarrow> store \<Rightarrow> nat \<times> store" where
  "revert_expired_leases now fence st =
     fold (revert_one now fence) (filter (expired now) (attempts st)) (0, st)"

text \<open>\<open>check_fencing_token\<close> of \<open>auth.rs\<close>, with the HTTP status as the error.\<close>

datatype http_status = NOT_FOUND | CONFLICT

definition check_fencing_token :: "store \<Rightarrow> id \<Rightarrow> string option \<Rightarrow> http_status + unit" where
  "check_fencing_token st aid presented =
     (case find_attempt st aid of
        None \<Rightarrow> Inl NOT_FOUND
      | Some a \<Rightarrow>
          if a_fencing_token a = []
          then (if presented = None \<or> presented = Some [] then Inr () else Inl CONFLICT)
          else if Some (a_fencing_token a) = presented then Inr () else Inl CONFLICT)"

end
