(* ===== verification/NodeOps.thy ===== *)
theory NodeOps
  imports StoreOps
begin

text \<open>
  Node registry operations of the store (\<open>store/nodes.rs\<close>, parts of
  \<open>store.rs\<close>, \<open>store/maintenance.rs\<close> and \<open>store/attempts.rs\<close>):
  enrolment and re-keying, polling, heartbeats, draining, revocation, offline detection
  and the repair of the denormalised \<open>active_attempts\<close> counter. The telemetry columns
  of a heartbeat that no store operation reads (outbox and cache sizes, relay
  announcement, sandbox flags) are left out of \<open>node_facts\<close>.
\<close>

section \<open>Enrolment\<close>

text \<open>The schema defaults of the columns an insert does not name.\<close>

definition default_facts :: node_facts where
  "default_facts = \<lparr>nf_load_avg = 0, nf_cpu_count = 0, nf_free_disk_mb = 0,
     nf_free_memory_mb = 0, nf_mem_available_mb = 0, nf_active_rss_mib = 0,
     nf_max_rss_mib = 1024, nf_permission_interception = ''wrapper'', nf_network_mode = ''none''\<rparr>"

definition create_enrollment_token ::
  "codec \<Rightarrow> time \<Rightarrow> id \<Rightarrow> string \<Rightarrow> store \<Rightarrow> (string \<times> time) \<times> store" where
  "create_enrollment_token cd now tok_id token st =
     ((token, now + secs 600), st\<lparr>enrollment_tokens := enrollment_tokens st @
        [\<lparr>et_id = tok_id, et_token_hash = sha256_hex cd token, et_expires_at = now + secs 600,
          et_used_at = None, et_node_id = None\<rparr>]\<rparr>)"

definition create_rekey_token ::
  "codec \<Rightarrow> time \<Rightarrow> id \<Rightarrow> string \<Rightarrow> id \<Rightarrow> store \<Rightarrow> (string \<times> time) option \<times> store" where
  "create_rekey_token cd now tok_id token nid st =
     (if find_node st nid = None then (None, st)
      else (Some (token, now + secs 1800), st\<lparr>enrollment_tokens := enrollment_tokens st @
        [\<lparr>et_id = tok_id, et_token_hash = sha256_hex cd token, et_expires_at = now + secs 1800,
          et_used_at = None, et_node_id = Some nid\<rparr>]\<rparr>))"

record enroll_request =
  eq_token :: string
  eq_name :: string
  eq_max_concurrency :: nat
  eq_adapters :: "string list"
  eq_repositories :: "string list"

definition use_token :: "time \<Rightarrow> id \<Rightarrow> store \<Rightarrow> store" where
  "use_token now tok_id st = st\<lparr>enrollment_tokens :=
     sql_update (\<lambda>t. et_id t = tok_id) (\<lambda>t. t\<lparr>et_used_at := Some now\<rparr>) (enrollment_tokens st)\<rparr>"

text \<open>\<open>credential\<close> and \<open>fresh_id\<close> are the two ids the call draws.\<close>

definition enroll_node ::
  "codec \<Rightarrow> time \<Rightarrow> string \<Rightarrow> id \<Rightarrow> enroll_request \<Rightarrow> store \<Rightarrow> (id \<times> string) option \<times> store" where
  "enroll_node cd now credential fresh_id req st =
     (case sql_first (\<lambda>t. et_token_hash t = sha256_hex cd (eq_token req)) (enrollment_tokens st) of
        None \<Rightarrow> (None, st)
      | Some tok \<Rightarrow>
          if et_used_at tok \<noteq> None \<or> et_expires_at tok < now then (None, st)
          else
            let cred_hash = sha256_hex cd credential in
            case et_node_id tok of
              Some target \<Rightarrow>
                if find_node st target = None then (None, st)
                else
                  let st1 = st\<lparr>nodes := sql_update (\<lambda>n. n_id n = target)
                        (\<lambda>n. n\<lparr>n_credential_hash := Some cred_hash,
                               n_status := (if n_status n = NodeRevoked then NodeOnline else n_status n),
                               n_revoked_at := (if n_status n = NodeRevoked then None else n_revoked_at n)\<rparr>)
                        (nodes st)\<rparr>
                  in (Some (target, credential),
                      use_token now (et_id tok) (audit now ''node'' (Some target) ''rekey'' None None st1))
            | None \<Rightarrow>
                let row = \<lparr>n_id = fresh_id, n_name = eq_name req, n_status = NodeOnline,
                           n_max_concurrency = eq_max_concurrency req, n_adapters = eq_adapters req,
                           n_repositories = eq_repositories req, n_active_attempts = 0,
                           n_last_heartbeat_at = Some now, n_created_at = now, n_drained = False,
                           n_revoked_at = None, n_credential_hash = Some cred_hash,
                           n_facts = default_facts\<rparr>;
                    st1 = st\<lparr>nodes := nodes st @ [row]\<rparr>
                in (Some (fresh_id, credential),
                    use_token now (et_id tok) (audit now ''node'' (Some fresh_id) ''enroll'' None None st1)))"

definition node_id_for_credential :: "codec \<Rightarrow> store \<Rightarrow> string \<Rightarrow> id option" where
  "node_id_for_credential cd st credential =
     (case sql_first (\<lambda>n. n_credential_hash n = Some (sha256_hex cd credential)) (nodes st) of
        None \<Rightarrow> None
      | Some n \<Rightarrow> if n_status n = NodeRevoked then None else Some (n_id n))"

definition attempt_owner :: "store \<Rightarrow> id \<Rightarrow> id option" where
  "attempt_owner st aid = map_option a_node_id (find_attempt st aid)"

section \<open>Polling and heartbeats\<close>

record poll_request =
  pq_node_id :: id
  pq_name :: string
  pq_adapters :: "string list"
  pq_repositories :: "string list"
  pq_max_concurrency :: nat

definition register_or_touch_node :: "time \<Rightarrow> poll_request \<Rightarrow> store \<Rightarrow> store" where
  "register_or_touch_node now req st =
     (if find_node st (pq_node_id req) = None
      then st\<lparr>nodes := nodes st @
             [\<lparr>n_id = pq_node_id req, n_name = pq_name req, n_status = NodeOnline,
               n_max_concurrency = pq_max_concurrency req, n_adapters = pq_adapters req,
               n_repositories = pq_repositories req, n_active_attempts = 0,
               n_last_heartbeat_at = Some now, n_created_at = now, n_drained = False,
               n_revoked_at = None, n_credential_hash = None, n_facts = default_facts\<rparr>]\<rparr>
      else st\<lparr>nodes := sql_update (\<lambda>n. n_id n = pq_node_id req)
             (\<lambda>n. n\<lparr>n_name := pq_name req, n_max_concurrency := pq_max_concurrency req,
                    n_adapters := pq_adapters req, n_repositories := pq_repositories req,
                    n_last_heartbeat_at := Some now,
                    n_status := (if n_status n \<in> {NodeOffline, NodePending} then NodeOnline
                                 else n_status n)\<rparr>) (nodes st)\<rparr>)"

record heartbeat_request =
  hb_status :: "node_status option"
  hb_name :: string
  hb_max_concurrency :: nat
  hb_adapters :: "string list"
  hb_repositories :: "string list"
  hb_facts :: node_facts
  hb_applied_opencode_hash :: "string option"

definition lose_node_attempts_if_offline :: "time \<Rightarrow> id \<Rightarrow> store \<Rightarrow> store" where
  "lose_node_attempts_if_offline now nid st =
     (case find_node st nid of
        None \<Rightarrow> st
      | Some n \<Rightarrow> if n_status n = NodeOffline then lose_node_attempts now nid st else st)"

definition heartbeat :: "time \<Rightarrow> id \<Rightarrow> heartbeat_request \<Rightarrow> store \<Rightarrow> bool \<times> store" where
  "heartbeat now nid req st =
     (let status = (case hb_status req of None \<Rightarrow> NodeOnline | Some s \<Rightarrow> s);
          st1 = st\<lparr>nodes := sql_update (\<lambda>n. n_id n = nid)
            (\<lambda>n. n\<lparr>n_name := hb_name req,
                   n_status := (if n_status n = NodeRevoked then NodeRevoked else status),
                   n_max_concurrency := hb_max_concurrency req,
                   n_adapters := hb_adapters req, n_repositories := hb_repositories req,
                   n_last_heartbeat_at := Some now,
                   n_facts := (hb_facts req)\<lparr>nf_max_rss_mib :=
                     (if nf_max_rss_mib (hb_facts req) > 0 then nf_max_rss_mib (hb_facts req)
                      else nf_max_rss_mib (n_facts n))\<rparr>\<rparr>) (nodes st)\<rparr>;
          affected = (sql_count (\<lambda>n. n_id n = nid) (nodes st) = 1);
          st2 = (if affected \<and> status = NodeOffline then lose_node_attempts_if_offline now nid st1
                 else st1);
          st3 = (case (hb_applied_opencode_hash req, opencode_profiles st2 nid) of
                   (Some applied, Some (pid, expected)) \<Rightarrow>
                     if applied \<noteq> expected
                     then audit now ''node'' (Some nid) ''opencode.drift'' None
                            (Some (json_obj [(''applied'', applied), (''expected'', expected),
                                             (''profile_id'', pid)])) st2
                     else st2
                 | _ \<Rightarrow> st2)
      in (affected, st3))"

section \<open>Administration\<close>

definition revoke_node :: "time \<Rightarrow> id \<Rightarrow> store \<Rightarrow> bool \<times> store" where
  "revoke_node now nid st =
     (let st1 = st\<lparr>nodes := sql_update (\<lambda>n. n_id n = nid)
            (\<lambda>n. n\<lparr>n_status := NodeRevoked, n_revoked_at := Some now\<rparr>) (nodes st)\<rparr>
      in if sql_count (\<lambda>n. n_id n = nid) (nodes st) = 1
         then (True, lose_node_attempts now nid (audit now ''node'' (Some nid) ''revoke'' None None st1))
         else (False, st1))"

definition set_node_degraded :: "id \<Rightarrow> store \<Rightarrow> store" where
  "set_node_degraded nid st = st\<lparr>nodes := sql_update
     (\<lambda>n. n_id n = nid \<and> n_status n \<noteq> NodeRevoked) (\<lambda>n. n\<lparr>n_status := NodeDegraded\<rparr>) (nodes st)\<rparr>"

definition set_node_drained :: "time \<Rightarrow> id \<Rightarrow> bool \<Rightarrow> store \<Rightarrow> bool \<times> store" where
  "set_node_drained now nid drained st =
     (let st1 = st\<lparr>nodes := sql_update (\<lambda>n. n_id n = nid) (\<lambda>n. n\<lparr>n_drained := drained\<rparr>) (nodes st)\<rparr>
      in if sql_count (\<lambda>n. n_id n = nid) (nodes st) = 1
         then (True, audit now ''user'' None (if drained then ''node.drain'' else ''node.undrain'')
                 (Some nid) None st1)
         else (False, st1))"

definition mark_node_offline :: "time \<Rightarrow> id \<Rightarrow> store \<Rightarrow> bool \<times> store" where
  "mark_node_offline now nid st =
     (let live = (\<lambda>n. n_id n = nid \<and> n_status n \<notin> {NodeOffline, NodePending, NodeRevoked});
          st1 = st\<lparr>nodes := sql_update live
            (\<lambda>n. n\<lparr>n_status := NodeOffline, n_last_heartbeat_at := Some now\<rparr>) (nodes st)\<rparr>
      in if sql_count live (nodes st) = 1 then (True, lose_node_attempts now nid st1)
         else (False, st1))"

section \<open>Maintenance\<close>

definition silent :: "time \<Rightarrow> node_row \<Rightarrow> bool" where
  "silent now n =
     (n_status n = NodeOnline \<and>
      (case n_last_heartbeat_at n of None \<Rightarrow> True | Some h \<Rightarrow> h + secs 30 < now))"

definition offline_one :: "time \<Rightarrow> node_row \<Rightarrow> store \<Rightarrow> store" where
  "offline_one now n st =
     (let cas = (\<lambda>r. n_id r = n_id n \<and> n_status r = NodeOnline);
          st1 = st\<lparr>nodes := sql_update cas (\<lambda>r. r\<lparr>n_status := NodeOffline\<rparr>) (nodes st)\<rparr>
      in if sql_count cas (nodes st) \<noteq> 1 then st1 else lose_node_attempts now (n_id n) st1)"

definition mark_offline_nodes :: "time \<Rightarrow> store \<Rightarrow> store" where
  "mark_offline_nodes now st = fold (offline_one now) (filter (silent now) (nodes st)) st"

definition active_count :: "store \<Rightarrow> id \<Rightarrow> nat" where
  "active_count st nid = sql_count (\<lambda>a. a_node_id a = nid \<and> attempt_active (a_status a)) (attempts st)"

definition reconcile_active_attempts :: "store \<Rightarrow> nat \<times> store" where
  "reconcile_active_attempts st =
     (let drifted = (\<lambda>n. n_active_attempts n \<noteq> active_count st (n_id n));
          repaired = sql_count drifted (nodes st);
          st1 = st\<lparr>nodes := sql_update drifted
            (\<lambda>n. n\<lparr>n_active_attempts := active_count st (n_id n)\<rparr>) (nodes st)\<rparr>
      in (repaired, st1\<lparr>active_attempt_drift := active_attempt_drift st1 + of_nat repaired\<rparr>))"

definition count_orphan_attempts :: "store \<Rightarrow> nat" where
  "count_orphan_attempts st = sql_count (\<lambda>a. find_task st (a_task_id a) = None) (attempts st)"

definition count_orphan_rows :: "store \<Rightarrow> nat" where
  "count_orphan_rows st =
     count_orphan_attempts st
     + sql_count (\<lambda>e. find_attempt st (e_attempt_id e) = None) (task_events st)
     + sql_count (\<lambda>r. find_attempt st (ar_attempt_id r) = None) (artifacts st)"

section \<open>Approvals\<close>

definition create_approval ::
  "time \<Rightarrow> id \<Rightarrow> id \<Rightarrow> id \<Rightarrow> id option \<Rightarrow> string \<Rightarrow> nat \<Rightarrow> id option \<Rightarrow> string \<Rightarrow> store \<Rightarrow> store" where
  "create_approval now apid tid aid session permission ttl_secs step scope st =
     st\<lparr>approvals := approvals st @ [\<lparr>ap_id = apid, ap_task_id = tid, ap_attempt_id = Some aid,
        ap_session_id = session, ap_permission = permission, ap_status = ApprovalPending,
        ap_reason = None, ap_actor = None, ap_created_at = now, ap_expires_at = now + secs ttl_secs,
        ap_decided_at = None, ap_step_run_id = step, ap_scope = scope\<rparr>]\<rparr>"

definition answer_approval ::
  "time \<Rightarrow> id \<Rightarrow> approval_event \<Rightarrow> string option \<Rightarrow> string \<Rightarrow> store \<Rightarrow> bool \<times> store" where
  "answer_approval now apid event reason actor st =
     (case sql_first (\<lambda>r. ap_id r = apid) (approvals st) of
        None \<Rightarrow> (False, st)
      | Some r \<Rightarrow>
     (case next_approval (ap_status r) event of
        Inl _ \<Rightarrow> (False, st)
      | Inr nxt \<Rightarrow>
          let pending = (\<lambda>r. ap_id r = apid \<and> ap_status r = ApprovalPending)
          in (0 < sql_count pending (approvals st),
              st\<lparr>approvals := sql_update pending
                 (\<lambda>r. r\<lparr>ap_status := nxt, ap_decided_at := Some now, ap_reason := reason,
                        ap_actor := Some actor\<rparr>) (approvals st)\<rparr>)))"

definition find_pending_patch_review :: "store \<Rightarrow> id \<Rightarrow> approval_row option" where
  "find_pending_patch_review st tid =
     (let rows = filter (\<lambda>r. ap_task_id r = tid \<and> ap_scope r = ''task_patch_review''
                             \<and> ap_status r = ApprovalPending) (approvals st)
      in case sort_key (\<lambda>r. - int (ap_created_at r)) rows of [] \<Rightarrow> None | r # _ \<Rightarrow> Some r)"

end
