(* ===== verification/Scheduler.thy ===== *)
theory Scheduler
  imports NodeOps "HOL-Library.Char_ord" "HOL-Library.List_Lexorder"
begin

text \<open>
  The scheduler (\<open>store/scheduler.rs\<close> and \<open>node_ineligibility\<close> of
  \<open>store.rs\<close>): the eligibility filter with its reasons, the admission gates, and the
  batch assignment transaction. The settings read from the environment are the fields of
  \<open>sched_env\<close>, with the defaults of the code in \<open>default_sched_env\<close>; load
  averages are rationals, so the rounding of the division by the processor count is not
  modelled. The read-only decoration of an assignment after the commit (upstream
  references, repository instincts, the resume hint) is not modelled.
\<close>

section \<open>Settings\<close>

record sched_env =
  se_free_bytes :: nat
  se_disk_critical_mb :: nat
  se_capacity_pressure :: bool
  se_min_free_mem_mb :: nat
  se_min_free_disk_mb :: nat
  se_cpus_per_node :: rat
  se_max_load_per_cpu :: rat

definition default_sched_env :: "nat \<Rightarrow> sched_env" where
  "default_sched_env free = \<lparr>se_free_bytes = free, se_disk_critical_mb = 512,
     se_capacity_pressure = True, se_min_free_mem_mb = 1024, se_min_free_disk_mb = 2048,
     se_cpus_per_node = 0, se_max_load_per_cpu = 2\<rparr>"

section \<open>Eligibility\<close>

text \<open>The reasons, before they are rendered as text.\<close>

datatype ineligible =
  NotOnline id node_status
| MissingAdapter string
| MissingRepository string
| LowHostMemory nat nat
| LowDisk nat nat
| RepoNeedsMemory nat nat
| RepoNeedsDisk nat nat
| HighLoad rat rat rat
| AtCapacity nat nat
| NeedsInterception
| NetworkExceeds string string
| LostPrevious
| RequestedNotRegistered id
| NoNodesRegistered

definition mode_rank :: "string \<Rightarrow> nat" where
  "mode_rank m = (if m = ''none'' then 0 else if m = ''restricted'' then 1
                  else if m = ''unrestricted'' then 2 else 0)"

definition free_mem :: "node_facts \<Rightarrow> nat" where
  "free_mem f = (if nf_free_memory_mb f > 0 then nf_free_memory_mb f else nf_mem_available_mb f)"

definition node_ineligibility ::
  "sched_env \<Rightarrow> node_row \<Rightarrow> string \<Rightarrow> string \<Rightarrow> string option \<Rightarrow> string option \<Rightarrow>
   repo_requirements option \<Rightarrow> ineligible list" where
  "node_ineligibility env node repository adapter security_profile task_network_mode reqs =
     (let f = n_facts node;
          mem = free_mem f;
          cpus = (if nf_cpu_count f > 0 then of_nat (nf_cpu_count f) else 1);
          task_mode = (case task_network_mode of None \<Rightarrow> ''none'' | Some m \<Rightarrow> m);
          node_mode = nf_network_mode f
      in (if n_status node \<noteq> NodeOnline then [NotOnline (n_id node) (n_status node)] else [])
       @ (if adapter \<notin> set (n_adapters node) then [MissingAdapter adapter] else [])
       @ (if \<not> list_ex (\<lambda>r. r = ''*'' \<or> r = repository) (n_repositories node)
          then [MissingRepository repository] else [])
       @ (if mem > 0 \<and> mem < se_min_free_mem_mb env then [LowHostMemory mem (se_min_free_mem_mb env)] else [])
       @ (if nf_free_disk_mb f > 0 \<and> nf_free_disk_mb f < se_min_free_disk_mb env
          then [LowDisk (nf_free_disk_mb f) (se_min_free_disk_mb env)] else [])
       @ (case reqs of None \<Rightarrow> []
          | Some r \<Rightarrow>
              (case rq_memory_mb r of None \<Rightarrow> []
               | Some m \<Rightarrow> if mem > 0 \<and> mem < m then [RepoNeedsMemory m mem] else [])
            @ (case rq_disk_mb r of None \<Rightarrow> []
               | Some d \<Rightarrow> if nf_free_disk_mb f > 0 \<and> nf_free_disk_mb f < d
                           then [RepoNeedsDisk d (nf_free_disk_mb f)] else []))
       @ (if se_max_load_per_cpu env > 0 \<and> nf_load_avg f > 0
             \<and> nf_load_avg f / cpus > se_max_load_per_cpu env
          then [HighLoad (nf_load_avg f) cpus (se_max_load_per_cpu env)] else [])
       @ (if n_active_attempts node \<ge> n_max_concurrency node
          then [AtCapacity (n_active_attempts node) (n_max_concurrency node)] else [])
       @ (case security_profile of None \<Rightarrow> []
          | Some p \<Rightarrow> if ends_with p ''-strict'' \<and> nf_permission_interception f = ''wrapper''
                      then [NeedsInterception] else [])
       @ (if mode_rank task_mode > mode_rank node_mode then [NetworkExceeds task_mode node_mode] else []))"

text \<open>The node as the scheduler's query returns it: \<open>network_mode\<close> is not among the
  selected columns, so \<open>row_to_node_view\<close> falls back to \<open>none\<close>.\<close>

definition row_to_node_view :: "node_row \<Rightarrow> node_row" where
  "row_to_node_view n = n\<lparr>n_facts := (n_facts n)\<lparr>nf_network_mode := ''none''\<rparr>\<rparr>"

definition repo_reqs :: "store \<Rightarrow> string \<Rightarrow> repo_requirements option" where
  "repo_reqs st repository =
     (case sql_first (\<lambda>r. rp_name r = repository) (repositories st) of
        None \<Rightarrow> None | Some r \<Rightarrow> rp_requirements r)"

definition task_ineligibility :: "sched_env \<Rightarrow> store \<Rightarrow> node_row \<Rightarrow> task_row \<Rightarrow> ineligible list" where
  "task_ineligibility env st nv t =
     node_ineligibility env nv (ts_repository (t_spec t)) (ts_adapter (t_spec t))
       (ts_security_profile (t_spec t)) (ts_network_mode (t_spec t))
       (repo_reqs st (ts_repository (t_spec t)))"

section \<open>Assignments\<close>

record assignment =
  as_attempt_id :: id
  as_fencing_token :: string
  as_task_id :: id
  as_number :: nat
  as_spec :: task_spec
  as_git_url :: string
  as_default_branch :: string
  as_validation_command :: "string option"
  as_read_only :: bool
  as_eval_cases :: "string list"
  as_workflow_role :: "string option"

definition eval_cases_of :: "store \<Rightarrow> id \<Rightarrow> string list" where
  "eval_cases_of st tid =
     sort (map ar_name (filter (\<lambda>r. starts_with (to_ascii_lowercase (ar_name r)) ''eval-case-''
        \<and> (\<exists>a \<in> set (attempts st). a_id a = ar_attempt_id r \<and> a_task_id a = tid)) (artifacts st)))"

definition finish_assignment ::
  "store \<Rightarrow> id \<Rightarrow> string \<Rightarrow> nat \<Rightarrow> string option \<Rightarrow> task_row \<Rightarrow> assignment" where
  "finish_assignment st aid fence number role t =
     (let repo = sql_first (\<lambda>r. rp_name r = ts_repository (t_spec t)) (repositories st)
      in \<lparr>as_attempt_id = aid, as_fencing_token = fence, as_task_id = t_id t, as_number = number,
          as_spec = t_spec t,
          as_git_url = (case repo of None \<Rightarrow> [] | Some r \<Rightarrow> rp_git_url r),
          as_default_branch = (case repo of None \<Rightarrow> [] | Some r \<Rightarrow> rp_default_branch r),
          as_validation_command = (case ts_validation_command (t_spec t) of
             Some c \<Rightarrow> Some c
           | None \<Rightarrow> (case repo of None \<Rightarrow> None | Some r \<Rightarrow> rp_validation_command r)),
          as_read_only = (role = Some ''verifier''),
          as_eval_cases = (if number > 1 then eval_cases_of st (t_id t) else []),
          as_workflow_role = role\<rparr>)"

definition unacked_assignments :: "store \<Rightarrow> id \<Rightarrow> assignment list" where
  "unacked_assignments st nid =
     concat (map (\<lambda>a. case find_task st (a_task_id a) of
          None \<Rightarrow> []
        | Some t \<Rightarrow> [finish_assignment st (a_id a) (a_fencing_token a) (a_number a)
                       (map_of (step_roles st) (t_id t)) t])
       (sort_key a_started_at
         (filter (\<lambda>a. a_node_id a = nid \<and> a_status a = AttemptAssigned) (attempts st))))"

text \<open>The queue as one node sees it.\<close>

definition other_online :: "store \<Rightarrow> id \<Rightarrow> nat" where
  "other_online st nid =
     sql_count (\<lambda>n. n_id n \<noteq> nid \<and> n_status n = NodeOnline \<and> \<not> n_drained n) (nodes st)"

definition candidates :: "store \<Rightarrow> id \<Rightarrow> task_row list" where
  "candidates st nid = sort_key t_created_at (filter (\<lambda>t.
       t_status t = TaskQueued
     \<and> (ts_requested_node_id (t_spec t) = None \<or> ts_requested_node_id (t_spec t) = Some nid)
     \<and> (t_avoid_node_id t = None \<or> t_avoid_node_id t \<noteq> Some nid \<or> other_online st nid = 0))
     (tasks st))"

text \<open>The filter loop, which stops at the cap.\<close>

definition eligible_tasks :: "sched_env \<Rightarrow> store \<Rightarrow> node_row \<Rightarrow> nat \<Rightarrow> task_row list \<Rightarrow> task_row list" where
  "eligible_tasks env st nv cap cands =
     take cap (filter (\<lambda>t. task_ineligibility env st nv t = []) cands)"

definition ASSIGNMENT_LEASE_SECS :: nat where
  "ASSIGNMENT_LEASE_SECS = 30"

definition ACK_DEADLINE_SECS :: nat where
  "ACK_DEADLINE_SECS = 30"

definition new_attempt :: "time \<Rightarrow> id \<Rightarrow> id \<Rightarrow> nat \<Rightarrow> id \<Rightarrow> string \<Rightarrow> attempt_row" where
  "new_attempt now aid tid number nid fence =
     \<lparr>a_id = aid, a_task_id = tid, a_number = number, a_node_id = nid, a_status = AttemptAssigned,
      a_lease_expires_at = Some (now + secs ASSIGNMENT_LEASE_SECS),
      a_ack_deadline = Some (now + secs ACK_DEADLINE_SECS), a_started_at = now,
      a_finished_at = None, a_validated_at = None, a_fencing_token = fence,
      a_cancel_requested = False, a_report = empty_report\<rparr>"

text \<open>One iteration of the assignment loop. \<open>draw\<close> gives the attempt id and the
  fencing token drawn for a task; the lookups were made on the store at the start of the
  transaction, \<open>st0\<close>.\<close>

definition assign_one ::
  "time \<Rightarrow> (id \<Rightarrow> id \<times> string) \<Rightarrow> id \<Rightarrow> store \<Rightarrow> task_row \<Rightarrow> assignment list \<times> store \<Rightarrow>
   assignment list \<times> store" where
  "assign_one now draw nid st0 t acc =
     (let (batch, st) = acc;
          (aid, fence) = draw (t_id t);
          number = attempts_of_task st0 (t_id t) + 1;
          cas = (\<lambda>r. t_id r = t_id t \<and> t_status r = TaskQueued);
          st1 = st\<lparr>tasks := sql_update cas
            (\<lambda>r. r\<lparr>t_status := TaskAssigned, t_assigned_attempt_id := Some aid,
                   t_avoid_node_id := None\<rparr>) (tasks st)\<rparr>
      in if sql_count cas (tasks st) \<noteq> 1 then (batch, st1)
         else (batch @ [finish_assignment st0 aid fence number (map_of (rev (step_roles st0)) (t_id t)) t],
               st1\<lparr>attempts := attempts st1 @ [new_attempt now aid (t_id t) number nid fence]\<rparr>))"

text \<open>The admission gates, in the order of the code. \<open>Admit\<close> carries the cap.\<close>

datatype gate_result = Refuse | Pressure nat nat nat | Admit nat

definition admission :: "sched_env \<Rightarrow> node_row \<Rightarrow> nat \<Rightarrow> gate_result" where
  "admission env n limit =
     (let f = n_facts n;
          free_slots = n_max_concurrency n - n_active_attempts n;
          projected = nf_active_rss_mib f + min free_slots limit * 256;
          mem = free_mem f;
          cpus = (if se_cpus_per_node env > 0 then se_cpus_per_node env
                  else of_nat (max (nf_cpu_count f) 1));
          cap = min limit free_slots
      in if se_capacity_pressure env \<and> projected > nf_max_rss_mib f
         then Pressure (nf_max_rss_mib f) (nf_active_rss_mib f) projected
         else if mem > 0 \<and> mem < se_min_free_mem_mb env then Refuse
         else if nf_free_disk_mb f > 0 \<and> nf_free_disk_mb f < se_min_free_disk_mb env then Refuse
         else if se_max_load_per_cpu env > 0 \<and> nf_load_avg f > 0
                 \<and> nf_load_avg f / cpus > se_max_load_per_cpu env then Refuse
         else if cap = 0 then Refuse
         else Admit cap)"

definition try_assign_batch ::
  "sched_env \<Rightarrow> time \<Rightarrow> (id \<Rightarrow> id \<times> string) \<Rightarrow> id \<Rightarrow> nat \<Rightarrow> store \<Rightarrow> assignment list \<times> store" where
  "try_assign_batch env now draw nid limit st =
     (let free = se_free_bytes env div (1024 * 1024) in
      if se_disk_critical_mb env > 0 \<and> free < se_disk_critical_mb env then ([], st)
      else if (case find_node st nid of None \<Rightarrow> False | Some n \<Rightarrow> n_drained n) then ([], st)
      else if limit = 0 then ([], st)
      else case find_node st nid of
        None \<Rightarrow> ([], st)
      | Some n \<Rightarrow>
     (case admission env n limit of
        Refuse \<Rightarrow> ([], st)
      | Pressure max_rss active_rss projected \<Rightarrow>
          ([], st\<lparr>capacity_pressure := capacity_pressure st @ [(nid, max_rss, active_rss, projected)]\<rparr>)
      | Admit cap \<Rightarrow>
          let el = eligible_tasks env st (row_to_node_view n) cap (candidates st nid) in
          if el = [] then ([], st)
          else
            let (batch, st1) = fold (assign_one now draw nid st) el ([], st)
            in if batch = [] then ([], st)
               else (batch, inc_active nid (length batch) st1)))"

definition try_assign ::
  "sched_env \<Rightarrow> time \<Rightarrow> (id \<Rightarrow> id \<times> string) \<Rightarrow> id \<Rightarrow> store \<Rightarrow> assignment option \<times> store" where
  "try_assign env now draw nid st =
     (let (b, st1) = try_assign_batch env now draw nid 1 st
      in ((case b of [] \<Rightarrow> None | x # _ \<Rightarrow> Some x), st1))"

section \<open>Eligibility report\<close>

text \<open>\<open>list_nodes(None, None)\<close>: the first page of a hundred, by creation time and
  id.\<close>

definition list_nodes :: "store \<Rightarrow> node_row list" where
  "list_nodes st = map row_to_node_view (take 100 (sort_key n_created_at (sort_key n_id (nodes st))))"

record node_eligibility =
  ne_node_id :: id
  ne_status :: node_status
  ne_eligible :: bool
  ne_reasons :: "ineligible list"

record task_eligibility_view =
  te_task_id :: id
  te_no_eligible_nodes :: "ineligible list"
  te_nodes :: "node_eligibility list"

text \<open>The first occurrence of every element, in order.\<close>

definition dedup :: "'a list \<Rightarrow> 'a list" where
  "dedup xs = rev (remdups (rev xs))"

definition summary_reasons :: "id option \<Rightarrow> node_eligibility list \<Rightarrow> ineligible list" where
  "summary_reasons requested ns =
     (if list_ex ne_eligible ns then []
      else let out = dedup (concat (map ne_reasons ns))
           in if out = []
              then [case requested of Some i \<Rightarrow> RequestedNotRegistered i | None \<Rightarrow> NoNodesRegistered]
              else out)"

definition node_report :: "sched_env \<Rightarrow> store \<Rightarrow> task_row \<Rightarrow> bool \<Rightarrow> node_row \<Rightarrow> node_eligibility" where
  "node_report env st t avoid_blocked n =
     (let reasons = task_ineligibility env st n t
            @ (if avoid_blocked \<and> t_avoid_node_id t = Some (n_id n) then [LostPrevious] else [])
      in \<lparr>ne_node_id = n_id n, ne_status = n_status n, ne_eligible = (reasons = []),
          ne_reasons = reasons\<rparr>)"

definition task_eligibility :: "sched_env \<Rightarrow> store \<Rightarrow> id \<Rightarrow> task_eligibility_view option" where
  "task_eligibility env st tid =
     (case find_task st tid of
        None \<Rightarrow> None
      | Some t \<Rightarrow>
          let all = list_nodes st;
              avoid_blocked = (case t_avoid_node_id t of None \<Rightarrow> False
                | Some i \<Rightarrow> list_ex (\<lambda>n. n_id n \<noteq> i \<and> n_status n = NodeOnline) all);
              considered = (case ts_requested_node_id (t_spec t) of
                  Some i \<Rightarrow> filter (\<lambda>n. n_id n = i) all | None \<Rightarrow> all);
              ns = map (node_report env st t avoid_blocked) considered
          in Some \<lparr>te_task_id = tid,
                   te_no_eligible_nodes = summary_reasons (ts_requested_node_id (t_spec t)) ns,
                   te_nodes = ns\<rparr>)"

end
