(* ===== verification/StoreCore.thy ===== *)
theory StoreCore
  imports Scheduler
begin

text \<open>
  An abstract specification of the store's lifecycle and the proof that every operation
  implements it. The abstract state, \<open>core\<close>, keeps of each task its status and
  the attempt it points at, of each attempt its task, node and status, and of each node
  its counter of active attempts. \<open>core_step\<close> lists the only changes the
  specification allows, each guarded by the lifecycle machines, and \<open>core_inv\<close> is its
  invariant: an active attempt and its task point at each other with matching statuses, a
  task with no attempt is queued or finished, and the counters count.
\<close>

section \<open>Abstract state and steps\<close>

record core =
  c_tasks :: "id \<rightharpoonup> task_status \<times> id option"
  c_attempts :: "id \<rightharpoonup> id \<times> id \<times> attempt_status"
  c_active :: "id \<rightharpoonup> nat"

inductive core_step :: "core \<Rightarrow> core \<Rightarrow> bool" where
  new_task: "c_tasks c t = None \<Longrightarrow>
    core_step c (c\<lparr>c_tasks := (c_tasks c)(t \<mapsto> (TaskQueued, None))\<rparr>)"
| new_node: "c_active c n = None \<Longrightarrow>
    core_step c (c\<lparr>c_active := (c_active c)(n \<mapsto> 0)\<rparr>)"
| assign: "c_tasks c t = Some (TaskQueued, x) \<Longrightarrow> c_attempts c a = None \<Longrightarrow>
    c_active c n = Some k \<Longrightarrow>
    core_step c (c\<lparr>c_tasks := (c_tasks c)(t \<mapsto> (TaskAssigned, Some a)),
                  c_attempts := (c_attempts c)(a \<mapsto> (t, n, AttemptAssigned)),
                  c_active := (c_active c)(n \<mapsto> Suc k)\<rparr>)"
| advance: "c_attempts c a = Some (t, n, s) \<Longrightarrow> next_attempt_status s e = Inr s' \<Longrightarrow>
    attempt_active s' \<Longrightarrow>
    core_step c (c\<lparr>c_tasks := (c_tasks c)(t \<mapsto> (task_of_attempt s', Some a)),
                  c_attempts := (c_attempts c)(a \<mapsto> (t, n, s'))\<rparr>)"
| finish: "c_attempts c a = Some (t, n, s) \<Longrightarrow> next_attempt_status s e = Inr s' \<Longrightarrow>
    attempt_terminal s' \<Longrightarrow> ts \<in> {task_of_attempt s', TaskQueued} \<Longrightarrow>
    c_active c n = Some k \<Longrightarrow>
    core_step c (c\<lparr>c_tasks := (c_tasks c)(t \<mapsto> (ts, None)),
                  c_attempts := (c_attempts c)(a \<mapsto> (t, n, s')),
                  c_active := (c_active c)(n \<mapsto> k - 1)\<rparr>)"
| cancel_queued: "c_tasks c t = Some (TaskQueued, x) \<Longrightarrow>
    core_step c (c\<lparr>c_tasks := (c_tasks c)(t \<mapsto> (TaskCancelled, None))\<rparr>)"
| retry: "c_tasks c t = Some (s, x) \<Longrightarrow> s \<in> {TaskFailed, TaskCancelled} \<Longrightarrow>
    core_step c (c\<lparr>c_tasks := (c_tasks c)(t \<mapsto> (TaskQueued, None))\<rparr>)"

inductive_cases core_stepE: "core_step c c'"

section \<open>The invariant\<close>

definition active_on :: "(id \<rightharpoonup> id \<times> id \<times> attempt_status) \<Rightarrow> id \<Rightarrow> id set" where
  "active_on m n = {a. \<exists>t s. m a = Some (t, n, s) \<and> attempt_active s}"

definition idle :: "task_status \<Rightarrow> bool" where
  "idle s \<longleftrightarrow> s = TaskQueued \<or> task_terminal s"

definition counts_ok :: "core \<Rightarrow> bool" where
  "counts_ok c \<longleftrightarrow> finite (dom (c_attempts c)) \<and>
     (\<forall>n k. c_active c n = Some k \<longrightarrow> k = card (active_on (c_attempts c) n))"

definition core_inv :: "core \<Rightarrow> bool" where
  "core_inv c \<longleftrightarrow>
     (\<forall>a t n s. c_attempts c a = Some (t, n, s) \<longrightarrow> c_tasks c t \<noteq> None \<and> c_active c n \<noteq> None)
   \<and> (\<forall>a t n s. c_attempts c a = Some (t, n, s) \<longrightarrow> attempt_active s \<longrightarrow>
        c_tasks c t = Some (task_of_attempt s, Some a))
   \<and> (\<forall>t s. c_tasks c t = Some (s, None) \<longrightarrow> idle s)
   \<and> (\<forall>t s a. c_tasks c t = Some (s, Some a) \<longrightarrow>
        (\<exists>n s'. c_attempts c a = Some (t, n, s') \<and> attempt_active s'))
   \<and> counts_ok c"

declare attempt_active.simps [simp del] attempt_terminal.simps [simp del] task_terminal.simps [simp del]

lemma core_invI:
  assumes "\<And>a t n s. c_attempts c a = Some (t, n, s) \<Longrightarrow> c_tasks c t \<noteq> None \<and> c_active c n \<noteq> None"
    and "\<And>a t n s. c_attempts c a = Some (t, n, s) \<Longrightarrow> attempt_active s \<Longrightarrow>
           c_tasks c t = Some (task_of_attempt s, Some a)"
    and "\<And>t s. c_tasks c t = Some (s, None) \<Longrightarrow> idle s"
    and "\<And>t s a. c_tasks c t = Some (s, Some a) \<Longrightarrow>
           \<exists>n s'. c_attempts c a = Some (t, n, s') \<and> attempt_active s'"
    and "counts_ok c"
  shows "core_inv c"
  unfolding core_inv_def using assms by blast

lemma core_inv_counts: "core_inv c \<Longrightarrow> counts_ok c"
  by (simp add: core_inv_def)

lemma core_inv_refs:
  "core_inv c \<Longrightarrow> c_attempts c a = Some (t, n, s) \<Longrightarrow> c_tasks c t \<noteq> None \<and> c_active c n \<noteq> None"
  unfolding core_inv_def by blast

lemma core_inv_attempt:
  "core_inv c \<Longrightarrow> c_attempts c a = Some (t, n, s) \<Longrightarrow> attempt_active s \<Longrightarrow>
   c_tasks c t = Some (task_of_attempt s, Some a)"
  unfolding core_inv_def by blast

lemma core_inv_none: "core_inv c \<Longrightarrow> c_tasks c t = Some (s, None) \<Longrightarrow> idle s"
  unfolding core_inv_def by blast

lemma core_inv_ptr:
  "core_inv c \<Longrightarrow> c_tasks c t = Some (s, Some a) \<Longrightarrow>
   \<exists>n s'. c_attempts c a = Some (t, n, s') \<and> attempt_active s'"
  unfolding core_inv_def by blast

lemma not_idle_active: "attempt_active s \<Longrightarrow> \<not> idle (task_of_attempt s)"
  by (cases s) (auto simp: idle_def task_terminal.simps attempt_active.simps)

lemma idle_terminal: "attempt_terminal s \<Longrightarrow> idle (task_of_attempt s)"
  by (cases s) (auto simp: idle_def task_terminal.simps attempt_terminal.simps)

lemma core_inv_pointer:
  assumes "core_inv c" "c_tasks c t = Some (s, Some a)"
  obtains n s' where "c_attempts c a = Some (t, n, s')" "attempt_active s'" "s = task_of_attempt s'"
  using core_inv_ptr [OF assms] core_inv_attempt [OF assms(1)] assms(2) by fastforce

lemma core_inv_idle:
  assumes "core_inv c" "c_tasks c t = Some (s, x)" "idle s"
  shows "x = None" and "c_attempts c a = Some (t, n, s') \<Longrightarrow> \<not> attempt_active s'"
proof -
  show "x = None"
  proof (cases x)
    case (Some b)
    with assms obtain n s' where "attempt_active s'" "s = task_of_attempt s'"
      using core_inv_pointer by blast
    then show ?thesis using assms(3) not_idle_active by blast
  qed
  then show "c_attempts c a = Some (t, n, s') \<Longrightarrow> \<not> attempt_active s'"
    using assms core_inv_attempt by fastforce
qed

lemma core_inv_node:
  assumes "core_inv c" "c_attempts c a = Some (t, n, s)"
  obtains k where "c_active c n = Some k" "k = card (active_on (c_attempts c) n)"
  using core_inv_refs [OF assms] core_inv_counts [OF assms(1)] unfolding counts_ok_def by blast

lemma active_on_upd:
  "active_on (m(a \<mapsto> (t, n, s))) n' =
     (if n' = n \<and> attempt_active s then insert a (active_on m n') else active_on m n' - {a})"
  by (auto simp: active_on_def)

lemma finite_active_on: "finite (dom m) \<Longrightarrow> finite (active_on m n)"
  by (rule finite_subset [of _ "dom m"]) (auto simp: active_on_def)

lemma in_active_on: "m a = Some (t, n, s) \<Longrightarrow> a \<in> active_on m n' \<longleftrightarrow> n' = n \<and> attempt_active s"
  by (auto simp: active_on_def)

lemma not_in_active_on: "m a = None \<Longrightarrow> a \<notin> active_on m n"
  by (auto simp: active_on_def)

section \<open>Every step keeps the invariant\<close>

lemma counts_upd_active:
  assumes "counts_ok c" "c_attempts c a = Some (t, n, s)" "attempt_active s" "attempt_active s'"
  shows "counts_ok (c\<lparr>c_tasks := T, c_attempts := (c_attempts c)(a \<mapsto> (t, n, s'))\<rparr>)"
proof -
  have "active_on ((c_attempts c)(a \<mapsto> (t, n, s'))) m = active_on (c_attempts c) m" for m
    using assms by (auto simp: active_on_upd in_active_on)
  then show ?thesis using assms(1) by (simp add: counts_ok_def)
qed

lemma counts_finish:
  assumes "counts_ok c" "c_attempts c a = Some (t, n, s)" "attempt_active s" "\<not> attempt_active s'"
    "c_active c n = Some k"
  shows "counts_ok (c\<lparr>c_tasks := T, c_attempts := (c_attempts c)(a \<mapsto> (t, n, s')),
                     c_active := (c_active c)(n \<mapsto> k - 1)\<rparr>)"
proof -
  let ?m' = "(c_attempts c)(a \<mapsto> (t, n, s'))"
  have fin: "finite (active_on (c_attempts c) n)" and k: "k = card (active_on (c_attempts c) n)"
    using assms(1,5) by (auto simp: counts_ok_def finite_active_on)
  have on: "active_on ?m' n = active_on (c_attempts c) n - {a}"
    "n' \<noteq> n \<Longrightarrow> active_on ?m' n' = active_on (c_attempts c) n'" for n'
    using assms(2,4) by (auto simp: active_on_upd in_active_on)
  have "a \<in> active_on (c_attempts c) n" using assms(2,3) by (simp add: in_active_on)
  then have "card (active_on ?m' n) = k - 1" using on(1) k fin by simp
  then show ?thesis using assms(1) on(2) by (simp add: counts_ok_def)
qed

lemma counts_assign:
  assumes "counts_ok c" "c_attempts c a = None" "c_active c n = Some k"
  shows "counts_ok (c\<lparr>c_tasks := T, c_attempts := (c_attempts c)(a \<mapsto> (t, n, AttemptAssigned)),
                     c_active := (c_active c)(n \<mapsto> Suc k)\<rparr>)"
proof -
  let ?m' = "(c_attempts c)(a \<mapsto> (t, n, AttemptAssigned))"
  have fin: "finite (active_on (c_attempts c) n)" and k: "k = card (active_on (c_attempts c) n)"
    using assms(1,3) by (auto simp: counts_ok_def finite_active_on)
  have a: "a \<notin> active_on (c_attempts c) n'" for n' using assms(2) by (rule not_in_active_on)
  then have "active_on ?m' n = insert a (active_on (c_attempts c) n)"
    "n' \<noteq> n \<Longrightarrow> active_on ?m' n' = active_on (c_attempts c) n'" for n'
    by (auto simp: active_on_upd attempt_active.simps)
  then show ?thesis using assms(1) k fin a by (simp add: counts_ok_def)
qed

lemma counts_tasks: "counts_ok c \<Longrightarrow> counts_ok (c\<lparr>c_tasks := T\<rparr>)"
  by (simp add: counts_ok_def)

lemma counts_new_node:
  assumes "counts_ok c" "active_on (c_attempts c) n = {}"
  shows "counts_ok (c\<lparr>c_active := (c_active c)(n \<mapsto> 0)\<rparr>)"
  using assms by (simp add: counts_ok_def)

lemma inv_idle_task:
  assumes "core_inv c" "\<And>a n s. c_attempts c a = Some (t, n, s) \<Longrightarrow> \<not> attempt_active s" "idle s'"
  shows "core_inv (c\<lparr>c_tasks := (c_tasks c)(t \<mapsto> (s', None))\<rparr>)" (is "core_inv ?c")
proof (rule core_invI)
  show "counts_ok ?c" using counts_tasks [OF core_inv_counts [OF assms(1)]] .
  fix a t' n s
  show "c_attempts ?c a = Some (t', n, s) \<Longrightarrow> c_tasks ?c t' \<noteq> None \<and> c_active ?c n \<noteq> None"
    using core_inv_refs [OF assms(1), of a t' n s] by auto
  show "c_attempts ?c a = Some (t', n, s) \<Longrightarrow> attempt_active s \<Longrightarrow>
      c_tasks ?c t' = Some (task_of_attempt s, Some a)"
    using core_inv_attempt [OF assms(1), of a t' n s] assms(2) [of a n s] by auto
next
  fix t' s
  show "c_tasks ?c t' = Some (s, None) \<Longrightarrow> idle s"
    using core_inv_none [OF assms(1), of t' s] assms(3) by (auto split: if_splits)
next
  fix t' s a
  show "c_tasks ?c t' = Some (s, Some a) \<Longrightarrow>
      \<exists>n s'. c_attempts ?c a = Some (t', n, s') \<and> attempt_active s'"
    using core_inv_ptr [OF assms(1), of t' s a] by (auto split: if_splits)
qed

lemma inv_new_task:
  assumes "core_inv c" "c_tasks c t = None"
  shows "core_inv (c\<lparr>c_tasks := (c_tasks c)(t \<mapsto> (TaskQueued, None))\<rparr>)"
proof (rule inv_idle_task [OF assms(1)])
  fix a n s assume "c_attempts c a = Some (t, n, s)"
  then show "\<not> attempt_active s" using core_inv_refs [OF assms(1)] assms(2) by blast
qed (simp add: idle_def)

lemma inv_new_node:
  assumes "core_inv c" "c_active c n = None"
  shows "core_inv (c\<lparr>c_active := (c_active c)(n \<mapsto> 0)\<rparr>)"
proof -
  have "active_on (c_attempts c) n = {}"
    using core_inv_refs [OF assms(1)] assms(2) unfolding active_on_def by blast
  then have "counts_ok (c\<lparr>c_active := (c_active c)(n \<mapsto> 0)\<rparr>)"
    using counts_new_node core_inv_counts [OF assms(1)] by blast
  then show ?thesis
    using core_inv_refs [OF assms(1)] core_inv_attempt [OF assms(1)] core_inv_none [OF assms(1)]
      core_inv_ptr [OF assms(1)]
    by (intro core_invI) auto
qed

lemma inv_settle:
  assumes "core_inv c" "c_tasks c t = Some (s, x)" "idle s" "idle s'"
  shows "core_inv (c\<lparr>c_tasks := (c_tasks c)(t \<mapsto> (s', None))\<rparr>)"
  by (rule inv_idle_task [OF assms(1) core_inv_idle(2) [OF assms(1-3)] assms(4)])

lemma inv_assign:
  assumes "core_inv c" "c_tasks c t = Some (TaskQueued, x)" "c_attempts c a = None"
    "c_active c n = Some k"
  shows "core_inv (c\<lparr>c_tasks := (c_tasks c)(t \<mapsto> (TaskAssigned, Some a)),
                   c_attempts := (c_attempts c)(a \<mapsto> (t, n, AttemptAssigned)),
                   c_active := (c_active c)(n \<mapsto> Suc k)\<rparr>)" (is "core_inv ?c")
proof (rule core_invI)
  have off: "c_attempts c a' = Some (t, n', s') \<Longrightarrow> \<not> attempt_active s'" for a' n' s'
    using core_inv_idle(2) [OF assms(1,2)] by (simp add: idle_def)
  show "counts_ok ?c" using counts_assign [OF core_inv_counts [OF assms(1)] assms(3,4)] .
  fix a' t' n' s'
  show "c_attempts ?c a' = Some (t', n', s') \<Longrightarrow> c_tasks ?c t' \<noteq> None \<and> c_active ?c n' \<noteq> None"
    using core_inv_refs [OF assms(1), of a' t' n' s'] by (auto split: if_splits)
  show "c_attempts ?c a' = Some (t', n', s') \<Longrightarrow> attempt_active s' \<Longrightarrow>
      c_tasks ?c t' = Some (task_of_attempt s', Some a')"
    using core_inv_attempt [OF assms(1), of a' t' n' s'] off by (auto split: if_splits)
next
  fix t' s'
  show "c_tasks ?c t' = Some (s', None) \<Longrightarrow> idle s'"
    using core_inv_none [OF assms(1), of t' s'] by (auto split: if_splits)
next
  fix t' s' a'
  show "c_tasks ?c t' = Some (s', Some a') \<Longrightarrow>
      \<exists>n s'. c_attempts ?c a' = Some (t', n, s') \<and> attempt_active s'"
    using core_inv_ptr [OF assms(1), of t' s' a'] assms(3)
    by (auto simp: attempt_active.simps split: if_splits)
qed

lemma inv_advance:
  assumes "core_inv c" "c_attempts c a = Some (t, n, s)" "next_attempt_status s e = Inr s'"
    "attempt_active s'"
  shows "core_inv (c\<lparr>c_tasks := (c_tasks c)(t \<mapsto> (task_of_attempt s', Some a)),
                   c_attempts := (c_attempts c)(a \<mapsto> (t, n, s'))\<rparr>)" (is "core_inv ?c")
proof (rule core_invI)
  have act: "attempt_active s"
    using attempt.accepted_not_terminal [OF assms(3)] attempt_active_terminal by blast
  have tsk: "c_tasks c t = Some (task_of_attempt s, Some a)"
    using core_inv_attempt [OF assms(1,2) act] .
  show "counts_ok ?c"
    using counts_upd_active [OF core_inv_counts [OF assms(1)] assms(2) act assms(4)] .
  fix a' t' n' s''
  show "c_attempts ?c a' = Some (t', n', s'') \<Longrightarrow> c_tasks ?c t' \<noteq> None \<and> c_active ?c n' \<noteq> None"
    using core_inv_refs [OF assms(1), of a' t' n' s''] core_inv_refs [OF assms(1,2)]
    by (auto split: if_splits)
  show "c_attempts ?c a' = Some (t', n', s'') \<Longrightarrow> attempt_active s'' \<Longrightarrow>
      c_tasks ?c t' = Some (task_of_attempt s'', Some a')"
    using core_inv_attempt [OF assms(1), of a' t' n' s''] tsk by (auto split: if_splits)
next
  fix t' s''
  show "c_tasks ?c t' = Some (s'', None) \<Longrightarrow> idle s''"
    using core_inv_none [OF assms(1), of t' s''] by (auto split: if_splits)
next
  fix t' s'' a'
  show "c_tasks ?c t' = Some (s'', Some a') \<Longrightarrow>
      \<exists>n s'. c_attempts ?c a' = Some (t', n, s') \<and> attempt_active s'"
    using core_inv_ptr [OF assms(1), of t' s'' a'] assms(2,4) by (auto split: if_splits)
qed

lemma inv_finish:
  assumes "core_inv c" "c_attempts c a = Some (t, n, s)" "next_attempt_status s e = Inr s'"
    "attempt_terminal s'" "ts \<in> {task_of_attempt s', TaskQueued}" "c_active c n = Some k"
  shows "core_inv (c\<lparr>c_tasks := (c_tasks c)(t \<mapsto> (ts, None)),
                   c_attempts := (c_attempts c)(a \<mapsto> (t, n, s')),
                   c_active := (c_active c)(n \<mapsto> k - 1)\<rparr>)" (is "core_inv ?c")
proof (rule core_invI)
  have act: "attempt_active s"
    using attempt.accepted_not_terminal [OF assms(3)] attempt_active_terminal by blast
  have tsk: "c_tasks c t = Some (task_of_attempt s, Some a)"
    using core_inv_attempt [OF assms(1,2) act] .
  have off: "\<not> attempt_active s'" using assms(4) attempt_active_terminal by blast
  show "counts_ok ?c"
    using counts_finish [OF core_inv_counts [OF assms(1)] assms(2) act off assms(6)] .
  fix a' t' n' s''
  show "c_attempts ?c a' = Some (t', n', s'') \<Longrightarrow> c_tasks ?c t' \<noteq> None \<and> c_active ?c n' \<noteq> None"
    using core_inv_refs [OF assms(1), of a' t' n' s''] by (auto split: if_splits)
  show "c_attempts ?c a' = Some (t', n', s'') \<Longrightarrow> attempt_active s'' \<Longrightarrow>
      c_tasks ?c t' = Some (task_of_attempt s'', Some a')"
    using core_inv_attempt [OF assms(1), of a' t' n' s''] tsk off by (auto split: if_splits)
next
  fix t' s''
  have "idle ts" using assms(4,5) idle_terminal by (auto simp: idle_def)
  then show "c_tasks ?c t' = Some (s'', None) \<Longrightarrow> idle s''"
    using core_inv_none [OF assms(1), of t' s''] by (auto split: if_splits)
next
  fix t' s'' a'
  show "c_tasks ?c t' = Some (s'', Some a') \<Longrightarrow>
      \<exists>n s'. c_attempts ?c a' = Some (t', n, s') \<and> attempt_active s'"
    using core_inv_ptr [OF assms(1), of t' s'' a'] assms(2) by (auto split: if_splits)
qed

lemma core_step_inv: "core_step c c' \<Longrightarrow> core_inv c \<Longrightarrow> core_inv c'"
proof (induction rule: core_step.induct)
  case (cancel_queued c t x)
  then show ?case by (rule_tac inv_settle) (auto simp: idle_def task_terminal.simps)
next
  case (retry c t s x)
  then show ?case by (rule_tac inv_settle) (auto simp: idle_def task_terminal.simps)
qed (simp_all only: inv_new_task inv_new_node inv_assign inv_advance inv_finish)

lemma core_steps_inv: "core_step\<^sup>*\<^sup>* c c' \<Longrightarrow> core_inv c \<Longrightarrow> core_inv c'"
  by (induction rule: rtranclp_induct) (auto intro: core_step_inv)

end
