(* ===== verification/StoreInv.thy ===== *)
theory StoreInv
  imports StoreCore
begin

text \<open>
  Every store operation implements the abstract specification of \<open>StoreCore\<close>:
  on a store that satisfies the invariant, the projection to the abstract state moves by
  abstract steps, and the primary keys stay unique.
\<close>

section \<open>The projection\<close>

definition task_val :: "task_row \<Rightarrow> task_status \<times> id option" where
  "task_val t = (t_status t, t_assigned_attempt_id t)"

definition attempt_val :: "attempt_row \<Rightarrow> id \<times> id \<times> attempt_status" where
  "attempt_val a = (a_task_id a, a_node_id a, a_status a)"

definition core_of :: "store \<Rightarrow> core" where
  "core_of st = \<lparr>c_tasks = table_map t_id task_val (tasks st),
     c_attempts = table_map a_id attempt_val (attempts st),
     c_active = table_map n_id n_active_attempts (nodes st)\<rparr>"

definition keys_ok :: "store \<Rightarrow> bool" where
  "keys_ok st \<longleftrightarrow> distinct (map t_id (tasks st)) \<and> distinct (map a_id (attempts st))
     \<and> distinct (map n_id (nodes st))"

definition store_inv :: "store \<Rightarrow> bool" where
  "store_inv st \<longleftrightarrow> keys_ok st \<and> core_inv (core_of st)"

definition refines :: "store \<Rightarrow> store \<Rightarrow> bool" where
  "refines st st' \<longleftrightarrow> keys_ok st' \<and> core_step\<^sup>*\<^sup>* (core_of st) (core_of st')"

lemma refines_inv: "store_inv st \<Longrightarrow> refines st st' \<Longrightarrow> store_inv st'"
  using core_steps_inv by (auto simp: store_inv_def refines_def)

lemma refines_trans: "refines st st1 \<Longrightarrow> refines st1 st2 \<Longrightarrow> refines st st2"
  by (auto simp: refines_def)

lemma refines_refl [simp]: "store_inv st \<Longrightarrow> refines st st"
  by (simp add: refines_def store_inv_def)

lemma refines_step: "core_step (core_of st) (core_of st') \<Longrightarrow> keys_ok st' \<Longrightarrow> refines st st'"
  by (auto simp: refines_def)

lemma core_of_simps [simp]:
  "c_tasks (core_of st) = table_map t_id task_val (tasks st)"
  "c_attempts (core_of st) = table_map a_id attempt_val (attempts st)"
  "c_active (core_of st) = table_map n_id n_active_attempts (nodes st)"
  by (simp_all add: core_of_def)

text \<open>Two stores with the same projection and keys are interchangeable here.\<close>

definition same_core :: "store \<Rightarrow> store \<Rightarrow> bool" where
  "same_core st st' \<longleftrightarrow> core_of st' = core_of st \<and> (keys_ok st' \<longleftrightarrow> keys_ok st)"

lemma same_coreI:
  "tasks st' = tasks st \<Longrightarrow> attempts st' = attempts st \<Longrightarrow> nodes st' = nodes st \<Longrightarrow> same_core st st'"
  by (simp add: same_core_def core_of_def keys_ok_def)

lemma same_core_refl [simp]: "same_core st st"
  by (simp add: same_core_def)

lemma same_core_trans: "same_core st st1 \<Longrightarrow> same_core st1 st2 \<Longrightarrow> same_core st st2"
  by (simp add: same_core_def)

lemma same_core_refines: "store_inv st \<Longrightarrow> same_core st st' \<Longrightarrow> refines st st'"
  by (simp add: same_core_def refines_def store_inv_def)

lemma refines_same: "refines st st1 \<Longrightarrow> same_core st1 st2 \<Longrightarrow> refines st st2"
  by (simp add: same_core_def refines_def)

lemma same_inv: "same_core st st' \<Longrightarrow> store_inv st \<Longrightarrow> store_inv st'"
  by (simp add: same_core_def store_inv_def)

lemma same_core_audit [simp]: "same_core st (audit now ty ac an su pl st)"
  by (rule same_coreI) (simp_all add: audit_def)

lemma same_core_attempts:
  assumes "attempts st' = sql_update p f (attempts st)" "tasks st' = tasks st" "nodes st' = nodes st"
    and "\<And>r. a_id (f r) = a_id r" "\<And>r. attempt_val (f r) = attempt_val r"
  shows "same_core st st'"
  using assms
  by (auto simp: same_core_def core_of_def keys_ok_def table_map_update_same map_sql_update)

lemma same_core_nodes:
  assumes "nodes st' = sql_update p f (nodes st)" "tasks st' = tasks st" "attempts st' = attempts st"
    and "\<And>r. n_id (f r) = n_id r" "\<And>r. n_active_attempts (f r) = n_active_attempts r"
  shows "same_core st st'"
  using assms
  by (auto simp: same_core_def core_of_def keys_ok_def table_map_update_same map_sql_update)

section \<open>Updates seen on the projection\<close>

lemma find_attempt_core:
  "find_attempt st aid = Some a \<Longrightarrow> a_id a = aid \<and>
   table_map a_id attempt_val (attempts st) aid = Some (a_task_id a, a_node_id a, a_status a)"
  using sql_first_SomeD [of "\<lambda>a. a_id a = aid" "attempts st" a]
  by (auto simp: find_attempt_def sql_first_key [of a_id attempt_val] attempt_val_def)

lemma find_task_core:
  "find_task st tid = Some t \<Longrightarrow> t_id t = tid \<and>
   table_map t_id task_val (tasks st) tid = Some (t_status t, t_assigned_attempt_id t)"
  using sql_first_SomeD [of "\<lambda>t. t_id t = tid" "tasks st" t]
  by (auto simp: find_task_def sql_first_key [of t_id task_val] task_val_def)

lemma find_node_core:
  "find_node st nid = Some n \<Longrightarrow> n_id n = nid \<and>
   table_map n_id n_active_attempts (nodes st) nid = Some (n_active_attempts n)"
  using sql_first_SomeD [of "\<lambda>n. n_id n = nid" "nodes st" n]
  by (auto simp: find_node_def sql_first_key [of n_id n_active_attempts])

lemma attempts_cas:
  assumes "table_map a_id attempt_val rows aid = Some (t, n, s)" "Q s"
    and "\<And>r. a_id (f r) = a_id r" "\<And>r. a_task_id (f r) = a_task_id r"
    and "\<And>r. a_node_id (f r) = a_node_id r" "\<And>r. a_status (f r) = s'"
  shows "table_map a_id attempt_val (sql_update (\<lambda>r. a_id r = aid \<and> Q (a_status r)) f rows) =
         (table_map a_id attempt_val rows)(aid \<mapsto> (t, n, s'))"
  by (subst table_map_upd_one [where k = aid and v = "(t, n, s)"
        and P = "\<lambda>k v. k = aid \<and> Q (snd (snd v))" and F = "\<lambda>v. (fst v, fst (snd v), s')"])
     (use assms in \<open>auto simp: attempt_val_def\<close>)

lemma attempts_by_id:
  assumes "table_map a_id attempt_val rows aid = Some (t, n, s)"
    and "\<And>r. a_id (f r) = a_id r" "\<And>r. a_task_id (f r) = a_task_id r"
    and "\<And>r. a_node_id (f r) = a_node_id r" "\<And>r. a_status (f r) = s'"
  shows "table_map a_id attempt_val (sql_update (\<lambda>r. a_id r = aid) f rows) =
         (table_map a_id attempt_val rows)(aid \<mapsto> (t, n, s'))"
  using attempts_cas [where Q = "\<lambda>_. True", OF assms(1) TrueI assms(2-5)] by simp

lemma tasks_cas:
  assumes "table_map t_id task_val rows tid = Some (s, x)" "P s x"
    and "\<And>r. t_id (f r) = t_id r" "\<And>r. t_status (f r) = s'" "\<And>r. t_assigned_attempt_id (f r) = x'"
  shows "table_map t_id task_val
           (sql_update (\<lambda>r. t_id r = tid \<and> P (t_status r) (t_assigned_attempt_id r)) f rows) =
         (table_map t_id task_val rows)(tid \<mapsto> (s', x'))"
  by (subst table_map_upd_one [where k = tid and v = "(s, x)"
        and P = "\<lambda>k v. k = tid \<and> P (fst v) (snd v)" and F = "\<lambda>v. (s', x')"])
     (use assms in \<open>auto simp: task_val_def\<close>)

lemma tasks_by_id:
  assumes "table_map t_id task_val rows tid = Some (s, x)"
    and "\<And>r. t_id (f r) = t_id r" "\<And>r. t_status (f r) = s'" "\<And>r. t_assigned_attempt_id (f r) = x'"
  shows "table_map t_id task_val (sql_update (\<lambda>r. t_id r = tid) f rows) =
         (table_map t_id task_val rows)(tid \<mapsto> (s', x'))"
  using tasks_cas [where P = "\<lambda>_ _. True", OF assms(1) TrueI assms(2-4)] by simp

text \<open>\<open>WHERE assigned_attempt_id = ? AND status ...\<close>: the pointer is unique.\<close>

lemma tasks_by_attempt:
  assumes inv: "store_inv st"
    and a: "table_map a_id attempt_val (attempts st) aid = Some (tid, n, s)" "attempt_active s"
    and P: "P (task_of_attempt s)"
    and f: "\<And>r. t_id (f r) = t_id r" "\<And>r. t_status (f r) = s'"
      "\<And>r. t_assigned_attempt_id (f r) = t_assigned_attempt_id r"
  shows "table_map t_id task_val
           (sql_update (\<lambda>r. t_assigned_attempt_id r = Some aid \<and> P (t_status r)) f (tasks st)) =
         (table_map t_id task_val (tasks st))(tid \<mapsto> (s', Some aid))"
proof -
  have ci: "core_inv (core_of st)" using inv by (simp add: store_inv_def)
  have t: "table_map t_id task_val (tasks st) tid = Some (task_of_attempt s, Some aid)"
    using core_inv_attempt [OF ci, of aid tid n s] a by simp
  have uniq: "k' = tid" if "table_map t_id task_val (tasks st) k' = Some v'"
    "snd v' = Some aid \<and> P (fst v')" for k' v'
    using core_inv_ptr [OF ci, of k' "fst v'" aid] that a(1) by (cases v') auto
  have "table_map t_id task_val
          (sql_update (\<lambda>r. t_assigned_attempt_id r = Some aid \<and> P (t_status r)) f (tasks st)) =
        (table_map t_id task_val (tasks st))(tid \<mapsto> (\<lambda>v. (s', snd v)) (task_of_attempt s, Some aid))"
  proof (rule table_map_upd_one [where P = "\<lambda>k v. snd v = Some aid \<and> P (fst v)"
        and F = "\<lambda>v. (s', snd v)" and v = "(task_of_attempt s, Some aid)"])
    show "table_map t_id task_val (tasks st) tid = Some (task_of_attempt s, Some aid)" by (fact t)
    show "k' = tid" if "table_map t_id task_val (tasks st) k' = Some v'"
      "snd v' = Some aid \<and> P (fst v')" for k' v' using uniq that by blast
  qed (simp_all add: f P task_val_def)
  then show ?thesis by simp
qed

lemma nodes_dec:
  assumes "table_map n_id n_active_attempts rows nid = Some k"
  shows "table_map n_id n_active_attempts (sql_update (\<lambda>r. n_id r = nid)
           (\<lambda>r. r\<lparr>n_active_attempts := n_active_attempts r - m\<rparr>) rows) =
         (table_map n_id n_active_attempts rows)(nid \<mapsto> k - m)"
  using table_map_upd_key [where F = "\<lambda>v. v - m" and key = n_id and val = n_active_attempts
      and f = "\<lambda>r. r\<lparr>n_active_attempts := n_active_attempts r - m\<rparr>" and rows = rows and k = nid
      and v = k] assms
  by simp

lemma keys_ok_updates:
  assumes "keys_ok st" "map t_id (tasks st') = map t_id (tasks st)"
    "map a_id (attempts st') = map a_id (attempts st)" "map n_id (nodes st') = map n_id (nodes st)"
  shows "keys_ok st'"
  using assms by (simp add: keys_ok_def)

lemma keys_okD: "store_inv st \<Longrightarrow> keys_ok st" "store_inv st \<Longrightarrow> core_inv (core_of st)"
  by (simp_all add: store_inv_def)

lemma cas_count_one:
  assumes "store_inv st" "find_attempt st aid = Some a" "Q (a_status a)"
  shows "sql_count (\<lambda>r. a_id r = aid \<and> Q (a_status r)) (attempts st) = 1"
  using assms sql_first_SomeD [of "\<lambda>a. a_id a = aid" "attempts st" a]
  by (intro sql_count_key [where r = a]) (auto simp: store_inv_def keys_ok_def find_attempt_def)

lemma refines_advance:
  assumes "table_map a_id attempt_val (attempts st) aid = Some (t, n, s)"
    and "next_attempt_status s e = Inr s'" "attempt_active s'"
    and "table_map a_id attempt_val (attempts st') = (table_map a_id attempt_val (attempts st))(aid \<mapsto> (t, n, s'))"
    and "table_map t_id task_val (tasks st') = (table_map t_id task_val (tasks st))(t \<mapsto> (task_of_attempt s', Some aid))"
    and "nodes st' = nodes st" "keys_ok st'"
  shows "refines st st'"
proof (rule refines_step)
  have "core_of st' = (core_of st)\<lparr>c_tasks := (c_tasks (core_of st))(t \<mapsto> (task_of_attempt s', Some aid)),
      c_attempts := (c_attempts (core_of st))(aid \<mapsto> (t, n, s'))\<rparr>"
    using assms(4-6) by (simp add: core_of_def)
  then show "core_step (core_of st) (core_of st')"
    using core_step.advance [of "core_of st" aid t n s e s'] assms(1-3) by simp
qed (fact assms(7))

lemma refines_finish:
  assumes "table_map a_id attempt_val (attempts st) aid = Some (t, n, s)"
    and "next_attempt_status s e = Inr s'" "attempt_terminal s'" "ts \<in> {task_of_attempt s', TaskQueued}"
    and "table_map n_id n_active_attempts (nodes st) n = Some k"
    and "table_map a_id attempt_val (attempts st') = (table_map a_id attempt_val (attempts st))(aid \<mapsto> (t, n, s'))"
    and "table_map t_id task_val (tasks st') = (table_map t_id task_val (tasks st))(t \<mapsto> (ts, None))"
    and "table_map n_id n_active_attempts (nodes st') = (table_map n_id n_active_attempts (nodes st))(n \<mapsto> k - 1)"
    and "keys_ok st'"
  shows "refines st st'"
proof (rule refines_step)
  have "core_of st' = (core_of st)\<lparr>c_tasks := (c_tasks (core_of st))(t \<mapsto> (ts, None)),
      c_attempts := (c_attempts (core_of st))(aid \<mapsto> (t, n, s')),
      c_active := (c_active (core_of st))(n \<mapsto> k - 1)\<rparr>"
    using assms(6-8) by (simp add: core_of_def)
  then show "core_step (core_of st) (core_of st')"
    using core_step.finish [of "core_of st" aid t n s e s' ts k] assms(1-5) by simp
qed (fact assms(9))

lemma refines_settle:
  assumes "table_map t_id task_val (tasks st) t = Some (s, x)"
    and "s = TaskQueued \<and> s' = TaskCancelled \<or> s \<in> {TaskFailed, TaskCancelled} \<and> s' = TaskQueued"
    and "table_map t_id task_val (tasks st') = (table_map t_id task_val (tasks st))(t \<mapsto> (s', None))"
    and "attempts st' = attempts st" "nodes st' = nodes st" "keys_ok st'"
  shows "refines st st'"
proof (rule refines_step)
  have "core_of st' = (core_of st)\<lparr>c_tasks := (c_tasks (core_of st))(t \<mapsto> (s', None))\<rparr>"
    using assms(3-5) by (simp add: core_of_def)
  then show "core_step (core_of st) (core_of st')"
    using core_step.cancel_queued [of "core_of st" t x] core_step.retry [of "core_of st" t s x]
      assms(1,2) by auto
qed (fact assms(6))

text \<open>The owner of a live attempt, with its counter.\<close>

lemma live_attempt:
  assumes "store_inv st" "table_map a_id attempt_val (attempts st) aid = Some (t, n, s)" "attempt_active s"
  obtains k where "table_map t_id task_val (tasks st) t = Some (task_of_attempt s, Some aid)"
    "table_map n_id n_active_attempts (nodes st) n = Some k"
  using core_inv_attempt [OF keys_okD(2) [OF assms(1)], of aid t n s]
    core_inv_refs [OF keys_okD(2) [OF assms(1)], of aid t n s] assms(2,3) by auto

section \<open>Acknowledgement, validation, events\<close>

lemma ack_attempt_refines: "store_inv st \<Longrightarrow> refines st (snd (ack_attempt now aid st))"
proof (cases "find_attempt st aid")
  case (Some a)
  assume inv: "store_inv st"
  show ?thesis
  proof (cases "a_status a = AttemptAssigned")
    case True
    note a = find_attempt_core [OF Some]
    let ?st' = "snd (ack_attempt now aid st)"
    have one: "sql_count (\<lambda>r. a_id r = aid \<and> a_status r = AttemptAssigned) (attempts st) = 1"
      using cas_count_one [OF inv Some, where Q = "\<lambda>s. s = AttemptAssigned"] True by simp
    show ?thesis
    proof (rule refines_advance [where s = AttemptAssigned and e = AStart and s' = AttemptRunning])
      show "table_map a_id attempt_val (attempts st) aid = Some (a_task_id a, a_node_id a, AttemptAssigned)"
        using a True by simp
      show "table_map a_id attempt_val (attempts ?st') =
          (table_map a_id attempt_val (attempts st))(aid \<mapsto> (a_task_id a, a_node_id a, AttemptRunning))"
        using attempts_cas [where Q = "\<lambda>s. s = AttemptAssigned"] a Some True one
        by (simp add: ack_attempt_def)
      show "table_map t_id task_val (tasks ?st') =
          (table_map t_id task_val (tasks st))(a_task_id a \<mapsto> (task_of_attempt AttemptRunning, Some aid))"
        using tasks_by_attempt [OF inv, where P = "\<lambda>s. s \<in> {TaskAssigned, TaskQueued}"] a Some True one
        by (simp add: ack_attempt_def attempt_active.simps)
      show "keys_ok ?st'"
        by (rule keys_ok_updates [OF keys_okD(1) [OF inv]])
           (simp_all add: ack_attempt_def map_sql_update Let_def split: option.split)
    qed (use Some True one in \<open>simp_all add: ack_attempt_def attempt_active.simps\<close>)
  qed (use inv Some in \<open>simp add: ack_attempt_def\<close>)
qed (simp add: ack_attempt_def)

lemma begin_validate_refines:
  assumes inv: "store_inv st"
  shows "refines st (snd (begin_validate now aid st))"
proof (cases "sql_count (\<lambda>r. a_id r = aid \<and> a_status r = AttemptRunning) (attempts st) = 1")
  case True
  let ?st' = "snd (begin_validate now aid st)"
  from True have "0 < sql_count (\<lambda>r. a_id r = aid \<and> a_status r = AttemptRunning) (attempts st)" by simp
  then obtain a where a: "a \<in> set (attempts st)" "a_id a = aid" "a_status a = AttemptRunning"
    by (auto simp: sql_count_pos)
  then have m: "table_map a_id attempt_val (attempts st) aid = Some (a_task_id a, a_node_id a, AttemptRunning)"
    using table_map_row [of a_id "attempts st" a attempt_val] inv
    by (simp add: store_inv_def keys_ok_def attempt_val_def)
  show ?thesis
  proof (rule refines_advance [where e = ABeginValidate and s' = AttemptValidating, OF m])
    show "table_map a_id attempt_val (attempts ?st') =
        (table_map a_id attempt_val (attempts st))(aid \<mapsto> (a_task_id a, a_node_id a, AttemptValidating))"
      using attempts_cas [where Q = "\<lambda>s. s = AttemptRunning", OF m] True by (simp add: begin_validate_def)
    show "table_map t_id task_val (tasks ?st') =
        (table_map t_id task_val (tasks st))(a_task_id a \<mapsto> (task_of_attempt AttemptValidating, Some aid))"
      using tasks_by_attempt [OF inv m, where P = "\<lambda>s. s = TaskRunning"] True
      by (simp add: begin_validate_def attempt_active.simps)
    show "keys_ok ?st'"
      by (rule keys_ok_updates [OF keys_okD(1) [OF inv]])
         (simp_all add: begin_validate_def map_sql_update Let_def)
  qed (use True in \<open>simp_all add: begin_validate_def attempt_active.simps\<close>)
qed (use inv in \<open>simp add: begin_validate_def\<close>)

lemma insert_event_frame [simp]:
  "tasks (snd (insert_event row st)) = tasks st"
  "attempts (snd (insert_event row st)) = attempts st"
  "nodes (snd (insert_event row st)) = nodes st"
  by (simp_all add: insert_event_def)

lemma insert_events_frame [simp]:
  "tasks (snd (insert_events now aid cur evs st)) = tasks st"
  "attempts (snd (insert_events now aid cur evs st)) = attempts st"
  "nodes (snd (insert_events now aid cur evs st)) = nodes st"
proof -
  have "tasks (snd (insert_events now aid cur evs st)) = tasks st
      \<and> attempts (snd (insert_events now aid cur evs st)) = attempts st
      \<and> nodes (snd (insert_events now aid cur evs st)) = nodes st"
  proof (induction evs arbitrary: cur st)
    case (Cons ev evs)
    show ?case using Cons.IH by (simp add: case_prod_beta Let_def)
  qed simp
  then show "tasks (snd (insert_events now aid cur evs st)) = tasks st"
    "attempts (snd (insert_events now aid cur evs st)) = attempts st"
    "nodes (snd (insert_events now aid cur evs st)) = nodes st" by simp_all
qed

lemma append_event_frame [simp]:
  "tasks (append_event now aid p st) = tasks st"
  "attempts (append_event now aid p st) = attempts st"
  "nodes (append_event now aid p st) = nodes st"
  by (simp_all add: append_event_def Let_def)

lemma ingest_events_refines:
  assumes inv: "store_inv st"
  shows "refines st (snd (ingest_events now aid evs st))"
proof (cases "find_attempt st aid")
  case (Some a)
  note a = find_attempt_core [OF Some]
  let ?st' = "snd (ingest_events now aid evs st)"
  show ?thesis
  proof (cases "a_status a = AttemptAssigned")
    case True
    have live: "\<not> attempt_terminal (a_status a)" using True by (simp add: attempt_terminal.simps)
    from a True have m: "table_map a_id attempt_val (attempts st) aid =
        Some (a_task_id a, a_node_id a, AttemptAssigned)" by simp
    obtain k where t: "table_map t_id task_val (tasks st) (a_task_id a) = Some (TaskAssigned, Some aid)"
      using live_attempt [OF inv m] by (auto simp: attempt_active.simps)
    show ?thesis
    proof (rule refines_advance [where e = AStart and s' = AttemptRunning, OF m])
      show "table_map a_id attempt_val (attempts ?st') =
          (table_map a_id attempt_val (attempts st))(aid \<mapsto> (a_task_id a, a_node_id a, AttemptRunning))"
        using attempts_by_id [OF m] Some True live
        by (simp add: ingest_events_def Let_def case_prod_beta)
      have "table_map t_id task_val (sql_update (\<lambda>r. t_id r = a_task_id a)
            (\<lambda>t. t\<lparr>t_status := TaskRunning, t_started_at := Some now\<rparr>) (tasks st)) =
          (table_map t_id task_val (tasks st))(a_task_id a \<mapsto> (TaskRunning, Some aid))"
        using table_map_upd_key [where F = "\<lambda>v. (TaskRunning, snd v)" and val = task_val, OF _ _ t]
        by (simp add: task_val_def)
      then show "table_map t_id task_val (tasks ?st') =
          (table_map t_id task_val (tasks st))(a_task_id a \<mapsto> (task_of_attempt AttemptRunning, Some aid))"
        using Some True live by (simp add: ingest_events_def Let_def case_prod_beta)
      show "keys_ok ?st'"
        using Some True live
        by (intro keys_ok_updates [OF keys_okD(1) [OF inv]])
           (simp_all add: ingest_events_def Let_def case_prod_beta map_sql_update)
    qed (use Some True live in
        \<open>simp_all add: ingest_events_def Let_def case_prod_beta attempt_active.simps\<close>)
  next
    case False
    have "same_core st ?st'"
      using Some False by (intro same_coreI) (simp_all add: ingest_events_def Let_def case_prod_beta)
    then show ?thesis using inv by (rule_tac same_core_refines)
  qed
qed (use inv in \<open>simp add: ingest_events_def\<close>)


section \<open>Completion\<close>

lemma finish_agent_session_frame [simp]:
  "tasks (finish_agent_session now aid s e st) = tasks st"
  "attempts (finish_agent_session now aid s e st) = attempts st"
  "nodes (finish_agent_session now aid s e st) = nodes st"
  by (simp_all add: finish_agent_session_def)

lemma record_metrics_frame [simp]:
  "tasks (record_metrics now a req st) = tasks st"
  "attempts (record_metrics now a req st) = attempts st"
  "nodes (record_metrics now a req st) = nodes st"
  by (simp_all add: record_metrics_def Let_def split: option.split)

lemma insert_verification_note_frame [simp]:
  "tasks (insert_verification_note now aid x st) = tasks st"
  "attempts (insert_verification_note now aid x st) = attempts st"
  "nodes (insert_verification_note now aid x st) = nodes st"
  by (simp_all add: insert_verification_note_def)

lemma update_attempt_frame [simp]:
  "tasks (update_attempt aid f st) = tasks st"
  "nodes (update_attempt aid f st) = nodes st"
  "attempts (update_attempt aid f st) = sql_update (\<lambda>a. a_id a = aid) f (attempts st)"
  by (simp_all add: update_attempt_def)

lemma dec_active_frame [simp]:
  "tasks (dec_active nid n st) = tasks st"
  "attempts (dec_active nid n st) = attempts st"
  "nodes (dec_active nid n st) = sql_update (\<lambda>r. n_id r = nid)
     (\<lambda>r. r\<lparr>n_active_attempts := n_active_attempts r - n\<rparr>) (nodes st)"
  by (simp_all add: dec_active_def)

lemma same_core_save: "same_core st (snd (save_artifact_bytes cd now aid name b mt sha st))"
  by (rule same_coreI) (simp_all add: store_simps)

lemma same_core_bake: "same_core st (bake_resume_digest ex now tid prompt st)"
proof (cases "latest_attempt_id st tid")
  case (Some aid)
  let ?d = "resume_digest (take 3 (ex_fts ex (task_events st) aid (digest_query prompt)))"
  let ?s = "save_artifact_bytes (ex_codec ex) now aid (resume_name tid) ?d (Some ''text/markdown'') None st"
  have "same_core (snd ?s) (update_attempt aid
      (\<lambda>a. a\<lparr>a_report := (a_report a)\<lparr>r_tokens_avoided_bytes := v\<rparr>\<rparr>) (snd ?s))" for v
    by (rule same_core_attempts [OF update_attempt_frame(3)]) (simp_all add: attempt_val_def)
  then show ?thesis
    using Some same_core_save [of st "ex_codec ex" now aid "resume_name tid" ?d "Some ''text/markdown''" None]
    by (auto simp: bake_resume_digest_def Let_def split: prod.splits sum.splits
        intro: same_core_trans)
qed (simp add: bake_resume_digest_def)

lemma same_core_stamp: "same_core st (stamp_eval_case ex now aid sha cmd st)"
  by (simp add: stamp_eval_case_def same_core_save split: option.split)

lemma completed_task_simps [simp]:
  "t_id (completed_task now rq tt ec t) = t_id t"
  "t_status (completed_task now rq tt ec t) = (if rq then TaskQueued else tt)"
  "t_assigned_attempt_id (completed_task now rq tt ec t) = None"
  by (simp_all add: completed_task_def)

lemma complete_commit_frame:
  "attempts (complete_commit now apid a t req ats tt st) =
     sql_update (\<lambda>r. a_id r = a_id a) (\<lambda>r. r\<lparr>a_status := ats, a_finished_at := Some now,
        a_report := apply_report req (a_report r)\<rparr>) (attempts st)"
  "tasks (complete_commit now apid a t req ats tt st) =
     sql_update (\<lambda>r. t_id r = t_id t)
       (completed_task now (auto_retry tt t st) tt (completion_error_code req tt)) (tasks st)"
  "nodes (complete_commit now apid a t req ats tt st) =
     sql_update (\<lambda>r. n_id r = a_node_id a)
       (\<lambda>r. r\<lparr>n_active_attempts := n_active_attempts r - 1\<rparr>) (nodes st)"
  by (simp_all add: complete_commit_def Let_def)

text \<open>The targets come from legal transitions, and the task target is the abstraction
  of the attempt target when the two agreed before.\<close>

definition completion_event :: "attempt_row \<Rightarrow> bool \<Rightarrow> attempt_transition" where
  "completion_event a success =
     (if a_cancel_requested a then ACancel else if success then ASucceed else AFail)"

lemma completion_targets_legal:
  assumes "completion_targets a t success = Inr (ats, tt)" "t_status t = task_of_attempt (a_status a)"
  shows "next_attempt_status (a_status a) (completion_event a success) = Inr ats \<and>
    attempt_terminal ats \<and> tt = task_of_attempt ats"
  using assms
  by (cases "a_status a"; cases success; cases "a_cancel_requested a")
     (auto simp: completion_targets_def completion_event_def attempt_terminal.simps)

lemma complete_commit_refines:
  assumes inv: "store_inv st" and a: "find_attempt st aid = Some a" and live: "\<not> attempt_terminal (a_status a)"
    and t: "find_task st (a_task_id a) = Some t"
    and tg: "completion_targets a t success = Inr (ats, tt)"
  shows "refines st (complete_commit now apid a t req ats tt st)"
proof -
  note fa = find_attempt_core [OF a] and ft = find_task_core [OF t]
  have act: "attempt_active (a_status a)" using live attempt_active_terminal by blast
  obtain k where k: "table_map t_id task_val (tasks st) (a_task_id a) =
      Some (task_of_attempt (a_status a), Some aid)"
    "table_map n_id n_active_attempts (nodes st) (a_node_id a) = Some k"
    using live_attempt [OF inv conjunct2 [OF fa] act] by blast
  have e: "next_attempt_status (a_status a) (completion_event a success) = Inr ats"
    "attempt_terminal ats" "tt = task_of_attempt ats"
    using completion_targets_legal [OF tg] k(1) ft by auto
  let ?st' = "complete_commit now apid a t req ats tt st"
  show ?thesis
  proof (rule refines_finish [OF conjunct2 [OF fa] e(1,2) _ k(2)])
    show "(if auto_retry tt t st then TaskQueued else tt) \<in> {task_of_attempt ats, TaskQueued}"
      using e(3) by simp
    show "table_map a_id attempt_val (attempts ?st') =
        (table_map a_id attempt_val (attempts st))(aid \<mapsto> (a_task_id a, a_node_id a, ats))"
      using attempts_by_id [OF conjunct2 [OF fa]] fa by (simp add: complete_commit_frame)
    show "table_map t_id task_val (tasks ?st') = (table_map t_id task_val (tasks st))
        (a_task_id a \<mapsto> (if auto_retry tt t st then TaskQueued else tt, None))"
      using tasks_by_id [OF k(1)] ft by (simp add: complete_commit_frame)
    show "table_map n_id n_active_attempts (nodes ?st') =
        (table_map n_id n_active_attempts (nodes st))(a_node_id a \<mapsto> k - 1)"
      using nodes_dec [OF k(2), of 1] by (simp add: complete_commit_frame)
    show "keys_ok ?st'"
      by (rule keys_ok_updates [OF keys_okD(1) [OF inv]])
         (simp_all add: complete_commit_frame map_sql_update)
  qed
qed

lemma complete_attempt_refines:
  assumes inv: "store_inv st"
  shows "refines st (snd (complete_attempt ex now apid aid req st))"
proof (cases "find_attempt st aid")
  case (Some a)
  show ?thesis
  proof (cases "attempt_terminal (a_status a)")
    case True
    then show ?thesis using Some same_core_refines [OF inv same_core_audit]
      by (simp add: complete_attempt_def)
  next
    case False
    show ?thesis
    proof (cases "find_task st (a_task_id a)")
      case None
      then show ?thesis using Some False inv by (simp add: complete_attempt_def split: sum.split)
    next
      case t: (Some t)
      show ?thesis
      proof (cases "completion_targets a t (req_success req)")
        case (Inl e)
        then show ?thesis using Some False t inv by (simp add: complete_attempt_def)
      next
        case (Inr p)
        obtain ats tt where p: "p = (ats, tt)" by (cases p)
        note r = complete_commit_refines [OF inv Some False t Inr [unfolded p], of now apid req]
        have "refines st (stamp_eval_case ex now aid sha cmd
            (complete_commit now apid a t req ats tt st))" for sha cmd
          using refines_same [OF r same_core_stamp] .
        then show ?thesis
          using Some False t Inr p
          by (auto simp: complete_attempt_def Let_def
              intro: refines_same [OF _ same_core_trans [OF same_core_bake same_core_audit]])
      qed
    qed
  qed
qed (use inv in \<open>simp add: complete_attempt_def\<close>)

end
