(* ===== verification/StoreInv2.thy ===== *)
theory StoreInv2
  imports StoreInv
begin

text \<open>
  Continuation of \<open>StoreInv\<close>: the operations that lose, revert, cancel, retry and
  assign, the node registry, and the reachable states of the whole store.
\<close>

section \<open>Creating, cancelling, retrying\<close>

lemma new_task_refines:
  assumes inv: "store_inv st" and fresh: "t_id row \<notin> t_id ` set (tasks st)"
    and row: "t_status row = TaskQueued" "t_assigned_attempt_id row = None"
  shows "refines st (st\<lparr>tasks := tasks st @ [row]\<rparr>)"
proof (rule refines_step)
  have none: "table_map t_id task_val (tasks st) (t_id row) = None"
    using fresh by (simp add: table_map_None_iff)
  have "table_map t_id task_val (tasks st @ [row]) =
      (table_map t_id task_val (tasks st))(t_id row \<mapsto> (TaskQueued, None))"
    using none row by (auto simp: table_map_append task_val_def fun_eq_iff map_add_def split: option.split)
  then have "core_of (st\<lparr>tasks := tasks st @ [row]\<rparr>) =
      (core_of st)\<lparr>c_tasks := (c_tasks (core_of st))(t_id row \<mapsto> (TaskQueued, None))\<rparr>"
    by (simp add: core_of_def)
  then show "core_step (core_of st) (core_of (st\<lparr>tasks := tasks st @ [row]\<rparr>))"
    using core_step.new_task [of "core_of st" "t_id row"] none by simp
  show "keys_ok (st\<lparr>tasks := tasks st @ [row]\<rparr>)"
    using inv fresh by (auto simp: store_inv_def keys_ok_def)
qed

lemma create_task_refines:
  "store_inv st \<Longrightarrow> tid \<notin> t_id ` set (tasks st) \<Longrightarrow> refines st (snd (create_task now tid req st))"
  by (simp add: create_task_def Let_def new_task_refines queued_task_def)

lemma insert_task_tx_refines:
  "store_inv st \<Longrightarrow> tid \<notin> t_id ` set (tasks st) \<Longrightarrow> refines st (snd (insert_task_tx now tid req st))"
  by (simp add: insert_task_tx_def Let_def new_task_refines queued_task_def)

lemma same_core_request_cancel: "same_core st (request_cancel tid st)"
  by (rule same_core_attempts [where f = "\<lambda>a. a\<lparr>a_cancel_requested := True\<rparr>"])
     (simp_all add: request_cancel_def attempt_val_def)

lemma cancel_task_refines:
  assumes inv: "store_inv st"
  shows "refines st (snd (cancel_task now tid st))"
proof (cases "find_task st tid")
  case (Some t)
  note ft = find_task_core [OF Some]
  show ?thesis
  proof (cases "t_status t = TaskQueued")
    case True
    show ?thesis
    proof (rule refines_settle [OF conjunct2 [OF ft]])
      show "t_status t = TaskQueued \<and> TaskCancelled = TaskCancelled
        \<or> t_status t \<in> {TaskFailed, TaskCancelled} \<and> TaskCancelled = TaskQueued" using True by simp
      show "table_map t_id task_val (tasks (snd (cancel_task now tid st))) =
          (table_map t_id task_val (tasks st))(tid \<mapsto> (TaskCancelled, None))"
        using tasks_by_id [OF conjunct2 [OF ft]] Some True by (simp add: cancel_task_def)
      show "keys_ok (snd (cancel_task now tid st))"
        using Some True
        by (intro keys_ok_updates [OF keys_okD(1) [OF inv]]) (simp_all add: cancel_task_def map_sql_update)
    qed (use Some True in \<open>simp_all add: cancel_task_def\<close>)
  next
    case False
    then show ?thesis
      using Some inv same_core_refines [OF inv same_core_request_cancel]
      by (simp add: cancel_task_def)
  qed
qed (use inv in \<open>simp add: cancel_task_def\<close>)

lemma retry_task_refines:
  assumes inv: "store_inv st"
  shows "refines st (snd (retry_task ex now tid st))"
proof (cases "find_task st tid")
  case (Some t)
  note ft = find_task_core [OF Some]
  show ?thesis
  proof (cases "t_status t = TaskFailed \<or> t_status t = TaskCancelled")
    case True
    let ?st1 = "st\<lparr>tasks := sql_update (\<lambda>r. t_id r = tid)
       (\<lambda>r. r\<lparr>t_status := TaskQueued, t_finished_at := None, t_assigned_attempt_id := None\<rparr>) (tasks st)\<rparr>"
    have "refines st ?st1"
    proof (rule refines_settle [OF conjunct2 [OF ft]])
      show "t_status t = TaskQueued \<and> TaskQueued = TaskCancelled
        \<or> t_status t \<in> {TaskFailed, TaskCancelled} \<and> TaskQueued = TaskQueued" using True by simp
      show "table_map t_id task_val (tasks ?st1) =
          (table_map t_id task_val (tasks st))(tid \<mapsto> (TaskQueued, None))"
        using tasks_by_id [OF conjunct2 [OF ft]] by simp
      show "keys_ok ?st1"
        by (intro keys_ok_updates [OF keys_okD(1) [OF inv]]) (simp_all add: map_sql_update)
    qed simp_all
    then show ?thesis
      using Some True refines_same [OF _ same_core_bake] by (simp add: retry_task_def)
  next
    case False
    then show ?thesis using Some same_core_refines [OF inv same_core_audit]
      by (simp add: retry_task_def)
  qed
qed (use inv in \<open>simp add: retry_task_def\<close>)

section \<open>Losing attempts\<close>

lemma requeue_frame [simp]:
  "attempts (snd (requeue_lost_attempt tid aid nid now reason pol st)) = attempts st"
  "nodes (snd (requeue_lost_attempt tid aid nid now reason pol st)) = nodes st"
  "map t_id (tasks (snd (requeue_lost_attempt tid aid nid now reason pol st))) = map t_id (tasks st)"
  by (simp_all add: requeue_lost_attempt_def Let_def audit_def map_sql_update)

text \<open>On a task that is not finished the requeue either moves it to the queue or
  changes nothing.\<close>

lemma requeue_live:
  assumes "distinct (map t_id (tasks st))"
    and "table_map t_id task_val (tasks st) tid = Some (s, x)" "\<not> task_terminal s"
  shows "fst (requeue_lost_attempt tid aid nid now reason pol st) \<Longrightarrow>
      table_map t_id task_val (tasks (snd (requeue_lost_attempt tid aid nid now reason pol st))) =
      (table_map t_id task_val (tasks st))(tid \<mapsto> (TaskQueued, None))"
    and "\<not> fst (requeue_lost_attempt tid aid nid now reason pol st) \<Longrightarrow>
      tasks (snd (requeue_lost_attempt tid aid nid now reason pol st)) = tasks st"
proof -
  obtain r where "r \<in> set (tasks st)" "t_id r = tid" "task_val r = (s, x)"
    using table_map_Some_row [OF assms(2)] by blast
  then have one: "sql_count (\<lambda>t. t_id t = tid \<and> \<not> task_terminal (t_status t)) (tasks st) = 1"
    using assms(1,3) by (intro sql_count_key [where r = r]) (auto simp: task_val_def)
  show "fst (requeue_lost_attempt tid aid nid now reason pol st) \<Longrightarrow>
      table_map t_id task_val (tasks (snd (requeue_lost_attempt tid aid nid now reason pol st))) =
      (table_map t_id task_val (tasks st))(tid \<mapsto> (TaskQueued, None))"
    using tasks_cas [where P = "\<lambda>s _. \<not> task_terminal s", OF assms(2,3)]
    by (auto simp: requeue_lost_attempt_def Let_def audit_def one)
  show "\<not> fst (requeue_lost_attempt tid aid nid now reason pol st) \<Longrightarrow>
      tasks (snd (requeue_lost_attempt tid aid nid now reason pol st)) = tasks st"
    by (auto simp: requeue_lost_attempt_def Let_def one)
qed

lemma lost_status: "attempt_active s \<Longrightarrow> next_attempt_status s ANodeLost = Inr AttemptLost"
  by (cases s) (auto simp: attempt_active.simps)

lemma active_not_terminal: "attempt_active s \<Longrightarrow> \<not> task_terminal (task_of_attempt s)"
  by (cases s) (auto simp: attempt_active.simps task_terminal.simps)

lemma reject_assignment_refines:
  assumes inv: "store_inv st"
  shows "refines st (snd (reject_assignment now aid reason st))"
proof (cases "find_attempt st aid")
  case (Some a)
  note fa = find_attempt_core [OF Some]
  show ?thesis
  proof (cases "a_status a = AttemptAssigned")
    case True
    from fa True have m: "table_map a_id attempt_val (attempts st) aid =
        Some (a_task_id a, a_node_id a, AttemptAssigned)" by simp
    obtain k where k: "table_map t_id task_val (tasks st) (a_task_id a) = Some (TaskAssigned, Some aid)"
      "table_map n_id n_active_attempts (nodes st) (a_node_id a) = Some k"
      using live_attempt [OF inv m] by (auto simp: attempt_active.simps)
    have one: "sql_count (\<lambda>r. a_id r = aid \<and> a_status r = AttemptAssigned) (attempts st) = 1"
      using cas_count_one [OF inv Some, where Q = "\<lambda>s. s = AttemptAssigned"] True by simp
    define st1 where "st1 = st\<lparr>attempts := sql_update (\<lambda>r. a_id r = aid \<and> a_status r = AttemptAssigned)
        (\<lambda>r. r\<lparr>a_status := AttemptLost, a_finished_at := Some now\<rparr>) (attempts st)\<rparr>"
    define pol where "pol = (case find_task st (a_task_id a) of None \<Rightarrow> terminal_policy
        | Some t \<Rightarrow> from_columns (ts_max_attempts (t_spec t)) (ts_retry_on_node_loss (t_spec t)))"
    define rq where "rq = requeue_lost_attempt (a_task_id a) aid (a_node_id a) now ''node_rejected'' pol st1"
    define st3 where "st3 = (if fst rq then snd rq else (snd rq)\<lparr>tasks := sql_update
        (\<lambda>t. t_id t = a_task_id a \<and> t_status t = TaskAssigned)
        (\<lambda>t. t\<lparr>t_status := TaskFailed, t_finished_at := Some now, t_assigned_attempt_id := None\<rparr>)
        (tasks (snd rq))\<rparr>)"
    have st': "snd (reject_assignment now aid reason st) =
        audit now ''attempt'' (Some aid) ''attempt.node_rejected'' (Some reason) None
          (dec_active (a_node_id a) 1 st3)"
      using Some True one
      by (simp add: reject_assignment_def Let_def case_prod_beta st1_def pol_def rq_def st3_def)
    have live: "\<not> task_terminal TaskAssigned" by (simp add: task_terminal.simps)
    have dist: "distinct (map t_id (tasks st1))"
      using inv by (simp add: st1_def store_inv_def keys_ok_def)
    have t1: "table_map t_id task_val (tasks st1) (a_task_id a) = Some (TaskAssigned, Some aid)"
      using k(1) by (simp add: st1_def)
    note rql = requeue_live [OF dist t1 live, of aid "a_node_id a" now "''node_rejected''" pol, folded rq_def]
    have "refines st (dec_active (a_node_id a) 1 st3)"
    proof (rule refines_finish [OF m _ _ _ k(2)])
      show "next_attempt_status AttemptAssigned ANodeLost = Inr AttemptLost" by simp
      show "(if fst rq then TaskQueued else TaskFailed) \<in> {task_of_attempt AttemptLost, TaskQueued}" by simp
      show "table_map a_id attempt_val (attempts (dec_active (a_node_id a) 1 st3)) =
          (table_map a_id attempt_val (attempts st))(aid \<mapsto> (a_task_id a, a_node_id a, AttemptLost))"
        using attempts_cas [where Q = "\<lambda>s. s = AttemptAssigned", OF m]
        by (simp add: st3_def rq_def st1_def)
      show "table_map t_id task_val (tasks (dec_active (a_node_id a) 1 st3)) = (table_map t_id task_val (tasks st))
          (a_task_id a \<mapsto> (if fst rq then TaskQueued else TaskFailed, None))"
        using rql tasks_cas [where P = "\<lambda>s _. s = TaskAssigned", OF t1] by (auto simp: st3_def st1_def)
      show "table_map n_id n_active_attempts (nodes (dec_active (a_node_id a) 1 st3)) =
          (table_map n_id n_active_attempts (nodes st))(a_node_id a \<mapsto> k - 1)"
        using nodes_dec [OF k(2), of 1] by (simp add: st3_def rq_def st1_def)
      show "keys_ok (dec_active (a_node_id a) 1 st3)"
        by (rule keys_ok_updates [OF keys_okD(1) [OF inv]])
           (simp_all add: st3_def rq_def st1_def map_sql_update)
    qed (simp add: attempt_terminal.simps)
    then show ?thesis unfolding st' by (rule refines_same) simp
  qed (use inv Some in \<open>simp add: reject_assignment_def\<close>)
qed (use inv in \<open>simp add: reject_assignment_def\<close>)


lemma dec_active_twice: "dec_active nid m (dec_active nid n st) = dec_active nid (n + m) st"
proof -
  have "sql_update (\<lambda>r. n_id r = nid) (\<lambda>r. r\<lparr>n_active_attempts := n_active_attempts r - m\<rparr>)
      (sql_update (\<lambda>r. n_id r = nid) (\<lambda>r. r\<lparr>n_active_attempts := n_active_attempts r - n\<rparr>) rows) =
    sql_update (\<lambda>r. n_id r = nid) (\<lambda>r. r\<lparr>n_active_attempts := n_active_attempts r - (n + m)\<rparr>) rows"
    for rows :: "node_row list" by (induction rows) auto
  then show ?thesis by (simp add: dec_active_def)
qed

lemma lose_one_frame [simp]:
  "nodes (lose_one nid now (a, t) st) = nodes st"
  "map t_id (tasks (lose_one nid now (a, t) st)) = map t_id (tasks st)"
  "map a_id (attempts (lose_one nid now (a, t) st)) = map a_id (attempts st)"
  "attempts (lose_one nid now (a, t) st) = sql_update (\<lambda>r. a_id r = a_id a)
     (\<lambda>r. r\<lparr>a_status := AttemptLost, a_finished_at := Some now\<rparr>) (attempts st)"
  by (simp_all add: lose_one_def Let_def case_prod_beta map_sql_update)

lemma lose_one_tasks:
  assumes "distinct (map t_id (tasks st))"
    and "table_map t_id task_val (tasks st) (a_task_id a) = Some (s, x)" "\<not> task_terminal s"
  obtains ts where "ts \<in> {TaskFailed, TaskQueued}"
    "table_map t_id task_val (tasks (lose_one nid now (a, t) st)) =
       (table_map t_id task_val (tasks st))(a_task_id a \<mapsto> (ts, None))"
proof -
  define st1 where "st1 = update_attempt (a_id a) (\<lambda>r. r\<lparr>a_status := AttemptLost, a_finished_at := Some now\<rparr>) st"
  define rq where "rq = requeue_lost_attempt (a_task_id a) (a_id a) nid now ''node_lost''
    (from_columns (ts_max_attempts (t_spec t)) (ts_retry_on_node_loss (t_spec t))) st1"
  have d1: "distinct (map t_id (tasks st1))"
    and t1: "table_map t_id task_val (tasks st1) (a_task_id a) = Some (s, x)"
    using assms by (simp_all add: st1_def)
  note rql = requeue_live [OF d1 t1 assms(3), of "a_id a" nid now "''node_lost''"
      "from_columns (ts_max_attempts (t_spec t)) (ts_retry_on_node_loss (t_spec t))", folded rq_def]
  show thesis
  proof (cases "fst rq")
    case True
    have "table_map t_id task_val (tasks (lose_one nid now (a, t) st)) =
        (table_map t_id task_val (tasks st))(a_task_id a \<mapsto> (TaskQueued, None))"
      using rql(1) [OF True] True
      by (simp add: lose_one_def Let_def case_prod_beta rq_def st1_def)
    then show ?thesis using that by blast
  next
    case False
    have "table_map t_id task_val (tasks (lose_one nid now (a, t) st)) =
        (table_map t_id task_val (tasks st))(a_task_id a \<mapsto> (TaskFailed, None))"
      using rql(2) [OF False] False tasks_cas [where P = "\<lambda>s _. \<not> task_terminal s", OF t1 assms(3)]
      by (simp add: lose_one_def Let_def case_prod_beta rq_def st1_def)
    then show ?thesis using that by blast
  qed
qed

lemma lose_one_refines:
  assumes inv: "store_inv (dec_active nid m st)"
    and a: "table_map a_id attempt_val (attempts st) (a_id a) = Some (a_task_id a, nid, s)" "attempt_active s"
  shows "refines (dec_active nid m st) (dec_active nid (Suc m) (lose_one nid now (a, t) st))"
    (is "refines ?d ?d'")
proof -
  have a': "table_map a_id attempt_val (attempts ?d) (a_id a) = Some (a_task_id a, nid, s)" using a by simp
  obtain k where k: "table_map t_id task_val (tasks ?d) (a_task_id a) = Some (task_of_attempt s, Some (a_id a))"
    "table_map n_id n_active_attempts (nodes ?d) nid = Some k"
    using live_attempt [OF inv a' a(2)] by blast
  have dist: "distinct (map t_id (tasks st))" using inv by (simp add: store_inv_def keys_ok_def)
  obtain ts where ts: "ts \<in> {TaskFailed, TaskQueued}"
    "table_map t_id task_val (tasks (lose_one nid now (a, t) st)) =
       (table_map t_id task_val (tasks st))(a_task_id a \<mapsto> (ts, None))"
    using lose_one_tasks [OF dist _ active_not_terminal [OF a(2)], of a] k(1)
    by (metis dec_active_frame(1))
  have d': "nodes ?d' = nodes (dec_active nid 1 ?d)"
    by (simp only: dec_active_twice dec_active_frame lose_one_frame) simp
  show ?thesis
  proof (rule refines_finish [OF a' lost_status [OF a(2)] _ _ k(2)])
    show "ts \<in> {task_of_attempt AttemptLost, TaskQueued}" using ts(1) by simp
    show "table_map a_id attempt_val (attempts ?d') =
        (table_map a_id attempt_val (attempts ?d))(a_id a \<mapsto> (a_task_id a, nid, AttemptLost))"
      using attempts_by_id [OF a(1)] by simp
    show "table_map t_id task_val (tasks ?d') =
        (table_map t_id task_val (tasks ?d))(a_task_id a \<mapsto> (ts, None))" using ts(2) by simp
    show "table_map n_id n_active_attempts (nodes ?d') =
        (table_map n_id n_active_attempts (nodes ?d))(nid \<mapsto> k - 1)"
      unfolding d' using nodes_dec [OF k(2), of 1] by simp
    show "keys_ok ?d'"
      by (rule keys_ok_updates [OF keys_okD(1) [OF inv]]) (simp_all add: map_sql_update)
  qed (simp add: attempt_terminal.simps)
qed

lemma lose_fold_refines:
  assumes "store_inv (dec_active nid m st)" "distinct (map (\<lambda>r. a_id (fst r)) rows)"
    and "\<And>a t. (a, t) \<in> set rows \<Longrightarrow>
      table_map a_id attempt_val (attempts st) (a_id a) = Some (a_task_id a, nid, a_status a)
      \<and> attempt_active (a_status a)"
  shows "refines (dec_active nid m st) (dec_active nid (m + length rows) (fold (lose_one nid now) rows st))"
  using assms
proof (induction rows arbitrary: st m)
  case (Cons r rows)
  obtain a t where r: "r = (a, t)" by (cases r)
  let ?st1 = "lose_one nid now (a, t) st"
  have a: "table_map a_id attempt_val (attempts st) (a_id a) = Some (a_task_id a, nid, a_status a)"
    "attempt_active (a_status a)" using Cons.prems(3) r by auto
  have step: "refines (dec_active nid m st) (dec_active nid (Suc m) ?st1)"
    by (rule lose_one_refines [OF Cons.prems(1) a])
  have rest: "refines (dec_active nid (Suc m) ?st1)
      (dec_active nid (Suc m + length rows) (fold (lose_one nid now) rows ?st1))"
  proof (rule Cons.IH)
    show "store_inv (dec_active nid (Suc m) ?st1)" using refines_inv [OF Cons.prems(1) step] .
    show "distinct (map (\<lambda>r. a_id (fst r)) rows)" using Cons.prems(2) by simp
    fix b u assume b: "(b, u) \<in> set rows"
    then have "a_id b \<noteq> a_id a" using Cons.prems(2) r by force
    then show "table_map a_id attempt_val (attempts ?st1) (a_id b) = Some (a_task_id b, nid, a_status b)
        \<and> attempt_active (a_status b)"
      using Cons.prems(3) [of b u] b attempts_by_id [OF a(1)] by simp
  qed
  from refines_trans [OF step rest] show ?case using r by simp
qed simp

lemma in_flight_props:
  assumes "store_inv st"
  shows "distinct (map (\<lambda>r. a_id (fst r)) (in_flight st nid))"
    and "(a, t) \<in> set (in_flight st nid) \<Longrightarrow>
      table_map a_id attempt_val (attempts st) (a_id a) = Some (a_task_id a, nid, a_status a)
      \<and> attempt_active (a_status a)"
proof -
  have dt: "distinct (map t_id (tasks st))" and da: "distinct (map a_id (attempts st))"
    using assms by (simp_all add: store_inv_def keys_ok_def)
  have one: "length (filter (\<lambda>t. t_id t = x) ts) \<le> 1" if "distinct (map t_id ts)" for x ts
    using that
  proof (induction ts)
    case (Cons u ts)
    have "filter (\<lambda>t. t_id t = x) ts = []" if "t_id u = x"
      using Cons.prems that by (auto simp: filter_empty_conv image_iff)
    then show ?case using Cons by auto
  qed simp
  have "map (\<lambda>r. a_id (fst r)) (map (Pair a) xs) = replicate (length xs) (a_id a)" for a :: attempt_row and xs :: "task_row list"
    by (induction xs) auto
  moreover have "distinct (concat (map (\<lambda>a. replicate (length (filter (\<lambda>t. t_id t = a_task_id a) (tasks st))) (a_id a)) as))"
    if "distinct (map a_id as)" for as :: "attempt_row list"
    using that
  proof (induction as)
    case (Cons a as)
    have "length (filter (\<lambda>t. t_id t = a_task_id a) (tasks st)) \<le> 1" by (rule one [OF dt])
    then consider "length (filter (\<lambda>t. t_id t = a_task_id a) (tasks st)) = 0"
      | "length (filter (\<lambda>t. t_id t = a_task_id a) (tasks st)) = 1" by linarith
    then show ?case using Cons by cases (auto simp: image_iff)
  qed simp
  ultimately show "distinct (map (\<lambda>r. a_id (fst r)) (in_flight st nid))"
    using da by (simp add: in_flight_def map_concat o_def distinct_map_filter)
  show "(a, t) \<in> set (in_flight st nid) \<Longrightarrow>
      table_map a_id attempt_val (attempts st) (a_id a) = Some (a_task_id a, nid, a_status a)
      \<and> attempt_active (a_status a)"
    using table_map_row [OF da, of a attempt_val] by (auto simp: in_flight_def attempt_val_def)
qed

lemma dec_active_zero: "dec_active nid 0 st = st"
  by (simp add: dec_active_def sql_update_def)

lemma lose_node_attempts_refines:
  assumes inv: "store_inv st"
  shows "refines st (lose_node_attempts now nid st)"
proof (cases "in_flight st nid = []")
  case False
  have "refines (dec_active nid 0 st)
      (dec_active nid (0 + length (in_flight st nid)) (fold (lose_one nid now) (in_flight st nid) st))"
    by (rule lose_fold_refines) (use inv in_flight_props [OF inv] in \<open>simp_all add: dec_active_zero\<close>)
  then show ?thesis using False by (simp add: lose_node_attempts_def Let_def dec_active_zero)
qed (use inv in \<open>simp add: lose_node_attempts_def\<close>)

section \<open>Leases\<close>

lemma revert_one_refines:
  assumes inv: "store_inv st"
    and a: "table_map a_id attempt_val (attempts st) (a_id a) = Some (a_task_id a, a_node_id a, AttemptAssigned)"
  shows "refines st (snd (revert_one now fence a (n, st)))"
    and "attempts (snd (revert_one now fence a (n, st))) =
      sql_update (\<lambda>r. a_id r = a_id a \<and> a_status r = AttemptAssigned)
        (\<lambda>r. r\<lparr>a_status := AttemptCancelled, a_finished_at := Some now,
               a_fencing_token := fence (a_id a)\<rparr>) (attempts st)"
proof -
  obtain k where k: "table_map t_id task_val (tasks st) (a_task_id a) = Some (TaskAssigned, Some (a_id a))"
    "table_map n_id n_active_attempts (nodes st) (a_node_id a) = Some k"
    using live_attempt [OF inv a] by (auto simp: attempt_active.simps)
  obtain r where "r \<in> set (attempts st)" "a_id r = a_id a" "a_status r = AttemptAssigned"
    using table_map_Some_row [OF a] by (auto simp: attempt_val_def)
  then have one: "sql_count (\<lambda>r. a_id r = a_id a \<and> a_status r = AttemptAssigned) (attempts st) = 1"
    using inv by (intro sql_count_key [where r = r]) (auto simp: store_inv_def keys_ok_def)
  let ?st' = "snd (revert_one now fence a (n, st))"
  show "refines st ?st'"
  proof (rule refines_finish [where e = ACancel and ts = TaskQueued, OF a _ _ _ k(2)])
    show "table_map a_id attempt_val (attempts ?st') =
        (table_map a_id attempt_val (attempts st))(a_id a \<mapsto> (a_task_id a, a_node_id a, AttemptCancelled))"
      using attempts_cas [where Q = "\<lambda>s. s = AttemptAssigned", OF a] one
      by (simp add: revert_one_def Let_def)
    show "table_map t_id task_val (tasks ?st') = (table_map t_id task_val (tasks st))(a_task_id a \<mapsto> (TaskQueued, None))"
      using tasks_cas [where P = "\<lambda>s x. x = Some (a_id a) \<and> s = TaskAssigned", OF k(1)] one
      by (simp add: revert_one_def Let_def)
    show "table_map n_id n_active_attempts (nodes ?st') =
        (table_map n_id n_active_attempts (nodes st))(a_node_id a \<mapsto> k - 1)"
      using nodes_dec [OF k(2), of 1] one by (simp add: revert_one_def Let_def)
    show "keys_ok ?st'"
      using one by (intro keys_ok_updates [OF keys_okD(1) [OF inv]])
         (simp_all add: revert_one_def Let_def map_sql_update)
  qed (simp_all add: attempt_terminal.simps)
  show "attempts ?st' = sql_update (\<lambda>r. a_id r = a_id a \<and> a_status r = AttemptAssigned)
        (\<lambda>r. r\<lparr>a_status := AttemptCancelled, a_finished_at := Some now,
               a_fencing_token := fence (a_id a)\<rparr>) (attempts st)"
    by (simp add: revert_one_def Let_def)
qed

lemma revert_fold_refines:
  assumes "store_inv st" "distinct (map a_id rows)"
    and "\<And>a. a \<in> set rows \<Longrightarrow>
      table_map a_id attempt_val (attempts st) (a_id a) = Some (a_task_id a, a_node_id a, AttemptAssigned)"
  shows "refines st (snd (fold (revert_one now fence) rows (n, st)))"
  using assms
proof (induction rows arbitrary: n st)
  case (Cons a rows)
  obtain n' st' where r: "revert_one now fence a (n, st) = (n', st')" by fastforce
  have a: "table_map a_id attempt_val (attempts st) (a_id a) = Some (a_task_id a, a_node_id a, AttemptAssigned)"
    using Cons.prems(3) by simp
  have step: "refines st st'" using revert_one_refines(1) [OF Cons.prems(1) a, of now fence n] r by simp
  have "refines st' (snd (fold (revert_one now fence) rows (n', st')))"
  proof (rule Cons.IH)
    show "store_inv st'" using refines_inv [OF Cons.prems(1) step] .
    show "distinct (map a_id rows)" using Cons.prems(2) by simp
    fix b assume b: "b \<in> set rows"
    then have "a_id b \<noteq> a_id a" using Cons.prems(2) by (auto simp: image_iff)
    then show "table_map a_id attempt_val (attempts st') (a_id b) = Some (a_task_id b, a_node_id b, AttemptAssigned)"
      using Cons.prems(3) [of b] b revert_one_refines(2) [OF Cons.prems(1) a, of now fence n] r
        attempts_cas [where Q = "\<lambda>s. s = AttemptAssigned", OF a] by simp
  qed
  from refines_trans [OF step this] show ?case using r by simp
qed simp

lemma revert_expired_leases_refines:
  assumes inv: "store_inv st"
  shows "refines st (snd (revert_expired_leases now fence st))"
  unfolding revert_expired_leases_def
proof (rule revert_fold_refines [OF inv])
  have da: "distinct (map a_id (attempts st))" using inv by (simp add: store_inv_def keys_ok_def)
  then show "distinct (map a_id (filter (expired now) (attempts st)))" by (rule distinct_map_filter)
  fix a assume "a \<in> set (filter (expired now) (attempts st))"
  then show "table_map a_id attempt_val (attempts st) (a_id a) = Some (a_task_id a, a_node_id a, AttemptAssigned)"
    using table_map_row [OF da, of a attempt_val] by (simp add: expired_def attempt_val_def)
qed


section \<open>Nodes\<close>

lemma new_node_refines:
  assumes inv: "store_inv st" and fresh: "n_id row \<notin> n_id ` set (nodes st)"
    and row: "n_active_attempts row = 0"
  shows "refines st (st\<lparr>nodes := nodes st @ [row]\<rparr>)"
proof (rule refines_step)
  have none: "table_map n_id n_active_attempts (nodes st) (n_id row) = None"
    using fresh by (simp add: table_map_None_iff)
  have "table_map n_id n_active_attempts (nodes st @ [row]) =
      (table_map n_id n_active_attempts (nodes st))(n_id row \<mapsto> 0)"
    using none row by (auto simp: table_map_append fun_eq_iff map_add_def split: option.split)
  then have "core_of (st\<lparr>nodes := nodes st @ [row]\<rparr>) =
      (core_of st)\<lparr>c_active := (c_active (core_of st))(n_id row \<mapsto> 0)\<rparr>"
    by (simp add: core_of_def)
  then show "core_step (core_of st) (core_of (st\<lparr>nodes := nodes st @ [row]\<rparr>))"
    using core_step.new_node [of "core_of st" "n_id row"] none by simp
  show "keys_ok (st\<lparr>nodes := nodes st @ [row]\<rparr>)"
    using inv fresh by (auto simp: store_inv_def keys_ok_def)
qed

lemma find_node_None: "find_node st nid = None \<longleftrightarrow> nid \<notin> n_id ` set (nodes st)"
  by (auto simp: find_node_def sql_first_None)

lemma register_refines: "store_inv st \<Longrightarrow> refines st (register_or_touch_node now req st)"
proof (cases "find_node st (pq_node_id req) = None")
  case True
  then show "store_inv st \<Longrightarrow> ?thesis"
    by (simp add: register_or_touch_node_def new_node_refines find_node_None)
next
  case False
  let ?f = "\<lambda>n. n\<lparr>n_name := pq_name req, n_max_concurrency := pq_max_concurrency req,
      n_adapters := pq_adapters req, n_repositories := pq_repositories req,
      n_last_heartbeat_at := Some now,
      n_status := (if n_status n \<in> {NodeOffline, NodePending} then NodeOnline else n_status n)\<rparr>"
  have "same_core st (st\<lparr>nodes := sql_update (\<lambda>n. n_id n = pq_node_id req) ?f (nodes st)\<rparr>)"
    by (rule same_core_nodes) (simp, simp_all)
  with False have "same_core st (register_or_touch_node now req st)"
    by (auto simp: register_or_touch_node_def)
  then show "store_inv st \<Longrightarrow> ?thesis" by (rule_tac same_core_refines)
qed

lemma same_core_use_token: "same_core st (use_token now i st)"
  by (rule same_coreI) (simp_all add: use_token_def)

lemma enroll_refines:
  assumes inv: "store_inv st" and fresh: "fresh_id \<notin> n_id ` set (nodes st)"
  shows "refines st (snd (enroll_node cd now cred fresh_id req st))"
proof (cases "sql_first (\<lambda>t. et_token_hash t = sha256_hex cd (eq_token req)) (enrollment_tokens st)")
  case None
  then show ?thesis using inv by (simp add: enroll_node_def)
next
  case (Some tok)
  show ?thesis
  proof (cases "et_used_at tok \<noteq> None \<or> et_expires_at tok < now")
    case True
    then show ?thesis using Some inv by (simp add: enroll_node_def)
  next
    case False
    show ?thesis
    proof (cases "et_node_id tok")
      case None
      let ?row = "\<lparr>n_id = fresh_id, n_name = eq_name req, n_status = NodeOnline,
           n_max_concurrency = eq_max_concurrency req, n_adapters = eq_adapters req,
           n_repositories = eq_repositories req, n_active_attempts = 0,
           n_last_heartbeat_at = Some now, n_created_at = now, n_drained = False,
           n_revoked_at = None, n_credential_hash = Some (sha256_hex cd cred),
           n_facts = default_facts\<rparr>"
      have "refines st (st\<lparr>nodes := nodes st @ [?row]\<rparr>)"
        by (rule new_node_refines [OF inv]) (use fresh in simp_all)
      from refines_same [OF this same_core_trans [OF same_core_audit same_core_use_token]]
      show ?thesis using Some False None by (simp add: enroll_node_def Let_def)
    next
      case target: (Some target)
      let ?st1 = "st\<lparr>nodes := sql_update (\<lambda>n. n_id n = target)
           (\<lambda>n. n\<lparr>n_credential_hash := Some (sha256_hex cd cred),
                  n_status := (if n_status n = NodeRevoked then NodeOnline else n_status n),
                  n_revoked_at := (if n_status n = NodeRevoked then None else n_revoked_at n)\<rparr>) (nodes st)\<rparr>"
      have "same_core st ?st1" by (rule same_core_nodes) (simp, simp_all)
      from same_core_refines [OF inv same_core_trans [OF this same_core_trans [OF same_core_audit same_core_use_token]]]
      show ?thesis using Some False target inv by (simp add: enroll_node_def Let_def)
    qed
  qed
qed

lemma lose_if_offline_refines:
  "store_inv st \<Longrightarrow> refines st (lose_node_attempts_if_offline now nid st)"
  by (simp add: lose_node_attempts_if_offline_def lose_node_attempts_refines split: option.split)

lemma same_core_then_lose:
  assumes "store_inv st" "same_core st st1"
  shows "refines st (lose_node_attempts now nid st1)"
  using refines_trans [OF same_core_refines [OF assms]
      lose_node_attempts_refines [OF same_inv [OF assms(2,1)]]] .

lemma heartbeat_refines:
  assumes inv: "store_inv st"
  shows "refines st (snd (heartbeat now nid req st))"
proof -
  define st1 where "st1 = st\<lparr>nodes := sql_update (\<lambda>n. n_id n = nid)
      (\<lambda>n. n\<lparr>n_name := hb_name req,
             n_status := (if n_status n = NodeRevoked then NodeRevoked
                          else case hb_status req of None \<Rightarrow> NodeOnline | Some s \<Rightarrow> s),
             n_max_concurrency := hb_max_concurrency req,
             n_adapters := hb_adapters req, n_repositories := hb_repositories req,
             n_last_heartbeat_at := Some now,
             n_facts := (hb_facts req)\<lparr>nf_max_rss_mib :=
               (if nf_max_rss_mib (hb_facts req) > 0 then nf_max_rss_mib (hb_facts req)
                else nf_max_rss_mib (n_facts n))\<rparr>\<rparr>) (nodes st)\<rparr>"
  define aff where "aff \<longleftrightarrow> sql_count (\<lambda>n. n_id n = nid) (nodes st) = 1 \<and>
      (case hb_status req of None \<Rightarrow> NodeOnline | Some s \<Rightarrow> s) = NodeOffline"
  define st2 where "st2 = (if aff then lose_node_attempts_if_offline now nid st1 else st1)"
  have sc: "same_core st st1" unfolding st1_def by (rule same_core_nodes) (simp, simp_all)
  have "refines st st2"
    unfolding st2_def
    using same_core_refines [OF inv sc] refines_trans lose_if_offline_refines [OF same_inv [OF sc inv]]
    by auto
  moreover have "same_core st2 (snd (heartbeat now nid req st))"
    unfolding heartbeat_def Let_def st2_def [symmetric] aff_def [symmetric] st1_def [symmetric]
    by (simp split: option.split prod.split)
  ultimately show ?thesis by (rule refines_same)
qed

lemma revoke_refines: "store_inv st \<Longrightarrow> refines st (snd (revoke_node now nid st))"
proof -
  assume inv: "store_inv st"
  let ?st1 = "st\<lparr>nodes := sql_update (\<lambda>n. n_id n = nid)
      (\<lambda>n. n\<lparr>n_status := NodeRevoked, n_revoked_at := Some now\<rparr>) (nodes st)\<rparr>"
  have sc: "same_core st ?st1" by (rule same_core_nodes) (simp, simp_all)
  then show ?thesis
    using same_core_then_lose [OF inv same_core_trans [OF sc same_core_audit]] same_core_refines [OF inv sc]
    by (simp add: revoke_node_def Let_def)
qed

lemma degraded_refines: "store_inv st \<Longrightarrow> refines st (set_node_degraded nid st)"
  unfolding set_node_degraded_def
  by (rule same_core_refines, assumption, rule same_core_nodes) (simp, simp_all)

lemma drained_refines: "store_inv st \<Longrightarrow> refines st (snd (set_node_drained now nid d st))"
proof -
  assume inv: "store_inv st"
  let ?st1 = "st\<lparr>nodes := sql_update (\<lambda>n. n_id n = nid) (\<lambda>n. n\<lparr>n_drained := d\<rparr>) (nodes st)\<rparr>"
  have sc: "same_core st ?st1" by (rule same_core_nodes) (simp, simp_all)
  then show ?thesis
    using same_core_refines [OF inv same_core_trans [OF sc same_core_audit]] same_core_refines [OF inv sc]
    by (simp add: set_node_drained_def Let_def)
qed

lemma mark_node_offline_refines: "store_inv st \<Longrightarrow> refines st (snd (mark_node_offline now nid st))"
proof -
  assume inv: "store_inv st"
  let ?st1 = "st\<lparr>nodes := sql_update
      (\<lambda>n. n_id n = nid \<and> n_status n \<notin> {NodeOffline, NodePending, NodeRevoked})
      (\<lambda>n. n\<lparr>n_status := NodeOffline, n_last_heartbeat_at := Some now\<rparr>) (nodes st)\<rparr>"
  have sc: "same_core st ?st1" by (rule same_core_nodes) (simp, simp_all)
  show ?thesis
    using same_core_then_lose [OF inv sc, of now nid] same_core_refines [OF inv sc]
    unfolding mark_node_offline_def Let_def by simp
qed

lemma offline_one_refines: "store_inv st \<Longrightarrow> refines st (offline_one now n st)"
proof -
  assume inv: "store_inv st"
  let ?st1 = "st\<lparr>nodes := sql_update (\<lambda>r. n_id r = n_id n \<and> n_status r = NodeOnline)
      (\<lambda>r. r\<lparr>n_status := NodeOffline\<rparr>) (nodes st)\<rparr>"
  have sc: "same_core st ?st1" by (rule same_core_nodes) (simp, simp_all)
  then show ?thesis
    using same_core_then_lose [OF inv sc] same_core_refines [OF inv sc]
    by (simp add: offline_one_def Let_def)
qed

lemma mark_offline_nodes_refines: "store_inv st \<Longrightarrow> refines st (mark_offline_nodes now st)"
proof -
  have "store_inv st \<Longrightarrow> refines st (fold (offline_one now) ns st)" for ns
  proof (induction ns arbitrary: st)
    case (Cons n ns)
    then show ?case
      using offline_one_refines [of st now n] refines_inv [of st "offline_one now n st"] refines_trans
      by auto
  qed simp
  then show "store_inv st \<Longrightarrow> ?thesis" by (simp add: mark_offline_nodes_def)
qed


lemma reconcile_refines:
  assumes inv: "store_inv st"
  shows "fst (reconcile_active_attempts st) = 0" "refines st (snd (reconcile_active_attempts st))"
proof -
  have da: "distinct (map a_id (attempts st))" and dn: "distinct (map n_id (nodes st))"
    using inv by (simp_all add: store_inv_def keys_ok_def)
  have count: "active_count st nid = card (active_on (table_map a_id attempt_val (attempts st)) nid)" for nid
  proof -
    have "active_count st nid =
        sql_count (\<lambda>r. (\<lambda>v. fst (snd v) = nid \<and> attempt_active (snd (snd v))) (attempt_val r)) (attempts st)"
      by (simp add: active_count_def attempt_val_def)
    also have "\<dots> = card {k. \<exists>v. table_map a_id attempt_val (attempts st) k = Some v
        \<and> fst (snd v) = nid \<and> attempt_active (snd (snd v))}"
      by (rule sql_count_card [OF da])
    also have "{k. \<exists>v. table_map a_id attempt_val (attempts st) k = Some v
        \<and> fst (snd v) = nid \<and> attempt_active (snd (snd v))} =
        active_on (table_map a_id attempt_val (attempts st)) nid"
      by (auto simp: active_on_def)
    finally show ?thesis .
  qed
  have ok: "n_active_attempts n = active_count st (n_id n)" if "n \<in> set (nodes st)" for n
    using table_map_row [OF dn that, of n_active_attempts] count
      core_inv_counts [OF keys_okD(2) [OF inv]] by (simp add: counts_ok_def)
  have "sql_count (\<lambda>n. n_active_attempts n \<noteq> active_count st (n_id n)) (nodes st) = 0"
    using ok by (simp add: sql_count_def filter_empty_conv)
  then show "fst (reconcile_active_attempts st) = 0"
    by (simp add: reconcile_active_attempts_def Let_def)
  have "sql_update (\<lambda>n. n_active_attempts n \<noteq> active_count st (n_id n)) f (nodes st) = nodes st" for f
    using ok by (intro sql_update_none) simp
  then have "same_core st (snd (reconcile_active_attempts st))"
    by (intro same_coreI) (simp_all add: reconcile_active_attempts_def Let_def)
  then show "refines st (snd (reconcile_active_attempts st))" using inv by (rule_tac same_core_refines)
qed

section \<open>Assignment\<close>

lemma inc_active_frame [simp]:
  "tasks (inc_active nid n st) = tasks st"
  "attempts (inc_active nid n st) = attempts st"
  "nodes (inc_active nid n st) = sql_update (\<lambda>r. n_id r = nid)
     (\<lambda>r. r\<lparr>n_active_attempts := n_active_attempts r + n\<rparr>) (nodes st)"
  by (simp_all add: inc_active_def)

lemma inc_active_twice: "inc_active nid m (inc_active nid n st) = inc_active nid (n + m) st"
proof -
  have "sql_update (\<lambda>r. n_id r = nid) (\<lambda>r. r\<lparr>n_active_attempts := n_active_attempts r + m\<rparr>)
      (sql_update (\<lambda>r. n_id r = nid) (\<lambda>r. r\<lparr>n_active_attempts := n_active_attempts r + n\<rparr>) rows) =
    sql_update (\<lambda>r. n_id r = nid) (\<lambda>r. r\<lparr>n_active_attempts := n_active_attempts r + (n + m)\<rparr>) rows"
    for rows :: "node_row list" by (induction rows) (auto simp: add.assoc)
  then show ?thesis by (simp add: inc_active_def)
qed

lemma inc_active_zero: "inc_active nid 0 st = st"
  by (simp add: inc_active_def sql_update_def)

lemma nodes_inc:
  assumes "table_map n_id n_active_attempts rows nid = Some k"
  shows "table_map n_id n_active_attempts (sql_update (\<lambda>r. n_id r = nid)
           (\<lambda>r. r\<lparr>n_active_attempts := n_active_attempts r + m\<rparr>) rows) =
         (table_map n_id n_active_attempts rows)(nid \<mapsto> k + m)"
  using table_map_upd_key [where F = "\<lambda>v. v + m" and key = n_id and val = n_active_attempts
      and f = "\<lambda>r. r\<lparr>n_active_attempts := n_active_attempts r + m\<rparr>" and rows = rows and k = nid
      and v = k] assms
  by simp

definition assigned_store :: "time \<Rightarrow> id \<Rightarrow> store \<Rightarrow> id \<Rightarrow> id \<Rightarrow> string \<Rightarrow> store \<Rightarrow> store" where
  "assigned_store now nid st0 tid aid fence st = st
     \<lparr>tasks := sql_update (\<lambda>r. t_id r = tid \<and> t_status r = TaskQueued)
        (\<lambda>r. r\<lparr>t_status := TaskAssigned, t_assigned_attempt_id := Some aid, t_avoid_node_id := None\<rparr>)
        (tasks st),
      attempts := attempts st @ [new_attempt now aid tid (attempts_of_task st0 tid + 1) nid fence]\<rparr>"

lemma assign_one_result:
  assumes "distinct (map t_id (tasks st))"
    and "table_map t_id task_val (tasks st) (t_id t) = Some (TaskQueued, x)"
    and "draw (t_id t) = (aid, fence)"
  shows "assign_one now draw nid st0 t (batch, st) =
    (batch @ [finish_assignment st0 aid fence (attempts_of_task st0 (t_id t) + 1)
       (map_of (rev (step_roles st0)) (t_id t)) t], assigned_store now nid st0 (t_id t) aid fence st)"
proof -
  obtain r where "r \<in> set (tasks st)" "t_id r = t_id t" "t_status r = TaskQueued"
    using table_map_Some_row [OF assms(2)] by (auto simp: task_val_def)
  then have one: "sql_count (\<lambda>r. t_id r = t_id t \<and> t_status r = TaskQueued) (tasks st) = 1"
    using assms(1) by (intro sql_count_key [where r = r]) auto
  then show ?thesis using assms(3) by (simp add: assign_one_def assigned_store_def Let_def)
qed

lemma assign_one_refines:
  assumes inv: "store_inv (inc_active nid m st)"
    and t: "table_map t_id task_val (tasks st) (t_id t) = Some (TaskQueued, x)"
    and n: "nid \<in> n_id ` set (nodes st)"
    and fresh: "fst (draw (t_id t)) \<notin> a_id ` set (attempts st)"
    and res: "assign_one now draw nid st0 t (batch, st) = (batch', st')"
  shows "refines (inc_active nid m st) (inc_active nid (Suc m) st')"
    and "length batch' = Suc (length batch)"
    and "table_map t_id task_val (tasks st') =
           (table_map t_id task_val (tasks st))(t_id t \<mapsto> (TaskAssigned, Some (fst (draw (t_id t)))))"
    and "a_id ` set (attempts st') = insert (fst (draw (t_id t))) (a_id ` set (attempts st))"
    and "nodes st' = nodes st"
proof -
  obtain aid fence where d: "draw (t_id t) = (aid, fence)" by fastforce
  let ?i = "inc_active nid m st" and ?i' = "inc_active nid (Suc m) st'"
  have dist: "distinct (map t_id (tasks st))" using inv by (simp add: store_inv_def keys_ok_def)
  have st': "length batch' = Suc (length batch)" "st' = assigned_store now nid st0 (t_id t) aid fence st"
    using assign_one_result [where draw = draw, OF dist t d, of now nid st0 batch] res by auto
  have none: "table_map a_id attempt_val (attempts st) aid = None"
    using fresh d by (simp add: table_map_None_iff)
  obtain k where k: "table_map n_id n_active_attempts (nodes st) nid = Some k"
    using n by (metis not_None_eq table_map_None_iff)
  have tm: "table_map t_id task_val (tasks st') =
      (table_map t_id task_val (tasks st))(t_id t \<mapsto> (TaskAssigned, Some aid))"
    using tasks_cas [where P = "\<lambda>s _. s = TaskQueued", OF t] st'(2) by (simp add: assigned_store_def)
  have am: "table_map a_id attempt_val (attempts st') =
      (table_map a_id attempt_val (attempts st))(aid \<mapsto> (t_id t, nid, AttemptAssigned))"
    using none st'(2)
    by (auto simp: assigned_store_def table_map_append attempt_val_def new_attempt_def fun_eq_iff map_add_def split: option.split)
  have nm: "table_map n_id n_active_attempts (nodes ?i') =
      (table_map n_id n_active_attempts (nodes ?i))(nid \<mapsto> Suc (k + m))"
    using nodes_inc [OF k, of m] nodes_inc [OF k, of "Suc m"] st'(2) by (simp add: assigned_store_def)
  show "refines ?i ?i'"
  proof (rule refines_step)
    have "core_of ?i' = (core_of ?i)
       \<lparr>c_tasks := (c_tasks (core_of ?i))(t_id t \<mapsto> (TaskAssigned, Some aid)),
        c_attempts := (c_attempts (core_of ?i))(aid \<mapsto> (t_id t, nid, AttemptAssigned)),
        c_active := (c_active (core_of ?i))(nid \<mapsto> Suc (k + m))\<rparr>"
      using tm am nm by (simp add: core_of_def)
    then show "core_step (core_of ?i) (core_of ?i')"
      using core_step.assign [of "core_of ?i" "t_id t" x aid nid "k + m"] t none nodes_inc [OF k, of m] by simp
    show "keys_ok ?i'"
      using inv fresh d st'(2)
      by (auto simp: assigned_store_def store_inv_def keys_ok_def map_sql_update new_attempt_def)
  qed
  show "length batch' = Suc (length batch)" using st'(1) by simp
  show "table_map t_id task_val (tasks st') =
      (table_map t_id task_val (tasks st))(t_id t \<mapsto> (TaskAssigned, Some (fst (draw (t_id t)))))"
    using tm d by simp
  show "a_id ` set (attempts st') = insert (fst (draw (t_id t))) (a_id ` set (attempts st))"
    using d st'(2) by (simp add: assigned_store_def new_attempt_def)
  show "nodes st' = nodes st" using st'(2) by (simp add: assigned_store_def)
qed

lemma assign_fold_refines:
  assumes "store_inv (inc_active nid m st)" "distinct (map t_id el)"
    and "\<And>t. t \<in> set el \<Longrightarrow> \<exists>x. table_map t_id task_val (tasks st) (t_id t) = Some (TaskQueued, x)"
    and "nid \<in> n_id ` set (nodes st)"
    and "\<And>t. t \<in> set el \<Longrightarrow> fst (draw (t_id t)) \<notin> a_id ` set (attempts st)"
    and "inj_on (fst \<circ> draw) (t_id ` set el)"
    and "fold (assign_one now draw nid st0) el (batch, st) = (batch', st')"
  shows "length batch' = length batch + length el
       \<and> refines (inc_active nid m st) (inc_active nid (m + length el) st')"
  using assms
proof (induction el arbitrary: m batch st)
  case (Cons t el)
  note p = Cons.prems
  obtain b1 st1 where one: "assign_one now draw nid st0 t (batch, st) = (b1, st1)" by fastforce
  obtain x where tq: "table_map t_id task_val (tasks st) (t_id t) = Some (TaskQueued, x)"
    using p(3) [of t] by auto
  have fr: "fst (draw (t_id t)) \<notin> a_id ` set (attempts st)" using p(5) by simp
  note r = assign_one_refines [OF p(1) tq p(4) fr one]
  have neq: "t_id u \<noteq> t_id t" if "u \<in> set el" for u using p(2) that by (auto simp: image_iff)
  have "length batch' = length b1 + length el
      \<and> refines (inc_active nid (Suc m) st1) (inc_active nid (Suc m + length el) st')"
  proof (rule Cons.IH)
    show "store_inv (inc_active nid (Suc m) st1)" using refines_inv [OF p(1) r(1)] .
    show "distinct (map t_id el)" using p(2) by simp
    show "nid \<in> n_id ` set (nodes st1)" using p(4) r(5) by simp
    show "inj_on (fst \<circ> draw) (t_id ` set el)" using p(6) by (auto simp: inj_on_def)
    show "fold (assign_one now draw nid st0) el (b1, st1) = (batch', st')" using p(7) one by simp
    fix u assume u: "u \<in> set el"
    show "\<exists>x. table_map t_id task_val (tasks st1) (t_id u) = Some (TaskQueued, x)"
      using p(3) [of u] neq [OF u] r(3) u by simp
    have "fst (draw (t_id u)) \<noteq> fst (draw (t_id t))" using p(6) neq [OF u] u by (auto simp: inj_on_def)
    then show "fst (draw (t_id u)) \<notin> a_id ` set (attempts st1)" using p(5) [of u] r(4) u by simp
  qed
  then show ?case using refines_trans [OF r(1)] r(2) by simp
qed simp

text \<open>The random ids a batch draws are new and pairwise different.\<close>

definition fresh_draw :: "(id \<Rightarrow> id \<times> string) \<Rightarrow> store \<Rightarrow> bool" where
  "fresh_draw draw st \<longleftrightarrow> inj_on (fst \<circ> draw) (t_id ` set (tasks st)) \<and>
     (\<forall>t \<in> set (tasks st). fst (draw (t_id t)) \<notin> a_id ` set (attempts st))"

lemma eligible_props:
  assumes "store_inv st" "el = eligible_tasks env st nv cap (candidates st nid)"
  shows "distinct (map t_id el)" "set el \<subseteq> set (tasks st)"
    "\<And>t. t \<in> set el \<Longrightarrow> \<exists>x. table_map t_id task_val (tasks st) (t_id t) = Some (TaskQueued, x)"
    "length el \<le> cap" "\<And>t. t \<in> set el \<Longrightarrow> task_ineligibility env st nv t = []"
proof -
  have dt: "distinct (map t_id (tasks st))" using assms(1) by (simp add: store_inv_def keys_ok_def)
  have sub: "set el \<subseteq> {t \<in> set (tasks st). t_status t = TaskQueued \<and> task_ineligibility env st nv t = []}"
    unfolding assms(2) eligible_tasks_def candidates_def by (auto dest: in_set_takeD)
  then show "set el \<subseteq> set (tasks st)" by auto
  show "\<exists>x. table_map t_id task_val (tasks st) (t_id t) = Some (TaskQueued, x)" if "t \<in> set el" for t
    using sub that table_map_row [OF dt, of t task_val] by (auto simp: task_val_def)
  show "task_ineligibility env st nv t = []" if "t \<in> set el" for t using sub that by auto
  show "length el \<le> cap" by (simp add: assms(2) eligible_tasks_def)
  have "distinct (map t_id (candidates st nid))"
  proof -
    have "distinct (filter P (tasks st))" for P using dt by (simp add: distinct_map)
    then have "distinct (candidates st nid)" by (simp add: candidates_def)
    moreover have "inj_on t_id (set (candidates st nid))"
      using dt by (auto simp: candidates_def distinct_map inj_on_def)
    ultimately show ?thesis by (simp add: distinct_map)
  qed
  then show "distinct (map t_id el)"
    unfolding assms(2) eligible_tasks_def
    by (metis distinct_map_filter distinct_take take_map)
qed

lemma try_assign_batch_refines:
  assumes inv: "store_inv st" and fresh: "fresh_draw draw st"
  shows "refines st (snd (try_assign_batch env now draw nid limit st))"
proof (cases "find_node st nid")
  case None
  then show ?thesis using inv by (simp add: try_assign_batch_def Let_def)
next
  case (Some n)
  show ?thesis
  proof (cases "admission env n limit")
    case (Admit cap)
    define el where "el = eligible_tasks env st (row_to_node_view n) cap (candidates st nid)"
    obtain batch st1 where fo: "fold (assign_one now draw nid st) el ([], st) = (batch, st1)" by fastforce
    note ep = eligible_props [OF inv el_def]
    have "store_inv (inc_active nid 0 st)" using inv by (simp add: inc_active_zero)
    moreover have "nid \<in> n_id ` set (nodes st)" using Some find_node_None [of st nid] by auto
    moreover have "fst (draw (t_id t)) \<notin> a_id ` set (attempts st)" if "t \<in> set el" for t
      using fresh ep(2) that by (auto simp: fresh_draw_def)
    moreover have "inj_on (fst \<circ> draw) (t_id ` set el)"
      using fresh ep(2) by (auto simp: fresh_draw_def intro: inj_on_subset)
    ultimately have "length batch = length el" "refines st (inc_active nid (length el) st1)"
      using assign_fold_refines [OF _ ep(1,3) _ _ _ fo, of 0] by (simp_all add: inc_active_zero)
    then show ?thesis
      using Some Admit inv fo by (auto simp: try_assign_batch_def Let_def el_def [symmetric])
  next
    case (Pressure a b c)
    have "same_core st (st\<lparr>capacity_pressure := X\<rparr>)" for X by (rule same_coreI) simp_all
    from same_core_refines [OF inv this] show ?thesis
      using Some Pressure inv by (simp add: try_assign_batch_def Let_def)
  qed (use Some inv in \<open>simp add: try_assign_batch_def Let_def\<close>)
qed

end
