(* ===== verification/StoreProps.thy ===== *)
theory StoreProps
  imports StoreInv2
begin

text \<open>
  The reachable states of the store and the properties that make its lifecycle
  correct. \<open>store_step\<close> has one rule per operation, with arbitrary arguments; the only
  side conditions are the ones the library under it promises, that a freshly drawn id is
  new.
\<close>

section \<open>Steps\<close>

inductive store_step :: "store \<Rightarrow> store \<Rightarrow> bool" where
  s_create_task: "tid \<notin> t_id ` set (tasks st) \<Longrightarrow> store_step st (snd (create_task now tid req st))"
| s_insert_task: "tid \<notin> t_id ` set (tasks st) \<Longrightarrow> store_step st (snd (insert_task_tx now tid req st))"
| s_assign: "fresh_draw draw st \<Longrightarrow> store_step st (snd (try_assign_batch env now draw nid limit st))"
| s_ack: "store_step st (snd (ack_attempt now aid st))"
| s_validate: "store_step st (snd (begin_validate now aid st))"
| s_ingest: "store_step st (snd (ingest_events now aid evs st))"
| s_complete: "store_step st (snd (complete_attempt ex now apid aid creq st))"
| s_reject: "store_step st (snd (reject_assignment now aid reason st))"
| s_cancel: "store_step st (snd (cancel_task now tid st))"
| s_retry: "store_step st (snd (retry_task ex now tid st))"
| s_revert: "store_step st (snd (revert_expired_leases now fence st))"
| s_offline: "store_step st (mark_offline_nodes now st)"
| s_mark_offline: "store_step st (snd (mark_node_offline now nid st))"
| s_lose_offline: "store_step st (lose_node_attempts_if_offline now nid st)"
| s_register: "store_step st (register_or_touch_node now preq st)"
| s_enroll: "nid \<notin> n_id ` set (nodes st) \<Longrightarrow> store_step st (snd (enroll_node cd now cred nid ereq st))"
| s_heartbeat: "store_step st (snd (heartbeat now nid hreq st))"
| s_revoke: "store_step st (snd (revoke_node now nid st))"
| s_degraded: "store_step st (set_node_degraded nid st)"
| s_drained: "store_step st (snd (set_node_drained now nid d st))"
| s_reconcile: "store_step st (snd (reconcile_active_attempts st))"
| s_session: "store_step st (create_agent_session now aid adapter st)"
| s_note: "store_step st (append_audit_event now aid kind txt st)"
| s_artifact: "store_step st (snd (save_artifact_bytes cd now aid name bytes mt sha st))"
| s_approval: "store_step st (create_approval now apid tid aid session perm ttl step scope st)"
| s_answer: "store_step st (snd (answer_approval now apid ev reason2 actor st))"
| s_token: "store_step st (snd (create_enrollment_token cd now i tok st))"
| s_rekey: "store_step st (snd (create_rekey_token cd now i tok nid st))"

lemma same_core_misc:
  "same_core st (create_agent_session now aid adapter st)"
  "same_core st (append_audit_event now aid kind txt st)"
  "same_core st (create_approval now apid tid aid session perm ttl step scope st)"
  "same_core st (snd (answer_approval now apid ev reason2 actor st))"
  "same_core st (snd (create_enrollment_token cd now i tok st))"
  "same_core st (snd (create_rekey_token cd now i tok nid st))"
  by (auto intro!: same_coreI simp: create_agent_session_def append_audit_event_def
      create_approval_def answer_approval_def create_enrollment_token_def create_rekey_token_def
      Let_def split: option.splits sum.splits)

lemma store_step_refines: "store_step st st' \<Longrightarrow> store_inv st \<Longrightarrow> refines st st'"
proof (induction rule: store_step.induct)
  case s_create_task then show ?case by (rule_tac create_task_refines)
next
  case s_insert_task then show ?case by (rule_tac insert_task_tx_refines)
next
  case s_assign then show ?case by (rule_tac try_assign_batch_refines)
next
  case s_enroll then show ?case by (rule_tac enroll_refines)
next
  case s_reconcile then show ?case by (rule_tac reconcile_refines(2))
qed (simp_all add: ack_attempt_refines begin_validate_refines ingest_events_refines
    complete_attempt_refines reject_assignment_refines cancel_task_refines retry_task_refines
    revert_expired_leases_refines mark_offline_nodes_refines mark_node_offline_refines
    lose_if_offline_refines register_refines heartbeat_refines revoke_refines degraded_refines
    drained_refines same_core_refines same_core_misc same_core_save)

definition initial_store :: "store \<Rightarrow> bool" where
  "initial_store st \<longleftrightarrow> tasks st = [] \<and> attempts st = [] \<and> nodes st = []"

abbreviation store_reachable :: "store \<Rightarrow> bool" where
  "store_reachable \<equiv> reachable initial_store store_step"

interpretation store_sys: invariant_system initial_store store_step store_inv
proof unfold_locales
  fix s assume "initial_store s"
  then show "store_inv s"
    by (auto simp: initial_store_def store_inv_def keys_ok_def core_of_def core_inv_def
        counts_ok_def active_on_def)
next
  fix s t assume "store_inv s" "store_step s t"
  then show "store_inv t" using store_step_refines refines_inv by blast
qed

section \<open>Reading the invariant on the tables\<close>

lemma inv_task_row: "store_inv st \<Longrightarrow> t \<in> set (tasks st) \<Longrightarrow>
  c_tasks (core_of st) (t_id t) = Some (t_status t, t_assigned_attempt_id t)"
  using table_map_row [of t_id "tasks st" t task_val] by (simp add: store_inv_def keys_ok_def task_val_def)

lemma inv_attempt_row: "store_inv st \<Longrightarrow> a \<in> set (attempts st) \<Longrightarrow>
  c_attempts (core_of st) (a_id a) = Some (a_task_id a, a_node_id a, a_status a)"
  using table_map_row [of a_id "attempts st" a attempt_val]
  by (simp add: store_inv_def keys_ok_def attempt_val_def)

lemma inv_row_eq: "store_inv st \<Longrightarrow> a \<in> set (attempts st) \<Longrightarrow> b \<in> set (attempts st) \<Longrightarrow>
  a_id a = a_id b \<Longrightarrow> a = b"
  by (auto simp: store_inv_def keys_ok_def distinct_map inj_on_def)

lemma live_attempt_points:
  assumes "store_inv st" "a \<in> set (attempts st)" "attempt_active (a_status a)"
    "t \<in> set (tasks st)" "t_id t = a_task_id a"
  shows "t_assigned_attempt_id t = Some (a_id a)" "t_status t = task_of_attempt (a_status a)"
  using core_inv_attempt [OF keys_okD(2) [OF assms(1)], of "a_id a" "a_task_id a" "a_node_id a" "a_status a"]
    inv_attempt_row [OF assms(1,2)] inv_task_row [OF assms(1,4)] assms(3,5) by auto


section \<open>A concrete run\<close>

text \<open>One node, one task, one assignment: the store the examples below evaluate.\<close>

definition demo_spec :: task_spec where
  "demo_spec = \<lparr>ts_repository = ''repo'', ts_prompt = ''fix it'', ts_adapter = ''mock'',
     ts_requested_node_id = None, ts_base_commit = None, ts_parent_acp_session_id = None,
     ts_network_mode = None, ts_timeout_secs = 0, ts_validation_command = None,
     ts_security_profile = None, ts_group_id = None, ts_agent_id = None,
     ts_consensus_group_id = None, ts_consensus_member = None, ts_opencode_override = None,
     ts_github_push = False, ts_github_repo = None, ts_github_issue = None,
     ts_github_base_ref = None, ts_github_create = False, ts_max_attempts = 2,
     ts_consensus_mode = [], ts_review_of = None, ts_max_tokens = None,
     ts_max_cost_cents = None, ts_retry_on_node_loss = True\<rparr>"

definition demo_request :: create_task_request where
  "demo_request = \<lparr>cq_spec = demo_spec, cq_timeout_secs = None, cq_consensus_mode = None,
     cq_retry_on_node_loss = None\<rparr>"

definition demo_poll :: "id \<Rightarrow> poll_request" where
  "demo_poll n = \<lparr>pq_node_id = n, pq_name = ''node'', pq_adapters = [''mock''],
     pq_repositories = [''*''], pq_max_concurrency = 2\<rparr>"

definition demo_env :: sched_env where
  "demo_env = default_sched_env (1024 * 1024 * 1024)"

definition demo_draw :: "id \<Rightarrow> id \<times> string" where
  "demo_draw tid = (''a-'' @ tid, ''f-'' @ tid)"

definition demo_queued :: store where
  "demo_queued = snd (create_task 5 ''t1'' demo_request
     (register_or_touch_node 0 (demo_poll ''n1'') empty_store))"

definition demo_assigned :: store where
  "demo_assigned = snd (try_assign_batch demo_env 10 demo_draw ''n1'' 1 demo_queued)"

definition demo_running :: store where
  "demo_running = snd (ack_attempt 20 ''a-t1'' demo_assigned)"

definition demo_node :: "id \<Rightarrow> nat \<Rightarrow> node_row" where
  "demo_node n k = \<lparr>n_id = n, n_name = ''node'', n_status = NodeOnline, n_max_concurrency = 2,
     n_adapters = [''mock''], n_repositories = [''*''], n_active_attempts = k,
     n_last_heartbeat_at = Some 0, n_created_at = 0, n_drained = False, n_revoked_at = None,
     n_credential_hash = None, n_facts = default_facts\<rparr>"

definition demo_task :: "id \<Rightarrow> task_row" where
  "demo_task i = queued_task 5 i (stored_spec demo_request)"

lemma demo_queued_eq:
  "demo_queued = empty_store\<lparr>tasks := [demo_task ''t1''], nodes := [demo_node ''n1'' 0]\<rparr>"
  by (simp add: demo_queued_def create_task_def register_or_touch_node_def find_node_def sql_first_def
      demo_poll_def demo_node_def demo_task_def empty_store_def Let_def)

lemma demo_admission: "admission demo_env (demo_node n 0) 1 = Admit 1"
  by (simp add: admission_def demo_env_def default_sched_env_def demo_node_def default_facts_def
      free_mem_def Let_def)

lemma demo_eligible: "task_ineligibility demo_env st (row_to_node_view (demo_node n 0)) (demo_task i)
    = (case repo_reqs st ''repo'' of None \<Rightarrow> [] | Some r \<Rightarrow> [])"
  by (simp add: task_ineligibility_def node_ineligibility_def row_to_node_view_def demo_task_def
      demo_request_def demo_spec_def stored_spec_def queued_task_def demo_node_def default_facts_def
      demo_env_def default_sched_env_def free_mem_def Let_def split: option.split)

lemma demo_assigned_eq: "demo_assigned = empty_store
  \<lparr>tasks := [(demo_task ''t1'')\<lparr>t_status := TaskAssigned, t_assigned_attempt_id := Some ''a-t1''\<rparr>],
   attempts := [new_attempt 10 ''a-t1'' ''t1'' 1 ''n1'' ''f-t1''],
   nodes := [demo_node ''n1'' 1]\<rparr>"
proof -
  have el: "eligible_tasks demo_env demo_queued (row_to_node_view (demo_node ''n1'' 0)) 1
      (candidates demo_queued ''n1'') = [demo_task ''t1'']"
    by (simp add: eligible_tasks_def candidates_def demo_queued_eq demo_eligible repo_reqs_def
        sql_first_def empty_store_def) (simp add: demo_task_def queued_task_def stored_spec_def demo_request_def
        demo_spec_def)
  have fn: "find_node demo_queued ''n1'' = Some (demo_node ''n1'' 0)"
    by (simp add: find_node_def demo_queued_eq sql_first_def demo_node_def)
  have env: "\<not> se_free_bytes demo_env div (1024 * 1024) < se_disk_critical_mb demo_env"
    by (simp add: demo_env_def default_sched_env_def)
  have dr: "\<not> n_drained (demo_node ''n1'' 0)" by (simp add: demo_node_def)
  obtain asg where one: "assign_one 10 demo_draw ''n1'' demo_queued (demo_task ''t1'') ([], demo_queued) =
      ([asg], demo_queued
        \<lparr>tasks := [(demo_task ''t1'')\<lparr>t_status := TaskAssigned, t_assigned_attempt_id := Some ''a-t1''\<rparr>],
         attempts := [new_attempt 10 ''a-t1'' ''t1'' 1 ''n1'' ''f-t1'']\<rparr>)"
    by (simp add: assign_one_def demo_draw_def demo_queued_eq Let_def demo_task_def queued_task_def
        attempts_of_task_def empty_store_def)
  show ?thesis
    unfolding demo_assigned_def try_assign_batch_def Let_def
    using fn env dr demo_admission [of "''n1''"] el one
    by (simp add: inc_active_def) (simp add: demo_queued_eq demo_node_def)
qed

lemma demo_running_eq: "demo_running = empty_store
  \<lparr>tasks := [(demo_task ''t1'')\<lparr>t_status := TaskRunning, t_started_at := Some 20,
               t_assigned_attempt_id := Some ''a-t1''\<rparr>],
   attempts := [(new_attempt 10 ''a-t1'' ''t1'' 1 ''n1'' ''f-t1'')
      \<lparr>a_status := AttemptRunning, a_ack_deadline := None, a_started_at := 20\<rparr>],
   nodes := [demo_node ''n1'' 1]\<rparr>"
  by (simp add: demo_running_def ack_attempt_def demo_assigned_eq find_attempt_def sql_first_def
      new_attempt_def demo_task_def queued_task_def Let_def)

lemma demo_queued_reachable: "store_reachable demo_queued"
proof -
  let ?st1 = "register_or_touch_node 0 (demo_poll ''n1'') empty_store"
  have "store_reachable empty_store"
    by (rule reach_init) (simp add: initial_store_def empty_store_def)
  then have "store_reachable ?st1" by (rule reach_step) (rule s_register)
  moreover have "''t1'' \<notin> t_id ` set (tasks ?st1)"
    by (simp add: empty_store_def register_or_touch_node_def find_node_def sql_first_def)
  ultimately show ?thesis unfolding demo_queued_def by (blast intro: reach_step s_create_task)
qed

lemma demo_fresh: "fresh_draw demo_draw demo_queued"
  by (simp add: fresh_draw_def demo_queued_eq empty_store_def)

lemma demo_assigned_reachable: "store_reachable demo_assigned"
  unfolding demo_assigned_def
  by (rule reach_step [OF demo_queued_reachable s_assign [OF demo_fresh]])

lemma demo_running_reachable: "store_reachable demo_running"
  unfolding demo_running_def by (rule reach_step [OF demo_assigned_reachable s_ack])


section \<open>Lifecycle properties\<close>

text \<open>
  C1: Refinement. Whatever operation runs in a reachable store, its effect on
  tasks, attempts and node counters is a sequence of steps of the abstract specification
  \<open>core_step\<close>, and the result satisfies the invariant again.
\<close>
theorem store_refines_spec:
  assumes "store_reachable st" "store_step st st'"
  shows "core_step\<^sup>*\<^sup>* (core_of st) (core_of st') \<and> core_inv (core_of st')"
  using store_step_refines [OF assms(2) store_sys.reachable_inv [OF assms(1)]]
    store_sys.reachable_inv [OF reach_step [OF assms]]
  by (simp add: refines_def store_inv_def)

theorem store_refines_spec_witness:
  "core_step\<^sup>*\<^sup>* (core_of demo_queued) (core_of demo_assigned) \<and> core_inv (core_of demo_assigned)"
  unfolding demo_assigned_def
  by (rule store_refines_spec [OF demo_queued_reachable s_assign [OF demo_fresh]])

text \<open>
  C2: No double execution. In every reachable store a task has at most one
  attempt that is assigned, running or validating, and that attempt is the one the task
  row names, in the same phase.
\<close>
theorem at_most_one_live_attempt:
  assumes "store_reachable st" "a \<in> set (attempts st)" "b \<in> set (attempts st)"
    and "attempt_active (a_status a)" "attempt_active (a_status b)" "a_task_id a = a_task_id b"
  shows "a = b \<and> (\<exists>t \<in> set (tasks st). t_id t = a_task_id a
     \<and> t_assigned_attempt_id t = Some (a_id a) \<and> t_status t = task_of_attempt (a_status a))"
proof -
  note inv = store_sys.reachable_inv [OF assms(1)]
  obtain t where t: "t \<in> set (tasks st)" "t_id t = a_task_id a"
    using core_inv_refs [OF keys_okD(2) [OF inv], of "a_id a" "a_task_id a" "a_node_id a" "a_status a"]
      inv_attempt_row [OF inv assms(2)] by (auto dest!: table_map_Some_row)
  note pa = live_attempt_points [OF inv assms(2,4) t]
  have "t_assigned_attempt_id t = Some (a_id b)"
    using live_attempt_points(1) [OF inv assms(3,5) t(1)] t(2) assms(6) by simp
  with pa have "a_id a = a_id b" by simp
  then have "a = b" using inv_row_eq [OF inv assms(2,3)] by blast
  with pa t show ?thesis by blast
qed

theorem at_most_one_live_attempt_witness:
  "\<exists>a. attempts demo_running = [a] \<and> (\<exists>t \<in> set (tasks demo_running). t_id t = a_task_id a
     \<and> t_assigned_attempt_id t = Some (a_id a) \<and> t_status t = task_of_attempt (a_status a))"
proof -
  obtain a where a: "attempts demo_running = [a]" "attempt_active (a_status a)"
    by (simp add: demo_running_eq attempt_active.simps)
  with at_most_one_live_attempt [OF demo_running_reachable, of a a] show ?thesis by simp
qed

text \<open>
  A task that is queued or finished owns nothing. In every reachable store its
  row names no attempt and none of its attempts is live, so a terminal task holds no node
  slot and a late report has nothing to overwrite.
\<close>
theorem idle_task_owns_nothing:
  assumes "store_reachable st" "t \<in> set (tasks st)" "t_status t = TaskQueued \<or> task_terminal (t_status t)"
  shows "t_assigned_attempt_id t = None
     \<and> filter (\<lambda>a. a_task_id a = t_id t \<and> attempt_active (a_status a)) (attempts st) = []"
proof -
  note inv = store_sys.reachable_inv [OF assms(1)]
  have idle: "idle (t_status t)" using assms(3) by (simp add: idle_def)
  note ci = core_inv_idle [OF keys_okD(2) [OF inv] inv_task_row [OF inv assms(2)] idle]
  show ?thesis using ci(1) ci(2) inv_attempt_row [OF inv] by (fastforce simp: filter_empty_conv)
qed

theorem idle_task_owns_nothing_witness:
  "\<exists>t. tasks demo_queued = [t] \<and> t_assigned_attempt_id t = None
     \<and> filter (\<lambda>a. a_task_id a = t_id t \<and> attempt_active (a_status a)) (attempts demo_queued) = []"
proof -
  obtain t where t: "tasks demo_queued = [t]" "t_status t = TaskQueued"
    by (simp add: demo_queued_eq demo_task_def queued_task_def)
  with idle_task_owns_nothing [OF demo_queued_reachable, of t] show ?thesis by simp
qed

text \<open>
  C3: The quota counter is exact. In every reachable store each node's
  \<open>active_attempts\<close> is the number of its live attempts, so the startup repair never
  finds a drift, and no attempt points at a missing task.
\<close>
theorem active_counter_exact:
  assumes "store_reachable st"
  shows "fst (reconcile_active_attempts st) = 0 \<and> count_orphan_attempts st = 0"
proof -
  note inv = store_sys.reachable_inv [OF assms]
  have "find_task st (a_task_id a) \<noteq> None" if "a \<in> set (attempts st)" for a
    using core_inv_refs [OF keys_okD(2) [OF inv], of "a_id a" "a_task_id a" "a_node_id a" "a_status a"]
      inv_attempt_row [OF inv that] sql_first_key [of t_id task_val "tasks st" "a_task_id a"]
    by (auto simp: find_task_def)
  then show ?thesis
    using reconcile_refines(1) [OF inv]
    by (auto simp: count_orphan_attempts_def sql_count_def filter_empty_conv)
qed

theorem active_counter_exact_witness:
  "fst (reconcile_active_attempts demo_running) = 0 \<and> count_orphan_attempts demo_running = 0"
  by (rule active_counter_exact [OF demo_running_reachable])

section \<open>Every status change is a run of the machines\<close>

lemma run_machine_append:
  "run_machine f s es = Inr t \<Longrightarrow> run_machine f t es' = Inr u \<Longrightarrow> run_machine f s (es @ es') = Inr u"
  by (induction es arbitrary: s) (auto simp: try_bind_eq_Inr)

lemma core_step_attempt_run:
  assumes "core_step c c'" "c_attempts c a = Some (t, n, s)"
  shows "\<exists>es s'. c_attempts c' a = Some (t, n, s') \<and> run_machine next_attempt_status s es = Inr s'"
  using assms
proof cases
  case (advance b t' n' s1 e s2)
  show ?thesis
  proof (cases "a = b")
    case True
    with advance assms(2) have "run_machine next_attempt_status s [e] = Inr s2" by simp
    then show ?thesis using advance True assms(2) by fastforce
  next
    case False
    then show ?thesis using advance assms(2) by (intro exI [of _ "[]"]) simp
  qed
next
  case (finish b t' n' s1 e s2 ts k)
  show ?thesis
  proof (cases "a = b")
    case True
    with finish assms(2) have "run_machine next_attempt_status s [e] = Inr s2" by simp
    then show ?thesis using finish True assms(2) by fastforce
  next
    case False
    then show ?thesis using finish assms(2) by (intro exI [of _ "[]"]) simp
  qed
qed (use assms(2) in \<open>auto intro!: exI [of _ "[]"]\<close>)

lemma finish_task_run:
  assumes "next_attempt_status s e = Inr s'" "ts \<in> {task_of_attempt s', TaskQueued}" "attempt_terminal s'"
  shows "\<exists>es. run_machine next_task_status (task_of_attempt s) es = Inr ts"
proof -
  have one: "next_task_status (task_of_attempt s) (task_event_of e) = Inr (task_of_attempt s')"
    using assms(1) task_attempt_lockstep by blast
  show ?thesis
  proof (cases "ts = task_of_attempt s'")
    case True
    then show ?thesis using one by (intro exI [of _ "[task_event_of e]"]) simp
  next
    case False
    then have ts: "ts = TaskQueued" using assms(2) by simp
    show ?thesis
    proof (cases "s' = AttemptSucceeded")
      case False
      then have "next_task_status (task_of_attempt s') TRetry = Inr TaskQueued"
        using assms(3) by (cases s') (auto simp: attempt_terminal.simps)
      then show ?thesis using one ts by (intro exI [of _ "[task_event_of e, TRetry]"]) simp
    next
      case True
      then have "s \<in> {AttemptRunning, AttemptValidating}" using assms(1) by (cases s; cases e) auto
      then have "next_task_status (task_of_attempt s) TFail = Inr TaskFailed" by auto
      then show ?thesis using ts by (intro exI [of _ "[TFail, TRetry]"]) simp
    qed
  qed
qed

lemma core_step_task_run:
  assumes "core_step c c'" "core_inv c" "c_tasks c t = Some (s, x)"
  shows "\<exists>es s' x'. c_tasks c' t = Some (s', x') \<and> run_machine next_task_status s es = Inr s'"
  using assms(1)
proof cases
  case (assign u y a n k)
  show ?thesis
  proof (cases "u = t")
    case True
    then show ?thesis using assign assms(3) by (intro exI [of _ "[TAssign]"]) simp
  qed (use assign assms(3) in \<open>auto intro!: exI [of _ "[]"]\<close>)
next
  case (advance a u n s1 e s2)
  show ?thesis
  proof (cases "u = t")
    case True
    have "attempt_active s1"
      using attempt.accepted_not_terminal [OF advance(3)] attempt_active_terminal by blast
    then have "s = task_of_attempt s1" using core_inv_attempt [OF assms(2) advance(2)] assms(3) True by simp
    moreover have "next_task_status (task_of_attempt s1) (task_event_of e) = Inr (task_of_attempt s2)"
      using advance(3) task_attempt_lockstep by blast
    ultimately show ?thesis using advance True by (intro exI [of _ "[task_event_of e]"]) simp
  qed (use advance assms(3) in \<open>auto intro!: exI [of _ "[]"]\<close>)
next
  case (finish a u n s1 e s2 ts k)
  show ?thesis
  proof (cases "u = t")
    case True
    have "attempt_active s1"
      using attempt.accepted_not_terminal [OF finish(3)] attempt_active_terminal by blast
    then have "s = task_of_attempt s1" using core_inv_attempt [OF assms(2) finish(2)] assms(3) True by simp
    then show ?thesis using finish_task_run [OF finish(3,5,4)] finish(1) True by auto
  qed (use finish assms(3) in \<open>auto intro!: exI [of _ "[]"]\<close>)
next
  case (cancel_queued u y)
  show ?thesis
  proof (cases "u = t")
    case True
    then show ?thesis using cancel_queued assms(3) by (intro exI [of _ "[TCancel]"]) simp
  qed (use cancel_queued assms(3) in \<open>auto intro!: exI [of _ "[]"]\<close>)
next
  case (retry u s1 y)
  show ?thesis
  proof (cases "u = t")
    case True
    then show ?thesis using retry assms(3) by (intro exI [of _ "[TRetry]"]) auto
  qed (use retry assms(3) in \<open>auto intro!: exI [of _ "[]"]\<close>)
qed (use assms(3) in \<open>auto intro!: exI [of _ "[]"]\<close>)

lemma core_steps_runs:
  assumes "core_step\<^sup>*\<^sup>* c c'" "core_inv c"
  shows "c_attempts c a = Some (t, n, s) \<Longrightarrow>
      \<exists>es s'. c_attempts c' a = Some (t, n, s') \<and> run_machine next_attempt_status s es = Inr s'"
    and "c_tasks c u = Some (r, x) \<Longrightarrow>
      \<exists>es r' x'. c_tasks c' u = Some (r', x') \<and> run_machine next_task_status r es = Inr r'"
  using assms
proof (induction rule: rtranclp_induct)
  case base
  { case 1 then show ?case by (intro exI [of _ "[]"]) simp }
  { case 2 then show ?case by (intro exI [of _ "[]"]) simp }
next
  case (step d e)
  { case 1
    then obtain es s' where "c_attempts d a = Some (t, n, s')" "run_machine next_attempt_status s es = Inr s'"
      using step.IH(1) by blast
    then show ?case using core_step_attempt_run [OF step.hyps(2)] run_machine_append by metis }
  { case 2
    then obtain es r' x' where "c_tasks d u = Some (r', x')" "run_machine next_task_status r es = Inr r'"
      using step.IH(2) by blast
    then show ?case
      using core_step_task_run [OF step.hyps(2) core_steps_inv [OF step.hyps(1) 2(2)]] run_machine_append
      by metis }
qed

end
