(* ===== verification/SchedProps.thy ===== *)
theory SchedProps
  imports StoreProps
begin

text \<open>
  What the assignment transaction guarantees: who gets work, how much, in which order,
  and that what was handed out is what the store recorded. The properties rest on one
  normal form of \<open>try_assign_batch\<close>: either nothing is assigned, or the batch is
  the image of the eligible prefix of the queue.
\<close>

section \<open>The batch as the image of the queue\<close>

definition drawn_attempt :: "time \<Rightarrow> (id \<Rightarrow> id \<times> string) \<Rightarrow> id \<Rightarrow> store \<Rightarrow> task_row \<Rightarrow> attempt_row" where
  "drawn_attempt now draw nid st t =
     new_attempt now (fst (draw (t_id t))) (t_id t) (attempts_of_task st (t_id t) + 1) nid
       (snd (draw (t_id t)))"

definition drawn_assignment :: "(id \<Rightarrow> id \<times> string) \<Rightarrow> store \<Rightarrow> task_row \<Rightarrow> assignment" where
  "drawn_assignment draw st t =
     finish_assignment st (fst (draw (t_id t))) (snd (draw (t_id t)))
       (attempts_of_task st (t_id t) + 1) (map_of (rev (step_roles st)) (t_id t)) t"

lemma finish_assignment_simps [simp]:
  "as_attempt_id (finish_assignment st aid fence k role t) = aid"
  "as_fencing_token (finish_assignment st aid fence k role t) = fence"
  "as_task_id (finish_assignment st aid fence k role t) = t_id t"
  "as_number (finish_assignment st aid fence k role t) = k"
  "as_spec (finish_assignment st aid fence k role t) = t_spec t"
  by (simp_all add: finish_assignment_def Let_def)

lemma unacked_member:
  assumes "a \<in> set (attempts st)" "a_node_id a = nid" "a_status a = AttemptAssigned"
    and "find_task st (a_task_id a) = Some t"
  shows "finish_assignment st (a_id a) (a_fencing_token a) (a_number a) (map_of (step_roles st) (t_id t)) t
    \<in> set (unacked_assignments st nid)"
  using assms unfolding unacked_assignments_def by (force intro!: bexI [of _ a])

lemma drawn_assignment_simps [simp]:
  "as_attempt_id (drawn_assignment draw st t) = fst (draw (t_id t))"
  "as_fencing_token (drawn_assignment draw st t) = snd (draw (t_id t))"
  "as_task_id (drawn_assignment draw st t) = t_id t"
  "as_number (drawn_assignment draw st t) = attempts_of_task st (t_id t) + 1"
  "as_spec (drawn_assignment draw st t) = t_spec t"
  by (simp_all add: drawn_assignment_def)

lemma drawn_attempt_simps [simp]:
  "a_id (drawn_attempt now draw nid st t) = fst (draw (t_id t))"
  "a_task_id (drawn_attempt now draw nid st t) = t_id t"
  "a_node_id (drawn_attempt now draw nid st t) = nid"
  "a_status (drawn_attempt now draw nid st t) = AttemptAssigned"
  "a_fencing_token (drawn_attempt now draw nid st t) = snd (draw (t_id t))"
  "a_number (drawn_attempt now draw nid st t) = attempts_of_task st (t_id t) + 1"
  by (simp_all add: drawn_attempt_def new_attempt_def)

definition spec_table :: "store \<Rightarrow> (id \<times> task_spec) list" where
  "spec_table st = map (\<lambda>t. (t_id t, t_spec t)) (tasks st)"

lemma spec_table_find:
  assumes "spec_table st' = spec_table st"
  shows "map_option t_spec (find_task st' i) = map_option t_spec (find_task st i)"
proof -
  have "map_option t_spec (find_task st i) = map_of (spec_table st) i" for st
  proof -
    have "map_option t_spec (sql_first (\<lambda>t. t_id t = i) ts) = map_of (map (\<lambda>t. (t_id t, t_spec t)) ts) i" for ts
      by (induction ts) (auto simp: sql_first_def)
    then show ?thesis by (simp add: find_task_def spec_table_def)
  qed
  then show ?thesis using assms by simp
qed

lemma assign_fold_image:
  assumes "distinct (map t_id (tasks st))" "distinct (map t_id el)"
    and "\<And>t. t \<in> set el \<Longrightarrow> \<exists>x. table_map t_id task_val (tasks st) (t_id t) = Some (TaskQueued, x)"
    and "fold (assign_one now draw nid st0) el (batch, st) = (batch', st')"
  shows "batch' = batch @ map (drawn_assignment draw st0) el
       \<and> attempts st' = attempts st @ map (drawn_attempt now draw nid st0) el
       \<and> nodes st' = nodes st \<and> spec_table st' = spec_table st"
  using assms
proof (induction el arbitrary: batch st)
  case (Cons t el)
  note p = Cons.prems
  obtain x where tq: "table_map t_id task_val (tasks st) (t_id t) = Some (TaskQueued, x)"
    using p(3) [of t] by auto
  obtain aid fence where d: "draw (t_id t) = (aid, fence)" by fastforce
  let ?st = "assigned_store now nid st0 (t_id t) aid fence st"
  note one = assign_one_result [where draw = draw, OF p(1) tq d, of now nid st0 batch]
  have tm: "table_map t_id task_val (tasks ?st) =
      (table_map t_id task_val (tasks st))(t_id t \<mapsto> (TaskAssigned, Some aid))"
    using tasks_cas [where P = "\<lambda>s _. s = TaskQueued", OF tq] by (simp add: assigned_store_def)
  have "batch' = (batch @ [drawn_assignment draw st0 t]) @ map (drawn_assignment draw st0) el
      \<and> attempts st' = attempts ?st @ map (drawn_attempt now draw nid st0) el \<and> nodes st' = nodes ?st
      \<and> spec_table st' = spec_table ?st"
  proof (rule Cons.IH)
    show "distinct (map t_id (tasks ?st))" using p(1) by (simp add: assigned_store_def map_sql_update)
    show "distinct (map t_id el)" using p(2) by simp
    show "fold (assign_one now draw nid st0) el (batch @ [drawn_assignment draw st0 t], ?st) = (batch', st')"
      using p(4) one d by (simp add: drawn_assignment_def)
    fix u assume "u \<in> set el"
    moreover from this have "t_id u \<noteq> t_id t" using p(2) by (auto simp: image_iff)
    ultimately show "\<exists>x. table_map t_id task_val (tasks ?st) (t_id u) = Some (TaskQueued, x)"
      using p(3) [of u] tm by simp
  qed
  then show ?case using d by (simp add: assigned_store_def drawn_attempt_def spec_table_def map_sql_update)
qed simp

lemma batch_normal_form:
  assumes "store_inv st" "try_assign_batch env now draw nid limit st = (b, st')"
  obtains "b = []" "attempts st' = attempts st" "nodes st' = nodes st"
  | n cap el where "b \<noteq> []" "find_node st nid = Some n" "\<not> n_drained n" "admission env n limit = Admit cap"
      "el = eligible_tasks env st (row_to_node_view n) cap (candidates st nid)"
      "b = map (drawn_assignment draw st) el"
      "attempts st' = attempts st @ map (drawn_attempt now draw nid st) el"
      "nodes st' = nodes (inc_active nid (length b) st)" "spec_table st' = spec_table st"
proof (cases "b = []")
  case True
  then have "attempts st' = attempts st \<and> nodes st' = nodes st"
    using assms(2)
    by (auto simp: try_assign_batch_def Let_def split: if_splits option.splits gate_result.splits prod.splits)
  with True that(1) show ?thesis by blast
next
  case False
  then obtain n cap where n: "find_node st nid = Some n" "\<not> n_drained n" "admission env n limit = Admit cap"
    using assms(2)
    by (auto simp: try_assign_batch_def Let_def split: if_splits option.splits gate_result.splits)
  define el where "el = eligible_tasks env st (row_to_node_view n) cap (candidates st nid)"
  obtain b1 st1 where fo: "fold (assign_one now draw nid st) el ([], st) = (b1, st1)" by fastforce
  have dt: "distinct (map t_id (tasks st))" using assms(1) by (simp add: store_inv_def keys_ok_def)
  note ep = eligible_props [OF assms(1) el_def]
  have im: "b1 = map (drawn_assignment draw st) el"
      "attempts st1 = attempts st @ map (drawn_attempt now draw nid st) el" "nodes st1 = nodes st"
      "spec_table st1 = spec_table st"
    using assign_fold_image [OF dt ep(1,3) fo] by auto
  have "b = b1" "st' = inc_active nid (length b) st1"
    using assms(2) False n fo
    by (auto simp: try_assign_batch_def Let_def el_def [symmetric] split: if_splits)
  then show ?thesis using that(2) [OF False n el_def] im by (simp add: inc_active_def spec_table_def)
qed

lemma admit_capacity:
  "admission env n limit = Admit cap \<Longrightarrow> cap = min limit (n_max_concurrency n - n_active_attempts n) \<and> 0 < cap"
  by (auto simp: admission_def Let_def split: if_splits)

lemma eligible_member:
  assumes "t \<in> set (eligible_tasks env st nv cap (candidates st nid))"
  shows "t \<in> set (tasks st)" "t_status t = TaskQueued" "task_ineligibility env st nv t = []"
    "ts_requested_node_id (t_spec t) \<in> {None, Some nid}"
    "t_avoid_node_id t = Some nid \<longrightarrow> other_online st nid = 0"
  using assms by (auto simp: eligible_tasks_def candidates_def dest!: in_set_takeD)

lemma sql_first_row:
  "distinct (map key rows) \<Longrightarrow> r \<in> set rows \<Longrightarrow> sql_first (\<lambda>x. key x = key r) rows = Some r"
  using sql_first_key [of key id rows "key r"] table_map_row [of key rows r id] by (simp add: option.map_id)

lemma sql_first_update:
  assumes "\<And>r. key (f r) = key r"
  shows "sql_first (\<lambda>r. key r = k) (sql_update p f rows) =
    map_option (\<lambda>r. if p r then f r else r) (sql_first (\<lambda>r. key r = k) rows)"
  using assms by (induction rows) (auto simp: sql_first_def sql_update_def)

lemma find_task_row: "store_inv st \<Longrightarrow> t \<in> set (tasks st) \<Longrightarrow> find_task st (t_id t) = Some t"
  by (simp add: find_task_def sql_first_row store_inv_def keys_ok_def)

section \<open>The concrete batch\<close>

lemma batch_admits:
  assumes inv: "store_inv st" and n: "find_node st nid = Some n"
    and ad: "admission env n limit = Admit cap"
    and el: "eligible_tasks env st (row_to_node_view n) cap (candidates st nid) \<noteq> []"
    and "\<not> n_drained n" "\<not> (se_disk_critical_mb env > 0 \<and> se_free_bytes env div (1024 * 1024) < se_disk_critical_mb env)"
  shows "fst (try_assign_batch env now draw nid limit st) =
    map (drawn_assignment draw st) (eligible_tasks env st (row_to_node_view n) cap (candidates st nid))"
proof -
  let ?el = "eligible_tasks env st (row_to_node_view n) cap (candidates st nid)"
  obtain b1 st1 where fo: "fold (assign_one now draw nid st) ?el ([], st) = (b1, st1)" by fastforce
  have dt: "distinct (map t_id (tasks st))" using inv by (simp add: store_inv_def keys_ok_def)
  note ep = eligible_props [OF inv refl]
  have b1: "b1 = map (drawn_assignment draw st) ?el"
    using assign_fold_image [OF dt ep(1,3) fo] by auto
  moreover have "limit \<noteq> 0" using admit_capacity [OF ad] by auto
  ultimately show ?thesis using assms fo el by (auto simp: try_assign_batch_def Let_def)
qed

lemma demo_disk: "\<not> (se_disk_critical_mb demo_env > 0 \<and>
    se_free_bytes demo_env div (1024 * 1024) < se_disk_critical_mb demo_env)"
  by (simp add: demo_env_def default_sched_env_def)

definition demo_assignment :: assignment where
  "demo_assignment = drawn_assignment demo_draw demo_queued (demo_task ''t1'')"

lemma demo_task_simps [simp]:
  "t_id (demo_task i) = i" "t_status (demo_task i) = TaskQueued" "t_avoid_node_id (demo_task i) = None"
  "ts_requested_node_id (t_spec (demo_task i)) = None" "t_created_at (demo_task i) = 5"
  "ts_network_mode (t_spec (demo_task i)) = None" "t_spec (demo_task i) = stored_spec demo_request"
  by (simp_all add: demo_task_def queued_task_def stored_spec_def demo_request_def demo_spec_def)

lemma demo_find_node: "find_node demo_queued ''n1'' = Some (demo_node ''n1'' 0)"
  by (simp add: find_node_def demo_queued_eq sql_first_def demo_node_def)

lemma demo_eligible_tasks: "eligible_tasks demo_env demo_queued (row_to_node_view (demo_node ''n1'' 0)) 1
    (candidates demo_queued ''n1'') = [demo_task ''t1'']"
  by (simp add: eligible_tasks_def candidates_def demo_queued_eq demo_eligible repo_reqs_def
      sql_first_def empty_store_def stored_spec_def demo_request_def demo_spec_def)

lemma demo_batch:
  "try_assign_batch demo_env 10 demo_draw ''n1'' 1 demo_queued = ([demo_assignment], demo_assigned)"
proof -
  have "fst (try_assign_batch demo_env 10 demo_draw ''n1'' 1 demo_queued) =
      map (drawn_assignment demo_draw demo_queued) [demo_task ''t1'']"
    using batch_admits [OF store_sys.reachable_inv [OF demo_queued_reachable] demo_find_node, of demo_env 1 1]
      demo_admission [of "''n1''"] demo_eligible_tasks demo_disk by (simp add: demo_node_def)
  then show ?thesis by (simp add: demo_assignment_def demo_assigned_def prod_eq_iff)
qed

text \<open>The same store with a second, younger task.\<close>

definition demo_two :: store where
  "demo_two = snd (create_task 6 ''t2'' demo_request demo_queued)"

lemma demo_two_reachable: "store_reachable demo_two"
  unfolding demo_two_def
  by (rule reach_step [OF demo_queued_reachable s_create_task]) (simp add: demo_queued_eq)

lemma demo_two_eq: "demo_two = empty_store
  \<lparr>tasks := [demo_task ''t1'', queued_task 6 ''t2'' (stored_spec demo_request)], nodes := [demo_node ''n1'' 0]\<rparr>"
  by (simp add: demo_two_def demo_queued_eq create_task_def Let_def)

lemma demo_younger: "task_ineligibility demo_env demo_two (row_to_node_view (demo_node ''n1'' 0))
    (queued_task 6 ''t2'' (stored_spec demo_request)) = []"
  using demo_eligible [of demo_two "''n1''" "''t2''"]
  by (simp add: demo_two_eq repo_reqs_def sql_first_def empty_store_def task_ineligibility_def
      queued_task_def)

lemma demo_two_candidates: "candidates demo_two ''n1'' =
    [demo_task ''t1'', queued_task 6 ''t2'' (stored_spec demo_request)]"
  by (simp add: candidates_def demo_two_eq stored_spec_def demo_request_def demo_spec_def queued_task_def)

lemma demo_two_batch: "fst (try_assign_batch demo_env 10 demo_draw ''n1'' 1 demo_two) =
    [drawn_assignment demo_draw demo_two (demo_task ''t1'')]"
proof -
  have "eligible_tasks demo_env demo_two (row_to_node_view (demo_node ''n1'' 0)) 1
      (candidates demo_two ''n1'') = [demo_task ''t1'']"
    unfolding eligible_tasks_def demo_two_candidates
    by (simp add: demo_eligible demo_younger) (simp add: demo_two_eq repo_reqs_def sql_first_def empty_store_def)
  moreover have "find_node demo_two ''n1'' = Some (demo_node ''n1'' 0)"
    by (simp add: find_node_def demo_two_eq sql_first_def demo_node_def)
  ultimately show ?thesis
    using batch_admits [OF store_sys.reachable_inv [OF demo_two_reachable], of "''n1''" _ demo_env 1 1]
      demo_admission [of "''n1''"] demo_disk by (simp add: demo_node_def)
qed

section \<open>Properties\<close>

text \<open>
  Only admissible work is handed out. Every assignment of a batch is a task that
  was queued in the store the transaction read; the node is registered, online, not
  drained and declares the task's adapter and repository; a task pinned to a node goes to
  that node, and a task that was lost on this node comes back to it only when no other
  node is online and undrained.
\<close>

theorem assigned_work_is_admissible:
  assumes "store_reachable st" "try_assign_batch env now draw nid limit st = (b, st')" "x \<in> set b"
  shows "\<exists>n t. find_node st nid = Some n \<and> find_task st (as_task_id x) = Some t
       \<and> n_status n = NodeOnline \<and> \<not> n_drained n \<and> t_status t = TaskQueued \<and> as_spec x = t_spec t
       \<and> ts_adapter (t_spec t) \<in> set (n_adapters n)
       \<and> (''*'' \<in> set (n_repositories n) \<or> ts_repository (t_spec t) \<in> set (n_repositories n))
       \<and> ts_requested_node_id (t_spec t) \<in> {None, Some nid}
       \<and> (t_avoid_node_id t = Some nid \<longrightarrow> other_online st nid = 0)"
proof -
  have inv: "store_inv st" using assms(1) by (rule store_sys.reachable_inv)
  from inv assms(2) show ?thesis
  proof (cases rule: batch_normal_form)
    case (2 n cap el)
    then obtain t where t: "t \<in> set el" "x = drawn_assignment draw st t" using assms(3) by auto
    note e = eligible_member [OF t(1) [unfolded 2(5)]]
    have "n_status n = NodeOnline \<and> ts_adapter (t_spec t) \<in> set (n_adapters n)
        \<and> (''*'' \<in> set (n_repositories n) \<or> ts_repository (t_spec t) \<in> set (n_repositories n))"
      using e(3) by (auto simp: task_ineligibility_def node_ineligibility_def Let_def row_to_node_view_def
          list_ex_iff split: if_splits)
    then show ?thesis using 2(2,3) t e find_task_row [OF inv e(1)] by simp
  qed (use assms(3) in simp)
qed

theorem assigned_work_is_admissible_witness:
  "\<exists>n t. find_node demo_queued ''n1'' = Some n \<and> find_task demo_queued (as_task_id demo_assignment) = Some t
       \<and> n_status n = NodeOnline \<and> \<not> n_drained n \<and> t_status t = TaskQueued"
  using assigned_work_is_admissible [OF demo_queued_reachable demo_batch, of demo_assignment] by auto

text \<open>
  C8: A poll never overfills a node. A batch has at most \<open>limit\<close> assignments and
  fits the node's free slots; the counter grows by exactly the size of the batch, so it
  never passes \<open>max_concurrency\<close> by an assignment, and no other node's counter moves.
\<close>

theorem batch_within_capacity:
  assumes "store_reachable st" "try_assign_batch env now draw nid limit st = (b, st')"
    and "find_node st m = Some n"
  shows "length b \<le> limit
       \<and> (\<exists>n'. find_node st' m = Some n'
            \<and> n_active_attempts n' = n_active_attempts n + (if m = nid then length b else 0)
            \<and> n_active_attempts n' \<le> max (n_active_attempts n) (n_max_concurrency n))"
proof -
  have inv: "store_inv st" using assms(1) by (rule store_sys.reachable_inv)
  from inv assms(2) show ?thesis
  proof (cases rule: batch_normal_form)
    case 1
    then show ?thesis using assms(3) by (simp add: find_node_def)
  next
    case (2 k cap el)
    have "length b \<le> cap" using eligible_props(4) [OF inv 2(5)] 2(6) by simp
    then have le: "length b \<le> limit" "length b \<le> n_max_concurrency k - n_active_attempts k"
      using admit_capacity [OF 2(4)] by auto
    have id: "n_id n = m" using assms(3) by (auto simp: find_node_def dest: sql_first_SomeD)
    have "find_node st' m = Some (if m = nid then n\<lparr>n_active_attempts := n_active_attempts n + length b\<rparr> else n)"
      using assms(3) 2(8) id
      by (simp add: find_node_def inc_active_def sql_first_update [where key = n_id])
    moreover have "k = n" if "m = nid" using 2(2) assms(3) that by simp
    ultimately show ?thesis using le by auto
  qed
qed

theorem batch_within_capacity_witness:
  "length [demo_assignment] \<le> 1 \<and> (\<exists>n'. find_node demo_assigned ''n1'' = Some n' \<and> n_active_attempts n' = 1)"
  using batch_within_capacity [OF demo_queued_reachable demo_batch demo_find_node]
  by (auto simp: demo_node_def)

text \<open>
  First come, first served. A queued task this node could run is left out of a
  non-empty batch only when the batch is already as large as the free slots or the limit
  allow, and then no task of the batch is younger than it.
\<close>

theorem batch_is_fifo:
  assumes "store_reachable st" "try_assign_batch env now draw nid limit st = (b, st')"
    and "find_node st nid = Some n" "b \<noteq> []" "t \<in> set (candidates st nid)"
    and "task_ineligibility env st (row_to_node_view n) t = []"
    and "t_id t \<notin> set (map as_task_id b)"
  shows "length b = min limit (n_max_concurrency n - n_active_attempts n)
       \<and> (\<forall>x \<in> set b. \<exists>u. find_task st (as_task_id x) = Some u \<and> t_created_at u \<le> t_created_at t)"
proof -
  have inv: "store_inv st" using assms(1) by (rule store_sys.reachable_inv)
  from inv assms(2) show ?thesis
  proof (cases rule: batch_normal_form)
    case (2 k cap el)
    have k: "k = n" using 2(2) assms(3) by simp
    define q where "q = filter (\<lambda>t. task_ineligibility env st (row_to_node_view n) t = []) (candidates st nid)"
    have el: "el = take cap q" using 2(5) k by (simp add: eligible_tasks_def q_def)
    have t: "t \<in> set q" "t \<notin> set el" using assms(5-7) 2(6) by (auto simp: q_def)
    have sq: "sorted (map t_created_at q)"
      unfolding q_def candidates_def by (intro sorted_filter sorted_sort_key)
    have td: "t \<in> set (drop cap q)" using t el by (metis UnE append_take_drop_id set_append)
    then have "cap < length q" by (metis drop_all empty_iff empty_set not_less)
    then have len: "length b = cap" using el 2(6) by simp
    have "sorted (map t_created_at el @ map t_created_at (drop cap q))"
      using sq el by (simp flip: map_append)
    then have "t_created_at u \<le> t_created_at t" if "u \<in> set el" for u
      using that td by (auto simp: sorted_append)
    moreover have "find_task st (t_id u) = Some u" if "u \<in> set el" for u
      using find_task_row [OF inv] eligible_props(2) [OF inv 2(5)] that by auto
    ultimately show ?thesis using len admit_capacity [OF 2(4)] k 2(6) by auto
  qed (use assms(4) in simp)
qed

theorem batch_is_fifo_witness:
  "length (fst (try_assign_batch demo_env 10 demo_draw ''n1'' 1 demo_two)) = 1
   \<and> (\<exists>u. find_task demo_two ''t1'' = Some u \<and> t_created_at u \<le> 6)"
proof -
  let ?t2 = "queued_task 6 ''t2'' (stored_spec demo_request)"
  obtain b st' where r: "try_assign_batch demo_env 10 demo_draw ''n1'' 1 demo_two = (b, st')" by fastforce
  then have b: "b = [drawn_assignment demo_draw demo_two (demo_task ''t1'')]" using demo_two_batch by simp
  have n: "find_node demo_two ''n1'' = Some (demo_node ''n1'' 0)"
    by (simp add: find_node_def demo_two_eq sql_first_def demo_node_def)
  have "length b = min 1 (n_max_concurrency (demo_node ''n1'' 0) - n_active_attempts (demo_node ''n1'' 0))
      \<and> (\<forall>x \<in> set b. \<exists>u. find_task demo_two (as_task_id x) = Some u \<and> t_created_at u \<le> t_created_at ?t2)"
    using b by (intro batch_is_fifo [OF demo_two_reachable r n _ _ demo_younger])
      (simp_all add: demo_two_candidates queued_task_def)
  then show ?thesis using b r by (simp add: queued_task_def)
qed

text \<open>
  What the node is told is what the store recorded. With fresh random ids every
  assignment of a batch names an attempt that the store now holds as assigned to this node,
  with the same task, number and fencing token and a thirty-second acknowledgement
  deadline; the token passes the fencing check, and the assignment is among those a
  reconnecting node is sent again.
\<close>

theorem batch_is_recorded:
  assumes "store_reachable st" "fresh_draw draw st" "x \<in> set b"
    and "try_assign_batch env now draw nid limit st = (b, st')"
  shows "(\<exists>a. find_attempt st' (as_attempt_id x) = Some a \<and> a_status a = AttemptAssigned
       \<and> a_task_id a = as_task_id x \<and> a_node_id a = nid \<and> a_number a = as_number x
       \<and> a_fencing_token a = as_fencing_token x \<and> a_ack_deadline a = Some (now + secs 30))
     \<and> check_fencing_token st' (as_attempt_id x) (Some (as_fencing_token x)) = Inr ()
     \<and> (\<exists>y \<in> set (unacked_assignments st' nid). as_attempt_id y = as_attempt_id x
       \<and> as_fencing_token y = as_fencing_token x \<and> as_task_id y = as_task_id x
       \<and> as_number y = as_number x \<and> as_spec y = as_spec x)"
proof -
  have inv: "store_inv st" using assms(1) by (rule store_sys.reachable_inv)
  have "store_inv st'"
    using try_assign_batch_refines [OF inv assms(2), of env now nid limit] assms(4) refines_inv [OF inv] by simp
  then have dist: "distinct (map a_id (attempts st'))" by (simp add: store_inv_def keys_ok_def)
  from inv assms(4) show ?thesis
  proof (cases rule: batch_normal_form)
    case (2 n cap el)
    then obtain t where t: "t \<in> set el" "x = drawn_assignment draw st t" using assms(3) by auto
    define a where "a = drawn_attempt now draw nid st t"
    have mem: "a \<in> set (attempts st')" using 2(7) t(1) by (simp add: a_def)
    have fa: "find_attempt st' (fst (draw (t_id t))) = Some a"
      using sql_first_row [OF dist mem] by (simp add: find_attempt_def a_def)
    have "find_task st (t_id t) = Some t"
      using find_task_row [OF inv] eligible_member(1) t(1) 2(5) by blast
    then obtain t' where t': "find_task st' (t_id t) = Some t'" "t_spec t' = t_spec t"
      using spec_table_find [OF 2(9), of "t_id t"] by (cases "find_task st' (t_id t)") auto
    have "t_id t' = t_id t" using t'(1) by (auto simp: find_task_def dest: sql_first_SomeD)
    then have "\<exists>y \<in> set (unacked_assignments st' nid). as_attempt_id y = a_id a
        \<and> as_fencing_token y = a_fencing_token a \<and> as_task_id y = t_id t \<and> as_number y = a_number a
        \<and> as_spec y = t_spec t"
      using unacked_member [OF mem, of nid t'] t'
      by (intro bexI [OF _ unacked_member [OF mem, of nid t']]) (simp_all add: a_def)
    then show ?thesis
      using fa t(2) by (auto simp: check_fencing_token_def a_def drawn_attempt_def new_attempt_def ACK_DEADLINE_SECS_def)
  qed (use assms(3) in simp)
qed

theorem batch_is_recorded_witness:
  "check_fencing_token demo_assigned (as_attempt_id demo_assignment) (Some (as_fencing_token demo_assignment)) = Inr ()"
  using batch_is_recorded [OF demo_queued_reachable demo_fresh _ demo_batch, of demo_assignment] by simp

text \<open>
  Network access is never granted. The scheduler's query leaves out the column in
  which a node declares its network mode, so it compares every task with \<open>none\<close>:
  whatever mode the nodes report, a task that asks for \<open>restricted\<close> or
  \<open>unrestricted\<close> network access is in no batch.
\<close>

theorem networked_task_never_assigned:
  assumes "store_reachable st" "try_assign_batch env now draw nid limit st = (b, st')" "x \<in> set b"
  shows "ts_network_mode (as_spec x) \<notin> {Some ''restricted'', Some ''unrestricted''}"
proof -
  have inv: "store_inv st" using assms(1) by (rule store_sys.reachable_inv)
  from inv assms(2) show ?thesis
  proof (cases rule: batch_normal_form)
    case (2 n cap el)
    then obtain t where t: "t \<in> set el" "x = drawn_assignment draw st t" using assms(3) by auto
    have "task_ineligibility env st (row_to_node_view n) t = []"
      using eligible_member(3) t(1) 2(5) by blast
    then show ?thesis
      using t(2) by (auto simp: task_ineligibility_def node_ineligibility_def Let_def row_to_node_view_def
          mode_rank_def split: if_splits)
  qed (use assms(3) in simp)
qed

theorem networked_task_never_assigned_witness:
  "ts_network_mode (as_spec demo_assignment) \<notin> {Some ''restricted'', Some ''unrestricted''}"
  using networked_task_never_assigned [OF demo_queued_reachable demo_batch, of demo_assignment] by simp

section \<open>The eligibility report\<close>

lemma row_to_node_view_simps [simp]:
  "n_id (row_to_node_view n) = n_id n" "n_status (row_to_node_view n) = n_status n"
  "row_to_node_view (row_to_node_view n) = row_to_node_view n"
  by (simp_all add: row_to_node_view_def)

lemma drained_ineligibility [simp]:
  "task_ineligibility env st (row_to_node_view (n\<lparr>n_drained := d\<rparr>)) t = task_ineligibility env st (row_to_node_view n) t"
proof -
  have "task_ineligibility env st (m\<lparr>n_drained := d\<rparr>) t = task_ineligibility env st m t" for m
    by (simp add: task_ineligibility_def node_ineligibility_def)
  moreover have "row_to_node_view (n\<lparr>n_drained := d\<rparr>) = (row_to_node_view n)\<lparr>n_drained := d\<rparr>"
    by (simp add: row_to_node_view_def)
  ultimately show ?thesis by simp
qed

lemma list_nodes_small: "length (nodes st) \<le> 100 \<Longrightarrow> set (list_nodes st) = row_to_node_view ` set (nodes st)"
  by (simp add: list_nodes_def)

text \<open>
  The eligibility report never promises too much. On a fleet of at most a hundred
  nodes, a node the report calls eligible for a queued task is one whose next poll sees the
  task among its candidates and finds no objection to it; only the node-wide admission
  gates stand between the report and an assignment.
\<close>

theorem eligibility_report_sound:
  assumes "store_reachable st" "length (nodes st) \<le> 100" "find_task st tid = Some t" "t_status t = TaskQueued"
    and "task_eligibility env st tid = Some r" "e \<in> set (te_nodes r)" "ne_eligible e"
  shows "\<exists>n. find_node st (ne_node_id e) = Some n \<and> t \<in> set (candidates st (ne_node_id e))
       \<and> task_ineligibility env st (row_to_node_view n) t = []"
proof -
  have inv: "store_inv st" using assms(1) by (rule store_sys.reachable_inv)
  define ab where "ab = (case t_avoid_node_id t of None \<Rightarrow> False
      | Some i \<Rightarrow> list_ex (\<lambda>n. n_id n \<noteq> i \<and> n_status n = NodeOnline) (list_nodes st))"
  obtain v where v: "v \<in> set (list_nodes st)" "e = node_report env st t ab v"
      "ts_requested_node_id (t_spec t) \<in> {None, Some (n_id v)}"
    using assms(3,5,6) by (auto simp: task_eligibility_def Let_def ab_def split: option.splits)
  then obtain n where n: "n \<in> set (nodes st)" "v = row_to_node_view n"
    using list_nodes_small [OF assms(2)] by auto
  have fn: "find_node st (n_id n) = Some n"
    using sql_first_row [of n_id "nodes st" n] n(1) inv by (simp add: find_node_def store_inv_def keys_ok_def)
  have ok: "task_ineligibility env st v t = []" "\<not> (ab \<and> t_avoid_node_id t = Some (n_id n))"
    using v(2) assms(7) n(2) by (auto simp: node_report_def Let_def split: if_splits)
  have "other_online st (n_id n) = 0" if "t_avoid_node_id t = Some (n_id n)"
    using ok(2) that list_nodes_small [OF assms(2)]
    by (auto simp: ab_def other_online_def sql_count_def list_ex_iff filter_empty_conv)
  moreover have "t \<in> set (tasks st)" using assms(3) by (auto simp: find_task_def dest: sql_first_SomeD)
  ultimately have "t \<in> set (candidates st (n_id n))"
    using assms(4) v(3) n(2) by (auto simp: candidates_def)
  then show ?thesis using fn ok(1) v(2) n(2) by (simp add: node_report_def Let_def)
qed

theorem eligibility_report_sound_witness:
  "\<exists>n. find_node demo_queued ''n1'' = Some n \<and> demo_task ''t1'' \<in> set (candidates demo_queued ''n1'')
     \<and> task_ineligibility demo_env demo_queued (row_to_node_view n) (demo_task ''t1'') = []"
proof -
  let ?e = "\<lparr>ne_node_id = ''n1'', ne_status = NodeOnline, ne_eligible = True, ne_reasons = []\<rparr>"
  have el: "task_ineligibility demo_env demo_queued (row_to_node_view (demo_node ''n1'' 0)) (demo_task ''t1'') = []"
    by (simp add: demo_eligible repo_reqs_def demo_queued_eq sql_first_def empty_store_def)
  have ft: "find_task demo_queued ''t1'' = Some (demo_task ''t1'')"
    by (simp add: find_task_def demo_queued_eq sql_first_def)
  have rq: "ts_requested_node_id (stored_spec demo_request) = None"
    by (simp add: stored_spec_def demo_request_def demo_spec_def)
  have ln: "list_nodes demo_queued = [row_to_node_view (demo_node ''n1'' 0)]"
    by (simp add: list_nodes_def demo_queued_eq)
  have nm: "n_id (demo_node ''n1'' 0) = ''n1''" "n_status (demo_node ''n1'' 0) = NodeOnline"
    by (simp_all add: demo_node_def)
  obtain r where r: "task_eligibility demo_env demo_queued ''t1'' = Some r" "te_nodes r = [?e]"
    using el ft ln nm rq by (simp add: task_eligibility_def node_report_def Let_def)
  have "length (nodes demo_queued) \<le> 100" by (simp add: demo_queued_eq)
  from eligibility_report_sound [OF demo_queued_reachable this ft _ r(1), of ?e] r(2)
  show ?thesis by simp
qed

definition drained_fleet :: store where
  "drained_fleet = empty_store
     \<lparr>tasks := [(demo_task ''t1'')\<lparr>t_avoid_node_id := Some ''n1''\<rparr>],
      nodes := [demo_node ''n1'' 0, (demo_node ''n2'' 0)\<lparr>n_drained := True\<rparr>]\<rparr>"

text \<open>
  The report and the scheduler disagree on drained nodes. In a fleet of two online
  nodes of which the second is drained, a task that was lost on the first is reported as
  blocked there and eligible on the second; the scheduler does the opposite: the first node's
  poll is given the task and the drained node's poll gets nothing.
\<close>

theorem eligibility_report_inverted:
  "map_option (\<lambda>r. map (\<lambda>e. (ne_node_id e, ne_eligible e)) (te_nodes r))
      (task_eligibility demo_env drained_fleet ''t1'') = Some [(''n1'', False), (''n2'', True)]
   \<and> map as_task_id (fst (try_assign_batch demo_env 10 demo_draw ''n1'' 1 drained_fleet)) = [''t1'']
   \<and> fst (try_assign_batch demo_env 10 demo_draw ''n2'' 1 drained_fleet) = []"
proof (intro conjI)
  let ?t = "(demo_task ''t1'')\<lparr>t_avoid_node_id := Some ''n1''\<rparr>"
  have el: "task_ineligibility demo_env drained_fleet (row_to_node_view (demo_node i 0)) ?t = []" for i
    using demo_eligible [of drained_fleet i "''t1''"]
    by (simp add: repo_reqs_def drained_fleet_def sql_first_def empty_store_def task_ineligibility_def)
  have el2: "task_ineligibility demo_env drained_fleet
      (row_to_node_view ((demo_node i 0)\<lparr>n_drained := True\<rparr>)) ?t = []" for i
    using el [of i] by (simp add: drained_ineligibility)
  have nm: "n_id (demo_node i 0) = i" "n_status (demo_node i 0) = NodeOnline" "n_created_at (demo_node i 0) = 0"
      "\<not> n_drained (demo_node i 0)" for i by (simp_all add: demo_node_def)
  have rq: "ts_requested_node_id (stored_spec demo_request) = None"
    by (simp add: stored_spec_def demo_request_def demo_spec_def)
  have ln: "list_nodes drained_fleet =
      [row_to_node_view (demo_node ''n1'' 0), row_to_node_view ((demo_node ''n2'' 0)\<lparr>n_drained := True\<rparr>)]"
    by (simp add: list_nodes_def drained_fleet_def nm)
  have ft: "find_task drained_fleet ''t1'' = Some ?t"
    by (simp add: find_task_def drained_fleet_def sql_first_def)
  show "map_option (\<lambda>r. map (\<lambda>e. (ne_node_id e, ne_eligible e)) (te_nodes r))
      (task_eligibility demo_env drained_fleet ''t1'') = Some [(''n1'', False), (''n2'', True)]"
    using el el2 ft ln nm rq by (simp add: task_eligibility_def node_report_def Let_def)
  have inv: "store_inv drained_fleet"
    by (auto simp: store_inv_def keys_ok_def core_inv_def core_of_def drained_fleet_def nm empty_store_def
        counts_ok_def active_on_def task_val_def idle_def demo_task_def queued_task_def demo_node_def)
  have fn: "find_node drained_fleet ''n1'' = Some (demo_node ''n1'' 0)"
    by (simp add: find_node_def drained_fleet_def sql_first_def nm)
  have "eligible_tasks demo_env drained_fleet (row_to_node_view (demo_node ''n1'' 0)) 1
      (candidates drained_fleet ''n1'') = [?t]"
    using el by (simp add: eligible_tasks_def candidates_def drained_fleet_def other_online_def sql_count_def nm rq)
  then show "map as_task_id (fst (try_assign_batch demo_env 10 demo_draw ''n1'' 1 drained_fleet)) = [''t1'']"
    using batch_admits [OF inv fn, of demo_env 1 1] demo_admission [of "''n1''"] demo_disk nm by simp
  show "fst (try_assign_batch demo_env 10 demo_draw ''n2'' 1 drained_fleet) = []"
    by (simp add: try_assign_batch_def Let_def find_node_def drained_fleet_def sql_first_def nm)
qed

end
