(* ===== verification/LeaseProps.thy ===== *)
theory LeaseProps
  imports SchedProps
begin

text \<open>
  Leases, fencing, cancellation, completion and node loss: what each transaction leaves
  behind, on the rows themselves. The sweeps (\<open>revert_expired_leases\<close>,
  \<open>lose_node_attempts\<close>) are loops of compare-and-set statements; a closed form of
  each loop says what happens to every row, and the properties are read off it.
\<close>

section \<open>The lease reaper\<close>

definition reverted :: "time \<Rightarrow> (id \<Rightarrow> string) \<Rightarrow> attempt_row \<Rightarrow> attempt_row" where
  "reverted now fence a = a\<lparr>a_status := AttemptCancelled, a_finished_at := Some now,
     a_fencing_token := fence (a_id a)\<rparr>"

lemma reverted_simps [simp]:
  "a_id (reverted now fence a) = a_id a" "a_status (reverted now fence a) = AttemptCancelled"
  "a_fencing_token (reverted now fence a) = fence (a_id a)"
  "a_task_id (reverted now fence a) = a_task_id a" "a_node_id (reverted now fence a) = a_node_id a"
  by (simp_all add: reverted_def)

lemma revert_one_attempts:
  "attempts (snd (revert_one now fence a acc)) =
   sql_update (\<lambda>r. a_id r = a_id a \<and> a_status r = AttemptAssigned) (reverted now fence) (attempts (snd acc))"
proof -
  have "sql_update (\<lambda>r. a_id r = a_id a \<and> a_status r = AttemptAssigned)
      (\<lambda>r. r\<lparr>a_status := AttemptCancelled, a_finished_at := Some now, a_fencing_token := fence (a_id a)\<rparr>) rows =
    sql_update (\<lambda>r. a_id r = a_id a \<and> a_status r = AttemptAssigned) (reverted now fence) rows" for rows
    by (induction rows) (auto simp: reverted_def)
  then show ?thesis by (cases acc) (simp add: revert_one_def Let_def)
qed

lemma revert_fold_attempts:
  "attempts (snd (fold (revert_one now fence) rows acc)) =
   sql_update (\<lambda>r. a_id r \<in> a_id ` set rows \<and> a_status r = AttemptAssigned) (reverted now fence)
     (attempts (snd acc))"
proof (induction rows arbitrary: acc)
  case Nil
  show ?case by (simp add: sql_update_def)
next
  case (Cons a rows)
  have "sql_update (\<lambda>r. a_id r \<in> A \<and> a_status r = AttemptAssigned) (reverted now fence)
      (sql_update (\<lambda>r. a_id r = i \<and> a_status r = AttemptAssigned) (reverted now fence) xs) =
    sql_update (\<lambda>r. a_id r \<in> insert i A \<and> a_status r = AttemptAssigned) (reverted now fence) xs" for A i xs
    by (induction xs) auto
  then show ?case using Cons.IH [of "revert_one now fence a acc"] by (simp add: revert_one_attempts)
qed

lemma reaped_attempt:
  assumes "store_inv st"
  shows "find_attempt (snd (revert_expired_leases now fence st)) aid =
    map_option (\<lambda>a. if expired now a then reverted now fence a else a) (find_attempt st aid)"
proof -
  have da: "distinct (map a_id (attempts st))" using assms by (simp add: store_inv_def keys_ok_def)
  have "a_id r \<in> a_id ` set (filter (expired now) (attempts st)) \<and> a_status r = AttemptAssigned \<longleftrightarrow> expired now r"
    if "r \<in> set (attempts st)" for r
    using that da by (auto simp: expired_def distinct_map inj_on_def image_iff)
  then have "attempts (snd (revert_expired_leases now fence st)) =
      sql_update (expired now) (reverted now fence) (attempts st)"
    by (simp add: revert_expired_leases_def revert_fold_attempts sql_update_def cong: map_cong)
  then show ?thesis by (simp add: find_attempt_def sql_first_update [where key = a_id])
qed

lemma revert_fold_other_tasks:
  "i \<notin> a_task_id ` set rows \<Longrightarrow>
   table_map t_id task_val (tasks (snd (fold (revert_one now fence) rows acc))) i =
   table_map t_id task_val (tasks (snd acc)) i"
proof (induction rows arbitrary: acc)
  case (Cons a rows)
  have "table_map t_id task_val (sql_update (\<lambda>t. t_id t = a_task_id a \<and> q t) f ts) i = table_map t_id task_val ts i"
    if "\<And>t. t_id (f t) = t_id t" for q f ts
    using Cons.prems that by (induction ts) auto
  then have "table_map t_id task_val (tasks (snd (revert_one now fence a acc))) i =
      table_map t_id task_val (tasks (snd acc)) i"
    by (cases acc) (simp add: revert_one_def Let_def)
  then show ?case using Cons by simp
qed simp

lemma revert_one_task:
  assumes inv: "store_inv st"
    and a: "table_map a_id attempt_val (attempts st) (a_id a) = Some (a_task_id a, a_node_id a, AttemptAssigned)"
  shows "table_map t_id task_val (tasks (snd (revert_one now fence a (n, st)))) (a_task_id a) = Some (TaskQueued, None)"
proof -
  have k: "table_map t_id task_val (tasks st) (a_task_id a) = Some (TaskAssigned, Some (a_id a))"
    using live_attempt [OF inv a] by (auto simp: attempt_active.simps)
  obtain r where "r \<in> set (attempts st)" "a_id r = a_id a" "a_status r = AttemptAssigned"
    using table_map_Some_row [OF a] by (auto simp: attempt_val_def)
  then have one: "sql_count (\<lambda>r. a_id r = a_id a \<and> a_status r = AttemptAssigned) (attempts st) = 1"
    using inv by (intro sql_count_key [where r = r]) (auto simp: store_inv_def keys_ok_def)
  show ?thesis
    using tasks_cas [where P = "\<lambda>s x. x = Some (a_id a) \<and> s = TaskAssigned", OF k] one
    by (simp add: revert_one_def Let_def)
qed

text \<open>Two live attempts never share a task.\<close>

lemma live_tasks_differ:
  assumes "store_inv st" "a_id a \<noteq> a_id b"
    and "table_map a_id attempt_val (attempts st) (a_id a) = Some (a_task_id a, a_node_id a, s)" "attempt_active s"
    and "table_map a_id attempt_val (attempts st) (a_id b) = Some (a_task_id b, a_node_id b, s')" "attempt_active s'"
  shows "a_task_id a \<noteq> a_task_id b"
proof -
  obtain k where "table_map t_id task_val (tasks st) (a_task_id a) = Some (task_of_attempt s, Some (a_id a))"
    using live_attempt [OF assms(1,3,4)] by blast
  moreover obtain k' where "table_map t_id task_val (tasks st) (a_task_id b) = Some (task_of_attempt s', Some (a_id b))"
    using live_attempt [OF assms(1,5,6)] by blast
  ultimately show ?thesis using assms(2) by fastforce
qed

lemma revert_fold_tasks:
  assumes "store_inv st" "distinct (map a_id rows)"
    and "\<And>a. a \<in> set rows \<Longrightarrow>
      table_map a_id attempt_val (attempts st) (a_id a) = Some (a_task_id a, a_node_id a, AttemptAssigned)"
    and "a \<in> set rows"
  shows "table_map t_id task_val (tasks (snd (fold (revert_one now fence) rows (n, st)))) (a_task_id a)
    = Some (TaskQueued, None)"
  using assms
proof (induction rows arbitrary: n st)
  case (Cons b rows)
  note p = Cons.prems
  obtain n' st' where r: "revert_one now fence b (n, st) = (n', st')" by fastforce
  have b: "table_map a_id attempt_val (attempts st) (a_id b) = Some (a_task_id b, a_node_id b, AttemptAssigned)"
    using p(3) by simp
  have act: "attempt_active AttemptAssigned" by (simp add: attempt_active.simps)
  have other: "a_id c \<noteq> a_id b" if "c \<in> set rows" for c using p(2) that by (auto simp: image_iff)
  have tdiff: "a_task_id b \<notin> a_task_id ` set rows"
    using live_tasks_differ [OF p(1) _ b act _ act] other p(3) by force
  show ?case
  proof (cases "a = b")
    case True
    then show ?thesis
      using revert_one_task [OF p(1) b, of now fence n] r revert_fold_other_tasks [OF tdiff, of now fence "(n', st')"]
      by simp
  next
    case False
    have "table_map t_id task_val (tasks (snd (fold (revert_one now fence) rows (n', st')))) (a_task_id a)
        = Some (TaskQueued, None)"
    proof (rule Cons.IH)
      show "store_inv st'"
        using refines_inv [OF p(1) revert_one_refines(1) [OF p(1) b, of now fence n]] r by simp
      show "distinct (map a_id rows)" "a \<in> set rows" using p(2,4) False by auto
      fix c assume c: "c \<in> set rows"
      show "table_map a_id attempt_val (attempts st') (a_id c) = Some (a_task_id c, a_node_id c, AttemptAssigned)"
        using p(3) [of c] c other [OF c] revert_one_refines(2) [OF p(1) b, of now fence n] r
          attempts_cas [where Q = "\<lambda>s. s = AttemptAssigned", OF b] by simp
    qed
    then show ?thesis using r by simp
  qed
qed simp

lemma reaped_task:
  assumes inv: "store_inv st" and a: "find_attempt st aid = Some a" "expired now a"
  shows "\<exists>t. find_task (snd (revert_expired_leases now fence st)) (a_task_id a) = Some t
    \<and> t_status t = TaskQueued \<and> t_assigned_attempt_id t = None"
proof -
  have da: "distinct (map a_id (attempts st))" using inv by (simp add: store_inv_def keys_ok_def)
  have "table_map t_id task_val (tasks (snd (revert_expired_leases now fence st))) (a_task_id a)
      = Some (TaskQueued, None)"
    unfolding revert_expired_leases_def
  proof (rule revert_fold_tasks [OF inv])
    show "distinct (map a_id (filter (expired now) (attempts st)))" using da by (rule distinct_map_filter)
    show "a \<in> set (filter (expired now) (attempts st))"
      using a by (auto simp: find_attempt_def dest: sql_first_SomeD)
    fix b assume "b \<in> set (filter (expired now) (attempts st))"
    then show "table_map a_id attempt_val (attempts st) (a_id b) = Some (a_task_id b, a_node_id b, AttemptAssigned)"
      using table_map_row [OF da, of b attempt_val] by (simp add: expired_def attempt_val_def)
  qed
  then show ?thesis by (simp add: sql_first_key find_task_def task_val_def)
qed

section \<open>Properties of leases\<close>

text \<open>The time at which the lease of the concrete run has lapsed.\<close>

definition demo_late :: time where
  "demo_late = 10 + secs 31"

lemma demo_assigned_attempt:
  "find_attempt demo_assigned ''a-t1'' = Some (new_attempt 10 ''a-t1'' ''t1'' 1 ''n1'' ''f-t1'')"
  by (simp add: find_attempt_def demo_assigned_eq sql_first_def new_attempt_def)

lemma demo_late_expired: "expired demo_late (new_attempt 10 ''a-t1'' ''t1'' 1 ''n1'' ''f-t1'')"
  by (simp add: expired_def new_attempt_def demo_late_def secs_def ACK_DEADLINE_SECS_def)

text \<open>
  C7: An expired lease is fenced off and its task goes back to the queue. After a reaper
  run an assigned attempt whose acknowledgement deadline has passed is cancelled, its old
  token is refused with a conflict, a late acknowledgement is refused, and its task is queued
  and owns no attempt; an attempt that was acknowledged, finished or still within its
  deadline keeps its row.
\<close>

theorem expired_lease_is_fenced:
  assumes "store_reachable st" "find_attempt st aid = Some a" "fence aid \<noteq> a_fencing_token a"
    and "fence aid \<noteq> []" "revert_expired_leases now fence st = (k, st')"
  shows "if expired now a
     then check_fencing_token st' aid (Some (a_fencing_token a)) = Inl CONFLICT
        \<and> fst (ack_attempt later aid st') = False
        \<and> (\<exists>t. find_task st' (a_task_id a) = Some t \<and> t_status t = TaskQueued \<and> t_assigned_attempt_id t = None)
     else find_attempt st' aid = Some a"
proof -
  have inv: "store_inv st" using assms(1) by (rule store_sys.reachable_inv)
  have st': "st' = snd (revert_expired_leases now fence st)" using assms(5) by simp
  have id: "a_id a = aid" using assms(2) by (auto simp: find_attempt_def dest: sql_first_SomeD)
  have fa: "find_attempt st' aid = Some (if expired now a then reverted now fence a else a)"
    using reaped_attempt [OF inv, of now fence aid] assms(2) st' by simp
  show ?thesis
    using fa reaped_task [OF inv assms(2), of now fence] st' assms(3,4) id
    by (auto simp: check_fencing_token_def ack_attempt_def)
qed

theorem expired_lease_is_fenced_witness:
  "check_fencing_token (snd (revert_expired_leases demo_late (\<lambda>i. ''g'' @ i) demo_assigned)) ''a-t1''
     (Some ''f-t1'') = Inl CONFLICT"
proof -
  obtain k st' where r: "revert_expired_leases demo_late (\<lambda>i. ''g'' @ i) demo_assigned = (k, st')" by fastforce
  have tok: "a_fencing_token (new_attempt 10 ''a-t1'' ''t1'' 1 ''n1'' ''f-t1'') = ''f-t1''"
    by (simp add: new_attempt_def)
  show ?thesis
    using expired_lease_is_fenced [OF demo_assigned_reachable demo_assigned_attempt _ _ r, of 0]
      demo_late_expired tok r by simp
qed

text \<open>
  A cancellation can be lost. When the operator cancels a task whose assignment has
  not been acknowledged, the call reports success but only flags the attempt; if the lease
  then expires, the reaper ignores the flag and the task is queued again, with no trace of
  the cancellation, ready to be assigned to the next node that polls.
\<close>

theorem cancellation_lost_on_lease_expiry:
  assumes "store_reachable st" "find_attempt st aid = Some a" "expired now a"
  shows "fst (cancel_task now0 (a_task_id a) st) = True
     \<and> (\<exists>t. find_task (snd (revert_expired_leases now fence (snd (cancel_task now0 (a_task_id a) st)))) (a_task_id a)
             = Some t \<and> t_status t = TaskQueued)"
proof -
  have inv: "store_inv st" using assms(1) by (rule store_sys.reachable_inv)
  let ?c = "snd (cancel_task now0 (a_task_id a) st)"
  have m: "table_map a_id attempt_val (attempts st) aid = Some (a_task_id a, a_node_id a, AttemptAssigned)"
    using find_attempt_core [OF assms(2)] assms(3) by (simp add: expired_def)
  have "table_map t_id task_val (tasks st) (a_task_id a) = Some (TaskAssigned, Some aid)"
    using live_attempt [OF inv m] by (auto simp: attempt_active.simps)
  then obtain t where t: "find_task st (a_task_id a) = Some t" "t_status t = TaskAssigned"
    by (auto simp: sql_first_key find_task_def task_val_def)
  have cr: "cancel_task now0 (a_task_id a) st = (True, request_cancel (a_task_id a) st)"
    using t by (simp add: cancel_task_def)
  have inv': "store_inv ?c" using refines_inv [OF inv cancel_task_refines [OF inv]] .
  have fc: "find_attempt ?c aid = map_option
      (\<lambda>r. if a_task_id r = a_task_id a \<and> attempt_active (a_status r) then r\<lparr>a_cancel_requested := True\<rparr> else r)
      (find_attempt st aid)"
    by (simp add: cr request_cancel_def find_attempt_def sql_first_update [where key = a_id])
  then obtain a' where a': "find_attempt ?c aid = Some a'" "a_task_id a' = a_task_id a" "expired now a'"
    using assms(2,3) by (auto simp: expired_def)
  show ?thesis using reaped_task [OF inv' a'(1,3), of fence] a'(2) cr by auto
qed

theorem cancellation_lost_on_lease_expiry_witness:
  "fst (cancel_task 15 ''t1'' demo_assigned) = True
   \<and> (\<exists>t. find_task (snd (revert_expired_leases demo_late (\<lambda>i. ''g'' @ i) (snd (cancel_task 15 ''t1'' demo_assigned))))
         ''t1'' = Some t \<and> t_status t = TaskQueued)"
  using cancellation_lost_on_lease_expiry [OF demo_assigned_reachable demo_assigned_attempt demo_late_expired, of 15]
  by (simp add: new_attempt_def)

end
