(* ===== verification/OutcomeProps.thy ===== *)
theory OutcomeProps
  imports LeaseProps
begin

text \<open>
  Outcomes: what a completion report, a late message of a node and the loss of a node do
  to the rows of a reachable store.
\<close>

section \<open>Messages of a node about an attempt\<close>

text \<open>The calls on the store behind the requests a node can make about one of its attempts: the
  messages of its lifecycle, the opening of an agent session and the upload of an artifact.\<close>

datatype node_msg =
  MsgAck time
| MsgEvents time "ingest_event list"
| MsgValidate time
| MsgComplete externals time id complete_request
| MsgReject time string
| MsgSession time string
| MsgUpload codec time string string "string option" "string option"

fun deliver :: "id \<Rightarrow> node_msg \<Rightarrow> store \<Rightarrow> store" where
  "deliver aid (MsgAck now) st = snd (ack_attempt now aid st)"
| "deliver aid (MsgEvents now evs) st = snd (ingest_events now aid evs st)"
| "deliver aid (MsgValidate now) st = snd (begin_validate now aid st)"
| "deliver aid (MsgComplete ex now apid req) st = snd (complete_attempt ex now apid aid req st)"
| "deliver aid (MsgReject now reason) st = snd (reject_assignment now aid reason st)"
| "deliver aid (MsgSession now adapter) st = create_agent_session now aid adapter st"
| "deliver aid (MsgUpload cd now name bytes mt sha) st = snd (save_artifact_bytes cd now aid name bytes mt sha st)"

text \<open>What such calls may leave of a finished attempt: audit rows, the session rows they opened, and
  artifacts of that attempt.\<close>

fun session_rows :: "id \<Rightarrow> node_msg \<Rightarrow> session_row list" where
  "session_rows aid (MsgSession now adapter) = [\<lparr>s_attempt_id = aid, s_adapter = adapter, s_started_at = now,
     s_ended_at = None, s_status = ''running'', s_error_code = None\<rparr>]"
| "session_rows aid _ = []"

fun is_upload :: "node_msg \<Rightarrow> bool" where
  "is_upload (MsgUpload _ _ _ _ _ _) = True"
| "is_upload _ = False"

definition other_artifacts :: "id \<Rightarrow> store \<Rightarrow> artifact_row list \<times> (id \<times> string \<rightharpoonup> string)" where
  "other_artifacts aid st = (filter (\<lambda>r. ar_attempt_id r \<noteq> aid) (artifacts st), \<lambda>(a, n). if a = aid then None else files st (a, n))"

definition left_behind :: "id \<Rightarrow> node_msg list \<Rightarrow> store \<Rightarrow> store \<Rightarrow> bool" where
  "left_behind aid ms st st' \<longleftrightarrow>
     (\<exists>xs. st'\<lparr>artifacts := artifacts st, files := files st\<rparr> =
        st\<lparr>audits := audits st @ xs, sessions := sessions st @ concat (map (session_rows aid) ms)\<rparr>) \<and>
     other_artifacts aid st' = other_artifacts aid st \<and>
     (\<not> list_ex is_upload ms \<longrightarrow> artifacts st' = artifacts st \<and> files st' = files st)"

lemma other_artifacts_save:
  "other_artifacts aid (snd (save_artifact_bytes cd now aid name bytes mt sha st)) = other_artifacts aid st"
proof -
  have up: "filter (\<lambda>r. ar_attempt_id r \<noteq> aid) (upsert_artifact row rows) = filter (\<lambda>r. ar_attempt_id r \<noteq> aid) rows"
    if "ar_attempt_id row = aid" for row rows
  proof -
    have "filter (\<lambda>r. ar_attempt_id r \<noteq> aid) (sql_update (\<lambda>r. ar_attempt_id r = ar_attempt_id row \<and> ar_name r = ar_name row) (\<lambda>_. row) rows) =
        filter (\<lambda>r. ar_attempt_id r \<noteq> aid) rows"
      using that by (induction rows) (auto simp: sql_update_def)
    then show ?thesis using that by (simp add: upsert_artifact_def Let_def)
  qed
  show ?thesis by (auto simp: other_artifacts_def save_artifact_bytes_def Let_def up fun_eq_iff split: sum.splits option.splits)
qed

lemma save_rest:
  "(snd (save_artifact_bytes cd now aid name bytes mt sha st))\<lparr>artifacts := artifacts st, files := files st\<rparr> = st"
  by (auto simp: save_artifact_bytes_def Let_def split: sum.splits option.splits)

lemma left_behind_audits: "is_upload m \<or> session_rows aid m = [] \<Longrightarrow> st' = st\<lparr>audits := audits st @ xs\<rparr> \<Longrightarrow>
    left_behind aid [m] st st'"
  by (cases m) (auto simp: left_behind_def other_artifacts_def)

lemma deliver_terminal:
  assumes "store_inv st" "find_attempt st aid = Some a" "attempt_terminal (a_status a)"
  shows "left_behind aid [m] st (deliver aid m st)"
proof -
  have nr: "a_status a \<noteq> AttemptAssigned" "a_status a \<noteq> AttemptRunning"
    using assms(3) by (auto simp: attempt_terminal.simps)
  have da: "distinct (map a_id (attempts st))" using assms(1) by (simp add: store_inv_def keys_ok_def)
  have none: "sql_count (\<lambda>r. a_id r = aid \<and> a_status r = AttemptRunning) (attempts st) = 0"
  proof -
    have "r = a" if "r \<in> set (attempts st)" "a_id r = aid" for r
      using sql_first_row [OF da that(1)] assms(2) that(2) by (simp add: find_attempt_def)
    then show ?thesis using nr by (auto simp: sql_count_def filter_empty_conv)
  qed
  show ?thesis
  proof (cases m)
    case (MsgSession now adapter)
    then show ?thesis by (auto simp: left_behind_def other_artifacts_def create_agent_session_def intro!: exI [of _ "[]"])
  next
    case (MsgUpload cd now name bytes mt sha)
    then show ?thesis
      by (auto simp: left_behind_def other_artifacts_save save_rest intro!: exI [of _ "[]"])
  next
    case (MsgComplete ex now apid req)
    have "\<exists>xs. deliver aid m st = st\<lparr>audits := audits st @ xs\<rparr>"
      using assms(2,3) nr MsgComplete by (auto simp: complete_attempt_def Let_def audit_def intro: exI [of _ "[]"])
    then show ?thesis using left_behind_audits [of m aid] MsgComplete by auto
  qed (use assms(2,3) nr none in \<open>auto intro!: left_behind_audits [where xs = "[]"]
      simp: ack_attempt_def ingest_events_def begin_validate_def reject_assignment_def Let_def\<close>)
qed

lemma left_behind_trans:
  assumes "left_behind aid ms st st1" "left_behind aid ns st1 st2"
  shows "left_behind aid (ms @ ns) st st2"
proof -
  obtain xs where xs: "st1\<lparr>artifacts := artifacts st, files := files st\<rparr> =
      st\<lparr>audits := audits st @ xs, sessions := sessions st @ concat (map (session_rows aid) ms)\<rparr>"
    using assms(1) by (auto simp: left_behind_def)
  obtain ys where ys: "st2\<lparr>artifacts := artifacts st1, files := files st1\<rparr> =
      st1\<lparr>audits := audits st1 @ ys, sessions := sessions st1 @ concat (map (session_rows aid) ns)\<rparr>"
    using assms(2) by (auto simp: left_behind_def)
  have "st2\<lparr>artifacts := artifacts st, files := files st\<rparr> =
      st\<lparr>audits := audits st @ xs @ ys, sessions := sessions st @ concat (map (session_rows aid) (ms @ ns))\<rparr>"
    using xs ys by (cases st; cases st1; cases st2) simp
  then show ?thesis using assms by (auto simp: left_behind_def)
qed

lemma left_behind_core:
  assumes "left_behind aid ms st st'"
  shows "same_core st st'" "attempts st' = attempts st"
proof -
  obtain xs where xs: "st'\<lparr>artifacts := artifacts st, files := files st\<rparr> =
      st\<lparr>audits := audits st @ xs, sessions := sessions st @ concat (map (session_rows aid) ms)\<rparr>"
    using assms by (auto simp: left_behind_def)
  have "tasks st' = tasks st" "nodes st' = nodes st" "attempts st' = attempts st" using xs by (cases st; cases st'; simp)+
  then show "same_core st st'" "attempts st' = attempts st" by (auto intro!: same_coreI)
qed

lemma find_by_core:
  "map_option (\<lambda>t. (t_status t, t_assigned_attempt_id t)) (find_task st i) = c_tasks (core_of st) i"
  "map_option (\<lambda>a. (a_task_id a, a_node_id a, a_status a)) (find_attempt st i) = c_attempts (core_of st) i"
  "map_option n_active_attempts (find_node st i) = c_active (core_of st) i"
  by (simp_all add: core_of_def find_task_def find_attempt_def find_node_def sql_first_key
      task_val_def [abs_def] attempt_val_def [abs_def])

text \<open>The core of the store alone: no operation of anybody moves a finished attempt.\<close>

lemma terminal_attempt_stays:
  assumes "store_step\<^sup>*\<^sup>* st st'" "store_inv st" "c_attempts (core_of st) aid = Some (t, n, s)" "attempt_terminal s"
  shows "store_inv st' \<and> c_attempts (core_of st') aid = Some (t, n, s)"
  using assms(1)
proof (induction rule: rtranclp_induct)
  case (step st1 st2)
  then have inv: "store_inv st1" and a: "c_attempts (core_of st1) aid = Some (t, n, s)" by simp_all
  have "core_step\<^sup>*\<^sup>* (core_of st1) (core_of st2)"
    using store_step_refines [OF step.hyps(2) inv] by (simp add: refines_def)
  then obtain es s' where "c_attempts (core_of st2) aid = Some (t, n, s')" "run_machine next_attempt_status s es = Inr s'"
    using core_steps_runs(1) [OF _ keys_okD(2) [OF inv] a] by blast
  then show ?case using attempt.terminal_run [OF assms(4)] store_sys.step_inv [OF inv step.hyps(2)] by auto
qed (use assms in auto)

text \<open>
  C6: A finished attempt stays as it is. First, whatever operations of the store follow, by
  anyone and in any order, an attempt that is succeeded, failed, cancelled or lost keeps its status,
  its task and its node. Second, the calls behind a node's requests about such an attempt, in any
  number and order (acknowledgements, events, validation, completion reports, rejections, sessions,
  uploads), change no task, attempt, node, approval, event, counter or repository: they leave
  behind audit rows, one session row for each session request, and files and artifact rows of that
  attempt, which only uploads change. What the completion service does after its call (scans of the
  patch, the consensus group and the workflow of the task) is not part of these calls.
\<close>

theorem terminal_attempt_is_frozen:
  assumes "store_reachable st" "find_attempt st aid = Some a" "attempt_terminal (a_status a)"
  shows "(store_step\<^sup>*\<^sup>* st st' \<longrightarrow>
      (\<exists>b. find_attempt st' aid = Some b \<and> a_status b = a_status a \<and> a_task_id b = a_task_id a \<and> a_node_id b = a_node_id a)) \<and>
    left_behind aid ms st (fold (deliver aid) ms st)"
proof
  have inv: "store_inv st" using assms(1) by (rule store_sys.reachable_inv)
  show "store_step\<^sup>*\<^sup>* st st' \<longrightarrow>
      (\<exists>b. find_attempt st' aid = Some b \<and> a_status b = a_status a \<and> a_task_id b = a_task_id a \<and> a_node_id b = a_node_id a)"
    using terminal_attempt_stays [OF _ inv _ assms(3), of st' aid "a_task_id a" "a_node_id a"]
      find_by_core(2) [of st aid, symmetric] find_by_core(2) [of st' aid, symmetric] assms(2) by auto
  have "store_inv s \<Longrightarrow> find_attempt s aid = Some a \<Longrightarrow> left_behind aid ms s (fold (deliver aid) ms s)" for s
  proof (induction ms arbitrary: s)
    case (Cons m ms)
    note l = deliver_terminal [OF Cons.prems assms(3), of m]
    have "left_behind aid ms (deliver aid m s) (fold (deliver aid) ms (deliver aid m s))"
      using Cons.IH same_inv [OF left_behind_core(1) [OF l] Cons.prems(1)] left_behind_core(2) [OF l] Cons.prems(2)
      by (simp add: find_attempt_def)
    then show ?case using left_behind_trans [OF l] by simp
  qed (auto simp: left_behind_def intro!: exI [of _ "[]"])
  then show "left_behind aid ms st (fold (deliver aid) ms st)" using inv assms(2) by blast
qed

definition demo_reaped :: store where
  "demo_reaped = snd (revert_expired_leases demo_late (\<lambda>i. ''g'' @ i) demo_assigned)"

theorem terminal_attempt_is_frozen_witness:
  "(\<exists>b. find_attempt (mark_offline_nodes 9 demo_reaped) ''a-t1'' = Some b \<and> a_status b = AttemptCancelled) \<and>
   left_behind ''a-t1'' [MsgAck 1, MsgReject 2 ''busy'', MsgSession 3 ''codex''] demo_reaped
     (fold (deliver ''a-t1'') [MsgAck 1, MsgReject 2 ''busy'', MsgSession 3 ''codex''] demo_reaped)"
proof -
  have reach: "store_reachable demo_reaped"
    unfolding demo_reaped_def by (rule reach_step [OF demo_assigned_reachable s_revert])
  have row: "find_attempt demo_reaped ''a-t1'' =
      Some (reverted demo_late (\<lambda>i. ''g'' @ i) (new_attempt 10 ''a-t1'' ''t1'' 1 ''n1'' ''f-t1''))"
    using reaped_attempt [OF store_sys.reachable_inv [OF demo_assigned_reachable], of demo_late _ "''a-t1''"]
      demo_assigned_attempt demo_late_expired by (simp add: demo_reaped_def)
  show ?thesis
    using terminal_attempt_is_frozen [OF reach row, of "mark_offline_nodes 9 demo_reaped"
        "[MsgAck 1, MsgReject 2 ''busy'', MsgSession 3 ''codex'']"] s_offline [of demo_reaped 9]
    by (auto simp: attempt_terminal.simps)
qed

section \<open>Completion\<close>

lemma approvals_frame:
  "approvals (stamp_eval_case ex now aid sha cmd st) = approvals st"
  "approvals (bake_resume_digest ex now tid prompt st) = approvals st"
  "approvals (audit now ty ac an su pl st) = approvals st"
proof -
  have sv: "approvals (snd (save_artifact_bytes cd now aid name b mt sha st)) = approvals st" for cd aid name b mt sha st
    by (simp add: save_artifact_bytes_def Let_def split: sum.split option.split)
  show "approvals (stamp_eval_case ex now aid sha cmd st) = approvals st"
    by (simp add: stamp_eval_case_def sv split: option.split)
  show "approvals (bake_resume_digest ex now tid prompt st) = approvals st"
    using sv [of "ex_codec ex"]
    by (auto simp: bake_resume_digest_def Let_def update_attempt_def split: option.split sum.split prod.split)
       (metis snd_conv)+
  show "approvals (audit now ty ac an su pl st) = approvals st" by (simp add: audit_def)
qed

lemma complete_commit_approvals:
  "approvals (complete_commit now apid a t req ats tt st) =
   approvals st @ (if tt = TaskSucceeded then [patch_review now apid (t_id t) (a_id a)] else [])"
proof -
  have "approvals (insert_verification_note now i msg s) = approvals s" for i msg s
    by (simp add: insert_verification_note_def append_event_def insert_event_def Let_def)
  moreover have "approvals (record_metrics now a req st) = approvals st" for st
    by (simp add: record_metrics_def Let_def split: option.split)
  ultimately show ?thesis
    by (simp add: complete_commit_def Let_def finish_agent_session_def update_attempt_def dec_active_def)
qed

lemma running_targets:
  assumes "a_status a \<in> {AttemptRunning, AttemptValidating}" "t_status t = task_of_attempt (a_status a)"
  shows "completion_targets a t success = Inr
    (if a_cancel_requested a then (AttemptCancelled, TaskCancelled)
     else if success then (AttemptSucceeded, TaskSucceeded) else (AttemptFailed, TaskFailed))"
  using assms by (cases "a_status a") (auto simp: completion_targets_def)

lemma complete_attempt_core:
  assumes "find_attempt st aid = Some a" "\<not> attempt_terminal (a_status a)" "find_task st (a_task_id a) = Some t"
    and "completion_targets a t (req_success req) = Inr (ats, tt)"
  shows "fst (complete_attempt ex now apid aid req st) = Inr True
     \<and> same_core (complete_commit now apid a t req ats tt st) (snd (complete_attempt ex now apid aid req st))
     \<and> approvals (snd (complete_attempt ex now apid aid req st)) = approvals (complete_commit now apid a t req ats tt st)"
  using assms
  by (auto simp: complete_attempt_def Let_def approvals_frame
      intro: same_core_trans [OF same_core_stamp same_core_trans [OF same_core_bake same_core_audit]] same_core_stamp)

text \<open>
  C4: What a completion report does. For an attempt that is running or validating the
  report is always accepted. The attempt ends cancelled if cancellation was requested, else
  succeeded exactly when the exit code is zero and no error code came with it, else failed;
  the task follows, except that a failure within the attempt budget puts it back in the
  queue; it owns no attempt any more, the node has one slot more, and a patch review is
  opened exactly for a success.
\<close>

theorem completion_outcome:
  assumes "store_reachable st" "find_attempt st aid = Some a" "find_task st (a_task_id a) = Some t"
    and "find_node st (a_node_id a) = Some n" "a_status a \<in> {AttemptRunning, AttemptValidating}"
    and "complete_attempt ex now apid aid req st = (r, st')"
  shows "r = Inr True
     \<and> map_option a_status (find_attempt st' aid) = Some
         (if a_cancel_requested a then AttemptCancelled
          else if req_success req then AttemptSucceeded else AttemptFailed)
     \<and> map_option (\<lambda>t. (t_status t, t_assigned_attempt_id t)) (find_task st' (a_task_id a)) = Some
         (if a_cancel_requested a then TaskCancelled
          else if req_success req then TaskSucceeded
          else if 1 < ts_max_attempts (t_spec t) \<and> attempts_of_task st (a_task_id a) < ts_max_attempts (t_spec t)
               then TaskQueued else TaskFailed, None)
     \<and> map_option n_active_attempts (find_node st' (a_node_id a)) = Some (n_active_attempts n - 1)
     \<and> approvals st' = approvals st @
         (if \<not> a_cancel_requested a \<and> req_success req then [patch_review now apid (a_task_id a) aid] else [])"
proof -
  have inv: "store_inv st" using assms(1) by (rule store_sys.reachable_inv)
  note fa = find_attempt_core [OF assms(2)] and ft = find_task_core [OF assms(3)] and fn = find_node_core [OF assms(4)]
  have act: "attempt_active (a_status a)" "\<not> attempt_terminal (a_status a)"
    using assms(5) by (auto simp: attempt_active.simps attempt_terminal.simps)
  have ptr: "table_map t_id task_val (tasks st) (a_task_id a) = Some (task_of_attempt (a_status a), Some aid)"
    using live_attempt [OF inv conjunct2 [OF fa] act(1)] by blast
  then have ts: "t_status t = task_of_attempt (a_status a)" using ft by simp
  define ats where "ats = (if a_cancel_requested a then AttemptCancelled
      else if req_success req then AttemptSucceeded else AttemptFailed)"
  define tt where "tt = (if a_cancel_requested a then TaskCancelled
      else if req_success req then TaskSucceeded else TaskFailed)"
  have tg: "completion_targets a t (req_success req) = Inr (ats, tt)"
    using running_targets [OF assms(5) ts] by (simp add: ats_def tt_def)
  let ?c = "complete_commit now apid a t req ats tt st"
  have core: "r = Inr True" "core_of st' = core_of ?c" "approvals st' = approvals ?c"
    using complete_attempt_core [OF assms(2) act(2) assms(3) tg, of ex now apid] assms(6)
    by (auto simp: same_core_def)
  have "c_attempts (core_of ?c) aid = Some (a_task_id a, a_node_id a, ats)"
    using attempts_by_id [OF conjunct2 [OF fa]] fa by (simp add: complete_commit_frame core_of_def)
  then have at: "map_option a_status (find_attempt st' aid) = Some ats"
    using find_by_core(2) [of st' aid] core(2) by (cases "find_attempt st' aid") auto
  have "c_tasks (core_of ?c) (a_task_id a) = Some (if auto_retry tt t st then TaskQueued else tt, None)"
    using tasks_by_id [OF ptr] ft by (simp add: complete_commit_frame core_of_def)
  then have tk: "map_option (\<lambda>t. (t_status t, t_assigned_attempt_id t)) (find_task st' (a_task_id a)) =
      Some (if auto_retry tt t st then TaskQueued else tt, None)"
    using find_by_core(1) [of st' "a_task_id a"] core(2) by simp
  have "c_active (core_of ?c) (a_node_id a) = Some (n_active_attempts n - 1)"
    using nodes_dec [OF conjunct2 [OF fn], of 1] by (simp add: complete_commit_frame core_of_def)
  then have nd: "map_option n_active_attempts (find_node st' (a_node_id a)) = Some (n_active_attempts n - 1)"
    using find_by_core(3) [of st' "a_node_id a"] core(2) by simp
  show ?thesis
    using core(1,3) at tk nd fa ft unfolding tt_def ats_def auto_retry_def complete_commit_approvals
    by (cases "a_cancel_requested a"; cases "req_success req"; cases "1 < ts_max_attempts (t_spec t)";
        cases "attempts_of_task st (a_task_id a) < ts_max_attempts (t_spec t)") simp_all
qed

definition demo_report :: complete_request where
  "demo_report = \<lparr>cr_exit_code = 1, cr_commit_sha = None, cr_resolved_base_sha = None,
     cr_remote_head_at_start = None, cr_remote_head_at_finish = None, cr_error_code = None,
     cr_acp_session_id = None, cr_plan = None, cr_provenance = None, cr_pending_artifacts = [],
     cr_validation_rounds = 0\<rparr>"

definition demo_externals :: externals where
  "demo_externals = \<lparr>ex_codec = sample_codec, ex_fts = (\<lambda>_ _ _. [])\<rparr>"

definition demo_finished :: store where
  "demo_finished = snd (complete_attempt demo_externals 30 ''r1'' ''a-t1'' demo_report demo_running)"

lemma demo_running_rows:
  "\<exists>a t n. find_attempt demo_running ''a-t1'' = Some a \<and> find_task demo_running (a_task_id a) = Some t
     \<and> find_node demo_running (a_node_id a) = Some n \<and> a_status a = AttemptRunning \<and> a_task_id a = ''t1''
     \<and> \<not> a_cancel_requested a \<and> ts_max_attempts (t_spec t) = 2 \<and> n_active_attempts n = 1
     \<and> attempts_of_task demo_running ''t1'' = 1"
  by (simp add: find_attempt_def find_task_def find_node_def demo_running_eq sql_first_def new_attempt_def
      demo_node_def stored_spec_def demo_request_def demo_spec_def attempts_of_task_def sql_count_def)

text \<open>One failed attempt out of a budget of two: the task is queued again.\<close>

theorem completion_outcome_witness:
  "map_option (\<lambda>t. (t_status t, t_assigned_attempt_id t)) (find_task demo_finished ''t1'') = Some (TaskQueued, None)
   \<and> map_option a_status (find_attempt demo_finished ''a-t1'') = Some AttemptFailed
   \<and> approvals demo_finished = approvals demo_running"
proof -
  obtain a t n where rows: "find_attempt demo_running ''a-t1'' = Some a" "find_task demo_running (a_task_id a) = Some t"
      "find_node demo_running (a_node_id a) = Some n" "a_status a \<in> {AttemptRunning, AttemptValidating}"
      "a_task_id a = ''t1''" "\<not> a_cancel_requested a" "ts_max_attempts (t_spec t) = 2"
      "attempts_of_task demo_running ''t1'' = 1"
    using demo_running_rows by auto
  obtain r where r: "complete_attempt demo_externals 30 ''r1'' ''a-t1'' demo_report demo_running = (r, demo_finished)"
    unfolding demo_finished_def by (metis prod.collapse)
  have "\<not> req_success demo_report" by (simp add: req_success_def demo_report_def)
  then show ?thesis
    using completion_outcome [OF demo_running_reachable rows(1-4) r] rows(5-8) by simp
qed

text \<open>
  A completion report for an attempt that was never acknowledged is refused, also
  when its cancellation has been requested. The transition to succeeded or failed is computed
  before the cancellation is looked at, and an assigned attempt has neither, so the whole
  transaction is rolled back with an invalid transition and the attempt stays assigned.
\<close>

theorem unacknowledged_completion_refused:
  assumes "store_reachable st" "find_attempt st aid = Some a" "a_status a = AttemptAssigned"
  shows "\<exists>e. complete_attempt ex now apid aid req st = (Inl (TransitionError e), st)
     \<and> it_transition e \<in> {''succeed'', ''fail''}"
proof -
  have inv: "store_inv st" using assms(1) by (rule store_sys.reachable_inv)
  note fa = find_attempt_core [OF assms(2)]
  have act: "attempt_active (a_status a)" using assms(3) by (simp add: attempt_active.simps)
  obtain t where "find_task st (a_task_id a) = Some t"
    using live_attempt [OF inv conjunct2 [OF fa] act] by (auto simp: sql_first_key find_task_def)
  then show ?thesis using assms(2,3)
    by (simp add: complete_attempt_def completion_targets_def attempt_terminal.simps)
qed

theorem unacknowledged_completion_refused_witness:
  "\<exists>e. complete_attempt demo_externals 30 ''r1'' ''a-t1'' demo_report demo_assigned =
      (Inl (TransitionError e), demo_assigned) \<and> it_transition e \<in> {''succeed'', ''fail''}"
  by (rule unacknowledged_completion_refused [OF demo_assigned_reachable demo_assigned_attempt])
     (simp add: new_attempt_def)

section \<open>Losing a node\<close>

text \<open>What the loss of its node does to a task, given the number of attempts it has
  had: back to the queue, away from the node, while the policy and the budget allow.\<close>

definition loss_outcome :: "time \<Rightarrow> id \<Rightarrow> nat \<Rightarrow> task_row \<Rightarrow> task_row" where
  "loss_outcome now nid k t =
     (if ts_retry_on_node_loss (t_spec t) \<and> k < ts_max_attempts (t_spec t)
      then t\<lparr>t_status := TaskQueued, t_finished_at := None, t_error_code := None,
             t_assigned_attempt_id := None, t_avoid_node_id := Some nid\<rparr>
      else t\<lparr>t_status := TaskFailed, t_error_code := Some ''node_lost'', t_finished_at := Some now,
             t_assigned_attempt_id := None\<rparr>)"

lemma sql_count_update:
  "(\<And>r. p (f r) \<longleftrightarrow> p r) \<Longrightarrow> sql_count p (sql_update q f rows) = sql_count p rows"
  by (induction rows) auto

lemma lose_one_find_task:
  assumes "distinct (map t_id (tasks st))" "find_task st (a_task_id a) = Some t" "\<not> task_terminal (t_status t)"
  shows "find_task (lose_one nid now (a, t) st) i =
    (if i = a_task_id a then Some (loss_outcome now nid (attempts_of_task st i) t) else find_task st i)"
proof -
  have t: "t \<in> set (tasks st)" "t_id t = a_task_id a"
    using assms(2) by (auto simp: find_task_def dest: sql_first_SomeD)
  have one: "sql_count (\<lambda>r. t_id r = a_task_id a \<and> \<not> task_terminal (t_status r)) (tasks st) = 1"
    using assms(1,3) t by (intro sql_count_key [where r = t]) auto
  define st1 where "st1 = update_attempt (a_id a) (\<lambda>r. r\<lparr>a_status := AttemptLost, a_finished_at := Some now\<rparr>) st"
  have st1: "tasks st1 = tasks st" "attempts_of_task st1 j = attempts_of_task st j" for j
    by (simp_all add: st1_def attempts_of_task_def update_attempt_def sql_count_update)
  have upd: "sql_first (\<lambda>r. t_id r = j)
      (sql_update (\<lambda>r. t_id r = a_task_id a \<and> \<not> task_terminal (t_status r)) f (tasks st)) =
      (if j = a_task_id a then Some (f t) else find_task st j)" if "\<And>r. t_id (f r) = t_id r" for f j
  proof (cases "j = a_task_id a")
    case True
    then show ?thesis using assms(2,3) t(2) that
      by (simp add: sql_first_update [where key = t_id] find_task_def)
  next
    case False
    have "map_option (\<lambda>r. if t_id r = a_task_id a \<and> \<not> task_terminal (t_status r) then f r else r)
        (sql_first (\<lambda>r. t_id r = j) (tasks st)) = sql_first (\<lambda>r. t_id r = j) (tasks st)"
      using False sql_first_SomeD [of "\<lambda>r. t_id r = j" "tasks st"]
      by (cases "sql_first (\<lambda>r. t_id r = j) (tasks st)") auto
    then show ?thesis using False that by (simp add: sql_first_update [where key = t_id] find_task_def)
  qed
  show ?thesis
    using one st1
    by (simp add: lose_one_def Let_def st1_def [symmetric] requeue_lost_attempt_def from_columns_def
        audit_def loss_outcome_def find_task_def upd)
qed

lemma lose_one_attempts_of_task [simp]: "attempts_of_task (lose_one nid now (a, t) st) i = attempts_of_task st i"
  by (simp add: attempts_of_task_def sql_count_update)

lemma lose_fold_find:
  assumes "store_inv (dec_active nid m st)" "distinct (map (\<lambda>r. a_id (fst r)) rows)"
    and "\<And>a t. (a, t) \<in> set rows \<Longrightarrow> find_task st (a_task_id a) = Some t
      \<and> table_map a_id attempt_val (attempts st) (a_id a) = Some (a_task_id a, nid, a_status a)
      \<and> attempt_active (a_status a)"
  shows "(\<forall>(a, t) \<in> set rows. find_task (fold (lose_one nid now) rows st) (a_task_id a) =
            Some (loss_outcome now nid (attempts_of_task st (a_task_id a)) t))
       \<and> (\<forall>i. i \<notin> a_task_id ` fst ` set rows \<longrightarrow> find_task (fold (lose_one nid now) rows st) i = find_task st i)"
  using assms
proof (induction rows arbitrary: st m)
  case (Cons r rows)
  note p = Cons.prems
  obtain a t where r: "r = (a, t)" by (cases r)
  let ?st1 = "lose_one nid now (a, t) st"
  have a: "find_task st (a_task_id a) = Some t" 
    "table_map a_id attempt_val (attempts st) (a_id a) = Some (a_task_id a, nid, a_status a)"
    "attempt_active (a_status a)" using p(3) r by auto
  have dt: "distinct (map t_id (tasks st))" using p(1) by (simp add: store_inv_def keys_ok_def)
  have ptr: "table_map t_id task_val (tasks st) (a_task_id b) = Some (task_of_attempt (a_status b), Some (a_id b))"
    if "table_map a_id attempt_val (attempts st) (a_id b) = Some (a_task_id b, nid, a_status b)"
      "attempt_active (a_status b)" for b
    using live_attempt [OF p(1), of "a_id b" "a_task_id b" nid "a_status b"] that by auto
  have live: "\<not> task_terminal (t_status t)"
    using ptr [OF a(2,3)] find_task_core [OF a(1)] active_not_terminal [OF a(3)] by simp
  note f1 = lose_one_find_task [OF dt a(1) live, of nid now]
  have other: "a_id b \<noteq> a_id a \<and> a_task_id b \<noteq> a_task_id a" if "(b, u) \<in> set rows" for b u
  proof
    show ne: "a_id b \<noteq> a_id a" using p(2) r that by force
    have b: "table_map a_id attempt_val (attempts st) (a_id b) = Some (a_task_id b, nid, a_status b)"
      "attempt_active (a_status b)" using p(3) [of b u] that by auto
    show "a_task_id b \<noteq> a_task_id a"
      using ptr [OF a(2,3)] ptr [OF b] ne by auto
  qed
  have IH: "(\<forall>(a, t) \<in> set rows. find_task (fold (lose_one nid now) rows ?st1) (a_task_id a) =
            Some (loss_outcome now nid (attempts_of_task ?st1 (a_task_id a)) t))
       \<and> (\<forall>i. i \<notin> a_task_id ` fst ` set rows \<longrightarrow> find_task (fold (lose_one nid now) rows ?st1) i = find_task ?st1 i)"
  proof (rule Cons.IH)
    show "store_inv (dec_active nid (Suc m) ?st1)"
      using refines_inv [OF p(1) lose_one_refines [OF p(1) a(2,3)]] .
    show "distinct (map (\<lambda>r. a_id (fst r)) rows)" using p(2) by simp
    fix b u assume b: "(b, u) \<in> set rows"
    show "find_task ?st1 (a_task_id b) = Some u
        \<and> table_map a_id attempt_val (attempts ?st1) (a_id b) = Some (a_task_id b, nid, a_status b)
        \<and> attempt_active (a_status b)"
      using p(3) [of b u] b other [OF b] f1 attempts_by_id [OF a(2)] by simp
  qed
  have tn: "a_task_id a \<notin> a_task_id ` fst ` set rows" using other by force
  show ?case using IH f1 tn r other by auto
qed simp

lemma lose_fold_attempts:
  "attempts (fold (lose_one nid now) rows st) = sql_update (\<lambda>r. a_id r \<in> a_id ` fst ` set rows)
     (\<lambda>r. r\<lparr>a_status := AttemptLost, a_finished_at := Some now\<rparr>) (attempts st)"
proof (induction rows arbitrary: st)
  case Nil
  show ?case by (simp add: sql_update_def)
next
  case (Cons x rows)
  let ?f = "\<lambda>r. r\<lparr>a_status := AttemptLost, a_finished_at := Some now\<rparr>"
  have "sql_update (\<lambda>r. a_id r \<in> A) ?f (sql_update (\<lambda>r. a_id r = i) ?f xs) =
      sql_update (\<lambda>r. a_id r \<in> insert i A) ?f xs" for A i xs
    by (induction xs) auto
  then show ?case using Cons.IH [of "lose_one nid now x st"] by (cases x) simp
qed

lemma in_flight_iff:
  assumes "store_inv st"
  shows "(a, t) \<in> set (in_flight st nid) \<longleftrightarrow> a \<in> set (attempts st) \<and> a_node_id a = nid
    \<and> attempt_active (a_status a) \<and> find_task st (a_task_id a) = Some t"
proof -
  have "t \<in> set (tasks st) \<and> t_id t = a_task_id a \<longleftrightarrow> find_task st (a_task_id a) = Some t"
    using find_task_row [OF assms, of t] by (auto simp: find_task_def dest: sql_first_SomeD)
  then show ?thesis by (auto simp: in_flight_def)
qed

text \<open>
  C5: What the loss of a node does. Every attempt that was live on the node is lost and
  its task either returns to the queue, marked to avoid that node, or fails with
  \<open>node_lost\<close>: it returns exactly when its policy allows it and it has had fewer
  attempts than its budget. Attempts elsewhere, finished attempts and the tasks of no live
  attempt of this node are untouched.
\<close>

theorem node_loss_outcome:
  assumes "store_reachable st" "find_task st i = Some t"
  shows "find_task (lose_node_attempts now nid st) i = Some
       (if \<exists>a \<in> set (attempts st). a_task_id a = i \<and> a_node_id a = nid \<and> attempt_active (a_status a)
        then loss_outcome now nid (attempts_of_task st i) t else t)
     \<and> attempts (lose_node_attempts now nid st) =
       map (\<lambda>a. if a_node_id a = nid \<and> attempt_active (a_status a)
                then a\<lparr>a_status := AttemptLost, a_finished_at := Some now\<rparr> else a) (attempts st)"
proof -
  have inv: "store_inv st" using assms(1) by (rule store_sys.reachable_inv)
  then have inv0: "store_inv (dec_active nid 0 st)" by (simp add: dec_active_zero)
  have da: "distinct (map a_id (attempts st))" using inv by (simp add: store_inv_def keys_ok_def)
  let ?rows = "in_flight st nid"
  let ?fold = "fold (lose_one nid now) ?rows st"
  have lna: "tasks (lose_node_attempts now nid st) = tasks ?fold" "attempts (lose_node_attempts now nid st) = attempts ?fold"
    by (simp_all add: lose_node_attempts_def Let_def)
  have "find_task st (a_task_id a) = Some u
      \<and> table_map a_id attempt_val (attempts st) (a_id a) = Some (a_task_id a, nid, a_status a)
      \<and> attempt_active (a_status a)" if "(a, u) \<in> set ?rows" for a u
    using in_flight_props(2) [OF inv that] in_flight_iff [OF inv] that by blast
  note ff = lose_fold_find [OF inv0 in_flight_props(1) [OF inv] this, where now = now]
  have hit: "i \<in> a_task_id ` fst ` set ?rows \<longleftrightarrow>
      (\<exists>a \<in> set (attempts st). a_task_id a = i \<and> a_node_id a = nid \<and> attempt_active (a_status a))"
  proof -
    have "i \<in> a_task_id ` fst ` set ?rows \<longleftrightarrow> (\<exists>a u. (a, u) \<in> set ?rows \<and> a_task_id a = i)" by force
    then show ?thesis using assms(2) by (auto simp: in_flight_iff [OF inv])
  qed
  have "find_task ?fold i = Some (if i \<in> a_task_id ` fst ` set ?rows
      then loss_outcome now nid (attempts_of_task st i) t else t)"
  proof (cases "i \<in> a_task_id ` fst ` set ?rows")
    case True
    then obtain a u where au: "(a, u) \<in> set ?rows" "a_task_id a = i" by auto
    have "u = t" using in_flight_iff [OF inv, of a u nid] au assms(2) by simp
    moreover have "find_task ?fold (a_task_id a) = Some (loss_outcome now nid (attempts_of_task st (a_task_id a)) u)"
      using bspec [OF conjunct1 [OF ff] au(1)] by simp
    ultimately show ?thesis using au(2) True by simp
  qed (use ff assms(2) in auto)
  then have one: "find_task (lose_node_attempts now nid st) i = Some
       (if \<exists>a \<in> set (attempts st). a_task_id a = i \<and> a_node_id a = nid \<and> attempt_active (a_status a)
        then loss_outcome now nid (attempts_of_task st i) t else t)"
    using hit lna(1) by (simp add: find_task_def)
  have "a_id r \<in> a_id ` fst ` set ?rows \<longleftrightarrow> a_node_id r = nid \<and> attempt_active (a_status r)"
    if r: "r \<in> set (attempts st)" for r
  proof
    assume "a_id r \<in> a_id ` fst ` set ?rows"
    then obtain a u where au: "(a, u) \<in> set ?rows" "a_id a = a_id r" by auto
    then have "a \<in> set (attempts st)" "a_node_id a = nid" "attempt_active (a_status a)"
      using in_flight_iff [OF inv, of a u nid] by auto
    moreover have "a = r" using da au(2) r calculation(1) by (auto simp: distinct_map inj_on_def)
    ultimately show "a_node_id r = nid \<and> attempt_active (a_status r)" by simp
  next
    assume act: "a_node_id r = nid \<and> attempt_active (a_status r)"
    have "table_map a_id attempt_val (attempts st) (a_id r) = Some (a_task_id r, a_node_id r, a_status r)"
      using table_map_row [OF da r, of attempt_val] by (simp add: attempt_val_def)
    then obtain u where "find_task st (a_task_id r) = Some u"
      using live_attempt [OF inv] act by (fastforce simp: sql_first_key find_task_def)
    then show "a_id r \<in> a_id ` fst ` set ?rows" using in_flight_iff [OF inv, of r u nid] r act by force
  qed
  then show ?thesis
    using one lna(2) by (simp add: lose_fold_attempts sql_update_def cong: map_cong)
qed

text \<open>The running attempt of the concrete run, whose task has one attempt left.\<close>

theorem node_loss_outcome_witness:
  "map_option (\<lambda>t. (t_status t, t_avoid_node_id t)) (find_task (lose_node_attempts 50 ''n1'' demo_running) ''t1'')
     = Some (TaskQueued, Some ''n1'')
   \<and> map a_status (attempts (lose_node_attempts 50 ''n1'' demo_running)) = [AttemptLost]"
proof -
  obtain a t where rows: "find_attempt demo_running ''a-t1'' = Some a" "find_task demo_running ''t1'' = Some t"
      "ts_max_attempts (t_spec t) = 2" "attempts_of_task demo_running ''t1'' = 1"
    using demo_running_rows by metis
  have "ts_retry_on_node_loss (t_spec t)"
    using rows(2) by (auto simp: find_task_def demo_running_eq sql_first_def stored_spec_def demo_request_def)
  then show ?thesis
    using node_loss_outcome [OF demo_running_reachable rows(2), of 50 "''n1''"] rows(3,4)
    by (simp add: loss_outcome_def demo_running_eq new_attempt_def attempt_active.simps)
qed

end
