(* ===== verification/LogProps.thy ===== *)
theory LogProps
  imports OutcomeProps
begin

text \<open>
  The event log, the enrolment tokens and node credentials. Most operations leave these
  tables alone; one frame lemma per operation says so, and the properties are invariants of
  \<open>store_step\<close> proved over those frames.
\<close>

section \<open>Frames\<close>

definition log_view :: "store \<Rightarrow> event_row list \<times> int" where
  "log_view st = (task_events st, ingest_next st)"

definition auth_view :: "store \<Rightarrow> enrollment_token list \<times> (id \<times> node_status \<times> string option) list" where
  "auth_view st = (enrollment_tokens st, map (\<lambda>n. (n_id n, n_status n, n_credential_hash n)) (nodes st))"

definition frame_view :: "store \<Rightarrow> (event_row list \<times> int) \<times> (enrollment_token list \<times> (id \<times> node_status \<times> string option) list)" where
  "frame_view st = (log_view st, auth_view st)"

lemmas frame_defs = frame_view_def log_view_def auth_view_def

lemma frame_view_updates [simp]:
  "frame_view (st\<lparr>tasks := ts\<rparr>) = frame_view st"
  "frame_view (st\<lparr>attempts := as\<rparr>) = frame_view st"
  "frame_view (st\<lparr>sessions := ss\<rparr>) = frame_view st"
  "frame_view (st\<lparr>approvals := ap\<rparr>) = frame_view st"
  "frame_view (st\<lparr>audits := au\<rparr>) = frame_view st"
  "frame_view (st\<lparr>artifacts := ar\<rparr>) = frame_view st"
  "frame_view (st\<lparr>files := fs\<rparr>) = frame_view st"
  "frame_view (st\<lparr>capacity_pressure := cp\<rparr>) = frame_view st"
  "frame_view (st\<lparr>active_attempt_drift := w\<rparr>) = frame_view st"
  by (simp_all add: frame_defs)

lemma frame_nodes:
  "(\<And>n. n_id (f n) = n_id n \<and> n_status (f n) = n_status n \<and> n_credential_hash (f n) = n_credential_hash n) \<Longrightarrow>
   frame_view (st\<lparr>nodes := sql_update p f (nodes st)\<rparr>) = frame_view st"
  by (simp add: frame_defs map_sql_update)

lemma frame_helpers [simp]:
  "frame_view (audit now ty ac an su pl st) = frame_view st"
  "frame_view (update_attempt i f st) = frame_view st"
  "frame_view (dec_active nid m st) = frame_view st"
  "frame_view (inc_active nid m st) = frame_view st"
  "frame_view (finish_agent_session now aid s ec st) = frame_view st"
  "frame_view (record_metrics now a req st) = frame_view st"
  "frame_view (snd (save_artifact_bytes cd now aid name b mt sha st)) = frame_view st"
  by (simp_all add: audit_def update_attempt_def dec_active_def inc_active_def frame_nodes
      finish_agent_session_def record_metrics_def save_artifact_bytes_def Let_def frame_defs map_sql_update
      split: option.split sum.split)

lemma frame_stamp [simp]: "frame_view (stamp_eval_case ex now aid sha cmd st) = frame_view st"
  by (simp add: stamp_eval_case_def split: option.split)

lemma frame_bake [simp]: "frame_view (bake_resume_digest ex now tid prompt st) = frame_view st"
proof -
  have "frame_view st1 = frame_view st"
    if "save_artifact_bytes cd now aid name b mt sha st = (r, st1)" for cd aid name b mt sha r st1
    using frame_helpers(7) [of cd now aid name b mt sha st] that by simp
  then show ?thesis
    by (auto simp: bake_resume_digest_def Let_def split: option.split sum.split prod.split)
qed

lemma frame_requeue [simp]: "frame_view (snd (requeue_lost_attempt tid aid nid now reason pol st)) = frame_view st"
  by (simp add: requeue_lost_attempt_def Let_def)

lemma frame_lose_one [simp]: "frame_view (lose_one nid now r st) = frame_view st"
  by (cases r) (simp add: lose_one_def Let_def case_prod_beta)

lemma frame_lose [simp]: "frame_view (lose_node_attempts now nid st) = frame_view st"
proof -
  have "frame_view (fold (lose_one nid now) rows st) = frame_view st" for rows st
    by (induction rows arbitrary: st) simp_all
  then show ?thesis by (simp add: lose_node_attempts_def Let_def)
qed

lemma frame_lose_offline [simp]: "frame_view (lose_node_attempts_if_offline now nid st) = frame_view st"
  by (simp add: lose_node_attempts_if_offline_def split: option.split)

lemma frame_revert [simp]: "frame_view (snd (revert_expired_leases now fence st)) = frame_view st"
proof -
  have "frame_view (snd (revert_one now fence a acc)) = frame_view (snd acc)" for a acc
    by (cases acc) (simp add: revert_one_def Let_def)
  then have "frame_view (snd (fold (revert_one now fence) rows acc)) = frame_view (snd acc)" for rows acc
    by (induction rows arbitrary: acc) simp_all
  then show ?thesis by (simp add: revert_expired_leases_def)
qed

lemma frame_assign [simp]: "frame_view (snd (try_assign_batch env now draw nid limit st)) = frame_view st"
proof -
  have "frame_view (snd (assign_one now draw nid st0 t acc)) = frame_view (snd acc)" for st0 t acc
    by (cases acc; cases "draw (t_id t)") (simp add: assign_one_def Let_def)
  then have f: "frame_view (snd (fold (assign_one now draw nid st0) el acc)) = frame_view (snd acc)" for st0 el acc
    by (induction el arbitrary: acc) simp_all
  have "frame_view st1 = frame_view st" if "fold (assign_one now draw nid st) el ([], st) = (b, st1)" for el b st1
    using f [of st el "([], st)"] that by simp
  then show ?thesis
    by (auto simp: try_assign_batch_def Let_def split: option.split gate_result.split prod.split)
qed

lemma frame_lifecycle [simp]:
  "frame_view (snd (create_task now tid req st)) = frame_view st"
  "frame_view (snd (insert_task_tx now tid req st)) = frame_view st"
  "frame_view (snd (ack_attempt now aid st)) = frame_view st"
  "frame_view (snd (begin_validate now aid st)) = frame_view st"
  "frame_view (snd (reject_assignment now aid reason st)) = frame_view st"
  "frame_view (snd (cancel_task now tid st)) = frame_view st"
  "frame_view (snd (retry_task ex now tid st)) = frame_view st"
  "frame_view (create_agent_session now aid adapter st) = frame_view st"
  "frame_view (create_approval now apid tid aid session perm ttl step scope st) = frame_view st"
  "frame_view (snd (answer_approval now apid ev reason2 actor st)) = frame_view st"
  by (simp_all add: create_task_def insert_task_tx_def ack_attempt_def begin_validate_def reject_assignment_def
      cancel_task_def retry_task_def create_agent_session_def create_approval_def answer_approval_def
      request_cancel_def Let_def case_prod_beta split: option.split sum.split)

lemma frame_admin [simp]:
  "frame_view (snd (set_node_drained now nid d st)) = frame_view st"
  "frame_view (snd (reconcile_active_attempts st)) = frame_view st"
  by (simp_all add: set_node_drained_def reconcile_active_attempts_def Let_def frame_nodes)

section \<open>The event log\<close>

text \<open>One row per attempt and sequence, cursors strictly increasing and already issued.\<close>

definition log_inv :: "store \<Rightarrow> bool" where
  "log_inv st \<longleftrightarrow> distinct (map (\<lambda>e. (e_attempt_id e, e_sequence e)) (task_events st))
     \<and> sorted_wrt (<) (map e_ingest_id (task_events st))
     \<and> (\<forall>e \<in> set (task_events st). e_ingest_id e \<le> ingest_next st)"

lemma log_inv_view: "log_view st' = log_view st \<Longrightarrow> log_inv st' = log_inv st"
  by (simp add: log_view_def log_inv_def)

lemma log_inv_frame: "frame_view st' = frame_view st \<Longrightarrow> log_inv st' = log_inv st"
  using log_inv_view [of st' st] by (simp add: frame_view_def)

lemma log_inv_keeps: "log_inv st \<Longrightarrow> frame_view st' = frame_view st \<Longrightarrow> log_inv st'"
  using log_inv_frame [of st' st] by blast

text \<open>Inserting a row whose cursor lies above every stored one; \<open>b\<close> bounds the
  cursors issued so far.\<close>

definition log_below :: "int \<Rightarrow> store \<Rightarrow> bool" where
  "log_below b st \<longleftrightarrow> distinct (map (\<lambda>e. (e_attempt_id e, e_sequence e)) (task_events st))
     \<and> sorted_wrt (<) (map e_ingest_id (task_events st)) \<and> (\<forall>e \<in> set (task_events st). e_ingest_id e < b)"

lemma log_below_mono: "log_below b st \<Longrightarrow> b \<le> c \<Longrightarrow> log_below c st"
  by (fastforce simp: log_below_def)

lemma insert_event_below:
  assumes "log_below (e_ingest_id row) st"
  shows "log_below (e_ingest_id row + 1) (snd (insert_event row st))"
  using assms
  by (auto simp: insert_event_def log_below_def sorted_wrt_append sql_count_def filter_empty_conv)

lemma insert_events_below:
  "log_below c st \<Longrightarrow> log_below (c + int (length evs)) (snd (insert_events now aid c evs st))"
proof (induction evs arbitrary: c st)
  case (Cons ev evs)
  let ?row = "\<lparr>e_attempt_id = aid, e_sequence = sint (ie_sequence ev), e_type = ie_type ev,
      e_payload = ie_payload ev, e_created_at = now, e_ingest_id = c\<rparr>"
  have "log_below (c + 1) (snd (insert_event ?row st))"
    using insert_event_below [of ?row st] Cons.prems by simp
  from Cons.IH [OF this] show ?case by (simp add: case_prod_beta algebra_simps)
qed simp

lemma insert_frame [simp]:
  "ingest_next (snd (insert_event row st)) = ingest_next st"
  "ingest_next (snd (insert_events now aid c evs st)) = ingest_next st"
proof -
  show "ingest_next (snd (insert_event row st)) = ingest_next st" for row st by (simp add: insert_event_def)
  then show "ingest_next (snd (insert_events now aid c evs st)) = ingest_next st"
    by (induction evs arbitrary: c st) (simp_all add: case_prod_beta)
qed

lemma log_inv_below: "log_inv st \<longleftrightarrow> log_below (ingest_next st + 1) st"
  by (auto simp: log_inv_def log_below_def)

lemma log_below_events: "task_events st' = task_events st \<Longrightarrow> log_below b st' = log_below b st"
  by (simp add: log_below_def)

lemma append_event_log: "log_inv st \<Longrightarrow> log_inv (append_event now aid payload st)"
  unfolding log_inv_below append_event_def Let_def
  by (rule log_below_mono [OF insert_event_below]) (simp_all add: log_below_def)

lemma ingest_events_log: "log_inv st \<Longrightarrow> log_inv (snd (ingest_events now aid evs st))"
proof -
  assume inv: "log_inv st"
  show ?thesis
  proof (cases "find_attempt st aid")
    case (Some a)
    define st1 where "st1 = (if a_status a = AttemptAssigned
        then st\<lparr>attempts := sql_update (\<lambda>r. a_id r = aid) (\<lambda>r. r\<lparr>a_status := AttemptRunning\<rparr>) (attempts st),
                tasks := sql_update (\<lambda>t. t_id t = a_task_id a)
                  (\<lambda>t. t\<lparr>t_status := TaskRunning, t_started_at := Some now\<rparr>) (tasks st)\<rparr> else st)"
    let ?n = "int (length evs)"
    define st2 where "st2 = st1\<lparr>ingest_next := ingest_next st1 + ?n\<rparr>"
    let ?c = "(if ?n > 0 then ingest_next st2 else 0) - ?n + 1"
    have st2: "task_events st2 = task_events st" "ingest_next st2 = ingest_next st + ?n"
      by (simp_all add: st1_def st2_def)
    have "log_inv (snd (insert_events now aid ?c evs st2))"
    proof (cases "evs = []")
      case False
      then have "log_below ?c st2" using inv st2 by (simp add: log_inv_below log_below_def)
      from insert_events_below [OF this, of evs now aid] False st2(2) show ?thesis
        by (simp add: log_inv_below add.commute add.left_commute)
    qed (use inv st2 in \<open>simp add: log_inv_def\<close>)
    moreover have "snd (ingest_events now aid evs st) =
        (if attempt_terminal (a_status a) then st else snd (insert_events now aid ?c evs st2))"
      unfolding ingest_events_def Let_def case_prod_beta st1_def st2_def
      by (cases "attempt_terminal (a_status a)") (simp_all only: Some option.case if_True if_False snd_conv)
    ultimately show ?thesis using inv by simp
  qed (use inv in \<open>simp add: ingest_events_def\<close>)
qed

lemma complete_commit_log: "log_inv st \<Longrightarrow> log_inv (complete_commit now apid a t req ats tt st)"
proof -
  assume inv: "log_inv st"
  define st1 where "st1 = update_attempt (a_id a)
      (\<lambda>r. r\<lparr>a_status := ats, a_finished_at := Some now, a_report := apply_report req (a_report r)\<rparr>)
      (finish_agent_session now (a_id a) (if req_success req then ''done'' else ''failed'') (cr_error_code req) st)"
  define st2 where "st2 = (if tt = TaskSucceeded \<and> cr_commit_sha req \<noteq> None
      \<and> sql_count (\<lambda>e. e_attempt_id e = a_id a \<and> e_type e = EvtResult) (task_events st1) = 0
      then insert_verification_note now (a_id a) silent_success_note st1 else st1)"
  have "log_inv st1" using inv by (rule log_inv_keeps) (simp add: st1_def)
  then have "log_inv st2" by (simp add: st2_def insert_verification_note_def append_event_log)
  moreover have "frame_view (complete_commit now apid a t req ats tt st) = frame_view st2"
    unfolding complete_commit_def Let_def st1_def [symmetric] st2_def [symmetric] by simp
  ultimately show ?thesis by (rule log_inv_keeps)
qed

lemma complete_attempt_log: "log_inv st \<Longrightarrow> log_inv (snd (complete_attempt ex now apid aid req st))"
  by (auto simp: complete_attempt_def Let_def split: option.split sum.split
      intro: log_inv_keeps log_inv_keeps [OF complete_commit_log])

lemma log_view_nodes [simp]:
  "log_view (mark_offline_nodes now st) = log_view st"
  "log_view (snd (mark_node_offline now nid st)) = log_view st"
  "log_view (register_or_touch_node now preq st) = log_view st"
  "log_view (snd (enroll_node cd now cred nid ereq st)) = log_view st"
  "log_view (snd (heartbeat now nid hreq st)) = log_view st"
  "log_view (snd (revoke_node now nid st)) = log_view st"
  "log_view (set_node_degraded nid st) = log_view st"
  "log_view (snd (create_enrollment_token cd now i tok st)) = log_view st"
  "log_view (snd (create_rekey_token cd now i tok nid st)) = log_view st"
proof -
  have fv: "log_view s' = log_view s" if "frame_view s' = frame_view s" for s s'
    using that by (simp add: frame_view_def)
  have lose: "log_view (lose_node_attempts now i s) = log_view s" for i s by (rule fv) simp
  have lose2: "log_view (lose_node_attempts_if_offline now i s) = log_view s" for i s by (rule fv) simp
  have aud: "log_view (audit now ty ac an su pl s) = log_view s" for ty ac an su pl s by (rule fv) simp
  have nd: "log_view (s\<lparr>nodes := ns\<rparr>) = log_view s" for s ns by (simp add: log_view_def)
  have tk: "log_view (s\<lparr>enrollment_tokens := ns\<rparr>) = log_view s" for s ns by (simp add: log_view_def)
  have "log_view (offline_one now n s) = log_view s" for n s by (simp add: offline_one_def Let_def lose nd)
  then have "log_view (fold (offline_one now) ns s) = log_view s" for ns s
    by (induction ns arbitrary: s) simp_all
  then show "log_view (mark_offline_nodes now st) = log_view st" by (simp add: mark_offline_nodes_def)
  show "log_view (snd (mark_node_offline now nid st)) = log_view st"
    by (simp add: mark_node_offline_def Let_def lose nd)
  show "log_view (register_or_touch_node now preq st) = log_view st" by (simp add: register_or_touch_node_def nd)
  show "log_view (snd (enroll_node cd now cred nid ereq st)) = log_view st"
    by (simp add: enroll_node_def Let_def use_token_def nd tk aud split: option.split)
  show "log_view (snd (heartbeat now nid hreq st)) = log_view st"
    by (simp add: heartbeat_def Let_def nd aud lose2 split: option.split)
  show "log_view (snd (revoke_node now nid st)) = log_view st" by (simp add: revoke_node_def Let_def lose aud nd)
  show "log_view (set_node_degraded nid st) = log_view st" by (simp add: set_node_degraded_def nd)
  show "log_view (snd (create_enrollment_token cd now i tok st)) = log_view st"
    "log_view (snd (create_rekey_token cd now i tok nid st)) = log_view st"
    by (simp_all add: create_enrollment_token_def create_rekey_token_def tk)
qed

text \<open>No operation removes or changes a stored event.\<close>

lemma insert_event_grows: "prefix (task_events st) (task_events (snd (insert_event row st)))"
  by (simp add: insert_event_def)

lemma insert_events_grow: "prefix (task_events st) (task_events (snd (insert_events now aid c evs st)))"
proof (induction evs arbitrary: c st)
  case (Cons ev evs)
  then show ?case by (auto simp: case_prod_beta intro: prefix_order.trans [OF insert_event_grows])
qed simp

lemma append_event_grows: "prefix (task_events st) (task_events (append_event now aid payload st))"
  using insert_event_grows [of "st\<lparr>ingest_next := ingest_next st + 1\<rparr>"] by (simp add: append_event_def Let_def)

lemma ingest_events_grow: "prefix (task_events st) (task_events (snd (ingest_events now aid evs st)))"
proof -
  have "prefix (task_events st) (task_events (snd (insert_events now aid c evs s)))" if "task_events s = task_events st" for c s
    using insert_events_grow [of s] that by simp
  then show ?thesis by (auto simp: ingest_events_def Let_def case_prod_beta split: option.split)
qed

lemma frame_same_log: "frame_view st' = frame_view st \<Longrightarrow> task_events st' = task_events st"
  by (simp add: frame_defs)

lemma complete_attempt_grows: "prefix (task_events st) (task_events (snd (complete_attempt ex now apid aid req st)))"
proof -
  have commit: "prefix (task_events st) (task_events (complete_commit now apid a t req ats tt st))" for a t ats tt
  proof -
    define st1 where "st1 = update_attempt (a_id a)
        (\<lambda>r. r\<lparr>a_status := ats, a_finished_at := Some now, a_report := apply_report req (a_report r)\<rparr>)
        (finish_agent_session now (a_id a) (if req_success req then ''done'' else ''failed'') (cr_error_code req) st)"
    define st2 where "st2 = (if tt = TaskSucceeded \<and> cr_commit_sha req \<noteq> None
        \<and> sql_count (\<lambda>e. e_attempt_id e = a_id a \<and> e_type e = EvtResult) (task_events st1) = 0
        then insert_verification_note now (a_id a) silent_success_note st1 else st1)"
    have "task_events st1 = task_events st" by (rule frame_same_log) (simp add: st1_def)
    then have "prefix (task_events st) (task_events st2)"
      using append_event_grows [of st1] by (simp add: st2_def insert_verification_note_def)
    moreover have "task_events (complete_commit now apid a t req ats tt st) = task_events st2"
      unfolding complete_commit_def Let_def st1_def [symmetric] st2_def [symmetric] by (rule frame_same_log) simp
    ultimately show ?thesis by simp
  qed
  have same: "task_events (audit now ty ac an su pl s) = task_events s"
    "task_events (stamp_eval_case ex now i sha cmd s) = task_events s"
    "task_events (bake_resume_digest ex now tid prompt s) = task_events s"
    for ty ac an su pl s i sha cmd tid prompt by (rule frame_same_log, simp)+
  show ?thesis using commit by (auto simp: complete_attempt_def Let_def same split: option.split sum.split)
qed

lemma store_step_log_grows: "store_step st st' \<Longrightarrow> prefix (task_events st) (task_events st')"
proof -
  have same: "prefix (task_events s) (task_events s')" if "log_view s' = log_view s" for s s' :: store
    using that by (simp add: log_view_def)
  have frame: "prefix (task_events s) (task_events s')" if "frame_view s' = frame_view s" for s s' :: store
    using frame_same_log [OF that] by simp
  show "store_step st st' \<Longrightarrow> prefix (task_events st) (task_events st')"
    by (induction rule: store_step.induct)
       (auto simp: append_audit_event_def intro: same frame append_event_grows ingest_events_grow complete_attempt_grows)
qed

interpretation log_sys: invariant_system "\<lambda>s. task_events s = []" store_step log_inv
proof unfold_locales
  fix s :: store assume "task_events s = []"
  then show "log_inv s" by (simp add: log_inv_def)
next
  fix s t assume "log_inv s" "store_step s t"
  from this(2,1) show "log_inv t"
    by (induction rule: store_step.induct)
       (auto simp: append_audit_event_def intro: log_inv_keeps append_event_log ingest_events_log
         complete_attempt_log log_inv_view [THEN iffD2])
qed

end
