(* ===== verification/EventProps.thy ===== *)
theory EventProps
  imports LogProps
begin

text \<open>
  Properties of the event log: uniqueness and order of its rows, what the acknowledged
  prefix means, and that redelivery is harmless.
\<close>

section \<open>The contiguous prefix\<close>

text \<open>A reference definition of the prefix: count on from \<open>k\<close> while the next
  sequence number is present.\<close>

fun gap :: "int \<Rightarrow> int list \<Rightarrow> int" where
  "gap k [] = k"
| "gap k (s # ss) = (if s = k + 1 then gap (k + 1) ss else k)"

definition numbered :: "nat \<Rightarrow> int list \<Rightarrow> (int \<times> int) list" where
  "numbered k ds = zip (map int [Suc k..<Suc k + length ds]) ds"

lemma numbered_simps [simp]:
  "numbered k [] = []"
  "numbered k (s # ds) = (int k + 1, s) # numbered (Suc k) ds"
proof -
  have "[Suc k..<Suc k + length (s # ds)] = Suc k # [Suc (Suc k)..<Suc (Suc k) + length ds]"
    using upt_conv_Cons [of "Suc k" "Suc (Suc k) + length ds"] by simp
  then show "numbered k (s # ds) = (int k + 1, s) # numbered (Suc k) ds"
    unfolding numbered_def by (simp del: upt_Suc)
qed (simp add: numbered_def)

lemma gap_window:
  "(case filter (\<lambda>(rn, s). s \<noteq> rn) (numbered k ds) of
      [] \<Rightarrow> (if ds = [] then int k else last ds) | (rn, _) # _ \<Rightarrow> rn - 1) = gap (int k) ds"
proof (induction ds arbitrary: k)
  case (Cons s ds)
  show ?case using Cons.IH [of "Suc k"]
    by (cases "ds = []") (auto simp: add.commute split: list.splits)
qed simp

lemma prefix_is_gap:
  "prefix_of_sequences ss = (if ss = [] then None else Some (gap 0 (sort (remdups ss))))"
proof -
  have ne: "sort (remdups ss) = [] \<longleftrightarrow> ss = []" by (metis set_empty set_remdups set_sort)
  have "numbered 0 ds = zip (map int [1..<Suc (length ds)]) ds" for ds
    by (simp add: numbered_def del: upt_Suc)
  then show ?thesis
    using gap_window [where k = 0 and ds = "sort (remdups ss)"] ne
    unfolding prefix_of_sequences_def Let_def
    by (cases "ss = []") (auto simp del: upt_Suc split: list.splits)
qed

lemma gap_spec:
  assumes "sorted_wrt (<) ds" "\<forall>s \<in> set ds. k < s"
  shows "k \<le> gap k ds \<and> {k + 1..gap k ds} \<subseteq> set ds \<and> gap k ds + 1 \<notin> set ds"
  using assms
proof (induction ds arbitrary: k)
  case (Cons s ds)
  show ?case
  proof (cases "s = k + 1")
    case True
    have "k + 1 \<le> gap (k + 1) ds \<and> {k + 1 + 1..gap (k + 1) ds} \<subseteq> set ds \<and> gap (k + 1) ds + 1 \<notin> set ds"
      using Cons.prems True by (intro Cons.IH) auto
    moreover have "{k + 1..gap (k + 1) ds} \<subseteq> insert (k + 1) {k + 1 + 1..gap (k + 1) ds}" by auto
    ultimately show ?thesis using True by auto
  next
    case False
    then show ?thesis using Cons.prems by fastforce
  qed
qed simp

lemma prefix_spec:
  assumes "ss \<noteq> []" "\<forall>s \<in> set ss. 1 \<le> s"
  obtains n where "prefix_of_sequences ss = Some n" "0 \<le> n" "{1..n} \<subseteq> set ss" "n + 1 \<notin> set ss"
proof -
  have "sorted_wrt (<) (sort (remdups ss))" by (simp add: strict_sorted_iff)
  then show thesis
    using that [of "gap 0 (sort (remdups ss))"] gap_spec [of "sort (remdups ss)" 0] assms
    by (simp add: prefix_is_gap int_one_le_iff_zero_less)
qed

section \<open>Properties\<close>

text \<open>
  C9: The event log is a set of distinct events in cursor order. In every store reached
  from an empty log no two rows carry the same attempt and sequence number, the global cursor
  grows strictly along the table, also across attempts, and every cursor a row carries has
  been issued; so a client that resumes after a cursor misses nothing and sees nothing twice.
\<close>

theorem event_log_consistent:
  assumes "reachable (\<lambda>s. task_events s = []) store_step st"
  shows "distinct (map (\<lambda>e. (e_attempt_id e, e_sequence e)) (task_events st))
     \<and> sorted_wrt (<) (map e_ingest_id (task_events st))
     \<and> (\<forall>e \<in> set (task_events st). e_ingest_id e \<le> ingest_next st)"
  using log_sys.reachable_inv [OF assms] by (simp add: log_inv_def)

definition demo_events :: "ingest_event list" where
  "demo_events = [\<lparr>ie_sequence = 1, ie_type = EvtStdout, ie_payload = ''a''\<rparr>,
                  \<lparr>ie_sequence = 2, ie_type = EvtStdout, ie_payload = ''b''\<rparr>,
                  \<lparr>ie_sequence = 4, ie_type = EvtStdout, ie_payload = ''d''\<rparr>]"

definition demo_logged :: store where
  "demo_logged = snd (ingest_events 25 ''a-t1'' demo_events demo_running)"

lemma demo_ingest:
  "ingest_events 25 ''a-t1'' demo_events demo_running = (\<lparr>ack_accepted = 3, ack_highest = Some 2\<rparr>, demo_logged)"
  "attempt_sequences demo_logged ''a-t1'' = [1, 2, 4]"
proof -
  have "fst (ingest_events 25 ''a-t1'' demo_events demo_running) = \<lparr>ack_accepted = 3, ack_highest = Some 2\<rparr>"
    by (simp add: ingest_events_def demo_running_eq find_attempt_def sql_first_def new_attempt_def
        attempt_terminal.simps demo_events_def empty_store_def insert_event_def attempt_sequences_def Let_def
        contiguous_event_prefix_def prefix_is_gap)
  then show "ingest_events 25 ''a-t1'' demo_events demo_running = (\<lparr>ack_accepted = 3, ack_highest = Some 2\<rparr>, demo_logged)"
    by (simp add: demo_logged_def prod_eq_iff)
  show "attempt_sequences demo_logged ''a-t1'' = [1, 2, 4]"
    by (simp add: demo_logged_def ingest_events_def demo_running_eq find_attempt_def sql_first_def new_attempt_def
        attempt_terminal.simps demo_events_def empty_store_def insert_event_def attempt_sequences_def Let_def)
qed

lemma log_reachable_running: "reachable (\<lambda>s. task_events s = []) store_step demo_running"
  by (rule reach_init) (simp add: demo_running_eq empty_store_def)

theorem event_log_consistent_witness:
  "distinct (map (\<lambda>e. (e_attempt_id e, e_sequence e)) (task_events demo_logged))"
proof -
  have "reachable (\<lambda>s. task_events s = []) store_step demo_logged"
    unfolding demo_logged_def by (rule reach_step [OF log_reachable_running s_ingest])
  from event_log_consistent [OF this] show ?thesis by blast
qed

text \<open>
  C10: What an acknowledgement promises. When a live attempt numbers its events from one
  and the log holds some of them, the acknowledged number \<open>n\<close> is the exact length of
  the gap-free prefix: every event from 1 to \<open>n\<close> is stored and event \<open>n + 1\<close> is
  not.
\<close>

theorem acknowledged_prefix_is_stored:
  assumes "ingest_events now aid evs st = (ack, st')" "ack_highest ack = Some n"
    and "\<forall>s \<in> set (attempt_sequences st' aid). 1 \<le> s"
  shows "{1..n} \<subseteq> set (attempt_sequences st' aid) \<and> n + 1 \<notin> set (attempt_sequences st' aid)"
proof -
  obtain a where a: "find_attempt st aid = Some a" "\<not> attempt_terminal (a_status a)"
    using assms(1,2) by (auto simp: ingest_events_def split: option.splits if_splits)
  have n: "Some n = (case contiguous_event_prefix st' aid of None \<Rightarrow> Some 0 | Some m \<Rightarrow> Some m)"
    using assms(1,2) a by (auto simp: ingest_events_def Let_def split: prod.splits)
  show ?thesis
  proof (cases "attempt_sequences st' aid = []")
    case True
    then show ?thesis using n by (simp add: contiguous_event_prefix_def prefix_is_gap)
  next
    case False
    then obtain m where "contiguous_event_prefix st' aid = Some m" "{1..m} \<subseteq> set (attempt_sequences st' aid)"
        "m + 1 \<notin> set (attempt_sequences st' aid)"
      using prefix_spec [OF False assms(3)] by (auto simp: contiguous_event_prefix_def)
    then show ?thesis using n by simp
  qed
qed

theorem acknowledged_prefix_is_stored_witness:
  "ack_highest (fst (ingest_events 25 ''a-t1'' demo_events demo_running)) = Some 2
   \<and> {1..2} \<subseteq> set (attempt_sequences demo_logged ''a-t1'')
   \<and> 3 \<notin> set (attempt_sequences demo_logged ''a-t1'')"
  using acknowledged_prefix_is_stored [OF demo_ingest(1), of 2] demo_ingest by simp

text \<open>Redelivering rows that are all present stores nothing.\<close>

lemma insert_events_present:
  assumes "\<And>ev. ev \<in> set evs \<Longrightarrow> sint (ie_sequence ev) \<in> set (attempt_sequences st aid)"
  shows "insert_events now aid c evs st = (0, st)"
  using assms
proof (induction evs arbitrary: c)
  case (Cons ev evs)
  have "sint (ie_sequence ev) \<in> set (attempt_sequences st aid)" using Cons.prems by simp
  then have "0 < sql_count (\<lambda>e. e_attempt_id e = aid \<and> e_sequence e = sint (ie_sequence ev)) (task_events st)"
    by (auto simp: attempt_sequences_def sql_count_pos)
  moreover have "insert_events now aid (c + 1) evs st = (0, st)" using Cons by simp
  ultimately show ?case by (simp add: insert_event_def)
qed simp

lemma insert_event_present:
  "e_sequence row \<in> set (attempt_sequences (snd (insert_event row st)) (e_attempt_id row))"
  "s \<in> set (attempt_sequences st aid) \<Longrightarrow> s \<in> set (attempt_sequences (snd (insert_event row st)) aid)"
proof -
  show "e_sequence row \<in> set (attempt_sequences (snd (insert_event row st)) (e_attempt_id row))"
    using sql_count_pos [of "\<lambda>e. e_attempt_id e = e_attempt_id row \<and> e_sequence e = e_sequence row" "task_events st"]
    by (cases "0 < sql_count (\<lambda>e. e_attempt_id e = e_attempt_id row \<and> e_sequence e = e_sequence row) (task_events st)")
       (auto simp: insert_event_def attempt_sequences_def image_iff)
qed (auto simp: insert_event_def attempt_sequences_def)

lemma insert_events_adds:
  "(\<forall>ev \<in> set evs. sint (ie_sequence ev) \<in> set (attempt_sequences (snd (insert_events now aid c evs st)) aid))
   \<and> set (attempt_sequences st aid) \<subseteq> set (attempt_sequences (snd (insert_events now aid c evs st)) aid)"
proof (induction evs arbitrary: c st)
  case (Cons ev evs)
  let ?row = "\<lparr>e_attempt_id = aid, e_sequence = sint (ie_sequence ev), e_type = ie_type ev,
      e_payload = ie_payload ev, e_created_at = now, e_ingest_id = c\<rparr>"
  note one = insert_event_present(1) [of ?row st] insert_event_present(2) [of _ st aid ?row]
  show ?case using Cons.IH [where c = "c + 1" and st = "snd (insert_event ?row st)"] one
    by (auto simp: case_prod_beta)
qed simp

text \<open>
  Redelivery is harmless. A node that sends a batch, does not see the answer and
  sends the same batch again (or any part of it, in any order) changes no task, no attempt
  and no event by it: the second call accepts nothing and acknowledges the same prefix. Only
  the global cursor moves on, by the size of the batch.
\<close>

theorem redelivery_is_harmless:
  assumes "store_reachable st" "ingest_events now aid evs st = (ack, st')" "ack_highest ack = Some n"
    and "set again \<subseteq> set evs"
  shows "ingest_events later aid again st' =
    (\<lparr>ack_accepted = 0, ack_highest = Some n\<rparr>, st'\<lparr>ingest_next := ingest_next st' + int (length again)\<rparr>)"
proof -
  have inv: "store_inv st" using assms(1) by (rule store_sys.reachable_inv)
  obtain a where a: "find_attempt st aid = Some a" "\<not> attempt_terminal (a_status a)"
    using assms(2,3) by (auto simp: ingest_events_def split: option.splits if_splits)
  obtain c st2 acc where ie: "insert_events now aid c evs st2 = (acc, st')"
      "attempts st2 = (if a_status a = AttemptAssigned then sql_update (\<lambda>r. a_id r = aid)
         (\<lambda>r. r\<lparr>a_status := AttemptRunning\<rparr>) (attempts st) else attempts st)"
    and hi: "Some n = (case contiguous_event_prefix st' aid of None \<Rightarrow> Some 0 | Some m \<Rightarrow> Some m)"
    using assms(2,3) a by (auto simp: ingest_events_def Let_def split: prod.splits if_splits)
  have "attempts st' = attempts st2" using insert_events_frame [of now aid c evs st2] ie(1) by simp
  then obtain a' where a': "find_attempt st' aid = Some a'" "a_status a' \<noteq> AttemptAssigned" "\<not> attempt_terminal (a_status a')"
    using a ie(2)
    by (auto simp: find_attempt_def sql_first_update [where key = a_id] attempt_terminal.simps
        dest: sql_first_SomeD split: if_splits)
  have "sint (ie_sequence ev) \<in> set (attempt_sequences st' aid)" if "ev \<in> set again" for ev
    using insert_events_adds [of evs now aid c st2] ie(1) assms(4) that by auto
  then have "insert_events later aid k again (st'\<lparr>ingest_next := j\<rparr>) = (0, st'\<lparr>ingest_next := j\<rparr>)" for k j
    by (intro insert_events_present) (simp add: attempt_sequences_def)
  then show ?thesis
    using a' hi by (simp add: ingest_events_def Let_def contiguous_event_prefix_def attempt_sequences_def)
qed

theorem redelivery_is_harmless_witness:
  "ack_accepted (fst (ingest_events 26 ''a-t1'' demo_events demo_logged)) = 0"
  using redelivery_is_harmless [OF demo_running_reachable demo_ingest(1), of 2 demo_events 26] by simp

end
