(* ===== verification/AuthProps.thy ===== *)
theory AuthProps
  imports EventProps
begin

text \<open>
  Enrolment tokens, credentials, revocation and the offline sweep.
\<close>

section \<open>Tokens\<close>

text \<open>The first token with a given hash, the one \<open>enroll_node\<close> looks up, is used.\<close>

definition token_used :: "string \<Rightarrow> store \<Rightarrow> bool" where
  "token_used h st \<longleftrightarrow>
     (\<exists>tok. sql_first (\<lambda>t. et_token_hash t = h) (enrollment_tokens st) = Some tok \<and> et_used_at tok \<noteq> None)"

lemma token_used_view: "enrollment_tokens st' = enrollment_tokens st \<Longrightarrow> token_used h st \<Longrightarrow> token_used h st'"
  by (simp add: token_used_def)

lemma token_used_append:
  "token_used h st \<Longrightarrow> enrollment_tokens st' = enrollment_tokens st @ ts \<Longrightarrow> token_used h st'"
  by (auto simp: token_used_def dest: sql_first_append)

lemma token_used_mark: "token_used h st \<Longrightarrow> token_used h (use_token now i st)"
proof -
  assume "token_used h st"
  then obtain tok where "sql_first (\<lambda>t. et_token_hash t = h) (enrollment_tokens st) = Some tok" "et_used_at tok \<noteq> None"
    by (auto simp: token_used_def)
  then show "token_used h (use_token now i st)"
    by (simp add: token_used_def use_token_def sql_first_update [where key = et_token_hash])
qed

lemma frame_tokens: "frame_view st' = frame_view st \<Longrightarrow> token_used h st \<Longrightarrow> token_used h st'"
  by (rule token_used_view) (simp_all add: frame_view_def auth_view_def)

lemma token_frames:
  "enrollment_tokens (mark_offline_nodes now st) = enrollment_tokens st"
  "enrollment_tokens (snd (mark_node_offline now nid st)) = enrollment_tokens st"
  "enrollment_tokens (register_or_touch_node now preq st) = enrollment_tokens st"
  "enrollment_tokens (snd (heartbeat now nid hreq st)) = enrollment_tokens st"
  "enrollment_tokens (snd (revoke_node now nid st)) = enrollment_tokens st"
  "enrollment_tokens (set_node_degraded nid st) = enrollment_tokens st"
proof -
  have fv: "enrollment_tokens s' = enrollment_tokens s" if "frame_view s' = frame_view s" for s s'
    using that by (simp add: frame_view_def auth_view_def)
  have lose: "enrollment_tokens (lose_node_attempts now i s) = enrollment_tokens s" for i s by (rule fv) simp
  have lose2: "enrollment_tokens (lose_node_attempts_if_offline now i s) = enrollment_tokens s" for i s by (rule fv) simp
  have aud: "enrollment_tokens (audit now ty ac an su pl s) = enrollment_tokens s" for ty ac an su pl s
    by (rule fv) simp
  have "enrollment_tokens (offline_one now n s) = enrollment_tokens s" for n s
    by (simp add: offline_one_def Let_def lose)
  then have "enrollment_tokens (fold (offline_one now) ns s) = enrollment_tokens s" for ns s
    by (induction ns arbitrary: s) simp_all
  then show "enrollment_tokens (mark_offline_nodes now st) = enrollment_tokens st" by (simp add: mark_offline_nodes_def)
  show "enrollment_tokens (snd (mark_node_offline now nid st)) = enrollment_tokens st"
    by (simp add: mark_node_offline_def Let_def lose)
  show "enrollment_tokens (register_or_touch_node now preq st) = enrollment_tokens st"
    by (simp add: register_or_touch_node_def)
  show "enrollment_tokens (snd (heartbeat now nid hreq st)) = enrollment_tokens st"
    by (simp add: heartbeat_def Let_def aud lose2 split: option.split)
  show "enrollment_tokens (snd (revoke_node now nid st)) = enrollment_tokens st"
    by (simp add: revoke_node_def Let_def lose aud)
  show "enrollment_tokens (set_node_degraded nid st) = enrollment_tokens st" by (simp add: set_node_degraded_def)
qed

lemma enroll_keeps_used: "token_used h st \<Longrightarrow> token_used h (snd (enroll_node cd now cred nid req st))"
  by (auto simp: enroll_node_def Let_def audit_def split: option.split
      intro!: token_used_mark elim: token_used_view [rotated])

lemma mint_keeps_used:
  "token_used h st \<Longrightarrow> token_used h (snd (create_enrollment_token cd now i tok st))"
  "token_used h st \<Longrightarrow> token_used h (snd (create_rekey_token cd now i tok nid st))"
  by (auto simp: create_enrollment_token_def create_rekey_token_def elim: token_used_append)

text \<open>The operations that write events leave tokens and credentials alone.\<close>

lemma auth_frame: "frame_view st' = frame_view st \<Longrightarrow> auth_view st' = auth_view st"
  by (simp add: frame_view_def)

lemma auth_events:
  "auth_view (snd (ingest_events now aid evs st)) = auth_view st"
  "auth_view (append_event now aid payload st) = auth_view st"
  "auth_view (snd (complete_attempt ex now apid aid req st)) = auth_view st"
proof -
  have ev: "auth_view (snd (insert_event row s)) = auth_view s" for row s
    by (simp add: insert_event_def auth_view_def)
  have evs: "auth_view (snd (insert_events now aid c es s)) = auth_view s" for c es s
    by (induction es arbitrary: c s) (simp_all add: case_prod_beta ev)
  have nx: "auth_view (s\<lparr>ingest_next := k\<rparr>) = auth_view s" for s k by (simp add: auth_view_def)
  have at: "auth_view (s\<lparr>attempts := x, tasks := y\<rparr>) = auth_view s" for s x y by (simp add: auth_view_def)
  show "auth_view (snd (ingest_events now aid evs st)) = auth_view st"
    by (simp add: ingest_events_def Let_def case_prod_beta evs nx at split: option.split)
  show ap: "auth_view (append_event now aid payload st) = auth_view st" for aid payload st
    by (simp add: append_event_def Let_def ev nx)
  have cc: "auth_view (complete_commit now apid a t req ats tt s) = auth_view s" for a t ats tt s
  proof -
    let ?u = "update_attempt (a_id a)
      (\<lambda>r. r\<lparr>a_status := ats, a_finished_at := Some now, a_report := apply_report req (a_report r)\<rparr>)
      (finish_agent_session now (a_id a) (if req_success req then ''done'' else ''failed'') (cr_error_code req) s)"
    have "auth_view (complete_commit now apid a t req ats tt s) = auth_view ?u
        \<or> auth_view (complete_commit now apid a t req ats tt s) =
          auth_view (insert_verification_note now (a_id a) silent_success_note ?u)"
      unfolding complete_commit_def Let_def by (auto intro!: auth_frame)
    moreover have "auth_view ?u = auth_view s" by (rule auth_frame) simp
    ultimately show ?thesis by (auto simp: insert_verification_note_def ap)
  qed
  have ev1: "auth_view (stamp_eval_case ex now i sha cmd s) = auth_view s"
      "auth_view (bake_resume_digest ex now i prompt s) = auth_view s"
      "auth_view (audit now ty ac an su pl s) = auth_view s" for i sha cmd s prompt ty ac an su pl
    by (rule auth_frame, simp)+
  show "auth_view (snd (complete_attempt ex now apid aid req st)) = auth_view st"
    by (simp add: complete_attempt_def Let_def cc ev1 split: option.split sum.split)
qed

lemma auth_tokens: "auth_view st' = auth_view st \<Longrightarrow> token_used h st \<Longrightarrow> token_used h st'"
  by (rule token_used_view) (simp_all add: auth_view_def)

lemma step_keeps_used: "store_step st st' \<Longrightarrow> token_used h st \<Longrightarrow> token_used h st'"
  by (induction rule: store_step.induct)
     (auto simp: append_audit_event_def token_frames auth_events intro: frame_tokens enroll_keeps_used
       mint_keeps_used auth_tokens token_used_view)

section \<open>Properties\<close>

text \<open>
  C11: An enrolment token is good for one enrolment. Once a token has enrolled or re-keyed
  a node, no later call with the same token succeeds, whatever operations run in between and
  whatever tokens are minted.
\<close>

theorem enrollment_token_single_use:
  assumes "enroll_node cd now cred nid req st = (Some res, st1)"
    and "reachable (\<lambda>s. s = st1) store_step st2" "eq_token req2 = eq_token req"
  shows "enroll_node cd later cred2 nid2 req2 st2 = (None, st2)"
proof -
  let ?h = "sha256_hex cd (eq_token req)"
  obtain tok where tok: "sql_first (\<lambda>t. et_token_hash t = ?h) (enrollment_tokens st) = Some tok"
    using assms(1) by (auto simp: enroll_node_def split: option.splits)
  obtain s where s: "st1 = use_token now (et_id tok) s" "enrollment_tokens s = enrollment_tokens st"
    using assms(1) tok by (auto simp: enroll_node_def Let_def audit_def split: option.splits if_splits)
  have "token_used ?h st1"
    using s tok by (simp add: token_used_def use_token_def sql_first_update [where key = et_token_hash])
  from assms(2) this have "token_used ?h st2"
    by (induction rule: reachable.induct) (auto intro: step_keeps_used)
  then show ?thesis using assms(3) by (auto simp: token_used_def enroll_node_def)
qed

definition demo_enroll :: enroll_request where
  "demo_enroll = \<lparr>eq_token = ''tok'', eq_name = ''node'', eq_max_concurrency = 1, eq_adapters = [''mock''],
     eq_repositories = [''*'']\<rparr>"

definition demo_minted :: store where
  "demo_minted = snd (create_enrollment_token sample_codec 0 ''e1'' ''tok'' empty_store)"

theorem enrollment_token_single_use_witness:
  "let st1 = snd (enroll_node sample_codec 1 ''c'' ''n1'' demo_enroll demo_minted)
   in enroll_node sample_codec 2 ''c2'' ''n2'' demo_enroll st1 = (None, st1)"
proof -
  obtain st1 where r: "enroll_node sample_codec 1 ''c'' ''n1'' demo_enroll demo_minted = (Some (''n1'', ''c''), st1)"
    by (simp add: enroll_node_def demo_minted_def create_enrollment_token_def demo_enroll_def sql_first_def
        empty_store_def secs_def Let_def)
  then show ?thesis using enrollment_token_single_use [OF r reach_init] by simp
qed

section \<open>Revocation\<close>

definition revoked :: "id \<Rightarrow> store \<Rightarrow> bool" where
  "revoked nid st \<longleftrightarrow> (\<exists>n. find_node st nid = Some n \<and> n_status n = NodeRevoked)"

lemma revoked_auth: "auth_view st' = auth_view st \<Longrightarrow> revoked nid st' = revoked nid st"
proof -
  have "map_option n_status (find_node s nid) =
      map_option fst (map_of (map (\<lambda>n. (n_id n, n_status n, n_credential_hash n)) (nodes s)) nid)" for s
  proof -
    have "map_option n_status (sql_first (\<lambda>n. n_id n = nid) ns) =
        map_option fst (map_of (map (\<lambda>n. (n_id n, n_status n, n_credential_hash n)) ns) nid)" for ns
      by (induction ns) (auto simp: sql_first_def)
    then show ?thesis by (simp add: find_node_def)
  qed
  moreover have "revoked nid s \<longleftrightarrow> map_option n_status (find_node s nid) = Some NodeRevoked" for s
    by (auto simp: revoked_def)
  ultimately have "revoked nid s \<longleftrightarrow> map_option fst (map_of (snd (auth_view s)) nid) = Some NodeRevoked" for s
    by (simp only: auth_view_def snd_conv)
  then show "auth_view st' = auth_view st \<Longrightarrow> revoked nid st' = revoked nid st" by simp
qed

text \<open>An update of the node table that never lifts a revocation.\<close>

lemma revoked_update:
  assumes "revoked nid st" "\<And>n. n_id (f n) = n_id n"
    and "\<And>n. n_id n = nid \<Longrightarrow> n_status n = NodeRevoked \<Longrightarrow> p n \<Longrightarrow> n_status (f n) = NodeRevoked"
  shows "revoked nid (st\<lparr>nodes := sql_update p f (nodes st)\<rparr>)"
proof -
  obtain n where "find_node st nid = Some n" "n_status n = NodeRevoked" using assms(1) by (auto simp: revoked_def)
  moreover from this have "n_id n = nid" by (auto simp: find_node_def dest: sql_first_SomeD)
  ultimately show ?thesis
    using assms(2,3) by (auto simp: revoked_def find_node_def sql_first_update [where key = n_id])
qed

lemma revoked_append: "revoked nid st \<Longrightarrow> revoked nid (st\<lparr>nodes := nodes st @ ns\<rparr>)"
  by (auto simp: revoked_def find_node_def dest: sql_first_append)

lemma revoked_frames:
  assumes r: "revoked nid st"
  shows "revoked nid (mark_offline_nodes now st)"
    and "revoked nid (snd (mark_node_offline now i st))"
    and "revoked nid (register_or_touch_node now preq st)"
    and "revoked nid (snd (heartbeat now i hreq st))"
    and "revoked nid (snd (revoke_node now i st))"
    and "revoked nid (set_node_degraded i st)"
    and "revoked nid (snd (create_enrollment_token cd now ti tok st))"
    and "revoked nid (snd (create_rekey_token cd now ti tok i st))"
proof -
  have lose: "revoked nid (lose_node_attempts now i s) = revoked nid s"
      "revoked nid (lose_node_attempts_if_offline now i s) = revoked nid s"
      "revoked nid (audit now ty ac an su pl s) = revoked nid s" for i s ty ac an su pl
    by (rule revoked_auth, rule auth_frame, simp)+
  have "revoked nid s \<Longrightarrow> revoked nid (offline_one now n s)" for n s
    by (auto simp: offline_one_def Let_def lose intro!: revoked_update)
  then have "revoked nid s \<Longrightarrow> revoked nid (fold (offline_one now) ns s)" for ns s
    by (induction ns arbitrary: s) simp_all
  then show "revoked nid (mark_offline_nodes now st)" using r by (simp add: mark_offline_nodes_def)
  show "revoked nid (snd (mark_node_offline now i st))"
    using r by (auto simp: mark_node_offline_def Let_def lose intro!: revoked_update)
  show "revoked nid (register_or_touch_node now preq st)"
    using r by (auto simp: register_or_touch_node_def intro!: revoked_update revoked_append)
  show "revoked nid (snd (heartbeat now i hreq st))"
    using r by (auto simp: heartbeat_def Let_def lose intro!: revoked_update split: option.split)
  show "revoked nid (snd (revoke_node now i st))"
    using r by (auto simp: revoke_node_def Let_def lose intro!: revoked_update)
  show "revoked nid (set_node_degraded i st)" using r by (auto simp: set_node_degraded_def intro!: revoked_update)
  show "revoked nid (snd (create_enrollment_token cd now ti tok st))" "revoked nid (snd (create_rekey_token cd now ti tok i st))"
    using r by (simp_all add: create_enrollment_token_def create_rekey_token_def revoked_def find_node_def)
qed

lemma enroll_lifts_own:
  assumes "revoked nid st" "\<not> revoked nid (snd (enroll_node cd now cred i req st))"
  shows "fst (enroll_node cd now cred i req st) = Some (nid, cred)"
proof -
  have aud: "revoked nid (audit now ty ac an su pl s) = revoked nid s" for s ty ac an su pl
    by (rule revoked_auth, rule auth_frame, simp)
  have tok: "revoked nid (use_token now k s) = revoked nid s" for s k
    by (simp add: revoked_def use_token_def find_node_def)
  have upd: "revoked nid (st\<lparr>nodes := sql_update (\<lambda>n. n_id n = j) f (nodes st)\<rparr>)"
    if "j \<noteq> nid" "\<And>n. n_id (f n) = n_id n" for j f
    using assms(1) that by (auto intro!: revoked_update)
  show ?thesis
  proof (cases "sql_first (\<lambda>t. et_token_hash t = sha256_hex cd (eq_token req)) (enrollment_tokens st)")
    case (Some t)
    show ?thesis
    proof (cases "et_node_id t")
      case None
      then show ?thesis
        using assms Some revoked_append [OF assms(1)]
        by (auto simp: enroll_node_def Let_def aud tok split: if_splits)
    next
      case (Some j)
      show ?thesis
      proof (cases "j = nid")
        case False
        then show ?thesis using assms \<open>sql_first _ _ = Some t\<close> Some
          by (auto simp: enroll_node_def Let_def aud tok intro!: upd split: if_splits)
      qed (use assms \<open>sql_first _ _ = Some t\<close> Some in \<open>auto simp: enroll_node_def Let_def split: if_splits\<close>)
    qed
  qed (use assms in \<open>simp add: enroll_node_def\<close>)
qed

lemma revoked_keeps:
  "revoked nid st \<Longrightarrow> frame_view st' = frame_view st \<Longrightarrow> revoked nid st'"
  "revoked nid st \<Longrightarrow> auth_view st' = auth_view st \<Longrightarrow> revoked nid st'"
  using revoked_auth auth_frame by blast+

lemma step_revoked:
  "store_step st st' \<Longrightarrow> revoked nid st \<Longrightarrow>
   revoked nid st' \<or> (\<exists>cd now cred i req. enroll_node cd now cred i req st = (Some (nid, cred), st'))"
proof (induction rule: store_step.induct)
  case (s_enroll i st cd now cred req)
  then show ?case using enroll_lifts_own [of nid st cd now cred i req] by (metis prod.collapse)
qed (rule disjI1; (erule revoked_frames | erule revoked_keeps(1), simp; fail
     | erule revoked_keeps(2), simp add: append_audit_event_def auth_events; fail))+

text \<open>
  Revocation sticks. Whatever operation runs (heartbeats and polls of the node
  itself, degradation, offline sweeps, enrolment of other nodes), a revoked node stays
  revoked unless that operation is an enrolment that re-keys this very node; and while it is
  revoked no credential resolves to it.
\<close>

theorem revocation_sticks:
  assumes "store_reachable st" "revoked nid st" "store_step st st'"
  shows "node_id_for_credential cd st credential \<noteq> Some nid
     \<and> (revoked nid st' \<or> (\<exists>cd now cred i req. enroll_node cd now cred i req st = (Some (nid, cred), st')))"
proof
  have "store_inv st" using assms(1) by (rule store_sys.reachable_inv)
  then have dist: "distinct (map n_id (nodes st))" by (simp add: store_inv_def keys_ok_def)
  obtain n where n: "find_node st nid = Some n" "n_status n = NodeRevoked" using assms(2) by (auto simp: revoked_def)
  have "m = n" if "m \<in> set (nodes st)" "n_id m = nid" for m
    using sql_first_row [OF dist that(1)] that(2) n(1) by (simp add: find_node_def)
  then show "node_id_for_credential cd st credential \<noteq> Some nid"
    using n(2) by (auto simp: node_id_for_credential_def dest: sql_first_SomeD split: option.splits if_splits)
  show "revoked nid st' \<or> (\<exists>cd now cred i req. enroll_node cd now cred i req st = (Some (nid, cred), st'))"
    using step_revoked [OF assms(3,2)] .
qed

definition demo_revoked :: store where
  "demo_revoked = snd (revoke_node 30 ''n1'' demo_queued)"

theorem revocation_sticks_witness:
  "node_id_for_credential sample_codec demo_revoked ''c'' \<noteq> Some ''n1''
   \<and> (revoked ''n1'' (register_or_touch_node 40 (demo_poll ''n1'') demo_revoked)
      \<or> (\<exists>cd now cred i req. enroll_node cd now cred i req demo_revoked =
           (Some (''n1'', cred), register_or_touch_node 40 (demo_poll ''n1'') demo_revoked)))"
proof (rule revocation_sticks)
  show "store_reachable demo_revoked"
    unfolding demo_revoked_def by (rule reach_step [OF demo_queued_reachable s_revoke])
  have "revoked ''n1'' (demo_queued\<lparr>nodes := [(demo_node ''n1'' 0)\<lparr>n_status := NodeRevoked, n_revoked_at := Some 30\<rparr>]\<rparr>)"
    by (simp add: revoked_def find_node_def sql_first_def demo_node_def)
  then show "revoked ''n1'' demo_revoked"
    by (simp add: demo_revoked_def revoke_node_def demo_queued_eq Let_def demo_node_def
        revoked_auth [OF auth_frame [OF frame_lose]] revoked_auth [OF auth_frame [OF frame_helpers(1)]])
  show "store_step demo_revoked (register_or_touch_node 40 (demo_poll ''n1'') demo_revoked)" by (rule s_register)
qed

section \<open>The offline sweep\<close>

lemma lose_other_node:
  assumes "distinct (map a_id (attempts st))" "i \<noteq> nid"
  shows "find_node (lose_node_attempts now i st) nid = find_node st nid"
    and "find_attempt st aid = Some a \<Longrightarrow> a_node_id a = nid \<Longrightarrow> find_attempt (lose_node_attempts now i st) aid = Some a"
proof -
  have fr: "nodes (fold (lose_one i now) rows s) = nodes s" for rows s
    by (induction rows arbitrary: s) auto
  have fn: "find_node (dec_active i k s) nid = find_node s nid" for k s
  proof -
    have "map_option (\<lambda>r. if n_id r = i then f r else r) (sql_first (\<lambda>n. n_id n = nid) (nodes s)) =
        sql_first (\<lambda>n. n_id n = nid) (nodes s)" for f
      using assms(2) by (cases "sql_first (\<lambda>n. n_id n = nid) (nodes s)") (auto dest: sql_first_SomeD)
    then show ?thesis by (simp add: dec_active_def find_node_def sql_first_update [where key = n_id])
  qed
  show "find_node (lose_node_attempts now i st) nid = find_node st nid"
    using fn by (simp add: lose_node_attempts_def Let_def find_node_def fr)
  assume a: "find_attempt st aid = Some a" "a_node_id a = nid"
  have row: "a \<in> set (attempts st)" "a_id a = aid" using a(1) by (auto simp: find_attempt_def dest: sql_first_SomeD)
  have "aid \<notin> a_id ` fst ` set (in_flight st i)"
  proof
    assume "aid \<in> a_id ` fst ` set (in_flight st i)"
    then obtain b where "b \<in> set (attempts st)" "a_id b = aid" "a_node_id b = i" by (auto simp: in_flight_def)
    then show False using row a(2) assms by (auto simp: distinct_map inj_on_def)
  qed
  then show "find_attempt (lose_node_attempts now i st) aid = Some a"
    using a(1) row(2)
    by (simp add: lose_node_attempts_def Let_def find_attempt_def lose_fold_attempts
        sql_first_update [where key = a_id])
qed

lemma lose_attempt_ids [simp]: "map a_id (attempts (lose_node_attempts now i st)) = map a_id (attempts st)"
  by (simp add: lose_node_attempts_def Let_def lose_fold_attempts map_sql_update)

lemma offline_one_other:
  assumes "distinct (map a_id (attempts st))" "n_id m \<noteq> nid"
  shows "find_node (offline_one now m st) nid = find_node st nid"
    and "find_attempt st aid = Some a \<Longrightarrow> a_node_id a = nid \<Longrightarrow> find_attempt (offline_one now m st) aid = Some a"
    and "map a_id (attempts (offline_one now m st)) = map a_id (attempts st)"
proof -
  let ?s = "st\<lparr>nodes := sql_update (\<lambda>r. n_id r = n_id m \<and> n_status r = NodeOnline)
    (\<lambda>r. r\<lparr>n_status := NodeOffline\<rparr>) (nodes st)\<rparr>"
  have s: "find_node ?s nid = find_node st nid"
    using assms(2)
    by (cases "find_node st nid")
       (auto simp: find_node_def sql_first_update [where key = n_id] dest: sql_first_SomeD)
  have fa: "find_attempt ?s aid = find_attempt st aid" by (simp add: find_attempt_def)
  have d: "distinct (map a_id (attempts ?s))" using assms(1) by simp
  show "find_node (offline_one now m st) nid = find_node st nid"
    using s lose_other_node(1) [OF d assms(2)] by (simp add: offline_one_def Let_def)
  show "find_attempt st aid = Some a \<Longrightarrow> a_node_id a = nid \<Longrightarrow> find_attempt (offline_one now m st) aid = Some a"
    using fa lose_other_node(2) [OF d assms(2), of aid a] by (simp add: offline_one_def Let_def)
  show "map a_id (attempts (offline_one now m st)) = map a_id (attempts st)"
    by (simp add: offline_one_def Let_def)
qed

text \<open>
  A degraded node that falls silent is never swept. The sweep looks at online nodes
  only: whatever the time, a node in any other status, degraded included, keeps its row, and
  its attempts, running ones included, keep theirs. A node that reported itself degraded and
  then died is never marked offline and its work is never retried elsewhere.
\<close>

theorem silent_degraded_node_never_swept:
  assumes "store_reachable st" "find_node st nid = Some n" "n_status n \<noteq> NodeOnline"
    and "find_attempt st aid = Some a" "a_node_id a = nid"
  shows "find_node (mark_offline_nodes now st) nid = Some n \<and> find_attempt (mark_offline_nodes now st) aid = Some a"
proof -
  have "store_inv st" using assms(1) by (rule store_sys.reachable_inv)
  then have dist: "distinct (map n_id (nodes st))" "distinct (map a_id (attempts st))"
    by (simp_all add: store_inv_def keys_ok_def)
  have "n_id m \<noteq> nid" if "m \<in> set (filter (silent now) (nodes st))" for m
    using sql_first_row [OF dist(1), of m] that assms(2,3) by (auto simp: silent_def find_node_def)
  then have "find_node (fold (offline_one now) ms s) nid = find_node s nid
      \<and> find_attempt (fold (offline_one now) ms s) aid = Some a"
    if "set ms \<subseteq> set (filter (silent now) (nodes st))" "distinct (map a_id (attempts s))" "find_attempt s aid = Some a"
    for ms s
    using that
  proof (induction ms arbitrary: s)
    case (Cons m ms)
    have ne: "n_id m \<noteq> nid" using Cons.prems by simp
    show ?case
      using Cons.IH [of "offline_one now m s"] offline_one_other [OF Cons.prems(3) ne] Cons.prems assms(5) by simp
  qed simp
  from this [OF subset_refl dist(2) assms(4)] show ?thesis using assms(2) by (simp add: mark_offline_nodes_def)
qed

theorem silent_degraded_node_never_swept_witness:
  "let st = set_node_degraded ''n1'' demo_running
   in \<exists>a. find_attempt st ''a-t1'' = Some a \<and> a_status a = AttemptRunning
      \<and> find_attempt (mark_offline_nodes (secs 86400) st) ''a-t1'' = Some a"
proof -
  let ?st = "set_node_degraded ''n1'' demo_running"
  have r: "store_reachable ?st" by (rule reach_step [OF demo_running_reachable s_degraded])
  obtain a where a: "find_attempt ?st ''a-t1'' = Some a" "a_node_id a = ''n1''" "a_status a = AttemptRunning"
    by (simp add: set_node_degraded_def find_attempt_def demo_running_eq sql_first_def new_attempt_def)
  obtain n where "find_node ?st ''n1'' = Some n" "n_status n \<noteq> NodeOnline"
    by (simp add: set_node_degraded_def find_node_def demo_running_eq sql_first_def demo_node_def)
  from silent_degraded_node_never_swept [OF r this a(1,2)] show ?thesis using a by (simp add: Let_def)
qed

end
