(* ===== verification/HaGate.thy ===== *)
theory HaGate
  imports Prelude
begin

text \<open>High availability, part 1: quorum arithmetic (\<open>ha/quorum.rs\<close>) and the write-fencing gate
  (\<open>ha/role.rs\<close>).  The gate's atomics become the fields of a record; the monotonic clock
  \<open>mono_ms()\<close> is an argument of the operations that read it.  The lemmas show that two
  majorities always share a voter, and that a write is admitted only under a live, unsuspended
  leadership.\<close>

section \<open>Quorum arithmetic\<close>

datatype rpo_mode = Snapshot | Async | Sync

record voter_set =
  vs_data :: nat
  vs_witnesses :: nat

definition total :: "voter_set \<Rightarrow> nat" where
  "total v = vs_data v + vs_witnesses v"

definition majority :: "voter_set \<Rightarrow> nat" where
  "majority v = total v div 2 + 1"

definition data_majority :: "voter_set \<Rightarrow> nat" where
  "data_majority v = vs_data v div 2 + 1"

definition election_won :: "voter_set \<Rightarrow> nat \<Rightarrow> nat \<Rightarrow> rpo_mode \<Rightarrow> bool" where
  "election_won v votes data_votes rpo \<longleftrightarrow>
     votes \<ge> majority v \<and> (rpo \<noteq> Sync \<or> data_votes \<ge> data_majority v)"

definition write_quorum_met :: "voter_set \<Rightarrow> nat \<Rightarrow> rpo_mode \<Rightarrow> bool" where
  "write_quorum_met v data_acks rpo \<longleftrightarrow> rpo \<noteq> Sync \<or> data_acks \<ge> data_majority v"

section \<open>The gate\<close>

datatype ha_role = Single | Standby | Leader | Witness

definition role_str :: "ha_role \<Rightarrow> string" where
  "role_str r = (case r of Single \<Rightarrow> ''single'' | Standby \<Rightarrow> ''standby'' | Leader \<Rightarrow> ''leader''
                 | Witness \<Rightarrow> ''witness'')"

record fenced_error =
  fe_role :: ha_role
  fe_epoch :: nat

record ha_gate =
  role :: ha_role
  epoch :: nat
  lease_until_ms :: nat
  fenced_writes :: nat
  admitted_writes :: nat
  writes_suspended :: bool

definition u64_max :: nat where
  "u64_max = 2 ^ 64 - 1"

definition gate_single :: ha_gate where
  "gate_single = \<lparr>role = Single, epoch = 0, lease_until_ms = u64_max, fenced_writes = 0,
     admitted_writes = 0, writes_suspended = False\<rparr>"

definition gate_new :: "ha_role \<Rightarrow> nat \<Rightarrow> ha_gate" where
  "gate_new r e = \<lparr>role = r, epoch = e, lease_until_ms = (if r = Single then u64_max else 0),
     fenced_writes = 0, admitted_writes = 0, writes_suspended = False\<rparr>"

definition is_leader :: "ha_gate \<Rightarrow> bool" where
  "is_leader g \<longleftrightarrow> role g = Single \<or> role g = Leader"

definition lease_deadline :: "nat \<Rightarrow> nat \<Rightarrow> nat" where
  "lease_deadline now ttl = min u64_max (now + min u64_max ttl)"

definition check_writable :: "nat \<Rightarrow> ha_gate \<Rightarrow> ha_gate \<times> (fenced_error + unit)" where
  "check_writable now g =
     (let ok = (case role g of
                  Single \<Rightarrow> True
                | Leader \<Rightarrow> now < lease_until_ms g
                | Standby \<Rightarrow> False | Witness \<Rightarrow> False) \<and> \<not> writes_suspended g
      in if ok then (g, Inr ())
         else (g\<lparr>fenced_writes := fenced_writes g + 1\<rparr>,
               Inl \<lparr>fe_role = role g, fe_epoch = epoch g\<rparr>))"

definition assert_writable :: "nat \<Rightarrow> ha_gate \<Rightarrow> ha_gate \<times> (fenced_error + unit)" where
  "assert_writable now g =
     (case check_writable now g of
        (g', Inl e) \<Rightarrow> (g', Inl e)
      | (g', Inr _) \<Rightarrow> (g'\<lparr>admitted_writes := admitted_writes g' + 1\<rparr>, Inr ()))"

definition assert_still_writable :: "nat \<Rightarrow> ha_gate \<Rightarrow> ha_gate \<times> (fenced_error + unit)" where
  "assert_still_writable now g = check_writable now g"

definition suspend_writes :: "ha_gate \<Rightarrow> ha_gate" where
  "suspend_writes g = g\<lparr>writes_suspended := True\<rparr>"

definition gate_promote :: "nat \<Rightarrow> nat \<Rightarrow> ha_gate \<Rightarrow> ha_gate" where
  "gate_promote e until g =
     g\<lparr>epoch := e, lease_until_ms := until, admitted_writes := 0, writes_suspended := False,
       role := Leader\<rparr>"

definition promote_for :: "nat \<Rightarrow> nat \<Rightarrow> nat \<Rightarrow> ha_gate \<Rightarrow> ha_gate" where
  "promote_for now e ttl g = gate_promote e (lease_deadline now ttl) g"

definition renew_lease :: "nat \<Rightarrow> ha_gate \<Rightarrow> ha_gate" where
  "renew_lease until g = g\<lparr>lease_until_ms := until\<rparr>"

definition renew_for :: "nat \<Rightarrow> nat \<Rightarrow> ha_gate \<Rightarrow> ha_gate" where
  "renew_for now ttl g = renew_lease (lease_deadline now ttl) g"

definition lease_live :: "nat \<Rightarrow> ha_gate \<Rightarrow> bool" where
  "lease_live now g \<longleftrightarrow> is_leader g \<and> (role g = Single \<or> now < lease_until_ms g)"

definition gate_demote :: "ha_gate \<Rightarrow> ha_gate" where
  "gate_demote g = g\<lparr>lease_until_ms := 0, role := Standby\<rparr>"

definition set_epoch :: "nat \<Rightarrow> ha_gate \<Rightarrow> ha_gate" where
  "set_epoch e g = g\<lparr>epoch := e\<rparr>"

definition note_fenced_write :: "ha_gate \<Rightarrow> ha_gate" where
  "note_fenced_write g = g\<lparr>fenced_writes := fenced_writes g + 1\<rparr>"

lemmas gate_defs = suspend_writes_def gate_promote_def promote_for_def renew_lease_def
  renew_for_def gate_demote_def set_epoch_def note_fenced_write_def assert_still_writable_def

text \<open>Every call the rest of the control plane makes on the gate, and a run of such calls.\<close>

datatype gate_call =
    CallPromote nat nat nat
  | CallRenew nat nat
  | CallDemote
  | CallSuspend
  | CallSetEpoch nat
  | CallAssert nat
  | CallStill nat
  | CallNoteFenced

fun apply_call :: "gate_call \<Rightarrow> ha_gate \<Rightarrow> ha_gate" where
  "apply_call (CallPromote now e ttl) g = promote_for now e ttl g"
| "apply_call (CallRenew now ttl) g = renew_for now ttl g"
| "apply_call CallDemote g = gate_demote g"
| "apply_call CallSuspend g = suspend_writes g"
| "apply_call (CallSetEpoch e) g = set_epoch e g"
| "apply_call (CallAssert now) g = fst (assert_writable now g)"
| "apply_call (CallStill now) g = fst (assert_still_writable now g)"
| "apply_call CallNoteFenced g = note_fenced_write g"

definition gate_run :: "gate_call list \<Rightarrow> ha_gate \<Rightarrow> ha_gate" where
  "gate_run cs g = fold apply_call cs g"

section \<open>Majorities intersect\<close>

text \<open>The interface an election needs from the quorum arithmetic: any two winning sets of voters
  of the same cluster share a voter.\<close>

locale quorum_system =
  fixes voters :: "'v set" and quorum :: "'v set \<Rightarrow> bool"
  assumes quorum_voters: "quorum S \<Longrightarrow> S \<subseteq> voters"
    and quorum_meet: "quorum S \<Longrightarrow> quorum T \<Longrightarrow> S \<inter> T \<noteq> {}"
begin

lemma one_winner:
  assumes "quorum S" "quorum T"
    and "\<And>v. v \<in> S \<Longrightarrow> vote v = Some a" "\<And>v. v \<in> T \<Longrightarrow> vote v = Some b"
  shows "a = b"
  using quorum_meet [OF assms(1,2)] assms(3,4) by fastforce

lemma quorum_nonempty:
  assumes "quorum S"
  shows "S \<noteq> {}"
  using quorum_meet [OF assms assms] by simp

end

lemma big_subsets_meet:
  assumes "finite V" "S \<subseteq> V" "T \<subseteq> V" "card V < card S + card T"
  shows "S \<inter> T \<noteq> {}"
proof
  assume "S \<inter> T = {}"
  then have "card (S \<union> T) = card S + card T"
    using assms by (intro card_Un_disjoint) (auto intro: finite_subset)
  moreover have "card (S \<union> T) \<le> card V"
    using assms by (intro card_mono) auto
  ultimately show False
    using assms(4) by simp
qed

definition voter_quorum :: "'v set \<Rightarrow> voter_set \<Rightarrow> 'v set \<Rightarrow> bool" where
  "voter_quorum V vs S \<longleftrightarrow> finite V \<and> card V = total vs \<and> S \<subseteq> V \<and> majority vs \<le> card S"

definition data_quorum :: "'v set \<Rightarrow> voter_set \<Rightarrow> 'v set \<Rightarrow> bool" where
  "data_quorum D vs S \<longleftrightarrow> finite D \<and> card D = vs_data vs \<and> S \<subseteq> D \<and> data_majority vs \<le> card S"

interpretation voters: quorum_system V "voter_quorum V vs" for V :: "'v set" and vs
proof unfold_locales
  fix S T :: "'v set"
  assume "voter_quorum V vs S" "voter_quorum V vs T"
  then show "S \<inter> T \<noteq> {}"
    unfolding voter_quorum_def majority_def by (intro big_subsets_meet [of V]) auto
qed (simp add: voter_quorum_def)

interpretation data: quorum_system D "data_quorum D vs" for D :: "'v set" and vs
proof unfold_locales
  fix S T :: "'v set"
  assume "data_quorum D vs S" "data_quorum D vs T"
  then show "S \<inter> T \<noteq> {}"
    unfolding data_quorum_def data_majority_def by (intro big_subsets_meet [of D]) auto
qed (simp add: data_quorum_def)

section \<open>What the gate admits\<close>

lemma check_writable_state [simp]:
  "fst (check_writable now g) = g \<or>
   fst (check_writable now g) = g\<lparr>fenced_writes := fenced_writes g + 1\<rparr>"
  by (simp add: check_writable_def Let_def)

definition writable :: "nat \<Rightarrow> ha_gate \<Rightarrow> bool" where
  "writable now g \<longleftrightarrow> \<not> writes_suspended g \<and>
     (role g = Single \<or> role g = Leader \<and> now < lease_until_ms g)"

lemma check_writable_iff:
  "snd (check_writable now g) = Inr () \<longleftrightarrow> writable now g"
  by (auto simp: check_writable_def Let_def writable_def split: ha_role.splits)

lemma check_writable_cases:
  "check_writable now g =
     (if writable now g then (g, Inr ())
      else (note_fenced_write g, Inl \<lparr>fe_role = role g, fe_epoch = epoch g\<rparr>))"
  by (auto simp: check_writable_def Let_def writable_def note_fenced_write_def
      split: ha_role.splits)

lemma assert_writable_cases:
  "assert_writable now g =
     (if writable now g then (g\<lparr>admitted_writes := admitted_writes g + 1\<rparr>, Inr ())
      else (note_fenced_write g, Inl \<lparr>fe_role = role g, fe_epoch = epoch g\<rparr>))"
  by (simp add: assert_writable_def check_writable_cases)

text \<open>The leadership a run of calls ends in: the deadline last written and the writes admitted since
  the last promotion, as long as neither a demotion nor a suspension followed it.\<close>

fun leadership :: "gate_call list \<Rightarrow> (nat \<times> nat) option \<Rightarrow> (nat \<times> nat) option" where
  "leadership [] l = l"
| "leadership (CallPromote now e ttl # cs) l = leadership cs (Some (lease_deadline now ttl, 0))"
| "leadership (CallRenew now ttl # cs) l =
     leadership cs (map_option (\<lambda>(_, n). (lease_deadline now ttl, n)) l)"
| "leadership (CallDemote # cs) l = leadership cs None"
| "leadership (CallSuspend # cs) l = leadership cs None"
| "leadership (CallAssert now # cs) l =
     leadership cs (map_option (\<lambda>(d, n). (d, if now < d then n + 1 else n)) l)"
| "leadership (CallSetEpoch e # cs) l = leadership cs l"
| "leadership (CallStill now # cs) l = leadership cs l"
| "leadership (CallNoteFenced # cs) l = leadership cs l"

definition gate_agrees :: "ha_gate \<Rightarrow> (nat \<times> nat) option \<Rightarrow> bool" where
  "gate_agrees g l \<longleftrightarrow> role g \<noteq> Single \<and>
     (case l of
        None \<Rightarrow> role g \<noteq> Leader \<or> writes_suspended g
      | Some (d, n) \<Rightarrow> role g = Leader \<and> \<not> writes_suspended g \<and> lease_until_ms g = d \<and>
                      admitted_writes g = n)"

lemma gate_agrees_call:
  assumes "gate_agrees g l"
  shows "gate_agrees (apply_call c g) (leadership [c] l)"
  using assms
  by (cases c)
     (auto simp: gate_agrees_def gate_defs check_writable_cases assert_writable_cases writable_def
        split: option.splits)

lemma leadership_Cons: "leadership (c # cs) l = leadership cs (leadership [c] l)"
  by (cases c) simp_all

lemma gate_agrees_run:
  "gate_agrees g l \<Longrightarrow> gate_agrees (gate_run cs g) (leadership cs l)"
proof (induction cs arbitrary: g l)
  case (Cons c cs)
  then show ?case
    using Cons.IH [OF gate_agrees_call [OF Cons.prems]]
    by (simp add: gate_run_def leadership_Cons [of c cs])
qed (simp add: gate_run_def)

text \<open>C37: After any sequence of calls on a clustered gate, a write is admitted exactly when the node
  was promoted, has neither been demoted nor had its writes suspended since, and the deadline the
  last promotion or renewal set is still ahead; the counter of admitted writes is the number
  admitted in this leadership.  A refused write reports the role and epoch and is counted.\<close>

theorem write_needs_live_leadership:
  assumes "r \<noteq> Single" and "r \<noteq> Leader" and "g = gate_run cs (gate_new r e)"
  shows "(snd (assert_writable now g) = Inr () \<longleftrightarrow>
            (\<exists>d n. leadership cs None = Some (d, n) \<and> now < d)) \<and>
         (\<forall>d n. leadership cs None = Some (d, n) \<longrightarrow>
            role g = Leader \<and> admitted_writes g = n) \<and>
         (\<forall>err. snd (assert_writable now g) = Inl err \<longrightarrow>
            err = \<lparr>fe_role = role g, fe_epoch = epoch g\<rparr> \<and>
            fenced_writes (fst (assert_writable now g)) = fenced_writes g + 1)"
proof (intro conjI allI impI)
  have ok: "gate_agrees g (leadership cs None)"
    unfolding assms(3) using assms(1,2)
    by (intro gate_agrees_run) (simp add: gate_agrees_def gate_new_def)
  then show "snd (assert_writable now g) = Inr () \<longleftrightarrow>
           (\<exists>d n. leadership cs None = Some (d, n) \<and> now < d)"
    by (auto simp: assert_writable_cases writable_def gate_agrees_def split: option.splits)
  fix d n
  assume "leadership cs None = Some (d, n)"
  with ok show "role g = Leader" "admitted_writes g = n"
    by (simp_all add: gate_agrees_def)
qed (simp_all add: assert_writable_cases note_fenced_write_def split: if_splits)

theorem write_needs_live_leadership_witness:
  "snd (assert_writable 5 (gate_run [CallPromote 0 1 10, CallAssert 3] (gate_new Standby 0))) = Inr () \<and>
   admitted_writes (gate_run [CallPromote 0 1 10, CallAssert 3] (gate_new Standby 0)) = 1"
  using write_needs_live_leadership
      [of Standby _ "[CallPromote 0 1 10, CallAssert 3]" 0 5, OF _ _ refl]
  by (simp add: lease_deadline_def u64_max_def)

end
