(* ===== verification/HaConfig.thy ===== *)
theory HaConfig
  imports HaGate
begin

text \<open>High availability, part 2: the cluster configuration (\<open>ha/config.rs\<close>).  The environment is
  a map from variable names to values, the host name and the compile-time feature
  \<open>ha-incremental\<close> are arguments, and every \<open>bail!\<close> is an error value.  Durations are in
  milliseconds.  The property shown is the well-formedness of every accepted configuration, which
  the election argument of \<open>HaCluster\<close> starts from.\<close>

datatype node_role = DataRole | WitnessRole

datatype ha_mode = SingleMode | HaMode

datatype repl_backend = Peer | S3

datatype artifact_sync = Eager | OnRead

record ha_peer =
  peer_id :: string
  peer_url :: string

record s3_config =
  s3_endpoint :: string
  s3_bucket :: string
  s3_region :: string
  s3_prefix :: string
  s3_access_key :: string
  s3_secret_key :: string

record ha_config =
  mode :: ha_mode
  topology_role :: node_role
  node_id :: string
  cluster_id :: string
  cluster_token :: string
  advertise_url :: string
  peers :: "ha_peer list"
  witnesses :: "ha_peer list"
  rpo :: rpo_mode
  backend :: repl_backend
  s3 :: "s3_config option"
  snapshot_interval :: nat
  async_max_lag :: nat
  lease_ttl :: nat
  election_timeout :: nat
  apply_timeout :: nat
  artifact_sync_mode :: artifact_sync
  jwt_secret_file :: "string option"
  secret_fetch :: bool
  witness_dir :: string
  allow_plaintext :: bool
  max_changeset_bytes :: nat
  changeset_retention :: nat
  data_replicas :: nat
  witnesses_count :: nat

datatype config_error =
    UnknownValue string string
  | InvalidId string
  | Missing string
  | ShortToken
  | InvalidUrl string
  | PeerSyntax string
  | DuplicatePeer string
  | NotInteger string
  | OutOfRange string nat
  | TimeoutNotBelowLease
  | TooFewReplicas nat
  | NeedsWitness
  | NeedsIncremental
  | RetentionTooLarge nat

definition MIN_CLUSTER_TOKEN_BYTES :: nat where
  "MIN_CLUSTER_TOKEN_BYTES = 32"

definition id_char :: "char \<Rightarrow> bool" where
  "id_char c \<longleftrightarrow> ascii_lower c \<or> is_digit c \<or> c = CHR ''-''"

definition validate_id :: "string \<Rightarrow> string \<Rightarrow> config_error + unit" where
  "validate_id key i =
     (if i = [] \<or> length i > 32 \<or> \<not> list_all id_char i then Inl (InvalidId i) else Inr ())"

definition trim_end_slash :: "string \<Rightarrow> string" where
  "trim_end_slash s = rev (dropWhile (\<lambda>c. c = CHR ''/'') (rev s))"

definition trim_dashes :: "string \<Rightarrow> string" where
  "trim_dashes s =
     rev (dropWhile (\<lambda>c. c = CHR ''-'') (rev (dropWhile (\<lambda>c. c = CHR ''-'') s)))"

definition default_node_id :: "string \<Rightarrow> string" where
  "default_node_id raw =
     (let i = trim_dashes (take 32
                (map (\<lambda>c. if id_char c then c else CHR ''-'') (to_ascii_lowercase (trim raw))))
      in if i = [] then ''cp-node'' else i)"

definition validate_url :: "string \<Rightarrow> string \<Rightarrow> bool \<Rightarrow> config_error + string" where
  "validate_url key url plaintext =
     (if starts_with url ''https://'' \<or> plaintext \<and> starts_with url ''http://''
      then Inr (trim_end_slash url) else Inl (InvalidUrl url))"

definition get :: "(string \<rightharpoonup> string) \<Rightarrow> string \<Rightarrow> string option" where
  "get m key = (case m key of None \<Rightarrow> None
                | Some v \<Rightarrow> if trim v = [] then None else Some (trim v))"

definition required :: "(string \<rightharpoonup> string) \<Rightarrow> string \<Rightarrow> config_error + string" where
  "required m key = (case get m key of None \<Rightarrow> Inl (Missing key) | Some v \<Rightarrow> Inr v)"

definition ranged :: "(string \<rightharpoonup> string) \<Rightarrow> string \<Rightarrow> nat \<Rightarrow> nat \<Rightarrow> nat \<Rightarrow> config_error + nat" where
  "ranged m key dflt lo hi =
     try_bind (case get m key of
                 None \<Rightarrow> Inr dflt
               | Some v \<Rightarrow> (case parse_u64 v of None \<Rightarrow> Inl (NotInteger key) | Some n \<Rightarrow> Inr n))
       (\<lambda>v. if lo \<le> v \<and> v \<le> hi then Inr v else Inl (OutOfRange key v))"

definition env_secs :: "(string \<rightharpoonup> string) \<Rightarrow> string \<Rightarrow> nat \<Rightarrow> nat \<Rightarrow> nat \<Rightarrow> config_error + nat" where
  "env_secs m key dflt lo hi = try_bind (ranged m key dflt lo hi) (\<lambda>v. Inr (v * 1000))"

definition env_ms :: "(string \<rightharpoonup> string) \<Rightarrow> string \<Rightarrow> nat \<Rightarrow> nat \<Rightarrow> nat \<Rightarrow> config_error + nat" where
  "env_ms m key dflt lo hi = ranged m key dflt lo hi"

fun parse_peer_items :: "string list \<Rightarrow> config_error + ha_peer list" where
  "parse_peer_items [] = Inr []"
| "parse_peer_items (item # items) =
     (case split_once (CHR ''@'') item of
        None \<Rightarrow> Inl (PeerSyntax item)
      | Some (i, url) \<Rightarrow>
          try_bind (parse_peer_items items)
            (\<lambda>ps. Inr (\<lparr>peer_id = trim i, peer_url = trim_end_slash (trim url)\<rparr> # ps)))"

definition parse_peers :: "string option \<Rightarrow> config_error + ha_peer list" where
  "parse_peers raw =
     (case raw of
        None \<Rightarrow> Inr []
      | Some r \<Rightarrow> parse_peer_items (filter (\<lambda>s. s \<noteq> []) (map trim (split_on (CHR '','') r))))"

fun validate_peers :: "bool \<Rightarrow> string list \<Rightarrow> ha_peer list \<Rightarrow> config_error + unit" where
  "validate_peers plaintext seen [] = Inr ()"
| "validate_peers plaintext seen (p # ps) =
     try_bind (validate_id ''HA peer id'' (peer_id p)) (\<lambda>_.
     try_bind (validate_url ''HA peer url'' (peer_url p) plaintext) (\<lambda>_.
     if peer_id p \<in> set seen then Inl (DuplicatePeer (peer_id p))
     else validate_peers plaintext (peer_id p # seen) ps))"

definition one_of :: "(string \<rightharpoonup> string) \<Rightarrow> string \<Rightarrow> 'a \<Rightarrow> (string \<times> 'a) list \<Rightarrow> config_error + 'a" where
  "one_of m key dflt alts =
     (case get m key of
        None \<Rightarrow> Inr dflt
      | Some v \<Rightarrow> (case map_of alts v of None \<Rightarrow> Inl (UnknownValue key v) | Some a \<Rightarrow> Inr a))"

definition parse_s3 :: "(string \<rightharpoonup> string) \<Rightarrow> repl_backend \<Rightarrow> config_error + s3_config option" where
  "parse_s3 m b =
     (if b = S3 then
        try_bind (required m ''AGENTGRID_HA_S3_ENDPOINT'') (\<lambda>e.
        try_bind (required m ''AGENTGRID_HA_S3_BUCKET'') (\<lambda>bu.
        try_bind (required m ''AGENTGRID_HA_S3_ACCESS_KEY'') (\<lambda>ak.
        try_bind (required m ''AGENTGRID_HA_S3_SECRET_KEY'') (\<lambda>sk.
        Inr (Some \<lparr>s3_endpoint = e, s3_bucket = bu,
          s3_region = (case get m ''AGENTGRID_HA_S3_REGION'' of None \<Rightarrow> ''us-east-1'' | Some r \<Rightarrow> r),
          s3_prefix = (case get m ''AGENTGRID_HA_S3_PREFIX'' of None \<Rightarrow> [] | Some r \<Rightarrow> r),
          s3_access_key = ak, s3_secret_key = sk\<rparr>)))))
      else Inr None)"

definition parse_or :: "(string \<rightharpoonup> string) \<Rightarrow> string \<Rightarrow> nat \<Rightarrow> config_error + nat" where
  "parse_or m key dflt =
     (case get m key of
        None \<Rightarrow> Inr dflt
      | Some v \<Rightarrow> (case parse_u64 v of None \<Rightarrow> Inl (NotInteger key) | Some n \<Rightarrow> Inr n))"

definition single_config :: "string \<Rightarrow> ha_config" where
  "single_config hostname =
     \<lparr>mode = SingleMode, topology_role = DataRole, node_id = default_node_id hostname,
      cluster_id = [], cluster_token = [], advertise_url = [], peers = [], witnesses = [],
      rpo = Snapshot, backend = Peer, s3 = None, snapshot_interval = 60000,
      async_max_lag = 5000, lease_ttl = 10000, election_timeout = 1500, apply_timeout = 300000,
      artifact_sync_mode = Eager, jwt_secret_file = None, secret_fetch = False,
      witness_dir = ''/var/lib/agentgrid/witness'', allow_plaintext = False,
      max_changeset_bytes = 8 * 1024 * 1024, changeset_retention = 256, data_replicas = 1,
      witnesses_count = 0\<rparr>"

definition check_topology :: "bool \<Rightarrow> rpo_mode \<Rightarrow> nat \<Rightarrow> nat \<Rightarrow> config_error + unit" where
  "check_topology incremental rpo_mode replicas wits =
     (if replicas < 2 then Inl (TooFewReplicas replicas)
      else if replicas = 2 \<and> wits = 0 then Inl NeedsWitness
      else if rpo_mode \<noteq> Snapshot \<and> \<not> incremental then Inl NeedsIncremental
      else Inr ())"

definition ha_from_map :: "string \<Rightarrow> bool \<Rightarrow> (string \<rightharpoonup> string) \<Rightarrow> config_error + ha_config" where
  "ha_from_map hostname incremental m =
       (try_bind (one_of m ''AGENTGRID_HA_MODE'' SingleMode [(''ha'', HaMode)]) (\<lambda>md.
        try_bind (one_of m ''AGENTGRID_HA_ROLE'' DataRole
                    [(''data'', DataRole), (''witness'', WitnessRole)]) (\<lambda>rl.
        let nid = (case get m ''AGENTGRID_HA_NODE_ID'' of
                     None \<Rightarrow> default_node_id hostname | Some i \<Rightarrow> i) in
        try_bind (validate_id ''AGENTGRID_HA_NODE_ID'' nid) (\<lambda>_.
        try_bind (required m ''AGENTGRID_HA_CLUSTER_ID'') (\<lambda>cid.
        try_bind (required m ''AGENTGRID_HA_CLUSTER_TOKEN'') (\<lambda>tok.
        if length tok < MIN_CLUSTER_TOKEN_BYTES then Inl ShortToken else
        let plain = (get m ''AGENTGRID_HA_ALLOW_PLAINTEXT'' = Some ''1'') in
        try_bind (required m ''AGENTGRID_HA_ADVERTISE_URL'') (\<lambda>raw_url.
        try_bind (validate_url ''AGENTGRID_HA_ADVERTISE_URL'' raw_url plain) (\<lambda>url.
        try_bind (parse_peers (m ''AGENTGRID_HA_PEERS'')) (\<lambda>ps.
        try_bind (parse_peers (m ''AGENTGRID_HA_WITNESSES'')) (\<lambda>ws.
        try_bind (validate_peers plain [nid] (ps @ ws)) (\<lambda>_.
        try_bind (one_of m ''AGENTGRID_HA_RPO_MODE'' Snapshot
                    [(''snapshot'', Snapshot), (''async'', Async), (''sync'', Sync)]) (\<lambda>rpo_mode.
        try_bind (one_of m ''AGENTGRID_HA_REPL_BACKEND'' Peer
                    [(''peer'', Peer), (''s3'', S3)]) (\<lambda>b.
        try_bind (parse_s3 m b) (\<lambda>s3c.
        try_bind (env_secs m ''AGENTGRID_HA_LEASE_TTL_SECS'' 10 3 30) (\<lambda>ttl.
        try_bind (env_ms m ''AGENTGRID_HA_ELECTION_TIMEOUT_MS'' 1500 500 5000) (\<lambda>eto.
        if eto \<ge> ttl then Inl TimeoutNotBelowLease else
        try_bind (one_of m ''AGENTGRID_HA_ARTIFACT_SYNC'' Eager
                    [(''eager'', Eager), (''on_read'', OnRead)]) (\<lambda>asy.
        let replicas = length ps + (if rl = DataRole then 1 else 0);
            wits = length ws + (if rl = WitnessRole then 1 else 0) in
        try_bind (check_topology incremental rpo_mode replicas wits) (\<lambda>_.
        try_bind (parse_or m ''AGENTGRID_HA_MAX_CHANGESET_MB'' 8) (\<lambda>mb.
        try_bind (parse_or m ''AGENTGRID_HA_CHANGESET_RETENTION'' 256) (\<lambda>ret.
        if ret > 1000000 then Inl (RetentionTooLarge ret) else
        try_bind (env_secs m ''AGENTGRID_HA_SNAPSHOT_INTERVAL_SECS'' 60 10 3600) (\<lambda>si.
        try_bind (env_ms m ''AGENTGRID_HA_ASYNC_MAX_LAG_MS'' 5000 500 60000) (\<lambda>lag.
        try_bind (env_secs m ''AGENTGRID_HA_APPLY_TIMEOUT_SECS'' 300 10 3600) (\<lambda>apt.
        Inr \<lparr>mode = md, topology_role = rl, node_id = nid, cluster_id = cid, cluster_token = tok,
             advertise_url = url, peers = ps, witnesses = ws, rpo = rpo_mode, backend = b,
             s3 = s3c, snapshot_interval = si, async_max_lag = lag, lease_ttl = ttl,
             election_timeout = eto, apply_timeout = apt, artifact_sync_mode = asy,
             jwt_secret_file = get m ''AGENTGRID_HA_JWT_SECRET_FILE'',
             secret_fetch = (get m ''AGENTGRID_HA_SECRET_FETCH'' = Some ''1''),
             witness_dir = (case get m ''AGENTGRID_HA_WITNESS_DIR'' of
                              None \<Rightarrow> ''/var/lib/agentgrid/witness'' | Some d \<Rightarrow> d),
             allow_plaintext = plain,
             max_changeset_bytes = min u64_max (mb * (1024 * 1024)),
             changeset_retention = ret, data_replicas = replicas, witnesses_count = wits\<rparr>)))))))))))))))))))))))"

definition from_map :: "string \<Rightarrow> bool \<Rightarrow> (string \<rightharpoonup> string) \<Rightarrow> config_error + ha_config" where
  "from_map hostname incremental m =
     (if get m ''AGENTGRID_HA_MODE'' = None \<or> get m ''AGENTGRID_HA_MODE'' = Some ''single''
      then Inr (single_config hostname) else ha_from_map hostname incremental m)"

definition voters :: "ha_config \<Rightarrow> ha_peer list" where
  "voters cfg = peers cfg @ witnesses cfg"

definition voter_set_of :: "ha_config \<Rightarrow> voter_set" where
  "voter_set_of cfg = \<lparr>vs_data = data_replicas cfg, vs_witnesses = witnesses_count cfg\<rparr>"

section \<open>Accepted configurations are well formed\<close>

lemma validate_id_ok: "validate_id key i = Inr u \<longleftrightarrow> i \<noteq> [] \<and> length i \<le> 32 \<and> list_all id_char i"
  by (auto simp: validate_id_def)

lemma validate_url_ok:
  "validate_url key url plaintext = Inr u \<longleftrightarrow>
     u = trim_end_slash url \<and>
     (starts_with url ''https://'' \<or> plaintext \<and> starts_with url ''http://'')"
  by (auto simp: validate_url_def)

lemma validate_peers_ok:
  "validate_peers plaintext seen ps = Inr u \<longleftrightarrow>
     distinct (map peer_id ps) \<and> set (map peer_id ps) \<inter> set seen = {} \<and>
     (\<forall>p \<in> set ps. validate_id ''HA peer id'' (peer_id p) = Inr () \<and>
        (starts_with (peer_url p) ''https://'' \<or> plaintext \<and> starts_with (peer_url p) ''http://''))"
proof (induction ps arbitrary: seen)
  case (Cons p ps)
  have "validate_peers plaintext seen (p # ps) = Inr u \<longleftrightarrow>
      validate_id ''HA peer id'' (peer_id p) = Inr () \<and>
      (starts_with (peer_url p) ''https://'' \<or> plaintext \<and> starts_with (peer_url p) ''http://'') \<and>
      peer_id p \<notin> set seen \<and> validate_peers plaintext (peer_id p # seen) ps = Inr u"
    by (auto simp: try_bind_eq_Inr validate_url_ok)
  then show ?case
    unfolding Cons.IH by auto
qed simp

lemma env_secs_ok: "env_secs m key dflt lo hi = Inr v \<Longrightarrow> lo * 1000 \<le> v \<and> v \<le> hi * 1000"
  by (auto simp: env_secs_def ranged_def try_bind_eq_Inr split: if_splits)

lemma env_ms_ok: "env_ms m key dflt lo hi = Inr v \<Longrightarrow> lo \<le> v \<and> v \<le> hi"
  by (auto simp: env_ms_def ranged_def try_bind_eq_Inr split: if_splits)

definition topology_wf :: "ha_config \<Rightarrow> bool" where
  "topology_wf cfg \<longleftrightarrow>
     distinct (node_id cfg # map peer_id (voters cfg)) \<and>
     data_replicas cfg = length (peers cfg) + (if topology_role cfg = DataRole then 1 else 0) \<and>
     witnesses_count cfg = length (witnesses cfg) + (if topology_role cfg = WitnessRole then 1 else 0) \<and>
     2 \<le> data_replicas cfg \<and> majority (voter_set_of cfg) < total (voter_set_of cfg)"

lemma majority_below_total: "2 < total vs \<Longrightarrow> majority vs < total vs"
  by (simp add: majority_def)

lemma check_topology_ok:
  "check_topology inc r d w = Inr u \<Longrightarrow> 2 \<le> d \<and> 2 < d + w \<and> (r \<noteq> Snapshot \<longrightarrow> inc)"
  by (auto simp: check_topology_def split: if_splits)

text \<open>The guards of \<open>from_map\<close> that the other facts rest on, extracted once.\<close>

lemma if_Inl_eq_Inr [simp]: "(if c then Inl e else x) = Inr b \<longleftrightarrow> \<not> c \<and> x = Inr b"
  by simp

lemma parse_s3_ok: "parse_s3 m b = Inr c \<Longrightarrow> b = S3 \<longleftrightarrow> c \<noteq> None"
  by (auto simp: parse_s3_def try_bind_eq_Inr split: if_splits)

definition guards_met :: "bool \<Rightarrow> ha_config \<Rightarrow> bool" where
  "guards_met inc cfg \<longleftrightarrow>
     validate_id ''AGENTGRID_HA_NODE_ID'' (node_id cfg) = Inr () \<and>
     validate_peers (allow_plaintext cfg) [node_id cfg] (peers cfg @ witnesses cfg) = Inr () \<and>
     check_topology inc (rpo cfg) (data_replicas cfg) (witnesses_count cfg) = Inr () \<and>
     32 \<le> length (cluster_token cfg) \<and>
     election_timeout cfg < lease_ttl cfg \<and> lease_ttl cfg \<le> 30000 \<and>
     data_replicas cfg = length (peers cfg) + (if topology_role cfg = DataRole then 1 else 0) \<and>
     witnesses_count cfg =
       length (witnesses cfg) + (if topology_role cfg = WitnessRole then 1 else 0) \<and>
     (backend cfg = S3 \<longleftrightarrow> s3 cfg \<noteq> None)"

lemma from_map_guards:
  assumes "from_map h inc m = Inr cfg" "mode cfg = HaMode"
  shows "guards_met inc cfg"
proof -
  have "ha_from_map h inc m = Inr cfg"
    using assms by (auto simp: from_map_def single_config_def split: if_splits)
  then show ?thesis
    unfolding ha_from_map_def Let_def try_bind_eq_Inr if_Inl_eq_Inr MIN_CLUSTER_TOKEN_BYTES_def
    apply (elim exE conjE)
    apply (drule env_secs_ok [where hi = 30])
    apply (drule parse_s3_ok)
    apply (simp only: sum.inject)
    apply hypsubst
    apply (simp add: guards_met_def)
    done
qed

text \<open>C38: Every configuration the parser accepts in HA mode is well formed: the voter ids (this node's
  and every peer's and witness's) are pairwise distinct and valid, the replica and witness counts
  are exactly those voters, there are at least two data replicas and enough voters that any one
  host may be lost without losing the majority, the election timeout is below the lease, the token
  has at least 32 bytes, incremental modes need the incremental build, and peer URLs are https
  unless plaintext was allowed.\<close>

theorem accepted_config_wf:
  assumes "from_map hostname incremental m = Inr cfg" and "mode cfg = HaMode"
  shows "topology_wf cfg \<and>
         (\<forall>i \<in> set (node_id cfg # map peer_id (voters cfg)).
            i \<noteq> [] \<and> length i \<le> 32 \<and> list_all id_char i) \<and>
         election_timeout cfg < lease_ttl cfg \<and> lease_ttl cfg \<le> 30000 \<and>
         32 \<le> length (cluster_token cfg) \<and>
         (rpo cfg \<noteq> Snapshot \<longrightarrow> incremental) \<and>
         (backend cfg = S3 \<longleftrightarrow> s3 cfg \<noteq> None) \<and>
         (\<forall>p \<in> set (voters cfg). \<not> allow_plaintext cfg \<longrightarrow> starts_with (peer_url p) ''https://'')"
proof -
  have g: "guards_met incremental cfg"
    by (rule from_map_guards [OF assms])
  have top: "2 \<le> data_replicas cfg \<and> 2 < data_replicas cfg + witnesses_count cfg \<and>
      (rpo cfg \<noteq> Snapshot \<longrightarrow> incremental)"
    using check_topology_ok g unfolding guards_met_def by blast
  have "topology_wf cfg"
    unfolding topology_wf_def
    using g top majority_below_total [of "voter_set_of cfg"]
    by (auto simp: guards_met_def validate_peers_ok voters_def voter_set_of_def total_def)
  then show ?thesis
    using g top by (auto simp: guards_met_def validate_peers_ok validate_id_ok voters_def)
qed

definition ha_demo_env :: "string \<rightharpoonup> string" where
  "ha_demo_env = map_of
     [(''AGENTGRID_HA_MODE'', ''ha''), (''AGENTGRID_HA_NODE_ID'', ''cp-a''),
      (''AGENTGRID_HA_CLUSTER_ID'', ''prod''),
      (''AGENTGRID_HA_CLUSTER_TOKEN'', ''0123456789abcdef0123456789abcdef''),
      (''AGENTGRID_HA_ADVERTISE_URL'', ''https://cp-a.example:7800''),
      (''AGENTGRID_HA_PEERS'', ''cp-b@https://b, cp-c@https://c/'')]"

definition demo_config :: ha_config where
  "demo_config = (case from_map ''host'' False ha_demo_env of Inr c \<Rightarrow> c | Inl _ \<Rightarrow> single_config ''host'')"

lemmas config_eval = ha_demo_env_def get_def trim_def trim_start_def trim_end_def is_ws_def one_of_def
  required_def validate_id_def validate_url_def parse_peers_def parse_s3_def env_secs_def env_ms_def
  ranged_def parse_or_def check_topology_def MIN_CLUSTER_TOKEN_BYTES_def id_char_def is_digit_def
  ascii_lower_def starts_with_def trim_end_slash_def u64_max_def

lemma demo_parsed: "\<exists>c. ha_from_map ''host'' False ha_demo_env = Inr c \<and> mode c = HaMode"
  by (simp add: ha_from_map_def config_eval)

lemma demo_config_parsed: "from_map ''host'' False ha_demo_env = Inr demo_config" "mode demo_config = HaMode"
proof -
  have "from_map ''host'' False ha_demo_env = ha_from_map ''host'' False ha_demo_env"
    by (simp add: from_map_def config_eval)
  then show "from_map ''host'' False ha_demo_env = Inr demo_config" "mode demo_config = HaMode"
    using demo_parsed by (auto simp: demo_config_def)
qed

theorem accepted_config_wf_witness:
  "from_map ''host'' False ha_demo_env = Inr demo_config \<and> mode demo_config = HaMode \<and>
   topology_wf demo_config"
  using accepted_config_wf [OF demo_config_parsed] demo_config_parsed by blast

end
