(* ===== verification/HaRepl.thy ===== *)
theory HaRepl
  imports HaConfig
begin

text \<open>High availability, part 3: one replica's state and the replication of its database
  (\<open>ha/shared.rs\<close>, \<open>ha/state_file.rs\<close>, \<open>store/ha.rs\<close>, \<open>ha/incremental.rs\<close>, the snapshot
  decisions of \<open>ha/snapshot.rs\<close>, the changeset route of \<open>ha/routes.rs\<close>, and the fenced write
  transaction of \<open>store.rs\<close>).

  The SQLite session extension is outside the program: applying and inverting a changeset are the
  fields \<open>apply_raw\<close> and \<open>invert_changeset\<close> of an environment record, over a database content of
  any type.  Sequence numbers, terms and epochs are naturals; the code keeps them in 64-bit columns
  that a cluster counts up from zero.\<close>

section \<open>State\<close>

record leader_info =
  li_id :: string
  li_url :: string

record peer_seen =
  last_ok_unix :: "int option"
  last_attempt_unix :: int
  ps_ok :: bool
  ps_applied_seq :: "nat option"
  consecutive_failures :: nat

record persisted_vote =
  pv_term :: nat
  pv_voted_for :: "string option"

record ha_shared =
  sh_term :: nat
  sh_voted_for :: "string option"
  sh_vote_path :: "string option"
  sh_leader :: "leader_info option"
  sh_last_contact_ms :: nat
  sh_applied_seq :: nat
  sh_snapshot_id :: "string option"
  sh_snapshot_seq :: nat
  sh_snapshot_created_unix :: int
  sh_last_replicated_seq :: nat
  sh_need_full_snapshot :: bool
  sh_snapshot_request :: bool
  sh_replication_lost :: bool
  sh_peers_seen :: "string \<rightharpoonup> peer_seen"

text \<open>The single row of \<open>ha_cluster_state\<close>, the rest of the database, and the highest migration.\<close>

record ha_row =
  row_epoch :: nat
  row_term :: nat
  row_leader_id :: string
  row_repl_seq :: nat

record 'db ha_store =
  ha_row :: "ha_row option"
  content :: 'db
  schema_version :: int

record rewind_buffer =
  entries :: "(nat \<times> string) list"
  buffered_bytes :: nat
  floor :: "nat option"

record 'db ha_node =
  config :: ha_config
  gate :: ha_gate
  shared :: ha_shared
  store :: "'db ha_store"
  replicator :: "rewind_buffer option"
  vote_file :: "persisted_vote option"

text \<open>What a step reads from outside: the monotonic and the wall clock, whether each of the (at most
  two) writes of the vote file it makes succeeds, whether the rewind finishes within its budget,
  and the SQLite session extension.\<close>

record 'db ha_env =
  now_ms :: nat
  now_unix :: int
  save_ok :: bool
  save_ok2 :: bool
  rewind_in_time :: bool
  apply_raw :: "'db \<Rightarrow> string \<Rightarrow> 'db option"
  invert_changeset :: "string \<Rightarrow> string option"

section \<open>Shared consensus state\<close>

definition shared_default :: "nat \<Rightarrow> ha_shared" where
  "shared_default now =
     \<lparr>sh_term = 0, sh_voted_for = None, sh_vote_path = None, sh_leader = None,
      sh_last_contact_ms = now, sh_applied_seq = 0, sh_snapshot_id = None, sh_snapshot_seq = 0,
      sh_snapshot_created_unix = 0, sh_last_replicated_seq = 0, sh_need_full_snapshot = False,
      sh_snapshot_request = False, sh_replication_lost = False, sh_peers_seen = Map.empty\<rparr>"

definition upd_shared :: "(ha_shared \<Rightarrow> ha_shared) \<Rightarrow> 'db ha_node \<Rightarrow> 'db ha_node" where
  "upd_shared f n = n\<lparr>shared := f (shared n)\<rparr>"

definition upd_gate :: "(ha_gate \<Rightarrow> ha_gate) \<Rightarrow> 'db ha_node \<Rightarrow> 'db ha_node" where
  "upd_gate f n = n\<lparr>gate := f (gate n)\<rparr>"

text \<open>\<open>state_file::load\<close>: a missing or unreadable file is the default vote.\<close>

definition load_vote :: "persisted_vote option \<Rightarrow> persisted_vote" where
  "load_vote f = (case f of None \<Rightarrow> \<lparr>pv_term = 0, pv_voted_for = None\<rparr> | Some v \<Rightarrow> v)"

text \<open>\<open>persist_vote\<close> replaces the file atomically, so a failed save leaves the old one.\<close>

definition persist_vote :: "bool \<Rightarrow> 'db ha_node \<Rightarrow> 'db ha_node \<times> bool" where
  "persist_vote ok n =
     (if sh_vote_path (shared n) = None then (n, True)
      else if ok then (n\<lparr>vote_file := Some \<lparr>pv_term = sh_term (shared n),
                         pv_voted_for = sh_voted_for (shared n)\<rparr>\<rparr>, True)
      else (n, False))"

definition set_term_and_vote :: "bool \<Rightarrow> nat \<Rightarrow> string option \<Rightarrow> 'db ha_node \<Rightarrow> 'db ha_node \<times> bool" where
  "set_term_and_vote ok t vote n =
     persist_vote ok (upd_shared (\<lambda>s. s\<lparr>sh_term := t, sh_voted_for := vote\<rparr>) n)"

definition set_leader :: "string \<Rightarrow> string \<Rightarrow> 'db ha_node \<Rightarrow> 'db ha_node" where
  "set_leader i url = upd_shared (\<lambda>s. s\<lparr>sh_leader := Some \<lparr>li_id = i, li_url = url\<rparr>\<rparr>)"

definition clear_leader :: "'db ha_node \<Rightarrow> 'db ha_node" where
  "clear_leader = upd_shared (\<lambda>s. s\<lparr>sh_leader := None\<rparr>)"

definition touch_leader :: "nat \<Rightarrow> 'db ha_node \<Rightarrow> 'db ha_node" where
  "touch_leader now = upd_shared (\<lambda>s. s\<lparr>sh_last_contact_ms := now\<rparr>)"

definition set_applied_seq :: "nat \<Rightarrow> 'db ha_node \<Rightarrow> 'db ha_node" where
  "set_applied_seq seq = upd_shared (\<lambda>s. s\<lparr>sh_applied_seq := seq\<rparr>)"

definition advance_last_replicated_seq :: "nat \<Rightarrow> 'db ha_node \<Rightarrow> 'db ha_node" where
  "advance_last_replicated_seq seq =
     upd_shared (\<lambda>s. s\<lparr>sh_last_replicated_seq := max (sh_last_replicated_seq s) seq\<rparr>)"

definition set_need_full_snapshot :: "'db ha_node \<Rightarrow> 'db ha_node" where
  "set_need_full_snapshot = upd_shared (\<lambda>s. s\<lparr>sh_need_full_snapshot := True\<rparr>)"

definition clear_need_full_snapshot :: "'db ha_node \<Rightarrow> 'db ha_node" where
  "clear_need_full_snapshot = upd_shared (\<lambda>s. s\<lparr>sh_need_full_snapshot := False\<rparr>)"

definition request_snapshot :: "'db ha_node \<Rightarrow> 'db ha_node" where
  "request_snapshot = upd_shared (\<lambda>s. s\<lparr>sh_snapshot_request := True\<rparr>)"

definition set_replication_lost :: "'db ha_node \<Rightarrow> 'db ha_node" where
  "set_replication_lost = upd_shared (\<lambda>s. s\<lparr>sh_replication_lost := True\<rparr>)"

definition set_snapshot :: "string \<Rightarrow> nat \<Rightarrow> int \<Rightarrow> 'db ha_node \<Rightarrow> 'db ha_node" where
  "set_snapshot i seq created =
     upd_shared (\<lambda>s. s\<lparr>sh_snapshot_id := Some i, sh_snapshot_seq := seq,
                       sh_snapshot_created_unix := created\<rparr>)"

definition observe_peer :: "int \<Rightarrow> string \<Rightarrow> bool \<Rightarrow> nat option \<Rightarrow> 'db ha_node \<Rightarrow> 'db ha_node" where
  "observe_peer now pid ok seq = upd_shared (\<lambda>s.
     let e = (case sh_peers_seen s pid of
                Some e \<Rightarrow> e
              | None \<Rightarrow> \<lparr>last_ok_unix = None, last_attempt_unix = now, ps_ok = False,
                         ps_applied_seq = None, consecutive_failures = 0\<rparr>);
         e = e\<lparr>last_attempt_unix := now, ps_ok := ok\<rparr>;
         e = (if ok then e\<lparr>last_ok_unix := Some now, consecutive_failures := 0,
                           ps_applied_seq := (if seq \<noteq> None then seq else ps_applied_seq e)\<rparr>
              else e\<lparr>consecutive_failures := min (2 ^ 32 - 1) (consecutive_failures e + 1)\<rparr>)
     in s\<lparr>sh_peers_seen := (sh_peers_seen s)(pid \<mapsto> e)\<rparr>)"

definition peer_state :: "peer_seen option \<Rightarrow> int \<Rightarrow> int \<Rightarrow> string \<times> int option" where
  "peer_state obs timeout_secs now =
     (case obs of
        None \<Rightarrow> (''never'', None)
      | Some seen \<Rightarrow>
          let age = map_option (\<lambda>t. max 0 (now - t)) (last_ok_unix seen);
              state = (case age of
                         None \<Rightarrow> ''never''
                       | Some a \<Rightarrow> if a > 2 * timeout_secs then ''stale''
                                  else if ps_ok seen then ''up''
                                  else if consecutive_failures seen \<le> 1 then ''stale''
                                  else ''down'')
          in (state, age))"

section \<open>The cluster row\<close>

definition ha_epoch :: "'db ha_store \<Rightarrow> nat" where
  "ha_epoch s = (case ha_row s of None \<Rightarrow> 0 | Some r \<Rightarrow> row_epoch r)"

definition ha_repl_seq :: "'db ha_store \<Rightarrow> nat" where
  "ha_repl_seq s = (case ha_row s of None \<Rightarrow> 0 | Some r \<Rightarrow> row_repl_seq r)"

definition set_repl_seq :: "nat \<Rightarrow> 'db ha_store \<Rightarrow> 'db ha_store" where
  "set_repl_seq seq s = s\<lparr>ha_row := map_option (\<lambda>r. r\<lparr>row_repl_seq := seq\<rparr>) (ha_row s)\<rparr>"

definition promote_epoch :: "nat \<Rightarrow> nat \<Rightarrow> string \<Rightarrow> bool \<Rightarrow> 'db ha_store \<Rightarrow> ('db ha_store \<times> nat) option" where
  "promote_epoch e t leader bump s =
     (case ha_row s of
        None \<Rightarrow> None
      | Some r \<Rightarrow>
          let r' = r\<lparr>row_epoch := e, row_term := t, row_leader_id := leader,
                     row_repl_seq := (if bump then row_repl_seq r + 1 else row_repl_seq r)\<rparr>
          in Some (s\<lparr>ha_row := Some r'\<rparr>, row_repl_seq r'))"

datatype apply_outcome =
    Applied nat
  | Duplicate
  | Rejected nat

definition apply_changeset_batch ::
  "('db \<Rightarrow> string \<Rightarrow> 'db option) \<Rightarrow> nat \<Rightarrow> nat \<Rightarrow> int \<Rightarrow> string \<Rightarrow> 'db ha_store \<Rightarrow>
     'db ha_store \<times> apply_outcome" where
  "apply_changeset_batch apply first_seq last_seq schema bytes s =
     (let applied = ha_repl_seq s in
      if schema \<noteq> schema_version s then (s, Rejected applied)
      else if last_seq \<le> applied then (s, Duplicate)
      else if first_seq \<noteq> applied + 1 then (s, Rejected applied)
      else case apply (content s) bytes of
             None \<Rightarrow> (s, Rejected applied)
           | Some db \<Rightarrow> (set_repl_seq last_seq (s\<lparr>content := db\<rparr>), Applied last_seq))"

definition apply_rewind ::
  "('db \<Rightarrow> string \<Rightarrow> 'db option) \<Rightarrow> nat \<Rightarrow> nat \<Rightarrow> string \<Rightarrow> 'db ha_store \<Rightarrow> 'db ha_store option" where
  "apply_rewind apply from_seq target inverted s =
     (if ha_repl_seq s \<noteq> from_seq then None
      else case apply (content s) inverted of
             None \<Rightarrow> None
           | Some db \<Rightarrow> Some (set_repl_seq target (s\<lparr>content := db\<rparr>)))"

section \<open>The rewind buffer\<close>

definition REWIND_MAX_ENTRIES :: nat where
  "REWIND_MAX_ENTRIES = 512"

definition REWIND_MAX_BYTES :: nat where
  "REWIND_MAX_BYTES = 8 * 1024 * 1024"

definition rewind_default :: rewind_buffer where
  "rewind_default = \<lparr>entries = [], buffered_bytes = 0, floor = None\<rparr>"

fun evict :: "(nat \<times> string) list \<Rightarrow> nat \<Rightarrow> nat option \<Rightarrow> rewind_buffer" where
  "evict [] b fl = \<lparr>entries = [], buffered_bytes = b, floor = fl\<rparr>"
| "evict ((seq, d) # es) b fl =
     (if length ((seq, d) # es) > REWIND_MAX_ENTRIES \<or> b > REWIND_MAX_BYTES
      then evict es (b - length d) (Some seq)
      else \<lparr>entries = (seq, d) # es, buffered_bytes = b, floor = fl\<rparr>)"

definition rewind_push :: "nat \<Rightarrow> string \<Rightarrow> rewind_buffer \<Rightarrow> rewind_buffer" where
  "rewind_push seq bytes buf =
     evict (entries buf @ [(seq, bytes)]) (buffered_bytes buf + length bytes) (floor buf)"

fun trim_entries :: "nat \<Rightarrow> (nat \<times> string) list \<Rightarrow> nat \<Rightarrow> (nat \<times> string) list \<times> nat" where
  "trim_entries replicated [] b = ([], b)"
| "trim_entries replicated ((seq, d) # es) b =
     (if seq > replicated then ((seq, d) # es, b) else trim_entries replicated es (b - length d))"

definition rewind_trim :: "nat \<Rightarrow> rewind_buffer \<Rightarrow> rewind_buffer" where
  "rewind_trim replicated buf =
     (case trim_entries replicated (entries buf) (buffered_bytes buf) of
        (es, b) \<Rightarrow> buf\<lparr>entries := es, buffered_bytes := b\<rparr>)"

definition can_rewind_to :: "nat \<Rightarrow> rewind_buffer \<Rightarrow> bool" where
  "can_rewind_to target buf = (case floor buf of Some fl \<Rightarrow> target \<ge> fl | None \<Rightarrow> True)"

fun collect_inverted ::
  "(string \<Rightarrow> string option) \<Rightarrow> nat \<Rightarrow> nat \<Rightarrow> (nat \<times> string) list \<Rightarrow> string \<Rightarrow> string option" where
  "collect_inverted invert target expect [] acc = (if expect = target then Some acc else None)"
| "collect_inverted invert target expect ((seq, bytes) # es) acc =
     (if seq \<le> target then (if expect = target then Some acc else None)
      else if seq \<noteq> expect then None
      else case invert bytes of
             None \<Rightarrow> None
           | Some i \<Rightarrow> collect_inverted invert target (expect - 1) es (acc @ i))"

definition rewind_to :: "'db ha_env \<Rightarrow> nat \<Rightarrow> 'db ha_node \<Rightarrow> ('db ha_node \<times> nat) option" where
  "rewind_to env hint n =
     (case replicator n of
        None \<Rightarrow> None
      | Some buf \<Rightarrow>
          let local = ha_repl_seq (store n);
              target = max hint (sh_last_replicated_seq (shared n))
          in if local \<le> target then Some (n, local)
             else if \<not> can_rewind_to target buf then None
             else case collect_inverted (invert_changeset env) target local (rev (entries buf)) [] of
                    None \<Rightarrow> None
                  | Some inverted \<Rightarrow>
                      (case apply_rewind (apply_raw env) local target inverted (store n) of
                         None \<Rightarrow> None
                       | Some s \<Rightarrow> Some (n\<lparr>store := s\<rparr>, target)))"

definition note_replicated :: "nat \<Rightarrow> 'db ha_node \<Rightarrow> 'db ha_node" where
  "note_replicated seq n =
     advance_last_replicated_seq seq (n\<lparr>replicator := map_option (rewind_trim seq) (replicator n)\<rparr>)"

section \<open>The fenced, replicated write transaction\<close>

datatype commit_result =
    Committed
  | Fenced fenced_error
  | NoClusterRow
  | NotReplicated

text \<open>\<open>begin_checked\<close> for a clustered node: the gate twice (the second time after queueing for the
  writer permit, at \<open>now2\<close>), then the epoch stored in the database.\<close>

definition begin_checked :: "nat \<Rightarrow> nat \<Rightarrow> 'db ha_node \<Rightarrow> 'db ha_node \<times> commit_result" where
  "begin_checked now1 now2 n =
     (case assert_writable now1 (gate n) of
        (g, Inl e) \<Rightarrow> (n\<lparr>gate := g\<rparr>, Fenced e)
      | (g, Inr _) \<Rightarrow>
          (case assert_still_writable now2 g of
             (g', Inl e) \<Rightarrow> (n\<lparr>gate := g'\<rparr>, Fenced e)
           | (g', Inr _) \<Rightarrow>
               (case ha_row (store n) of
                  None \<Rightarrow> (n\<lparr>gate := g'\<rparr>, NoClusterRow)
                | Some r \<Rightarrow>
                    if row_epoch r \<noteq> epoch g'
                    then (n\<lparr>gate := note_fenced_write g'\<rparr>,
                          Fenced \<lparr>fe_role = role g', fe_epoch = epoch g'\<rparr>)
                    else (n\<lparr>gate := g'\<rparr>, Committed))))"

text \<open>\<open>Replicator::publish\<close> after the local commit.  In sync mode \<open>acks\<close> is the number of data
  replicas (this one included) that hold the changeset when the push ends, \<open>None\<close> when the push
  failed or the acknowledgement did not arrive in time; in async mode the push happens later.\<close>

definition publish :: "nat option \<Rightarrow> nat \<Rightarrow> string \<Rightarrow> 'db ha_node \<Rightarrow> 'db ha_node \<times> commit_result" where
  "publish acks seq bytes n =
     (if rpo (config n) = Snapshot then (n, Committed)
      else let n = n\<lparr>replicator := map_option (rewind_push seq bytes) (replicator n)\<rparr> in
      if rpo (config n) = Async then (set_applied_seq seq n, Committed)
      else case acks of
             Some a \<Rightarrow>
               if a \<ge> data_majority (voter_set_of (config n))
               then (set_applied_seq seq (note_replicated seq n), Committed)
               else (upd_gate suspend_writes (set_replication_lost n), NotReplicated)
           | None \<Rightarrow> (upd_gate suspend_writes (set_replication_lost n), NotReplicated))"

text \<open>\<open>WriteTxn::commit\<close>: \<open>db\<close> is the content the transaction produced and \<open>changes\<close> the changeset
  its session recorded (none when it wrote nothing that is replicated).\<close>

definition commit ::
  "nat \<Rightarrow> nat option \<Rightarrow> 'db \<Rightarrow> string option \<Rightarrow> 'db ha_node \<Rightarrow> 'db ha_node \<times> commit_result" where
  "commit now acks db changes n =
     (case assert_still_writable now (gate n) of
        (g, Inl e) \<Rightarrow> (n\<lparr>gate := g\<rparr>, Fenced e)
      | (g, Inr _) \<Rightarrow>
          let n = n\<lparr>gate := g\<rparr>; done = n\<lparr>store := (store n)\<lparr>content := db\<rparr>\<rparr> in
          (case (replicator n, changes) of
             (Some _, Some bytes) \<Rightarrow>
               if length bytes > max_changeset_bytes (config n)
               then (request_snapshot done, Committed)
               else (case ha_row (store n) of
                       None \<Rightarrow> (n, NoClusterRow)
                     | Some r \<Rightarrow>
                         let seq = row_repl_seq r + 1 in
                         publish acks seq bytes (done\<lparr>store := set_repl_seq seq (store done)\<rparr>))
           | _ \<Rightarrow> (done, Committed)))"

section \<open>Standby side\<close>

datatype http = BadRequest | Conflict nat | NoContent

text \<open>\<open>POST /v1/ha/changeset\<close> with its four headers already parsed.\<close>

definition changeset_route ::
  "'db ha_env \<Rightarrow> nat \<Rightarrow> nat \<Rightarrow> nat \<Rightarrow> int \<Rightarrow> string \<Rightarrow> 'db ha_node \<Rightarrow> 'db ha_node \<times> http" where
  "changeset_route env ep first_seq last_seq schema body n =
     (if is_leader (gate n) then (n, Conflict (sh_applied_seq (shared n)))
      else if sh_need_full_snapshot (shared n) then (n, Conflict (sh_applied_seq (shared n)))
      else if ep < epoch (gate n) then (n, Conflict (sh_applied_seq (shared n)))
      else let n = (if ep > epoch (gate n) then upd_gate (set_epoch ep) n else n) in
      case apply_changeset_batch (apply_raw env) first_seq last_seq schema body (store n) of
        (s, Applied seq) \<Rightarrow>
          (touch_leader (now_ms env) (set_applied_seq seq (n\<lparr>store := s\<rparr>)), NoContent)
      | (s, Duplicate) \<Rightarrow>
          (touch_leader (now_ms env)
             (if sh_applied_seq (shared n) < last_seq then set_applied_seq last_seq n else n),
           NoContent)
      | (s, Rejected applied) \<Rightarrow> (n, Conflict applied))"

record 'db snapshot_file =
  sf_id :: string
  sf_cluster_id :: string
  sf_seq :: nat
  sf_created_unix :: int
  sf_schema :: int
  sf_store :: "'db ha_store"

definition is_safe_snapshot_id :: "string \<Rightarrow> bool" where
  "is_safe_snapshot_id i \<longleftrightarrow> i \<noteq> [] \<and> length i \<le> 96 \<and> starts_with i ''ha-snap-'' \<and>
     list_all (\<lambda>c. is_alnum c \<or> c = CHR ''-'' \<or> c = CHR ''.'' \<or> c = CHR ''_'') i"

definition is_stale :: "nat \<Rightarrow> int \<Rightarrow> 'db ha_node \<Rightarrow> bool" where
  "is_stale seq created n \<longleftrightarrow> sh_need_full_snapshot (shared n) \<or>
     (seq > sh_applied_seq (shared n) \<and> created > sh_snapshot_created_unix (shared n))"

text \<open>\<open>install_snapshot\<close> on a file whose hash and size matched its manifest: the restore replaces the
  whole database, the cluster row included.\<close>

definition install_snapshot :: "'db snapshot_file \<Rightarrow> 'db ha_node \<Rightarrow> 'db ha_node \<times> bool option" where
  "install_snapshot f n =
     (if schema_version (sf_store f) \<noteq> sf_schema f then (n, None)
      else let forced = (sh_need_full_snapshot (shared n) \<or>
                         schema_version (sf_store f) \<noteq> schema_version (store n));
               local = ha_repl_seq (store n) in
      if \<not> forced \<and> local \<ge> sf_seq f
      then (if sh_applied_seq (shared n) < local then set_applied_seq local n else n, Some False)
      else let n = set_snapshot (sf_id f) (sf_seq f) (sf_created_unix f)
                     (set_applied_seq (sf_seq f) (n\<lparr>store := sf_store f\<rparr>))
           in (clear_need_full_snapshot (upd_gate (set_epoch (ha_epoch (store n))) n), Some True))"

definition apply_from :: "'db snapshot_file option \<Rightarrow> int \<Rightarrow> 'db ha_node \<Rightarrow> 'db ha_node \<times> bool option" where
  "apply_from advertised leader_schema n =
     (case advertised of
        None \<Rightarrow> (n, Some False)
      | Some f \<Rightarrow>
          if \<not> is_stale (sf_seq f) (sf_created_unix f) n \<and> leader_schema = schema_version (store n)
          then (n, Some False)
          else if sf_cluster_id f \<noteq> cluster_id (config n) \<or> \<not> is_safe_snapshot_id (sf_id f)
          then (n, None)
          else install_snapshot f n)"

text \<open>\<open>Store::next_repl_seq\<close>: a fenced transaction that touches only the cluster row, so no changeset is
  recorded for it; the clock is read three times.\<close>

definition next_repl_seq :: "nat \<Rightarrow> nat \<Rightarrow> nat \<Rightarrow> 'db ha_node \<Rightarrow> 'db ha_node \<times> (commit_result + nat)" where
  "next_repl_seq now1 now2 now3 n =
     (case begin_checked now1 now2 n of
        (n, Committed) \<Rightarrow>
          (let seq = ha_repl_seq (store n) + 1 in
           case assert_still_writable now3 (gate n) of
             (g, Inl e) \<Rightarrow> (n\<lparr>gate := g\<rparr>, Inl (Fenced e))
           | (g, Inr _) \<Rightarrow> (n\<lparr>gate := g, store := set_repl_seq seq (store n)\<rparr>, Inr seq))
      | (n, err) \<Rightarrow> (n, Inl err))"

fun decimal :: "nat \<Rightarrow> string" where
  "decimal n = (if n < 10 then [char_of (48 + n)] else decimal (n div 10) @ [char_of (48 + n mod 10)])"

declare decimal.simps [simp del]

definition snapshot_id :: "nat \<Rightarrow> nat \<Rightarrow> string" where
  "snapshot_id e seq = ''ha-snap-'' @ decimal e @ ''-'' @ decimal seq"

definition cut_snapshot ::
  "nat \<Rightarrow> nat \<Rightarrow> nat \<Rightarrow> int \<Rightarrow> (string \<rightharpoonup> 'db snapshot_file) \<Rightarrow> 'db ha_node \<Rightarrow>
     (string \<rightharpoonup> 'db snapshot_file) \<times> 'db ha_node \<times> (commit_result + 'db snapshot_file)" where
  "cut_snapshot now1 now2 now3 created files n =
     (case (if replicator n \<noteq> None then (n, Inr (ha_repl_seq (store n)))
            else next_repl_seq now1 now2 now3 n) of
        (n, Inl err) \<Rightarrow> (files, n, Inl err)
      | (n, Inr seq) \<Rightarrow>
          let i = snapshot_id (epoch (gate n)) seq;
              f = \<lparr>sf_id = i, sf_cluster_id = cluster_id (config n), sf_seq = seq,
                   sf_created_unix = created, sf_schema = schema_version (store n),
                   sf_store = store n\<rparr>
          in (files(i \<mapsto> f), set_snapshot i seq created n, Inr f))"

text \<open>\<open>snapshot::create\<close> with the peer backend.  \<open>files\<close> are the snapshots on disk by id; the
  advertised one is reused while the sequence has not moved since it was cut.\<close>

definition create_snapshot ::
  "nat \<Rightarrow> nat \<Rightarrow> nat \<Rightarrow> int \<Rightarrow> (string \<rightharpoonup> 'db snapshot_file) \<Rightarrow> 'db ha_node \<Rightarrow>
     (string \<rightharpoonup> 'db snapshot_file) \<times> 'db ha_node \<times> (commit_result + 'db snapshot_file)" where
  "create_snapshot now1 now2 now3 created files n =
     (case sh_snapshot_id (shared n) of
        Some i \<Rightarrow>
          (case files i of
             Some f \<Rightarrow>
               if sh_snapshot_seq (shared n) = ha_repl_seq (store n) then (files, n, Inr f)
               else cut_snapshot now1 now2 now3 created files n
           | None \<Rightarrow> cut_snapshot now1 now2 now3 created files n)
      | None \<Rightarrow> cut_snapshot now1 now2 now3 created files n)"

end
