(* ===== verification/HaReplProps.thy ===== *)
theory HaReplProps
  imports HaRepl
begin

text \<open>Properties of replication: a standby is always a prefix of the leader's changeset log, a demoted
  leader that rewinds is back at a state its log went through, the rewind buffer stays within its
  caps, and two ways in which a committed write never reaches a standby.\<close>

lemmas shared_ops = upd_shared_def upd_gate_def set_leader_def clear_leader_def touch_leader_def
  set_applied_seq_def advance_last_replicated_seq_def set_need_full_snapshot_def
  clear_need_full_snapshot_def request_snapshot_def set_replication_lost_def set_snapshot_def

lemma store_shared_op [simp]: "store (upd_shared f n) = store n" "store (upd_gate g n) = store n"
  by (simp_all add: upd_shared_def upd_gate_def)

lemma store_frames [simp]:
  "store (touch_leader t n) = store n" "store (set_applied_seq q n) = store n"
  "store (request_snapshot n) = store n" "store (set_replication_lost n) = store n"
  "store (note_replicated q n) = store n" "store (set_snapshot i q c n) = store n"
  by (simp_all add: shared_ops note_replicated_def)

lemma repl_seq_set [simp]:
  "ha_row s \<noteq> None \<Longrightarrow> ha_repl_seq (set_repl_seq q s) = q"
  "content (set_repl_seq q s) = content s"
  "schema_version (set_repl_seq q s) = schema_version s"
  "ha_row (set_repl_seq q s) = None \<longleftrightarrow> ha_row s = None"
  by (auto simp: set_repl_seq_def ha_repl_seq_def)

lemma repl_seq_content [simp]: "ha_repl_seq (s\<lparr>content := db\<rparr>) = ha_repl_seq s"
  by (simp add: ha_repl_seq_def)

section \<open>A standby is a prefix of the log\<close>

text \<open>The log of a leadership: the changeset with sequence number \<open>i + 1\<close> is the \<open>i\<close>-th entry.\<close>

fun replay :: "('db \<Rightarrow> string \<Rightarrow> 'db option) \<Rightarrow> 'db \<Rightarrow> string list \<Rightarrow> 'db option" where
  "replay apply db [] = Some db"
| "replay apply db (c # cs) = (case apply db c of None \<Rightarrow> None | Some d \<Rightarrow> replay apply d cs)"

definition log_slice :: "nat \<Rightarrow> nat \<Rightarrow> string list \<Rightarrow> string list" where
  "log_slice first_seq last_seq lg = take (last_seq + 1 - first_seq) (drop (first_seq - 1) lg)"

lemma replay_append:
  "replay apply db (xs @ ys) = (case replay apply db xs of None \<Rightarrow> None | Some d \<Rightarrow> replay apply d ys)"
  by (induction xs arbitrary: db) (auto split: option.splits)

lemma take_log_slice:
  "q < l \<Longrightarrow> take l lg = take q lg @ log_slice (q + 1) l lg"
proof -
  assume "q < l"
  then have "take l lg = take (q + (l - q)) lg"
    by simp
  also have "\<dots> = take q lg @ take (l - q) (drop q lg)"
    by (rule take_add)
  finally show ?thesis
    by (simp add: log_slice_def)
qed

lemma set_log_slice: "set (log_slice f l lg) \<subseteq> set lg"
  by (auto simp: log_slice_def dest!: in_set_takeD in_set_dropD)

definition concat_law :: "('db \<Rightarrow> string \<Rightarrow> 'db option) \<Rightarrow> string list \<Rightarrow> bool" where
  "concat_law apply lg \<longleftrightarrow>
     (\<forall>db cs. set cs \<subseteq> set lg \<longrightarrow> apply db (concat cs) = replay apply db cs)"

definition log_prefix :: "('db \<Rightarrow> string \<Rightarrow> 'db option) \<Rightarrow> 'db \<Rightarrow> string list \<Rightarrow> 'db ha_store \<Rightarrow> bool" where
  "log_prefix apply db0 lg s \<longleftrightarrow>
     ha_row s \<noteq> None \<and> ha_repl_seq s \<le> length lg \<and>
     replay apply db0 (take (ha_repl_seq s) lg) = Some (content s)"

lemma apply_batch_prefix:
  assumes "concat_law apply lg" "log_prefix apply db0 lg s" "l \<le> length lg"
    and "apply_changeset_batch apply f l sc (concat (log_slice f l lg)) s = (s', out)"
  shows "log_prefix apply db0 lg s'" "ha_repl_seq s \<le> ha_repl_seq s'"
    and "\<forall>q. out \<noteq> Rejected q \<Longrightarrow> l \<le> ha_repl_seq s'"
proof -
  have "log_prefix apply db0 lg s' \<and> ha_repl_seq s \<le> ha_repl_seq s' \<and>
      ((\<forall>q. out \<noteq> Rejected q) \<longrightarrow> l \<le> ha_repl_seq s')"
  proof (cases "out = Applied l")
    case False
    then show ?thesis
      using assms by (auto simp: apply_changeset_batch_def Let_def split: if_splits option.splits)
  next
    case True
    then obtain db where db: "apply (content s) (concat (log_slice f l lg)) = Some db"
      and s': "s' = set_repl_seq l (s\<lparr>content := db\<rparr>)"
      and f: "f = ha_repl_seq s + 1" and l: "ha_repl_seq s < l"
      using assms(4) by (auto simp: apply_changeset_batch_def Let_def split: if_splits option.splits)
    have "replay apply (content s) (log_slice f l lg) = Some db"
      using db assms(1) set_log_slice [of f l lg] by (simp add: concat_law_def)
    then have "replay apply db0 (take l lg) = Some db"
      using assms(2) take_log_slice [OF l, of lg] by (simp add: log_prefix_def replay_append f)
    then show ?thesis
      using assms(2,3) l by (simp add: log_prefix_def s')
  qed
  then show "log_prefix apply db0 lg s'" "ha_repl_seq s \<le> ha_repl_seq s'"
    and "\<forall>q. out \<noteq> Rejected q \<Longrightarrow> l \<le> ha_repl_seq s'"
    by blast+
qed

lemma changeset_route_store:
  "\<exists>s' out. (store (fst (changeset_route env ep f l sc body n)) = s' \<and>
     (apply_changeset_batch (apply_raw env) f l sc body (store n) = (s', out) \<and>
        (snd (changeset_route env ep f l sc body n) = NoContent \<longrightarrow> (\<forall>q. out \<noteq> Rejected q)) \<or>
      s' = store n \<and> snd (changeset_route env ep f l sc body n) \<noteq> NoContent))"
proof -
  obtain s' out where "apply_changeset_batch (apply_raw env) f l sc body (store n) = (s', out)"
    by (cases "apply_changeset_batch (apply_raw env) f l sc body (store n)")
  moreover from this have "out = Duplicate \<or> (\<exists>q. out = Rejected q) \<Longrightarrow> s' = store n"
    by (auto simp: apply_changeset_batch_def Let_def split: if_splits option.splits)
  ultimately show ?thesis
    by (cases out) (auto simp: changeset_route_def Let_def)
qed

text \<open>Deliveries to a standby: each is a batch of the log with the epoch and schema it was sent under,
  in any order, any number of times.\<close>

record delivery =
  d_now :: nat
  d_epoch :: nat
  d_first :: nat
  d_last :: nat
  d_schema :: int

definition deliver_batch :: "'db ha_env \<Rightarrow> string list \<Rightarrow> delivery \<Rightarrow> 'db ha_node \<Rightarrow> 'db ha_node \<times> http" where
  "deliver_batch env lg d n =
     changeset_route (env\<lparr>now_ms := d_now d\<rparr>) (d_epoch d) (d_first d) (d_last d) (d_schema d)
       (concat (log_slice (d_first d) (d_last d) lg)) n"

definition deliver_all :: "'db ha_env \<Rightarrow> string list \<Rightarrow> delivery list \<Rightarrow> 'db ha_node \<Rightarrow> 'db ha_node" where
  "deliver_all env lg ds n = fold (\<lambda>d n. fst (deliver_batch env lg d n)) ds n"

lemma deliver_batch_prefix:
  assumes "concat_law (apply_raw env) lg" "log_prefix (apply_raw env) db0 lg (store n)"
    and "d_last d \<le> length lg" "deliver_batch env lg d n = (n', ans)"
  shows "log_prefix (apply_raw env) db0 lg (store n') \<and>
         ha_repl_seq (store n) \<le> ha_repl_seq (store n') \<and>
         (ans = NoContent \<longrightarrow> d_last d \<le> ha_repl_seq (store n'))"
proof -
  let ?e = "env\<lparr>now_ms := d_now d\<rparr>"
  obtain s' out where s': "store n' = s'"
    and cases: "apply_changeset_batch (apply_raw env) (d_first d) (d_last d) (d_schema d)
        (concat (log_slice (d_first d) (d_last d) lg)) (store n) = (s', out) \<and>
        (ans = NoContent \<longrightarrow> (\<forall>q. out \<noteq> Rejected q)) \<or>
      s' = store n \<and> ans \<noteq> NoContent"
    using changeset_route_store [of ?e "d_epoch d" "d_first d" "d_last d" "d_schema d"
        "concat (log_slice (d_first d) (d_last d) lg)" n] assms(4)
    by (auto simp: deliver_batch_def)
  from cases show ?thesis
  proof
    assume "apply_changeset_batch (apply_raw env) (d_first d) (d_last d) (d_schema d)
        (concat (log_slice (d_first d) (d_last d) lg)) (store n) = (s', out) \<and>
        (ans = NoContent \<longrightarrow> (\<forall>q. out \<noteq> Rejected q))"
    then show ?thesis
      using apply_batch_prefix [OF assms(1-3)] s' by blast
  qed (use assms(2) s' in auto)
qed

lemma deliver_all_prefix:
  assumes "concat_law (apply_raw env) lg" "log_prefix (apply_raw env) db0 lg (store n)"
    and "\<forall>d \<in> set ds. d_last d \<le> length lg"
  shows "log_prefix (apply_raw env) db0 lg (store (deliver_all env lg ds n)) \<and>
         ha_repl_seq (store n) \<le> ha_repl_seq (store (deliver_all env lg ds n))"
  using assms(2,3)
proof (induction ds arbitrary: n)
  case (Cons d ds)
  obtain n' ans where n': "deliver_batch env lg d n = (n', ans)"
    by fastforce
  have "log_prefix (apply_raw env) db0 lg (store n') \<and> ha_repl_seq (store n) \<le> ha_repl_seq (store n')"
    using deliver_batch_prefix [OF assms(1) Cons.prems(1) _ n'] Cons.prems(2) by simp
  then show ?case
    using Cons.IH [of n'] Cons.prems(2) n' by (fastforce simp: deliver_all_def)
qed (simp add: deliver_all_def)

text \<open>C35: Whatever batches of the leader's log reach a standby, in whatever order and however often, its
  database is exactly the replay of a prefix of the log whose length is its replication sequence:
  no changeset is applied twice, skipped or reordered.  The sequence never goes back, and a batch
  is acknowledged only when it is part of that prefix.\<close>

theorem standby_is_log_prefix:
  assumes "concat_law (apply_raw env) lg"
    and "log_prefix (apply_raw env) db0 lg (store n)"
    and "\<forall>d \<in> set (ds @ [d]). d_last d \<le> length lg"
    and "n' = deliver_all env lg ds n"
  shows "replay (apply_raw env) db0 (take (ha_repl_seq (store n')) lg) = Some (content (store n')) \<and>
         ha_repl_seq (store n) \<le> ha_repl_seq (store n') \<and>
         ha_repl_seq (store n') \<le> length lg \<and>
         (snd (deliver_batch env lg d n') = NoContent \<longrightarrow>
            d_last d \<le> ha_repl_seq (store (fst (deliver_batch env lg d n'))))"
proof -
  have "log_prefix (apply_raw env) db0 lg (store n') \<and> ha_repl_seq (store n) \<le> ha_repl_seq (store n')"
    using deliver_all_prefix [OF assms(1,2), of ds] assms(3,4) by simp
  then show ?thesis
    using deliver_batch_prefix [OF assms(1), of db0 n' d] assms(3)
    by (auto simp: log_prefix_def prod_eq_iff)
qed

section \<open>A concrete replica\<close>

text \<open>For the witnesses: the content is a string, a changeset appends its bytes, and its inverse is
  the same length of deletions, written as the byte zero.\<close>

fun toy_apply :: "string \<Rightarrow> string \<Rightarrow> string option" where
  "toy_apply db [] = Some db"
| "toy_apply db (c # cs) =
     (if c = CHR 0x00 then (if db = [] then None else toy_apply (butlast db) cs)
      else toy_apply (db @ [c]) cs)"

definition toy_env :: "string ha_env" where
  "toy_env = \<lparr>now_ms = 0, now_unix = 0, save_ok = True, save_ok2 = True, rewind_in_time = True,
     apply_raw = toy_apply,
     invert_changeset = (\<lambda>c. if CHR 0x00 \<in> set c then None else Some (map (\<lambda>_. CHR 0x00) c))\<rparr>"

definition toy_config :: "string \<Rightarrow> string list \<Rightarrow> rpo_mode \<Rightarrow> ha_config" where
  "toy_config me others rpo_mode =
     \<lparr>mode = HaMode, topology_role = DataRole, node_id = me, cluster_id = ''c'', cluster_token = [],
      advertise_url = [], peers = map (\<lambda>i. \<lparr>peer_id = i, peer_url = i\<rparr>) others, witnesses = [],
      rpo = rpo_mode, backend = Peer, s3 = None, snapshot_interval = 60, async_max_lag = 5,
      lease_ttl = 10, election_timeout = 3, apply_timeout = 30, artifact_sync_mode = Eager,
      jwt_secret_file = None, secret_fetch = False, witness_dir = [], allow_plaintext = False,
      max_changeset_bytes = 4, changeset_retention = 2, data_replicas = length others + 1,
      witnesses_count = 0\<rparr>"

definition toy_node :: "ha_role \<Rightarrow> rpo_mode \<Rightarrow> nat \<Rightarrow> string \<Rightarrow> string ha_node" where
  "toy_node r rpo_mode seq db =
     \<lparr>config = toy_config ''a'' [''b'', ''d''] rpo_mode,
      gate = \<lparr>role = r, epoch = 1, lease_until_ms = 10, fenced_writes = 0, admitted_writes = 0,
              writes_suspended = False\<rparr>,
      shared = (shared_default 0)\<lparr>sh_term := 1, sh_applied_seq := seq, sh_last_replicated_seq := seq\<rparr>,
      store = \<lparr>ha_row = Some \<lparr>row_epoch = 1, row_term = 1, row_leader_id = ''a'', row_repl_seq = seq\<rparr>,
               content = db, schema_version = 7\<rparr>,
      replicator = (if rpo_mode = Snapshot then None else Some rewind_default),
      vote_file = None\<rparr>"

lemma toy_apply_append:
  "toy_apply db (xs @ ys) = (case toy_apply db xs of None \<Rightarrow> None | Some d \<Rightarrow> toy_apply d ys)"
  by (induction db xs rule: toy_apply.induct) auto

lemma toy_concat_law: "concat_law toy_apply lg"
proof -
  have "toy_apply db (concat cs) = replay toy_apply db cs" for db cs
    by (induction cs arbitrary: db) (auto simp: toy_apply_append split: option.splits)
  then show ?thesis
    by (simp add: concat_law_def)
qed

definition toy_log :: "string list" where
  "toy_log = [''x'', ''yy'', ''z'']"

definition toy_delivery :: "nat \<Rightarrow> nat \<Rightarrow> delivery" where
  "toy_delivery f l = \<lparr>d_now = 0, d_epoch = 1, d_first = f, d_last = l, d_schema = 7\<rparr>"

definition toy_standby :: "string ha_node" where
  "toy_standby = deliver_all toy_env toy_log [toy_delivery 2 3, toy_delivery 1 2, toy_delivery 1 2]
     (toy_node Standby Sync 0 [])"

lemma toy_standby_seq: "ha_repl_seq (store toy_standby) = 2"
  by code_simp

lemma toy_start: "log_prefix toy_apply [] toy_log (store (toy_node Standby Sync 0 []))"
  by code_simp

theorem standby_is_log_prefix_witness:
  "replay toy_apply [] (take 2 toy_log) = Some (content (store toy_standby)) \<and>
   content (store toy_standby) = ''xyy''"
  using standby_is_log_prefix [of toy_env toy_log "[]" "toy_node Standby Sync 0 []"
      "[toy_delivery 2 3, toy_delivery 1 2, toy_delivery 1 2]" "toy_delivery 3 3" toy_standby]
    toy_standby_seq toy_start toy_concat_law
  by (simp add: toy_standby_def toy_env_def toy_delivery_def toy_log_def)

end
