(* ===== verification/RewindProps.thy ===== *)
theory RewindProps
  imports HaReplProps
begin

text \<open>Properties of a leadership's writes: the rewind buffer's caps, the exact undo of unreplicated
  writes after a demotion, and two ways in which a committed write never reaches a standby.\<close>

section \<open>The buffer\<close>

definition entry_bytes :: "(nat \<times> string) list \<Rightarrow> nat" where
  "entry_bytes es = (\<Sum>e \<leftarrow> es. length (snd e))"

lemma entry_bytes_simps [simp]:
  "entry_bytes [] = 0" "entry_bytes ((q, b) # es) = length b + entry_bytes es"
  "entry_bytes (xs @ ys) = entry_bytes xs + entry_bytes ys"
  by (simp_all add: entry_bytes_def)

lemma evict_drop:
  "\<exists>k \<le> length es. entries (evict es b fl) = drop k es \<and>
     floor (evict es b fl) = (if k = 0 then fl else Some (fst (es ! (k - 1)))) \<and>
     buffered_bytes (evict es b fl) = b - entry_bytes (take k es)"
proof (induction es b fl rule: evict.induct)
  case (2 q d es b fl)
  show ?case
  proof (cases "length ((q, d) # es) > REWIND_MAX_ENTRIES \<or> b > REWIND_MAX_BYTES")
    case True
    then obtain k where k: "k \<le> length es" "entries (evict es (b - length d) (Some q)) = drop k es"
      "floor (evict es (b - length d) (Some q)) = (if k = 0 then Some q else Some (fst (es ! (k - 1))))"
      "buffered_bytes (evict es (b - length d) (Some q)) = b - length d - entry_bytes (take k es)"
      using "2.IH" by blast
    then show ?thesis
      using True by (intro exI [of _ "Suc k"]) (auto simp: nth_Cons')
  qed (intro exI [of _ 0], simp)
qed simp

lemma evict_within_caps:
  "b = entry_bytes es \<Longrightarrow>
     length (entries (evict es b fl)) \<le> REWIND_MAX_ENTRIES \<and>
     buffered_bytes (evict es b fl) \<le> REWIND_MAX_BYTES \<and>
     buffered_bytes (evict es b fl) = entry_bytes (entries (evict es b fl))"
  by (induction es b fl rule: evict.induct) auto

lemma trim_drop:
  "\<exists>k \<le> length es. trim_entries r es b = (drop k es, b - entry_bytes (take k es)) \<and>
     (\<forall>i < k. fst (es ! i) \<le> r)"
proof (induction r es b rule: trim_entries.induct)
  case (2 r q d es b)
  show ?case
  proof (cases "q > r")
    case False
    then obtain k where "k \<le> length es"
      "trim_entries r es (b - length d) = (drop k es, b - length d - entry_bytes (take k es))"
      "\<forall>i < k. fst (es ! i) \<le> r"
      using "2.IH" by blast
    then show ?thesis
      using False by (intro exI [of _ "Suc k"]) (auto simp: nth_Cons')
  qed (intro exI [of _ 0], simp)
qed simp

definition buffer_wf :: "rewind_buffer \<Rightarrow> bool" where
  "buffer_wf buf \<longleftrightarrow> length (entries buf) \<le> REWIND_MAX_ENTRIES \<and>
     buffered_bytes buf \<le> REWIND_MAX_BYTES \<and> buffered_bytes buf = entry_bytes (entries buf)"

lemma buffer_wf_default: "buffer_wf rewind_default"
  by (simp add: buffer_wf_def rewind_default_def)

lemma buffer_wf_push: "buffer_wf buf \<Longrightarrow> buffer_wf (rewind_push q b buf)"
  unfolding buffer_wf_def rewind_push_def by (intro evict_within_caps) simp

lemma buffer_wf_trim:
  assumes "buffer_wf buf"
  shows "buffer_wf (rewind_trim r buf)"
proof -
  obtain k where k: "k \<le> length (entries buf)"
    "trim_entries r (entries buf) (buffered_bytes buf) =
       (drop k (entries buf), buffered_bytes buf - entry_bytes (take k (entries buf)))"
    using trim_drop by blast
  have "entry_bytes (entries buf) = entry_bytes (take k (entries buf)) + entry_bytes (drop k (entries buf))"
    by (metis append_take_drop_id entry_bytes_simps(3))
  then show ?thesis
    using assms k by (auto simp: buffer_wf_def rewind_trim_def)
qed

section \<open>A leadership\<close>

datatype lead_event =
    LWrite nat "nat option" string
  | LAck nat

text \<open>A leader's writes, each committing the content its changeset produces, and the quorum
  acknowledgements that arrive for positions already written.\<close>

fun lead_step :: "'db ha_env \<Rightarrow> lead_event \<Rightarrow> 'db ha_node \<Rightarrow> 'db ha_node" where
  "lead_step env (LWrite now acks bytes) n =
     (case apply_raw env (content (store n)) bytes of
        None \<Rightarrow> n
      | Some db \<Rightarrow> fst (commit now acks db (Some bytes) n))"
| "lead_step env (LAck q) n = (if q \<le> ha_repl_seq (store n) then note_replicated q n else n)"

definition lead :: "'db ha_env \<Rightarrow> lead_event list \<Rightarrow> 'db ha_node \<Rightarrow> 'db ha_node" where
  "lead env es n = fold (lead_step env) es n"

fun event_fits :: "nat \<Rightarrow> lead_event \<Rightarrow> bool" where
  "event_fits cap (LWrite now acks bytes) \<longleftrightarrow> length bytes \<le> cap"
| "event_fits cap (LAck q) \<longleftrightarrow> True"

text \<open>The inverses of the changesets a leadership wrote, which a rewind concatenates.\<close>

fun inverse_of :: "'db ha_env \<Rightarrow> lead_event \<Rightarrow> string option" where
  "inverse_of env (LWrite now acks b) = invert_changeset env b"
| "inverse_of env (LAck q) = None"

definition inverses :: "'db ha_env \<Rightarrow> lead_event list \<Rightarrow> string list" where
  "inverses env es = List.map_filter (inverse_of env) es"

lemma in_inverses: "e \<in> set es \<Longrightarrow> inverse_of env e = Some i \<Longrightarrow> i \<in> set (inverses env es)"
  by (force simp: inverses_def List.map_filter_def)

definition invertible :: "'db ha_env \<Rightarrow> string \<Rightarrow> bool" where
  "invertible env c \<longleftrightarrow> (\<exists>i. invert_changeset env c = Some i \<and>
     (\<forall>db db'. apply_raw env db c = Some db' \<longrightarrow> apply_raw env db' i = Some db))"

text \<open>\<open>chain hist rs e\<close>: \<open>rs\<close> are the changesets that lead from \<open>hist (e - length rs)\<close> to
  \<open>hist e\<close>, newest first, numbered without a gap, with their inverses among \<open>lg\<close>.\<close>

fun chain :: "'db ha_env \<Rightarrow> string list \<Rightarrow> (nat \<Rightarrow> 'db) \<Rightarrow> (nat \<times> string) list \<Rightarrow> nat \<Rightarrow> bool" where
  "chain env lg hist [] e \<longleftrightarrow> True"
| "chain env lg hist ((q, b) # rs) e \<longleftrightarrow>
     q = e \<and> 0 < e \<and> apply_raw env (hist (e - 1)) b = Some (hist e) \<and>
     invertible env b \<and> (\<forall>i. invert_changeset env b = Some i \<longrightarrow> i \<in> set lg) \<and>
     chain env lg hist rs (e - 1)"

lemma chain_take: "chain env lg hist rs e \<Longrightarrow> chain env lg hist (take k rs) e"
  by (induction rs arbitrary: e k) (auto simp: take_Cons' split: prod.splits)

lemma chain_length: "chain env lg hist rs e \<Longrightarrow> length rs \<le> e"
  by (induction rs arbitrary: e) fastforce+

lemma chain_nth: "chain env lg hist rs e \<Longrightarrow> j < length rs \<Longrightarrow> fst (rs ! j) = e - j"
proof (induction rs arbitrary: e j)
  case (Cons r rs)
  then show ?case
    by (cases r; cases j) auto
qed simp

lemma chain_upd: "chain env lg hist rs e \<Longrightarrow> e < k \<Longrightarrow> chain env lg (hist(k := db)) rs e"
  by (induction rs arbitrary: e) auto

text \<open>Collecting the inverses down to a target within the chain: what is collected leads back to the
  content at the target. Older entries \<open>old\<close> of the buffer, below the chain, are met only when the
  chain ends at the target; one above the target stops the collection.\<close>

lemma collect_sound:
  assumes "chain env lg hist rs e" "e - length rs \<le> target" "target \<le> e"
  shows "\<exists>cs. set cs \<subseteq> set lg \<and> replay (apply_raw env) (hist e) cs = Some (hist target) \<and>
     collect_inverted (invert_changeset env) target e (rs @ old) acc \<in> {None, Some (acc @ concat cs)} \<and>
     ((\<forall>(q, b)\<in>set old. q \<le> target) \<longrightarrow>
        collect_inverted (invert_changeset env) target e (rs @ old) acc = Some (acc @ concat cs))"
  using assms
proof (induction rs arbitrary: e acc)
  case Nil
  then have "e = target" by simp
  then show ?case by (intro exI [of _ "[]"]) (cases old, auto)
next
  case (Cons r rs)
  obtain q b where r: "r = (q, b)"
    by fastforce
  show ?case
  proof (cases "e = target")
    case True
    then show ?thesis
      using Cons.prems r by (intro exI [of _ "[]"]) auto
  next
    case False
    then have lt: "target < e"
      using Cons.prems(3) by simp
    obtain i where i: "invert_changeset env b = Some i" "apply_raw env (hist e) i = Some (hist (e - 1))" "i \<in> set lg"
      using Cons.prems(1) r by (auto simp: invertible_def)
    have "chain env lg hist rs (e - 1)" "e - 1 - length rs \<le> target" "target \<le> e - 1"
      using Cons.prems r lt by auto
    from Cons.IH [OF this, of "acc @ i"] obtain cs where cs: "set cs \<subseteq> set lg"
      "replay (apply_raw env) (hist (e - 1)) cs = Some (hist target)"
      "collect_inverted (invert_changeset env) target (e - 1) (rs @ old) (acc @ i) \<in> {None, Some ((acc @ i) @ concat cs)}"
      "(\<forall>(q, b)\<in>set old. q \<le> target) \<longrightarrow>
         collect_inverted (invert_changeset env) target (e - 1) (rs @ old) (acc @ i) = Some ((acc @ i) @ concat cs)"
      by blast
    show ?thesis
      using Cons.prems(1) r i lt cs by (intro exI [of _ "i # cs"]) auto
  qed
qed

definition evicted :: "rewind_buffer \<Rightarrow> nat" where
  "evicted buf = (case floor buf of None \<Rightarrow> 0 | Some fl \<Rightarrow> fl)"

text \<open>The buffer holds what earlier leaderships left in it, \<open>old\<close>, and then the changesets of this
  one, \<open>own\<close>. The own ones reach down to the replicated position, or else all the old ones and some
  own ones were evicted and the floor says so.\<close>

definition rewind_inv ::
    "'db ha_env \<Rightarrow> string list \<Rightarrow> (nat \<times> string) list \<Rightarrow> (nat \<Rightarrow> 'db) \<Rightarrow> 'db ha_node \<Rightarrow> bool" where
  "rewind_inv env lg start hist n \<longleftrightarrow>
     (\<exists>buf old own. replicator n = Some buf \<and> ha_row (store n) \<noteq> None \<and>
        content (store n) = hist (ha_repl_seq (store n)) \<and>
        entries buf = old @ own \<and> set old \<subseteq> set start \<and>
        chain env lg hist (rev own) (ha_repl_seq (store n)) \<and>
        (ha_repl_seq (store n) - length own \<le> sh_last_replicated_seq (shared n) \<or>
         old = [] \<and> ha_repl_seq (store n) - length own \<le> evicted buf) \<and>
        sh_last_replicated_seq (shared n) \<le> ha_repl_seq (store n))"

lemma chain_rev_nth:
  "chain env lg hist (rev es) e \<Longrightarrow> i < length es \<Longrightarrow> fst (es ! i) = e - (length es - Suc i)"
  using chain_nth [of env lg hist "rev es" e "length es - Suc i"] by (simp add: rev_nth)

lemma chain_drop: "chain env lg hist (rev es) e \<Longrightarrow> chain env lg hist (rev (drop k es)) e"
  by (simp add: rev_drop chain_take)

text \<open>Dropping entries from the front of a buffer drops old ones first.\<close>

lemma drop_front:
  assumes "es = old @ own" "k \<le> length es"
  obtains j where "drop k es = drop k old @ drop j own" "j = k - length old" "j \<le> length own"
  using assms that [of "k - length old"] by simp

lemma rewind_inv_ack:
  assumes "rewind_inv env lg start hist n" "q \<le> ha_repl_seq (store n)"
  shows "rewind_inv env lg start hist (note_replicated q n)"
proof -
  let ?L = "sh_last_replicated_seq (shared n)" let ?s = "ha_repl_seq (store n)"
  obtain buf old own where buf: "replicator n = Some buf" "ha_row (store n) \<noteq> None" "content (store n) = hist ?s"
    "entries buf = old @ own" "set old \<subseteq> set start" "chain env lg hist (rev own) ?s"
    "?s - length own \<le> ?L \<or> old = [] \<and> ?s - length own \<le> evicted buf" "?L \<le> ?s"
    using assms(1) unfolding rewind_inv_def by blast
  obtain k where k: "k \<le> length (entries buf)"
    "fst (trim_entries q (entries buf) (buffered_bytes buf)) = drop k (entries buf)"
    "\<forall>i < k. fst (entries buf ! i) \<le> q"
    using trim_drop [of "entries buf" q "buffered_bytes buf"] by auto
  obtain j where j: "drop k (entries buf) = drop k old @ drop j own" "j = k - length old" "j \<le> length own"
    by (rule drop_front [OF buf(4) k(1)])
  have "?s - length (drop j own) \<le> max ?L q \<or> drop k old = [] \<and> ?s - length (drop j own) \<le> evicted buf"
  proof (cases j)
    case (Suc i)
    then have "fst (own ! i) \<le> q"
      using k(3) [rule_format, of "length old + i"] buf(4) j(2) by simp
    then show ?thesis
      using chain_rev_nth [OF buf(6), of i] Suc j(3) by auto
  qed (use buf(7) in auto)
  moreover have "entries (rewind_trim q buf) = drop k old @ drop j own" "floor (rewind_trim q buf) = floor buf"
    using k(2) j(1) by (auto simp: rewind_trim_def split: prod.splits)
  moreover have "set (drop k old) \<subseteq> set start" using buf(5) set_drop_subset [of k old] by blast
  ultimately show ?thesis
    using assms(2) buf chain_drop [OF buf(6), of j] unfolding rewind_inv_def
    by (intro exI [of _ "rewind_trim q buf"] exI [of _ "drop k old"] exI [of _ "drop j own"])
       (auto simp: note_replicated_def shared_ops evicted_def)
qed

text \<open>The state a commit leaves when it is neither fenced nor oversized, up to the gate and the flags.\<close>

lemma rewind_inv_push:
  assumes inv: "rewind_inv env lg start hist n" and "invertible env b" "\<forall>i. invert_changeset env b = Some i \<longrightarrow> i \<in> set lg"
    and "apply_raw env (content (store n)) b = Some db"
    and n': "replicator n' = map_option (rewind_push (ha_repl_seq (store n) + 1) b) (replicator n)"
    and s': "store n' = set_repl_seq (ha_repl_seq (store n) + 1) ((store n)\<lparr>content := db\<rparr>)"
    and l': "sh_last_replicated_seq (shared n') = sh_last_replicated_seq (shared n)"
  shows "rewind_inv env lg start (hist(ha_repl_seq (store n) + 1 := db)) n'"
proof -
  let ?L = "sh_last_replicated_seq (shared n)" let ?q = "ha_repl_seq (store n)" let ?h = "hist(?q + 1 := db)"
  obtain buf old own where buf: "replicator n = Some buf" "ha_row (store n) \<noteq> None" "content (store n) = hist ?q"
    "entries buf = old @ own" "set old \<subseteq> set start" "chain env lg hist (rev own) ?q"
    "?q - length own \<le> ?L \<or> old = [] \<and> ?q - length own \<le> evicted buf" "?L \<le> ?q"
    using inv unfolding rewind_inv_def by blast
  let ?own = "own @ [(?q + 1, b)]"
  have ch: "chain env lg ?h (rev ?own) (?q + 1)"
    using buf(3) assms(2-4) chain_upd [OF buf(6), of "?q + 1" db] by simp
  have es: "entries buf @ [(?q + 1, b)] = old @ ?own" using buf(4) by simp
  obtain k where k: "k \<le> length (old @ ?own)" "entries (rewind_push (?q + 1) b buf) = drop k (old @ ?own)"
    "floor (rewind_push (?q + 1) b buf) = (if k = 0 then floor buf else Some (fst ((old @ ?own) ! (k - 1))))"
    unfolding rewind_push_def es using evict_drop by blast
  obtain j where j: "drop k (old @ ?own) = drop k old @ drop j ?own" "j = k - length old" "j \<le> length ?own"
    by (rule drop_front [OF refl k(1)])
  have low: "?q + 1 - length (drop j ?own) \<le> ?L \<or>
      drop k old = [] \<and> ?q + 1 - length (drop j ?own) \<le> evicted (rewind_push (?q + 1) b buf)"
  proof (cases j)
    case (Suc i)
    then have "k = length old + Suc i" using j(2) by simp
    then have "(old @ ?own) ! (k - 1) = ?own ! i" by (simp only: nth_append_length_plus add_Suc_right diff_Suc_1)
    moreover have "k \<noteq> 0" using Suc j(2) by auto
    ultimately have "evicted (rewind_push (?q + 1) b buf) = fst (?own ! i)" using k(3) by (simp add: evicted_def)
    moreover have "fst (?own ! i) = ?q + 1 - (length ?own - Suc i)" using Suc j(3) by (intro chain_rev_nth [OF ch]) simp
    moreover have "drop k old = []" "length (drop j ?own) = length ?own - Suc i" using Suc j(2) by simp_all
    ultimately show ?thesis by (metis order_refl)
  next
    case 0
    then show ?thesis using buf(7) j(2) k(3) by (cases "k = 0") (auto simp: evicted_def)
  qed
  have st: "ha_repl_seq (store n') = ?q + 1" "content (store n') = db" "ha_row (store n') \<noteq> None"
    using s' buf(2) by simp_all
  show ?thesis
    unfolding rewind_inv_def st(1,2) l'
  proof (intro exI conjI)
    show "replicator n' = Some (rewind_push (?q + 1) b buf)" using n' buf(1) by simp
    show "entries (rewind_push (?q + 1) b buf) = drop k old @ drop j ?own" using k(2) j(1) by (simp only:)
    show "set (drop k old) \<subseteq> set start" using buf(5) set_drop_subset [of k old] by blast
    show "chain env lg ?h (rev (drop j ?own)) (?q + 1)" by (rule chain_drop [OF ch])
    show "db = ?h (?q + 1)" "?L \<le> ?q + 1" using buf(8) by simp_all
  qed (rule st(3), rule low)
qed

lemma commit_cases:
  assumes "replicator n \<noteq> None" "ha_row (store n) \<noteq> None" "rpo (config n) \<noteq> Snapshot"
    and "length b \<le> max_changeset_bytes (config n)"
  defines "q \<equiv> ha_repl_seq (store n) + 1"
  obtains (fenced) "store (fst (commit now acks db (Some b) n)) = store n"
      "replicator (fst (commit now acks db (Some b) n)) = replicator n"
      "shared (fst (commit now acks db (Some b) n)) = shared n"
  | (written) n1 where "replicator n1 = map_option (rewind_push q b) (replicator n)"
      "store n1 = set_repl_seq q ((store n)\<lparr>content := db\<rparr>)"
      "sh_last_replicated_seq (shared n1) = sh_last_replicated_seq (shared n)"
      "(let n' = fst (commit now acks db (Some b) n) in
        (\<exists>n2. (n2 = n1 \<or> n2 = note_replicated q n1) \<and> store n' = store n2 \<and>
          replicator n' = replicator n2 \<and>
          sh_last_replicated_seq (shared n') = sh_last_replicated_seq (shared n2)))"
proof (cases "writable now (gate n)")
  case False
  then show ?thesis
    by (intro fenced) (simp_all add: commit_def assert_still_writable_def check_writable_cases)
next
  case True
  obtain buf r where buf: "replicator n = Some buf" "ha_row (store n) = Some r"
    using assms(1,2) by blast
  have q: "q = row_repl_seq r + 1"
    by (simp add: q_def ha_repl_seq_def buf(2))
  let ?n1 = "n\<lparr>store := set_repl_seq q ((store n)\<lparr>content := db\<rparr>), replicator := Some (rewind_push q b buf)\<rparr>"
  show ?thesis
  proof (rule written [of ?n1])
    show "let n' = fst (commit now acks db (Some b) n) in
        \<exists>n2. (n2 = ?n1 \<or> n2 = note_replicated q ?n1) \<and> store n' = store n2 \<and>
          replicator n' = replicator n2 \<and>
          sh_last_replicated_seq (shared n') = sh_last_replicated_seq (shared n2)"
    proof (cases "rpo (config n) = Sync \<and> (\<exists>a. acks = Some a \<and> data_majority (voter_set_of (config n)) \<le> a)")
      case yes: True
      then show ?thesis
        using True assms(4) buf
        by (auto simp: commit_def assert_still_writable_def check_writable_cases publish_def Let_def
            shared_ops note_replicated_def q intro!: exI [of _ "note_replicated q ?n1"])
    next
      case no: False
      then show ?thesis
        using True assms(3,4) buf
        by (cases "rpo (config n)"; cases acks)
           (auto simp: commit_def assert_still_writable_def check_writable_cases publish_def Let_def
            shared_ops q intro!: exI [of _ ?n1])
    qed
  qed (simp_all add: buf)
qed

lemma rewind_inv_cong:
  "store n' = store n \<Longrightarrow> replicator n' = replicator n \<Longrightarrow>
   sh_last_replicated_seq (shared n') = sh_last_replicated_seq (shared n) \<Longrightarrow>
   rewind_inv env lg start hist n \<Longrightarrow> rewind_inv env lg start hist n'"
  by (simp add: rewind_inv_def)

lemma commit_config [simp]: "config (fst (commit now acks db ch n)) = config n"
  by (auto simp: commit_def publish_def shared_ops note_replicated_def Let_def
      split: sum.splits prod.splits option.splits)

lemma lead_step_config [simp]: "config (lead_step env e n) = config n"
  by (cases e) (auto simp: note_replicated_def shared_ops split: option.splits)

lemma lead_snoc: "lead env (es @ [e]) n = lead_step env e (lead env es n)"
  by (simp add: lead_def)

lemma lead_config [simp]: "config (lead env es n) = config n"
  by (induction es rule: rev_induct) (simp_all add: lead_snoc, simp add: lead_def)

fun event_ok :: "'db ha_env \<Rightarrow> nat \<Rightarrow> lead_event \<Rightarrow> bool" where
  "event_ok env cap (LWrite now acks b) \<longleftrightarrow> length b \<le> cap \<and> invertible env b"
| "event_ok env cap (LAck q) \<longleftrightarrow> True"

text \<open>One step keeps the invariant; the history grows by at most the new position.\<close>

lemma lead_step_inv:
  assumes inv: "rewind_inv env lg start hist n" and "rpo (config n) \<noteq> Snapshot"
    and ok: "event_ok env (max_changeset_bytes (config n)) e" and lg: "set_option (inverse_of env e) \<subseteq> set lg"
  defines "n' \<equiv> lead_step env e n" and "q \<equiv> ha_repl_seq (store n)"
  shows "(ha_repl_seq (store n') = q \<and> rewind_inv env lg start hist n' \<or>
          ha_repl_seq (store n') = q + 1 \<and> rewind_inv env lg start (hist(q + 1 := content (store n'))) n') \<and>
         sh_last_replicated_seq (shared n) \<le> sh_last_replicated_seq (shared n')"
proof (cases e)
  case (LAck x)
  then show ?thesis
    using rewind_inv_ack [OF inv, of x] inv
    by (simp add: n'_def q_def note_replicated_def shared_ops)
next
  case (LWrite now acks b)
  show ?thesis
  proof (cases "apply_raw env (content (store n)) b")
    case None
    then show ?thesis
      using inv LWrite by (simp add: n'_def q_def)
  next
    case (Some db)
    then have n': "n' = fst (commit now acks db (Some b) n)"
      by (simp add: n'_def LWrite)
    have pre: "replicator n \<noteq> None" "ha_row (store n) \<noteq> None"
      "length b \<le> max_changeset_bytes (config n)"
      using inv ok LWrite by (auto simp: rewind_inv_def)
    show ?thesis
    proof (cases rule: commit_cases [OF pre(1,2) assms(2) pre(3), of now acks db, case_names fenced written])
      case fenced
      then show ?thesis
        using inv rewind_inv_cong [of n' n env lg start hist] by (simp add: n' q_def)
    next
      case (written n1)
      have i1: "rewind_inv env lg start (hist(q + 1 := db)) n1"
        using rewind_inv_push [OF inv _ _ Some written(1-3)] ok lg by (auto simp: LWrite q_def)
      have q1: "ha_repl_seq (store n1) = q + 1" "content (store n1) = db"
        using written(2) pre(2) by (simp_all add: q_def)
      have i2: "rewind_inv env lg start (hist(q + 1 := db)) (note_replicated (q + 1) n1)"
        using rewind_inv_ack [OF i1, of "q + 1"] q1 by simp
      obtain n2 where n2: "n2 = n1 \<or> n2 = note_replicated (q + 1) n1"
        "store n' = store n2" "replicator n' = replicator n2"
        "sh_last_replicated_seq (shared n') = sh_last_replicated_seq (shared n2)"
        using written(4) by (auto simp: n' q_def Let_def)
      then have "rewind_inv env lg start (hist(q + 1 := db)) n'"
        using rewind_inv_cong [of n' n2] i1 i2 by blast
      then show ?thesis
        using n2 q1 written(3) by (auto simp: note_replicated_def shared_ops)
    qed
  qed
qed

definition visited :: "'db ha_env \<Rightarrow> lead_event list \<Rightarrow> 'db ha_node \<Rightarrow> nat \<Rightarrow> 'db \<Rightarrow> bool" where
  "visited env es n q db \<longleftrightarrow> (\<exists>es1 es2. es = es1 @ es2 \<and>
     ha_repl_seq (store (lead env es1 n)) = q \<and> content (store (lead env es1 n)) = db)"

lemma visited_snoc: "visited env es n q db \<Longrightarrow> visited env (es @ [e]) n q db"
  unfolding visited_def by (metis append_assoc)

lemma visited_last:
  "visited env es n (ha_repl_seq (store (lead env es n))) (content (store (lead env es n)))"
  unfolding visited_def by (metis append_Nil2)

lemma lead_history:
  assumes "rewind_inv env lg start (\<lambda>_. content (store n)) n" "rpo (config n) \<noteq> Snapshot"
    and "sh_last_replicated_seq (shared n) = ha_repl_seq (store n)"
    and "\<forall>e \<in> set es. event_ok env (max_changeset_bytes (config n)) e \<and> set_option (inverse_of env e) \<subseteq> set lg"
  shows "\<exists>hist. rewind_inv env lg start hist (lead env es n) \<and>
     ha_repl_seq (store n) \<le> sh_last_replicated_seq (shared (lead env es n)) \<and>
     (\<forall>q. ha_repl_seq (store n) \<le> q \<and> q \<le> ha_repl_seq (store (lead env es n)) \<longrightarrow>
        visited env es n q (hist q))"
  using assms(4)
proof (induction es rule: rev_induct)
  case Nil
  then show ?case
    using assms(1,3) visited_last [of env "[]" n]
    by (intro exI [of _ "\<lambda>_. content (store n)"]) (auto simp: lead_def)
next
  case (snoc e es)
  let ?n = "lead env es n" let ?n' = "lead env (es @ [e]) n"
  obtain hist where h: "rewind_inv env lg start hist ?n"
    "ha_repl_seq (store n) \<le> sh_last_replicated_seq (shared ?n)"
    "\<forall>q. ha_repl_seq (store n) \<le> q \<and> q \<le> ha_repl_seq (store ?n) \<longrightarrow> visited env es n q (hist q)"
    using snoc by auto
  have step: "(ha_repl_seq (store ?n') = ha_repl_seq (store ?n) \<and> rewind_inv env lg start hist ?n' \<or>
      ha_repl_seq (store ?n') = ha_repl_seq (store ?n) + 1 \<and>
      rewind_inv env lg start (hist(ha_repl_seq (store ?n) + 1 := content (store ?n'))) ?n') \<and>
      sh_last_replicated_seq (shared ?n) \<le> sh_last_replicated_seq (shared ?n')"
    unfolding lead_snoc using lead_step_inv [OF h(1), of e] snoc.prems assms(2) by simp
  then have mono: "ha_repl_seq (store n) \<le> sh_last_replicated_seq (shared ?n')"
    using h(2) by simp
  from step show ?case
  proof (elim conjE disjE)
    assume "ha_repl_seq (store ?n') = ha_repl_seq (store ?n)" "rewind_inv env lg start hist ?n'"
    then show ?thesis
      using h(3) mono visited_snoc [of env es n _ _ e] by (intro exI [of _ hist]) auto
  next
    assume q: "ha_repl_seq (store ?n') = ha_repl_seq (store ?n) + 1"
      and i: "rewind_inv env lg start (hist(ha_repl_seq (store ?n) + 1 := content (store ?n'))) ?n'"
    let ?h = "hist(ha_repl_seq (store ?n) + 1 := content (store ?n'))"
    have "visited env (es @ [e]) n x (?h x)"
      if "ha_repl_seq (store n) \<le> x" "x \<le> ha_repl_seq (store ?n')" for x
      using h(3) q that visited_snoc [of env es n _ _ e] visited_last [of env "es @ [e]" n]
      by (auto simp: le_Suc_eq)
    then show ?thesis
      using i mono by blast
  qed
qed

lemma rewind_to_sound:
  assumes "concat_law (apply_raw env) lg" "rewind_inv env lg start hist n" "hint = sh_last_replicated_seq (shared n)"
  shows "(\<forall>n' t. rewind_to env hint n = Some (n', t) \<longrightarrow>
            t = hint \<and> ha_repl_seq (store n') = hint \<and> content (store n') = hist hint) \<and>
         (\<forall>buf. replicator n = Some buf \<longrightarrow> can_rewind_to hint buf \<longrightarrow> (\<forall>(q, b)\<in>set start. q \<le> hint) \<longrightarrow>
            (\<exists>n'. rewind_to env hint n = Some (n', hint)))"
proof -
  let ?q = "ha_repl_seq (store n)"
  obtain buf old own where buf: "replicator n = Some buf" "ha_row (store n) \<noteq> None" "content (store n) = hist ?q"
    "entries buf = old @ own" "set old \<subseteq> set start" "chain env lg hist (rev own) ?q"
    "?q - length own \<le> hint \<or> old = [] \<and> ?q - length own \<le> evicted buf" "hint \<le> ?q"
    using assms(2,3) unfolding rewind_inv_def by blast
  show ?thesis
  proof (cases "?q = hint \<or> \<not> can_rewind_to hint buf")
    case True
    then show ?thesis
      using buf(1-3) buf(8) assms(3) by (auto simp: rewind_to_def Let_def)
  next
    case False
    then have "?q - length (rev own) \<le> hint"
      using buf(7) by (auto simp: can_rewind_to_def evicted_def split: option.splits)
    from collect_sound [OF buf(6) this buf(8), of "rev old" "[]"]
    obtain cs where cs: "set cs \<subseteq> set lg" "replay (apply_raw env) (hist ?q) cs = Some (hist hint)"
      "collect_inverted (invert_changeset env) hint ?q (rev (entries buf)) [] \<in> {None, Some (concat cs)}"
      "(\<forall>(q, b)\<in>set old. q \<le> hint) \<longrightarrow>
         collect_inverted (invert_changeset env) hint ?q (rev (entries buf)) [] = Some (concat cs)"
      using buf(4) by auto
    have "apply_raw env (hist ?q) (concat cs) = Some (hist hint)"
      using assms(1) cs(1,2) by (simp add: concat_law_def)
    then have "rewind_to env hint n =
        Some (n\<lparr>store := set_repl_seq hint ((store n)\<lparr>content := hist hint\<rparr>)\<rparr>, hint)"
      if "collect_inverted (invert_changeset env) hint ?q (rev (entries buf)) [] = Some (concat cs)"
      using that False buf(1-3) buf(8) assms(3) by (auto simp: rewind_to_def Let_def apply_rewind_def)
    moreover have "rewind_to env hint n = None"
      if "collect_inverted (invert_changeset env) hint ?q (rev (entries buf)) [] = None"
      using that False buf(1) buf(8) assms(3) by (auto simp: rewind_to_def Let_def)
    ultimately show ?thesis
      using cs(3,4) buf(1,2,5) by auto
  qed
qed


lemma toy_deletes: "toy_apply (db @ c) (map (\<lambda>_. CHR 0x00) c) = Some db"
proof (induction c arbitrary: db rule: rev_induct)
  case (snoc x c)
  have "toy_apply (db @ c @ [x]) (CHR 0x00 # map (\<lambda>_. CHR 0x00) c) = toy_apply (db @ c) (map (\<lambda>_. CHR 0x00) c)"
    by (simp add: butlast_append)
  moreover have "map (\<lambda>_. CHR 0x00) (c @ [x]) = CHR 0x00 # map (\<lambda>_. CHR 0x00) c"
    by (induction c) auto
  ultimately show ?case
    using snoc by simp
qed simp

lemma toy_appends: "CHR 0x00 \<notin> set c \<Longrightarrow> toy_apply db c = Some (db @ c)"
  by (induction db c rule: toy_apply.induct) auto

lemma toy_invertible: "CHR 0x00 \<notin> set c \<Longrightarrow> invertible toy_env c"
  by (simp add: invertible_def toy_env_def toy_appends toy_deletes)

definition toy_events :: "lead_event list" where
  "toy_events = [LWrite 1 None ''x'', LWrite 2 None ''yy'', LAck 1, LWrite 3 None ''z'']"

definition toy_demoted :: "string ha_node" where
  "toy_demoted = lead toy_env toy_events (toy_node Leader Async 0 [])"

lemma toy_demoted_state:
  "sh_last_replicated_seq (shared toy_demoted) = 1 \<and> ha_repl_seq (store toy_demoted) = 3 \<and>
   content (store toy_demoted) = ''xyyz'' \<and>
   map_option (can_rewind_to 1) (replicator toy_demoted) = Some True"
  by (simp add: toy_demoted_def toy_events_def lead_def toy_node_def toy_config_def toy_env_def
      shared_default_def rewind_default_def commit_def publish_def assert_still_writable_def
      check_writable_def ha_repl_seq_def set_repl_seq_def rewind_push_def REWIND_MAX_ENTRIES_def
      REWIND_MAX_BYTES_def note_replicated_def rewind_trim_def can_rewind_to_def shared_ops)


text \<open>The rewind buffer stays within its caps after any sequence of pushes and trims: at most 512
  entries and 8 MiB, and the byte counter is exactly the size of the entries it holds, so none of
  its subtractions underflows.\<close>

theorem rewind_buffer_bounded:
  "buf = fold (\<lambda>e. case e of Inl (q, b) \<Rightarrow> rewind_push q b | Inr r \<Rightarrow> rewind_trim r) ops rewind_default \<Longrightarrow>
   length (entries buf) \<le> 512 \<and> buffered_bytes buf \<le> 8 * 1024 * 1024 \<and>
   buffered_bytes buf = (\<Sum>e \<leftarrow> entries buf. length (snd e))"
proof -
  have "buffer_wf (fold (\<lambda>e. case e of Inl (q, b) \<Rightarrow> rewind_push q b | Inr r \<Rightarrow> rewind_trim r) ops rewind_default)"
    by (induction ops rule: rev_induct)
       (auto simp: buffer_wf_default intro: buffer_wf_push buffer_wf_trim split: sum.split)
  then show "buf = fold (\<lambda>e. case e of Inl (q, b) \<Rightarrow> rewind_push q b | Inr r \<Rightarrow> rewind_trim r) ops rewind_default \<Longrightarrow>
      length (entries buf) \<le> 512 \<and> buffered_bytes buf \<le> 8 * 1024 * 1024 \<and>
      buffered_bytes buf = (\<Sum>e \<leftarrow> entries buf. length (snd e))"
    by (simp add: buffer_wf_def REWIND_MAX_ENTRIES_def REWIND_MAX_BYTES_def entry_bytes_def)
qed

theorem rewind_buffer_bounded_witness:
  "length (entries (rewind_push 2 ''yy'' (rewind_push 1 ''x'' rewind_default))) \<le> 512 \<and>
   entries (rewind_push 2 ''yy'' (rewind_push 1 ''x'' rewind_default)) = [(1, ''x''), (2, ''yy'')]"
  using rewind_buffer_bounded [of _ "[Inl (1, ''x''), Inl (2, ''yy'')]", OF refl]
  by (simp add: rewind_push_def rewind_default_def REWIND_MAX_ENTRIES_def REWIND_MAX_BYTES_def)

section \<open>Writes that never reach a standby\<close>

lemma writable_commit:
  assumes "writable now (gate n)" "replicator n = Some buf" "max_changeset_bytes (config n) < length b"
  shows "commit now acks db (Some b) n =
     (request_snapshot (n\<lparr>store := (store n)\<lparr>content := db\<rparr>\<rparr>), Committed)"
  using assms by (simp add: commit_def assert_still_writable_def check_writable_cases Let_def)

text \<open>Such a write stays when the leader is demoted: with nothing else unreplicated the rewind finds
  the node at its target and changes nothing.\<close>

lemma oversized_write_survives_rewind:
  assumes "writable now (gate n)" "replicator n = Some buf" "max_changeset_bytes (config n) < length b"
    and "ha_repl_seq (store n) \<le> sh_last_replicated_seq (shared n)"
    and "demoted = fst (commit now acks db (Some b) n)"
  shows "rewind_to env hint demoted = Some (demoted, ha_repl_seq (store n)) \<and> content (store demoted) = db"
proof -
  have d: "demoted = request_snapshot (n\<lparr>store := (store n)\<lparr>content := db\<rparr>\<rparr>)"
    using writable_commit [OF assms(1-3)] assms(5) by simp
  then show ?thesis
    using assms(2,4) by (auto simp: rewind_to_def shared_ops Let_def ha_repl_seq_def)
qed

text \<open>A rewind leaves the undone entries in the buffer. When the node leads again from below their
  numbers, the first of them stops the collection behind its own changesets, and the next rewind
  fails although nothing was evicted.\<close>

lemma stale_entry_blocks_rewind:
  assumes "chain env lg hist rs e" "e - length rs = target" "target < e" "(q, b) = hd old" "old \<noteq> []" "target < q"
  shows "collect_inverted (invert_changeset env) target e (rs @ old) acc = None"
  using assms
proof (induction rs arbitrary: e acc)
  case (Cons r rs)
  obtain p c where r: "r = (p, c)" by fastforce
  obtain i where i: "invert_changeset env c = Some i" using Cons.prems(1) r by (auto simp: invertible_def)
  show ?case
  proof (cases "target < e - 1")
    case True
    then show ?thesis using Cons.prems r i Cons.IH [of "e - 1" "acc @ i"] by auto
  next
    case False
    have "length rs \<le> e - 1" using Cons.prems(1) r chain_length [of env lg hist rs "e - 1"] by simp
    with False Cons.prems(2,3) have "length rs = 0" unfolding list.size by arith
    with False Cons.prems(2,3) have e: "e - 1 = target" "rs = []" by auto
    then show ?thesis using Cons.prems r i by (cases old) auto
  qed
qed simp

text \<open>A write whose changeset is above the cap is committed and acknowledged without moving the
  replication sequence.  The snapshot it asks for is then not cut (the advertised one, of the same
  sequence, is reused), and a standby at that sequence neither applies a batch for it nor installs
  a snapshot: the two databases differ for as long as nothing else is written, while both report
  the same position, so either may win an election.\<close>

theorem oversized_write_is_not_replicated:
  assumes "writable now (gate n)" "replicator n = Some buf"
    and "max_changeset_bytes (config n) < length b"
    and "commit now acks db (Some b) n = (n', res)"
    and "sh_snapshot_id (shared n) = Some i" "files i = Some f" "sf_seq f = sh_snapshot_seq (shared n)"
    and "sh_snapshot_seq (shared n) = ha_repl_seq (store n)"
    and "sh_applied_seq (shared standby) = ha_repl_seq (store n)"
    and "\<not> sh_need_full_snapshot (shared standby)"
    and "schema_version (store standby) = schema_version (store n)"
  shows "res = Committed \<and> content (store n') = db \<and>
         ha_repl_seq (store n') = ha_repl_seq (store n) \<and>
         create_snapshot t1 t2 t3 created files n' = (files, n', Inr f) \<and>
         apply_from (Some f) (schema_version (store n')) standby = (standby, Some False)"
proof -
  have n': "n' = request_snapshot (n\<lparr>store := (store n)\<lparr>content := db\<rparr>\<rparr>)" "res = Committed"
    using writable_commit [OF assms(1-3), of acks db] assms(4) by auto
  then show ?thesis
    using assms(5-) by (simp add: create_snapshot_def apply_from_def is_stale_def shared_ops)
qed

definition toy_leader :: "string ha_node" where
  "toy_leader = (toy_node Leader Sync 2 ''xy'')\<lparr>shared :=
     (shared (toy_node Leader Sync 2 ''xy''))\<lparr>sh_snapshot_id := Some ''s'', sh_snapshot_seq := 2\<rparr>\<rparr>"

definition toy_file :: "string snapshot_file" where
  "toy_file = \<lparr>sf_id = ''s'', sf_cluster_id = ''c'', sf_seq = 2, sf_created_unix = 5, sf_schema = 7,
     sf_store = store toy_leader\<rparr>"

theorem oversized_write_is_not_replicated_witness:
  "snd (commit 1 None ''xyvwxyz'' (Some ''vwxyz'') toy_leader) = Committed \<and>
   ha_repl_seq (store (fst (commit 1 None ''xyvwxyz'' (Some ''vwxyz'') toy_leader))) = 2 \<and>
   content (store (fst (commit 1 None ''xyvwxyz'' (Some ''vwxyz'') toy_leader))) = ''xyvwxyz'' \<and>
   apply_from (Some toy_file) 7 (toy_node Standby Sync 2 ''xy'') = (toy_node Standby Sync 2 ''xy'', Some False)"
  using oversized_write_is_not_replicated [of 1 toy_leader rewind_default "''vwxyz''" None "''xyvwxyz''"
      "fst (commit 1 None ''xyvwxyz'' (Some ''vwxyz'') toy_leader)"
      "snd (commit 1 None ''xyvwxyz'' (Some ''vwxyz'') toy_leader)" "''s''" "[''s'' \<mapsto> toy_file]" toy_file
      "toy_node Standby Sync 2 ''xy''" 0 0 0 0]
    writable_commit [of 1 toy_leader rewind_default "''vwxyz''" None "''xyvwxyz''"]
  by (simp add: toy_leader_def toy_node_def toy_config_def toy_file_def writable_def shared_default_def
      ha_repl_seq_def request_snapshot_def upd_shared_def)

lemma begin_checked_ok:
  assumes "begin_checked t1 t2 n = (m, Committed)"
  shows "ha_row (store m) \<noteq> None" "shared m = shared n" "replicator m = replicator n"
  using assms
  by (auto simp: begin_checked_def assert_writable_cases check_writable_cases
      assert_still_writable_def split: option.splits if_splits)

lemma next_repl_seq_ok:
  assumes "next_repl_seq t1 t2 t3 n = (n', Inr q)"
  shows "ha_repl_seq (store n') = q" "shared n' = shared n" "replicator n' = replicator n"
proof -
  obtain m res where m: "begin_checked t1 t2 n = (m, res)"
    by fastforce
  then have res: "res = Committed"
    using assms by (cases res) (simp_all add: next_repl_seq_def)
  have n': "q = ha_repl_seq (store m) + 1 \<and> n' = m\<lparr>store := set_repl_seq q (store m)\<rparr>"
    using assms m res
    by (simp add: next_repl_seq_def check_writable_cases assert_still_writable_def split: if_splits)
       auto
  then show "ha_repl_seq (store n') = q" "shared n' = shared n" "replicator n' = replicator n"
    using begin_checked_ok [OF m [unfolded res]] by auto
qed

lemma cut_snapshot_file:
  assumes "cut_snapshot t1 t2 t3 created files n = (files1, n1, Inr f)" "replicator n = None"
  shows "files1 (sf_id f) = Some f \<and> sf_store f = store n1 \<and> ha_repl_seq (store n1) = sf_seq f \<and>
     sh_snapshot_id (shared n1) = Some (sf_id f) \<and> sh_snapshot_seq (shared n1) = sf_seq f \<and>
     replicator n1 = None"
  using assms next_repl_seq_ok [of t1 t2 t3 n]
  by (auto simp: cut_snapshot_def Let_def set_snapshot_def upd_shared_def split: prod.splits sum.splits)

lemma commit_plain:
  assumes "replicator m = None"
  shows "shared (fst (commit now acks db ch m)) = shared m"
    and "ha_repl_seq (store (fst (commit now acks db ch m))) = ha_repl_seq (store m)"
    and "replicator (fst (commit now acks db ch m)) = None"
  using assms
  by (simp_all add: commit_def assert_still_writable_def check_writable_cases Let_def)

text \<open>In snapshot mode no write moves the replication sequence (there is no replicator), so once a
  snapshot is advertised every later one is that same file: whatever the leader commits afterwards
  is in no snapshot, and a standby that has the first one installs nothing more.\<close>

theorem snapshot_mode_ships_one_snapshot:
  assumes "replicator n = None"
    and "create_snapshot t1 t2 t3 created files n = (files1, n1, Inr f)"
    and "n2 = fold (\<lambda>(now, db, ch) n. fst (commit now None db ch n)) writes n1"
    and "sh_snapshot_id (shared n) = None"
    and "sh_applied_seq (shared standby) = sf_seq f" "\<not> sh_need_full_snapshot (shared standby)"
    and "schema_version (store standby) = schema_version (store n2)"
  shows "create_snapshot u1 u2 u3 created' files1 n2 = (files1, n2, Inr f) \<and>
         sf_store f = store n1 \<and>
         apply_from (Some f) (schema_version (store n2)) standby = (standby, Some False)"
proof -
  have f: "files1 (sf_id f) = Some f \<and> sf_store f = store n1 \<and> ha_repl_seq (store n1) = sf_seq f \<and>
      sh_snapshot_id (shared n1) = Some (sf_id f) \<and> sh_snapshot_seq (shared n1) = sf_seq f \<and>
      replicator n1 = None"
    using assms(1,2,4) by (intro cut_snapshot_file) (simp_all add: create_snapshot_def)
  have "shared n2 = shared n1 \<and> ha_repl_seq (store n2) = ha_repl_seq (store n1) \<and> replicator n2 = None"
    unfolding assms(3)
    by (induction writes rule: rev_induct) (simp_all add: f commit_plain split: prod.split)
  then show ?thesis
    using f assms(5-7) by (simp add: create_snapshot_def apply_from_def is_stale_def)
qed

definition toy_cut :: "(string \<rightharpoonup> string snapshot_file) \<times> string ha_node \<times> (commit_result + string snapshot_file)" where
  "toy_cut = create_snapshot 0 0 0 5 Map.empty (toy_node Leader Snapshot 1 ''x'')"

lemma toy_cut_ok:
  "\<exists>files1 n1 f. toy_cut = (files1, n1, Inr f) \<and> content (sf_store f) = ''x'' \<and> sf_seq f = 2"
  by (simp add: toy_cut_def create_snapshot_def cut_snapshot_def next_repl_seq_def begin_checked_def
      assert_writable_cases check_writable_cases assert_still_writable_def writable_def toy_node_def
      shared_default_def ha_repl_seq_def set_repl_seq_def Let_def)

theorem snapshot_mode_ships_one_snapshot_witness:
  "\<exists>files1 n1 f. toy_cut = (files1, n1, Inr f) \<and> content (sf_store f) = ''x'' \<and>
     (let n2 = fst (commit 3 None ''xy'' (Some ''y'') n1) in
      create_snapshot 4 4 4 9 files1 n2 = (files1, n2, Inr f))"
proof -
  obtain files1 n1 f where c: "toy_cut = (files1, n1, Inr f)" "content (sf_store f) = ''x''" "sf_seq f = 2"
    using toy_cut_ok by blast
  let ?n2 = "fst (commit 3 None ''xy'' (Some ''y'') n1)"
  let ?s = "(toy_node Standby Snapshot 2 ''x'')\<lparr>store := store ?n2\<rparr>"
  have "create_snapshot 4 4 4 9 files1 ?n2 = (files1, ?n2, Inr f)"
    using snapshot_mode_ships_one_snapshot [of "toy_node Leader Snapshot 1 ''x''" 0 0 0 5 Map.empty files1 n1 f
        ?n2 "[(3, ''xy'', Some ''y'')]" ?s 4 4 4 9] c
    by (simp add: toy_cut_def toy_node_def shared_default_def)
  then show ?thesis
    using c by (auto simp: Let_def)
qed

end
