(* ===== verification/HaElection.thy ===== *)
theory HaElection
  imports HaRepl
begin

text \<open>High availability, part 4: one replica's side of the election protocol (\<open>ha/election.rs\<close>,
  \<open>ha/witness.rs\<close>, the start-up of \<open>ha/role.rs\<close>).  Every handler is a function from the replica's
  state and what it reads from outside to its new state and its answer.  A handler that waits, or that
  reads the term or the vote and writes it later, is cut into parts there (\<open>election_round\<close> at its
  two polls, \<open>promote\<close> at its lock and its two database calls, \<open>handle_vote\<close> and
  \<open>handle_heartbeat\<close> between their reads and writes, the leader's tick at every answer), so that the
  cluster model can interleave other handlers of the same replica.\<close>

section \<open>Messages\<close>

record vote_request =
  vr_cluster_id :: string
  vr_term :: nat
  vr_candidate_id :: string
  vr_applied_seq :: nat
  vr_pre_vote :: bool

record vote_response =
  vp_term :: nat
  vp_granted :: bool
  vp_applied_seq :: nat

record beat_request =
  hb_cluster_id :: string
  hb_term :: nat
  hb_epoch :: nat
  hb_leader_id :: string
  hb_leader_url :: string
  hb_commit_seq :: nat

record heartbeat_response =
  hr_term :: nat
  hr_ok :: bool
  hr_applied_seq :: nat
  hr_role :: string

section \<open>Stepping down\<close>

definition discard_unreplicated_writes :: "'db ha_env \<Rightarrow> 'db ha_node \<Rightarrow> 'db ha_node option" where
  "discard_unreplicated_writes env n =
     (case rewind_to env (sh_last_replicated_seq (shared n)) n of
        None \<Rightarrow> None
      | Some (n', seq) \<Rightarrow> Some (set_applied_seq seq n'))"

definition demote :: "'db ha_env \<Rightarrow> 'db ha_node \<Rightarrow> 'db ha_node" where
  "demote env n =
     (if role (gate n) \<noteq> Leader then n
      else let n = clear_leader (upd_gate gate_demote n) in
      if admitted_writes (gate n) = 0 then n
      else case (if rewind_in_time env then discard_unreplicated_writes env n else None) of
             Some n' \<Rightarrow> n'
           | None \<Rightarrow> set_applied_seq 0 (set_need_full_snapshot n))"

section \<open>Votes\<close>

definition leader_contact_fresh :: "nat \<Rightarrow> 'db ha_node \<Rightarrow> bool" where
  "leader_contact_fresh now n \<longleftrightarrow>
     now < min u64_max (sh_last_contact_ms (shared n) + election_timeout (config n))"

definition deny :: "nat \<Rightarrow> nat \<Rightarrow> vote_response" where
  "deny t applied = \<lparr>vp_term = t, vp_granted = False, vp_applied_seq = applied\<rparr>"

definition handle_pre_vote :: "nat \<Rightarrow> nat \<Rightarrow> vote_request \<Rightarrow> 'db ha_node \<Rightarrow> vote_response" where
  "handle_pre_vote now applied req n =
     (let t = sh_term (shared n) in
      if applied > vr_applied_seq req then deny t applied
      else if sh_leader (shared n) \<noteq> None \<and>
              now - sh_last_contact_ms (shared n) < election_timeout (config n) div 2
      then deny t applied
      else \<lparr>vp_term = t, vp_granted = True, vp_applied_seq = applied\<rparr>)"

text \<open>\<open>handle_vote\<close> is not one critical section: it reads the term, may write it, reads it again
  with the vote, and may write the vote.  Each part below touches the shared state once, and the
  cluster model lets other handlers of the same replica run between them.  First the checks, which
  answer (\<open>Inl\<close>) or go on with the term they saw (\<open>Inr\<close>).\<close>

definition check_vote :: "nat \<Rightarrow> nat \<Rightarrow> vote_request \<Rightarrow> 'db ha_node \<Rightarrow> vote_response + nat" where
  "check_vote now applied req n =
     (let t = sh_term (shared n) in
      if vr_cluster_id req \<noteq> cluster_id (config n) then Inl (deny t applied)
      else if vr_term req < t then Inl (deny t applied)
      else if vr_pre_vote req then Inl (handle_pre_vote now applied req n)
      else Inr t)"

text \<open>The term is adopted against the term that was seen; a leader steps down.\<close>

definition adopt_term :: "'db ha_env \<Rightarrow> nat \<Rightarrow> nat \<Rightarrow> 'db ha_node \<Rightarrow> 'db ha_node" where
  "adopt_term env seen t n =
     (if t > seen
      then let n = fst (set_term_and_vote (save_ok env) t None n)
           in if is_leader (gate n) \<and> topology_role (config n) = DataRole then demote env n else n
      else n)"

text \<open>Then the candidate is weighed: \<open>Inr current\<close> when the vote is to be written for that term.\<close>

definition weigh_vote ::
  "'db ha_env \<Rightarrow> nat \<Rightarrow> vote_request \<Rightarrow> 'db ha_node \<Rightarrow> 'db ha_node \<times> (vote_response + nat)" where
  "weigh_vote env applied req n =
     (let current = sh_term (shared n);
          n = observe_peer (now_unix env) (vr_candidate_id req) True (Some (vr_applied_seq req))
                (touch_leader (now_ms env) n)
      in if applied > vr_applied_seq req then (n, Inl (deny current applied))
         else let grant = (case sh_voted_for (shared n) of
                             None \<Rightarrow> True | Some v \<Rightarrow> v = vr_candidate_id req)
              in if grant then (n, Inr current) else (n, Inl (deny current applied)))"

definition write_vote ::
  "'db ha_env \<Rightarrow> nat \<Rightarrow> vote_request \<Rightarrow> nat \<Rightarrow> 'db ha_node \<Rightarrow> 'db ha_node \<times> vote_response" where
  "write_vote env applied req current n =
     (case set_term_and_vote (save_ok2 env) current (Some (vr_candidate_id req)) n of
        (n', True) \<Rightarrow> (n', \<lparr>vp_term = current, vp_granted = True, vp_applied_seq = applied\<rparr>)
      | (n', False) \<Rightarrow> (n', deny current applied))"

text \<open>The whole handler, when nothing runs in between.\<close>

definition handle_vote ::
  "'db ha_env \<Rightarrow> nat \<Rightarrow> vote_request \<Rightarrow> 'db ha_node \<Rightarrow> 'db ha_node \<times> vote_response" where
  "handle_vote env applied req n =
     (case check_vote (now_ms env) applied req n of
        Inl resp \<Rightarrow> (n, resp)
      | Inr seen \<Rightarrow>
          (case weigh_vote env applied req (adopt_term env seen (vr_term req) n) of
             (n, Inl resp) \<Rightarrow> (n, resp)
           | (n, Inr current) \<Rightarrow> write_vote env applied req current n))"

text \<open>The two callers: a data node answers with its own position, a witness with zero.\<close>

definition vote_position :: "'db ha_node \<Rightarrow> nat" where
  "vote_position n = (if topology_role (config n) = DataRole then sh_applied_seq (shared n) else 0)"

section \<open>Heartbeats\<close>

text \<open>The heartbeat handler, cut between reading the term and adopting a newer one.\<close>

definition check_heartbeat :: "nat \<Rightarrow> beat_request \<Rightarrow> 'db ha_node \<Rightarrow> heartbeat_response + nat" where
  "check_heartbeat applied req n =
     (let t = sh_term (shared n);
          refuse = \<lparr>hr_term = t, hr_ok = False, hr_applied_seq = applied, hr_role = role_str (role (gate n))\<rparr>
      in if hb_cluster_id req \<noteq> cluster_id (config n) then Inl refuse
         else if hb_term req < t then Inl refuse
         else Inr t)"

definition accept_heartbeat ::
  "'db ha_env \<Rightarrow> nat \<Rightarrow> nat \<Rightarrow> beat_request \<Rightarrow> 'db ha_node \<Rightarrow> 'db ha_node \<times> heartbeat_response" where
  "accept_heartbeat env applied seen req n =
     (let n = (if hb_term req > seen
               then fst (set_term_and_vote (save_ok env) (hb_term req) None n) else n);
          current = sh_term (shared n);
          n = (if is_leader (gate n) \<and> hb_leader_id req \<noteq> node_id (config n) \<and>
                  topology_role (config n) = DataRole then demote env n else n);
          n = (if hb_epoch req > epoch (gate n) then upd_gate (set_epoch (hb_epoch req)) n else n);
          n = observe_peer (now_unix env) (hb_leader_id req) True None
                (touch_leader (now_ms env) (set_leader (hb_leader_id req) (hb_leader_url req) n))
      in (n, \<lparr>hr_term = current, hr_ok = True, hr_applied_seq = applied,
              hr_role = role_str (role (gate n))\<rparr>))"

definition heartbeat_of :: "'db ha_node \<Rightarrow> beat_request" where
  "heartbeat_of n =
     \<lparr>hb_cluster_id = cluster_id (config n), hb_term = sh_term (shared n), hb_epoch = epoch (gate n),
      hb_leader_id = node_id (config n), hb_leader_url = advertise_url (config n),
      hb_commit_seq = sh_applied_seq (shared n)\<rparr>"

text \<open>One answer of the heartbeat fan-out: \<open>Some n\<close> when the leader stepped down.\<close>

fun collect_acks ::
  "'db ha_env \<Rightarrow> (bool \<times> string \<times> heartbeat_response option) list \<Rightarrow> nat \<Rightarrow> nat \<Rightarrow> 'db ha_node \<Rightarrow>
     'db ha_node \<times> (nat \<times> nat) option" where
  "collect_acks env [] acks data_acks n = (n, Some (acks, data_acks))"
| "collect_acks env ((is_data, pid, None) # rs) acks data_acks n =
     collect_acks env rs acks data_acks (observe_peer (now_unix env) pid False None n)"
| "collect_acks env ((is_data, pid, Some resp) # rs) acks data_acks n =
     (let n = observe_peer (now_unix env) pid (hr_ok resp) (Some (hr_applied_seq resp)) n in
      if hr_term resp > sh_term (shared n)
      then (demote env (fst (set_term_and_vote (save_ok env) (hr_term resp) None n)), None)
      else if hr_ok resp
      then collect_acks env rs (acks + 1) (if is_data then data_acks + 1 else data_acks) n
      else collect_acks env rs acks data_acks n)"

text \<open>One tick of \<open>leader_loop\<close>: its start, \<open>True\<close> when it goes on to collect answers (one at a time,
  \<open>collect_acks\<close>), and its end once the deadline or the last answer is there.\<close>

definition begin_tick :: "'db ha_env \<Rightarrow> 'db ha_node \<Rightarrow> 'db ha_node \<times> bool" where
  "begin_tick env n =
     (if \<not> is_leader (gate n) then (n, False)
      else if \<not> lease_live (now_ms env) (gate n) then (demote env n, False)
      else (n, True))"

definition end_tick :: "'db ha_env \<Rightarrow> nat \<Rightarrow> nat \<Rightarrow> 'db ha_node \<Rightarrow> 'db ha_node" where
  "end_tick env acks data_acks n =
     (if \<not> is_leader (gate n) then n
      else if sh_replication_lost (shared n)
      then demote env (upd_shared (\<lambda>s. s\<lparr>sh_replication_lost := False\<rparr>) n)
      else if acks \<ge> majority (voter_set_of (config n)) \<and>
              write_quorum_met (voter_set_of (config n)) data_acks (rpo (config n))
      then touch_leader (now_ms env) (upd_gate (renew_for (now_ms env) (lease_ttl (config n))) n)
      else n)"

section \<open>Campaigning\<close>

record ballot =
  bl_votes :: nat
  bl_data_votes :: nat
  bl_max_seq :: nat
  bl_newer_term :: "nat option"

definition open_ballot :: "'db ha_node \<Rightarrow> ballot" where
  "open_ballot n = \<lparr>bl_votes = 1, bl_data_votes = 1, bl_max_seq = sh_applied_seq (shared n),
                    bl_newer_term = None\<rparr>"

definition ballot_won :: "'db ha_node \<Rightarrow> ballot \<Rightarrow> bool" where
  "ballot_won n b \<longleftrightarrow>
     election_won (voter_set_of (config n)) (bl_votes b) (bl_data_votes b) (rpo (config n))"

text \<open>One answer of \<open>solicit\<close>: \<open>my_term\<close> is the candidate's term when the answer is read.\<close>

definition count_answer :: "nat \<Rightarrow> bool \<Rightarrow> vote_response \<Rightarrow> ballot \<Rightarrow> ballot" where
  "count_answer my_term is_data resp b =
     (let b = b\<lparr>bl_max_seq := max (bl_max_seq b) (vp_applied_seq resp)\<rparr> in
      if vp_term resp > my_term then b\<lparr>bl_newer_term := Some (vp_term resp)\<rparr>
      else if vp_granted resp
      then b\<lparr>bl_votes := bl_votes b + 1,
             bl_data_votes := (if is_data then bl_data_votes b + 1 else bl_data_votes b)\<rparr>
      else b)"

text \<open>The loop of \<open>solicit\<close> over the answers in the order they arrive (\<open>None\<close> for a failed request).\<close>

fun solicit ::
  "'db ha_node \<Rightarrow> (nat \<times> bool \<times> vote_response option) list \<Rightarrow> ballot \<Rightarrow> ballot" where
  "solicit n [] b = b"
| "solicit n ((my_term, is_data, resp) # rs) b =
     (if ballot_won n b then b
      else case resp of
             None \<Rightarrow> solicit n rs b
           | Some r \<Rightarrow>
               let b = count_answer my_term is_data r b in
               if bl_newer_term b \<noteq> None then b else solicit n rs b)"

definition bid_of :: "'db ha_node \<Rightarrow> vote_request" where
  "bid_of n = \<lparr>vr_cluster_id = cluster_id (config n), vr_term = sh_term (shared n) + 1,
     vr_candidate_id = node_id (config n), vr_applied_seq = sh_applied_seq (shared n),
     vr_pre_vote = False\<rparr>"

datatype promote_result = Promoted | NotPromoted | PromoteError

text \<open>\<open>promote\<close> waits for its lock, and twice for the database; the parts between the waits.  The term
  is checked under the lock and not again.\<close>

definition may_promote :: "nat \<Rightarrow> 'db ha_node \<Rightarrow> bool" where
  "may_promote t n \<longleftrightarrow> \<not> is_leader (gate n) \<and> sh_term (shared n) = t"

definition new_epoch :: "nat \<Rightarrow> 'db ha_node \<Rightarrow> nat" where
  "new_epoch t n = max t (ha_epoch (store n) + 1)"

definition write_epoch :: "nat \<Rightarrow> nat \<Rightarrow> 'db ha_node \<Rightarrow> ('db ha_node \<times> nat) option" where
  "write_epoch e t n =
     (case promote_epoch e t (node_id (config n)) (rpo (config n) = Snapshot) (store n) of
        None \<Rightarrow> None
      | Some (s, seq) \<Rightarrow> Some (n\<lparr>store := s\<rparr>, seq))"

definition open_gate :: "'db ha_env \<Rightarrow> nat \<Rightarrow> nat \<Rightarrow> 'db ha_node \<Rightarrow> 'db ha_node" where
  "open_gate env e seq n =
     advance_last_replicated_seq seq (set_applied_seq seq (touch_leader (now_ms env)
       (set_leader (node_id (config n)) (advertise_url (config n))
         (upd_gate (promote_for (now_ms env) e (lease_ttl (config n))) n))))"

definition promote :: "'db ha_env \<Rightarrow> nat \<Rightarrow> 'db ha_node \<Rightarrow> 'db ha_node \<times> promote_result" where
  "promote env t n =
     (if sh_need_full_snapshot (shared n) then (n, PromoteError)
      else if \<not> may_promote t n then (n, NotPromoted)
      else let e = new_epoch t n in
      case write_epoch e t n of
        None \<Rightarrow> (n, PromoteError)
      | Some (n, seq) \<Rightarrow> (open_gate env e seq n, Promoted))"

text \<open>An election's promotion, by the wait it is at.\<close>

datatype promotion =
    AwaitLock nat
  | AwaitEpoch nat
  | AwaitWrite nat nat
  | AwaitGate nat nat nat

fun promote_step :: "'db ha_env \<Rightarrow> promotion \<Rightarrow> 'db ha_node \<Rightarrow> 'db ha_node \<times> (promote_result + promotion)" where
  "promote_step env (AwaitLock t) n = (n, if may_promote t n then Inr (AwaitEpoch t) else Inl NotPromoted)"
| "promote_step env (AwaitEpoch t) n = (n, Inr (AwaitWrite t (new_epoch t n)))"
| "promote_step env (AwaitWrite t e) n =
     (case write_epoch e t n of
        None \<Rightarrow> (n, Inl PromoteError)
      | Some (n', seq) \<Rightarrow> (n', Inr (AwaitGate t e seq)))"
| "promote_step env (AwaitGate t e seq) n = (open_gate env e seq n, Inl Promoted)"

text \<open>\<open>election_round\<close> between the pre-vote answers and the real requests: the new state and whether
  the node campaigns.\<close>

definition after_probe :: "'db ha_env \<Rightarrow> nat \<Rightarrow> ballot \<Rightarrow> 'db ha_node \<Rightarrow> 'db ha_node \<times> bool" where
  "after_probe env t probe n =
     (case bl_newer_term probe of
        Some newer \<Rightarrow> (fst (set_term_and_vote (save_ok env) newer None n), False)
      | None \<Rightarrow>
          if \<not> ballot_won n probe then (n, False)
          else if bl_max_seq probe > sh_applied_seq (shared n) then (n, False)
          else set_term_and_vote (save_ok env) t (Some (node_id (config n))) n)"

text \<open>\<open>election_round\<close> after the answers to the real requests: the new state and whether it calls
  \<open>promote\<close>.\<close>

definition after_ballot ::
  "'db ha_env \<Rightarrow> nat \<Rightarrow> ballot \<Rightarrow> 'db ha_node \<Rightarrow> 'db ha_node \<times> bool" where
  "after_ballot env probe_max b n =
     (case bl_newer_term b of
        Some newer \<Rightarrow> (fst (set_term_and_vote (save_ok env) newer None n), False)
      | None \<Rightarrow>
          if max (bl_max_seq b) probe_max > sh_applied_seq (shared n) then (n, False)
          else (n, ballot_won n b))"

text \<open>Operator-driven promotion.  \<open>catch_up\<close> is the best-effort catch-up from the known leader (its
  effect on the replica and whether it succeeded), \<open>responds\<close> whether that leader still answers.\<close>

definition manual_promote ::
  "'db ha_env \<Rightarrow> ('db ha_node \<Rightarrow> 'db ha_node \<times> bool) \<Rightarrow> bool \<Rightarrow> 'db ha_node \<Rightarrow>
     'db ha_node \<times> promote_result" where
  "manual_promote env catch_up responds n =
     (if mode (config n) \<noteq> HaMode \<or> topology_role (config n) \<noteq> DataRole then (n, PromoteError)
      else if is_leader (gate n) then (n, NotPromoted)
      else let t = sh_term (shared n) + 1 in
      case set_term_and_vote (save_ok env) t (Some (node_id (config n))) n of
        (n, False) \<Rightarrow> (n, PromoteError)
      | (n, True) \<Rightarrow>
          (case (if sh_leader (shared n) = None then (n, True) else catch_up n) of
             (n, ok) \<Rightarrow>
               if \<not> ok \<and> responds then (n, PromoteError)
               else if sh_need_full_snapshot (shared n) then (n, PromoteError)
               else promote env t n))"

section \<open>Start-up\<close>

text \<open>A restarted process: fresh shared state, the vote read back from its file (and written again;
  the process does not start when that fails), a passive gate.  A data node then takes the epoch
  and the position from its database.\<close>

definition boot :: "'db ha_env \<Rightarrow> string \<Rightarrow> 'db ha_node \<Rightarrow> 'db ha_node option" where
  "boot env path n =
     (let v = load_vote (vote_file n);
          is_data = (topology_role (config n) = DataRole);
          n = n\<lparr>gate := gate_new (if is_data then Standby else Witness) 0,
                shared := (shared_default (now_ms env))\<lparr>sh_vote_path := Some path\<rparr>,
                replicator := map_option (\<lambda>_. rewind_default) (replicator n)\<rparr>
      in case set_term_and_vote (save_ok env) (pv_term v) (pv_voted_for v) n of
           (n, False) \<Rightarrow> None
         | (n, True) \<Rightarrow>
             Some (if is_data
                   then set_applied_seq (ha_repl_seq (store n)) (upd_gate (set_epoch (ha_epoch (store n))) n)
                   else n))"

end
