(* ===== verification/HaCluster.thy ===== *)
theory HaCluster
  imports HaElection HaReplProps
begin

text \<open>High availability, part 5: a cluster of replicas and witnesses.  A step is one message delivery,
  one part of a handler, a restart or a local change of a replica; \<open>ha_step\<close> runs the parts of
  \<open>HaElection\<close>.  The network delays and loses messages in any way.  The tasks of one replica
  interleave: a vote request in three parts after its check, a heartbeat in one, a round at every
  answer and between its end and what follows, a promotion at its lock and its two database calls, a
  tick at every answer.  Two groups of instructions stay in one step although no lock
  covers them: \<open>set_term_and_vote\<close> (the term, the vote and their file) and the demotion that a newer
  term brings with the write of that term.  The cluster records the votes it granted and the leaders it elected.

  The safety theorem is Raft's election safety for this protocol: at most one leader per term.  The
  code does not hold a lock from a check to the write that relies on it, so the theorem is about runs
  in which what was checked still holds at the write (\<open>timely\<close>): a term is adopted, or a candidacy
  persisted, only over an older term; a vote is written in the requested term and over no other vote;
  the term of a promotion has not changed when its gate opens; and no operator promotes by hand.  The
  provisos are needed: \<open>prevote_race_elects_two\<close>, \<open>vote_race_grants_two\<close> and
  \<open>promotion_race_leads_two\<close> are runs of three healthy replicas, \<open>manual_promotion_needs_no_vote\<close>
  one with two operators, in which two replicas hold one term.\<close>

section \<open>State and steps\<close>

record round =
  rd_term :: nat
  rd_seq :: nat
  rd_voting :: bool
  rd_pending :: "(bool \<times> string) list"
  rd_answers :: "(bool \<times> string \<times> vote_response) list"
  rd_ballot :: ballot
  rd_probe_max :: nat

text \<open>A vote request past its checks: the term it saw, then the candidate to weigh, then the vote to
  write for the term it read.\<close>

datatype vote_stage = Adopting nat | Weighing | Writing nat

record 'db cluster =
  nodes :: "string \<Rightarrow> 'db ha_node"
  rounds :: "string \<rightharpoonup> round"
  promotions :: "string \<rightharpoonup> promotion"
  ticks :: "string \<rightharpoonup> nat \<times> nat"
  voting :: "(string \<times> vote_request \<times> nat \<times> vote_stage) list"
  beating :: "(string \<times> beat_request \<times> nat \<times> nat) list"
  sent :: "(string \<times> vote_request) list"
  beats :: "(string \<times> beat_request) list"
  replies :: "(string \<times> heartbeat_response) list"
  granted :: "(string \<times> nat \<times> string) list"
  elected :: "(nat \<times> string) list"

datatype 'db label =
    StartRound string nat
  | Ask string vote_request "'db ha_env"
  | Vote string vote_request nat vote_stage "'db ha_env"
  | Hear string string
  | Lose string string
  | Conclude string "'db ha_env"
  | Promote string "'db ha_env"
  | BeginTick string "'db ha_env"
  | Beat string beat_request
  | Accept string beat_request nat nat "'db ha_env"
  | Ack string bool string "heartbeat_response option" "'db ha_env"
  | EndTick string "'db ha_env"
  | Boot string "'db ha_env" string
  | Local string "'db ha_node"
  | Manual string "'db ha_env" "'db ha_node \<Rightarrow> 'db ha_node \<times> bool" bool

definition targets :: "ha_config \<Rightarrow> (bool \<times> string) list" where
  "targets cfg = map (\<lambda>p. (True, peer_id p)) (peers cfg) @ map (\<lambda>w. (False, peer_id w)) (witnesses cfg)"

definition set_node :: "string \<Rightarrow> 'db ha_node \<Rightarrow> 'db cluster \<Rightarrow> 'db cluster" where
  "set_node v n C = C\<lparr>nodes := (nodes C)(v := n)\<rparr>"

definition set_round :: "string \<Rightarrow> round option \<Rightarrow> 'db cluster \<Rightarrow> 'db cluster" where
  "set_round c r C = C\<lparr>rounds := (rounds C)(c := r)\<rparr>"

definition set_promotion :: "string \<Rightarrow> promotion option \<Rightarrow> 'db cluster \<Rightarrow> 'db cluster" where
  "set_promotion c p C = C\<lparr>promotions := (promotions C)(c := p)\<rparr>"

definition set_tick :: "string \<Rightarrow> (nat \<times> nat) option \<Rightarrow> 'db cluster \<Rightarrow> 'db cluster" where
  "set_tick l x C = C\<lparr>ticks := (ticks C)(l := x)\<rparr>"

text \<open>What dies with a process.\<close>

definition forget :: "string \<Rightarrow> 'db cluster \<Rightarrow> 'db cluster" where
  "forget v C = C\<lparr>rounds := (rounds C)(v := None), promotions := (promotions C)(v := None),
     ticks := (ticks C)(v := None), voting := filter (\<lambda>(u, x). u \<noteq> v) (voting C),
     beating := filter (\<lambda>(u, x). u \<noteq> v) (beating C)\<rparr>"

definition request_of :: "'db cluster \<Rightarrow> string \<Rightarrow> round \<Rightarrow> vote_request" where
  "request_of C c r = \<lparr>vr_cluster_id = cluster_id (config (nodes C c)), vr_term = rd_term r,
     vr_candidate_id = c, vr_applied_seq = rd_seq r, vr_pre_vote = \<not> rd_voting r\<rparr>"

text \<open>Open the two polls of a round: every target is sent one request.\<close>

definition open_poll :: "string \<Rightarrow> round \<Rightarrow> 'db cluster \<Rightarrow> 'db cluster" where
  "open_poll c r C = (set_round c (Some r) C)\<lparr>sent :=
     sent C @ map (\<lambda>(d, v). (v, request_of C c r)) (rd_pending r)\<rparr>"

definition new_round :: "'db ha_node \<Rightarrow> round" where
  "new_round n = \<lparr>rd_term = sh_term (shared n) + 1, rd_seq = sh_applied_seq (shared n),
     rd_voting = False, rd_pending = targets (config n), rd_answers = [], rd_ballot = open_ballot n,
     rd_probe_max = 0\<rparr>"

definition poll_over :: "'db ha_node \<Rightarrow> round \<Rightarrow> bool" where
  "poll_over n r \<longleftrightarrow> bl_newer_term (rd_ballot r) \<noteq> None \<or> ballot_won n (rd_ballot r) \<or>
     rd_pending r = [] \<and> rd_answers r = []"

text \<open>What follows a poll that is over: the code between the two polls or after the second, up to the
  wait for the promotion lock.\<close>

definition conclude :: "'db ha_env \<Rightarrow> string \<Rightarrow> round \<Rightarrow> 'db cluster \<Rightarrow> 'db cluster" where
  "conclude env c r C =
     (let n = nodes C c in
      if rd_voting r
      then (case after_ballot env (rd_probe_max r) (rd_ballot r) n of
              (n', wins) \<Rightarrow>
                let C = set_round c None (set_node c n' C)
                in if wins \<and> \<not> sh_need_full_snapshot (shared n')
                   then set_promotion c (Some (AwaitLock (rd_term r))) C else C)
      else (case after_probe env (rd_term r) (rd_ballot r) n of
              (n', True) \<Rightarrow>
                open_poll c (r\<lparr>rd_voting := True, rd_pending := targets (config n), rd_answers := [],
                               rd_ballot := open_ballot n', rd_probe_max := bl_max_seq (rd_ballot r)\<rparr>)
                  ((set_node c n' C)\<lparr>granted := (c, rd_term r, c) # granted C\<rparr>)
            | (n', False) \<Rightarrow> set_round c None (set_node c n' C)))"

text \<open>The round after candidate \<open>c\<close> reads the answer of \<open>v\<close>, and after its request to \<open>v\<close> failed.\<close>

definition heard :: "string \<Rightarrow> string \<Rightarrow> 'db cluster \<Rightarrow> round option" where
  "heard c v C =
     (case rounds C c of
        None \<Rightarrow> None
      | Some r \<Rightarrow>
          if poll_over (nodes C c) r then None
          else
          (case find (\<lambda>(d, w, resp). w = v) (rd_answers r) of
             None \<Rightarrow> None
           | Some (d, w, resp) \<Rightarrow>
               Some (r\<lparr>rd_answers := filter (\<lambda>(d, w, resp). w \<noteq> v) (rd_answers r),
                       rd_ballot := count_answer (sh_term (shared (nodes C c))) d resp (rd_ballot r)\<rparr>)))"

definition lost :: "string \<Rightarrow> string \<Rightarrow> 'db cluster \<Rightarrow> round option" where
  "lost c v C =
     (case rounds C c of
        None \<Rightarrow> None
      | Some r \<Rightarrow>
          if poll_over (nodes C c) r then None
          else Some (r\<lparr>rd_pending := filter (\<lambda>(d, w). w \<noteq> v) (rd_pending r),
                       rd_answers := filter (\<lambda>(d, w, resp). w \<noteq> v) (rd_answers r)\<rparr>))"

definition record_answer :: "string \<Rightarrow> vote_request \<Rightarrow> vote_response \<Rightarrow> 'db cluster \<Rightarrow> 'db cluster" where
  "record_answer v req resp C =
     (let c = vr_candidate_id req in
      case rounds C c of
        None \<Rightarrow> C
      | Some r \<Rightarrow>
          if rd_term r = vr_term req \<and> rd_voting r = (\<not> vr_pre_vote req)
          then (case find (\<lambda>(d, w). w = v) (rd_pending r) of
                  None \<Rightarrow> C
                | Some (d, w) \<Rightarrow>
                    set_round c (Some (r\<lparr>rd_pending := filter (\<lambda>(d, w). w \<noteq> v) (rd_pending r),
                                         rd_answers := rd_answers r @ [(d, v, resp)]\<rparr>)) C)
          else C)"

definition vote_view :: "'db ha_node \<Rightarrow>
    ha_config \<times> nat \<times> string option \<times> string option \<times> persisted_vote option" where
  "vote_view n = (config n, sh_term (shared n), sh_voted_for (shared n), sh_vote_path (shared n), vote_file n)"

text \<open>The next part of a vote request past its checks.\<close>

definition vote_step ::
  "string \<Rightarrow> vote_request \<Rightarrow> nat \<Rightarrow> vote_stage \<Rightarrow> 'db ha_env \<Rightarrow> 'db cluster \<Rightarrow> 'db cluster" where
  "vote_step v req applied stage env C =
     (let n = nodes C v;
          later = (\<lambda>n' st. (set_node v n' C)\<lparr>voting := (v, req, applied, st) # voting C\<rparr>) in
      case stage of
        Adopting seen \<Rightarrow> later (adopt_term env seen (vr_term req) n) Weighing
      | Weighing \<Rightarrow>
          (case weigh_vote env applied req n of
             (n', Inl resp) \<Rightarrow> record_answer v req resp (set_node v n' C)
           | (n', Inr current) \<Rightarrow> later n' (Writing current))
      | Writing current \<Rightarrow>
          (case write_vote env applied req current n of
             (n', resp) \<Rightarrow>
               let C' = record_answer v req resp (set_node v n' C)
               in if vp_granted resp
                  then C'\<lparr>granted := (v, current, vr_candidate_id req) # granted C\<rparr> else C'))"

fun promotion_term :: "promotion \<Rightarrow> nat" where
  "promotion_term (AwaitLock t) = t"
| "promotion_term (AwaitEpoch t) = t"
| "promotion_term (AwaitWrite t e) = t"
| "promotion_term (AwaitGate t e seq) = t"

definition advance_promotion :: "'db ha_env \<Rightarrow> string \<Rightarrow> promotion \<Rightarrow> 'db cluster \<Rightarrow> 'db cluster" where
  "advance_promotion env c p C =
     (case promote_step env p (nodes C c) of
        (n', Inr p') \<Rightarrow> set_promotion c (Some p') (set_node c n' C)
      | (n', Inl res) \<Rightarrow>
          let C' = set_promotion c None (set_node c n' C)
          in if res = Promoted then C'\<lparr>elected := (promotion_term p, c) # elected C\<rparr> else C')"

text \<open>One answer of the heartbeat fan-out, read by leader \<open>l\<close>; an answer is read once.\<close>

definition read_ack ::
  "'db ha_env \<Rightarrow> string \<Rightarrow> bool \<times> string \<times> heartbeat_response option \<Rightarrow> nat \<times> nat \<Rightarrow> 'db cluster \<Rightarrow> 'db cluster" where
  "read_ack env l answer x C =
     (case collect_acks env [answer] (fst x) (snd x) (nodes C l) of
        (n', y) \<Rightarrow> (set_tick l y (set_node l n' C))\<lparr>replies :=
          (case snd (snd answer) of None \<Rightarrow> replies C | Some resp \<Rightarrow> remove1 (l, resp) (replies C))\<rparr>)"

fun ha_step :: "'db label \<Rightarrow> 'db cluster \<Rightarrow> 'db cluster option" where
  "ha_step (StartRound c now) C =
     (let n = nodes C c in
      if topology_role (config n) = DataRole \<and> \<not> is_leader (gate n) \<and>
         \<not> leader_contact_fresh now n \<and> \<not> sh_need_full_snapshot (shared n) \<and>
         rounds C c = None \<and> promotions C c = None
      then Some (open_poll c (new_round n) C) else None)"
| "ha_step (Ask v req env) C =
     (if (v, req) \<in> set (sent C)
      then let n = nodes C v; applied = vote_position n;
               C = C\<lparr>sent := remove1 (v, req) (sent C)\<rparr>
           in Some (case check_vote (now_ms env) applied req n of
                      Inl resp \<Rightarrow> record_answer v req resp C
                    | Inr seen \<Rightarrow> C\<lparr>voting := (v, req, applied, Adopting seen) # voting C\<rparr>)
      else None)"
| "ha_step (Vote v req applied stage env) C =
     (if (v, req, applied, stage) \<in> set (voting C)
      then Some (vote_step v req applied stage env
                   (C\<lparr>voting := remove1 (v, req, applied, stage) (voting C)\<rparr>))
      else None)"
| "ha_step (Hear c v) C = map_option (\<lambda>r. set_round c (Some r) C) (heard c v C)"
| "ha_step (Lose c v) C = map_option (\<lambda>r. set_round c (Some r) C) (lost c v C)"
| "ha_step (Conclude c env) C =
     (case rounds C c of
        None \<Rightarrow> None
      | Some r \<Rightarrow> if poll_over (nodes C c) r then Some (conclude env c r C) else None)"
| "ha_step (Promote c env) C =
     map_option (\<lambda>p. advance_promotion env c p C) (promotions C c)"
| "ha_step (BeginTick l env) C =
     (if topology_role (config (nodes C l)) = DataRole \<and> ticks C l = None
      then Some (case begin_tick env (nodes C l) of
                   (n', False) \<Rightarrow> set_node l n' C
                 | (n', True) \<Rightarrow> (set_tick l (Some (1, 1)) (set_node l n' C))\<lparr>beats := beats C @
                     map (\<lambda>(d, v). (v, heartbeat_of n')) (targets (config n'))\<rparr>)
      else None)"
| "ha_step (Beat v req) C =
     (if (v, req) \<in> set (beats C)
      then let n = nodes C v; applied = vote_position n;
               C = C\<lparr>beats := remove1 (v, req) (beats C)\<rparr>
           in Some (case check_heartbeat applied req n of
                      Inl resp \<Rightarrow> C\<lparr>replies := (hb_leader_id req, resp) # replies C\<rparr>
                    | Inr seen \<Rightarrow> C\<lparr>beating := (v, req, applied, seen) # beating C\<rparr>)
      else None)"
| "ha_step (Accept v req applied seen env) C =
     (if (v, req, applied, seen) \<in> set (beating C)
      then (case accept_heartbeat env applied seen req (nodes C v) of
              (n', resp) \<Rightarrow>
                Some ((set_node v n' C)\<lparr>beating := remove1 (v, req, applied, seen) (beating C),
                        replies := (hb_leader_id req, resp) # replies C\<rparr>))
      else None)"
| "ha_step (Ack l d v answer env) C =
     (case ticks C l of
        None \<Rightarrow> None
      | Some x \<Rightarrow>
          if case answer of None \<Rightarrow> True | Some resp \<Rightarrow> (l, resp) \<in> set (replies C)
          then Some (read_ack env l (d, v, answer) x C) else None)"
| "ha_step (EndTick l env) C =
     (case ticks C l of
        None \<Rightarrow> None
      | Some (acks, data_acks) \<Rightarrow>
          Some (set_tick l None (set_node l (end_tick env acks data_acks (nodes C l)) C)))"
| "ha_step (Boot v env path) C =
     (case boot env path (nodes C v) of
        None \<Rightarrow> None
      | Some n' \<Rightarrow> Some (forget v (set_node v n' C)))"
| "ha_step (Local v n') C =
     (if vote_view n' = vote_view (nodes C v) \<and>
         (role (gate n') = Leader \<longrightarrow> role (gate (nodes C v)) = Leader)
      then Some (set_node v n' C) else None)"
| "ha_step (Manual v env catch_up responds) C =
     (if promotions C v = None
      then (case manual_promote env catch_up responds (nodes C v) of
              (n', res) \<Rightarrow>
                let C' = set_node v n' C in
                Some (if res = Promoted
                      then C'\<lparr>elected := (sh_term (shared (nodes C v)) + 1, v) # elected C\<rparr> else C'))
      else None)"

text \<open>A step is timely when it is no manual promotion and what its writes rely on still holds.\<close>

definition campaigns :: "'db ha_node \<Rightarrow> round \<Rightarrow> bool" where
  "campaigns n r \<longleftrightarrow> \<not> rd_voting r \<and> bl_newer_term (rd_ballot r) = None \<and> ballot_won n (rd_ballot r) \<and>
     bl_max_seq (rd_ballot r) \<le> sh_applied_seq (shared n)"

fun vote_timely :: "vote_request \<Rightarrow> vote_stage \<Rightarrow> 'db ha_node \<Rightarrow> bool" where
  "vote_timely req (Adopting seen) n = (seen < vr_term req \<longrightarrow> sh_term (shared n) < vr_term req)"
| "vote_timely req Weighing n = True"
| "vote_timely req (Writing current) n =
     (current = vr_term req \<and> sh_term (shared n) = current \<and>
      sh_voted_for (shared n) \<in> {None, Some (vr_candidate_id req)})"

definition conclusion_timely :: "'db ha_node \<Rightarrow> round \<Rightarrow> bool" where
  "conclusion_timely n r \<longleftrightarrow> (campaigns n r \<longrightarrow> sh_term (shared n) < rd_term r) \<and>
     (case bl_newer_term (rd_ballot r) of None \<Rightarrow> True | Some newer \<Rightarrow> sh_term (shared n) < newer)"

fun promotion_timely :: "promotion \<Rightarrow> 'db ha_node \<Rightarrow> bool" where
  "promotion_timely (AwaitGate t e seq) n = (sh_term (shared n) = t)"
| "promotion_timely p n = True"

fun timely :: "'db label \<Rightarrow> 'db cluster \<Rightarrow> bool" where
  "timely (Vote v req applied stage env) C = vote_timely req stage (nodes C v)"
| "timely (Conclude c env) C =
     (case rounds C c of None \<Rightarrow> True | Some r \<Rightarrow> conclusion_timely (nodes C c) r)"
| "timely (Promote c env) C =
     (case promotions C c of None \<Rightarrow> True | Some p \<Rightarrow> promotion_timely p (nodes C c))"
| "timely (Accept v req applied seen env) C =
     (seen < hb_term req \<longrightarrow> sh_term (shared (nodes C v)) < hb_term req)"
| "timely (Manual v env catch_up responds) C = False"
| "timely l C = True"

inductive ha_reach :: "('db label \<Rightarrow> 'db cluster \<Rightarrow> bool) \<Rightarrow> 'db cluster \<Rightarrow> 'db cluster \<Rightarrow> bool"
  for ok :: "'db label \<Rightarrow> 'db cluster \<Rightarrow> bool" and C0 :: "'db cluster" where
  ha_reach_start: "ha_reach ok C0 C0"
| ha_reach_step: "ha_reach ok C0 C \<Longrightarrow> ok l C \<Longrightarrow> ha_step l C = Some C' \<Longrightarrow> ha_reach ok C0 C'"

text \<open>A configured cluster before its first election: every member knows exactly the other members,
  and its vote file has a path.\<close>

definition member_ok :: "string set \<Rightarrow> string \<Rightarrow> 'db ha_node \<Rightarrow> bool" where
  "member_ok V v n \<longleftrightarrow> node_id (config n) = v \<and> sh_vote_path (shared n) \<noteq> None \<and>
     topology_wf (config n) \<and> set (map peer_id (voters (config n))) = V - {v}"

definition fresh_cluster :: "string set \<Rightarrow> 'db cluster \<Rightarrow> bool" where
  "fresh_cluster V C \<longleftrightarrow> finite V \<and> (\<forall>v \<in> V. member_ok V v (nodes C v) \<and> role (gate (nodes C v)) \<noteq> Leader) \<and>
     (\<forall>v. v \<notin> V \<longrightarrow> topology_role (config (nodes C v)) \<noteq> DataRole \<and> role (gate (nodes C v)) \<noteq> Leader) \<and>
     rounds C = Map.empty \<and> promotions C = Map.empty \<and> ticks C = Map.empty \<and>
     voting C = [] \<and> beating C = [] \<and> sent C = [] \<and> beats C = [] \<and> replies C = [] \<and> granted C = [] \<and> elected C = []"

end
