(* ===== verification/HaClusterProps.thy ===== *)
theory HaClusterProps
  imports HaCluster
begin

text \<open>Election safety of the cluster model.\<close>

section \<open>What the handlers keep of a vote\<close>

definition holds_vote :: "'db ha_node \<Rightarrow> nat \<Rightarrow> string \<Rightarrow> bool" where
  "holds_vote n t c \<longleftrightarrow>
     (sh_term (shared n) > t \<or> sh_term (shared n) = t \<and> sh_voted_for (shared n) = Some c) \<and>
     (\<exists>pv. vote_file n = Some pv \<and>
        (pv_term pv > t \<or> pv_term pv = t \<and> pv_voted_for pv = Some c))"

definition casts_vote :: "'db ha_node \<Rightarrow> nat \<Rightarrow> string \<Rightarrow> bool" where
  "casts_vote n t c \<longleftrightarrow> holds_vote n t c \<and> sh_term (shared n) = t \<and> sh_voted_for (shared n) = Some c"

definition vote_kept :: "'db ha_node \<Rightarrow> 'db ha_node \<Rightarrow> bool" where
  "vote_kept n n' \<longleftrightarrow> config n' = config n \<and> (sh_vote_path (shared n) \<noteq> None \<longrightarrow>
     sh_vote_path (shared n') \<noteq> None \<and> (\<forall>t c. holds_vote n t c \<longrightarrow> holds_vote n' t c))"

lemma vote_kept_refl [simp]: "vote_kept n n"
  by (simp add: vote_kept_def)

lemma vote_kept_trans: "vote_kept a b \<Longrightarrow> vote_kept b c \<Longrightarrow> vote_kept a c"
  by (auto simp: vote_kept_def)

lemma vote_view_kept: "vote_view n' = vote_view n \<Longrightarrow> vote_kept n n'"
  by (simp add: vote_view_def vote_kept_def holds_vote_def)

lemma set_vote_newer:
  "sh_term (shared n) < t \<Longrightarrow> vote_kept n (fst (set_term_and_vote ok t vote n))"
  by (auto simp: vote_kept_def holds_vote_def set_term_and_vote_def persist_vote_def upd_shared_def)

lemma set_vote_same:
  "sh_voted_for (shared n) \<in> {None, Some c} \<Longrightarrow>
   vote_kept n (fst (set_term_and_vote ok (sh_term (shared n)) (Some c) n))"
  by (auto simp: vote_kept_def holds_vote_def set_term_and_vote_def persist_vote_def upd_shared_def)

lemma set_vote_holds:
  "sh_vote_path (shared n) \<noteq> None \<Longrightarrow> set_term_and_vote ok t (Some c) n = (n', True) \<Longrightarrow> casts_vote n' t c"
  by (auto simp: casts_vote_def holds_vote_def set_term_and_vote_def persist_vote_def upd_shared_def split: if_splits)

lemma set_vote_frame [simp]:
  "gate (fst (set_term_and_vote ok t vote n)) = gate n"
  "config (fst (set_term_and_vote ok t vote n)) = config n"
  "sh_term (shared (fst (set_term_and_vote ok t vote n))) = t"
  "sh_applied_seq (shared (fst (set_term_and_vote ok t vote n))) = sh_applied_seq (shared n)"
  by (simp_all add: set_term_and_vote_def persist_vote_def upd_shared_def)

lemma vote_view_ops [simp]:
  "vote_view (touch_leader x n) = vote_view n" "vote_view (set_leader i u n) = vote_view n"
  "vote_view (clear_leader n) = vote_view n" "vote_view (set_applied_seq q n) = vote_view n"
  "vote_view (observe_peer y p ok sq n) = vote_view n" "vote_view (upd_gate g n) = vote_view n"
  "vote_view (set_need_full_snapshot n) = vote_view n"
  "vote_view (advance_last_replicated_seq q n) = vote_view n"
  "vote_view (n\<lparr>store := s\<rparr>) = vote_view n"
  "vote_view (upd_shared (\<lambda>s. s\<lparr>sh_replication_lost := b\<rparr>) n) = vote_view n"
  by (simp_all add: vote_view_def shared_ops observe_peer_def Let_def)

lemma gate_ops [simp]:
  "gate (touch_leader x n) = gate n" "gate (set_leader i u n) = gate n"
  "gate (clear_leader n) = gate n" "gate (set_applied_seq q n) = gate n"
  "gate (observe_peer y p ok sq n) = gate n" "gate (upd_gate g n) = g (gate n)"
  "gate (set_need_full_snapshot n) = gate n" "gate (advance_last_replicated_seq q n) = gate n"
  "gate (upd_shared f n) = gate n"
  by (simp_all add: shared_ops observe_peer_def)

lemma vote_viewD:
  "vote_view n' = vote_view n \<Longrightarrow> config n' = config n \<and> sh_term (shared n') = sh_term (shared n) \<and>
     sh_voted_for (shared n') = sh_voted_for (shared n) \<and>
     sh_vote_path (shared n') = sh_vote_path (shared n) \<and> vote_file n' = vote_file n"
  by (simp add: vote_view_def)

lemma rewind_view: "rewind_to env h n = Some (n', q) \<Longrightarrow> vote_view n' = vote_view n \<and> gate n' = gate n"
  by (auto simp: rewind_to_def Let_def split: option.splits if_splits)

lemma demote_view [simp]: "vote_view (demote env n) = vote_view n"
  and demote_role: "role (gate (demote env n)) \<noteq> Leader"
proof -
  have "vote_view (demote env n) = vote_view n \<and> role (gate (demote env n)) \<noteq> Leader"
    by (auto simp: demote_def Let_def discard_unreplicated_writes_def gate_demote_def
        dest!: rewind_view split: option.splits prod.splits if_splits)
  then show "vote_view (demote env n) = vote_view n" "role (gate (demote env n)) \<noteq> Leader"
    by blast+
qed

lemma write_epoch_view: "write_epoch e t n = Some (n', q) \<Longrightarrow> vote_view n' = vote_view n \<and> gate n' = gate n"
  by (auto simp: write_epoch_def split: option.splits)

lemma open_gate_view: "vote_view (open_gate env e q n) = vote_view n"
  by (simp add: open_gate_def)

lemma promote_step_view:
  assumes "promote_step env p n = (n', x)"
  shows "vote_view n' = vote_view n"
    and "x \<noteq> Inl Promoted \<Longrightarrow> gate n' = gate n"
    and "x = Inr p' \<Longrightarrow> promotion_term p' = promotion_term p"
    and "x = Inl Promoted \<Longrightarrow> \<exists>e q. p = AwaitGate (promotion_term p) e q"
  using assms write_epoch_view
  by (cases p; fastforce simp: open_gate_view split: option.splits if_splits)+

text \<open>A leader keeps its role only within its term.\<close>

definition role_kept :: "'db ha_node \<Rightarrow> 'db ha_node \<Rightarrow> bool" where
  "role_kept n n' \<longleftrightarrow> (role (gate n') = Leader \<longrightarrow>
     role (gate n) = Leader \<and> sh_term (shared n') = sh_term (shared n))"

lemma role_kept_refl [simp]: "role_kept n n"
  by (simp add: role_kept_def)

lemma role_kept_trans: "role_kept a b \<Longrightarrow> role_kept b c \<Longrightarrow> role_kept a c"
  by (auto simp: role_kept_def)

lemma role_keptI: "role (gate n') \<noteq> Leader \<Longrightarrow> role_kept n n'"
  by (simp add: role_kept_def)

text \<open>Only data nodes lead.\<close>

definition data_leader :: "'db ha_node \<Rightarrow> bool" where
  "data_leader n \<longleftrightarrow> (role (gate n) = Leader \<longrightarrow> topology_role (config n) = DataRole)"

lemma adopt_term_kept:
  assumes "seen < t \<Longrightarrow> sh_term (shared n) < t"
  shows "vote_kept n (adopt_term env seen t n)"
    and "data_leader n \<Longrightarrow> role_kept n (adopt_term env seen t n)"
proof -
  let ?m = "fst (set_term_and_vote (save_ok env) t None n)" and ?n' = "adopt_term env seen t n"
  have "vote_kept n ?n' \<and> (data_leader n \<longrightarrow> role_kept n ?n')"
  proof (cases "seen < t")
    case True
    then have "vote_kept n ?m" "vote_view ?n' = vote_view ?m"
      using assms set_vote_newer by (auto simp: adopt_term_def Let_def)
    then show ?thesis
      using True vote_view_kept [of ?n' ?m] demote_role [of env ?m]
      by (auto simp: adopt_term_def Let_def role_kept_def is_leader_def data_leader_def intro: vote_kept_trans)
  qed (simp add: adopt_term_def)
  then show "vote_kept n ?n'" "data_leader n \<Longrightarrow> role_kept n ?n'"
    by blast+
qed

lemma check_vote_grant: "check_vote now a req n = Inl resp \<Longrightarrow> vp_granted resp \<Longrightarrow> vr_pre_vote req"
  by (auto simp: check_vote_def Let_def deny_def split: if_splits)

lemma weigh_vote_kept:
  assumes "weigh_vote env a req n = (n', x)"
  shows "vote_view n' = vote_view n" "gate n' = gate n" "x = Inl resp \<Longrightarrow> \<not> vp_granted resp"
  using assms by (auto simp: weigh_vote_def Let_def deny_def split: if_splits option.splits)

lemma write_vote_kept:
  assumes "write_vote env a req t n = (n', resp)" and "sh_term (shared n) = t"
    and "sh_voted_for (shared n) \<in> {None, Some (vr_candidate_id req)}"
  shows "vote_kept n n'" "role_kept n n'"
    and "vp_granted resp \<Longrightarrow> sh_vote_path (shared n) \<noteq> None \<Longrightarrow> casts_vote n' t (vr_candidate_id req)"
proof -
  let ?set = "set_term_and_vote (save_ok2 env) t (Some (vr_candidate_id req)) n"
  have n': "n' = fst ?set" "vp_granted resp \<Longrightarrow> ?set = (n', True)"
    using assms(1) by (auto simp: write_vote_def deny_def split: prod.splits bool.splits)
  show "vote_kept n n'"
    using set_vote_same [OF assms(3)] n'(1) assms(2) by simp
  show "role_kept n n'"
    using n'(1) assms(2) by (simp add: role_kept_def)
  show "vp_granted resp \<Longrightarrow> sh_vote_path (shared n) \<noteq> None \<Longrightarrow> casts_vote n' t (vr_candidate_id req)"
    using set_vote_holds n'(2) by blast
qed

lemma accept_heartbeat_kept:
  assumes "accept_heartbeat env a seen req n = (n', resp)"
    and lt: "seen < hb_term req \<Longrightarrow> sh_term (shared n) < hb_term req"
  shows "vote_kept n n'"
    and "data_leader n \<Longrightarrow> hb_leader_id req \<noteq> node_id (config n) \<Longrightarrow> role_kept n n'"
proof -
  let ?adopt = "if hb_term req > seen
      then fst (set_term_and_vote (save_ok env) (hb_term req) None n) else n"
  have kept: "vote_kept n ?adopt"
    using set_vote_newer lt by auto
  have "vote_view n' = vote_view ?adopt"
    using assms(1) by (simp add: accept_heartbeat_def Let_def split: if_splits) auto
  then show "vote_kept n n'"
    using vote_kept_trans [OF kept vote_view_kept [of n' ?adopt]] by blast
  show "data_leader n \<Longrightarrow> hb_leader_id req \<noteq> node_id (config n) \<Longrightarrow> role_kept n n'"
    using assms(1) demote_role [of env n]
      demote_role [of env "fst (set_term_and_vote (save_ok env) (hb_term req) None n)"]
    by (auto simp: accept_heartbeat_def Let_def role_kept_def is_leader_def data_leader_def
        set_epoch_def split: if_splits)
qed

lemma collect_acks_kept:
  "vote_kept n (fst (collect_acks env rs a d n)) \<and> role_kept n (fst (collect_acks env rs a d n))"
proof (induction env rs a d n rule: collect_acks.induct)
  case (2 env is_data pid rs a d n)
  let ?m = "observe_peer (now_unix env) pid False None n"
  have "vote_kept n ?m"
    by (simp add: vote_view_kept)
  then show ?case
    using 2 vote_kept_trans vote_viewD [of ?m n] by (auto simp: role_kept_def)
next
  case (3 env is_data pid resp rs a d n)
  let ?m = "observe_peer (now_unix env) pid (hr_ok resp) (Some (hr_applied_seq resp)) n"
  have m: "vote_kept n ?m" "sh_term (shared ?m) = sh_term (shared n)"
    using vote_viewD [of ?m n] by (simp_all add: vote_view_kept)
  show ?case
  proof (cases "hr_term resp > sh_term (shared ?m)")
    case True
    let ?s = "fst (set_term_and_vote (save_ok env) (hr_term resp) None ?m)"
    have "vote_kept n (demote env ?s)"
      using m(1) set_vote_newer [OF True] vote_view_kept [of "demote env ?s" ?s]
      by (meson demote_view vote_kept_trans)
    then show ?thesis
      using True demote_role [of env ?s] by (simp add: Let_def role_kept_def)
  next
    case False
    have mr: "role_kept n ?m"
      using m(2) by (simp add: role_kept_def)
    show ?thesis
    proof (cases "hr_ok resp")
      case ok: True
      then show ?thesis
        using "3.IH"(1) [OF refl False ok] False vote_kept_trans [OF m(1)] role_kept_trans [OF mr]
        by (simp add: Let_def)
    next
      case ko: False
      then show ?thesis
        using "3.IH"(2) [OF refl False ko] False vote_kept_trans [OF m(1)] role_kept_trans [OF mr]
        by (simp add: Let_def)
    qed
  qed
qed simp

lemma kept_demote: "vote_view m = vote_view n \<Longrightarrow> vote_kept n (demote env m) \<and> role_kept n (demote env m)"
  using demote_role [of env m] by (simp add: vote_view_kept role_kept_def)

lemma begin_tick_kept:
  "begin_tick env n = (n', go) \<Longrightarrow> vote_kept n n' \<and> role_kept n n' \<and> (go \<longrightarrow> n' = n)"
  using kept_demote [of n n env] by (auto simp: begin_tick_def split: if_splits)

lemma end_tick_kept: "vote_kept n (end_tick env a d n) \<and> role_kept n (end_tick env a d n)"
proof -
  let ?n' = "end_tick env a d n" and ?lost = "upd_shared (\<lambda>s. s\<lparr>sh_replication_lost := False\<rparr>) n"
  have "?n' = demote env ?lost \<or> vote_view ?n' = vote_view n \<and> role (gate ?n') = role (gate n)"
    by (simp add: end_tick_def renew_for_def renew_lease_def)
  then show ?thesis
    using kept_demote [of ?lost n env] vote_view_kept [of ?n' n] vote_viewD [of ?n' n]
    by (auto simp: role_kept_def)
qed

lemma boot_kept: "boot env path n = Some n' \<Longrightarrow> vote_kept n n' \<and> role (gate n') \<noteq> Leader"
  by (auto simp: boot_def Let_def set_term_and_vote_def persist_vote_def upd_shared_def upd_gate_def
      set_applied_seq_def vote_kept_def holds_vote_def load_vote_def gate_new_def set_epoch_def
      split: if_splits option.splits bool.splits)

section \<open>The invariant\<close>

definition majority_of :: "string set \<Rightarrow> string set \<Rightarrow> bool" where
  "majority_of V S \<longleftrightarrow> voter_quorum V \<lparr>vs_data = card V, vs_witnesses = 0\<rparr> S"

lemma majority_of_meet: "majority_of V S \<Longrightarrow> majority_of V T \<Longrightarrow> S \<inter> T \<noteq> {}"
  unfolding majority_of_def by (rule voters.quorum_meet)

lemma member_total:
  assumes "member_ok V v n" "v \<in> V"
  shows "total (voter_set_of (config n)) = card V" "finite V"
    and "distinct (map snd (targets (config n)))" "set (map snd (targets (config n))) = V - {v}"
proof -
  have ids: "map snd (targets (config n)) = map peer_id (voters (config n))"
    by (simp add: targets_def voters_def)
  have V: "V = set (v # map peer_id (voters (config n)))" and d: "distinct (v # map peer_id (voters (config n)))"
    using assms by (auto simp: member_ok_def topology_wf_def)
  show "finite V"
    unfolding V by simp
  show "total (voter_set_of (config n)) = card V"
    using assms(1) distinct_card [OF d] V
    by (cases "topology_role (config n)")
       (simp_all add: member_ok_def topology_wf_def total_def voter_set_of_def voters_def)
  show "distinct (map snd (targets (config n)))" "set (map snd (targets (config n))) = V - {v}"
    using d assms ids by (auto simp: member_ok_def)
qed

definition pend :: "round \<Rightarrow> string set" where
  "pend r = snd ` set (rd_pending r)"

definition answered :: "round \<Rightarrow> string set" where
  "answered r = (fst \<circ> snd) ` set (rd_answers r)"

definition answers_ok :: "(string \<times> nat \<times> string) list \<Rightarrow> string \<Rightarrow> round \<Rightarrow> bool" where
  "answers_ok G c r \<longleftrightarrow> distinct (map (fst \<circ> snd) (rd_answers r)) \<and>
     (\<forall>(d, v, resp) \<in> set (rd_answers r). vp_granted resp \<longrightarrow> (v, rd_term r, c) \<in> set G)"

definition counted :: "string set \<Rightarrow> (string \<times> nat \<times> string) list \<Rightarrow> string \<Rightarrow> round \<Rightarrow> string set \<Rightarrow> bool" where
  "counted V G c r S \<longleftrightarrow> S \<subseteq> V \<and> c \<in> S \<and> finite S \<and> card S = bl_votes (rd_ballot r) \<and>
     (\<forall>v \<in> S. (v, rd_term r, c) \<in> set G) \<and> S \<inter> (pend r \<union> answered r) = {}"

definition round_ok :: "string set \<Rightarrow> 'db cluster \<Rightarrow> string \<Rightarrow> round \<Rightarrow> bool" where
  "round_ok V C c r \<longleftrightarrow> c \<in> V \<and> role (gate (nodes C c)) \<noteq> Leader \<and>
     topology_role (config (nodes C c)) = DataRole \<and>
     (rd_voting r \<longrightarrow>
       Ex (counted V (granted C) c r) \<and> pend r \<subseteq> V \<and> answered r \<subseteq> V \<and> pend r \<inter> answered r = {} \<and>
       answers_ok (granted C) c r)"

lemma pend_filter [simp]:
  "pend (r\<lparr>rd_pending := filter (\<lambda>(d, w). w \<noteq> v) (rd_pending r)\<rparr>) = pend r - {v}"
  "pend (r\<lparr>rd_pending := ps, rd_answers := as\<rparr>) = pend (r\<lparr>rd_pending := ps\<rparr>)"
  "pend (r\<lparr>rd_answers := as\<rparr>) = pend r" "pend (r\<lparr>rd_ballot := b\<rparr>) = pend r"
  by (auto simp: pend_def image_iff)

lemma answered_upd [simp]:
  "answered (r\<lparr>rd_answers := rd_answers r @ [(d, v, resp)]\<rparr>) = insert v (answered r)"
  "answered (r\<lparr>rd_answers := filter (\<lambda>(d, w, resp). w \<noteq> v) (rd_answers r)\<rparr>) = answered r - {v}"
  "answered (r\<lparr>rd_pending := ps, rd_answers := as\<rparr>) = answered (r\<lparr>rd_answers := as\<rparr>)"
  "answered (r\<lparr>rd_ballot := b\<rparr>) = answered r"
  by (auto simp: answered_def image_iff)

definition backed :: "string set \<Rightarrow> (string \<times> nat \<times> string) list \<Rightarrow> nat \<Rightarrow> string \<Rightarrow> bool" where
  "backed V G t c \<longleftrightarrow> (\<exists>S. majority_of V S \<and> (\<forall>v \<in> S. (v, t, c) \<in> set G))"

lemma backed_mono: "backed V G t c \<Longrightarrow> backed V (g # G) t c"
  unfolding backed_def by auto

definition unique_votes :: "(string \<times> nat \<times> string) list \<Rightarrow> bool" where
  "unique_votes G \<longleftrightarrow> (\<forall>v t c c'. (v, t, c) \<in> set G \<and> (v, t, c') \<in> set G \<longrightarrow> c = c')"

lemma unique_votes_Nil [simp]: "unique_votes []"
  by (simp add: unique_votes_def)

lemma unique_votes_Cons:
  "unique_votes G \<Longrightarrow> (\<And>c'. (v, t, c') \<in> set G \<Longrightarrow> c' = c) \<Longrightarrow> unique_votes ((v, t, c) # G)"
  unfolding unique_votes_def by auto

text \<open>A promotion under way: its replica has no round open and a majority voted for it.\<close>

definition promotion_ok :: "string set \<Rightarrow> 'db cluster \<Rightarrow> string \<Rightarrow> promotion \<Rightarrow> bool" where
  "promotion_ok V C c p \<longleftrightarrow> c \<in> V \<and> topology_role (config (nodes C c)) = DataRole \<and> rounds C c = None \<and>
     backed V (granted C) (promotion_term p) c"

definition ha_inv :: "string set \<Rightarrow> 'db cluster \<Rightarrow> bool" where
  "ha_inv V C \<longleftrightarrow>
     (\<forall>v \<in> V. member_ok V v (nodes C v)) \<and>
     (\<forall>v. v \<notin> V \<longrightarrow> topology_role (config (nodes C v)) \<noteq> DataRole) \<and>
     (\<forall>(v, req) \<in> set (sent C). v \<in> V) \<and>
     (\<forall>(v, x) \<in> set (voting C). v \<in> V) \<and>
     (\<forall>(v, req) \<in> set (beats C). v \<in> V \<and> hb_leader_id req \<noteq> v) \<and>
     (\<forall>(v, req, x) \<in> set (beating C). v \<in> V \<and> hb_leader_id req \<noteq> v) \<and>
     (\<forall>(v, t, c) \<in> set (granted C). v \<in> V \<and> holds_vote (nodes C v) t c) \<and>
     unique_votes (granted C) \<and>
     (\<forall>c r. rounds C c = Some r \<longrightarrow> round_ok V C c r) \<and>
     (\<forall>c p. promotions C c = Some p \<longrightarrow> promotion_ok V C c p) \<and>
     (\<forall>(t, c) \<in> set (elected C). backed V (granted C) t c) \<and>
     (\<forall>v. role (gate (nodes C v)) = Leader \<longrightarrow>
        v \<in> V \<and> topology_role (config (nodes C v)) = DataRole \<and>
        (sh_term (shared (nodes C v)), v) \<in> set (elected C))"

lemma fresh_inv: "fresh_cluster V C \<Longrightarrow> ha_inv V C"
  by (auto simp: fresh_cluster_def ha_inv_def)

lemmas cluster_ops = set_node_def set_round_def set_promotion_def set_tick_def

text \<open>A change of one node that keeps its vote and does not make it leader.\<close>

lemma inv_set_node:
  assumes inv: "ha_inv V C" and k: "vote_kept (nodes C v) n'" and r: "role_kept (nodes C v) n'"
  shows "ha_inv V (set_node v n' C)"
proof -
  let ?C = "set_node v n' C"
  have cfg: "config (nodes ?C u) = config (nodes C u)" for u
    using k by (simp add: cluster_ops vote_kept_def)
  have mem: "member_ok V u (nodes ?C u)" if "u \<in> V" for u
    using inv that k cfg [of u] by (auto simp: ha_inv_def member_ok_def cluster_ops vote_kept_def)
  have hold: "holds_vote (nodes ?C u) t c" if "(u, t, c) \<in> set (granted C)" for u t c
    using inv that k by (fastforce simp: ha_inv_def cluster_ops vote_kept_def member_ok_def)
  have lead: "role (gate (nodes ?C u)) = Leader \<Longrightarrow>
      role (gate (nodes C u)) = Leader \<and> sh_term (shared (nodes ?C u)) = sh_term (shared (nodes C u))" for u
    using r by (auto simp: cluster_ops role_kept_def)
  have rnd: "round_ok V ?C c x" if "round_ok V C c x" for c x
    using that lead [of c] cfg [of c] by (auto simp: round_ok_def cluster_ops)
  have prm: "promotion_ok V ?C c p" if "promotion_ok V C c p" for c p
    using that cfg [of c] by (auto simp: promotion_ok_def cluster_ops)
  have same: "sent ?C = sent C" "beats ?C = beats C" "granted ?C = granted C" "elected ?C = elected C"
    "rounds ?C = rounds C" "promotions ?C = promotions C" "voting ?C = voting C" "beating ?C = beating C"
    by (simp_all add: cluster_ops)
  show ?thesis
    unfolding ha_inv_def same
  proof (intro conjI allI impI ballI)
    fix u
    assume "role (gate (nodes ?C u)) = Leader"
    from lead [OF this] show "u \<in> V" "topology_role (config (nodes ?C u)) = DataRole"
      "(sh_term (shared (nodes ?C u)), u) \<in> set (elected C)"
      using inv cfg [of u] by (auto simp: ha_inv_def)
  qed (use inv mem hold rnd prm cfg in \<open>auto simp: ha_inv_def\<close>)
qed

lemma inv_no_round: "ha_inv V C \<Longrightarrow> ha_inv V (set_round c None C)"
  by (auto simp: ha_inv_def cluster_ops round_ok_def promotion_ok_def split: if_splits)

lemma inv_promotion:
  "ha_inv V C \<Longrightarrow> promotion_ok V C c p \<Longrightarrow> ha_inv V (set_promotion c (Some p) C)"
  by (auto simp: ha_inv_def cluster_ops round_ok_def promotion_ok_def split: if_splits)

lemma inv_no_promotion: "ha_inv V C \<Longrightarrow> ha_inv V (set_promotion c None C)"
  by (auto simp: ha_inv_def cluster_ops round_ok_def promotion_ok_def split: if_splits)

lemma inv_tick: "ha_inv V C \<Longrightarrow> ha_inv V (set_tick c x C)"
  by (auto simp: ha_inv_def cluster_ops round_ok_def promotion_ok_def)

lemma inv_forget: "ha_inv V C \<Longrightarrow> ha_inv V (forget v C)"
  by (auto simp: ha_inv_def forget_def round_ok_def promotion_ok_def split: if_splits)

lemma inv_round:
  assumes "ha_inv V C" "round_ok V C c r" "promotions C c = None"
  shows "ha_inv V (set_round c (Some r) C)"
proof -
  have "round_ok V (set_round c (Some r) C) u x \<longleftrightarrow> round_ok V C u x" for u x
    by (simp add: round_ok_def cluster_ops)
  moreover have "promotion_ok V (set_round c (Some r) C) u p" if "promotions C u = Some p" for u p
  proof -
    have "promotion_ok V C u p" "u \<noteq> c"
      using assms(1,3) that by (auto simp: ha_inv_def)
    then show ?thesis
      by (simp add: promotion_ok_def cluster_ops)
  qed
  ultimately show ?thesis
    using assms by (auto simp: ha_inv_def cluster_ops split: if_splits)
qed

lemma inv_round_alone: "ha_inv V C \<Longrightarrow> rounds C c = Some r \<Longrightarrow> promotions C c = None"
  by (cases "promotions C c") (auto simp: ha_inv_def promotion_ok_def)

lemma counted_grant: "counted V G c r S \<Longrightarrow> counted V (g # G) c r S"
  by (simp add: counted_def)

lemma answers_ok_grant: "answers_ok G c r \<Longrightarrow> answers_ok (g # G) c r"
  by (auto simp: answers_ok_def)

lemma round_ok_grant: "round_ok V C c r \<Longrightarrow> round_ok V (C\<lparr>granted := g # granted C\<rparr>) c r"
  unfolding round_ok_def by (auto intro: counted_grant answers_ok_grant)

lemma promotion_ok_grant: "promotion_ok V C c p \<Longrightarrow> promotion_ok V (C\<lparr>granted := g # granted C\<rparr>) c p"
  unfolding promotion_ok_def by (auto intro: backed_mono)

lemma inv_grant:
  assumes inv: "ha_inv V C" and "v \<in> V" "casts_vote (nodes C v) t c"
  shows "ha_inv V (C\<lparr>granted := (v, t, c) # granted C\<rparr>)"
proof -
  have "c' = c" if "(v, t, c') \<in> set (granted C)" for c'
  proof -
    have "holds_vote (nodes C v) t c'"
      using inv that unfolding ha_inv_def by blast
    then show ?thesis
      using assms(3) by (auto simp: casts_vote_def holds_vote_def)
  qed
  then have "unique_votes ((v, t, c) # granted C)"
    using inv by (intro unique_votes_Cons) (auto simp: ha_inv_def)
  then show ?thesis
    using inv assms(2,3) round_ok_grant [of V C _ _ "(v, t, c)"]
      promotion_ok_grant [of V C _ _ "(v, t, c)"] backed_mono [of V "granted C" _ _ "(v, t, c)"]
    by (auto simp: ha_inv_def casts_vote_def)
qed

lemma round_ok_net [simp]:
  "round_ok V (C\<lparr>sent := x\<rparr>) c r \<longleftrightarrow> round_ok V C c r"
  "round_ok V (C\<lparr>beats := y\<rparr>) c r \<longleftrightarrow> round_ok V C c r"
  "round_ok V (C\<lparr>replies := z\<rparr>) c r \<longleftrightarrow> round_ok V C c r"
  "round_ok V (C\<lparr>elected := w\<rparr>) c r \<longleftrightarrow> round_ok V C c r"
  "round_ok V (C\<lparr>voting := a\<rparr>) c r \<longleftrightarrow> round_ok V C c r"
  "round_ok V (C\<lparr>beating := b\<rparr>) c r \<longleftrightarrow> round_ok V C c r"
  by (simp_all add: round_ok_def)

lemma promotion_ok_net [simp]:
  "promotion_ok V (C\<lparr>sent := x\<rparr>) c p \<longleftrightarrow> promotion_ok V C c p"
  "promotion_ok V (C\<lparr>beats := y\<rparr>) c p \<longleftrightarrow> promotion_ok V C c p"
  "promotion_ok V (C\<lparr>replies := z\<rparr>) c p \<longleftrightarrow> promotion_ok V C c p"
  "promotion_ok V (C\<lparr>elected := w\<rparr>) c p \<longleftrightarrow> promotion_ok V C c p"
  "promotion_ok V (C\<lparr>voting := a\<rparr>) c p \<longleftrightarrow> promotion_ok V C c p"
  "promotion_ok V (C\<lparr>beating := b\<rparr>) c p \<longleftrightarrow> promotion_ok V C c p"
  by (simp_all add: promotion_ok_def)

lemma inv_replies: "ha_inv V C \<Longrightarrow> ha_inv V (C\<lparr>replies := z\<rparr>)"
  by (simp add: ha_inv_def)

lemma inv_voting: "ha_inv V C \<Longrightarrow> \<forall>(v, x) \<in> set xs. v \<in> V \<Longrightarrow> ha_inv V (C\<lparr>voting := xs\<rparr>)"
  by (simp add: ha_inv_def)

lemma inv_beating:
  "ha_inv V C \<Longrightarrow> \<forall>(v, req, x) \<in> set xs. v \<in> V \<and> hb_leader_id req \<noteq> v \<Longrightarrow> ha_inv V (C\<lparr>beating := xs\<rparr>)"
  by (simp add: ha_inv_def)

lemma inv_sent: "ha_inv V C \<Longrightarrow> \<forall>(v, req) \<in> set xs. v \<in> V \<Longrightarrow> ha_inv V (C\<lparr>sent := xs\<rparr>)"
  by (simp add: ha_inv_def)

lemma inv_beats:
  "ha_inv V C \<Longrightarrow> \<forall>(v, req) \<in> set xs. v \<in> V \<and> hb_leader_id req \<noteq> v \<Longrightarrow>
   ha_inv V (C\<lparr>beats := xs\<rparr>)"
  by (simp add: ha_inv_def)

lemma find_pair: "find (\<lambda>(d, w). w = v) xs = Some (d, w) \<Longrightarrow> w = v \<and> (d, v) \<in> set xs"
  by (auto simp: find_Some_iff in_set_conv_nth)

lemma find_triple: "find (\<lambda>(d, w, resp). w = v) xs = Some (d, w, resp) \<Longrightarrow> w = v \<and> (d, v, resp) \<in> set xs"
  by (auto simp: find_Some_iff in_set_conv_nth)

lemma inv_record:
  assumes inv: "ha_inv V C" and "v \<in> V"
    and g: "vp_granted resp \<Longrightarrow> \<not> vr_pre_vote req \<Longrightarrow>
      (v, vr_term req, vr_candidate_id req) \<in> set (granted C)"
  shows "ha_inv V (record_answer v req resp C)"
proof (cases "record_answer v req resp C = C")
  case False
  let ?c = "vr_candidate_id req"
  obtain r where r0: "rounds C ?c = Some r" "rd_term r = vr_term req" "rd_voting r = (\<not> vr_pre_vote req)"
    using False by (auto simp: record_answer_def Let_def split: option.splits if_splits)
  obtain d w where f: "find (\<lambda>(d, w). w = v) (rd_pending r) = Some (d, w)"
    using False r0 by (auto simp: record_answer_def Let_def split: option.splits if_splits)
  note r = r0 find_pair [OF f, THEN conjunct2]
  have eq: "record_answer v req resp C = set_round ?c (Some (r\<lparr>rd_pending := filter (\<lambda>(d, w). w \<noteq> v) (rd_pending r),
       rd_answers := rd_answers r @ [(d, v, resp)]\<rparr>)) C"
    using r0 f by (simp add: record_answer_def)
  have ok: "round_ok V C ?c r" "promotions C ?c = None"
    using inv r(1) inv_round_alone by (auto simp: ha_inv_def)
  let ?r = "r\<lparr>rd_pending := filter (\<lambda>(d, w). w \<noteq> v) (rd_pending r), rd_answers := rd_answers r @ [(d, v, resp)]\<rparr>"
  have v: "v \<in> pend r"
    using r(4) by (force simp: pend_def)
  have "round_ok V C ?c ?r"
  proof (cases "rd_voting r")
    case True
    obtain S where S: "counted V (granted C) ?c r S"
      using ok(1) True by (auto simp: round_ok_def)
    have "counted V (granted C) ?c ?r S"
      using S v by (auto simp: counted_def)
    moreover have "v \<notin> answered r"
      using ok(1) True v by (auto simp: round_ok_def)
    moreover have "answers_ok (granted C) ?c ?r"
      using ok(1) True g r \<open>v \<notin> answered r\<close> by (auto simp: round_ok_def answers_ok_def answered_def)
    ultimately show ?thesis
      using ok(1) assms(2) True by (auto simp: round_ok_def)
  qed (use ok(1) in \<open>simp add: round_ok_def\<close>)
  then show ?thesis
    unfolding eq using inv ok(2) by (intro inv_round) auto
qed (use inv in simp)

text \<open>Reading an answer keeps the tally honest, and so does losing a request.\<close>

lemma count_answer_votes:
  "bl_votes (count_answer m d resp b) =
     (if vp_granted resp \<and> vp_term resp \<le> m then bl_votes b + 1 else bl_votes b)"
  by (simp add: count_answer_def Let_def)

lemma heard_ok:
  assumes inv: "ha_inv V C" and h: "heard c v C = Some r"
  shows "round_ok V C c r" "promotions C c = None"
proof -
  obtain q d w resp where q: "rounds C c = Some q"
    and f: "find (\<lambda>(d, w, resp). w = v) (rd_answers q) = Some (d, w, resp)"
    and r: "r = q\<lparr>rd_answers := filter (\<lambda>(d, w, resp). w \<noteq> v) (rd_answers q),
                  rd_ballot := count_answer (sh_term (shared (nodes C c))) d resp (rd_ballot q)\<rparr>"
    using h by (auto simp: heard_def split: option.splits if_splits)
  show "promotions C c = None"
    using inv_round_alone [OF inv q] .
  have ok: "round_ok V C c q"
    using inv q by (auto simp: ha_inv_def)
  have mem: "(d, v, resp) \<in> set (rd_answers q)"
    using find_triple [OF f] by blast
  then have v: "v \<in> answered q"
    by (force simp: answered_def)
  show "round_ok V C c r"
  proof (cases "rd_voting q")
    case True
    then obtain S where S: "counted V (granted C) c q S" and a: "answers_ok (granted C) c q"
      using ok by (auto simp: round_ok_def)
    let ?S = "if bl_votes (rd_ballot r) = bl_votes (rd_ballot q) then S else insert v S"
    have "v \<notin> S" "v \<in> V" and g: "vp_granted resp \<Longrightarrow> (v, rd_term q, c) \<in> set (granted C)"
      using S v ok True a mem by (auto simp: counted_def round_ok_def answers_ok_def)
    then have "counted V (granted C) c r ?S"
      using S ok True v
      by (auto simp: counted_def r count_answer_votes round_ok_def split: if_splits)
    moreover have "answers_ok (granted C) c r"
      using a by (auto simp: answers_ok_def r distinct_map inj_on_def)
    ultimately show ?thesis
      using ok True by (auto simp: round_ok_def r)
  qed (use ok in \<open>simp add: round_ok_def r\<close>)
qed

lemma lost_ok:
  assumes inv: "ha_inv V C" and h: "lost c v C = Some r"
  shows "round_ok V C c r" "promotions C c = None"
proof -
  obtain q where q: "rounds C c = Some q"
    and r: "r = q\<lparr>rd_pending := filter (\<lambda>(d, w). w \<noteq> v) (rd_pending q),
                  rd_answers := filter (\<lambda>(d, w, resp). w \<noteq> v) (rd_answers q)\<rparr>"
    using h by (auto simp: lost_def split: option.splits if_splits)
  show "promotions C c = None"
    using inv_round_alone [OF inv q] .
  have ok: "round_ok V C c q"
    using inv q by (auto simp: ha_inv_def)
  show "round_ok V C c r"
  proof (cases "rd_voting q")
    case True
    then obtain S where "counted V (granted C) c q S" and a: "answers_ok (granted C) c q"
      using ok by (auto simp: round_ok_def)
    then have "counted V (granted C) c r S"
      by (auto simp: counted_def r)
    moreover have "answers_ok (granted C) c r"
      using a by (auto simp: answers_ok_def r distinct_map inj_on_def)
    ultimately show ?thesis
      using ok True by (auto simp: round_ok_def r)
  qed (use ok in \<open>simp add: round_ok_def r\<close>)
qed

text \<open>A promotion that a majority backs.\<close>

lemma inv_promoted:
  assumes inv: "ha_inv V C" and "rounds C c = None" "c \<in> V"
    and d: "topology_role (config (nodes C c)) = DataRole"
    and v: "vote_view n' = vote_view (nodes C c)" and t: "sh_term (shared (nodes C c)) = t"
    and b: "backed V (granted C) t c"
  shows "ha_inv V ((set_node c n' C)\<lparr>elected := (t, c) # elected C\<rparr>)"
proof -
  note vD = vote_viewD [OF v]
  have "member_ok V c n'" "holds_vote n' x y \<longleftrightarrow> holds_vote (nodes C c) x y" for x y
    using inv assms(3) vD by (auto simp: ha_inv_def member_ok_def holds_vote_def)
  moreover have "round_ok V ((set_node c n' C)\<lparr>elected := (t, c) # elected C\<rparr>) u x \<longleftrightarrow> round_ok V C u x"
    if "u \<noteq> c" for u x
    using that by (simp add: round_ok_def cluster_ops)
  moreover have "promotion_ok V ((set_node c n' C)\<lparr>elected := (t, c) # elected C\<rparr>) u p \<longleftrightarrow> promotion_ok V C u p"
    for u p
    using vD by (auto simp: promotion_ok_def cluster_ops)
  moreover have "\<forall>u r. rounds C u = Some r \<longrightarrow> u \<noteq> c"
    using assms(2) by auto
  ultimately show ?thesis
    using inv assms(3) d b t vD by (auto simp: ha_inv_def cluster_ops)
qed

lemma won_backed:
  assumes "member_ok V c n" "c \<in> V" "ballot_won n (rd_ballot r)" "counted V G c r S"
  shows "backed V G (rd_term r) c"
proof -
  have "majority_of V S"
    using assms(3,4) member_total [OF assms(1,2)]
    by (auto simp: majority_of_def voter_quorum_def counted_def ballot_won_def election_won_def
        majority_def total_def)
  then show ?thesis
    using assms(4) by (auto simp: backed_def counted_def)
qed

lemma after_ballot_cases:
  assumes "after_ballot env pm b n = (n', wins)"
  obtains (same) "n' = n" "wins \<longrightarrow> ballot_won n b"
  | (newer) x where "bl_newer_term b = Some x" "\<not> wins" "n' = fst (set_term_and_vote (save_ok env) x None n)"
  using assms by (auto simp: after_ballot_def split: option.splits if_splits)

lemma after_probe_cases:
  assumes "after_probe env t b n = (n', go)"
  obtains (same) "n' = n" "\<not> go"
  | (newer) x where "bl_newer_term b = Some x" "\<not> go" "n' = fst (set_term_and_vote (save_ok env) x None n)"
  | (campaign) "bl_newer_term b = None" "ballot_won n b" "bl_max_seq b \<le> sh_applied_seq (shared n)"
      "set_term_and_vote (save_ok env) t (Some (node_id (config n))) n = (n', go)"
  using assms by (auto simp: after_probe_def not_less split: option.splits if_splits)

lemma inv_drop_round:
  assumes "ha_inv V C" "vote_kept (nodes C c) n'" "role_kept (nodes C c) n'"
  shows "ha_inv V (set_round c None (set_node c n' C))"
  using assms by (intro inv_no_round inv_set_node)

lemma inv_open_poll:
  assumes "ha_inv V C" "round_ok V C c r" "promotions C c = None" "pend r \<subseteq> V"
  shows "ha_inv V (open_poll c r C)"
proof -
  have "ha_inv V (set_round c (Some r) C)"
    using assms by (intro inv_round)
  moreover have "v \<in> V" if "(v, req) \<in> set (sent C @ map (\<lambda>(d, v). (v, request_of C c r)) (rd_pending r))" for v req
  proof -
    have "(v, req) \<in> set (sent C) \<or> v \<in> pend r"
      using that by (force simp: pend_def)
    moreover have "\<forall>(v, req) \<in> set (sent C). v \<in> V"
      using assms(1) unfolding ha_inv_def by blast
    ultimately show ?thesis
      using assms(4) by blast
  qed
  ultimately show ?thesis
    unfolding open_poll_def by (intro inv_sent) blast+
qed

lemma inv_candidate:
  assumes inv: "ha_inv V C" and ok: "round_ok V C c r" and alone: "promotions C c = None" and lt: "sh_term (shared (nodes C c)) < rd_term r"
    and set: "set_term_and_vote io (rd_term r) (Some c) (nodes C c) = (n', True)"
    and r': "rd_voting r'" "rd_term r' = rd_term r" "rd_pending r' = targets (config (nodes C c))"
      "rd_answers r' = []" "rd_ballot r' = open_ballot n'"
  shows "ha_inv V (open_poll c r' ((set_node c n' C)\<lparr>granted := (c, rd_term r, c) # granted C\<rparr>))"
proof -
  have mem: "c \<in> V" "member_ok V c (nodes C c)"
    using inv ok by (auto simp: ha_inv_def round_ok_def)
  have "vote_kept (nodes C c) n'" "gate n' = gate (nodes C c)" "config n' = config (nodes C c)"
    using set_vote_newer [OF lt, of io "Some c"] set_vote_frame [of io "rd_term r" "Some c" "nodes C c"] set
    by (auto simp: vote_kept_def)
  moreover have "casts_vote n' (rd_term r) c"
    using set_vote_holds [OF _ set] mem by (simp add: member_ok_def)
  ultimately have "ha_inv V ((set_node c n' C)\<lparr>granted := (c, rd_term r, c) # granted (set_node c n' C)\<rparr>)"
    using inv ok mem(1)
    by (intro inv_grant inv_set_node role_keptI) (auto simp: cluster_ops round_ok_def)
  then have i: "ha_inv V ((set_node c n' C)\<lparr>granted := (c, rd_term r, c) # granted C\<rparr>)" (is "ha_inv V ?C")
    by (simp add: cluster_ops)
  note tg = member_total(3,4) [OF mem(2,1)]
  have p: "pend r' = V - {c}" "answered r' = {}"
    using r' tg by (auto simp: pend_def answered_def)
  have "counted V (granted ?C) c r' {c}"
    using mem(1) p r' by (simp add: counted_def open_ballot_def)
  then have "round_ok V ?C c r'"
    using ok r' p \<open>gate n' = gate (nodes C c)\<close> \<open>config n' = config (nodes C c)\<close>
    by (auto simp: round_ok_def cluster_ops answers_ok_def)
  then show ?thesis
    using i p alone by (intro inv_open_poll) (auto simp: cluster_ops)
qed

lemma conclude_inv:
  assumes inv: "ha_inv V C" and r: "rounds C c = Some r" and timely: "conclusion_timely (nodes C c) r"
  shows "ha_inv V (conclude env c r C)"
proof -
  let ?n = "nodes C c"
  have ok: "round_ok V C c r" and alone: "promotions C c = None"
    using inv r inv_round_alone by (auto simp: ha_inv_def)
  then have mem: "c \<in> V" "member_ok V c ?n" "role (gate ?n) \<noteq> Leader"
    using inv by (auto simp: ha_inv_def round_ok_def)
  have drop: "ha_inv V (set_round c None (set_node c n' C))"
    if "n' = ?n \<or> (\<exists>x. bl_newer_term (rd_ballot r) = Some x \<and> n' = fst (set_term_and_vote (save_ok env) x None ?n))" for n'
    using that inv mem(3) set_vote_newer timely
    by (intro inv_drop_round) (auto simp: conclusion_timely_def intro: role_keptI)
  show ?thesis
  proof (cases "rd_voting r")
    case True
    obtain n' wins where ab: "after_ballot env (rd_probe_max r) (rd_ballot r) ?n = (n', wins)"
      by fastforce
    from ab show ?thesis
    proof (cases rule: after_ballot_cases)
      case same
      let ?D = "set_round c None (set_node c n' C)"
      have "promotion_ok V ?D c (AwaitLock (rd_term r))" if wins
        using that same ok True mem won_backed [OF mem(2,1)]
        by (auto simp: promotion_ok_def round_ok_def cluster_ops)
      then show ?thesis
        using ab True drop [of n'] same(1) by (auto simp: conclude_def Let_def intro: inv_promotion)
    qed (use True ab drop in \<open>auto simp: conclude_def\<close>)
  next
    case probing: False
    obtain n' go where ap: "after_probe env (rd_term r) (rd_ballot r) ?n = (n', go)"
      by fastforce
    from ap show ?thesis
    proof (cases rule: after_probe_cases)
      case campaign
      then have t: "sh_term (shared ?n) < rd_term r"
        using timely probing by (simp add: campaigns_def conclusion_timely_def)
      have "ha_inv V (set_round c None (set_node c n' C))"
        using inv mem(3) set_vote_newer [OF t] campaign(4)
        by (intro inv_drop_round) (auto intro!: role_keptI dest!: arg_cong [where f = fst])
      then show ?thesis
        using probing ap campaign(4) mem(2)
          inv_candidate [OF inv ok alone t, of "save_ok env" n'
            "r\<lparr>rd_voting := True, rd_pending := targets (config ?n), rd_answers := [],
               rd_ballot := open_ballot n', rd_probe_max := bl_max_seq (rd_ballot r)\<rparr>"]
        by (cases go) (simp_all add: conclude_def member_ok_def)
    qed (use probing ap drop in \<open>auto simp: conclude_def\<close>)
  qed
qed

section \<open>Every timely step keeps the invariant\<close>

lemma record_answer_granted:
  "record_answer v req resp (C\<lparr>granted := g\<rparr>) = (record_answer v req resp C)\<lparr>granted := g\<rparr>"
  by (simp add: record_answer_def Let_def cluster_ops split: option.split)

lemma granted_record [simp]: "granted (record_answer v req resp C) = granted C"
  by (simp add: record_answer_def Let_def cluster_ops split: option.split)

lemma inv_data_leader: "ha_inv V C \<Longrightarrow> data_leader (nodes C v)"
  by (auto simp: ha_inv_def data_leader_def)

lemma inv_remove1:
  "\<forall>x \<in> set xs. P x \<Longrightarrow> \<forall>x \<in> set (remove1 y xs). P x"
  using set_remove1_subset [of y xs] by blast

lemma inv_ask:
  assumes inv: "ha_inv V C" and st: "ha_step (Ask v req env) C = Some C'"
  shows "ha_inv V C'"
proof -
  let ?D = "C\<lparr>sent := remove1 (v, req) (sent C)\<rparr>"
  have sent: "(v, req) \<in> set (sent C)"
    using st by (simp split: if_splits)
  then have v: "v \<in> V"
    using inv unfolding ha_inv_def by blast
  have D: "ha_inv V ?D"
    using inv by (intro inv_sent inv_remove1) (simp_all add: ha_inv_def)
  moreover have "\<forall>(u, x) \<in> set (voting ?D). u \<in> V"
    using inv by (simp add: ha_inv_def)
  ultimately show ?thesis
    using st sent v check_vote_grant [of "now_ms env" "vote_position (nodes C v)" req "nodes C v"]
    by (auto simp: Let_def intro!: inv_record inv_voting split: sum.splits)
qed

lemma inv_vote_later:
  assumes "ha_inv V C" "v \<in> V" "vote_kept (nodes C v) n'" "role_kept (nodes C v) n'"
  shows "ha_inv V ((set_node v n' C)\<lparr>voting := (v, x) # voting C\<rparr>)"
  using assms by (intro inv_voting inv_set_node) (auto simp: ha_inv_def)

lemma inv_vote_step:
  assumes inv: "ha_inv V C" and v: "v \<in> V" and t: "vote_timely req stage (nodes C v)"
  shows "ha_inv V (vote_step v req a stage env C)"
proof (cases stage)
  case (Adopting seen)
  then show ?thesis
    using adopt_term_kept [of seen "vr_term req" "nodes C v" env] t inv_data_leader [OF inv]
    by (auto simp: vote_step_def Let_def intro!: inv_vote_later [OF inv v])
next
  case Weighing
  obtain n' x where w: "weigh_vote env a req (nodes C v) = (n', x)"
    by fastforce
  then have k: "vote_kept (nodes C v) n'" "role_kept (nodes C v) n'"
    using weigh_vote_kept [OF w] vote_viewD [of n' "nodes C v"] by (simp_all add: vote_view_kept role_kept_def)
  show ?thesis
  proof (cases x)
    case (Inl resp)
    then have "ha_inv V (record_answer v req resp (set_node v n' C))"
      using weigh_vote_kept(3) [OF w] inv_set_node [OF inv k] v by (intro inv_record) auto
    then show ?thesis
      using Weighing w Inl by (simp add: vote_step_def Let_def)
  next
    case (Inr current)
    then show ?thesis
      using Weighing w inv_vote_later [OF inv v k] by (simp add: vote_step_def Let_def)
  qed
next
  case (Writing current)
  obtain n' resp where w: "write_vote env a req current (nodes C v) = (n', resp)"
    by fastforce
  have cur: "current = vr_term req" "sh_term (shared (nodes C v)) = current"
    "sh_voted_for (shared (nodes C v)) \<in> {None, Some (vr_candidate_id req)}"
    using t Writing by auto
  note k = write_vote_kept [OF w cur(2,3)]
  let ?D = "set_node v n' C" and ?g = "(v, current, vr_candidate_id req)"
  have D: "ha_inv V ?D"
    using inv_set_node [OF inv k(1,2)] .
  have "ha_inv V (if vp_granted resp then record_answer v req resp (?D\<lparr>granted := ?g # granted ?D\<rparr>)
                  else record_answer v req resp ?D)"
  proof (cases "vp_granted resp")
    case True
    have "sh_vote_path (shared (nodes C v)) \<noteq> None"
      using inv v by (simp add: ha_inv_def member_ok_def)
    then have "ha_inv V (?D\<lparr>granted := ?g # granted ?D\<rparr>)"
      using k(3) True v D by (intro inv_grant) (auto simp: cluster_ops)
    then show ?thesis
      using True v cur(1) by (auto intro: inv_record)
  qed (use D v in \<open>auto intro: inv_record\<close>)
  then show ?thesis
    using Writing w by (simp add: vote_step_def Let_def record_answer_granted split: if_splits) (simp add: cluster_ops)
qed

lemma inv_vote:
  assumes inv: "ha_inv V C" and "timely (Vote v req a stage env) C"
    and st: "ha_step (Vote v req a stage env) C = Some C'"
  shows "ha_inv V C'"
proof -
  have m: "(v, req, a, stage) \<in> set (voting C)"
    using st by (simp split: if_splits)
  have "ha_inv V (C\<lparr>voting := remove1 (v, req, a, stage) (voting C)\<rparr>)"
    using inv by (intro inv_voting inv_remove1) (simp_all add: ha_inv_def)
  moreover have "v \<in> V"
    using inv m unfolding ha_inv_def by blast
  ultimately show ?thesis
    using st m assms(2) by (auto intro!: inv_vote_step)
qed

lemma set_promotion_elected:
  "set_promotion c p (C\<lparr>elected := e\<rparr>) = (set_promotion c p C)\<lparr>elected := e\<rparr>"
  by (cases C) (simp add: cluster_ops)

lemma inv_promotion_step:
  assumes inv: "ha_inv V C" and p: "promotions C c = Some p" and t: "promotion_timely p (nodes C c)"
  shows "ha_inv V (advance_promotion env c p C)"
proof -
  let ?n = "nodes C c"
  obtain n' x where s: "promote_step env p ?n = (n', x)"
    by fastforce
  note k = promote_step_view [OF s]
  have ok: "promotion_ok V C c p"
    using inv p by (simp add: ha_inv_def)
  show ?thesis
  proof (cases "x = Inl Promoted")
    case True
    obtain e q where "p = AwaitGate (promotion_term p) e q"
      using k(4) True by blast
    then have now: "sh_term (shared ?n) = promotion_term p"
      using t by (metis promotion_timely.simps(1))
    have "ha_inv V ((set_node c n' C)\<lparr>elected := (promotion_term p, c) # elected C\<rparr>)"
      using inv ok k(1) now by (intro inv_promoted) (auto simp: promotion_ok_def)
    from inv_no_promotion [OF this, of c] show ?thesis
      using s True by (simp add: advance_promotion_def Let_def set_promotion_elected)
  next
    case False
    have "ha_inv V (set_node c n' C)"
      using inv k(1) k(2) [OF False] vote_viewD [OF k(1)]
      by (intro inv_set_node) (simp_all add: vote_view_kept role_kept_def)
    moreover have "promotion_ok V (set_node c n' C) c p'" if "x = Inr p'" for p'
      using ok k(3) [OF that] vote_viewD [OF k(1)] by (simp add: promotion_ok_def cluster_ops)
    ultimately show ?thesis
      using s False
      by (auto simp: advance_promotion_def Let_def intro: inv_promotion inv_no_promotion split: sum.splits)
  qed
qed

lemma inv_beat:
  assumes inv: "ha_inv V C" and st: "ha_step (Beat v req) C = Some C'"
  shows "ha_inv V C'"
proof -
  let ?D = "C\<lparr>beats := remove1 (v, req) (beats C)\<rparr>"
  have sent: "(v, req) \<in> set (beats C)"
    using st by (simp split: if_splits)
  then have v: "v \<in> V" "hb_leader_id req \<noteq> v"
    using inv unfolding ha_inv_def by blast+
  have "ha_inv V ?D"
    using inv by (intro inv_beats inv_remove1) (simp_all add: ha_inv_def)
  moreover have "\<forall>(u, q, x) \<in> set (beating ?D). u \<in> V \<and> hb_leader_id q \<noteq> u"
    using inv by (simp add: ha_inv_def)
  ultimately show ?thesis
    using st sent v by (auto simp: Let_def intro!: inv_replies inv_beating split: sum.splits)
qed

lemma inv_accept:
  assumes inv: "ha_inv V C" and "timely (Accept v req a seen env) C"
    and st: "ha_step (Accept v req a seen env) C = Some C'"
  shows "ha_inv V C'"
proof -
  let ?n = "nodes C v"
  obtain n' resp where hb: "accept_heartbeat env a seen req ?n = (n', resp)"
    by fastforce
  have m: "(v, req, a, seen) \<in> set (beating C)"
    using st by (simp split: if_splits)
  then have v: "v \<in> V" "hb_leader_id req \<noteq> v"
    using inv unfolding ha_inv_def by blast+
  then have "hb_leader_id req \<noteq> node_id (config ?n)"
    using inv by (simp add: ha_inv_def member_ok_def)
  then have "ha_inv V (set_node v n' C)"
    using inv accept_heartbeat_kept [OF hb] assms(2) inv_data_leader by (intro inv_set_node) auto
  then have "ha_inv V ((set_node v n' C)\<lparr>beating := remove1 (v, req, a, seen) (beating C)\<rparr>)"
    using inv by (intro inv_beating inv_remove1) (simp_all add: ha_inv_def)
  then show ?thesis
    using st m hb by (auto intro: inv_replies)
qed

lemma inv_begin_tick:
  assumes inv: "ha_inv V C" and st: "ha_step (BeginTick l env) C = Some C'"
  shows "ha_inv V C'"
proof -
  obtain n' go where b: "begin_tick env (nodes C l) = (n', go)"
    by fastforce
  note k = begin_tick_kept [OF b]
  have i: "ha_inv V (set_node l n' C)"
    using inv k by (intro inv_set_node) auto
  show ?thesis
  proof (cases go)
    case True
    then have n': "n' = nodes C l"
      using k by blast
    have mem: "l \<in> V" "member_ok V l (nodes C l)"
      using inv st by (auto simp: ha_inv_def split: if_splits)
    have "u \<in> V \<and> hb_leader_id q \<noteq> u"
      if "(u, q) \<in> set (beats C @ map (\<lambda>(d, v). (v, heartbeat_of n')) (targets (config n')))" for u q
    proof -
      have "(u, q) \<in> set (beats C) \<or> u \<in> set (map snd (targets (config n'))) \<and> q = heartbeat_of n'"
        using that by force
      moreover have "\<forall>(u, q) \<in> set (beats C). u \<in> V \<and> hb_leader_id q \<noteq> u"
        using inv unfolding ha_inv_def by blast
      ultimately show ?thesis
        using member_total(4) [OF mem(2,1)] mem(2) n' by (auto simp: heartbeat_of_def member_ok_def)
    qed
    then have "ha_inv V ((set_tick l (Some (1, 1)) (set_node l n' C))\<lparr>beats := beats C @
        map (\<lambda>(d, v). (v, heartbeat_of n')) (targets (config n'))\<rparr>)"
      using i by (intro inv_beats inv_tick) blast+
    then show ?thesis
      using st b True by (simp split: if_splits)
  qed (use st b i in \<open>simp split: if_splits\<close>)
qed

lemma inv_start_round:
  assumes inv: "ha_inv V C" and st: "ha_step (StartRound c now) C = Some C'"
  shows "ha_inv V C'"
proof -
  let ?n = "nodes C c"
  have g: "topology_role (config ?n) = DataRole" "\<not> is_leader (gate ?n)" "C' = open_poll c (new_round ?n) C"
    "promotions C c = None"
    using st by (simp_all add: Let_def split: if_splits)
  have c: "c \<in> V" "member_ok V c ?n"
    using inv g(1) unfolding ha_inv_def by blast+
  show ?thesis
    unfolding g(3)
  proof (rule inv_open_poll [OF inv])
    show "round_ok V C c (new_round ?n)"
      using c g by (simp add: round_ok_def new_round_def is_leader_def)
    show "pend (new_round ?n) \<subseteq> V"
      using member_total(4) [OF c(2,1)] by (auto simp: pend_def new_round_def)
  qed (rule g(4))
qed

lemma inv_ack:
  assumes inv: "ha_inv V C"
  shows "ha_inv V (read_ack env l answer x C)"
  using collect_acks_kept [of "nodes C l" env "[answer]" "fst x" "snd x"] inv
  by (auto simp: read_ack_def intro!: inv_replies inv_tick inv_set_node split: prod.splits)

lemma inv_step:
  assumes inv: "ha_inv V C" and "timely l C" and st: "ha_step l C = Some C'"
  shows "ha_inv V C'"
proof (cases l)
  case (Hear c v)
  then show ?thesis
    using heard_ok [OF inv] st by (auto intro!: inv_round [OF inv])
next
  case (Lose c v)
  then show ?thesis
    using lost_ok [OF inv] st by (auto intro!: inv_round [OF inv])
next
  case (Conclude c env)
  then show ?thesis
    using assms by (auto intro!: conclude_inv split: option.splits if_splits)
next
  case (Promote c env)
  then show ?thesis
    using assms by (auto intro!: inv_promotion_step)
next
  case (Ack x d v answer env)
  then show ?thesis
    using inv_ack [OF inv] st by (auto split: option.splits if_splits)
next
  case (EndTick x env)
  then show ?thesis
    using end_tick_kept st inv by (auto intro!: inv_tick inv_set_node split: option.splits)
next
  case (Boot v env path)
  then show ?thesis
    using inv st boot_kept by (auto intro!: inv_forget inv_set_node role_keptI split: option.splits)
next
  case (Local v n')
  then have "vote_view n' = vote_view (nodes C v)"
    "role (gate n') = Leader \<longrightarrow> role (gate (nodes C v)) = Leader" "C' = set_node v n' C"
    using st by (auto split: if_splits)
  then show ?thesis
    using vote_viewD [of n' "nodes C v"] by (auto intro!: inv_set_node [OF inv] vote_view_kept simp: role_kept_def)
next
  case (Vote v req a stage env)
  then show ?thesis
    using assms inv_vote by blast
next
  case (Accept v req a seen env)
  then show ?thesis
    using assms inv_accept by blast
next
  case (Manual v env catch_up responds)
  then show ?thesis
    using assms(2) by simp
qed (use inv st in \<open>auto simp del: ha_step.simps intro: inv_ask inv_beat inv_begin_tick inv_start_round\<close>)

text \<open>The cluster under timely steps is an invariant system.\<close>

interpretation ha: invariant_system "fresh_cluster V" "\<lambda>C C'. \<exists>l. timely l C \<and> ha_step l C = Some C'"
    "ha_inv V" for V :: "string set"
  by unfold_locales (auto intro: fresh_inv inv_step)

lemma reach_reachable:
  "ha_reach timely C0 C \<Longrightarrow> fresh_cluster V C0 \<Longrightarrow>
   reachable (fresh_cluster V) (\<lambda>C C'. \<exists>l. timely l C \<and> ha_step l C = Some C') C"
  by (induction rule: ha_reach.induct) (auto intro: reach_init reach_step)


end
