(* ===== verification/HaRuns.thy ===== *)
theory HaRuns
  imports HaClusterProps
begin

text \<open>Concrete runs of a cluster of three data replicas (the witness of election safety, and the
  runs that show its provisos are needed), and the freshness of a leader elected in sync mode.\<close>

section \<open>Three replicas\<close>

definition demo_replica :: "string \<Rightarrow> string list \<Rightarrow> nat ha_node" where
  "demo_replica me others =
     \<lparr>config = toy_config me others Async,
      gate = \<lparr>role = Standby, epoch = 0, lease_until_ms = 0, fenced_writes = 0, admitted_writes = 0,
              writes_suspended = False\<rparr>,
      shared = (shared_default 0)\<lparr>sh_vote_path := Some ''ha-state.json''\<rparr>,
      store = \<lparr>ha_row = Some \<lparr>row_epoch = 0, row_term = 0, row_leader_id = [], row_repl_seq = 0\<rparr>,
               content = 0, schema_version = 7\<rparr>,
      replicator = Some rewind_default, vote_file = None\<rparr>"

definition demo_outsider :: "nat ha_node" where
  "demo_outsider = (demo_replica [] [])\<lparr>config := (toy_config [] [] Async)\<lparr>topology_role := WitnessRole\<rparr>\<rparr>"

definition demo_cluster :: "nat cluster" where
  "demo_cluster = \<lparr>nodes = (\<lambda>i. if i = ''a'' then demo_replica ''a'' [''b'', ''d'']
       else if i = ''b'' then demo_replica ''b'' [''a'', ''d'']
       else if i = ''d'' then demo_replica ''d'' [''a'', ''b''] else demo_outsider),
     rounds = Map.empty, promotions = Map.empty, ticks = Map.empty, voting = [], beating = [], sent = [], beats = [], replies = [], granted = [], elected = []\<rparr>"

definition demo_bid :: "nat \<Rightarrow> string \<Rightarrow> bool \<Rightarrow> vote_request" where
  "demo_bid t c pre = \<lparr>vr_cluster_id = ''c'', vr_term = t, vr_candidate_id = c, vr_applied_seq = 0,
     vr_pre_vote = pre\<rparr>"

abbreviation demo_req :: "string \<Rightarrow> bool \<Rightarrow> vote_request" where
  "demo_req \<equiv> demo_bid 1"

definition calm :: "nat ha_env" where
  "calm = \<lparr>now_ms = 5, now_unix = 0, save_ok = True, save_ok2 = True, rewind_in_time = True,
     apply_raw = (\<lambda>db b. Some (db + length b)), invert_changeset = (\<lambda>b. None)\<rparr>"

fun run :: "'db label list \<Rightarrow> 'db cluster \<Rightarrow> 'db cluster option" where
  "run [] C = Some C"
| "run (l # ls) C = (case ha_step l C of None \<Rightarrow> None | Some C' \<Rightarrow> run ls C')"

fun run_timely :: "'db label list \<Rightarrow> 'db cluster \<Rightarrow> bool" where
  "run_timely [] C = True"
| "run_timely (l # ls) C = (timely l C \<and> (case ha_step l C of None \<Rightarrow> True | Some C' \<Rightarrow> run_timely ls C'))"

lemma run_reach:
  "run ls C = Some C' \<Longrightarrow> run_timely ls C \<Longrightarrow> ha_reach timely C0 C \<Longrightarrow> ha_reach timely C0 C'"
  by (induction ls arbitrary: C) (auto intro: ha_reach_step split: option.splits)

text \<open>The parts of a granted vote and of a promotion, with nothing in between.\<close>

definition vote_parts :: "nat \<Rightarrow> nat \<Rightarrow> string \<Rightarrow> string \<Rightarrow> nat label list" where
  "vote_parts seen t v c = [Vote v (demo_bid t c False) 0 (Adopting seen) calm,
     Vote v (demo_bid t c False) 0 Weighing calm, Vote v (demo_bid t c False) 0 (Writing t) calm]"

definition promote_parts :: "string \<Rightarrow> nat label list" where
  "promote_parts c = [Promote c calm, Promote c calm, Promote c calm, Promote c calm]"

definition calm_election :: "nat label list" where
  "calm_election = [StartRound ''a'' 5, Ask ''b'' (demo_req ''a'' True) calm, Hear ''a'' ''b'',
     Conclude ''a'' calm, Ask ''b'' (demo_req ''a'' False) calm] @ vote_parts 0 1 ''b'' ''a'' @
     [Hear ''a'' ''b'', Conclude ''a'' calm] @ promote_parts ''a''"

lemma fresh_demo: "fresh_cluster {''a'', ''b'', ''d''} demo_cluster"
  by (simp add: fresh_cluster_def demo_cluster_def member_ok_def demo_replica_def demo_outsider_def
      toy_config_def topology_wf_def voters_def voter_set_of_def majority_def total_def shared_default_def)
     auto

lemmas run_eval = calm_election_def demo_cluster_def demo_replica_def demo_outsider_def demo_bid_def
  calm_def toy_config_def shared_default_def open_poll_def new_round_def targets_def open_ballot_def
  is_leader_def leader_contact_fresh_def u64_max_def vote_parts_def promote_parts_def check_vote_def
  adopt_term_def weigh_vote_def write_vote_def vote_step_def set_promotion_def advance_promotion_def
  may_promote_def new_epoch_def write_epoch_def open_gate_def conclusion_timely_def handle_vote_def handle_pre_vote_def deny_def
  vote_position_def record_answer_def set_round_def set_node_def request_of_def heard_def lost_def
  count_answer_def conclude_def poll_over_def ballot_won_def election_won_def majority_def total_def
  voter_set_of_def after_probe_def after_ballot_def set_term_and_vote_def persist_vote_def
  upd_shared_def upd_gate_def touch_leader_def observe_peer_def promote_def ha_epoch_def
  promote_epoch_def promote_for_def gate_promote_def lease_deadline_def set_leader_def
  set_applied_seq_def advance_last_replicated_seq_def campaigns_def data_majority_def Let_def

lemma calm_run:
  "case run calm_election demo_cluster of None \<Rightarrow> False | Some C \<Rightarrow> elected C = [(1, ''a'')]"
  by (simp add: run_eval)

lemma calm_timely: "run_timely calm_election demo_cluster"
  by (simp add: run_eval)


section \<open>Without the provisos\<close>

text \<open>Both replicas pre-vote for term 1; \<open>b\<close> grants \<open>a\<close> its vote for term 1 while its own pre-vote is
  still out, and then persists its own candidacy for the same term over it.\<close>

definition prevote_race :: "nat label list" where
  "prevote_race = [StartRound ''a'' 5, StartRound ''b'' 5,
     Ask ''d'' (demo_req ''a'' True) calm, Ask ''d'' (demo_req ''b'' True) calm, Hear ''a'' ''d'',
     Conclude ''a'' calm, Ask ''b'' (demo_req ''a'' False) calm] @ vote_parts 0 1 ''b'' ''a'' @
     [Hear ''a'' ''b'', Conclude ''a'' calm] @ promote_parts ''a'' @
     [Hear ''b'' ''d'', Conclude ''b'' calm, Ask ''d'' (demo_req ''b'' False) calm] @
     vote_parts 0 1 ''d'' ''b'' @ [Hear ''b'' ''d'', Conclude ''b'' calm] @ promote_parts ''b''"

fun by_hand :: "'db label \<Rightarrow> bool" where
  "by_hand (Manual v env catch_up responds) = True"
| "by_hand l = False"

lemma run_reach_any:
  "run ls C = Some C' \<Longrightarrow> list_all (\<lambda>l. ok l) ls \<Longrightarrow> ha_reach (\<lambda>l _. ok l) C0 C \<Longrightarrow>
   ha_reach (\<lambda>l _. ok l) C0 C'"
  by (induction ls arbitrary: C) (auto intro: ha_reach_step split: option.splits)

definition leads_at :: "nat \<Rightarrow> nat \<Rightarrow> nat \<Rightarrow> 'db ha_node \<Rightarrow> bool" where
  "leads_at t e now n \<longleftrightarrow> role (gate n) = Leader \<and> sh_term (shared n) = t \<and> epoch (gate n) = e \<and>
     writable now (gate n)"

lemma prevote_race_run:
  "case run prevote_race demo_cluster of None \<Rightarrow> False
   | Some C \<Rightarrow> elected C = [(1, ''b''), (1, ''a'')] \<and>
       leads_at 1 1 6 (nodes C ''a'') \<and> leads_at 1 1 6 (nodes C ''b'')"
  by (simp add: prevote_race_def run_eval writable_def leads_at_def)

text \<open>C39: The candidacy of a replica is not checked against the votes it gave while its pre-vote was out.
  Three replicas that never fail, over a network that only reorders messages, with no manual
  promotion, reach a state with two leaders of the same term and the same epoch, both holding a
  live lease and both accepting writes.\<close>

theorem prevote_race_elects_two:
  "\<exists>C. ha_reach (\<lambda>l _. \<not> by_hand l) demo_cluster C \<and> fresh_cluster {''a'', ''b'', ''d''} demo_cluster \<and>
     (1, ''a'') \<in> set (elected C) \<and> (1, ''b'') \<in> set (elected C) \<and>
     leads_at 1 1 6 (nodes C ''a'') \<and> leads_at 1 1 6 (nodes C ''b'')"
proof -
  obtain C where C: "run prevote_race demo_cluster = Some C"
    using prevote_race_run by (auto split: option.splits)
  have "ha_reach (\<lambda>l _. \<not> by_hand l) demo_cluster C"
    using run_reach_any [OF C _ ha_reach_start]
    by (simp add: prevote_race_def vote_parts_def promote_parts_def)
  then show ?thesis
    using prevote_race_run fresh_demo C by (intro exI [of _ C]) auto
qed

text \<open>A vote request is handled in parts with no lock across them.  Two requests for term 1 reach \<open>b\<close>
  together, both see term 0, and the second adopts the term again over the vote written for the
  first: \<open>b\<close> votes twice in term 1 and two leaders are elected.\<close>

definition vote_race :: "nat label list" where
  "vote_race = [StartRound ''a'' 5, StartRound ''d'' 5,
     Ask ''b'' (demo_req ''a'' True) calm, Ask ''b'' (demo_req ''d'' True) calm,
     Hear ''a'' ''b'', Hear ''d'' ''b'', Conclude ''a'' calm, Conclude ''d'' calm,
     Ask ''b'' (demo_req ''a'' False) calm, Ask ''b'' (demo_req ''d'' False) calm] @
     vote_parts 0 1 ''b'' ''a'' @ vote_parts 0 1 ''b'' ''d'' @
     [Hear ''a'' ''b'', Conclude ''a'' calm] @ promote_parts ''a'' @
     [Hear ''d'' ''b'', Conclude ''d'' calm] @ promote_parts ''d''"

lemma vote_race_grants_two:
  "case run vote_race demo_cluster of None \<Rightarrow> False
   | Some C \<Rightarrow> (''b'', 1, ''a'') \<in> set (granted C) \<and> (''b'', 1, ''d'') \<in> set (granted C) \<and>
       elected C = [(1, ''d''), (1, ''a'')]"
  by (simp add: vote_race_def run_eval)

text \<open>\<open>promote\<close> checks the term before its two database calls and opens the gate after them.  While
  \<open>a\<close>, elected in term 1, waits for the database, \<open>d\<close> campaigns for term 2 and gets the vote of
  \<open>a\<close>, which is no leader yet and so is not demoted.  Both then lead in term 2.\<close>

definition promotion_race :: "nat label list" where
  "promotion_race = [StartRound ''a'' 5, Ask ''d'' (demo_req ''a'' True) calm, Hear ''a'' ''d'',
     Conclude ''a'' calm, Ask ''d'' (demo_req ''a'' False) calm] @ vote_parts 0 1 ''d'' ''a'' @
     [Hear ''a'' ''d'', Conclude ''a'' calm, Promote ''a'' calm, Promote ''a'' calm, Promote ''a'' calm,
      StartRound ''d'' 9, Ask ''b'' (demo_bid 2 ''d'' True) calm, Hear ''d'' ''b'', Conclude ''d'' calm,
      Ask ''a'' (demo_bid 2 ''d'' False) calm] @ vote_parts 1 2 ''a'' ''d'' @
     [Hear ''d'' ''a'', Conclude ''d'' calm] @ promote_parts ''d'' @ [Promote ''a'' calm]"

lemma promotion_race_leads_two:
  "case run promotion_race demo_cluster of None \<Rightarrow> False
   | Some C \<Rightarrow> elected C = [(1, ''a''), (2, ''d'')] \<and>
       leads_at 2 1 6 (nodes C ''a'') \<and> leads_at 2 2 6 (nodes C ''d'')"
  by (simp add: promotion_race_def run_eval writable_def leads_at_def)

definition two_operators :: "nat label list" where
  "two_operators = [Manual ''a'' calm (\<lambda>n. (n, True)) False, Manual ''b'' calm (\<lambda>n. (n, True)) False]"

text \<open>An operator promotion collects no vote at all: two operators, or one with two terminals, make two
  leaders of term 1.\<close>

lemma manual_promotion_needs_no_vote:
  "case run two_operators demo_cluster of None \<Rightarrow> False
   | Some C \<Rightarrow> granted C = [] \<and> elected C = [(1, ''b''), (1, ''a'')] \<and>
       writable 6 (gate (nodes C ''a'')) \<and> writable 6 (gate (nodes C ''b''))"
  by (simp add: two_operators_def run_eval manual_promote_def writable_def)

section \<open>A leader elected in sync mode is fresh\<close>

record 'db answer =
  an_my_term :: nat
  an_voter :: string
  an_node :: "'db ha_node"
  an_env :: "'db ha_env"

definition answer_of :: "vote_request \<Rightarrow> 'db answer \<Rightarrow> vote_response" where
  "answer_of req a = snd (handle_vote (an_env a) (vote_position (an_node a)) req (an_node a))"

definition is_data :: "'db ha_node \<Rightarrow> bool" where
  "is_data n \<longleftrightarrow> topology_role (config n) = DataRole"

definition poll :: "'db ha_node \<Rightarrow> vote_request \<Rightarrow> 'db answer list \<Rightarrow> ballot" where
  "poll n req as =
     solicit n (map (\<lambda>a. (an_my_term a, is_data (an_node a), Some (answer_of req a))) as) (open_ballot n)"

lemma handle_vote_fresh:
  "vp_granted (snd (handle_vote env a req n)) \<Longrightarrow> a \<le> vr_applied_seq req"
  by (auto simp: handle_vote_def check_vote_def weigh_vote_def write_vote_def handle_pre_vote_def deny_def
      Let_def split: if_splits option.splits prod.splits bool.splits sum.splits)

definition data_grants :: "vote_request \<Rightarrow> 'db answer list \<Rightarrow> string list" where
  "data_grants req as =
     map an_voter (filter (\<lambda>a. is_data (an_node a) \<and> vp_granted (answer_of req a)) as)"

lemma data_grants_Cons:
  "data_grants req (a # as) =
     (if is_data (an_node a) \<and> vp_granted (answer_of req a) then [an_voter a] else []) @ data_grants req as"
  by (simp add: data_grants_def)

lemma solicit_data_votes:
  "bl_data_votes (solicit n (map (\<lambda>a. (an_my_term a, is_data (an_node a), Some (answer_of req a))) as) b)
     \<le> bl_data_votes b + length (data_grants req as)"
proof (induction as arbitrary: b)
  case (Cons a as)
  let ?b = "count_answer (an_my_term a) (is_data (an_node a)) (answer_of req a) b"
  have "bl_data_votes ?b \<le> bl_data_votes b + (if is_data (an_node a) \<and> vp_granted (answer_of req a) then 1 else 0)"
    by (simp add: count_answer_def Let_def)
  then show ?case
    using Cons.IH [of ?b] by (auto simp: data_grants_Cons Let_def split: if_splits)
qed (simp add: data_grants_def)

text \<open>In sync mode a winner has every write a data majority has.  If the data replicas in \<open>A\<close>, a data
  majority, all hold sequence \<open>q\<close> when they answer the candidate (and the candidate itself if it
  is one of them), then a candidate that wins the poll is at \<open>q\<close> or beyond, whatever the order of
  the answers, the terms it was in and the witnesses that voted for it.\<close>

theorem sync_winner_is_fresh:
  assumes "rpo (config n) = Sync" "ballot_won n (poll n (bid_of n) as)"
    and "c = node_id (config n)" "c \<in> D" "finite D" "card D = data_replicas (config n)"
    and "distinct (map an_voter as)" "c \<notin> set (map an_voter as)"
    and "\<forall>a \<in> set as. is_data (an_node a) \<longrightarrow> an_voter a \<in> D"
    and "A \<subseteq> D" "data_majority (voter_set_of (config n)) \<le> card A"
    and "\<forall>a \<in> set as. is_data (an_node a) \<and> an_voter a \<in> A \<longrightarrow> q \<le> sh_applied_seq (shared (an_node a))"
    and "c \<in> A \<longrightarrow> q \<le> sh_applied_seq (shared n)"
  shows "q \<le> sh_applied_seq (shared n)"
proof -
  let ?vs = "voter_set_of (config n)" let ?G = "insert c (set (data_grants (bid_of n) as))"
  have "distinct (data_grants (bid_of n) as)"
    using assms(7) by (simp add: data_grants_def distinct_map distinct_filter inj_on_def)
  moreover have "c \<notin> set (data_grants (bid_of n) as)"
    using assms(8) by (auto simp: data_grants_def)
  ultimately have "card ?G = 1 + length (data_grants (bid_of n) as)"
    by (simp add: distinct_card)
  moreover have "data_majority ?vs \<le> 1 + length (data_grants (bid_of n) as)"
    using solicit_data_votes [of n "bid_of n" as "open_ballot n"] assms(1,2)
    by (simp add: poll_def ballot_won_def election_won_def open_ballot_def)
  moreover have "?G \<subseteq> D"
    using assms(4,9) by (auto simp: data_grants_def)
  ultimately have "data_quorum D ?vs ?G" "data_quorum D ?vs A"
    using assms(5,6,10,11) by (simp_all add: data_quorum_def voter_set_of_def)
  from data.quorum_meet [OF this] obtain v where v: "v \<in> ?G" "v \<in> A"
    by blast
  show ?thesis
  proof (cases "v = c")
    case False
    then obtain a where a: "a \<in> set as" "an_voter a = v" "is_data (an_node a)" "vp_granted (answer_of (bid_of n) a)"
      using v(1) by (auto simp: data_grants_def)
    then have "sh_applied_seq (shared (an_node a)) \<le> vr_applied_seq (bid_of n)"
      using handle_vote_fresh [of "an_env a" "vote_position (an_node a)" "bid_of n" "an_node a"]
      by (simp add: answer_of_def vote_position_def is_data_def)
    then show ?thesis
      using assms(12) a v(2) by (fastforce simp: bid_of_def)
  qed (use assms(13) v in blast)
qed

definition sync_replica :: "string \<Rightarrow> string list \<Rightarrow> nat \<Rightarrow> nat ha_node" where
  "sync_replica me others q = (demo_replica me others)\<lparr>config := toy_config me others Sync,
     shared := (shared (demo_replica me others))\<lparr>sh_applied_seq := q\<rparr>\<rparr>"

definition sync_answers :: "nat answer list" where
  "sync_answers = [\<lparr>an_my_term = 1, an_voter = ''b'', an_node = sync_replica ''b'' [''a'', ''d''] 3, an_env = calm\<rparr>]"

lemma sync_poll: "ballot_won (sync_replica ''a'' [''b'', ''d''] 3)
    (poll (sync_replica ''a'' [''b'', ''d''] 3) (bid_of (sync_replica ''a'' [''b'', ''d''] 3)) sync_answers)"
  by (simp add: run_eval sync_replica_def sync_answers_def poll_def bid_of_def answer_of_def is_data_def)

theorem sync_winner_is_fresh_witness:
  "3 \<le> sh_applied_seq (shared (sync_replica ''a'' [''b'', ''d''] 3)) \<and>
   ballot_won (sync_replica ''a'' [''b'', ''d''] 3)
    (poll (sync_replica ''a'' [''b'', ''d''] 3) (bid_of (sync_replica ''a'' [''b'', ''d''] 3)) sync_answers)"
  using sync_winner_is_fresh [OF _ sync_poll, of "''a''" "{''a'', ''b'', ''d''}" "{''b'', ''d''}" 3] sync_poll
  by (simp add: sync_replica_def demo_replica_def toy_config_def sync_answers_def voter_set_of_def
      data_majority_def)

end
