(* ===== verification/WorkflowStore.thy ===== *)
theory WorkflowStore
  imports StoreOps WorkflowDag
begin

text \<open>
  The workflow engine of the control plane (\<open>store/workflows.rs\<close> with the types and
  pure functions of \<open>crates/common/src/workflow.rs\<close>): templates, runs, step and role
  rows, the typed mailbox with its circuit breaker, budgets and schedules. The state is the
  store of the task lifecycle together with the workflow tables. Random ids come from a
  supply that the state counts through; the YAML and JSON readers, SQLite's JSON functions
  and the success of a task insert are fields of an environment.
\<close>

section \<open>Budgets\<close>

record workflow_budget =
  wb_max_messages :: "nat option"
  wb_max_rounds :: "nat option"
  wb_max_bytes :: "nat option"
  wb_max_tokens :: "nat option"
  wb_max_cost_cents :: "nat option"
  wb_max_wall_seconds :: "nat option"
  wb_max_repeated_handoffs :: "nat option"

record budget_usage =
  bu_messages :: nat
  bu_rounds :: nat
  bu_bytes :: nat
  bu_tokens :: nat
  bu_cost_cents :: nat
  bu_wall_seconds :: nat
  bu_repeated_handoffs :: nat

record budget_breach =
  bb_field :: string
  bb_limit :: nat
  bb_observed :: nat

definition over :: "string \<Rightarrow> nat option \<Rightarrow> nat \<Rightarrow> budget_breach option" where
  "over field cap observed =
     (case cap of
        Some m \<Rightarrow> if m < observed
                  then Some \<lparr>bb_field = field, bb_limit = m, bb_observed = observed\<rparr> else None
      | None \<Rightarrow> None)"

definition or_else :: "'a option \<Rightarrow> 'a option \<Rightarrow> 'a option" where
  "or_else x y = (case x of None \<Rightarrow> y | Some v \<Rightarrow> Some v)"

definition budget_check :: "workflow_budget \<Rightarrow> budget_usage \<Rightarrow> budget_breach option" where
  "budget_check b u =
     or_else (over ''max_messages'' (wb_max_messages b) (bu_messages u))
     (or_else (over ''max_rounds'' (wb_max_rounds b) (bu_rounds u))
     (or_else (over ''max_bytes'' (wb_max_bytes b) (bu_bytes u))
     (or_else (over ''max_tokens'' (wb_max_tokens b) (bu_tokens u))
     (or_else (over ''max_cost_cents'' (wb_max_cost_cents b) (bu_cost_cents u))
     (or_else (over ''max_wall_seconds'' (wb_max_wall_seconds b) (bu_wall_seconds u))
     (over ''max_repeated_handoffs'' (wb_max_repeated_handoffs b) (bu_repeated_handoffs u)))))))"

definition no_usage :: budget_usage where
  "no_usage = \<lparr>bu_messages = 0, bu_rounds = 0, bu_bytes = 0, bu_tokens = 0, bu_cost_cents = 0,
     bu_wall_seconds = 0, bu_repeated_handoffs = 0\<rparr>"

definition compute_budget_usage :: "int \<Rightarrow> nat \<Rightarrow> int \<Rightarrow> budget_usage" where
  "compute_budget_usage created_at_unix task_count now_unix =
     no_usage\<lparr>bu_rounds := task_count,
       bu_wall_seconds := (if created_at_unix < now_unix then nat (now_unix - created_at_unix) else 0)\<rparr>"

definition default_assembly_budget :: workflow_budget where
  "default_assembly_budget = \<lparr>wb_max_messages = None, wb_max_rounds = Some 50, wb_max_bytes = None,
     wb_max_tokens = None, wb_max_cost_cents = None, wb_max_wall_seconds = Some (4 * 3600),
     wb_max_repeated_handoffs = None\<rparr>"

section \<open>The tables\<close>

datatype workflow_run_status =
  RunPending | RunRunning | RunSucceeded | RunFailed | RunCancelled | RunBlocked | RunPlanReady

datatype workflow_step_status =
  StepPending | StepRunning | StepSucceeded | StepFailed | StepCancelled | StepSkipped | StepBlocked

datatype message_kind = Output | Plan | Note

record workflow_template =
  wt_id :: id
  wt_name :: string
  wt_steps :: "workflow_step list"
  wt_budget :: "workflow_budget option"
  wt_created_at :: time

text \<open>The columns of \<open>workflow_runs\<close> that the request fixes.\<close>

record run_request =
  rq_context :: "string option"
  rq_repository :: "string option"
  rq_base_commit :: "string option"
  rq_auto_approve_plan :: bool
  rq_github_push :: bool
  rq_github_repo :: "string option"
  rq_github_issue :: "int option"
  rq_github_create :: bool

record workflow_run =
  wr_id :: id
  wr_template_id :: id
  wr_request :: run_request
  wr_status :: workflow_run_status
  wr_assembly :: bool
  wr_adapter :: "string option"
  wr_plan :: "string option"
  wr_created_at :: time
  wr_finished_at :: "time option"
  wr_message_sequence :: nat
  wr_handoff_streak :: nat
  wr_handoff_streak_max :: nat
  wr_handoff_last_from :: "string option"
  wr_handoff_last_to :: "string option"

record step_run =
  sr_id :: id
  sr_run_id :: id
  sr_step :: workflow_step
  sr_attempts :: nat
  sr_status :: workflow_step_status
  sr_created_at :: time
  sr_started_at :: "time option"
  sr_finished_at :: "time option"

record role_run =
  rr_id :: id
  rr_step_run_id :: id
  rr_role :: workflow_role
  rr_task_id :: "id option"
  rr_status :: workflow_step_status

record workflow_message =
  wm_run_id :: id
  wm_from :: string
  wm_to :: string
  wm_kind :: message_kind
  wm_payload :: string
  wm_sequence :: nat

record workflow_schedule =
  sc_id :: id
  sc_template_id :: id
  sc_interval_seconds :: int
  sc_autonomy :: string
  sc_last_run_at :: "int option"
  sc_enabled :: bool
  sc_created_at :: time

record wf =
  wf_store :: store
  wf_templates :: "workflow_template list"
  wf_runs :: "workflow_run list"
  wf_steps :: "step_run list"
  wf_role_runs :: "role_run list"
  wf_messages :: "workflow_message list"
  wf_schedules :: "workflow_schedule list"
  wf_minted :: nat

record handoff_package =
  hp_summary :: string
  hp_commit_sha :: "string option"
  hp_artifacts :: "string list"

text \<open>A plan step as the readers return it; a role the plan does not name is a worker.\<close>

record plan_step =
  ps_id :: string
  ps_prompt :: string
  ps_depends_on :: "string list"
  ps_role :: workflow_role
  ps_adapter :: "string option"
  ps_requested_node_id :: "string option"
  ps_retryable :: "bool option"
  ps_max_attempts :: "nat option"

text \<open>The clock of a call, the supply of random ids, whether the insert of a task
  succeeds, and the readers of JSON and YAML text.\<close>

record wf_env =
  we_now :: time
  we_mint :: "nat \<Rightarrow> id"
  we_create_ok :: "create_task_request \<Rightarrow> bool"
  we_order :: "string list \<Rightarrow> string list"
  we_json_plan :: "string \<Rightarrow> string + plan_step list"
  we_yaml_plan :: "string \<Rightarrow> string + plan_step list"
  we_handoff :: "string \<Rightarrow> handoff_package option"
  we_metric :: "string \<Rightarrow> int \<times> int"

datatype github_error = InvalidRepo string | RepoRequired | InvalidIssue int | CreateNeedsPush

datatype wf_error =
  InvalidDag dag_error
| InvalidGithub github_error
| UnknownTemplate
| UnknownRun
| NotAwaitingApproval
| NoPlan
| BadPlan string
| UniqueViolation
| DbError
| BadInterval
| UnknownAutonomy
| L4NeedsBudget
| EmptyGoal
| GoalTooLong
| Panicked

definition mint :: "wf_env \<Rightarrow> wf \<Rightarrow> id \<times> wf" where
  "mint env w = (we_mint env (wf_minted w), w\<lparr>wf_minted := wf_minted w + 1\<rparr>)"

definition unix :: "time \<Rightarrow> int" where
  "unix t = int (t div 1000000000)"

fun workflow_role_str :: "workflow_role \<Rightarrow> string" where
  "workflow_role_str Architect = ''architect''"
| "workflow_role_str Worker = ''worker''"
| "workflow_role_str Reviewer = ''reviewer''"
| "workflow_role_str Integrator = ''integrator''"
| "workflow_role_str Verifier = ''verifier''"
| "workflow_role_str Collector = ''collector''"

fun kind_str :: "message_kind \<Rightarrow> string" where
  "kind_str Output = ''output''"
| "kind_str Plan = ''plan''"
| "kind_str Note = ''note''"

fun kind_of_str :: "string \<Rightarrow> message_kind option" where
  "kind_of_str s = (if s = ''output'' then Some Output else if s = ''plan'' then Some Plan
     else if s = ''note'' then Some Note else None)"

lemma kind_roundtrip: "kind_of_str (kind_str k) = Some k"
  by (cases k) auto

section \<open>Row access\<close>

definition update_run :: "id \<Rightarrow> (workflow_run \<Rightarrow> workflow_run) \<Rightarrow> wf \<Rightarrow> wf" where
  "update_run rid f w = w\<lparr>wf_runs := sql_update (\<lambda>r. wr_id r = rid) f (wf_runs w)\<rparr>"

definition update_step :: "id \<Rightarrow> (step_run \<Rightarrow> step_run) \<Rightarrow> wf \<Rightarrow> wf" where
  "update_step sid f w = w\<lparr>wf_steps := sql_update (\<lambda>r. sr_id r = sid) f (wf_steps w)\<rparr>"

definition get_workflow_template :: "wf \<Rightarrow> id \<Rightarrow> workflow_template option" where
  "get_workflow_template w tid = sql_first (\<lambda>t. wt_id t = tid) (wf_templates w)"

definition non_empty :: "string option \<Rightarrow> string option" where
  "non_empty x = (case x of Some s \<Rightarrow> if s = [] then None else Some s | None \<Rightarrow> None)"

definition run_view :: "workflow_run \<Rightarrow> workflow_run" where
  "run_view r = r\<lparr>wr_request := (wr_request r)\<lparr>rq_base_commit := non_empty (rq_base_commit (wr_request r))\<rparr>,
     wr_adapter := non_empty (wr_adapter r)\<rparr>"

definition get_workflow_run :: "wf \<Rightarrow> id \<Rightarrow> workflow_run option" where
  "get_workflow_run w rid = map_option run_view (sql_first (\<lambda>r. wr_id r = rid) (wf_runs w))"

definition step_view :: "step_run \<Rightarrow> step_run" where
  "step_view s = s\<lparr>sr_step := (sr_step s)\<lparr>ws_requested_node_id := non_empty (ws_requested_node_id (sr_step s)),
     ws_base_commit := non_empty (ws_base_commit (sr_step s))\<rparr>\<rparr>"

text \<open>\<open>ORDER BY created_at ASC\<close>; rows of one instant come in insertion order.\<close>

definition get_workflow_run_steps :: "wf \<Rightarrow> id \<Rightarrow> step_run list" where
  "get_workflow_run_steps w rid =
     map step_view (sort_key sr_created_at (filter (\<lambda>s. sr_run_id s = rid) (wf_steps w)))"

definition running_workflow_run_ids :: "wf \<Rightarrow> id list" where
  "running_workflow_run_ids w =
     map wr_id (sort_key wr_created_at (filter (\<lambda>r. wr_status r = RunRunning) (wf_runs w)))"

definition set_workflow_run_status ::
    "id \<Rightarrow> workflow_run_status \<Rightarrow> time option \<Rightarrow> wf \<Rightarrow> wf" where
  "set_workflow_run_status rid st fin w =
     update_run rid (\<lambda>r. r\<lparr>wr_status := st, wr_finished_at := fin\<rparr>) w"

definition coalesce :: "'a option \<Rightarrow> 'a \<Rightarrow> 'a option" where
  "coalesce x d = (case x of None \<Rightarrow> Some d | Some v \<Rightarrow> Some v)"

fun step_row_status :: "time \<Rightarrow> workflow_step_status \<Rightarrow> step_run \<Rightarrow> step_run" where
  "step_row_status now StepRunning s =
     s\<lparr>sr_status := StepRunning, sr_started_at := coalesce (sr_started_at s) now\<rparr>"
| "step_row_status now StepPending s = s\<lparr>sr_status := StepPending\<rparr>"
| "step_row_status now st s =
     s\<lparr>sr_status := st, sr_finished_at := coalesce (sr_finished_at s) now\<rparr>"

definition set_step_status :: "time \<Rightarrow> id \<Rightarrow> workflow_step_status \<Rightarrow> wf \<Rightarrow> wf" where
  "set_step_status now sid st w = update_step sid (step_row_status now st) w"

definition set_step_attempts :: "id \<Rightarrow> nat \<Rightarrow> wf \<Rightarrow> wf" where
  "set_step_attempts sid n w = update_step sid (\<lambda>s. s\<lparr>sr_attempts := n\<rparr>) w"

text \<open>The join of role rows and step rows through which the scheduler of the store finds
  the role of a task.\<close>

definition role_join :: "wf \<Rightarrow> (id \<times> string) list" where
  "role_join w = concat (map (\<lambda>rr. case rr_task_id rr of None \<Rightarrow> []
      | Some t \<Rightarrow> map (\<lambda>s. (t, workflow_role_str (ws_role (sr_step s))))
                   (filter (\<lambda>s. sr_id s = rr_step_run_id rr) (wf_steps w))) (wf_role_runs w))"

definition set_role_run_task :: "id \<Rightarrow> id \<Rightarrow> wf \<Rightarrow> wf" where
  "set_role_run_task sid tid w =
     (let w1 = w\<lparr>wf_role_runs := sql_update (\<lambda>rr. rr_step_run_id rr = sid)
            (\<lambda>rr. rr\<lparr>rr_task_id := Some tid\<rparr>) (wf_role_runs w)\<rparr>
      in w1\<lparr>wf_store := (wf_store w1)\<lparr>step_roles := role_join w1\<rparr>\<rparr>)"

definition set_role_run_status_by_step :: "id \<Rightarrow> workflow_step_status \<Rightarrow> wf \<Rightarrow> wf" where
  "set_role_run_status_by_step sid st w =
     w\<lparr>wf_role_runs := sql_update (\<lambda>rr. rr_step_run_id rr = sid)
         (\<lambda>rr. rr\<lparr>rr_status := st\<rparr>) (wf_role_runs w)\<rparr>"

definition step_task_id :: "wf \<Rightarrow> id \<Rightarrow> id option" where
  "step_task_id w sid =
     Option.bind (sql_first (\<lambda>rr. rr_step_run_id rr = sid) (wf_role_runs w)) rr_task_id"

definition step_role_for_attempt :: "wf \<Rightarrow> id \<Rightarrow> string option" where
  "step_role_for_attempt w tid = map_of (role_join w) tid"

definition workflow_run_id_for_task :: "wf \<Rightarrow> id \<Rightarrow> id option" where
  "workflow_run_id_for_task w tid =
     map_of (concat (map (\<lambda>rr. case rr_task_id rr of None \<Rightarrow> []
       | Some t \<Rightarrow> map (\<lambda>s. (t, sr_run_id s))
                    (filter (\<lambda>s. sr_id s = rr_step_run_id rr) (wf_steps w))) (wf_role_runs w))) tid"

definition latest_attempt :: "wf \<Rightarrow> id \<Rightarrow> attempt_row option" where
  "latest_attempt w tid = max_number None (filter (\<lambda>a. a_task_id a = tid) (attempts (wf_store w)))"

definition attempt_plan_for_task :: "wf \<Rightarrow> id \<Rightarrow> string option" where
  "attempt_plan_for_task w tid =
     non_empty (Option.bind (latest_attempt w tid) (\<lambda>a. r_plan (a_report a)))"

definition attempt_commit_for_task :: "wf \<Rightarrow> id \<Rightarrow> string option" where
  "attempt_commit_for_task w tid =
     non_empty (Option.bind (latest_attempt w tid) (\<lambda>a. r_commit_sha (a_report a)))"

definition get_task_status :: "wf \<Rightarrow> id \<Rightarrow> task_status option" where
  "get_task_status w tid = map_option t_status (find_task (wf_store w) tid)"

definition set_workflow_run_plan :: "id \<Rightarrow> string \<Rightarrow> wf \<Rightarrow> wf" where
  "set_workflow_run_plan rid plan w = update_run rid (\<lambda>r. r\<lparr>wr_plan := Some plan\<rparr>) w"

definition get_workflow_run_plan :: "wf \<Rightarrow> id \<Rightarrow> string option" where
  "get_workflow_run_plan w rid =
     non_empty (Option.bind (sql_first (\<lambda>r. wr_id r = rid) (wf_runs w)) wr_plan)"

section \<open>Who may read an upstream result\<close>

text \<open>The commits of the dependency steps that are handed to an integrating step.\<close>

definition find_role_run :: "wf \<Rightarrow> id \<Rightarrow> role_run option" where
  "find_role_run w tid = sql_first (\<lambda>rr. rr_task_id rr = Some tid) (wf_role_runs w)"

definition upstream_refs_for_task :: "wf \<Rightarrow> id \<Rightarrow> (string \<times> id) list" where
  "upstream_refs_for_task w tid =
     (case find_role_run w tid of
        None \<Rightarrow> []
      | Some rr \<Rightarrow>
          (case sql_first (\<lambda>s. sr_id s = rr_step_run_id rr) (wf_steps w) of
             None \<Rightarrow> []
           | Some s \<Rightarrow>
               List.map_filter (\<lambda>dep.
                 (case sql_first (\<lambda>d. sr_run_id d = sr_run_id s \<and> ws_id (sr_step d) = dep) (wf_steps w) of
                    None \<Rightarrow> None
                  | Some d \<Rightarrow>
                      (case step_task_id w (sr_id d) of
                         None \<Rightarrow> None
                       | Some t \<Rightarrow> map_option (\<lambda>sha. (sha, t)) (attempt_commit_for_task w t))))
                 (ws_depends_on (sr_step s))))"

definition can_node_read_upstream_artifact :: "wf \<Rightarrow> id \<Rightarrow> id \<Rightarrow> wf_error + bool" where
  "can_node_read_upstream_artifact w nid producer =
     (case find_role_run w producer of
        None \<Rightarrow> Inr False
      | Some rr \<Rightarrow>
          (case sql_first (\<lambda>s. sr_id s = rr_step_run_id rr) (wf_steps w) of
             None \<Rightarrow> Inl DbError
           | Some p \<Rightarrow>
               Inr (list_ex (\<lambda>s.
                  ws_id (sr_step p) \<in> set (ws_depends_on (sr_step s)) \<and>
                  (case step_task_id w (sr_id s) of
                     None \<Rightarrow> False
                   | Some t \<Rightarrow>
                       (case latest_attempt w t of
                          None \<Rightarrow> False
                        | Some a \<Rightarrow>
                            a_status a \<in> {AttemptAssigned, AttemptRunning, AttemptValidating, AttemptSucceeded} \<and>
                            a_node_id a = nid)))
                 (filter (\<lambda>s. sr_run_id s = sr_run_id p \<and> sr_id s \<noteq> rr_step_run_id rr) (wf_steps w)))))"

section \<open>The mailbox and the circuit breaker\<close>

definition build_handoff_payload :: "string \<Rightarrow> string option \<Rightarrow> string list \<Rightarrow> string" where
  "build_handoff_payload summary sha arts =
     ''{'' @ json_str ''summary'' @ '':'' @ json_str summary @
     (case sha of None \<Rightarrow> [] | Some c \<Rightarrow> '','' @ json_str ''commit_sha'' @ '':'' @ json_str c) @
     '','' @ json_str ''artifacts'' @ '':['' @ join '','' (map json_str arts) @ '']}''"

definition render_message :: "wf_env \<Rightarrow> workflow_message \<Rightarrow> string" where
  "render_message env m =
     ''### `'' @ wm_from m @ ''`: '' @ kind_str (wm_kind m) @ [CHR 0x0A] @
     (case we_handoff env (wm_payload m) of
        Some p \<Rightarrow>
          ''- summary: '' @ trim (hp_summary p) @ [CHR 0x0A] @
          (case hp_commit_sha p of None \<Rightarrow> [] | Some c \<Rightarrow> ''- commit: `'' @ c @ ''`'' @ [CHR 0x0A]) @
          (if hp_artifacts p = [] then [] else ''- artifacts: '' @ join '', '' (hp_artifacts p) @ [CHR 0x0A])
      | None \<Rightarrow> trim (wm_payload m) @ [CHR 0x0A])"

definition render_handoff_block :: "wf_env \<Rightarrow> string \<Rightarrow> workflow_message list \<Rightarrow> string" where
  "render_handoff_block env prompt ms =
     (if ms = [] then prompt
      else ''## Handoff from upstream steps'' @ [CHR 0x0A] @ concat (map (render_message env) ms)
           @ [CHR 0x0A] @ prompt)"

text \<open>The \<open>CASE\<close> expressions of the \<open>UPDATE\<close>; every right-hand side reads the
  old row.\<close>

definition next_streak :: "string \<Rightarrow> string \<Rightarrow> workflow_run \<Rightarrow> nat \<Rightarrow> nat" where
  "next_streak from to r on_broadcast =
     (if to = ''*'' then on_broadcast
      else if wr_handoff_last_to r \<noteq> None \<and> wr_handoff_last_to r \<noteq> Some ''*''
           \<and> wr_handoff_last_from r = Some from \<and> wr_handoff_last_to r = Some to
      then wr_handoff_streak r + 1 else 1)"

definition advance_streak :: "string \<Rightarrow> string \<Rightarrow> workflow_run \<Rightarrow> workflow_run" where
  "advance_streak from to r =
     r\<lparr>wr_handoff_streak := next_streak from to r 0,
       wr_handoff_streak_max := max (wr_handoff_streak_max r) (next_streak from to r (wr_handoff_streak r)),
       wr_handoff_last_from := Some from,
       wr_handoff_last_to := Some to\<rparr>"

definition emit_workflow_message ::
    "id \<Rightarrow> string \<Rightarrow> string \<Rightarrow> message_kind \<Rightarrow> string \<Rightarrow> wf \<Rightarrow> wf" where
  "emit_workflow_message rid from to kind payload w =
     (let w1 = update_run rid (\<lambda>r. r\<lparr>wr_message_sequence := wr_message_sequence r + 1\<rparr>) w
      in case sql_first (\<lambda>r. wr_id r = rid) (wf_runs w1) of
           None \<Rightarrow> w
         | Some r \<Rightarrow>
             update_run rid (advance_streak from to)
               (w1\<lparr>wf_messages := wf_messages w1 @
                  [\<lparr>wm_run_id = rid, wm_from = from, wm_to = to, wm_kind = kind,
                    wm_payload = payload, wm_sequence = wr_message_sequence r\<rparr>]\<rparr>))"

text \<open>The replay at startup: the streak, its maximum, the last pair.\<close>

fun replay_streak :: "(string \<times> string) list \<Rightarrow> nat \<times> nat \<times> string option \<times> string option \<Rightarrow>
    nat \<times> nat \<times> string option \<times> string option" where
  "replay_streak [] acc = acc"
| "replay_streak ((from, to) # ms) (longest, cur, last_from, last_to) =
     (if to = ''*'' then replay_streak ms (longest, 0, Some from, Some to)
      else let cur1 = (if (last_from, last_to) = (Some from, Some to) \<and> 0 < cur then cur + 1 else 1)
           in replay_streak ms (max longest cur1, cur1, Some from, Some to))"

definition run_messages :: "wf \<Rightarrow> id \<Rightarrow> workflow_message list" where
  "run_messages w rid = sort_key wm_sequence (filter (\<lambda>m. wm_run_id m = rid) (wf_messages w))"

definition rebuild_run :: "wf \<Rightarrow> workflow_run \<Rightarrow> workflow_run" where
  "rebuild_run w r =
     (case replay_streak (map (\<lambda>m. (wm_from m, wm_to m)) (run_messages w (wr_id r))) (0, 0, None, None) of
        (longest, cur, lf, lt) \<Rightarrow>
          r\<lparr>wr_handoff_streak := cur, wr_handoff_streak_max := longest,
            wr_handoff_last_from := lf, wr_handoff_last_to := lt\<rparr>)"

definition rebuild_handoff_streaks :: "wf \<Rightarrow> wf" where
  "rebuild_handoff_streaks w =
     w\<lparr>wf_runs := sql_update
         (\<lambda>r. wr_status r \<in> {RunPending, RunRunning} \<and> run_messages w (wr_id r) \<noteq> [])
         (rebuild_run w) (wf_runs w)\<rparr>"

definition messages_for_step :: "wf \<Rightarrow> id \<Rightarrow> string \<Rightarrow> workflow_message list" where
  "messages_for_step w rid step =
     filter (\<lambda>m. wm_to m = step \<or> wm_to m = ''*'') (run_messages w rid)"

definition workflow_message_count :: "wf \<Rightarrow> id \<Rightarrow> nat" where
  "workflow_message_count w rid = sql_count (\<lambda>m. wm_run_id m = rid) (wf_messages w) mod 2 ^ 32"

definition workflow_message_bytes :: "wf \<Rightarrow> id \<Rightarrow> nat" where
  "workflow_message_bytes w rid =
     sum_list (map (length \<circ> wm_payload) (filter (\<lambda>m. wm_run_id m = rid) (wf_messages w)))"

definition workflow_repeated_handoffs :: "wf \<Rightarrow> id \<Rightarrow> nat" where
  "workflow_repeated_handoffs w rid =
     (case sql_first (\<lambda>r. wr_id r = rid) (wf_runs w) of
        None \<Rightarrow> 0 | Some r \<Rightarrow> wr_handoff_streak_max r mod 2 ^ 32)"

text \<open>The metric events of the attempts of the tasks the run's role rows name.\<close>

definition run_metrics :: "wf \<Rightarrow> id \<Rightarrow> string list" where
  "run_metrics w rid =
     map e_payload (concat (map (\<lambda>e. concat (map (\<lambda>a. concat (map (\<lambda>rr.
        map (\<lambda>_. e) (filter (\<lambda>s. sr_id s = rr_step_run_id rr \<and> sr_run_id s = rid) (wf_steps w)))
        (filter (\<lambda>rr. rr_task_id rr = Some (a_task_id a)) (wf_role_runs w))))
        (filter (\<lambda>a. a_id a = e_attempt_id e) (attempts (wf_store w)))))
        (filter (\<lambda>e. e_type e = EvtMetric) (task_events (wf_store w)))))"

definition sum_metrics :: "wf_env \<Rightarrow> string list \<Rightarrow> nat \<times> nat" where
  "sum_metrics env ps =
     (nat (sum_list (map (fst \<circ> we_metric env) ps)), nat (sum_list (map (snd \<circ> we_metric env) ps)))"

definition workflow_tokens_cost :: "wf_env \<Rightarrow> wf \<Rightarrow> id \<Rightarrow> nat \<times> nat" where
  "workflow_tokens_cost env w rid = sum_metrics env (run_metrics w rid)"

definition total_tokens_cost :: "wf_env \<Rightarrow> wf \<Rightarrow> nat \<times> nat" where
  "total_tokens_cost env w =
     sum_metrics env (map e_payload (filter (\<lambda>e. e_type e = EvtMetric) (task_events (wf_store w))))"

definition run_usage :: "wf_env \<Rightarrow> workflow_run \<Rightarrow> wf \<Rightarrow> budget_usage" where
  "run_usage env run w =
     (let started = length (filter (\<lambda>s. sr_status s \<noteq> StepPending) (get_workflow_run_steps w (wr_id run)));
          u = compute_budget_usage (unix (wr_created_at run)) (started mod 2 ^ 32) (unix (we_now env));
          (tok, cost) = workflow_tokens_cost env w (wr_id run)
      in u\<lparr>bu_messages := workflow_message_count w (wr_id run),
           bu_bytes := workflow_message_bytes w (wr_id run),
           bu_repeated_handoffs := workflow_repeated_handoffs w (wr_id run),
           bu_tokens := tok, bu_cost_cents := cost\<rparr>)"

definition workflow_run_budget_snapshot ::
    "wf_env \<Rightarrow> wf \<Rightarrow> id \<Rightarrow> (workflow_budget \<times> budget_usage \<times> budget_breach option) option" where
  "workflow_run_budget_snapshot env w rid =
     (case get_workflow_run w rid of
        None \<Rightarrow> None
      | Some run \<Rightarrow>
          (case get_workflow_template w (wr_template_id run) of
             None \<Rightarrow> None
           | Some tpl \<Rightarrow>
               (case wt_budget tpl of
                  None \<Rightarrow> None
                | Some b \<Rightarrow> let u = run_usage env run w in Some (b, u, budget_check b u))))"

end
