(* ===== verification/WorkflowTick.thy ===== *)
theory WorkflowTick
  imports WorkflowStore NodeOps
begin

text \<open>
  The operations of the workflow engine that change state: templates and runs, plan
  approval, the tick that reconciles a run with its tasks, the schedules and the background
  ticker. A tick is one definition per branch of the code's loop over the steps; the loop
  reads the snapshot it took, the tables as they are now, and the status map it updates on
  the way. A tick runs to its end before the next one starts.
\<close>

section \<open>Templates and runs\<close>

definition create_workflow_template ::
    "wf_env \<Rightarrow> string \<Rightarrow> workflow_step list \<Rightarrow> workflow_budget option \<Rightarrow> wf \<Rightarrow>
     (wf_error + workflow_template) \<times> wf" where
  "create_workflow_template env name steps budget w =
     (case validate_workflow_dag (we_order env) steps of
        None \<Rightarrow> (Inl Panicked, w)
      | Some (Inl e) \<Rightarrow> (Inl (InvalidDag e), w)
      | Some (Inr _) \<Rightarrow>
          (let (tid, w1) = mint env w;
               tpl = \<lparr>wt_id = ''wft-'' @ tid, wt_name = name, wt_steps = steps, wt_budget = budget,
                      wt_created_at = we_now env\<rparr>
           in (Inr tpl, w1\<lparr>wf_templates := wf_templates w1 @ [tpl]\<rparr>)))"

definition github_part_ok :: "string \<Rightarrow> bool" where
  "github_part_ok s \<longleftrightarrow> s \<noteq> [] \<and> length s \<le> 128 \<and>
     list_all (\<lambda>c. is_alnum c \<or> c = CHR ''-'' \<or> c = CHR ''_'' \<or> c = CHR ''.'') s"

definition validate_github_refs ::
    "bool \<Rightarrow> string option \<Rightarrow> int option \<Rightarrow> bool \<Rightarrow> github_error + unit" where
  "validate_github_refs push repo issue create =
     try_bind
       (case repo of
          Some r \<Rightarrow> (case split_on (CHR ''/'') r of
                       [owner, name] \<Rightarrow> if github_part_ok owner \<and> github_part_ok name then Inr ()
                                        else Inl (InvalidRepo r)
                     | _ \<Rightarrow> Inl (InvalidRepo r))
        | None \<Rightarrow> if push \<or> create then Inl RepoRequired else Inr ())
       (\<lambda>_. try_bind
         (case issue of Some n \<Rightarrow> if n \<le> 0 then Inl (InvalidIssue n) else Inr () | None \<Rightarrow> Inr ())
         (\<lambda>_. if create \<and> \<not> push then Inl CreateNeedsPush else Inr ()))"

text \<open>One step row and its role row; the unique index on run and step id may refuse it.\<close>

definition insert_step :: "wf_env \<Rightarrow> id \<Rightarrow> workflow_step \<Rightarrow> wf \<Rightarrow> wf option" where
  "insert_step env rid step w =
     (let (s, w1) = mint env w; (r, w2) = mint env w1; sid = ''wfs-'' @ s
      in if 0 < sql_count (\<lambda>x. sr_run_id x = rid \<and> ws_id (sr_step x) = ws_id step) (wf_steps w)
         then None
         else Some (w2\<lparr>wf_steps := wf_steps w2 @
               [\<lparr>sr_id = sid, sr_run_id = rid, sr_step = step, sr_attempts = 0,
                 sr_status = StepPending, sr_created_at = we_now env, sr_started_at = None,
                 sr_finished_at = None\<rparr>],
             wf_role_runs := wf_role_runs w2 @
               [\<lparr>rr_id = ''wrr-'' @ r, rr_step_run_id = sid, rr_role = ws_role step,
                 rr_task_id = None, rr_status = StepPending\<rparr>]\<rparr>))"

fun insert_steps :: "wf_env \<Rightarrow> id \<Rightarrow> workflow_step list \<Rightarrow> wf \<Rightarrow> wf option" where
  "insert_steps env rid [] w = Some w"
| "insert_steps env rid (s # ss) w =
     (case insert_step env rid s w of None \<Rightarrow> None | Some w1 \<Rightarrow> insert_steps env rid ss w1)"

definition new_run :: "wf_env \<Rightarrow> id \<Rightarrow> id \<Rightarrow> run_request \<Rightarrow> workflow_run" where
  "new_run env r tid req = \<lparr>wr_id = ''wfr-'' @ r, wr_template_id = tid, wr_request = req,
     wr_status = RunPending, wr_assembly = False, wr_adapter = None, wr_plan = None,
     wr_created_at = we_now env, wr_finished_at = None, wr_message_sequence = 0,
     wr_handoff_streak = 0, wr_handoff_streak_max = 0,
     wr_handoff_last_from = None, wr_handoff_last_to = None\<rparr>"

definition create_workflow_run_full ::
    "wf_env \<Rightarrow> id \<Rightarrow> run_request \<Rightarrow> wf \<Rightarrow> (wf_error + workflow_run) \<times> wf" where
  "create_workflow_run_full env tid req w =
     (case validate_github_refs (rq_github_push req) (rq_github_repo req) (rq_github_issue req)
             (rq_github_create req) of
        Inl e \<Rightarrow> (Inl (InvalidGithub e), w)
      | Inr _ \<Rightarrow>
        (case get_workflow_template w tid of
           None \<Rightarrow> (Inl UnknownTemplate, w)
         | Some tpl \<Rightarrow>
           (let (r, w1) = mint env w; run = new_run env r tid req
            in case insert_steps env (wr_id run) (wt_steps tpl) (w1\<lparr>wf_runs := wf_runs w1 @ [run]\<rparr>) of
                 None \<Rightarrow> (Inl UniqueViolation, w)
               | Some w2 \<Rightarrow> (Inr run, w2))))"

definition default_request :: run_request where
  "default_request = \<lparr>rq_context = None, rq_repository = None, rq_base_commit = None,
     rq_auto_approve_plan = False, rq_github_push = False, rq_github_repo = None,
     rq_github_issue = None, rq_github_create = False\<rparr>"

definition create_workflow_run ::
    "wf_env \<Rightarrow> id \<Rightarrow> string option \<Rightarrow> string option \<Rightarrow> string option \<Rightarrow> wf \<Rightarrow>
     (wf_error + workflow_run) \<times> wf" where
  "create_workflow_run env tid context repository base_commit w =
     create_workflow_run_full env tid
       (default_request\<lparr>rq_context := context, rq_repository := repository,
          rq_base_commit := base_commit\<rparr>) w"

record assembly_request =
  as_goal :: string
  as_adapter :: "string option"
  as_budget :: "workflow_budget option"
  as_request :: run_request

definition assembly_architect_prompt :: "string \<Rightarrow> string \<Rightarrow> string" where
  "assembly_architect_prompt goal adapter =
     join [CHR 0x0A]
       [''Goal: '' @ goal,
        [],
        ''You are the architect of an automated assembly run. Decompose the goal '' @
        ''into worker steps and output ONE machine-readable plan and nothing else.'',
        [],
        ''Plan format (YAML array, one item per step):'',
        ''- id: unique step id ([a-z0-9-] characters, e.g. w1)'',
        ''- prompt: self-contained task for one worker (files to write, acceptance)'',
        ''- depends_on: [ids that must succeed first] (may be [])'',
        ''- role: worker (default) or verifier for a checking step'',
        ''- adapter: omit to use '' @ [CHR 0x22] @ adapter @ [CHR 0x22],
        [],
        ''Rules:'',
        ''- cover the whole goal; keep steps parallel where possible;'',
        ''- dependencies must be acyclic; every referenced id must exist;'',
        ''- do NOT add a final merge/collect step: the system appends collection automatically.'']"

definition create_assembly_run ::
    "wf_env \<Rightarrow> assembly_request \<Rightarrow> nat \<Rightarrow> wf \<Rightarrow> (wf_error + workflow_run) \<times> wf" where
  "create_assembly_run env req prompt_limit w =
     (let rq = as_request req in
      if trim (as_goal req) = [] then (Inl EmptyGoal, w)
      else if prompt_limit < length (as_goal req) then (Inl GoalTooLong, w)
      else case validate_github_refs (rq_github_push rq) (rq_github_repo rq) (rq_github_issue rq)
                  (rq_github_create rq) of
        Inl e \<Rightarrow> (Inl (InvalidGithub e), w)
      | Inr _ \<Rightarrow>
        (let adapter = (case as_adapter req of Some a \<Rightarrow> a | None \<Rightarrow> ''mock'');
             arch = \<lparr>ws_id = ''arch'', ws_prompt = assembly_architect_prompt (as_goal req) adapter,
                     ws_depends_on = [], ws_role = Architect, ws_adapter = Some adapter,
                     ws_requested_node_id = None, ws_base_commit = rq_base_commit rq,
                     ws_retryable = None, ws_max_attempts = None, ws_expandable = Some True\<rparr>;
             (u, w1) = mint env w
         in case create_workflow_template env (''assembly-'' @ take 8 u) [arch]
                   (if rq_auto_approve_plan rq \<and> as_budget req = None
                    then Some default_assembly_budget else as_budget req) w1 of
              (Inl e, w2) \<Rightarrow> (Inl e, w2)
            | (Inr tpl, w2) \<Rightarrow>
                (case create_workflow_run_full env (wt_id tpl) rq w2 of
                   (Inl e, w3) \<Rightarrow> (Inl e, w3)
                 | (Inr run, w3) \<Rightarrow>
                     (Inr (run\<lparr>wr_assembly := True, wr_adapter := Some adapter\<rparr>),
                      update_run (wr_id run)
                        (\<lambda>r. r\<lparr>wr_assembly := True, wr_adapter := Some adapter\<rparr>) w3))))"

section \<open>Plans\<close>

definition plan_to_step :: "plan_step \<Rightarrow> workflow_step" where
  "plan_to_step p = \<lparr>ws_id = ps_id p, ws_prompt = ps_prompt p, ws_depends_on = ps_depends_on p,
     ws_role = ps_role p, ws_adapter = ps_adapter p, ws_requested_node_id = ps_requested_node_id p,
     ws_base_commit = None, ws_retryable = ps_retryable p, ws_max_attempts = ps_max_attempts p,
     ws_expandable = Some False\<rparr>"

definition parse_plan_steps :: "wf_env \<Rightarrow> string \<Rightarrow> (wf_error + workflow_step list)" where
  "parse_plan_steps env plan =
     (if trim plan = [] then Inl (BadPlan ''plan is empty'')
      else case (if starts_with (trim_start plan) ''['' then we_json_plan env plan
                 else we_yaml_plan env plan) of
        Inl e \<Rightarrow> Inl (BadPlan e)
      | Inr parsed \<Rightarrow>
          if parsed = [] then Inl (BadPlan ''plan declares no steps'')
          else (case validate_dag (map plan_to_step parsed) of
                  None \<Rightarrow> Inl Panicked
                | Some (Inl e) \<Rightarrow> Inl (BadPlan e)
                | Some (Inr _) \<Rightarrow> Inr (map plan_to_step parsed)))"

definition collector_prompt :: string where
  "collector_prompt =
     ''Assemble: upstream worker outputs are already merged into this worktree. '' @
     ''Verify the tree is coherent and complete (every part present, no conflicts '' @
     ''left over), fix anything incoherent, and finish cleanly. Do not drop any part.''"

definition expanded_step :: "workflow_run \<Rightarrow> workflow_step \<Rightarrow> workflow_step" where
  "expanded_step run s = s\<lparr>ws_adapter := or_else (non_empty (ws_adapter s)) (wr_adapter run),
     ws_expandable := None\<rparr>"

definition collector_step :: "workflow_run \<Rightarrow> workflow_step list \<Rightarrow> workflow_step" where
  "collector_step run steps = \<lparr>ws_id = ''collect'', ws_prompt = collector_prompt,
     ws_depends_on = map ws_id steps, ws_role = Collector, ws_adapter = wr_adapter run,
     ws_requested_node_id = None, ws_base_commit = None, ws_retryable = None,
     ws_max_attempts = None, ws_expandable = None\<rparr>"

definition approve_workflow_plan :: "wf_env \<Rightarrow> id \<Rightarrow> wf \<Rightarrow> (wf_error + unit) \<times> wf" where
  "approve_workflow_plan env rid w =
     (case get_workflow_run w rid of
        None \<Rightarrow> (Inl UnknownRun, w)
      | Some run \<Rightarrow>
        if wr_status run \<noteq> RunPlanReady then (Inl NotAwaitingApproval, w)
        else (case get_workflow_run_plan w rid of
          None \<Rightarrow> (Inl NoPlan, w)
        | Some plan \<Rightarrow>
          (case parse_plan_steps env plan of
             Inl e \<Rightarrow> (Inl e, w)
           | Inr steps \<Rightarrow>
             (let new = map (expanded_step run) steps @
                  (if wr_assembly run \<and> \<not> list_ex (\<lambda>s. ws_role s = Collector) steps
                   then [collector_step run steps] else [])
              in case insert_steps env rid new w of
                   None \<Rightarrow> (Inl UniqueViolation, w)
                 | Some w1 \<Rightarrow>
                     (Inr (), update_run rid (\<lambda>r. if wr_status r = RunPlanReady
                        then r\<lparr>wr_status := RunRunning\<rparr> else r) w1)))))"

section \<open>One step of a tick\<close>

definition step_request :: "workflow_run \<Rightarrow> string \<Rightarrow> workflow_step \<Rightarrow> bool \<Rightarrow> create_task_request" where
  "step_request run prompt s publish =
     \<lparr>cq_spec = \<lparr>ts_repository = (case rq_repository (wr_request run) of Some r \<Rightarrow> r | None \<Rightarrow> []),
        ts_prompt = prompt,
        ts_adapter = (case non_empty (ws_adapter s) of Some a \<Rightarrow> a | None \<Rightarrow> ''mock''),
        ts_requested_node_id = ws_requested_node_id s,
        ts_base_commit = or_else (ws_base_commit s) (rq_base_commit (wr_request run)),
        ts_parent_acp_session_id = None, ts_network_mode = None, ts_timeout_secs = 0,
        ts_validation_command = None, ts_security_profile = None, ts_group_id = None,
        ts_agent_id = None, ts_consensus_group_id = None, ts_consensus_member = None,
        ts_opencode_override = None,
        ts_github_push = (publish \<and> rq_github_push (wr_request run)),
        ts_github_repo = (if publish then rq_github_repo (wr_request run) else None),
        ts_github_issue = (if publish then rq_github_issue (wr_request run) else None),
        ts_github_base_ref = None,
        ts_github_create = (publish \<and> rq_github_create (wr_request run)),
        ts_max_attempts = 1, ts_consensus_mode = [], ts_review_of = None,
        ts_max_tokens = None, ts_max_cost_cents = None, ts_retry_on_node_loss = False\<rparr>,
      cq_timeout_secs = None, cq_consensus_mode = None, cq_retry_on_node_loss = None\<rparr>"

text \<open>\<open>create_task\<close> in the tables of the workflow engine; a database error leaves
  them as they were.\<close>

definition spawn :: "wf_env \<Rightarrow> create_task_request \<Rightarrow> wf \<Rightarrow> (id \<times> wf) option" where
  "spawn env req w =
     (let (t, w1) = mint env w in
      if we_create_ok env req
      then Some (t, w1\<lparr>wf_store := snd (create_task (we_now env) t req (wf_store w1))\<rparr>)
      else None)"

type_synonym statuses = "string \<rightharpoonup> workflow_step_status"

datatype 'a flow = Go 'a | Halt "wf_error + id list" wf

type_synonym tick_acc = "statuses \<times> id list \<times> wf"

definition cas_status :: "id \<Rightarrow> workflow_step_status \<Rightarrow> (step_run \<Rightarrow> step_run) \<Rightarrow> wf \<Rightarrow> bool \<times> wf" where
  "cas_status sid from f w =
     (0 < sql_count (\<lambda>s. sr_id s = sid \<and> sr_status s = from) (wf_steps w),
      w\<lparr>wf_steps := sql_update (\<lambda>s. sr_id s = sid \<and> sr_status s = from) f (wf_steps w)\<rparr>)"

definition cas_attempts :: "id \<Rightarrow> nat \<Rightarrow> nat \<Rightarrow> wf \<Rightarrow> bool \<times> wf" where
  "cas_attempts sid old new w =
     (0 < sql_count (\<lambda>s. sr_id s = sid \<and> sr_attempts s = old) (wf_steps w),
      w\<lparr>wf_steps := sql_update (\<lambda>s. sr_id s = sid \<and> sr_attempts s = old)
         (\<lambda>s. s\<lparr>sr_attempts := new\<rparr>) (wf_steps w)\<rparr>)"

definition set_both :: "wf_env \<Rightarrow> id \<Rightarrow> workflow_step_status \<Rightarrow> wf \<Rightarrow> wf" where
  "set_both env sid st w = set_role_run_status_by_step sid st (set_step_status (we_now env) sid st w)"

definition wedge_grace :: time where
  "wedge_grace = secs 60"

text \<open>A running step without a task: reset once the claim is older than the grace
  period.\<close>

definition tick_wedged :: "wf_env \<Rightarrow> step_run \<Rightarrow> tick_acc \<Rightarrow> tick_acc flow" where
  "tick_wedged env s acc =
     (case acc of (m, created, w) \<Rightarrow>
       (let stale = (\<lambda>r. sr_id r = sr_id s \<and> sr_status r = StepRunning \<and>
              (case sr_started_at r of None \<Rightarrow> False | Some t \<Rightarrow> t + wedge_grace < we_now env))
        in if 0 < sql_count stale (wf_steps w)
           then Go (m(ws_id (sr_step s) \<mapsto> StepPending), created,
                    w\<lparr>wf_steps := sql_update stale
                       (\<lambda>r. r\<lparr>sr_status := StepPending, sr_started_at := None\<rparr>) (wf_steps w)\<rparr>)
           else Go acc))"

definition tick_succeeded :: "wf_env \<Rightarrow> workflow_run \<Rightarrow> id \<Rightarrow> step_run \<Rightarrow> tick_acc \<Rightarrow> tick_acc flow" where
  "tick_succeeded env run tid s acc =
     (case acc of (m, created, w) \<Rightarrow>
       (let (claimed, w1) = cas_status (sr_id s) StepRunning
              (\<lambda>r. r\<lparr>sr_status := StepSucceeded, sr_finished_at := coalesce (sr_finished_at r) (we_now env)\<rparr>) w
        in if \<not> claimed then Go acc
           else
             (let m1 = m(ws_id (sr_step s) \<mapsto> StepSucceeded);
                  w2 = set_role_run_status_by_step (sr_id s) StepSucceeded w1;
                  payload = build_handoff_payload
                    (''step `'' @ ws_id (sr_step s) @ ''` succeeded (task '' @ tid @ '')'')
                    (attempt_commit_for_task w2 tid) [];
                  w3 = emit_workflow_message (wr_id run) (ws_id (sr_step s)) ''*'' Output payload w2
              in if ws_expandable (sr_step s) = Some True \<and> ws_role (sr_step s) = Architect
                 then (case attempt_plan_for_task w3 tid of
                         Some plan \<Rightarrow> Halt (Inr created)
                           (set_workflow_run_status (wr_id run) RunPlanReady None
                             (set_workflow_run_plan (wr_id run) plan w3))
                       | None \<Rightarrow> Go (m1, created, w3))
                 else Go (m1, created, w3))))"

definition may_retry :: "step_run \<Rightarrow> bool" where
  "may_retry s \<longleftrightarrow> ws_retryable (sr_step s) = Some True"

definition attempt_cap :: "step_run \<Rightarrow> nat" where
  "attempt_cap s = (case ws_max_attempts (sr_step s) of Some n \<Rightarrow> n | None \<Rightarrow> 1)"

definition verifier_feedback :: "string \<Rightarrow> id \<Rightarrow> string" where
  "verifier_feedback prompt tid = prompt @ [CHR 0x0A, CHR 0x0A] @
     ''[verifier feedback] Verifier rejected this change ('' @ tid @ ''); '' @
     [CHR 0x0A, CHR 0x0A] @
     ''Re-run the task; the previous change was rejected by the verifier.'' @ [CHR 0x0A]"

text \<open>A rejecting verifier sends its first dependency back to work.\<close>

definition tick_rejected ::
    "wf_env \<Rightarrow> workflow_run \<Rightarrow> step_run list \<Rightarrow> id \<Rightarrow> step_run \<Rightarrow> tick_acc \<Rightarrow> tick_acc flow" where
  "tick_rejected env run snapshot tid s acc =
     (case acc of (m, created, w) \<Rightarrow>
       (let upstream_id = (case ws_depends_on (sr_step s) of [] \<Rightarrow> [] | d # _ \<Rightarrow> d)
        in case List.find (\<lambda>u. ws_id (sr_step u) = upstream_id) snapshot of
             None \<Rightarrow> Go (m, created, set_both env (sr_id s) StepFailed w)
           | Some u \<Rightarrow>
               if \<not> (may_retry u \<and> sr_attempts u < attempt_cap u)
               then Go (m, created, set_both env (sr_id s) StepFailed w)
               else
                 (let (claimed, w1) = cas_attempts (sr_id u) (sr_attempts u) (sr_attempts u + 1) w
                  in if \<not> claimed then Go (m, created, w1)
                     else (case spawn env (step_request run
                              (verifier_feedback (ws_prompt (sr_step u)) tid) (sr_step u) False) w1 of
                         None \<Rightarrow> Halt (Inl DbError) (set_step_attempts (sr_id u) (sr_attempts u) w1)
                       | Some (t, w2) \<Rightarrow>
                           Go (m(ws_id (sr_step u) \<mapsto> StepRunning), created @ [t],
                               set_both env (sr_id s) StepPending
                                 (set_both env (sr_id u) StepRunning
                                   (set_role_run_task (sr_id u) t w2)))))))"

definition tick_failed ::
    "wf_env \<Rightarrow> workflow_run \<Rightarrow> step_run list \<Rightarrow> id \<Rightarrow> step_run \<Rightarrow> tick_acc \<Rightarrow> tick_acc flow" where
  "tick_failed env run snapshot tid s acc =
     (case acc of (m, created, w) \<Rightarrow>
       (let (claimed, w1) = cas_attempts (sr_id s) (sr_attempts s) (sr_attempts s + 1) w
        in if \<not> claimed then Go acc
           else if may_retry s \<and> sr_attempts s + 1 < attempt_cap s
           then (case spawn env (step_request run (ws_prompt (sr_step s)) (sr_step s) False) w1 of
                   None \<Rightarrow> Halt (Inl DbError) (set_step_attempts (sr_id s) (sr_attempts s) w1)
                 | Some (t, w2) \<Rightarrow> Go (m, created @ [t], set_role_run_task (sr_id s) t w2))
           else if ws_role (sr_step s) = Integrator \<or> ws_role (sr_step s) = Collector
           then Go (m, created, set_both env (sr_id s) StepBlocked w1)
           else if may_retry s
           then Go (m, created, set_both env (sr_id s) StepBlocked w1)
           else if ws_role (sr_step s) = Verifier
           then tick_rejected env run snapshot tid s (m, created, w1)
           else Go (m, created, set_both env (sr_id s) StepFailed w1)))"

definition tick_cancelled :: "wf_env \<Rightarrow> step_run \<Rightarrow> tick_acc \<Rightarrow> tick_acc flow" where
  "tick_cancelled env s acc =
     (case acc of (m, created, w) \<Rightarrow>
       (let (claimed, w1) = cas_status (sr_id s) StepRunning
              (\<lambda>r. r\<lparr>sr_status := StepCancelled, sr_finished_at := coalesce (sr_finished_at r) (we_now env)\<rparr>) w
        in if claimed
           then Go (m(ws_id (sr_step s) \<mapsto> StepCancelled), created,
                    set_role_run_status_by_step (sr_id s) StepCancelled w1)
           else Go acc))"

definition tick_running ::
    "wf_env \<Rightarrow> workflow_run \<Rightarrow> step_run list \<Rightarrow> step_run \<Rightarrow> tick_acc \<Rightarrow> tick_acc flow" where
  "tick_running env run snapshot s acc =
     (case step_task_id (snd (snd acc)) (sr_id s) of
        None \<Rightarrow> tick_wedged env s acc
      | Some tid \<Rightarrow>
          (case get_task_status (snd (snd acc)) tid of
             Some TaskSucceeded \<Rightarrow> tick_succeeded env run tid s acc
           | Some TaskFailed \<Rightarrow> tick_failed env run snapshot tid s acc
           | Some TaskCancelled \<Rightarrow> tick_cancelled env s acc
           | _ \<Rightarrow> Go acc))"

definition deps_done :: "statuses \<Rightarrow> step_run \<Rightarrow> bool" where
  "deps_done m s \<longleftrightarrow> list_all (\<lambda>d. m d = Some StepSucceeded) (ws_depends_on (sr_step s))"

definition tick_pending ::
    "wf_env \<Rightarrow> workflow_run \<Rightarrow> step_run \<Rightarrow> tick_acc \<Rightarrow> tick_acc flow" where
  "tick_pending env run s acc =
     (case acc of (m, created, w) \<Rightarrow>
       if \<not> deps_done m s then Go acc
       else
         (let prompt = render_handoff_block env (ws_prompt (sr_step s))
                (messages_for_step w (wr_id run) (ws_id (sr_step s)));
              req = step_request run prompt (sr_step s) (ws_role (sr_step s) = Collector);
              (claimed, w1) = cas_status (sr_id s) StepPending
                (\<lambda>r. r\<lparr>sr_status := StepRunning, sr_started_at := coalesce (sr_started_at r) (we_now env)\<rparr>) w
          in if \<not> claimed then Go acc
             else (case spawn env req w1 of
                     None \<Rightarrow> Halt (Inl DbError) (set_step_status (we_now env) (sr_id s) StepPending w1)
                   | Some (t, w2) \<Rightarrow>
                       Go (m(ws_id (sr_step s) \<mapsto> StepRunning), created @ [t],
                           set_role_run_status_by_step (sr_id s) StepRunning
                             (set_role_run_task (sr_id s) t w2)))))"

definition tick_step ::
    "wf_env \<Rightarrow> workflow_run \<Rightarrow> step_run list \<Rightarrow> step_run \<Rightarrow> tick_acc \<Rightarrow> tick_acc flow" where
  "tick_step env run snapshot s acc =
     (case sr_status s of
        StepRunning \<Rightarrow> tick_running env run snapshot s acc
      | StepPending \<Rightarrow> tick_pending env run s acc
      | _ \<Rightarrow> Go acc)"

fun tick_steps ::
    "wf_env \<Rightarrow> workflow_run \<Rightarrow> step_run list \<Rightarrow> step_run list \<Rightarrow> tick_acc \<Rightarrow> tick_acc flow" where
  "tick_steps env run snapshot [] acc = Go acc"
| "tick_steps env run snapshot (s # ss) acc =
     (case tick_step env run snapshot s acc of
        Go acc1 \<Rightarrow> tick_steps env run snapshot ss acc1
      | Halt r w \<Rightarrow> Halt r w)"

section \<open>A tick of a run\<close>

definition step_terminal :: "workflow_step_status \<Rightarrow> bool" where
  "step_terminal st \<longleftrightarrow> st \<in> {StepSucceeded, StepFailed, StepCancelled, StepSkipped}"

definition settle_run :: "wf_env \<Rightarrow> id \<Rightarrow> wf \<Rightarrow> wf" where
  "settle_run env rid w =
     (let sts = map sr_status (get_workflow_run_steps w rid)
      in if StepBlocked \<in> set sts then set_workflow_run_status rid RunBlocked None w
         else if StepFailed \<in> set sts \<or> StepCancelled \<in> set sts
         then set_workflow_run_status rid RunFailed (Some (we_now env)) w
         else if list_all step_terminal sts
         then set_workflow_run_status rid RunSucceeded (Some (we_now env)) w
         else w)"

definition tick_loop :: "wf_env \<Rightarrow> workflow_run \<Rightarrow> wf \<Rightarrow> (wf_error + id list) \<times> wf" where
  "tick_loop env run w =
     (let steps = get_workflow_run_steps w (wr_id run);
          m = map_of (rev (map (\<lambda>s. (ws_id (sr_step s), sr_status s)) steps))
      in case tick_steps env run steps steps (m, [], w) of
           Halt r w1 \<Rightarrow> (r, w1)
         | Go (m1, created, w1) \<Rightarrow> (Inr created, settle_run env (wr_id run) w1))"

text \<open>The cancellation of the in-flight tasks of a run that broke its budget.\<close>

definition cancel_step_task :: "wf_env \<Rightarrow> step_run \<Rightarrow> wf \<Rightarrow> wf" where
  "cancel_step_task env s w =
     (if sr_status s \<noteq> StepRunning then w
      else case step_task_id w (sr_id s) of
        None \<Rightarrow> w
      | Some t \<Rightarrow> w\<lparr>wf_store := snd (cancel_task (we_now env) t (wf_store w))\<rparr>)"

definition budget_breached :: "wf_env \<Rightarrow> workflow_run \<Rightarrow> wf \<Rightarrow> budget_breach option" where
  "budget_breached env run w =
     (case get_workflow_template w (wr_template_id run) of
        None \<Rightarrow> None
      | Some tpl \<Rightarrow> (case wt_budget tpl of None \<Rightarrow> None
                     | Some b \<Rightarrow> budget_check b (run_usage env run w)))"

definition park_run :: "wf_env \<Rightarrow> workflow_run \<Rightarrow> wf \<Rightarrow> wf" where
  "park_run env run w =
     set_workflow_run_status (wr_id run) RunBlocked (Some (we_now env))
       (fold (cancel_step_task env) (get_workflow_run_steps w (wr_id run)) w)"

definition tick_active :: "wf_env \<Rightarrow> workflow_run \<Rightarrow> wf \<Rightarrow> (wf_error + id list) \<times> wf" where
  "tick_active env run w =
     (if wr_status run \<in> {RunSucceeded, RunFailed, RunCancelled, RunBlocked, RunPlanReady}
      then (Inr [], w)
      else
        (let w1 = (if wr_status run = RunPending
                   then set_workflow_run_status (wr_id run) RunRunning None w else w)
         in case budget_breached env run w1 of
              Some _ \<Rightarrow> (Inr [], park_run env run w1)
            | None \<Rightarrow> tick_loop env run w1))"

definition tick_workflow_run :: "wf_env \<Rightarrow> id \<Rightarrow> wf \<Rightarrow> (wf_error + id list) \<times> wf" where
  "tick_workflow_run env rid w =
     (case get_workflow_run w rid of
        None \<Rightarrow> (Inr [], w)
      | Some run \<Rightarrow>
        if wr_status run = RunPlanReady \<and> rq_auto_approve_plan (wr_request run)
        then (case approve_workflow_plan env rid w of
                (Inl e, w1) \<Rightarrow> (Inr [], w1)
              | (Inr _, w1) \<Rightarrow>
                  (let w2 = w1\<lparr>wf_store := audit (we_now env) ''system'' None
                         ''workflow.plan_auto_approved'' (Some rid) None (wf_store w1)\<rparr>
                   in case get_workflow_run w2 rid of
                        None \<Rightarrow> (Inr [], w2)
                      | Some run2 \<Rightarrow> tick_active env run2 w2))
        else tick_active env run w)"

text \<open>One pass of the background ticker over the runs it lists.\<close>

definition ticker_pass :: "wf_env \<Rightarrow> wf \<Rightarrow> wf" where
  "ticker_pass env w =
     fold (\<lambda>rid w. snd (tick_workflow_run env rid w)) (running_workflow_run_ids w) w"

section \<open>Cancelling and blocking from outside\<close>

text \<open>The statements of \<open>cancel_workflow_run\<close> on one task of a cancelled step.\<close>

definition cancel_linked_task :: "id \<Rightarrow> store \<Rightarrow> store" where
  "cancel_linked_task tid st =
     request_cancel tid (st\<lparr>tasks := sql_update (\<lambda>t. t_id t = tid \<and> t_status t = TaskQueued)
       (\<lambda>t. t\<lparr>t_status := TaskCancelled, t_assigned_attempt_id := None\<rparr>) (tasks st)\<rparr>)"

definition cancel_one_step :: "step_run \<Rightarrow> wf \<Rightarrow> wf" where
  "cancel_one_step s w =
     (if step_terminal (sr_status s) \<or> sr_status s = StepBlocked then w
      else
        (let w1 = update_step (sr_id s) (\<lambda>r. r\<lparr>sr_status := StepCancelled\<rparr>) w;
             ts = List.map_filter rr_task_id
                    (filter (\<lambda>rr. rr_step_run_id rr = sr_id s) (wf_role_runs w1))
         in w1\<lparr>wf_store := fold cancel_linked_task ts (wf_store w1)\<rparr>))"

definition cancel_workflow_run :: "id \<Rightarrow> wf \<Rightarrow> bool \<times> wf" where
  "cancel_workflow_run rid w =
     (case sql_first (\<lambda>r. wr_id r = rid) (wf_runs w) of
        None \<Rightarrow> (False, w)
      | Some r \<Rightarrow>
          if wr_status r \<in> {RunSucceeded, RunFailed, RunCancelled, RunBlocked} then (False, w)
          else (True, fold cancel_one_step (filter (\<lambda>s. sr_run_id s = rid) (wf_steps w))
                 (update_run rid (\<lambda>r. r\<lparr>wr_status := RunCancelled\<rparr>) w)))"

definition block_step_and_run :: "id \<Rightarrow> wf \<Rightarrow> wf" where
  "block_step_and_run sid w =
     (let w1 = w\<lparr>wf_steps := sql_update
            (\<lambda>s. sr_id s = sid \<and> sr_status s \<notin> {StepSucceeded, StepFailed, StepBlocked, StepSkipped})
            (\<lambda>s. s\<lparr>sr_status := StepBlocked\<rparr>) (wf_steps w)\<rparr>
      in case sql_first (\<lambda>s. sr_id s = sid) (wf_steps w1) of
           None \<Rightarrow> w1
         | Some s \<Rightarrow> w1\<lparr>wf_runs := sql_update
             (\<lambda>r. wr_id r = sr_run_id s \<and>
                  wr_status r \<notin> {RunSucceeded, RunFailed, RunCancelled, RunBlocked, RunPlanReady})
             (\<lambda>r. r\<lparr>wr_status := RunBlocked\<rparr>) (wf_runs w1)\<rparr>)"

definition expire_one :: "time \<Rightarrow> approval_row \<Rightarrow> nat \<times> wf \<Rightarrow> nat \<times> wf" where
  "expire_one now ap acc =
     (case acc of (n, w) \<Rightarrow>
       (case answer_approval now (ap_id ap) EvExpire (Some ''auto-expired'') ''system'' (wf_store w) of
          (False, st) \<Rightarrow> (n, w\<lparr>wf_store := st\<rparr>)
        | (True, st) \<Rightarrow>
            (n + 1, (case ap_step_run_id ap of
                       None \<Rightarrow> w\<lparr>wf_store := st\<rparr>
                     | Some sid \<Rightarrow> block_step_and_run sid (w\<lparr>wf_store := st\<rparr>)))))"

definition tick_approval_expiry :: "time \<Rightarrow> wf \<Rightarrow> nat \<times> wf" where
  "tick_approval_expiry now w =
     fold (expire_one now)
       (filter (\<lambda>r. ap_status r = ApprovalPending \<and> ap_expires_at r < now) (approvals (wf_store w)))
       (0, w)"

section \<open>Schedules\<close>

definition parse_autonomy_level :: "string \<Rightarrow> nat option" where
  "parse_autonomy_level s =
     (let t = to_ascii_lowercase (trim s)
      in if t = ''l0'' then Some 0 else if t = ''l1'' then Some 1 else if t = ''l2'' then Some 2
         else if t = ''l3'' then Some 3 else if t = ''l4'' then Some 4 else None)"

definition ratify_l4_schedule :: "workflow_template \<Rightarrow> string \<Rightarrow> wf_error + unit" where
  "ratify_l4_schedule tpl autonomy =
     (if autonomy \<noteq> ''l4'' then Inr ()
      else if wt_budget tpl = None then Inl L4NeedsBudget else Inr ())"

record schedule_request =
  sq_interval_seconds :: int
  sq_autonomy :: string
  sq_enabled :: bool

definition create_workflow_schedule ::
    "wf_env \<Rightarrow> id \<Rightarrow> schedule_request \<Rightarrow> wf \<Rightarrow> (wf_error + workflow_schedule) \<times> wf" where
  "create_workflow_schedule env tid body w =
     (if sql_count (\<lambda>t. wt_id t = tid) (wf_templates w) = 0 then (Inl UnknownTemplate, w)
      else if sq_interval_seconds body < 1 then (Inl BadInterval, w)
      else if parse_autonomy_level (sq_autonomy body) = None then (Inl UnknownAutonomy, w)
      else case (case get_workflow_template w tid of
                   Some tpl \<Rightarrow> ratify_l4_schedule tpl (sq_autonomy body) | None \<Rightarrow> Inr ()) of
        Inl e \<Rightarrow> (Inl e, w)
      | Inr _ \<Rightarrow>
          (let (i, w1) = mint env w;
               sc = \<lparr>sc_id = ''wfsch-'' @ i, sc_template_id = tid,
                     sc_interval_seconds = sq_interval_seconds body, sc_autonomy = sq_autonomy body,
                     sc_last_run_at = None, sc_enabled = sq_enabled body, sc_created_at = we_now env\<rparr>
           in (Inr sc, w1\<lparr>wf_schedules := wf_schedules w1 @ [sc]\<rparr>)))"

definition page_limit :: "nat option \<Rightarrow> nat" where
  "page_limit limit = min (case limit of Some n \<Rightarrow> n | None \<Rightarrow> 100) 1000"

text \<open>\<open>ORDER BY created_at ASC, id ASC LIMIT ?\<close>, without a cursor.\<close>

fun str_less :: "string \<Rightarrow> string \<Rightarrow> bool" where
  "str_less [] ys = (ys \<noteq> [])"
| "str_less (x # xs) [] = False"
| "str_less (x # xs) (y # ys) =
     ((of_char x :: nat) < of_char y \<or> x = y \<and> str_less xs ys)"

definition schedule_before :: "workflow_schedule \<Rightarrow> workflow_schedule \<Rightarrow> bool" where
  "schedule_before a b \<longleftrightarrow> sc_created_at a < sc_created_at b \<or>
     sc_created_at a = sc_created_at b \<and> str_less (sc_id a) (sc_id b)"

fun insert_schedule :: "workflow_schedule \<Rightarrow> workflow_schedule list \<Rightarrow> workflow_schedule list" where
  "insert_schedule a [] = [a]"
| "insert_schedule a (b # bs) = (if schedule_before b a then b # insert_schedule a bs else a # b # bs)"

definition list_workflow_schedules :: "id option \<Rightarrow> nat option \<Rightarrow> wf \<Rightarrow> workflow_schedule list" where
  "list_workflow_schedules tid limit w =
     take (page_limit limit) (foldr insert_schedule
       (filter (\<lambda>s. case tid of None \<Rightarrow> True | Some t \<Rightarrow> sc_template_id s = t) (wf_schedules w)) [])"

definition delete_workflow_schedule :: "id \<Rightarrow> wf \<Rightarrow> bool \<times> wf" where
  "delete_workflow_schedule sid w =
     (sql_count (\<lambda>s. sc_id s = sid) (wf_schedules w) = 1,
      w\<lparr>wf_schedules := filter (\<lambda>s. sc_id s \<noteq> sid) (wf_schedules w)\<rparr>)"

definition fire_schedule :: "wf_env \<Rightarrow> int \<Rightarrow> workflow_schedule \<Rightarrow> id list \<times> wf \<Rightarrow> id list \<times> wf" where
  "fire_schedule env now_unix s acc =
     (case acc of (created, w) \<Rightarrow>
       if \<not> sc_enabled s then acc
       else if now_unix - (case sc_last_run_at s of None \<Rightarrow> 0 | Some t \<Rightarrow> t) < sc_interval_seconds s
       then acc
       else
         (let hit = (\<lambda>r. sc_id r = sc_id s \<and> sc_last_run_at r = sc_last_run_at s);
              w1 = w\<lparr>wf_schedules := sql_update hit (\<lambda>r. r\<lparr>sc_last_run_at := Some now_unix\<rparr>) (wf_schedules w)\<rparr>
          in if sql_count hit (wf_schedules w) \<noteq> 1 then (created, w1)
             else (case create_workflow_run env (sc_template_id s) None None None w1 of
                     (Inl e, w2) \<Rightarrow> (created, w2)
                   | (Inr r, w2) \<Rightarrow> (created @ [wr_id r], w2))))"

definition tick_workflow_schedules :: "wf_env \<Rightarrow> int \<Rightarrow> wf \<Rightarrow> id list \<times> wf" where
  "tick_workflow_schedules env now_unix w =
     fold (fire_schedule env now_unix) (list_workflow_schedules None None w) ([], w)"

end
