(* ===== verification/WorkflowDagProps.thy ===== *)
theory WorkflowDagProps
  imports WorkflowDag "HOL-Library.Multiset"
begin

text \<open>
  Correctness of the two workflow validators. Both settle one step after another, a step
  only after all its dependencies; the set of settled steps is the notion they share.
\<close>

section \<open>Settling a relation\<close>

inductive settled :: "('a \<times> 'a) set \<Rightarrow> 'a set \<Rightarrow> bool" for R where
  settled_empty: "settled R {}"
| settled_insert:
    "settled R V \<Longrightarrow> n \<notin> V \<Longrightarrow> (\<And>d. (d, n) \<in> R \<Longrightarrow> d \<in> V) \<Longrightarrow> settled R (insert n V)"

lemma settled_closed: "settled R V \<Longrightarrow> (d, n) \<in> R \<Longrightarrow> n \<in> V \<Longrightarrow> d \<in> V"
  by (induction arbitrary: n d rule: settled.induct) auto

lemma no_successor_trancl:
  assumes "(x, y) \<in> (R \<inter> insert n V \<times> insert n V)\<^sup>+" and "\<And>z. z \<in> insert n V \<Longrightarrow> (n, z) \<notin> R"
  shows "x \<in> V \<and> (y \<in> V \<longrightarrow> (x, y) \<in> (R \<inter> V \<times> V)\<^sup>+)"
  using assms(1)
proof (induction rule: trancl_induct)
  case (base y)
  with assms(2)[of y] show ?case by auto
next
  case (step y z)
  have "y \<in> V" using step.hyps(2) assms(2)[of z] by auto
  with step show ?case
    by (auto intro: trancl_into_trancl)
qed

lemma settled_acyclic: "settled R V \<Longrightarrow> acyclic (R \<inter> V \<times> V)"
proof (induction rule: settled.induct)
  case (settled_insert V n)
  have "(n, z) \<notin> R" if "z \<in> insert n V" for z
    using that settled_insert.hyps settled_closed[OF settled_insert.hyps(1)] by auto
  with no_successor_trancl[of _ _ R n V] settled_insert.IH show ?case
    by (fastforce simp: acyclic_def)
qed (simp add: acyclic_def)

lemma settled_everything: "settled R V \<Longrightarrow> R \<subseteq> V \<times> V \<Longrightarrow> acyclic R"
  using settled_acyclic[of R V] by (simp add: Int_absorb2)

lemma settled_maximal:
  assumes "finite I" "R \<subseteq> I \<times> I" "acyclic R" "V \<subseteq> I"
    and ready: "\<And>n. n \<in> I \<Longrightarrow> (\<And>d. (d, n) \<in> R \<Longrightarrow> d \<in> V) \<Longrightarrow> n \<in> V"
  shows "V = I"
proof -
  have "wf R"
    using assms(1-3) by (meson finite_SigmaI finite_acyclic_wf finite_subset)
  have "n \<in> I \<longrightarrow> n \<in> V" for n
    using \<open>wf R\<close> by (induction n rule: wf_induct_rule) (use assms(2) ready in blast)
  with assms(4) show ?thesis by blast
qed

section \<open>The specification\<close>

definition dep_rel :: "workflow_step list \<Rightarrow> (string \<times> string) set" where
  "dep_rel steps = set (edges steps)"

definition well_formed_dag :: "workflow_step list \<Rightarrow> bool" where
  "well_formed_dag steps \<longleftrightarrow>
     distinct (map ws_id steps) \<and>
     (\<forall>s \<in> set steps. set (ws_depends_on s) \<subseteq> ws_id ` set steps) \<and>
     acyclic (dep_rel steps)"

lemma dep_rel_iff: "(d, i) \<in> dep_rel steps \<longleftrightarrow> (\<exists>s \<in> set steps. ws_id s = i \<and> d \<in> set (ws_depends_on s))"
  by (auto simp: dep_rel_def edges_def)

lemma duplicate_id_None:
  "duplicate_id ids steps = None \<longleftrightarrow> distinct (map ws_id steps) \<and> set ids \<inter> ws_id ` set steps = {}"
  by (induction ids steps rule: duplicate_id.induct) auto

lemma missing_in_None: "missing_in ids ds = None \<longleftrightarrow> set ds \<subseteq> set ids"
  by (induction ds) auto

lemma missing_dependency_None:
  "missing_dependency ids steps = None \<longleftrightarrow> (\<forall>s \<in> set steps. set (ws_depends_on s) \<subseteq> set ids)"
  by (induction steps) (auto simp: missing_in_None[symmetric] split: option.splits)

lemma bad_dep_None: "bad_dep known s ds = None \<longleftrightarrow> set ds \<subseteq> set known \<and> s \<notin> set ds"
  by (induction ds) auto

lemma bad_deps_None:
  "bad_deps known steps = None \<longleftrightarrow>
     (\<forall>s \<in> set steps. set (ws_depends_on s) \<subseteq> set known \<and> ws_id s \<notin> set (ws_depends_on s))"
  by (induction steps) (auto simp: bad_dep_None[symmetric] split: option.splits)

lemma dep_rel_within:
  "\<forall>s \<in> set steps. set (ws_depends_on s) \<subseteq> ws_id ` set steps \<Longrightarrow>
     dep_rel steps \<subseteq> (ws_id ` set steps) \<times> (ws_id ` set steps)"
  by (fastforce simp: dep_rel_iff)

section \<open>The topological sort decides it\<close>

lemma relax_spec:
  assumes "distinct (map fst c)" "\<And>m. m \<in> set ms \<Longrightarrow> \<exists>n. map_of c m = Some n \<and> count_list ms m \<le> n"
  shows "\<exists>c1 new. relax ms c q = Some (c1, new @ q) \<and> distinct (map fst c1) \<and>
     map_of c1 = (\<lambda>m. map_option (\<lambda>n. n - count_list ms m) (map_of c m)) \<and>
     distinct new \<and> set new = {m \<in> set ms. map_of c m = Some (count_list ms m)}"
  using assms
proof (induction ms arbitrary: c q)
  case Nil
  then show ?case by (auto simp: option.map_ident)
next
  case (Cons m ms)
  obtain n where n: "map_of c m = Some n" "Suc (count_list ms m) \<le> n"
    using Cons.prems(2)[of m] by auto
  then obtain n' where n': "n = Suc n'" by (cases n) auto
  define c1 where "c1 = AList.update m n' c"
  have drop: "drop_counter m c = Some (n', c1)"
    using n n' by (simp add: drop_counter_def c1_def)
  have map1: "map_of c1 = (map_of c)(m \<mapsto> n')" and dist1: "distinct (map fst c1)"
    using Cons.prems(1) by (simp_all add: c1_def update_conv' distinct_update)
  have "\<exists>k. map_of c1 x = Some k \<and> count_list ms x \<le> k" if "x \<in> set ms" for x
    using Cons.prems(2)[of x] that n n' by (auto simp: map1 split: if_splits)
  from Cons.IH[OF dist1 this, of "if n' = 0 then m # q else q"] obtain c2 new where
    IH: "relax ms c1 (if n' = 0 then m # q else q) = Some (c2, new @ (if n' = 0 then m # q else q))"
      "distinct (map fst c2)" "map_of c2 = (\<lambda>x. map_option (\<lambda>n. n - count_list ms x) (map_of c1 x))"
      "distinct new" "set new = {x \<in> set ms. map_of c1 x = Some (count_list ms x)}"
    by blast
  show ?case
  proof (intro exI conjI)
    show "relax (m # ms) c q = Some (c2, (if n' = 0 then new @ [m] else new) @ q)"
      using IH(1) drop by (simp split: if_splits)
    show "map_of c2 = (\<lambda>x. map_option (\<lambda>n. n - count_list (m # ms) x) (map_of c x))"
      using n n' by (auto simp: IH(3) map1)
    have zero: "n' = 0 \<Longrightarrow> m \<notin> set ms"
      using n(2) n' by (metis Suc_le_mono count_notin le_zero_eq count_list_0_iff)
    then show "distinct (if n' = 0 then new @ [m] else new)" using IH(4, 5) by auto
    show "set (if n' = 0 then new @ [m] else new) =
        {x \<in> set (m # ms). map_of c x = Some (count_list (m # ms) x)}"
      using zero n n' count_list_0_iff[of ms m] by (auto simp: IH(5) map1 split: if_splits)
  qed (use IH in auto)
qed

text \<open>The state of the work list: the settled steps \<open>V\<close>, the ready ones in the
  queue, and in every counter the dependencies not yet settled.\<close>

definition open_deps :: "workflow_step list \<Rightarrow> string set \<Rightarrow> string \<Rightarrow> nat" where
  "open_deps steps V m = length (filter (\<lambda>(d, s). s = m \<and> d \<notin> V) (edges steps))"

definition kahn_inv :: "workflow_step list \<Rightarrow> string set \<Rightarrow> string list \<Rightarrow> counters \<Rightarrow> bool" where
  "kahn_inv steps V q c \<longleftrightarrow>
     settled (dep_rel steps) V \<and> V \<subseteq> ws_id ` set steps \<and> distinct q \<and> distinct (map fst c) \<and>
     map_of c = (\<lambda>m. if m \<in> ws_id ` set steps then Some (open_deps steps V m) else None) \<and>
     V \<inter> set q = {} \<and> V \<union> set q = {m \<in> ws_id ` set steps. open_deps steps V m = 0}"

lemma open_deps_0: "open_deps steps V m = 0 \<longleftrightarrow> (\<forall>d. (d, m) \<in> dep_rel steps \<longrightarrow> d \<in> V)"
  by (auto simp: open_deps_def dep_rel_def filter_empty_conv)

definition successors :: "workflow_step list \<Rightarrow> string \<Rightarrow> string list" where
  "successors steps n = map snd (filter (\<lambda>(d, s). d = n) (edges steps))"

lemma open_deps_settle:
  assumes "n \<notin> V"
  shows "open_deps steps V m = open_deps steps (insert n V) m + count_list (successors steps n) m"
proof -
  have "length (filter (\<lambda>(d, s). s = m \<and> d \<notin> V) es) =
      length (filter (\<lambda>(d, s). s = m \<and> d \<notin> insert n V) es) +
      count_list (map snd (filter (\<lambda>(d, s). d = n) es)) m" for es
    using assms by (induction es) auto
  then show ?thesis by (simp add: open_deps_def successors_def)
qed

lemma kahn_step:
  assumes inv: "kahn_inv steps V (n # q) c"
    and known: "\<forall>s \<in> set steps. set (ws_depends_on s) \<subseteq> ws_id ` set steps"
  shows "\<exists>c1 q1. relax (successors steps n) c q = Some (c1, q1) \<and> kahn_inv steps (insert n V) q1 c1 \<and> n \<notin> V"
proof -
  let ?I = "ws_id ` set steps" and ?ms = "successors steps n"
  have n: "n \<notin> V" "n \<in> ?I" "open_deps steps V n = 0" and dq: "distinct q" "n \<notin> set q"
    using inv by (auto simp: kahn_inv_def)
  have distc: "distinct (map fst c)" using inv by (simp add: kahn_inv_def)
  have succ: "m \<in> ?I" if "m \<in> set ?ms" for m
    using that dep_rel_within[OF known] by (auto simp: successors_def dep_rel_def)
  have cm: "map_of c m = Some (open_deps steps V m)" if "m \<in> ?I" for m
    using inv that by (simp add: kahn_inv_def)
  have "\<exists>k. map_of c m = Some k \<and> count_list ?ms m \<le> k" if "m \<in> set ?ms" for m
    using cm[OF succ[OF that]] open_deps_settle[OF n(1), of steps m] by auto
  from relax_spec[of c ?ms q, OF distc this] obtain c1 new where
    r: "relax ?ms c q = Some (c1, new @ q)" "distinct (map fst c1)"
      "map_of c1 = (\<lambda>m. map_option (\<lambda>k. k - count_list ?ms m) (map_of c m))"
      "distinct new" "set new = {m \<in> set ?ms. map_of c m = Some (count_list ?ms m)}"
    by blast
  have "m \<in> set new \<longleftrightarrow> m \<in> ?I \<and> open_deps steps V m \<noteq> 0 \<and> open_deps steps (insert n V) m = 0" for m
    using cm[of m] succ[of m] open_deps_settle[OF n(1), of steps m] count_list_0_iff[of ?ms m]
    by (cases "m \<in> set ?ms") (auto simp: r(5))
  then have new: "set new = {m \<in> ?I. open_deps steps V m \<noteq> 0 \<and> open_deps steps (insert n V) m = 0}"
    by blast
  have front: "V \<union> insert n (set q) = {m \<in> ?I. open_deps steps V m = 0}"
    using inv by (simp add: kahn_inv_def)
  have disj: "set new \<inter> (V \<union> insert n (set q)) = {}" unfolding new front by auto
  have mono: "open_deps steps V m = 0 \<Longrightarrow> open_deps steps (insert n V) m = 0" for m
    using open_deps_settle[OF n(1), of steps m] by simp
  have "kahn_inv steps (insert n V) (new @ q) c1"
    unfolding kahn_inv_def
  proof (intro conjI)
    show "settled (dep_rel steps) (insert n V)"
      using inv n open_deps_0 by (metis kahn_inv_def settled_insert)
    show "map_of c1 = (\<lambda>m. if m \<in> ?I then Some (open_deps steps (insert n V) m) else None)"
      using inv open_deps_settle[OF n(1), of steps] by (auto simp: r(3) kahn_inv_def fun_eq_iff)
    show "insert n V \<union> set (new @ q) = {m \<in> ?I. open_deps steps (insert n V) m = 0}"
    proof -
      have "insert n V \<union> set (new @ q) = (V \<union> insert n (set q)) \<union> set new" by auto
      then show ?thesis unfolding front new using mono by auto
    qed
    show "distinct (new @ q)" "insert n V \<inter> set (new @ q) = {}"
      using disj n dq r(4) inv by (auto simp: kahn_inv_def)
  qed (use inv n r(2) in \<open>auto simp: kahn_inv_def\<close>)
  with r(1) n(1) show ?thesis by blast
qed

lemma kahn_loop_spec:
  assumes known: "\<forall>s \<in> set steps. set (ws_depends_on s) \<subseteq> ws_id ` set steps"
    and adj: "\<And>n. successors steps n = (case adj n of None \<Rightarrow> [] | Some xs \<Rightarrow> xs)"
  shows "kahn_inv steps V q c \<Longrightarrow>
     \<exists>V' c'. kahn_loop adj q c (card V) = Some (card V') \<and> kahn_inv steps V' [] c'"
proof (induction "weight c + length q" arbitrary: V q c rule: less_induct)
  case less
  show ?case
  proof (cases q)
    case Nil
    with less.prems show ?thesis by auto
  next
    case (Cons n q0)
    from kahn_step[OF less.prems[unfolded Cons] known] obtain c1 q1 where
      s: "relax (successors steps n) c q0 = Some (c1, q1)" "kahn_inv steps (insert n V) q1 c1" "n \<notin> V"
      by blast
    have "finite V" using less.prems by (auto simp: kahn_inv_def dest: finite_subset)
    then have card: "card (insert n V) = card V + 1" using s(3) by simp
    have "kahn_loop adj q c (card V) = kahn_loop adj q1 c1 (card (insert n V))"
      using s(1) adj[of n] unfolding card by (auto simp: Cons split: option.splits)
    moreover have "weight c1 + length q1 < weight c + length q"
      using relax_weight[OF s(1)] by (simp add: Cons)
    ultimately show ?thesis using less.hyps[OF _ s(2)] by auto
  qed
qed

lemma add_edges_spec:
  assumes "snd ` set es \<subseteq> dom (map_of c)" "distinct (map fst c)"
  shows "\<exists>c1 adj1. add_edges es c adj = Some (c1, adj1) \<and> map fst c1 = map fst c \<and>
     map_of c1 = (\<lambda>m. map_option (\<lambda>n. n + length (filter (\<lambda>(d, s). s = m) es)) (map_of c m)) \<and>
     (\<forall>n. (case adj1 n of None \<Rightarrow> [] | Some xs \<Rightarrow> xs) =
       (case adj n of None \<Rightarrow> [] | Some xs \<Rightarrow> xs) @ map snd (filter (\<lambda>(d, s). d = n) es))"
  using assms
proof (induction es arbitrary: c adj)
  case Nil
  then show ?case by (auto simp: option.map_ident)
next
  case (Cons e es)
  obtain d s where e: "e = (d, s)" by (cases e)
  with Cons.prems obtain n where n: "map_of c s = Some n" by fastforce
  define c1 where "c1 = AList.update s (n + 1) c"
  have map1: "map_of c1 = (map_of c)(s \<mapsto> n + 1)" by (simp add: c1_def update_conv')
  have keys: "map fst c1 = map fst c"
    using n by (force simp: c1_def update_keys dest: map_of_SomeD)
  have "snd ` set es \<subseteq> dom (map_of c1)"
    using Cons.prems(1) by (auto simp: map1)
  moreover have "distinct (map fst c1)" using Cons.prems(2) keys by simp
  ultimately obtain c2 adj2 where
    IH: "add_edges es c1 (push_adj d s adj) = Some (c2, adj2)" "map fst c2 = map fst c"
      "map_of c2 = (\<lambda>m. map_option (\<lambda>n. n + length (filter (\<lambda>(d, s). s = m) es)) (map_of c1 m))"
      "\<forall>n. (case adj2 n of None \<Rightarrow> [] | Some xs \<Rightarrow> xs) =
        (case push_adj d s adj n of None \<Rightarrow> [] | Some xs \<Rightarrow> xs) @ map snd (filter (\<lambda>(d, s). d = n) es)"
    using Cons.IH[of c1 "push_adj d s adj"] keys by auto
  have "add_edges (e # es) c adj = Some (c2, adj2)"
    using n IH(1) by (simp add: e bump_counter_def c1_def)
  moreover have "map_of c2 = (\<lambda>m. map_option (\<lambda>n. n + length (filter (\<lambda>(d, s). s = m) (e # es))) (map_of c m))"
    using n by (auto simp: IH(3) map1 e fun_eq_iff)
  moreover have "\<forall>n. (case adj2 n of None \<Rightarrow> [] | Some xs \<Rightarrow> xs) =
      (case adj n of None \<Rightarrow> [] | Some xs \<Rightarrow> xs) @ map snd (filter (\<lambda>(d, s). d = n) (e # es))"
    by (simp add: IH(4) e push_adj_def)
  ultimately show ?case using IH(2) by blast
qed

lemma kahn_start:
  assumes "distinct (map ws_id steps)" "mset (order (map ws_id steps)) = mset (map ws_id steps)"
    and known: "\<forall>s \<in> set steps. set (ws_depends_on s) \<subseteq> ws_id ` set steps"
  shows "\<exists>c adj. add_edges (edges steps) (map (\<lambda>i. (i, 0)) (order (map ws_id steps))) Map.empty = Some (c, adj) \<and>
     (\<forall>n. successors steps n = (case adj n of None \<Rightarrow> [] | Some xs \<Rightarrow> xs)) \<and>
     kahn_inv steps {} (rev (map fst (filter (\<lambda>(k, d). d = 0) c))) c"
proof -
  let ?ks = "order (map ws_id steps)" and ?I = "ws_id ` set steps"
  let ?c0 = "map (\<lambda>i. (i, 0::nat)) ?ks"
  have ks: "set ?ks = ?I" "distinct ?ks"
    using assms(1, 2) mset_eq_setD[OF assms(2)] mset_eq_imp_distinct_iff[OF assms(2)] by auto
  have c0: "map_of ?c0 = (\<lambda>m. if m \<in> ?I then Some 0 else None)"
    by (auto simp: map_of_map_restrict restrict_map_def ks fun_eq_iff)
  have "snd ` set (edges steps) \<subseteq> dom (map_of ?c0)"
    by (auto simp: c0 edges_def dom_def)
  from add_edges_spec[where es = "edges steps" and c = ?c0 and adj = Map.empty, OF this] ks(2) obtain c adj where
    a: "add_edges (edges steps) ?c0 Map.empty = Some (c, adj)" "map fst c = ?ks"
      "map_of c = (\<lambda>m. map_option (\<lambda>n. n + length (filter (\<lambda>(d, s). s = m) (edges steps))) (map_of ?c0 m))"
      "\<forall>n. (case adj n of None \<Rightarrow> [] | Some xs \<Rightarrow> xs) = map snd (filter (\<lambda>(d, s). d = n) (edges steps))"
    by (auto simp: comp_def)
  have c: "map_of c = (\<lambda>m. if m \<in> ?I then Some (open_deps steps {} m) else None)"
    by (auto simp: a(3) c0 open_deps_def fun_eq_iff)
  let ?q = "rev (map fst (filter (\<lambda>(k, d). d = 0) c))"
  have dist: "distinct (map fst c)" using ks(2) a(2) by simp
  then have "distinct ?q" by (simp add: distinct_map_filter)
  moreover have "set ?q = {m \<in> ?I. open_deps steps {} m = 0}"
  proof -
    have "m \<in> set ?q \<longleftrightarrow> (m, 0) \<in> set c" for m by force
    then have "m \<in> set ?q \<longleftrightarrow> map_of c m = Some 0" for m
      using map_of_eq_Some_iff[OF dist] by simp
    then have "set ?q = {m. map_of c m = Some 0}" by blast
    then show ?thesis by (auto simp: c simp del: set_rev set_map split: if_splits)
  qed
  ultimately have "kahn_inv steps {} ?q c"
    using dist c by (auto simp: kahn_inv_def settled_empty)
  with a show ?thesis by (auto simp: successors_def)
qed

lemma kahn_final:
  assumes "kahn_inv steps V [] c" "distinct (map ws_id steps)"
    and known: "\<forall>s \<in> set steps. set (ws_depends_on s) \<subseteq> ws_id ` set steps"
  shows "card V = length steps \<longleftrightarrow> acyclic (dep_rel steps)"
proof -
  let ?I = "ws_id ` set steps"
  have V: "settled (dep_rel steps) V" "V \<subseteq> ?I" "V = {m \<in> ?I. open_deps steps V m = 0}"
    using assms(1) by (auto simp: kahn_inv_def)
  have "card ?I = length steps"
    using assms(2) by (metis distinct_card length_map list.set_map)
  then have "card V = length steps \<longleftrightarrow> V = ?I"
    using V(2) by (metis card_subset_eq finite_imageI finite_set)
  also have "\<dots> \<longleftrightarrow> acyclic (dep_rel steps)"
  proof
    assume "V = ?I"
    then show "acyclic (dep_rel steps)"
      using settled_everything[OF V(1)] dep_rel_within[OF known] by simp
  next
    assume acyc: "acyclic (dep_rel steps)"
    have ready: "n \<in> V" if "n \<in> ?I" "\<And>d. (d, n) \<in> dep_rel steps \<Longrightarrow> d \<in> V" for n
      using V(3) that open_deps_0[of steps V n] by blast
    show "V = ?I"
      by (rule settled_maximal[OF _ dep_rel_within[OF known] acyc V(2) ready]) auto
  qed
  finally show ?thesis .
qed

lemma validate_workflow_dag_spec:
  assumes "\<And>xs. mset (order xs) = mset xs"
  shows "\<exists>r. validate_workflow_dag order steps = Some r \<and>
     (r = Inr () \<longleftrightarrow> steps \<noteq> [] \<and> well_formed_dag steps)"
proof (cases "steps \<noteq> [] \<and> duplicate_id [] steps = None \<and> missing_dependency (map ws_id steps) steps = None")
  case True
  then have d: "distinct (map ws_id steps)"
    and known: "\<forall>s \<in> set steps. set (ws_depends_on s) \<subseteq> ws_id ` set steps"
    by (auto simp: duplicate_id_None missing_dependency_None)
  from kahn_start[of steps order, OF d assms known] obtain c adj where
    s: "add_edges (edges steps) (map (\<lambda>i. (i, 0)) (order (map ws_id steps))) Map.empty = Some (c, adj)"
      "\<And>n. successors steps n = (case adj n of None \<Rightarrow> [] | Some xs \<Rightarrow> xs)"
      "kahn_inv steps {} (rev (map fst (filter (\<lambda>(k, d). d = 0) c))) c"
    by blast
  from kahn_loop_spec[OF known s(2) s(3)] obtain V c' where
    k: "kahn_loop adj (rev (map fst (filter (\<lambda>(k, d). d = 0) c))) c 0 = Some (card V)"
      "kahn_inv steps V [] c'" by auto
  show ?thesis
    using True s(1) k(1) kahn_final[OF k(2) d known] d known
    by (auto simp: validate_workflow_dag_def well_formed_dag_def)
next
  case False
  then show ?thesis
    by (auto simp: validate_workflow_dag_def well_formed_dag_def duplicate_id_None
        missing_dependency_None split: option.splits)
qed

section \<open>The depth-first search decides it\<close>

definition adj_rel :: "(string \<times> string list) list \<Rightarrow> (string \<times> string) set" where
  "adj_rel adj = {(d, v). \<exists>ds. map_of adj v = Some ds \<and> d \<in> set ds}"

text \<open>Below the top of the stack every frame waits for the node above it; the
  dependencies before that one are finished.\<close>

fun chain :: "(string \<times> string list) list \<Rightarrow> colours \<Rightarrow> string \<Rightarrow> (string \<times> nat) list \<Rightarrow> bool" where
  "chain adj c w [] = True"
| "chain adj c w ((m, j) # st) =
     (\<exists>ds k. map_of adj m = Some ds \<and> j = Suc k \<and> k < length ds \<and> ds ! k = w \<and>
        (\<forall>l < k. c (ds ! l) = 2) \<and> chain adj c m st)"

definition entered :: "(string \<times> string list) list \<Rightarrow> colours \<Rightarrow> string \<Rightarrow> nat \<Rightarrow> (string \<times> nat) list \<Rightarrow> bool" where
  "entered adj c n i st \<longleftrightarrow>
     settled (adj_rel adj) {v. c v = 2} \<and> (\<forall>v. c v \<le> 2) \<and>
     {v. c v = 1} = insert n (fst ` set st) \<and> distinct (n # map fst st) \<and> chain adj c n st \<and>
     (\<exists>ds. map_of adj n = Some ds \<and> i \<le> length ds \<and> (\<forall>l < i. c (ds ! l) = 2))"

definition resting :: "(string \<times> string list) list \<Rightarrow> colours \<Rightarrow> bool" where
  "resting adj c \<longleftrightarrow> settled (adj_rel adj) {v. c v = 2} \<and> (\<forall>v. c v \<in> {0, 2})"

fun dfs_inv :: "(string \<times> string list) list \<Rightarrow> colours \<Rightarrow> (string \<times> nat) list \<Rightarrow> bool" where
  "dfs_inv adj c [] = resting adj c"
| "dfs_inv adj c ((n, i) # st) =
     (if i = 0 then c n = 0 \<and> entered adj (c(n := 1)) n 0 st else entered adj c n i st)"

lemma chain_trancl: "chain adj c n st \<Longrightarrow> m \<in> fst ` set st \<Longrightarrow> (n, m) \<in> (adj_rel adj)\<^sup>+"
proof (induction adj c n st rule: chain.induct)
  case (2 adj c w m' j st)
  then obtain ds k where "map_of adj m' = Some ds" "k < length ds" "ds ! k = w" by auto
  then have "(w, m') \<in> adj_rel adj" by (auto simp: adj_rel_def)
  with 2 show ?case by (auto intro: trancl_into_trancl2)
qed simp

lemma chain_paint: "chain adj c n st \<Longrightarrow> c v \<noteq> 2 \<Longrightarrow> chain adj (c(v := x)) n st"
  by (induction adj c n st rule: chain.induct) auto

lemma gray_is_cycle:
  assumes "entered adj c n i st" "map_of adj n = Some ds" "i < length ds" "c (ds ! i) = 1"
  shows "\<not> acyclic (adj_rel adj)"
proof -
  have e: "(ds ! i, n) \<in> adj_rel adj" using assms(2, 3) by (auto simp: adj_rel_def)
  have "{v. c v = 1} = insert n (fst ` set st)"
    using assms(1) unfolding entered_def by blast
  then have "ds ! i \<in> insert n (fst ` set st)" using assms(4) by blast
  then have "ds ! i = n \<or> (n, ds ! i) \<in> (adj_rel adj)\<^sup>+"
    using assms(1) chain_trancl[of adj c n st "ds ! i"] by (auto simp: entered_def)
  with e show ?thesis by (auto simp: acyclic_def intro: trancl_into_trancl)
qed

lemma entered_push:
  assumes "entered adj c n i st" "map_of adj n = Some ds" "i < length ds" "c (ds ! i) = 0"
    and "map_of adj (ds ! i) = Some ds'"
  shows "entered adj (c(ds ! i := 1)) (ds ! i) 0 ((n, i + 1) # st)"
proof -
  let ?v = "ds ! i"
  have "?v \<notin> {v. c v = 1}" using assms(4) by simp
  then have "?v \<noteq> n" "?v \<notin> fst ` set st" using assms(1) by (auto simp: entered_def)
  moreover have "{v. (c(?v := 1)) v = 2} = {v. c v = 2}" using assms(4) by auto
  moreover have "{v. (c(?v := 1)) v = 1} = insert ?v {v. c v = 1}" by auto
  ultimately show ?thesis
    using assms chain_paint[of adj c n st ?v 1]
    by (auto simp: entered_def)
qed

lemma entered_skip:
  "entered adj c n i st \<Longrightarrow> map_of adj n = Some ds \<Longrightarrow> i < length ds \<Longrightarrow> c (ds ! i) = 2 \<Longrightarrow>
     entered adj c n (i + 1) st"
  by (auto simp: entered_def less_Suc_eq)

lemma entered_finish:
  assumes "entered adj c n i st" "map_of adj n = Some ds" "\<not> i < length ds"
  shows "dfs_inv adj (c(n := 2)) st"
proof -
  have c: "c n = 1" and all: "\<And>d. d \<in> set ds \<Longrightarrow> c d = 2"
    using assms by (auto simp: entered_def in_set_conv_nth)
  have "{v. (c(n := 2)) v = 2} = insert n {v. c v = 2}" by auto
  then have set: "settled (adj_rel adj) {v. (c(n := 2)) v = 2}"
    using assms(1, 2) c all by (auto simp: entered_def adj_rel_def intro!: settled_insert)
  have gray: "{v. (c(n := 2)) v = 1} = fst ` set st"
  proof -
    have "{v. (c(n := 2)) v = 1} = {v. c v = 1} - {n}" by auto
    with assms(1) show ?thesis by (auto simp: entered_def)
  qed
  show ?thesis
  proof (cases st)
    case Nil
    have "(c(n := 2)) v \<in> {0, 2}" for v
    proof -
      have "(c(n := 2)) v \<le> 2" "(c(n := 2)) v \<noteq> 1"
        using assms(1) gray by (auto simp: entered_def Nil)
      then show ?thesis by (auto simp del: fun_upd_apply)
    qed
    then show ?thesis using set by (simp add: Nil resting_def del: fun_upd_apply)
  next
    case (Cons f st')
    obtain m j where f: "f = (m, j)" by (cases f)
    from assms(1) obtain ds' k where k: "map_of adj m = Some ds'" "j = Suc k" "k < length ds'"
        "ds' ! k = n" "\<forall>l<k. c (ds' ! l) = 2" "chain adj c m st'"
      by (auto simp: entered_def Cons f)
    have "entered adj (c(n := 2)) m j st'"
      unfolding entered_def
    proof (intro conjI)
      show "\<forall>v. (c(n := 2)) v \<le> 2" using assms(1) by (auto simp: entered_def)
      show "chain adj (c(n := 2)) m st'" using chain_paint[OF k(6)] c by simp
      show "\<exists>ds. map_of adj m = Some ds \<and> j \<le> length ds \<and> (\<forall>l<j. (c(n := 2)) (ds ! l) = 2)"
        using k by (auto simp: less_Suc_eq)
    qed (use set gray assms(1) in \<open>auto simp: Cons f entered_def simp del: fun_upd_apply\<close>)
    with k(2) show ?thesis by (simp add: Cons f)
  qed
qed

definition deps_known :: "(string \<times> string list) list \<Rightarrow> bool" where
  "deps_known adj \<longleftrightarrow> (\<forall>v ds. map_of adj v = Some ds \<longrightarrow> set ds \<subseteq> dom (map_of adj))"

declare dfs_loop.simps [simp del]

lemma dfs_loop_push:
  assumes "map_of adj n = Some ds" "i < length ds" "(if i = 0 then c(n := 1) else c) = c1"
  shows "c1 (ds ! i) = 1 \<Longrightarrow>
      dfs_loop adj c ((n, i) # st) = Some (Inl (''cycle detected via '' @ n @ '' -> '' @ ds ! i))"
    and "c1 (ds ! i) = 0 \<Longrightarrow>
      dfs_loop adj c ((n, i) # st) = dfs_loop adj c1 ((ds ! i, 0) # (n, i + 1) # st)"
    and "c1 (ds ! i) = 2 \<Longrightarrow> dfs_loop adj c ((n, i) # st) = dfs_loop adj c1 ((n, i + 1) # st)"
  using assms by (simp_all add: dfs_loop.simps(2)[of adj c n i st] Let_def)

lemma dfs_loop_pop:
  assumes "map_of adj n = Some ds" "\<not> i < length ds" "(if i = 0 then c(n := 1) else c) = c1"
  shows "dfs_loop adj c ((n, i) # st) = dfs_loop adj (c1(n := 2)) st"
  using assms by (simp add: dfs_loop.simps(2)[of adj c n i st] Let_def)

lemma dfs_loop_spec:
  assumes known: "deps_known adj"
  shows "dfs_inv adj c st \<Longrightarrow>
     (\<exists>c'. dfs_loop adj c st = Some (Inr c') \<and> resting adj c' \<and>
        (\<forall>v. c v = 2 \<longrightarrow> c' v = 2) \<and> (\<forall>v \<in> fst ` set st. c' v = 2)) \<or>
     (\<exists>e. dfs_loop adj c st = Some (Inl e)) \<and> \<not> acyclic (adj_rel adj)"
  using known
proof (induction adj c st rule: dfs_loop.induct)
  case (2 adj c n i st)
  define c1 where "c1 = (if i = 0 then c(n := 1) else c)"
  have ent: "entered adj c1 n i st" and keep: "\<And>v. c v = 2 \<Longrightarrow> c1 v = 2"
    using "2.prems"(1) by (auto simp: c1_def split: if_splits)
  then obtain ds where ds: "map_of adj n = Some ds" by (auto simp: entered_def)
  show ?case
  proof (cases "i < length ds")
    case True
    let ?d = "ds ! i"
    obtain ds' where ds': "map_of adj ?d = Some ds'"
      using "2.prems"(2) ds nth_mem[OF True] unfolding deps_known_def by blast
    have "c1 ?d \<le> 2" using ent by (simp add: entered_def)
    then consider "c1 ?d = 1" | "c1 ?d = 0" | "c1 ?d = 2" by linarith
    then show ?thesis
    proof cases
      case 1
      with gray_is_cycle[OF ent ds True] dfs_loop_push(1)[OF ds True c1_def[symmetric]]
      show ?thesis by simp
    next
      case c0: 2
      have "dfs_inv adj c1 ((?d, 0) # (n, i + 1) # st)"
        using entered_push[OF ent ds True c0 ds'] c0 by simp
      from "2.IH"(1)[OF ds c1_def True refl _ c0 this "2.prems"(2)] c0 keep
      show ?thesis by (simp add: dfs_loop_push(2)[OF ds True c1_def[symmetric]]) blast
    next
      case c2: 3
      have "dfs_inv adj c1 ((n, i + 1) # st)" using entered_skip[OF ent ds True c2] by simp
      from "2.IH"(2)[OF ds c1_def True refl _ _ this "2.prems"(2)] c2 keep
      show ?thesis by (simp add: dfs_loop_push(3)[OF ds True c1_def[symmetric]]) blast
    qed
  next
    case False
    define c2 where "c2 = c1(n := 2)"
    have c2: "\<And>v. c v = 2 \<Longrightarrow> c2 v = 2" "c2 n = 2" using keep by (auto simp: c2_def)
    have "dfs_inv adj c2 st" unfolding c2_def by (rule entered_finish[OF ent ds False])
    from "2.IH"(3)[OF ds c1_def False this[unfolded c2_def] "2.prems"(2), folded c2_def] c2
    show ?thesis by (simp add: dfs_loop_pop[OF ds False c1_def[symmetric], folded c2_def]) blast
  qed
qed (simp add: dfs_loop.simps)

lemma dfs_roots_spec:
  assumes known: "deps_known adj"
    and keys: "ws_id ` set steps \<subseteq> dom (map_of adj)"
  shows "resting adj c \<Longrightarrow>
     (dfs_roots adj steps c = Some (Inr ()) \<and>
        (\<exists>c'. resting adj c' \<and> (\<forall>v. c v = 2 \<longrightarrow> c' v = 2) \<and> (\<forall>s \<in> set steps. c' (ws_id s) = 2))) \<or>
     (\<exists>e. dfs_roots adj steps c = Some (Inl e)) \<and> \<not> acyclic (adj_rel adj)"
  using keys
proof (induction steps arbitrary: c)
  case Nil
  then show ?case by auto
next
  case (Cons s ss)
  show ?case
  proof (cases "c (ws_id s) = 0")
    case True
    obtain ds where "map_of adj (ws_id s) = Some ds" using Cons.prems(2) by auto
    moreover have "{v. c v = 1} = {}"
    proof -
      have "c v \<noteq> 1" for v
        using Cons.prems(1) unfolding resting_def by (metis insertE one_neq_zero
          numeral_eq_one_iff semiring_norm(85) singletonD)
      then show ?thesis by simp
    qed
    moreover have "{v. (c(ws_id s := 1)) v = 2} = {v. c v = 2}" using True by auto
    moreover have "{v. (c(ws_id s := 1)) v = 1} = insert (ws_id s) {v. c v = 1}" by auto
    moreover have "c v \<le> 2" for v
      using Cons.prems(1) unfolding resting_def by (metis insert_iff order_refl singletonD zero_le)
    ultimately have "dfs_inv adj c [(ws_id s, 0)]"
      using Cons.prems(1) True by (simp add: resting_def entered_def)
    from dfs_loop_spec[OF known this] consider
        c' where "dfs_loop adj c [(ws_id s, 0)] = Some (Inr c')" "resting adj c'"
          "\<forall>v. c v = 2 \<longrightarrow> c' v = 2" "c' (ws_id s) = 2"
      | e where "dfs_loop adj c [(ws_id s, 0)] = Some (Inl e)" "\<not> acyclic (adj_rel adj)"
      by auto
    then show ?thesis
    proof cases
      case 1
      then have step: "dfs_roots adj (s # ss) c = dfs_roots adj ss c'" using True by simp
      have "ws_id ` set ss \<subseteq> dom (map_of adj)" using Cons.prems(2) by simp
      from Cons.IH[OF 1(2) this] 1(3, 4) show ?thesis
        unfolding step list.set by (elim disjE) (blast, blast)
    next
      case 2
      with True show ?thesis by simp
    qed
  next
    case False
    then have "c (ws_id s) = 2" using Cons.prems(1) by (metis insertE resting_def singletonD)
    moreover have step: "dfs_roots adj (s # ss) c = dfs_roots adj ss c" using False by simp
    moreover have "ws_id ` set ss \<subseteq> dom (map_of adj)" using Cons.prems(2) by simp
    ultimately show ?thesis
      using Cons.IH[OF Cons.prems(1)] unfolding step list.set by blast
  qed
qed

lemma adj_rel_steps:
  "distinct (map ws_id steps) \<Longrightarrow> adj_rel (map (\<lambda>s. (ws_id s, ws_depends_on s)) steps) = dep_rel steps"
  by (auto simp: adj_rel_def dep_rel_iff map_of_eq_Some_iff comp_def image_iff)
     blast+

lemma validate_dag_spec:
  "\<exists>r. validate_dag steps = Some r \<and> (r = Inr () \<longleftrightarrow> well_formed_dag steps)"
proof (cases "duplicate_id [] steps = None \<and> bad_deps (map ws_id steps) steps = None")
  case True
  let ?adj = "map (\<lambda>s. (ws_id s, ws_depends_on s)) steps"
  have d: "distinct (map ws_id steps)" and d': "distinct (map fst ?adj)"
    and known: "\<forall>s \<in> set steps. set (ws_depends_on s) \<subseteq> ws_id ` set steps"
    using True by (auto simp: duplicate_id_None bad_deps_None comp_def)
  have dom: "dom (map_of ?adj) = ws_id ` set steps" by (simp add: dom_map_of_conv_image_fst image_image)
  then have keys: "ws_id ` set steps \<subseteq> dom (map_of ?adj)" by simp
  have deps: "deps_known ?adj"
    using known unfolding deps_known_def dom by (force dest: map_of_SomeD)
  have rest: "resting ?adj (\<lambda>_. 0)" by (simp add: resting_def settled_empty)
  have "dfs_roots ?adj steps (\<lambda>_. 0) = Some (Inr ()) \<and> acyclic (dep_rel steps) \<or>
      (\<exists>e. dfs_roots ?adj steps (\<lambda>_. 0) = Some (Inl e)) \<and> \<not> acyclic (dep_rel steps)"
  proof -
    consider c' where "dfs_roots ?adj steps (\<lambda>_. 0) = Some (Inr ())" "resting ?adj c'"
        "\<forall>s \<in> set steps. c' (ws_id s) = 2"
      | "\<exists>e. dfs_roots ?adj steps (\<lambda>_. 0) = Some (Inl e)" "\<not> acyclic (adj_rel ?adj)"
      using dfs_roots_spec[of ?adj steps "\<lambda>_. 0", OF deps keys rest] by blast
    then show ?thesis
    proof cases
      case 1
      have "settled (dep_rel steps) {v. c' v = 2}"
        using 1(2) by (simp add: resting_def adj_rel_steps[OF d])
      moreover have "dep_rel steps \<subseteq> {v. c' v = 2} \<times> {v. c' v = 2}"
        using dep_rel_within[OF known] 1(3) by auto
      ultimately show ?thesis using settled_everything 1(1) by blast
    next
      case 2
      then show ?thesis by (simp add: adj_rel_steps[OF d])
    qed
  qed
  then show ?thesis using True d known by (auto simp: validate_dag_def well_formed_dag_def)
next
  case False
  have self: "\<not> acyclic (dep_rel steps)" if "s \<in> set steps" "ws_id s \<in> set (ws_depends_on s)" for s
    using that by (auto simp: acyclic_def dep_rel_iff intro!: r_into_trancl exI[of _ "ws_id s"])
  from False show ?thesis
    by (auto simp: validate_dag_def well_formed_dag_def duplicate_id_None bad_deps_None
        dest: self split: option.splits)
qed

section \<open>The two validators agree\<close>

text \<open>C14: the two validators of the code base decide the same predicate. Neither
  panics on any list of steps. The depth-first search accepts exactly the graphs with
  distinct ids, known dependencies and no cycle; the topological sort accepts the same
  graphs except the empty one, whatever order the hash map of in-degrees is iterated in.\<close>

theorem validators_agree:
  assumes "\<And>xs. mset (order xs) = mset xs"
  shows "(\<exists>r. validate_workflow_dag order steps = Some r \<and>
            (r = Inr () \<longleftrightarrow> steps \<noteq> [] \<and> well_formed_dag steps)) \<and>
         (\<exists>r. validate_dag steps = Some r \<and> (r = Inr () \<longleftrightarrow> well_formed_dag steps))"
  using validate_workflow_dag_spec[of order steps, OF assms] validate_dag_spec[of steps] by blast

definition plain_step :: "string \<Rightarrow> string list \<Rightarrow> workflow_step" where
  "plain_step i ds = \<lparr>ws_id = i, ws_prompt = ''do '' @ i, ws_depends_on = ds, ws_role = Worker,
     ws_adapter = None, ws_requested_node_id = None, ws_base_commit = None, ws_retryable = None,
     ws_max_attempts = None, ws_expandable = None\<rparr>"

lemma plain_step_simps [simp]:
  "ws_id (plain_step i ds) = i" "ws_depends_on (plain_step i ds) = ds"
  "ws_role (plain_step i ds) = Worker" "ws_retryable (plain_step i ds) = None"
  "ws_expandable (plain_step i ds) = None" "ws_max_attempts (plain_step i ds) = None"
  by (simp_all add: plain_step_def)

definition diamond :: "workflow_step list" where
  "diamond = [plain_step ''a'' [], plain_step ''b'' [''a''], plain_step ''c'' [''a''],
     plain_step ''d'' [''b'', ''c'']]"

lemma diamond_accepted: "validate_dag diamond = Some (Inr ())"
  by (simp add: diamond_def validate_dag_def dfs_loop.simps)

theorem validators_agree_witness:
  "validate_dag diamond = Some (Inr ()) \<and> validate_workflow_dag rev diamond = Some (Inr ()) \<and>
   validate_workflow_dag rev (diamond @ [plain_step ''e'' [''e'']]) =
     Some (Inl (Cycle [''a'', ''b'', ''c'', ''d'', ''e'']))"
proof -
  have "validate_workflow_dag rev diamond = Some (Inr ())"
    using validators_agree[of rev diamond] diamond_accepted by (auto simp: diamond_def)
  moreover have "validate_workflow_dag rev (diamond @ [plain_step ''e'' [''e'']]) =
      Some (Inl (Cycle [''a'', ''b'', ''c'', ''d'', ''e'']))"
    by (simp add: diamond_def validate_workflow_dag_def edges_def bump_counter_def
        drop_counter_def push_adj_def)
  ultimately show ?thesis using diamond_accepted by simp
qed

end
