(* ===== verification/WorkflowReach.thy ===== *)
theory WorkflowReach
  imports WorkflowTick WorkflowDagProps
begin

text \<open>
  The reachable states of the workflow engine, and what every operation keeps. Every
  operation is built from a few kinds of table writes; the locale \<open>wf_closed\<close> says
  what a predicate has to survive, and carries it through every operation. It is
  instantiated with the integrity of the ids and of the mailbox.
\<close>

section \<open>Reachable states\<close>

inductive wf_move :: "(nat \<Rightarrow> id) \<Rightarrow> wf \<Rightarrow> wf \<Rightarrow> bool" for mnt where
  move_template: "we_mint env = mnt \<Longrightarrow> create_workflow_template env name steps budget w = (r, w') \<Longrightarrow>
    wf_move mnt w w'"
| move_run: "we_mint env = mnt \<Longrightarrow> create_workflow_run_full env tid req w = (r1, w') \<Longrightarrow> wf_move mnt w w'"
| move_assembly: "we_mint env = mnt \<Longrightarrow> create_assembly_run env areq plimit w = (r2, w') \<Longrightarrow> wf_move mnt w w'"
| move_approve: "we_mint env = mnt \<Longrightarrow> approve_workflow_plan env rid w = (r3, w') \<Longrightarrow> wf_move mnt w w'"
| move_tick: "we_mint env = mnt \<Longrightarrow> tick_workflow_run env rid w = (r4, w') \<Longrightarrow> wf_move mnt w w'"
| move_cancel: "cancel_workflow_run rid w = (b, w') \<Longrightarrow> wf_move mnt w w'"
| move_expiry: "tick_approval_expiry now w = (n, w') \<Longrightarrow> wf_move mnt w w'"
| move_emit: "wf_move mnt w (emit_workflow_message rid from to kind payload w)"
| move_rebuild: "wf_move mnt w (rebuild_handoff_streaks w)"
| move_schedule: "we_mint env = mnt \<Longrightarrow> create_workflow_schedule env tid body w = (r5, w') \<Longrightarrow> wf_move mnt w w'"
| move_unschedule: "delete_workflow_schedule sid w = (b, w') \<Longrightarrow> wf_move mnt w w'"
| move_fire: "we_mint env = mnt \<Longrightarrow> tick_workflow_schedules env t w = (ids, w') \<Longrightarrow> wf_move mnt w w'"
| move_store: "wf_move mnt w (w\<lparr>wf_store := st\<rparr>)"

definition wf_init :: "store \<Rightarrow> wf" where
  "wf_init st = \<lparr>wf_store = st, wf_templates = [], wf_runs = [], wf_steps = [], wf_role_runs = [],
     wf_messages = [], wf_schedules = [], wf_minted = 0\<rparr>"

inductive wf_reach :: "(nat \<Rightarrow> id) \<Rightarrow> wf \<Rightarrow> bool" for mnt where
  reach_init: "wf_reach mnt (wf_init st)"
| reach_move: "wf_reach mnt w \<Longrightarrow> wf_move mnt w w' \<Longrightarrow> wf_reach mnt w'"

text \<open>The columns of a run that only the mailbox writes.\<close>

definition mail_cols :: "workflow_run \<Rightarrow> id \<times> nat \<times> nat \<times> nat \<times> string option \<times> string option" where
  "mail_cols r = (wr_id r, wr_message_sequence r, wr_handoff_streak r, wr_handoff_streak_max r,
     wr_handoff_last_from r, wr_handoff_last_to r)"

definition fresh_run :: "workflow_run \<Rightarrow> bool" where
  "fresh_run r \<longleftrightarrow> mail_cols r = (wr_id r, 0, 0, 0, None, None)"

definition step_ident :: "step_run \<Rightarrow> id \<times> id \<times> workflow_step" where
  "step_ident s = (sr_id s, sr_run_id s, sr_step s)"

section \<open>What a tick may write\<close>

text \<open>A tick of run \<open>rid\<close> writes the row of the run, its mailbox, the store and the id
  supply, inserts the steps of a plan, and updates step rows and role rows of ids in \<open>S\<close>.
  A predicate that survives these writes survives the tick, provided the ids of the run's own
  steps are in \<open>S\<close>. The first locale leaves the updates of steps and roles aside.\<close>

locale run_rows =
  fixes mnt :: "nat \<Rightarrow> id" and P :: "wf \<Rightarrow> bool" and rid :: id
  assumes P_store: "P w \<Longrightarrow> P (w\<lparr>wf_store := st\<rparr>)"
    and P_mint: "P w \<Longrightarrow> P (w\<lparr>wf_minted := Suc (wf_minted w)\<rparr>)"
    and P_runs: "P w \<Longrightarrow> (\<And>r. mail_cols (h r) = mail_cols r) \<Longrightarrow> (\<And>r. c r \<Longrightarrow> wr_id r = rid) \<Longrightarrow>
      P (w\<lparr>wf_runs := sql_update c h (wf_runs w)\<rparr>)"
    and P_emit: "P w \<Longrightarrow> P (emit_workflow_message rid from to kind payload w)"
    and P_insert: "P w \<Longrightarrow> we_mint env = mnt \<Longrightarrow> insert_step env rid step w = Some w' \<Longrightarrow> P w'"
begin

lemma P_update_run: "P w \<Longrightarrow> (\<And>r. mail_cols (h r) = mail_cols r) \<Longrightarrow> P (update_run rid h w)"
  unfolding update_run_def by (rule P_runs)

lemma P_run_status: "P w \<Longrightarrow> P (set_workflow_run_status rid st fin w)"
  unfolding set_workflow_run_status_def by (erule P_update_run) (simp add: mail_cols_def)

lemma P_run_plan: "P w \<Longrightarrow> P (set_workflow_run_plan rid plan w)"
  unfolding set_workflow_run_plan_def by (erule P_update_run) (simp add: mail_cols_def)

lemma P_spawn: "P w \<Longrightarrow> spawn env req w = Some (t, w') \<Longrightarrow> P w'"
  unfolding spawn_def mint_def by (auto intro!: P_store P_mint split: if_splits)

lemma P_settle: "P w \<Longrightarrow> P (settle_run env rid w)"
  by (simp add: settle_run_def Let_def P_run_status)

lemma P_park:
  assumes "wr_id run = rid" "P w"
  shows "P (park_run env run w)"
proof -
  have "P w \<Longrightarrow> P (fold (cancel_step_task env) ss w)" for ss w
    by (induction ss arbitrary: w) (auto simp: cancel_step_task_def intro: P_store split: option.splits)
  then show ?thesis using assms by (simp add: park_run_def P_run_status)
qed

lemma P_insert_steps: "P w \<Longrightarrow> we_mint env = mnt \<Longrightarrow> insert_steps env rid ss w = Some w' \<Longrightarrow> P w'"
proof (induction ss arbitrary: w)
  case (Cons s ss)
  then obtain w1 where "insert_step env rid s w = Some w1" "insert_steps env rid ss w1 = Some w'"
    by (auto split: option.splits)
  with Cons P_insert[of w env s w1] show ?case by blast
qed simp

lemma P_approve: "P w \<Longrightarrow> we_mint env = mnt \<Longrightarrow> P (snd (approve_workflow_plan env rid w))"
  by (auto simp: approve_workflow_plan_def Let_def mail_cols_def dest: P_insert_steps
      intro!: P_update_run split: option.splits sum.splits)

lemma run_view_id: "get_workflow_run w i = Some run \<Longrightarrow> wr_id run = i"
  by (auto simp: get_workflow_run_def run_view_def dest!: sql_first_SomeD)

end

locale run_closed = run_rows mnt P rid
  for mnt :: "nat \<Rightarrow> id" and P :: "wf \<Rightarrow> bool" and rid :: id +
  fixes S :: "id set"
  assumes P_own: "P w \<Longrightarrow> s \<in> set (wf_steps w) \<Longrightarrow> sr_run_id s = rid \<Longrightarrow> sr_id s \<in> S"
    and P_steps: "P w \<Longrightarrow> (\<And>s. step_ident (f s) = step_ident s) \<Longrightarrow> (\<And>s. q s \<Longrightarrow> sr_id s \<in> S) \<Longrightarrow>
      P (w\<lparr>wf_steps := sql_update q f (wf_steps w)\<rparr>)"
    and P_roles: "P w \<Longrightarrow> (\<And>rr. rr_step_run_id (g rr) = rr_step_run_id rr) \<Longrightarrow>
      (\<And>rr. p rr \<Longrightarrow> rr_step_run_id rr \<in> S) \<Longrightarrow>
      P (w\<lparr>wf_role_runs := sql_update p g (wf_role_runs w)\<rparr>)"
begin

lemma P_update_step:
  "P w \<Longrightarrow> sid \<in> S \<Longrightarrow> (\<And>s. step_ident (f s) = step_ident s) \<Longrightarrow> P (update_step sid f w)"
  unfolding update_step_def by (rule P_steps) auto

lemma ident_row_status: "step_ident (step_row_status now st s) = step_ident s"
  by (cases st) (simp_all add: step_ident_def)

lemma P_step_status: "P w \<Longrightarrow> sid \<in> S \<Longrightarrow> P (set_step_status now sid st w)"
  unfolding set_step_status_def by (erule P_update_step) (auto intro: ident_row_status)

lemma P_step_attempts: "P w \<Longrightarrow> sid \<in> S \<Longrightarrow> P (set_step_attempts sid n w)"
  unfolding set_step_attempts_def by (erule P_update_step) (auto simp: step_ident_def)

lemma P_role_status: "P w \<Longrightarrow> sid \<in> S \<Longrightarrow> P (set_role_run_status_by_step sid st w)"
  unfolding set_role_run_status_by_step_def by (erule P_roles) auto

lemma P_role_task: "P w \<Longrightarrow> sid \<in> S \<Longrightarrow> P (set_role_run_task sid tid w)"
  unfolding set_role_run_task_def Let_def by (intro P_store P_roles) auto

lemma P_both: "P w \<Longrightarrow> sid \<in> S \<Longrightarrow> P (set_both env sid st w)"
  unfolding set_both_def by (intro P_role_status P_step_status)

lemma P_cas_status:
  "P w \<Longrightarrow> sid \<in> S \<Longrightarrow> (\<And>s. step_ident (f s) = step_ident s) \<Longrightarrow> cas_status sid st f w = (b, w') \<Longrightarrow> P w'"
  unfolding cas_status_def by (auto intro: P_steps)

lemma P_cas_attempts: "P w \<Longrightarrow> sid \<in> S \<Longrightarrow> cas_attempts sid x y w = (b, w') \<Longrightarrow> P w'"
  unfolding cas_attempts_def by (auto intro!: P_steps simp: step_ident_def)

lemmas P_writes = P_run_status P_run_plan P_step_status P_step_attempts P_role_status P_role_task
  P_both P_emit P_store

text \<open>A step of the loop, whether it goes on or ends the tick.\<close>

fun flow_holds :: "tick_acc flow \<Rightarrow> bool" where
  "flow_holds (Go (m, created, w)) = P w"
| "flow_holds (Halt r w) = P w"

lemma P_wedged: "P w \<Longrightarrow> sr_id s \<in> S \<Longrightarrow> flow_holds (tick_wedged env s (m, created, w))"
  by (auto simp: tick_wedged_def Let_def step_ident_def intro!: P_steps)

lemma P_succeeded:
  assumes [simp]: "wr_id run = rid" and "P w" "sr_id s \<in> S"
  shows "flow_holds (tick_succeeded env run tid s (m, created, w))"
  using assms(2, 3)
  by (auto simp: tick_succeeded_def Let_def step_ident_def dest!: P_cas_status[rotated 3]
      split: prod.splits option.splits intro!: P_writes)

lemma P_rejected:
  assumes "P w" "sr_id s \<in> S" "sr_id ` set snap \<subseteq> S"
  shows "flow_holds (tick_rejected env run snap tid s (m, created, w))"
proof (cases "List.find (\<lambda>u. ws_id (sr_step u) = (case ws_depends_on (sr_step s) of [] \<Rightarrow> [] | d # _ \<Rightarrow> d)) snap")
  case None
  with assms show ?thesis by (simp add: tick_rejected_def P_both)
next
  case (Some u)
  then have u: "sr_id u \<in> S" using assms(3) by (auto simp: find_Some_iff)
  obtain b w1 where cas: "cas_attempts (sr_id u) (sr_attempts u) (sr_attempts u + 1) w = (b, w1)"
    by (cases "cas_attempts (sr_id u) (sr_attempts u) (sr_attempts u + 1) w")
  have "P w1" by (rule P_cas_attempts[OF assms(1) u cas])
  with Some cas u assms show ?thesis
    by (auto simp: tick_rejected_def Let_def split: option.splits intro!: P_writes intro: P_spawn)
qed

lemma P_failed:
  "P w \<Longrightarrow> sr_id s \<in> S \<Longrightarrow> sr_id ` set snap \<subseteq> S \<Longrightarrow> flow_holds (tick_failed env run snap tid s (m, created, w))"
  by (auto simp: tick_failed_def Let_def split: prod.splits option.splits
      intro!: P_writes P_rejected intro: P_cas_attempts P_spawn)

lemma P_cancelled: "P w \<Longrightarrow> sr_id s \<in> S \<Longrightarrow> flow_holds (tick_cancelled env s (m, created, w))"
  by (auto simp: tick_cancelled_def Let_def step_ident_def dest!: P_cas_status[rotated 3]
      split: prod.splits intro!: P_writes)

lemma P_pending: "P w \<Longrightarrow> sr_id s \<in> S \<Longrightarrow> flow_holds (tick_pending env run s (m, created, w))"
  by (auto simp: tick_pending_def Let_def step_ident_def dest!: P_cas_status[rotated 3]
      split: prod.splits option.splits intro!: P_writes intro: P_spawn)

lemma P_step:
  assumes [simp]: "wr_id run = rid" and "P w" "sr_id s \<in> S" "sr_id ` set snap \<subseteq> S"
  shows "flow_holds (tick_step env run snap s (m, created, w))"
  using assms(2-4) P_succeeded[OF assms(1)]
  by (auto simp: tick_step_def tick_running_def
      intro!: P_wedged P_failed P_cancelled P_pending
      split: workflow_step_status.splits option.splits task_status.splits)

lemma P_tick_steps:
  assumes "wr_id run = rid" "sr_id ` set snap \<subseteq> S"
  shows "flow_holds (Go acc) \<Longrightarrow> sr_id ` set ss \<subseteq> S \<Longrightarrow> flow_holds (tick_steps env run snap ss acc)"
proof (induction ss arbitrary: acc)
  case (Cons s ss)
  obtain m created w where acc: "acc = (m, created, w)" by (cases acc)
  have "flow_holds (tick_step env run snap s acc)"
    using Cons.prems P_step[OF assms(1) _ _ assms(2)] by (simp add: acc)
  then show ?case using Cons.IH Cons.prems by (auto split: flow.splits)
qed simp

lemma own_snapshot: "P w \<Longrightarrow> sr_id ` set (get_workflow_run_steps w rid) \<subseteq> S"
  using P_own by (auto simp: get_workflow_run_steps_def step_view_def)

lemma P_tick_loop:
  assumes [simp]: "wr_id run = rid" and "P w"
  shows "P (snd (tick_loop env run w))"
proof -
  let ?steps = "get_workflow_run_steps w rid"
  let ?m = "map_of (rev (map (\<lambda>s. (ws_id (sr_step s), sr_status s)) ?steps))"
  let ?fl = "tick_steps env run ?steps ?steps (?m, [], w)"
  have "flow_holds ?fl"
    using P_tick_steps[OF assms(1) own_snapshot[OF assms(2)], of "(?m, [], w)"] own_snapshot[OF assms(2)]
      assms(2) by simp
  then show ?thesis by (cases ?fl) (auto simp: tick_loop_def Let_def P_settle)
qed

lemma P_tick_active: "wr_id run = rid \<Longrightarrow> P w \<Longrightarrow> P (snd (tick_active env run w))"
  by (simp add: tick_active_def Let_def P_run_status P_park P_tick_loop split: option.splits)

lemma P_tick:
  assumes "P w" "we_mint env = mnt"
  shows "P (snd (tick_workflow_run env rid w))"
proof -
  have appr: "approve_workflow_plan env rid w = (r, w1) \<Longrightarrow> P (w1\<lparr>wf_store := st\<rparr>)" for r w1 st
    using P_approve[OF assms] by (simp add: P_store)
  have active: "get_workflow_run w2 rid = Some run \<Longrightarrow> P w2 \<Longrightarrow> P (snd (tick_active env run w2))" for w2 run
    using P_tick_active run_view_id by blast
  show ?thesis
    using assms P_approve[OF assms]
    by (auto simp: tick_workflow_run_def Let_def active appr split: option.splits prod.splits sum.splits)
qed

end

section \<open>Predicates every operation keeps\<close>

locale wf_rows =
  fixes mnt :: "nat \<Rightarrow> id" and P :: "wf \<Rightarrow> bool"
  assumes P_init: "P (wf_init st)"
    and P_store: "P w \<Longrightarrow> P (w\<lparr>wf_store := st\<rparr>)"
    and P_templates: "P w \<Longrightarrow> P (w\<lparr>wf_templates := ts\<rparr>)"
    and P_schedules: "P w \<Longrightarrow> P (w\<lparr>wf_schedules := scs\<rparr>)"
    and P_mint: "P w \<Longrightarrow> P (w\<lparr>wf_minted := Suc (wf_minted w)\<rparr>)"
    and P_runs: "P w \<Longrightarrow> (\<And>r. mail_cols (h r) = mail_cols r) \<Longrightarrow>
      P (w\<lparr>wf_runs := sql_update c h (wf_runs w)\<rparr>)"
    and P_emit: "P w \<Longrightarrow> P (emit_workflow_message rid from to kind payload w)"
    and P_rebuild: "P w \<Longrightarrow> P (rebuild_handoff_streaks w)"
    and P_insert: "P w \<Longrightarrow> we_mint env = mnt \<Longrightarrow> insert_step env rid step w = Some w' \<Longrightarrow> P w'"
    and P_new_run: "P w \<Longrightarrow> wr_id run = ''wfr-'' @ mnt (wf_minted w) \<Longrightarrow> fresh_run run \<Longrightarrow>
      P (w\<lparr>wf_minted := Suc (wf_minted w), wf_runs := wf_runs w @ [run]\<rparr>)"
begin

sublocale own: run_rows mnt P rid for rid
  by unfold_locales (auto intro: P_store P_mint P_runs P_emit P_insert)

lemmas P_update_run = own.P_update_run
lemmas P_insert_steps = own.P_insert_steps

lemma P_create_template:
  "P w \<Longrightarrow> P (snd (create_workflow_template env name steps budget w))"
  by (auto simp: create_workflow_template_def mint_def Let_def intro!: P_templates P_mint
      split: option.splits sum.splits)

lemma P_create_run:
  "P w \<Longrightarrow> we_mint env = mnt \<Longrightarrow> P (snd (create_workflow_run_full env tid req w))"
  by (auto simp: create_workflow_run_full_def new_run_def mint_def Let_def fresh_run_def mail_cols_def
      dest: P_insert_steps[rotated 2] intro!: P_new_run split: option.splits sum.splits)

lemma P_seq:
  "P (snd x) \<Longrightarrow> (\<And>t v. P v \<Longrightarrow> P (snd (G t v))) \<Longrightarrow>
     P (snd (case x of (Inl e, v) \<Rightarrow> (Inl e, v) | (Inr t, v) \<Rightarrow> G t v))"
  by (auto split: prod.splits sum.splits)

lemma P_assembly:
  assumes "P w" "we_mint env = mnt"
  shows "P (snd (create_assembly_run env areq plimit w))"
  unfolding create_assembly_run_def mint_def Let_def prod.case
  using assms
  by (auto split: sum.split intro!: P_seq P_create_template P_create_run P_mint P_update_run
      simp: mail_cols_def)

lemma P_create_schedule: "P w \<Longrightarrow> P (snd (create_workflow_schedule env tid body w))"
  by (auto simp: create_workflow_schedule_def mint_def Let_def intro!: P_schedules P_mint
      split: option.splits sum.splits)

lemma P_fire:
  assumes "P w" "we_mint env = mnt"
  shows "P (snd (tick_workflow_schedules env t w))"
proof -
  have run: "P w1 \<Longrightarrow> create_workflow_run env tid c r b w1 = (x, w2) \<Longrightarrow> P w2" for w1 tid c r b x w2
    using P_create_run[OF _ assms(2), of w1 tid] by (metis create_workflow_run_def snd_conv)
  have "P (snd acc) \<Longrightarrow> P (snd (fire_schedule env t s acc))" for s acc
    by (auto simp: fire_schedule_def Let_def P_schedules dest!: run[rotated]
        split: prod.splits sum.splits option.splits)
  then have "P (snd acc) \<Longrightarrow> P (snd (fold (fire_schedule env t) ss acc))" for ss acc
    by (induction ss arbitrary: acc) auto
  with assms(1) show ?thesis by (simp add: tick_workflow_schedules_def)
qed

end

text \<open>The three operations that update step rows are left to the instance, or follow when
  every such update is harmless.\<close>

locale wf_moves = wf_rows +
  assumes P_tick: "P w \<Longrightarrow> we_mint env = mnt \<Longrightarrow> P (snd (tick_workflow_run env rid w))"
    and P_cancel_run: "P w \<Longrightarrow> P (snd (cancel_workflow_run rid w))"
    and P_expiry: "P w \<Longrightarrow> P (snd (tick_approval_expiry now w))"
begin

theorem move_keeps: "wf_move mnt w w' \<Longrightarrow> P w \<Longrightarrow> P w'"
proof (induction rule: wf_move.induct)
  case (move_template env name steps budget w r w')
  then show ?case using P_create_template[of w env name steps budget] by simp
next
  case (move_run env tid req w r1 w')
  then show ?case using P_create_run[of w env tid req] by simp
next
  case (move_assembly env areq plimit w r2 w')
  then show ?case using P_assembly[of w env areq plimit] by simp
next
  case (move_approve env rid w r3 w')
  then show ?case using own.P_approve[of w env rid] by simp
next
  case (move_tick env rid w r4 w')
  then show ?case using P_tick[of w env rid] by simp
next
  case (move_cancel rid w b w')
  then show ?case using P_cancel_run[of w rid] by simp
next
  case (move_expiry now w n w')
  then show ?case using P_expiry[of w now] by simp
next
  case (move_schedule env tid body w r5 w')
  then show ?case using P_create_schedule[of w env tid body] by simp
next
  case (move_fire env t w ids w')
  then show ?case using P_fire[of w env t] by simp
qed (auto simp: delete_workflow_schedule_def intro: P_emit P_rebuild P_store P_schedules)

theorem reach_keeps: "wf_reach mnt w \<Longrightarrow> P w"
  by (induction rule: wf_reach.induct) (auto intro: P_init move_keeps)

end

locale wf_closed = wf_rows +
  assumes P_steps: "P w \<Longrightarrow> (\<And>s. step_ident (f s) = step_ident s) \<Longrightarrow>
      P (w\<lparr>wf_steps := sql_update q f (wf_steps w)\<rparr>)"
    and P_roles: "P w \<Longrightarrow> (\<And>rr. rr_step_run_id (g rr) = rr_step_run_id rr) \<Longrightarrow>
      P (w\<lparr>wf_role_runs := sql_update p g (wf_role_runs w)\<rparr>)"
begin

sublocale tick: run_closed mnt P rid UNIV for rid
  by unfold_locales (auto intro: P_steps P_roles)

lemmas P_update_step = tick.P_update_step[OF _ UNIV_I]

lemma P_cancel_closed: "P w \<Longrightarrow> P (snd (cancel_workflow_run rid w))"
proof -
  have one: "P w \<Longrightarrow> P (cancel_one_step s w)" for s w
    by (auto simp: cancel_one_step_def Let_def step_ident_def intro!: P_store P_update_step)
  have "P w \<Longrightarrow> P (fold cancel_one_step ss w)" for ss w
    by (induction ss arbitrary: w) (auto intro: one)
  moreover have "P w \<Longrightarrow> P (update_run rid (\<lambda>r. r\<lparr>wr_status := RunCancelled\<rparr>) w)" for w
    by (erule P_update_run) (simp add: mail_cols_def)
  ultimately show "P w \<Longrightarrow> P (snd (cancel_workflow_run rid w))"
    by (simp add: cancel_workflow_run_def split: option.splits)
qed

lemma P_block: "P w \<Longrightarrow> P (block_step_and_run sid w)"
proof -
  assume "P w"
  define w1 where "w1 = w\<lparr>wf_steps := sql_update
     (\<lambda>s. sr_id s = sid \<and> sr_status s \<notin> {StepSucceeded, StepFailed, StepBlocked, StepSkipped})
     (\<lambda>s. s\<lparr>sr_status := StepBlocked\<rparr>) (wf_steps w)\<rparr>"
  have "P w1" unfolding w1_def by (rule P_steps[OF \<open>P w\<close>]) (simp add: step_ident_def)
  then show ?thesis
    unfolding block_step_and_run_def w1_def[symmetric] Let_def
    by (auto simp: mail_cols_def intro!: P_runs split: option.split)
qed

lemma P_expiry_closed: "P w \<Longrightarrow> P (snd (tick_approval_expiry now w))"
proof -
  have one: "P (snd acc) \<Longrightarrow> P (snd (expire_one now ap acc))" for ap acc
    by (auto simp: expire_one_def intro!: P_store P_block split: prod.splits bool.splits option.splits)
  have "P (snd acc) \<Longrightarrow> P (snd (fold (expire_one now) aps acc))" for aps acc
    by (induction aps arbitrary: acc) (use one in \<open>simp_all\<close>)
  from this[of "(0, w)"] show "P w \<Longrightarrow> P (snd (tick_approval_expiry now w))"
    by (simp add: tick_approval_expiry_def)
qed

sublocale wf_moves mnt P
  by unfold_locales (auto intro: tick.P_tick P_cancel_closed P_expiry_closed)

end

section \<open>Integrity of the ids\<close>

text \<open>Step rows have distinct ids, a run has one row per step id, and every step has
  exactly one role row.\<close>

definition minted_id :: "string \<Rightarrow> (nat \<Rightarrow> id) \<Rightarrow> nat \<Rightarrow> id \<Rightarrow> bool" where
  "minted_id p mnt n i \<longleftrightarrow> (\<exists>k < n. i = p @ mnt k)"

lemma minted_id_mono: "minted_id p mnt n i \<Longrightarrow> n \<le> n' \<Longrightarrow> minted_id p mnt n' i"
  by (auto simp: minted_id_def intro: less_le_trans)

lemma minted_id_fresh: "inj mnt \<Longrightarrow> \<not> minted_id p mnt n (p @ mnt n)"
  by (auto simp: minted_id_def dest: injD)

lemma minted_id_new: "n < n' \<Longrightarrow> minted_id p mnt n' (p @ mnt n)"
  by (auto simp: minted_id_def)

definition ids_inv :: "(nat \<Rightarrow> id) \<Rightarrow> wf \<Rightarrow> bool" where
  "ids_inv mnt w \<longleftrightarrow>
     distinct (map sr_id (wf_steps w)) \<and>
     distinct (map (\<lambda>s. (sr_run_id s, ws_id (sr_step s))) (wf_steps w)) \<and>
     (\<forall>i \<in> sr_id ` set (wf_steps w). minted_id ''wfs-'' mnt (wf_minted w) i) \<and>
     map rr_step_run_id (wf_role_runs w) = map sr_id (wf_steps w)"

lemma ident_keys:
  assumes "\<And>s. step_ident (f s) = step_ident s"
  shows "map sr_id (sql_update q f xs) = map sr_id xs"
    and "map (\<lambda>s. (sr_run_id s, ws_id (sr_step s))) (sql_update q f xs) =
         map (\<lambda>s. (sr_run_id s, ws_id (sr_step s))) xs"
    and "map step_ident (sql_update q f xs) = map step_ident xs"
  using assms by (auto simp: step_ident_def intro!: map_sql_update)

lemma ids_inv_cong:
  assumes "map sr_id (wf_steps w') = map sr_id (wf_steps w)"
    and "map (\<lambda>s. (sr_run_id s, ws_id (sr_step s))) (wf_steps w') =
         map (\<lambda>s. (sr_run_id s, ws_id (sr_step s))) (wf_steps w)"
    and "map rr_step_run_id (wf_role_runs w') = map rr_step_run_id (wf_role_runs w)"
    and "wf_minted w \<le> wf_minted w'" "ids_inv mnt w"
  shows "ids_inv mnt w'"
proof -
  have "sr_id ` set (wf_steps w') = sr_id ` set (wf_steps w)"
    using assms(1) by (metis list.set_map)
  with assms show ?thesis
    unfolding ids_inv_def by (metis minted_id_mono)
qed

lemma emit_tables [simp]:
  "wf_steps (emit_workflow_message rid from to k p w) = wf_steps w"
  "wf_role_runs (emit_workflow_message rid from to k p w) = wf_role_runs w"
  "wf_minted (emit_workflow_message rid from to k p w) = wf_minted w"
  "wf_store (emit_workflow_message rid from to k p w) = wf_store w"
  "wf_templates (emit_workflow_message rid from to k p w) = wf_templates w"
  by (simp_all add: emit_workflow_message_def update_run_def Let_def split: option.splits)

lemma insert_stepD:
  assumes "insert_step env rid step w = Some w'"
  shows "wf_steps w' = wf_steps w @ [\<lparr>sr_id = ''wfs-'' @ we_mint env (wf_minted w), sr_run_id = rid,
       sr_step = step, sr_attempts = 0, sr_status = StepPending, sr_created_at = we_now env,
       sr_started_at = None, sr_finished_at = None\<rparr>]"
    and "wf_role_runs w' = wf_role_runs w @ [\<lparr>rr_id = ''wrr-'' @ we_mint env (Suc (wf_minted w)),
       rr_step_run_id = ''wfs-'' @ we_mint env (wf_minted w), rr_role = ws_role step,
       rr_task_id = None, rr_status = StepPending\<rparr>]"
    and "wf_minted w' = wf_minted w + 2" "wf_runs w' = wf_runs w" "wf_messages w' = wf_messages w"
    and "wf_store w' = wf_store w" "wf_templates w' = wf_templates w"
    and "(rid, ws_id step) \<notin> (\<lambda>s. (sr_run_id s, ws_id (sr_step s))) ` set (wf_steps w)"
  using assms
  by (auto simp: insert_step_def mint_def Let_def sql_count_pos split: if_splits)

lemma ids_insert:
  assumes "inj mnt" "ids_inv mnt w" "we_mint env = mnt" "insert_step env rid step w = Some w'"
  shows "ids_inv mnt w'"
proof -
  note d = insert_stepD[OF assms(4)]
  let ?i = "''wfs-'' @ mnt (wf_minted w)"
  have "?i \<notin> sr_id ` set (wf_steps w)"
    using assms(2) minted_id_fresh[OF assms(1)] unfolding ids_inv_def by blast
  moreover have "minted_id ''wfs-'' mnt (wf_minted w + 2) ?i" by (rule minted_id_new) simp
  moreover have "\<forall>i \<in> sr_id ` set (wf_steps w). minted_id ''wfs-'' mnt (wf_minted w + 2) i"
    using assms(2) minted_id_mono unfolding ids_inv_def by (meson le_add1)
  ultimately show ?thesis
    using assms(2, 3) d(8) unfolding ids_inv_def d(1-3) by simp
qed

interpretation ids: wf_closed mnt "\<lambda>w. inj mnt \<longrightarrow> ids_inv mnt w" for mnt
proof (unfold_locales, goal_cases)
  case (1 st) show ?case by (simp add: ids_inv_def wf_init_def)
next
  case (11 w f q)
  then show ?case by (auto intro!: ids_inv_cong[of _ w] simp: ident_keys)
next
  case (12 w g p)
  then show ?case by (auto intro!: ids_inv_cong[of _ w] map_sql_update)
next
  case (9 w env rid step w')
  then show ?case using ids_insert by blast
qed (auto intro: ids_inv_cong simp: rebuild_handoff_streaks_def)

end
