(* ===== verification/WorkflowMail.thy ===== *)
theory WorkflowMail
  imports WorkflowReach
begin

text \<open>
  The mailbox of a run: the streak columns that every message updates in place hold what a
  replay of the whole history computes, so the replay at startup changes nothing, and the
  messages of a run are numbered without a gap.
\<close>

definition streak_step :: "string \<times> string \<Rightarrow> nat \<times> nat \<times> string option \<times> string option \<Rightarrow>
    nat \<times> nat \<times> string option \<times> string option" where
  "streak_step x acc = replay_streak [x] acc"

lemma replay_streak_append: "replay_streak (xs @ ys) acc = replay_streak ys (replay_streak xs acc)"
  by (induction xs acc rule: replay_streak.induct) (auto simp: Let_def)

definition streak_ok :: "nat \<times> nat \<times> string option \<times> string option \<Rightarrow> bool" where
  "streak_ok acc = (case acc of (longest, cur, lf, lt) \<Rightarrow>
     cur \<le> longest \<and> (lt \<noteq> None \<and> lt \<noteq> Some ''*'' \<longrightarrow> 0 < cur))"

lemma replay_streak_ok: "streak_ok acc \<Longrightarrow> streak_ok (replay_streak xs acc)"
  by (induction xs acc rule: replay_streak.induct) (auto simp: streak_ok_def Let_def)

definition streak_cols :: "workflow_run \<Rightarrow> nat \<times> nat \<times> string option \<times> string option" where
  "streak_cols r = (wr_handoff_streak_max r, wr_handoff_streak r, wr_handoff_last_from r, wr_handoff_last_to r)"

lemma advance_streak_replays:
  "streak_ok (streak_cols r) \<Longrightarrow>
     streak_cols (advance_streak from to r) = replay_streak [(from, to)] (streak_cols r)"
  by (auto simp: streak_cols_def advance_streak_def next_streak_def streak_ok_def Let_def)

definition mail_row :: "workflow_message list \<Rightarrow> workflow_run \<Rightarrow> bool" where
  "mail_row ms r \<longleftrightarrow>
     map wm_sequence ms = [1..<Suc (wr_message_sequence r)] \<and>
     streak_cols r = replay_streak (map (\<lambda>m. (wm_from m, wm_to m)) ms) (0, 0, None, None)"

definition of_run :: "id \<Rightarrow> wf \<Rightarrow> workflow_message list" where
  "of_run rid w = filter (\<lambda>m. wm_run_id m = rid) (wf_messages w)"

definition mail_inv :: "(nat \<Rightarrow> id) \<Rightarrow> wf \<Rightarrow> bool" where
  "mail_inv mnt w \<longleftrightarrow>
     distinct (map wr_id (wf_runs w)) \<and>
     (\<forall>i \<in> wr_id ` set (wf_runs w). minted_id ''wfr-'' mnt (wf_minted w) i) \<and>
     wm_run_id ` set (wf_messages w) \<subseteq> wr_id ` set (wf_runs w) \<and>
     (\<forall>r \<in> set (wf_runs w). mail_row (of_run (wr_id r) w) r)"

lemma mail_cols_row: "mail_cols r' = mail_cols r \<Longrightarrow> mail_row ms r' = mail_row ms r \<and> wr_id r' = wr_id r"
  by (simp add: mail_cols_def mail_row_def streak_cols_def)

lemma mail_inv_cong:
  assumes "map mail_cols (wf_runs w') = map mail_cols (wf_runs w)" "wf_messages w' = wf_messages w"
    and "wf_minted w \<le> wf_minted w'" "mail_inv mnt w"
  shows "mail_inv mnt w'"
proof -
  have id: "fst (mail_cols r) = wr_id r" for r by (simp add: mail_cols_def)
  have ids: "map wr_id (wf_runs w') = map wr_id (wf_runs w)"
    using arg_cong[OF assms(1), of "map fst"] by (simp add: comp_def id)
  then have idset: "wr_id ` set (wf_runs w') = wr_id ` set (wf_runs w)" by (metis list.set_map)
  have rows: "\<forall>r' \<in> set (wf_runs w'). mail_row (of_run (wr_id r') w') r'"
  proof
    fix r' assume "r' \<in> set (wf_runs w')"
    then have "mail_cols r' \<in> set (map mail_cols (wf_runs w))" unfolding assms(1)[symmetric] by simp
    then obtain r where "r \<in> set (wf_runs w)" "mail_cols r' = mail_cols r" by auto
    with assms(2, 4) mail_cols_row[of r' r] show "mail_row (of_run (wr_id r') w') r'"
      by (auto simp: mail_inv_def of_run_def)
  qed
  have "\<forall>i \<in> wr_id ` set (wf_runs w). minted_id ''wfr-'' mnt (wf_minted w') i"
    using assms(3, 4) minted_id_mono unfolding mail_inv_def by meson
  moreover have "distinct (map wr_id (wf_runs w))" "wm_run_id ` set (wf_messages w) \<subseteq> wr_id ` set (wf_runs w)"
    using assms(4) by (simp_all add: mail_inv_def)
  ultimately show ?thesis
    unfolding mail_inv_def ids idset assms(2) using rows by (intro conjI) assumption+
qed

lemma mail_new_run:
  assumes "inj mnt" "mail_inv mnt w" "wr_id run = ''wfr-'' @ mnt (wf_minted w)" "fresh_run run"
  shows "mail_inv mnt (w\<lparr>wf_minted := Suc (wf_minted w), wf_runs := wf_runs w @ [run]\<rparr>)"
proof -
  have new: "wr_id run \<notin> wr_id ` set (wf_runs w)"
    using assms(2) minted_id_fresh[OF assms(1)] unfolding mail_inv_def assms(3) by blast
  then have "of_run (wr_id run) w = []"
  proof -
    have "wm_run_id ` set (wf_messages w) \<subseteq> wr_id ` set (wf_runs w)" using assms(2) by (simp add: mail_inv_def)
    then have "\<forall>m \<in> set (wf_messages w). wm_run_id m \<noteq> wr_id run"
      using new by (metis imageI subsetD)
    then show ?thesis unfolding of_run_def filter_empty_conv .
  qed
  then have row: "mail_row (of_run (wr_id run) w) run"
    using assms(4) by (simp add: mail_row_def fresh_run_def mail_cols_def streak_cols_def)
  moreover have "minted_id ''wfr-'' mnt (Suc (wf_minted w)) (wr_id run)"
    unfolding assms(3) by (rule minted_id_new) simp
  moreover have "\<forall>i \<in> wr_id ` set (wf_runs w). minted_id ''wfr-'' mnt (Suc (wf_minted w)) i"
    using assms(2) minted_id_mono unfolding mail_inv_def by (meson le_SucI order_refl)
  moreover have "distinct (map wr_id (wf_runs w))" "wm_run_id ` set (wf_messages w) \<subseteq> wr_id ` set (wf_runs w)"
    "\<forall>r \<in> set (wf_runs w). mail_row (of_run (wr_id r) w) r"
    using assms(2) by (simp_all add: mail_inv_def)
  ultimately show ?thesis
    unfolding mail_inv_def using new row
    by (intro conjI) (simp_all add: of_run_def subset_insertI2)
qed

lemma sql_first_after_update:
  "(\<And>r. p (f r) = p r) \<Longrightarrow> sql_first p (sql_update p f rows) = map_option f (sql_first p rows)"
  by (induction rows) (auto simp: sql_first_def)

lemma emit_none:
  "sql_first (\<lambda>r. wr_id r = rid) (wf_runs w) = None \<Longrightarrow> emit_workflow_message rid from to k p w = w"
  by (simp add: emit_workflow_message_def update_run_def sql_first_after_update)

lemma emit_some:
  assumes "sql_first (\<lambda>r. wr_id r = rid) (wf_runs w) = Some r0"
  shows "wf_runs (emit_workflow_message rid from to k p w) =
      map (\<lambda>r. if wr_id r = rid
        then advance_streak from to (r\<lparr>wr_message_sequence := wr_message_sequence r + 1\<rparr>) else r) (wf_runs w)"
    and "wf_messages (emit_workflow_message rid from to k p w) = wf_messages w @
      [\<lparr>wm_run_id = rid, wm_from = from, wm_to = to, wm_kind = k, wm_payload = p,
        wm_sequence = wr_message_sequence r0 + 1\<rparr>]"
proof -
  let ?f = "\<lambda>r::workflow_run. r\<lparr>wr_message_sequence := wr_message_sequence r + 1\<rparr>"
  have first: "sql_first (\<lambda>r. wr_id r = rid) (sql_update (\<lambda>r. wr_id r = rid) ?f (wf_runs w)) = Some (?f r0)"
    using assms by (simp add: sql_first_after_update)
  have twice: "sql_update (\<lambda>r. wr_id r = rid) g (sql_update (\<lambda>r. wr_id r = rid) ?f rs) =
      map (\<lambda>r. if wr_id r = rid then g (?f r) else r) rs" for g rs
    by (simp add: sql_update_def)
  show "wf_runs (emit_workflow_message rid from to k p w) =
      map (\<lambda>r. if wr_id r = rid then advance_streak from to (?f r) else r) (wf_runs w)"
    using first twice by (simp add: emit_workflow_message_def update_run_def Let_def)
  show "wf_messages (emit_workflow_message rid from to k p w) = wf_messages w @
      [\<lparr>wm_run_id = rid, wm_from = from, wm_to = to, wm_kind = k, wm_payload = p,
        wm_sequence = wr_message_sequence r0 + 1\<rparr>]"
    using first by (simp add: emit_workflow_message_def update_run_def Let_def)
qed

lemma mail_emit:
  assumes "mail_inv mnt w"
  shows "mail_inv mnt (emit_workflow_message rid from to k p w)"
proof -
  show ?thesis
  proof (cases "sql_first (\<lambda>r. wr_id r = rid) (wf_runs w)")
    case None
    with assms show ?thesis by (simp add: emit_none)
  next
    case (Some r0)
    note runs = emit_some(1)[OF Some, of "from" to k p] and msgs = emit_some(2)[OF Some, of "from" to k p]
    let ?adv = "\<lambda>r. if wr_id r = rid
      then advance_streak from to (r\<lparr>wr_message_sequence := wr_message_sequence r + 1\<rparr>) else r"
    have id: "wr_id (?adv r) = wr_id r" for r by (simp add: advance_streak_def)
    have r0: "r0 \<in> set (wf_runs w)" "wr_id r0 = rid" using sql_first_SomeD[OF Some] by auto
    have row: "mail_row (of_run (wr_id (?adv r)) (emit_workflow_message rid from to k p w)) (?adv r)"
      if r: "r \<in> set (wf_runs w)" for r
    proof (cases "wr_id r = rid")
      case True
      then have "r = r0" using assms r r0 by (auto simp: mail_inv_def distinct_map dest: inj_onD)
      have old: "mail_row (of_run rid w) r0" using assms r0 by (auto simp: mail_inv_def)
      have "streak_ok (streak_cols r0)"
        using old replay_streak_ok[of "(0, 0, None, None)"] by (simp add: mail_row_def streak_ok_def)
      then have "streak_cols (?adv r) = replay_streak [(from, to)] (streak_cols r0)"
        using advance_streak_replays[of "r0\<lparr>wr_message_sequence := wr_message_sequence r0 + 1\<rparr>" "from" to]
          True \<open>r = r0\<close> by (simp add: streak_cols_def)
      moreover have "of_run rid (emit_workflow_message rid from to k p w) = of_run rid w @
          [\<lparr>wm_run_id = rid, wm_from = from, wm_to = to, wm_kind = k, wm_payload = p,
            wm_sequence = wr_message_sequence r0 + 1\<rparr>]"
        by (simp add: of_run_def msgs)
      moreover have "wr_message_sequence (?adv r) = wr_message_sequence r0 + 1"
        using True \<open>r = r0\<close> by (simp add: advance_streak_def)
      moreover have "wr_id (?adv r) = rid" using id[of r] True by (simp only:)
      moreover have "[1..<Suc (Suc n)] = [1..<Suc n] @ [Suc n]" for n by (rule upt_Suc_append) simp
      ultimately show ?thesis
        using old by (simp only: mail_row_def) (simp add: replay_streak_append del: upt_Suc)
    next
      case False
      then show ?thesis using assms r by (simp add: mail_inv_def of_run_def msgs)
    qed
    have ids: "map wr_id (map ?adv (wf_runs w)) = map wr_id (wf_runs w)"
      using id by (simp only: map_map comp_def)
    have idset: "wr_id ` set (map ?adv (wf_runs w)) = wr_id ` set (wf_runs w)"
      using arg_cong[OF ids, of set] by (simp only: list.set_map)
    show ?thesis
      unfolding mail_inv_def runs ids idset emit_tables
    proof (intro conjI)
      show "wm_run_id ` set (wf_messages (emit_workflow_message rid from to k p w)) \<subseteq> wr_id ` set (wf_runs w)"
        using assms r0 by (auto simp: mail_inv_def msgs)
      show "\<forall>r \<in> set (map ?adv (wf_runs w)).
          mail_row (of_run (wr_id r) (emit_workflow_message rid from to k p w)) r"
        using row unfolding set_map by (intro ballI) (elim imageE, simp only:)
    qed (use assms in \<open>simp_all add: mail_inv_def\<close>)
  qed
qed

lemma mail_rebuild:
  assumes "mail_inv mnt w"
  shows "rebuild_handoff_streaks w = w"
proof -
  have "rebuild_run w r = r" if r: "r \<in> set (wf_runs w)" for r
  proof -
    have row: "mail_row (of_run (wr_id r) w) r" using assms r by (simp add: mail_inv_def)
    then have "sorted (map wm_sequence (of_run (wr_id r) w))" by (simp add: mail_row_def del: upt_Suc)
    then have "run_messages w (wr_id r) = of_run (wr_id r) w"
      by (simp add: run_messages_def of_run_def sorted_sort_id sort_key_id_if_sorted)
    with row show ?thesis
      by (auto simp: rebuild_run_def mail_row_def streak_cols_def split: prod.splits)
  qed
  then have "sql_update q (rebuild_run w) (wf_runs w) = wf_runs w" for q
    by (auto simp: sql_update_def intro: map_idI)
  then show ?thesis by (simp add: rebuild_handoff_streaks_def)
qed

interpretation mail: wf_closed mnt "\<lambda>w. inj mnt \<longrightarrow> mail_inv mnt w" for mnt
proof (unfold_locales, goal_cases)
  case (1 st) show ?case by (simp add: mail_inv_def wf_init_def)
next
  case (6 w h c)
  then show ?case by (auto intro!: mail_inv_cong[of _ w] map_sql_update)
next
  case (7 w rid fr tt k p)
  then show ?case using mail_emit by blast
next
  case (8 w)
  then show ?case using mail_rebuild[of mnt w] by auto
next
  case (9 w env rid step w')
  then show ?case by (auto intro!: mail_inv_cong[of _ w] dest: insert_stepD)
next
  case (10 w run)
  then show ?case using mail_new_run by blast
qed (auto intro: mail_inv_cong)

text \<open>The circuit breaker's columns are exact. In every reachable state of the
  workflow engine the streak columns that each message updates in place equal what a replay
  of the run's whole history yields, so the replay at startup is the identity, and the
  messages of a run are numbered \<open>1, 2, ...\<close> without a gap up to the stored sequence.\<close>

theorem handoff_columns_exact:
  assumes "inj mnt" "wf_reach mnt w"
  shows "rebuild_handoff_streaks w = w \<and>
    (\<forall>r \<in> set (wf_runs w). map wm_sequence (filter (\<lambda>m. wm_run_id m = wr_id r) (wf_messages w))
        = [1..<Suc (wr_message_sequence r)] \<and>
      workflow_message_count w (wr_id r) = wr_message_sequence r mod 2 ^ 32)"
proof -
  have inv: "mail_inv mnt w" using mail.reach_keeps[of mnt w] assms by blast
  have "map wm_sequence (filter (\<lambda>m. wm_run_id m = wr_id r) (wf_messages w))
      = [1..<Suc (wr_message_sequence r)]" if "r \<in> set (wf_runs w)" for r
    using inv that by (simp add: mail_inv_def mail_row_def of_run_def)
  moreover from this have "sql_count (\<lambda>m. wm_run_id m = wr_id r) (wf_messages w) = wr_message_sequence r"
    if "r \<in> set (wf_runs w)" for r
    using that by (metis sql_count_def length_map length_upt diff_Suc_1)
  ultimately show ?thesis using mail_rebuild[OF inv] by (simp add: workflow_message_count_def)
qed

section \<open>A sample run\<close>

definition demo_mint :: "nat \<Rightarrow> id" where
  "demo_mint k = replicate k (CHR ''x'')"

definition demo_env :: "time \<Rightarrow> wf_env" where
  "demo_env t = \<lparr>we_now = t, we_mint = demo_mint, we_create_ok = (\<lambda>_. True), we_order = (\<lambda>xs. xs),
     we_json_plan = (\<lambda>_. Inl ''no JSON''), we_yaml_plan = (\<lambda>_. Inl ''no YAML''),
     we_handoff = (\<lambda>_. None), we_metric = (\<lambda>_. (0, 0))\<rparr>"

lemma demo_mint_inj: "inj demo_mint"
  by (auto simp: demo_mint_def inj_def dest: arg_cong[of _ _ length])

lemma demo_env_mint [simp]: "we_mint (demo_env t) = demo_mint"
  by (simp add: demo_env_def)

definition demo_defined :: wf where
  "demo_defined = snd (create_workflow_template (demo_env 0) ''demo'' diamond None (wf_init empty_store))"

definition demo_run :: id where
  "demo_run = ''wfr-x''"

definition demo_created :: wf where
  "demo_created = snd (create_workflow_run_full (demo_env 0) ''wft-'' default_request demo_defined)"

definition demo_mailed :: wf where
  "demo_mailed = emit_workflow_message demo_run ''a'' ''b'' Note ''again''
     (emit_workflow_message demo_run ''a'' ''b'' Note ''please'' demo_created)"

lemma demo_reach: "wf_reach demo_mint demo_defined" "wf_reach demo_mint demo_created"
  "wf_reach demo_mint demo_mailed"
proof -
  show d: "wf_reach demo_mint demo_defined"
    unfolding demo_defined_def
    by (rule reach_move[OF reach_init move_template[OF demo_env_mint surjective_pairing]])
  show c: "wf_reach demo_mint demo_created"
    unfolding demo_created_def
    by (rule reach_move[OF d move_run[OF demo_env_mint surjective_pairing]])
  show "wf_reach demo_mint demo_mailed"
    unfolding demo_mailed_def by (intro reach_move[OF _ move_emit] c)
qed

lemma demo_defined_eq: "demo_defined = (wf_init empty_store)\<lparr>wf_minted := 1, wf_templates :=
    [\<lparr>wt_id = ''wft-'', wt_name = ''demo'', wt_steps = diamond, wt_budget = None, wt_created_at = 0\<rparr>]\<rparr>"
proof -
  have "validate_workflow_dag (we_order (demo_env 0)) diamond = Some (Inr ())"
    by (simp add: demo_env_def diamond_def validate_workflow_dag_def edges_def bump_counter_def
        drop_counter_def push_adj_def)
  then show ?thesis
    by (simp add: demo_defined_def create_workflow_template_def mint_def demo_mint_def demo_env_def wf_init_def
        Let_def)
qed

definition fresh_row :: "id \<Rightarrow> workflow_step \<Rightarrow> step_run" where
  "fresh_row i s = \<lparr>sr_id = i, sr_run_id = demo_run, sr_step = s, sr_attempts = 0, sr_status = StepPending,
     sr_created_at = 0, sr_started_at = None, sr_finished_at = None\<rparr>"

definition fresh_role :: "id \<Rightarrow> id \<Rightarrow> role_run" where
  "fresh_role i s = \<lparr>rr_id = i, rr_step_run_id = s, rr_role = Worker, rr_task_id = None, rr_status = StepPending\<rparr>"

definition demo_row :: workflow_run where
  "demo_row = \<lparr>wr_id = demo_run, wr_template_id = ''wft-'', wr_request = default_request,
     wr_status = RunPending, wr_assembly = False, wr_adapter = None, wr_plan = None,
     wr_created_at = 0, wr_finished_at = None, wr_message_sequence = 0, wr_handoff_streak = 0,
     wr_handoff_streak_max = 0, wr_handoff_last_from = None, wr_handoff_last_to = None\<rparr>"

lemma demo_created_eq: "demo_created = demo_defined\<lparr>wf_minted := 10, wf_runs := [demo_row],
    wf_steps := [fresh_row ''wfs-xx'' (plain_step ''a'' []), fresh_row ''wfs-xxxx'' (plain_step ''b'' [''a'']),
      fresh_row ''wfs-xxxxxx'' (plain_step ''c'' [''a'']),
      fresh_row ''wfs-xxxxxxxx'' (plain_step ''d'' [''b'', ''c''])],
    wf_role_runs := [fresh_role ''wrr-xxx'' ''wfs-xx'', fresh_role ''wrr-xxxxx'' ''wfs-xxxx'',
      fresh_role ''wrr-xxxxxxx'' ''wfs-xxxxxx'', fresh_role ''wrr-xxxxxxxxx'' ''wfs-xxxxxxxx'']\<rparr>"
  unfolding demo_created_def demo_defined_eq
  by (simp add: create_workflow_run_full_def new_run_def validate_github_refs_def default_request_def
      get_workflow_template_def sql_first_def insert_step_def mint_def Let_def diamond_def wf_init_def
      demo_env_def demo_mint_def fresh_row_def fresh_role_def demo_row_def demo_run_def numeral_eq_Suc)

lemma demo_mailed_runs: "map streak_cols (wf_runs demo_mailed) = [(2, 2, Some ''a'', Some ''b'')]"
  by (simp add: demo_mailed_def demo_created_eq emit_workflow_message_def update_run_def Let_def
      sql_first_def demo_row_def advance_streak_def next_streak_def streak_cols_def)

theorem handoff_columns_exact_witness:
  "inj demo_mint \<and> wf_reach demo_mint demo_mailed \<and> rebuild_handoff_streaks demo_mailed = demo_mailed \<and>
   map streak_cols (wf_runs demo_mailed) = [(2, 2, Some ''a'', Some ''b'')]"
  using demo_mint_inj demo_reach(3) handoff_columns_exact[of demo_mint demo_mailed] demo_mailed_runs by blast

end
