(* ===== verification/WorkflowIdle.thy ===== *)
theory WorkflowIdle
  imports WorkflowMail
begin

text \<open>
  A tick touches only its own run, and what follows for runs that nobody ticks: the
  background ticker lists running runs, completions tick the run of the completed task, and
  schedules only create rows, so a pending run is started by hand or not at all.
\<close>

section \<open>A tick leaves other runs alone\<close>

definition run_rows :: "id \<Rightarrow> wf \<Rightarrow> workflow_run list" where
  "run_rows rid w = filter (\<lambda>r. wr_id r = rid) (wf_runs w)"

definition step_rows :: "id \<Rightarrow> wf \<Rightarrow> step_run list" where
  "step_rows rid w = filter (\<lambda>s. sr_run_id s = rid) (wf_steps w)"

definition role_rows :: "id set \<Rightarrow> wf \<Rightarrow> role_run list" where
  "role_rows Q w = filter (\<lambda>rr. rr_step_run_id rr \<in> Q) (wf_role_runs w)"

definition step_ids :: "id \<Rightarrow> wf \<Rightarrow> id set" where
  "step_ids rid w = sr_id ` set (step_rows rid w)"

definition same_run :: "(nat \<Rightarrow> id) \<Rightarrow> id \<Rightarrow> wf \<Rightarrow> wf \<Rightarrow> bool" where
  "same_run mnt rid w0 w \<longleftrightarrow> ids_inv mnt w \<and> run_rows rid w = run_rows rid w0 \<and>
     step_rows rid w = step_rows rid w0 \<and>
     role_rows (step_ids rid w0) w = role_rows (step_ids rid w0) w0"

lemma filter_sql_update:
  "(\<And>r. q (f r) = q r) \<Longrightarrow> (\<And>r. r \<in> set xs \<Longrightarrow> q r \<Longrightarrow> \<not> p r) \<Longrightarrow>
     filter q (sql_update p f xs) = filter q xs"
  by (induction xs) auto

lemma same_run_update:
  assumes "same_run mnt rid w0 w" "ids_inv mnt w'"
    and "run_rows rid w' = run_rows rid w" "step_rows rid w' = step_rows rid w"
    and "role_rows (step_ids rid w0) w' = role_rows (step_ids rid w0) w"
  shows "same_run mnt rid w0 w'"
  using assms by (simp add: same_run_def)

lemma same_run_insert:
  assumes same: "same_run mnt rid0 w0 w" and "inj mnt" "rid \<noteq> rid0" "we_mint env = mnt"
    and ins: "insert_step env rid step w = Some w'"
  shows "same_run mnt rid0 w0 w'"
proof (rule same_run_update[OF same])
  note d = insert_stepD[OF ins]
  have inv: "ids_inv mnt w" and rows: "step_rows rid0 w = step_rows rid0 w0"
    using same by (simp_all add: same_run_def)
  show "ids_inv mnt w'" using ids_insert[OF assms(2) inv assms(4) ins] .
  have "''wfs-'' @ mnt (wf_minted w) \<notin> sr_id ` set (wf_steps w)"
    using inv minted_id_fresh[OF assms(2)] unfolding ids_inv_def by blast
  moreover have "step_ids rid0 w \<subseteq> sr_id ` set (wf_steps w)"
    by (auto simp: step_ids_def step_rows_def)
  ultimately have "''wfs-'' @ mnt (wf_minted w) \<notin> step_ids rid0 w0"
    using rows unfolding step_ids_def by auto
  then show "role_rows (step_ids rid0 w0) w' = role_rows (step_ids rid0 w0) w"
    by (simp add: role_rows_def d(2) assms(4))
qed (use assms insert_stepD[OF ins] in \<open>simp_all add: run_rows_def step_rows_def\<close>)

interpretation other: run_closed mnt "\<lambda>w. inj mnt \<and> rid \<noteq> rid0 \<and> same_run mnt rid0 w0 w"
    rid "- step_ids rid0 w0" for mnt rid rid0 w0
proof (unfold_locales, goal_cases)
  case (6 w s)
  then have "step_ids rid0 w0 = step_ids rid0 w" "ids_inv mnt w" by (simp_all add: same_run_def step_ids_def)
  moreover have "sr_id s \<notin> step_ids rid0 w"
  proof
    assume "sr_id s \<in> step_ids rid0 w"
    then obtain s' where "s' \<in> set (wf_steps w)" "sr_run_id s' = rid0" "sr_id s' = sr_id s"
      by (auto simp: step_ids_def step_rows_def)
    with 6 \<open>ids_inv mnt w\<close> show False by (auto simp: ids_inv_def distinct_map dest!: inj_onD)
  qed
  ultimately show ?case by simp
next
  case (7 w f q)
  have "\<not> q s" if "s \<in> set (wf_steps w)" "sr_run_id s = rid0" for s
  proof -
    have "sr_id s \<in> step_ids rid0 w" using that by (auto simp: step_ids_def step_rows_def)
    with 7 show ?thesis by (auto simp: same_run_def step_ids_def)
  qed
  moreover have "sr_run_id (f s) = sr_run_id s" for s using 7(2)[of s] by (simp add: step_ident_def)
  ultimately have "step_rows rid0 (w\<lparr>wf_steps := sql_update q f (wf_steps w)\<rparr>) = step_rows rid0 w"
    by (simp add: step_rows_def filter_sql_update)
  then show ?case
    using 7 by (auto intro!: same_run_update[of mnt rid0 w0 w] ids_inv_cong[of _ w]
        simp: same_run_def run_rows_def role_rows_def ident_keys)
next
  case (8 w g p)
  then have "role_rows (step_ids rid0 w0) (w\<lparr>wf_role_runs := sql_update p g (wf_role_runs w)\<rparr>) =
      role_rows (step_ids rid0 w0) w"
    unfolding role_rows_def by (auto intro!: filter_sql_update)
  with 8 show ?case
    by (auto intro!: same_run_update[of mnt rid0 w0 w] ids_inv_cong[of _ w] map_sql_update
        simp: same_run_def run_rows_def step_rows_def)
next
  case (3 w h c)
  have "wr_id (h r) = wr_id r" for r using 3(2)[of r] by (simp add: mail_cols_def)
  with 3 have "run_rows rid0 (w\<lparr>wf_runs := sql_update c h (wf_runs w)\<rparr>) = run_rows rid0 w"
    unfolding run_rows_def by (auto intro!: filter_sql_update)
  with 3 show ?case
    by (auto intro!: same_run_update[of mnt rid0 w0 w] ids_inv_cong[of _ w]
        simp: same_run_def role_rows_def step_rows_def)
next
  case (4 w fr tt k p)
  have "run_rows rid0 (emit_workflow_message rid fr tt k p w) = run_rows rid0 w"
  proof (cases "sql_first (\<lambda>r. wr_id r = rid) (wf_runs w)")
    case (Some r)
    have "filter (\<lambda>r. wr_id r = rid0) (map (\<lambda>r. if wr_id r = rid then advance_streak fr tt (f r) else r) rs)
        = filter (\<lambda>r. wr_id r = rid0) rs" if "\<And>r. wr_id (f r) = wr_id r" for rs f
      using 4 that by (induction rs) (auto simp: advance_streak_def)
    then show ?thesis by (simp add: run_rows_def emit_some(1)[OF Some])
  qed (simp add: emit_none)
  with 4 show ?case
    by (auto intro!: same_run_update[of mnt rid0 w0 w] ids_inv_cong[of _ w]
        simp: same_run_def role_rows_def step_rows_def)
next
  case (5 w env step w')
  then show ?case using same_run_insert by blast
qed (auto simp: same_run_def run_rows_def step_rows_def role_rows_def intro: ids_inv_cong)

lemma same_run_refl: "ids_inv mnt w \<Longrightarrow> same_run mnt rid w w"
  by (simp add: same_run_def)

lemma tick_other_run:
  "inj mnt \<Longrightarrow> we_mint env = mnt \<Longrightarrow> rid \<noteq> rid0 \<Longrightarrow> same_run mnt rid0 w0 w \<Longrightarrow>
     same_run mnt rid0 w0 (snd (tick_workflow_run env rid w))"
  using other.P_tick[of mnt rid rid0 w0 w env] by blast

section \<open>Nothing in the background starts a pending run\<close>

text \<open>What the control plane does on its own: the passes of the ticker, the schedules, the
  tick after the completion of a task, and everything that happens to tasks and attempts.\<close>

inductive background :: "(nat \<Rightarrow> id) \<Rightarrow> wf \<Rightarrow> wf \<Rightarrow> bool" for mnt where
  bg_ticker: "we_mint env = mnt \<Longrightarrow> background mnt w (ticker_pass env w)"
| bg_schedules: "we_mint env = mnt \<Longrightarrow> tick_workflow_schedules env t w = (ids, w') \<Longrightarrow> background mnt w w'"
| bg_completion: "we_mint env = mnt \<Longrightarrow> workflow_run_id_for_task w tid = Some rid \<Longrightarrow>
    tick_workflow_run env rid w = (r, w') \<Longrightarrow> background mnt w w'"
| bg_store: "background mnt w (w\<lparr>wf_store := st\<rparr>)"

definition unstarted :: "id \<Rightarrow> wf \<Rightarrow> bool" where
  "unstarted rid w \<longleftrightarrow> run_rows rid w \<noteq> [] \<and>
     (\<forall>r \<in> set (run_rows rid w). wr_status r = RunPending) \<and>
     (\<forall>s \<in> set (step_rows rid w). sr_status s = StepPending) \<and>
     (\<forall>rr \<in> set (role_rows (step_ids rid w) w). rr_task_id rr = None)"

lemma unstarted_same:
  "unstarted rid w0 \<Longrightarrow> same_run mnt rid w0 w \<Longrightarrow> unstarted rid w"
  by (simp add: unstarted_def same_run_def step_ids_def)

lemma unstarted_no_task:
  assumes "unstarted rid0 w" "workflow_run_id_for_task w tid = Some rid"
  shows "rid \<noteq> rid0"
proof
  assume "rid = rid0"
  from map_of_SomeD[OF assms(2)[unfolded workflow_run_id_for_task_def]] obtain rr t s where
    "rr \<in> set (wf_role_runs w)" "rr_task_id rr = Some t" "s \<in> set (wf_steps w)"
    "sr_id s = rr_step_run_id rr" "sr_run_id s = rid0"
    using \<open>rid = rid0\<close> by (auto split: option.splits) metis
  then have "rr \<in> set (role_rows (step_ids rid0 w) w)"
    by (force simp: role_rows_def step_ids_def step_rows_def)
  with assms(1) \<open>rr_task_id rr = Some t\<close> show False by (auto simp: unstarted_def)
qed

lemma ticker_other:
  assumes "inj mnt" "we_mint env = mnt" "unstarted rid0 w" "ids_inv mnt w"
  shows "same_run mnt rid0 w (ticker_pass env w)"
proof -
  have ids: "rid0 \<notin> set (running_workflow_run_ids w)"
    using assms(3) by (auto simp: running_workflow_run_ids_def unstarted_def run_rows_def)
  have "same_run mnt rid0 w v \<Longrightarrow> rid0 \<notin> set is \<Longrightarrow>
      same_run mnt rid0 w (fold (\<lambda>rid w. snd (tick_workflow_run env rid w)) is v)" for "is" v
  proof (induction "is" arbitrary: v)
    case (Cons i "is")
    then have "same_run mnt rid0 w (snd (tick_workflow_run env i v))"
      using tick_other_run[OF assms(1, 2), of i rid0 w v] Cons.prems by auto
    with Cons show ?case by simp
  qed simp
  then show ?thesis using ids same_run_refl[OF assms(4)] by (simp add: ticker_pass_def)
qed

text \<open>A run that a schedule creates has an id no run has.\<close>

lemma create_run_cases:
  "snd (create_workflow_run_full env tid req w) = w \<or>
   (\<exists>steps. insert_steps env (wr_id (new_run env (we_mint env (wf_minted w)) tid req)) steps
        (w\<lparr>wf_minted := Suc (wf_minted w),
           wf_runs := wf_runs w @ [new_run env (we_mint env (wf_minted w)) tid req]\<rparr>) =
      Some (snd (create_workflow_run_full env tid req w)))"
  by (auto simp: create_workflow_run_full_def mint_def Let_def split: sum.splits option.splits)

lemma create_other:
  assumes "inj mnt" "we_mint env = mnt" "mail_inv mnt w" "same_run mnt rid0 w0 w" "run_rows rid0 w \<noteq> []"
  shows "same_run mnt rid0 w0 (snd (create_workflow_run_full env tid req w))"
  using create_run_cases[of env tid req w]
proof (elim disjE exE conjE)
  fix steps
  define run where "run = new_run env (we_mint env (wf_minted w)) tid req"
  have run: "wr_id run = ''wfr-'' @ we_mint env (wf_minted w)" by (simp add: run_def new_run_def)
  assume ins: "insert_steps env (wr_id (new_run env (we_mint env (wf_minted w)) tid req)) steps
        (w\<lparr>wf_minted := Suc (wf_minted w),
           wf_runs := wf_runs w @ [new_run env (we_mint env (wf_minted w)) tid req]\<rparr>) =
      Some (snd (create_workflow_run_full env tid req w))"
  have "\<forall>i \<in> wr_id ` set (wf_runs w). minted_id ''wfr-'' mnt (wf_minted w) i"
    using assms(3) by (simp add: mail_inv_def)
  moreover have "rid0 \<in> wr_id ` set (wf_runs w)"
    using assms(5) by (auto simp: run_rows_def filter_empty_conv)
  ultimately have new: "wr_id run \<noteq> rid0"
    using minted_id_fresh[OF assms(1)] unfolding run assms(2) by blast
  then have "same_run mnt rid0 w0 (w\<lparr>wf_minted := Suc (wf_minted w), wf_runs := wf_runs w @ [run]\<rparr>)"
    using assms(4) by (intro same_run_update[OF assms(4)])
      (auto intro: ids_inv_cong simp: same_run_def run_rows_def step_rows_def role_rows_def)
  then show ?thesis
    using other.P_insert_steps[OF _ assms(2) ins[folded run_def], of rid0 w0] new assms(1) by blast
qed (use assms(4) in simp)

lemma schedules_other:
  assumes "inj mnt" "we_mint env = mnt" "mail_inv mnt w" "ids_inv mnt w" "run_rows rid0 w \<noteq> []"
  shows "same_run mnt rid0 w (snd (tick_workflow_schedules env t w))"
proof -
  let ?I = "\<lambda>v. mail_inv mnt v \<and> same_run mnt rid0 w v"
  have run: "?I v \<Longrightarrow> ?I (snd (create_workflow_run env tid None None None v))" for v tid
    using create_other[OF assms(1, 2), of v rid0 w] mail.P_create_run[of mnt v env] assms(1, 2, 5)
    unfolding create_workflow_run_def by (metis same_run_def)
  have sched: "?I v \<Longrightarrow> ?I (v\<lparr>wf_schedules := x\<rparr>)" for v x
    by (auto intro: mail_inv_cong ids_inv_cong simp: same_run_def run_rows_def step_rows_def role_rows_def)
  have fire: "?I (snd acc) \<Longrightarrow> ?I (snd (fire_schedule env t s acc))" for s acc
  proof -
    assume I: "?I (snd acc)"
    obtain ids v where acc: "acc = (ids, v)" by (cases acc)
    define v1 where "v1 = v\<lparr>wf_schedules := sql_update
      (\<lambda>r. sc_id r = sc_id s \<and> sc_last_run_at r = sc_last_run_at s)
      (\<lambda>r. r\<lparr>sc_last_run_at := Some t\<rparr>) (wf_schedules v)\<rparr>"
    have "?I v1" unfolding v1_def using sched I acc by simp
    moreover have "snd (fire_schedule env t s acc) \<in>
        {v, v1, snd (create_workflow_run env (sc_template_id s) None None None v1)}"
      by (auto simp: fire_schedule_def acc Let_def v1_def split: prod.splits sum.splits)
    ultimately show "?I (snd (fire_schedule env t s acc))" using I acc run by auto
  qed
  have "?I (snd acc) \<Longrightarrow> ?I (snd (fold (fire_schedule env t) ss acc))" for ss acc
    by (induction ss arbitrary: acc) (use fire in \<open>simp_all\<close>)
  from this[of "([], w)"] show ?thesis
    using assms same_run_refl by (simp add: tick_workflow_schedules_def)
qed

lemma background_keeps:
  assumes "inj mnt" "mail_inv mnt w" "ids_inv mnt w" "unstarted rid w" "background mnt w w'"
  shows "same_run mnt rid w w' \<and> mail_inv mnt w'"
  using assms(5)
proof cases
  case (bg_ticker env)
  have "mail_inv mnt v \<Longrightarrow> mail_inv mnt (fold (\<lambda>rid w. snd (tick_workflow_run env rid w)) is v)" for "is" v
    using mail.tick.P_tick[of mnt _ env] assms(1) bg_ticker by (induction "is" arbitrary: v) auto
  with ticker_other[OF assms(1) bg_ticker(2) assms(4, 3)] assms(2) bg_ticker(1) show ?thesis
    by (simp add: ticker_pass_def)
next
  case (bg_schedules env t ids)
  have "run_rows rid w \<noteq> []" using assms(4) by (simp add: unstarted_def)
  then show ?thesis
    using schedules_other[OF assms(1) bg_schedules(1) assms(2, 3), of rid t]
      mail.P_fire[of mnt w env t] assms(1, 2) bg_schedules by simp
next
  case (bg_completion env tid rid' r)
  then show ?thesis
    using tick_other_run[OF assms(1) bg_completion(1) unstarted_no_task[OF assms(4) bg_completion(2)]
        same_run_refl[OF assms(3)]] mail.tick.P_tick[of mnt w env rid'] assms(1, 2) by simp
next
  case (bg_store st)
  then show ?thesis
    using assms(2, 3) by (auto intro: mail_inv_cong ids_inv_cong
        simp: same_run_def run_rows_def step_rows_def role_rows_def)
qed

lemma background_star:
  assumes "(background mnt)\<^sup>*\<^sup>* w w'" "inj mnt" "mail_inv mnt w" "ids_inv mnt w" "unstarted rid w"
  shows "same_run mnt rid w w' \<and> mail_inv mnt w'"
  using assms(1)
proof (induction rule: rtranclp_induct)
  case (step v v')
  then have "unstarted rid v" "ids_inv mnt v" using unstarted_same[OF assms(5)] by (auto simp: same_run_def)
  with step background_keeps[OF assms(2), of v rid v'] show ?case
    by (auto simp: same_run_def step_ids_def)
qed (use assms same_run_refl in auto)

text \<open>C15: no background activity starts a pending run. From any reachable state, whatever
  the ticker, the schedules, the completions of tasks and the life of tasks and attempts do,
  in any order and for however long, a run that is pending with no task stays pending with
  all its steps pending and taskless. The runs a schedule fires are created pending, so they
  wait for a tick by hand although the schedule exists to start them.\<close>

theorem pending_run_never_starts:
  assumes "inj mnt" "wf_reach mnt w" "unstarted rid w" "(background mnt)\<^sup>*\<^sup>* w w'"
  shows "unstarted rid w' \<and> run_rows rid w' = run_rows rid w \<and> step_rows rid w' = step_rows rid w"
proof -
  have "mail_inv mnt w" "ids_inv mnt w"
    using mail.reach_keeps[OF assms(2)] ids.reach_keeps[OF assms(2)] assms(1) by auto
  from background_star[OF assms(4, 1) this assms(3)] show ?thesis
    using unstarted_same[OF assms(3)] by (auto simp: same_run_def)
qed

text \<open>The run of the sample, after a schedule fired it and the ticker passed.\<close>

lemma demo_unstarted: "unstarted demo_run demo_created"
  by (simp add: unstarted_def run_rows_def step_rows_def role_rows_def step_ids_def demo_created_eq
      demo_defined_eq wf_init_def demo_row_def fresh_row_def fresh_role_def)

theorem pending_run_never_starts_witness:
  "inj demo_mint \<and> wf_reach demo_mint demo_created \<and> unstarted demo_run demo_created \<and>
   unstarted demo_run (ticker_pass (demo_env 5) demo_created)"
  using pending_run_never_starts[of demo_mint demo_created demo_run "ticker_pass (demo_env 5) demo_created"]
    demo_mint_inj demo_reach(2) demo_unstarted bg_ticker[OF demo_env_mint] by blast

end
