(* ===== verification/WorkflowOrder.thy ===== *)
theory WorkflowOrder
  imports WorkflowIdle
begin

text \<open>
  What a tick does to the statuses of the steps of its run, one triple per table write, and
  the safety that follows: no step of a run starts before its dependencies have succeeded.
\<close>

section \<open>The statuses of a run\<close>

definition status_map :: "id \<Rightarrow> wf \<Rightarrow> statuses" where
  "status_map rid w = map_of (map (\<lambda>s. (ws_id (sr_step s), sr_status s)) (step_rows rid w))"

lemma step_rows_iff: "s \<in> set (step_rows rid w) \<longleftrightarrow> s \<in> set (wf_steps w) \<and> sr_run_id s = rid"
  by (auto simp: step_rows_def)

lemma step_names_distinct:
  assumes "ids_inv mnt w"
  shows "distinct (map (\<lambda>s. ws_id (sr_step s)) (step_rows rid w))"
  using assms by (auto simp: ids_inv_def distinct_map step_rows_def inj_on_def)

lemma status_map_iff:
  assumes "ids_inv mnt w"
  shows "status_map rid w k = Some x \<longleftrightarrow>
    (\<exists>r \<in> set (wf_steps w). sr_run_id r = rid \<and> ws_id (sr_step r) = k \<and> sr_status r = x)"
proof -
  have "distinct (map fst (map (\<lambda>s. (ws_id (sr_step s), sr_status s)) (step_rows rid w)))"
    using step_names_distinct[OF assms] by (simp add: comp_def)
  then show ?thesis
    unfolding status_map_def by (subst map_of_eq_Some_iff) (auto simp: step_rows_iff image_iff)
qed

lemma status_map_row:
  "ids_inv mnt w \<Longrightarrow> r \<in> set (wf_steps w) \<Longrightarrow>
     status_map (sr_run_id r) w (ws_id (sr_step r)) = Some (sr_status r)"
  by (auto simp: status_map_iff)

lemma status_map_cong: "wf_steps w' = wf_steps w \<Longrightarrow> status_map rid w' = status_map rid w"
  by (simp add: status_map_def step_rows_def)

text \<open>The map a tick builds from its snapshot is the one of the table.\<close>

lemma snapshot_statuses:
  assumes "ids_inv mnt w"
  shows "map_of (rev (map (\<lambda>s. (ws_id (sr_step s), sr_status s)) (get_workflow_run_steps w rid))) =
    status_map rid w"
proof -
  let ?f = "\<lambda>s. (ws_id (sr_step s), sr_status s)"
  have view: "map ?f (map step_view ss) = map ?f ss" for ss by (simp add: step_view_def)
  have "mset (map ?f (get_workflow_run_steps w rid)) = mset (map ?f (step_rows rid w))"
    unfolding get_workflow_run_steps_def view by (simp add: step_rows_def)
  then have ms: "mset (rev (map ?f (get_workflow_run_steps w rid))) = mset (map ?f (step_rows rid w))"
    by simp
  have "distinct (map fst (map ?f (step_rows rid w)))"
    using step_names_distinct[OF assms] by (simp add: comp_def)
  moreover from this have "distinct (map fst (rev (map ?f (get_workflow_run_steps w rid))))"
    using mset_eq_imp_distinct_iff[OF arg_cong[OF ms, of "image_mset fst", folded mset_map]] by blast
  ultimately show ?thesis
    unfolding status_map_def using mset_eq_setD[OF ms] by (intro map_of_inject_set[THEN iffD2]) auto
qed

section \<open>Triples\<close>

text \<open>\<open>step_at\<close>: since \<open>w0\<close> only the status of step \<open>s\<close> changed, and it is \<open>x\<close> now.\<close>

definition step_at :: "(nat \<Rightarrow> id) \<Rightarrow> id \<Rightarrow> step_run \<Rightarrow> wf \<Rightarrow> workflow_step_status \<Rightarrow> wf \<Rightarrow> bool" where
  "step_at mnt rid s w0 x w \<longleftrightarrow> ids_inv mnt w \<and>
     map step_ident (wf_steps w) = map step_ident (wf_steps w0) \<and>
     (\<exists>r \<in> set (wf_steps w). sr_id r = sr_id s \<and> sr_run_id r = rid \<and>
        ws_id (sr_step r) = ws_id (sr_step s) \<and> sr_status r = x) \<and>
     status_map rid w = (status_map rid w0)(ws_id (sr_step s) \<mapsto> x)"

named_theorems triples

lemma ids_row_unique:
  "ids_inv mnt w \<Longrightarrow> r \<in> set (wf_steps w) \<Longrightarrow> r' \<in> set (wf_steps w) \<Longrightarrow> sr_id r = sr_id r' \<Longrightarrow> r = r'"
  by (auto simp: ids_inv_def distinct_map dest: inj_onD)

lemma at_steps:
  assumes "step_at mnt rid s w0 x w" and ident: "\<And>r. step_ident (f r) = step_ident r"
    and own: "\<And>r. q r \<Longrightarrow> sr_id r = sr_id s"
    and st: "\<And>r. sr_id r = sr_id s \<Longrightarrow> sr_status r = x \<Longrightarrow> sr_status (if q r then f r else r) = y"
  shows "step_at mnt rid s w0 y (w\<lparr>wf_steps := sql_update q f (wf_steps w)\<rparr>)"
proof -
  let ?w = "w\<lparr>wf_steps := sql_update q f (wf_steps w)\<rparr>"
  from assms(1) obtain r where inv: "ids_inv mnt w"
    and idents: "map step_ident (wf_steps w) = map step_ident (wf_steps w0)" and r: "r \<in> set (wf_steps w)" "sr_id r = sr_id s"
      "sr_run_id r = rid" "ws_id (sr_step r) = ws_id (sr_step s)" "sr_status r = x"
    and map: "status_map rid w = (status_map rid w0)(ws_id (sr_step s) \<mapsto> x)"
    by (auto simp: step_at_def)
  have inv': "ids_inv mnt ?w"
    by (rule ids_inv_cong[OF _ _ _ _ inv]) (simp_all add: ident_keys[OF ident])
  define r' where "r' = (if q r then f r else r)"
  have same: "sr_id (f v) = sr_id v" "sr_run_id (f v) = sr_run_id v" "sr_step (f v) = sr_step v" for v
    using ident[of v] by (simp_all add: step_ident_def)
  have r': "r' \<in> set (wf_steps ?w)" "sr_id r' = sr_id s" "sr_run_id r' = rid"
      "ws_id (sr_step r') = ws_id (sr_step s)" "sr_status r' = y"
    using r st[of r] same by (auto simp: r'_def set_sql_update)
  have "status_map rid ?w k = status_map rid w k" if "k \<noteq> ws_id (sr_step s)" for k
  proof -
    have keep: "\<not> q v" if "v \<in> set (wf_steps w)" "ws_id (sr_step v) = k" for v
      using own[of v] ids_row_unique[OF inv r(1) that(1)] r(2, 4) that(2) \<open>k \<noteq> _\<close> by auto
    have "v \<in> set (sql_update q f (wf_steps w)) \<and> ws_id (sr_step v) = k \<longleftrightarrow>
        v \<in> set (wf_steps w) \<and> ws_id (sr_step v) = k" for v
      using keep same by (auto simp: set_sql_update split: if_splits)
    then have "status_map rid ?w k = Some z \<longleftrightarrow> status_map rid w k = Some z" for z
      unfolding status_map_iff[OF inv'] status_map_iff[OF inv] by auto
    then show ?thesis by (metis not_Some_eq)
  qed
  moreover have "status_map rid ?w (ws_id (sr_step s)) = Some y"
    using status_map_iff[OF inv'] r' by blast
  ultimately have "status_map rid ?w = (status_map rid w0)(ws_id (sr_step s) \<mapsto> y)"
    using map by (auto simp: fun_eq_iff)
  moreover have "map step_ident (wf_steps ?w) = map step_ident (wf_steps w0)"
    using idents ident_keys(3)[OF ident] by simp
  ultimately show ?thesis using inv' r' unfolding step_at_def by blast
qed

text \<open>Whatever leaves the step rows alone, keeps the step where it is.\<close>

lemma at_frame:
  assumes "step_at mnt rid s w0 x w" "wf_steps w' = wf_steps w"
    "map rr_step_run_id (wf_role_runs w') = map rr_step_run_id (wf_role_runs w)" "wf_minted w \<le> wf_minted w'"
  shows "step_at mnt rid s w0 x w'"
  using assms ids_inv_cong[of w' w mnt] by (auto simp: step_at_def status_map_cong[OF assms(2)])

lemma at_store [triples]: "step_at mnt rid s w0 x w \<Longrightarrow> step_at mnt rid s w0 x (w\<lparr>wf_store := st\<rparr>)"
  by (erule at_frame) simp_all

lemma at_run_status [triples]:
  "step_at mnt rid s w0 x w \<Longrightarrow> step_at mnt rid s w0 x (set_workflow_run_status i st fin w)"
  by (erule at_frame) (simp_all add: set_workflow_run_status_def update_run_def)

lemma at_run_plan [triples]:
  "step_at mnt rid s w0 x w \<Longrightarrow> step_at mnt rid s w0 x (set_workflow_run_plan i plan w)"
  by (erule at_frame) (simp_all add: set_workflow_run_plan_def update_run_def)

lemma at_emit [triples]:
  "step_at mnt rid s w0 x w \<Longrightarrow> step_at mnt rid s w0 x (emit_workflow_message i fr tt k p w)"
  by (erule at_frame) simp_all

lemma at_role_status [triples]:
  "step_at mnt rid s w0 x w \<Longrightarrow> step_at mnt rid s w0 x (set_role_run_status_by_step i st w)"
  by (erule at_frame) (simp_all add: set_role_run_status_by_step_def map_sql_update)

lemma at_role_task [triples]:
  "step_at mnt rid s w0 x w \<Longrightarrow> step_at mnt rid s w0 x (set_role_run_task i t w)"
  by (erule at_frame) (simp_all add: set_role_run_task_def Let_def map_sql_update)

lemma at_spawn:
  "step_at mnt rid s w0 x w \<Longrightarrow> spawn env req w = Some (t, w') \<Longrightarrow> step_at mnt rid s w0 x w'"
  by (erule at_frame) (auto simp: spawn_def mint_def split: if_splits)

lemma row_status_at: "sr_status (step_row_status now st r) = st"
  by (cases st) simp_all

lemma at_step_status [triples]:
  "step_at mnt rid s w0 x w \<Longrightarrow> step_at mnt rid s w0 y (set_step_status now (sr_id s) y w)"
  unfolding set_step_status_def update_step_def
  by (erule at_steps) (auto simp: row_status_at ids.tick.ident_row_status)

lemma at_step_attempts [triples]:
  "step_at mnt rid s w0 x w \<Longrightarrow> step_at mnt rid s w0 x (set_step_attempts (sr_id s) n w)"
  unfolding set_step_attempts_def update_step_def by (erule at_steps) (auto simp: step_ident_def)

lemma at_both [triples]:
  "step_at mnt rid s w0 x w \<Longrightarrow> step_at mnt rid s w0 y (set_both env (sr_id s) y w)"
  unfolding set_both_def by (intro triples)

lemma at_cas_attempts:
  "step_at mnt rid s w0 x w \<Longrightarrow> cas_attempts (sr_id s) a b w = (claimed, w') \<Longrightarrow> step_at mnt rid s w0 x w'"
  unfolding cas_attempts_def by (auto simp: step_ident_def elim!: at_steps)

lemma at_cas_status:
  assumes "step_at mnt rid s w0 x w" "cas_status (sr_id s) x f w = (claimed, w')"
    "\<And>r. step_ident (f r) = step_ident r" "\<And>r. sr_status (f r) = y"
  shows "claimed \<and> step_at mnt rid s w0 y w'"
proof -
  have "step_at mnt rid s w0 y w'"
    using assms unfolding cas_status_def by (auto elim!: at_steps)
  moreover have claimed
    using assms(1, 2) unfolding cas_status_def step_at_def by (auto simp: sql_count_pos)
  ultimately show ?thesis by simp
qed

section \<open>The effect of one step of the loop\<close>

text \<open>A pending step may only start, and only with its dependencies done; a settled step
  stays; the map of the tick follows the table.\<close>

definition may_become :: "statuses \<Rightarrow> step_run \<Rightarrow> workflow_step_status \<Rightarrow> bool" where
  "may_become m s x \<longleftrightarrow>
     (case sr_status s of StepRunning \<Rightarrow> True
      | StepPending \<Rightarrow> x = StepPending \<or> x = StepRunning \<and> deps_done m s
      | st \<Rightarrow> x = st)"

fun step_effect :: "(nat \<Rightarrow> id) \<Rightarrow> id \<Rightarrow> step_run \<Rightarrow> wf \<Rightarrow> statuses \<Rightarrow> tick_acc flow \<Rightarrow> bool" where
  "step_effect mnt rid s w0 m (Go (m', created, w)) \<longleftrightarrow>
     (\<exists>x. step_at mnt rid s w0 x w \<and> may_become m s x \<and> (m' = m \<or> m' = m(ws_id (sr_step s) \<mapsto> x)))"
| "step_effect mnt rid s w0 m (Halt r w) \<longleftrightarrow>
     (\<exists>x. step_at mnt rid s w0 x w \<and> may_become m s x)"

lemma effect_wedged:
  assumes "step_at mnt rid s w0 StepRunning w" "sr_status s = StepRunning"
  shows "step_effect mnt rid s w0 m (tick_wedged env s (m, created, w))"
proof -
  let ?stale = "\<lambda>r. sr_id r = sr_id s \<and> sr_status r = StepRunning \<and>
      (case sr_started_at r of None \<Rightarrow> False | Some t \<Rightarrow> t + wedge_grace < we_now env)"
  let ?w = "w\<lparr>wf_steps := sql_update ?stale (\<lambda>r. r\<lparr>sr_status := StepPending, sr_started_at := None\<rparr>) (wf_steps w)\<rparr>"
  obtain r where r: "r \<in> set (wf_steps w)" "sr_id r = sr_id s" and inv: "ids_inv mnt w"
    using assms(1) by (auto simp: step_at_def)
  have "step_at mnt rid s w0 StepPending ?w" if "0 < sql_count ?stale (wf_steps w)"
  proof -
    from that obtain v where "v \<in> set (wf_steps w)" "?stale v" by (auto simp: sql_count_pos)
    with r have "?stale r" using ids_row_unique[OF inv r(1)] by metis
    have "sql_update ?stale f (wf_steps w) = sql_update (\<lambda>u. sr_id u = sr_id s) f (wf_steps w)" for f
      unfolding sql_update_def
      using \<open>?stale r\<close> ids_row_unique[OF inv r(1)] r(2) by (intro map_cong) auto
    then show ?thesis using assms(1) by (auto simp: step_ident_def elim!: at_steps)
  qed
  with assms show ?thesis by (auto simp: tick_wedged_def Let_def may_become_def)
qed

lemma claim:
  assumes "step_at mnt rid s w0 x w" "\<And>r. step_ident (f r) = step_ident r" "\<And>r. sr_status (f r) = y"
  shows "\<exists>w1. cas_status (sr_id s) x f w = (True, w1) \<and> step_at mnt rid s w0 y w1"
  using at_cas_status[OF assms(1) _ assms(2, 3)] by (cases "cas_status (sr_id s) x f w") auto

lemma effect_succeeded:
  assumes "step_at mnt rid s w0 StepRunning w" "sr_status s = StepRunning"
  shows "step_effect mnt rid s w0 m (tick_succeeded env run tid s (m, created, w))"
proof -
  obtain w1 where "cas_status (sr_id s) StepRunning (\<lambda>r. r\<lparr>sr_status := StepSucceeded,
      sr_finished_at := coalesce (sr_finished_at r) (we_now env)\<rparr>) w = (True, w1)"
      "step_at mnt rid s w0 StepSucceeded w1"
    using claim[OF assms(1), of "\<lambda>r. r\<lparr>sr_status := StepSucceeded,
        sr_finished_at := coalesce (sr_finished_at r) (we_now env)\<rparr>" StepSucceeded] by (auto simp: step_ident_def)
  then show ?thesis
    using assms(2) by (auto simp: tick_succeeded_def Let_def may_become_def intro!: exI triples split: option.splits)
qed

lemma effect_cancelled:
  assumes "step_at mnt rid s w0 StepRunning w" "sr_status s = StepRunning"
  shows "step_effect mnt rid s w0 m (tick_cancelled env s (m, created, w))"
proof -
  obtain w1 where "cas_status (sr_id s) StepRunning (\<lambda>r. r\<lparr>sr_status := StepCancelled,
      sr_finished_at := coalesce (sr_finished_at r) (we_now env)\<rparr>) w = (True, w1)"
      "step_at mnt rid s w0 StepCancelled w1"
    using claim[OF assms(1), of "\<lambda>r. r\<lparr>sr_status := StepCancelled,
        sr_finished_at := coalesce (sr_finished_at r) (we_now env)\<rparr>" StepCancelled] by (auto simp: step_ident_def)
  then show ?thesis
    using assms(2) by (auto simp: tick_cancelled_def Let_def may_become_def intro!: exI triples)
qed

lemma effect_failed:
  assumes "step_at mnt rid s w0 StepRunning w" "sr_status s = StepRunning" "ws_role (sr_step s) \<noteq> Verifier"
  shows "step_effect mnt rid s w0 m (tick_failed env run snap tid s (m, created, w))"
proof -
  obtain b w1 where cas: "cas_attempts (sr_id s) (sr_attempts s) (sr_attempts s + 1) w = (b, w1)"
    by (cases "cas_attempts (sr_id s) (sr_attempts s) (sr_attempts s + 1) w")
  note at = at_cas_attempts[OF assms(1) this]
  show ?thesis
    using assms at unfolding tick_failed_def Let_def prod.case cas
    by (auto simp: may_become_def dest: at_spawn[OF at]
        intro!: exI triples split: option.splits)
qed

lemma effect_pending:
  assumes "step_at mnt rid s w0 StepPending w" "sr_status s = StepPending"
  shows "step_effect mnt rid s w0 m (tick_pending env run s (m, created, w))"
proof (cases "deps_done m s")
  case True
  obtain w1 where cas: "cas_status (sr_id s) StepPending (\<lambda>r. r\<lparr>sr_status := StepRunning,
      sr_started_at := coalesce (sr_started_at r) (we_now env)\<rparr>) w = (True, w1)"
      and at: "step_at mnt rid s w0 StepRunning w1"
    using claim[OF assms(1), of "\<lambda>r. r\<lparr>sr_status := StepRunning,
        sr_started_at := coalesce (sr_started_at r) (we_now env)\<rparr>" StepRunning] by (auto simp: step_ident_def)
  then show ?thesis
    using assms(2) True by (auto simp: tick_pending_def Let_def may_become_def dest: at_spawn[OF at]
        intro!: exI triples split: option.splits)
qed (use assms in \<open>auto simp: tick_pending_def may_become_def\<close>)

lemma tick_step_effect:
  assumes "step_at mnt rid s w0 (sr_status s) w" "ws_role (sr_step s) \<noteq> Verifier"
  shows "step_effect mnt rid s w0 m (tick_step env run snap s (m, created, w))"
proof (cases "sr_status s")
  case StepRunning
  with assms show ?thesis
    by (auto simp: tick_step_def tick_running_def may_become_def
        intro!: effect_wedged effect_succeeded effect_failed effect_cancelled
        split: option.splits task_status.splits)
next
  case StepPending
  with assms effect_pending show ?thesis by (auto simp: tick_step_def)
qed (use assms in \<open>auto simp: tick_step_def may_become_def\<close>)

section \<open>The loop\<close>

text \<open>The graph of a run is fixed by the identities of its rows.\<close>

definition run_graph :: "id \<Rightarrow> wf \<Rightarrow> workflow_step list" where
  "run_graph rid w = map sr_step (step_rows rid w)"

definition started :: "workflow_step_status \<Rightarrow> bool" where
  "started x \<longleftrightarrow> x \<in> {StepRunning, StepSucceeded, StepFailed}"

definition ordered :: "workflow_step list \<Rightarrow> statuses \<Rightarrow> bool" where
  "ordered G M \<longleftrightarrow> (\<forall>st \<in> set G. \<forall>x. M (ws_id st) = Some x \<longrightarrow> started x \<longrightarrow>
     (\<forall>d \<in> set (ws_depends_on st). M d = Some StepSucceeded))"

lemma run_graph_ident:
  assumes "map step_ident (wf_steps w) = map step_ident (wf_steps w')"
  shows "run_graph rid w = run_graph rid w'"
proof -
  have "run_graph rid v = map (\<lambda>(i, j, st). st) (filter (\<lambda>(i, j, st). j = rid) (map step_ident (wf_steps v)))" for v
    by (simp add: run_graph_def step_rows_def filter_map comp_def step_ident_def)
  then show ?thesis using assms by simp
qed

lemma at_graph: "step_at mnt rid s w0 x w \<Longrightarrow> run_graph rid w = run_graph rid w0"
  using run_graph_ident[of w w0] by (simp add: step_at_def)

text \<open>A row of the snapshot that the table still has.\<close>

definition current :: "id \<Rightarrow> wf \<Rightarrow> step_run \<Rightarrow> bool" where
  "current rid w s \<longleftrightarrow> (\<exists>r \<in> set (wf_steps w). sr_id r = sr_id s \<and> sr_run_id r = rid \<and>
     ws_id (sr_step r) = ws_id (sr_step s) \<and> ws_depends_on (sr_step r) = ws_depends_on (sr_step s) \<and>
     sr_status r = sr_status s)"

lemma current_at:
  assumes "ids_inv mnt w" "current rid w s"
  shows "step_at mnt rid s w (sr_status s) w" "status_map rid w (ws_id (sr_step s)) = Some (sr_status s)"
proof -
  show "status_map rid w (ws_id (sr_step s)) = Some (sr_status s)"
    using assms by (auto simp: current_def status_map_iff)
  then show "step_at mnt rid s w (sr_status s) w"
    using assms by (auto simp: step_at_def current_def fun_upd_idem)
qed

lemma snapshot_current:
  "s \<in> set (get_workflow_run_steps w rid) \<Longrightarrow> current rid w s"
  by (auto simp: get_workflow_run_steps_def current_def step_view_def)

lemma at_current:
  assumes "step_at mnt rid s w0 x w" "ids_inv mnt w0" "current rid w0 s'"
    "ws_id (sr_step s') \<noteq> ws_id (sr_step s)"
  shows "current rid w s'"
proof -
  obtain r where r: "r \<in> set (wf_steps w0)" "sr_id r = sr_id s'" "sr_run_id r = rid"
      "ws_id (sr_step r) = ws_id (sr_step s')" "ws_depends_on (sr_step r) = ws_depends_on (sr_step s')"
      "sr_status r = sr_status s'"
    using assms(3) by (auto simp: current_def)
  have "set (map step_ident (wf_steps w)) = set (map step_ident (wf_steps w0))"
    using assms(1) by (simp add: step_at_def)
  then have "step_ident r \<in> step_ident ` set (wf_steps w)" using r(1) by auto
  then obtain r' where r': "r' \<in> set (wf_steps w)" "step_ident r' = step_ident r" by auto
  have "status_map rid w (ws_id (sr_step s')) = Some (sr_status s')"
    using assms(1, 4) status_map_row[OF assms(2) r(1)] r by (simp add: step_at_def)
  moreover have "status_map rid w (ws_id (sr_step s')) = Some (sr_status r')"
    using assms(1) status_map_row[of mnt w r'] r' r by (simp add: step_at_def step_ident_def)
  ultimately show ?thesis using r r' by (auto simp: current_def step_ident_def)
qed

text \<open>What the map of the tick says has succeeded, has.\<close>

definition reflects :: "statuses \<Rightarrow> statuses \<Rightarrow> bool" where
  "reflects m M \<longleftrightarrow> (\<forall>d. m d = Some StepSucceeded \<longrightarrow> M d = Some StepSucceeded)"

lemma effect_reflects:
  assumes "reflects m M" "M k = Some (sr_status s)" "k = ws_id (sr_step s)" "may_become m s x"
    "m' = m \<or> m' = m(k \<mapsto> x)"
  shows "reflects m' (M(k \<mapsto> x))"
  using assms unfolding reflects_def may_become_def
  by (auto split: workflow_step_status.splits)

lemma effect_ordered:
  assumes "ordered G M" "reflects m M" "M k = Some (sr_status s)" "k = ws_id (sr_step s)" "may_become m s x"
    and deps: "\<And>st. st \<in> set G \<Longrightarrow> ws_id st = k \<Longrightarrow> ws_depends_on st = ws_depends_on (sr_step s)"
  shows "ordered G (M(k \<mapsto> x))"
  unfolding ordered_def
proof (intro ballI allI impI)
  fix st y d
  assume st: "st \<in> set G" "(M(k \<mapsto> x)) (ws_id st) = Some y" "started y" "d \<in> set (ws_depends_on st)"
  have keep: "sr_status s = StepSucceeded \<Longrightarrow> x = StepSucceeded"
    using assms(5) by (simp add: may_become_def)
  show "(M(k \<mapsto> x)) d = Some StepSucceeded"
  proof (cases "ws_id st = k \<and> sr_status s = StepPending")
    case True
    then have "deps_done m s" using st(2, 3) assms(5) by (auto simp: may_become_def started_def)
    then have "M d = Some StepSucceeded"
      using True deps st assms(2) by (auto simp: deps_done_def list_all_iff reflects_def)
    then show ?thesis using True assms(3) by auto
  next
    case False
    have "\<exists>y'. M (ws_id st) = Some y' \<and> started y'"
    proof (cases "ws_id st = k")
      case True
      then show ?thesis using False st assms(3, 5)
        by (auto simp: may_become_def started_def split: workflow_step_status.splits)
    qed (use st in auto)
    then have "M d = Some StepSucceeded" using assms(1) st by (auto simp: ordered_def)
    then show ?thesis using keep assms(3) by auto
  qed
qed

definition loop_inv :: "(nat \<Rightarrow> id) \<Rightarrow> id \<Rightarrow> step_run list \<Rightarrow> statuses \<Rightarrow> wf \<Rightarrow> bool" where
  "loop_inv mnt rid ss m w \<longleftrightarrow> ids_inv mnt w \<and> list_all (current rid w) ss \<and>
     reflects m (status_map rid w) \<and> ordered (run_graph rid w) (status_map rid w)"

lemma loop_step:
  assumes inv: "loop_inv mnt rid (s # ss) m w" and at: "step_at mnt rid s w x w'" and may: "may_become m s x"
    and names: "ws_id (sr_step s) \<notin> (\<lambda>s. ws_id (sr_step s)) ` set ss"
  shows "ids_inv mnt w'" "ordered (run_graph rid w') (status_map rid w')"
    and "m' = m \<or> m' = m(ws_id (sr_step s) \<mapsto> x) \<Longrightarrow> loop_inv mnt rid ss m' w'"
proof -
  have w: "ids_inv mnt w" "current rid w s" "list_all (current rid w) ss" "reflects m (status_map rid w)"
      "ordered (run_graph rid w) (status_map rid w)"
    using inv by (simp_all add: loop_inv_def)
  note st = current_at(2)[OF w(1, 2)]
  have M: "status_map rid w' = (status_map rid w)(ws_id (sr_step s) \<mapsto> x)" using at by (simp add: step_at_def)
  show 1: "ids_inv mnt w'" using at by (simp add: step_at_def)
  have deps: "ws_depends_on st = ws_depends_on (sr_step s)"
    if g: "st \<in> set (run_graph rid w)" and n: "ws_id st = ws_id (sr_step s)" for st
  proof -
    from g obtain r where r: "r \<in> set (step_rows rid w)" "sr_step r = st" by (auto simp: run_graph_def)
    from w(2) obtain v where v: "v \<in> set (step_rows rid w)" "ws_id (sr_step v) = ws_id (sr_step s)"
        "ws_depends_on (sr_step v) = ws_depends_on (sr_step s)"
      by (auto simp: current_def step_rows_iff)
    have "r = v" using step_names_distinct[OF w(1), of rid] r v n by (auto simp: distinct_map inj_on_def)
    with r v show ?thesis by simp
  qed
  show 2: "ordered (run_graph rid w') (status_map rid w')"
    unfolding M at_graph[OF at] by (rule effect_ordered[OF w(5, 4) st refl may deps])
  assume "m' = m \<or> m' = m(ws_id (sr_step s) \<mapsto> x)"
  then have "reflects m' (status_map rid w')"
    unfolding M using effect_reflects[OF w(4) st refl may] by blast
  moreover have "list_all (current rid w') ss"
    using w(3) at_current[OF at w(1)] names unfolding list_all_iff by (metis image_eqI)
  ultimately show "loop_inv mnt rid ss m' w'" using 1 2 by (simp add: loop_inv_def)
qed

fun flow_wf :: "tick_acc flow \<Rightarrow> wf" where
  "flow_wf (Go (m, created, w)) = w"
| "flow_wf (Halt r w) = w"

lemma loop_ordered:
  "loop_inv mnt rid ss m w \<Longrightarrow> distinct (map (\<lambda>s. ws_id (sr_step s)) ss) \<Longrightarrow>
     \<forall>s \<in> set ss. ws_role (sr_step s) \<noteq> Verifier \<Longrightarrow>
   (let v = flow_wf (tick_steps env run snap ss (m, created, w))
    in ids_inv mnt v \<and> ordered (run_graph rid v) (status_map rid v))"
proof (induction ss arbitrary: m created w)
  case Nil
  then show ?case by (simp add: loop_inv_def)
next
  case (Cons s ss)
  have "step_at mnt rid s w (sr_status s) w"
    using Cons.prems(1) current_at(1) by (simp add: loop_inv_def)
  then have eff: "step_effect mnt rid s w m (tick_step env run snap s (m, created, w))"
    using tick_step_effect Cons.prems(3) by simp
  note next_inv = loop_step[OF Cons.prems(1)]
  show ?case
  proof (cases "tick_step env run snap s (m, created, w)")
    case (Go acc)
    obtain m' created' w' where acc: "acc = (m', created', w')" by (cases acc)
    from eff Go acc obtain x where "step_at mnt rid s w x w'" "may_become m s x"
      "m' = m \<or> m' = m(ws_id (sr_step s) \<mapsto> x)" by auto
    then have "loop_inv mnt rid ss m' w'" using next_inv(3) Cons.prems(2) by auto
    from Cons.IH[OF this] Cons.prems Go acc show ?thesis by simp
  next
    case (Halt r w')
    with eff next_inv Cons.prems(2) show ?thesis by auto
  qed
qed

section \<open>Every operation keeps the order\<close>

definition verifier_free :: "id \<Rightarrow> wf \<Rightarrow> bool" where
  "verifier_free rid w \<longleftrightarrow> (\<forall>st \<in> set (run_graph rid w). ws_role st \<noteq> Verifier)"

definition order_inv :: "wf \<Rightarrow> bool" where
  "order_inv w \<longleftrightarrow> (\<forall>rid. verifier_free rid w \<longrightarrow> ordered (run_graph rid w) (status_map rid w))"

lemma order_inv_cong: "wf_steps w' = wf_steps w \<Longrightarrow> order_inv w \<Longrightarrow> order_inv w'"
  by (simp add: order_inv_def verifier_free_def run_graph_def status_map_def step_rows_def)

lemma ordered_mono:
  assumes "ordered G M" "\<And>d. M d = Some StepSucceeded \<Longrightarrow> M' d = Some StepSucceeded"
    "\<And>k x. k \<in> ws_id ` set G \<Longrightarrow> M' k = Some x \<Longrightarrow> started x \<Longrightarrow> \<exists>y. M k = Some y \<and> started y"
  shows "ordered G M'"
  using assms unfolding ordered_def by (metis image_eqI)

lemma ordered_append: "ordered (G @ G') M \<longleftrightarrow> ordered G M \<and> ordered G' M"
  by (auto simp: ordered_def)

lemma ordered_Nil [simp]: "ordered [] M"
  by (simp add: ordered_def)

lemma order_write:
  assumes inv: "ids_inv mnt w" and "order_inv w" and ident: "\<And>r. step_ident (f r) = step_ident r"
    and q: "\<And>r. r \<in> set (wf_steps w) \<Longrightarrow> q r \<Longrightarrow> sr_status r \<noteq> StepSucceeded \<and> \<not> started (sr_status (f r))"
  defines "w' \<equiv> w\<lparr>wf_steps := sql_update q f (wf_steps w)\<rparr>"
  shows "ids_inv mnt w' \<and> order_inv w'"
proof -
  have inv': "ids_inv mnt w'"
    unfolding w'_def by (rule ids_inv_cong[OF _ _ _ _ inv]) (simp_all add: ident_keys[OF ident])
  have same: "sr_id (f v) = sr_id v" "sr_run_id (f v) = sr_run_id v" "sr_step (f v) = sr_step v" for v
    using ident[of v] by (simp_all add: step_ident_def)
  have graph: "run_graph rid w' = run_graph rid w" for rid
    by (rule run_graph_ident) (simp add: w'_def ident_keys(3)[OF ident])
  have up: "status_map rid w' d = Some StepSucceeded" if d: "status_map rid w d = Some StepSucceeded" for rid d
  proof -
    obtain r where "r \<in> set (wf_steps w)" "sr_run_id r = rid" "ws_id (sr_step r) = d" "sr_status r = StepSucceeded"
      using d status_map_iff[OF inv] by blast
    moreover from this have "r \<in> set (wf_steps w')" using q[of r] by (auto simp: w'_def set_sql_update)
    ultimately show ?thesis using status_map_iff[OF inv'] by blast
  qed
  have down: "\<exists>y. status_map rid w k = Some y \<and> started y"
    if k: "status_map rid w' k = Some x" "started x" for rid k x
  proof -
    obtain v where "v \<in> set (wf_steps w')" "sr_run_id v = rid" "ws_id (sr_step v) = k" "sr_status v = x"
      using k(1) status_map_iff[OF inv'] by blast
    moreover from this(1) obtain r where r: "r \<in> set (wf_steps w)" "v = (if q r then f r else r)"
      unfolding w'_def by (auto simp: set_sql_update)
    moreover have "\<not> q r" using q[of r] r k(2) calculation(4) by auto
    ultimately show ?thesis using k(2) status_map_row[OF inv r(1)] by auto
  qed
  show ?thesis
    using inv' assms(2) ordered_mono up down unfolding order_inv_def verifier_free_def graph by blast
qed

lemma order_insert:
  assumes "ids_inv mnt w" "order_inv w" "insert_step env rid step w = Some w'"
  shows "order_inv w'"
  unfolding order_inv_def
proof (intro allI impI)
  fix rid'
  assume vf: "verifier_free rid' w'"
  note d = insert_stepD[OF assms(3)]
  have graph: "run_graph rid' w' = run_graph rid' w @ (if rid' = rid then [step] else [])"
    by (simp add: run_graph_def step_rows_def d(1))
  have fresh: "rid' = rid \<Longrightarrow> status_map rid' w (ws_id step) = None"
    using d(8) by (cases "status_map rid' w (ws_id step)") (auto simp: status_map_iff[OF assms(1)])
  have M: "status_map rid' w' = (if rid' = rid then (status_map rid' w)(ws_id step \<mapsto> StepPending)
      else status_map rid' w)"
    using fresh by (auto simp: status_map_def step_rows_def d(1) map_of_append map_add_def fun_eq_iff
        split: option.splits)
  have "ordered (run_graph rid' w) (status_map rid' w)"
    using assms(2) vf graph by (auto simp: order_inv_def verifier_free_def)
  then have "ordered (run_graph rid' w) (status_map rid' w')"
    by (rule ordered_mono) (use fresh in \<open>auto simp: M started_def split: if_splits\<close>)
  moreover have "ordered [step] (status_map rid' w')" if "rid' = rid"
  proof -
    have "status_map rid' w' (ws_id step) = Some StepPending" unfolding M using that by simp
    then show ?thesis by (simp add: ordered_def started_def)
  qed
  ultimately show "ordered (run_graph rid' w') (status_map rid' w')" by (simp add: graph ordered_append)
qed

definition order_ids :: "(nat \<Rightarrow> id) \<Rightarrow> wf \<Rightarrow> bool" where
  "order_ids mnt w \<longleftrightarrow> ids_inv mnt w \<and> order_inv w"

lemma order_ids_store: "order_ids mnt w \<Longrightarrow> order_ids mnt (w\<lparr>wf_store := st\<rparr>)"
  by (auto simp: order_ids_def intro: order_inv_cong ids_inv_cong)

interpretation rows: wf_rows mnt "\<lambda>w. inj mnt \<longrightarrow> order_ids mnt w" for mnt
proof (unfold_locales, goal_cases)
  case (1 st) show ?case
    by (simp add: order_ids_def ids_inv_def order_inv_def wf_init_def run_graph_def step_rows_def ordered_def)
next
  case (9 w env rid step w')
  then show ?case using ids_insert order_insert unfolding order_ids_def by blast
qed (auto simp: order_ids_def rebuild_handoff_streaks_def intro: ids_inv_cong order_inv_cong)

text \<open>A tick never drops a step, so a run with a verifier keeps it.\<close>

interpretation kept: run_closed mnt "\<lambda>w. X \<subseteq> step_ident ` set (wf_steps w)" rid UNIV for mnt X rid
proof (unfold_locales, goal_cases)
  case (5 w env step w')
  then show ?case using insert_stepD(1)[OF 5(3)] by auto
next
  case (7 w f q)
  then show ?case using ident_keys(3)[OF 7(2)] by (metis list.set_map wf.select_convs(4) wf.surjective wf.update_convs(4))
qed simp_all

lemma verifier_free_ident:
  "verifier_free rid w \<longleftrightarrow> (\<forall>(i, j, st) \<in> step_ident ` set (wf_steps w). j = rid \<longrightarrow> ws_role st \<noteq> Verifier)"
  by (auto simp: verifier_free_def run_graph_def step_rows_def step_ident_def)

lemma tick_loop_ordered:
  assumes "order_ids mnt w" "wr_id run = rid" "verifier_free rid (snd (tick_loop env run w))"
  shows "ordered (run_graph rid (snd (tick_loop env run w))) (status_map rid (snd (tick_loop env run w)))"
proof -
  let ?ss = "get_workflow_run_steps w rid"
  let ?m = "map_of (rev (map (\<lambda>s. (ws_id (sr_step s), sr_status s)) ?ss))"
  let ?fl = "tick_steps env run ?ss ?ss (?m, [], w)"
  have inv: "ids_inv mnt w" "order_inv w" using assms(1) by (simp_all add: order_ids_def)
  have "verifier_free rid w"
    using assms(3) kept.P_tick_loop[OF assms(2), of "step_ident ` set (wf_steps w)" w env]
    unfolding verifier_free_ident by blast
  then have "loop_inv mnt rid ?ss ?m w" "\<forall>s \<in> set ?ss. ws_role (sr_step s) \<noteq> Verifier"
    using inv snapshot_current snapshot_statuses[OF inv(1)]
    by (auto simp: loop_inv_def list_all_iff reflects_def order_inv_def verifier_free_def run_graph_def
        step_rows_def get_workflow_run_steps_def step_view_def)
  moreover have "distinct (map (\<lambda>s. ws_id (sr_step s)) ?ss)"
  proof -
    have "mset (map (\<lambda>s. ws_id (sr_step s)) ?ss) = mset (map (\<lambda>s. ws_id (sr_step s)) (step_rows rid w))"
      by (simp add: get_workflow_run_steps_def step_rows_def step_view_def comp_def)
    from mset_eq_imp_distinct_iff[OF this] show ?thesis using step_names_distinct[OF inv(1)] by blast
  qed
  ultimately have "ordered (run_graph rid (flow_wf ?fl)) (status_map rid (flow_wf ?fl))"
    using loop_ordered[of mnt rid ?ss ?m w env run ?ss "[]"] by (simp add: Let_def)
  moreover have "wf_steps (snd (tick_loop env run w)) = wf_steps (flow_wf ?fl)"
    by (cases ?fl) (auto simp: tick_loop_def Let_def assms(2) settle_run_def set_workflow_run_status_def update_run_def)
  ultimately show ?thesis by (simp add: run_graph_def step_rows_def status_map_def)
qed

lemma tick_cases:
  "\<exists>v. (v = w \<or> (\<exists>r st u. approve_workflow_plan env rid w = (r, u) \<and> v = u\<lparr>wf_store := st\<rparr>)) \<and>
     (snd (tick_workflow_run env rid w) = v \<or>
      (\<exists>run. get_workflow_run v rid = Some run \<and> snd (tick_workflow_run env rid w) = snd (tick_active env run v)))"
proof (cases "approve_workflow_plan env rid w")
  case (Pair r u)
  define u' where "u' = u\<lparr>wf_store := audit (we_now env) ''system'' None
     ''workflow.plan_auto_approved'' (Some rid) None (wf_store u)\<rparr>"
  have same: "u = u\<lparr>wf_store := wf_store u\<rparr>" by simp
  show ?thesis
  proof (cases "\<exists>run. get_workflow_run w rid = Some run \<and> wr_status run = RunPlanReady \<and>
      rq_auto_approve_plan (wr_request run)")
    case True
    then have "snd (tick_workflow_run env rid w) = (case r of Inl e \<Rightarrow> u | Inr _ \<Rightarrow>
        (case get_workflow_run u' rid of None \<Rightarrow> u' | Some run \<Rightarrow> snd (tick_active env run u')))"
      using Pair by (auto simp: tick_workflow_run_def u'_def Let_def split: option.split sum.split)
    moreover have "\<exists>r st v. approve_workflow_plan env rid w = (r, v) \<and> u' = v\<lparr>wf_store := st\<rparr>"
        "\<exists>r st v. approve_workflow_plan env rid w = (r, v) \<and> u = v\<lparr>wf_store := st\<rparr>"
      using Pair same u'_def by blast+
    ultimately show ?thesis
      by (intro exI[of _ "case r of Inl e \<Rightarrow> u | Inr _ \<Rightarrow> u'"]) (simp split: sum.split option.split)
  next
    case False
    then show ?thesis
      by (intro exI[of _ w]) (auto simp: tick_workflow_run_def split: option.split)
  qed
qed

lemma tick_ordered:
  assumes "inj mnt" "order_ids mnt w" "we_mint env = mnt"
  shows "order_ids mnt (snd (tick_workflow_run env rid w))"
proof -
  let ?w' = "snd (tick_workflow_run env rid w)"
  have inv: "ids_inv mnt w" "order_inv w" using assms(2) by (simp_all add: order_ids_def)
  have own: "verifier_free rid v \<longrightarrow> ordered (run_graph rid v) (status_map rid v)"
    if "v = snd (tick_active env run w1)" "order_ids mnt w1" "wr_id run = rid" for v run w1
  proof -
    define w2 where "w2 = (if wr_status run = RunPending then set_workflow_run_status rid RunRunning None w1 else w1)"
    have w2: "order_ids mnt w2" using that(2) rows.own.P_run_status[of mnt w1 rid] assms(1) by (simp add: w2_def)
    have "v = w1 \<or> v = park_run env run w2 \<or> v = snd (tick_loop env run w2)"
      using that by (auto simp: tick_active_def w2_def Let_def split: option.splits)
    then show ?thesis
      using tick_loop_ordered[OF w2 that(3)] that(2) rows.own.P_park[OF that(3), of mnt w2 env] w2 assms(1)
      by (auto simp: order_ids_def order_inv_def)
  qed
  obtain v where v: "v = w \<or> (\<exists>r st u. approve_workflow_plan env rid w = (r, u) \<and> v = u\<lparr>wf_store := st\<rparr>)"
    and w': "?w' = v \<or> (\<exists>run. get_workflow_run v rid = Some run \<and> ?w' = snd (tick_active env run v))"
    using tick_cases[of w env rid] by blast
  have "order_ids mnt v"
    using v rows.own.P_approve[of mnt w env rid] rows.P_store[of mnt] assms by auto
  then have "verifier_free rid ?w' \<longrightarrow> ordered (run_graph rid ?w') (status_map rid ?w')"
    using w' own[OF _ _ ids.own.run_view_id] by (auto simp: order_ids_def order_inv_def)
  moreover have "verifier_free rid0 ?w' \<longrightarrow> ordered (run_graph rid0 ?w') (status_map rid0 ?w')"
    if "rid0 \<noteq> rid" for rid0
  proof -
    have "step_rows rid0 ?w' = step_rows rid0 w"
      using tick_other_run[OF assms(1, 3) that[symmetric] same_run_refl[OF inv(1)]] by (simp add: same_run_def)
    then show ?thesis using inv(2) by (simp add: order_inv_def verifier_free_def run_graph_def status_map_def)
  qed
  moreover have "ids_inv mnt ?w'" using ids.tick.P_tick[of mnt w env rid] assms inv by blast
  ultimately show ?thesis unfolding order_ids_def order_inv_def by metis
qed

lemma cancel_ordered:
  assumes "order_ids mnt w"
  shows "order_ids mnt (snd (cancel_workflow_run rid w))"
proof -
  let ?same = "\<lambda>ss v. \<forall>s \<in> set ss. \<forall>r \<in> set (wf_steps v). sr_id r = sr_id s \<longrightarrow> sr_status r = sr_status s"
  have steps: "order_ids mnt v \<Longrightarrow> ?same ss v \<Longrightarrow> distinct (map sr_id ss) \<Longrightarrow>
      order_ids mnt (fold cancel_one_step ss v)" for ss v
  proof (induction ss arbitrary: v)
    case (Cons s ss)
    define v' where "v' = update_step (sr_id s) (\<lambda>r. r\<lparr>sr_status := StepCancelled\<rparr>) v"
    consider "cancel_one_step s v = v"
      | st where "sr_status s \<noteq> StepSucceeded" "cancel_one_step s v = v'\<lparr>wf_store := st\<rparr>"
      by (cases "step_terminal (sr_status s) \<or> sr_status s = StepBlocked")
        (simp add: cancel_one_step_def, auto simp: cancel_one_step_def v'_def Let_def step_terminal_def)
    then have "order_ids mnt (cancel_one_step s v) \<and> ?same ss (cancel_one_step s v)"
    proof cases
      case 1
      then show ?thesis unfolding 1 using Cons.prems(1, 2) by (metis list.set_intros(2))
    next
      case 2
      have "order_ids mnt v'"
        unfolding v'_def update_step_def order_ids_def
        by (rule order_write) (use Cons.prems 2 in \<open>auto simp: order_ids_def step_ident_def started_def\<close>)
      moreover have "?same ss v'" using Cons.prems(2, 3) by (auto simp: v'_def update_step_def set_sql_update)
      ultimately show ?thesis unfolding 2 by (simp add: order_ids_store)
    qed
    then show ?case using Cons.IH Cons.prems(3) by simp
  qed simp
  have "distinct (map sr_id (filter (\<lambda>s. sr_run_id s = rid) (wf_steps w)))"
    using assms by (simp add: order_ids_def ids_inv_def distinct_map_filter)
  moreover have "order_ids mnt (update_run rid f w)" for f
    using assms by (auto simp: order_ids_def update_run_def intro: order_inv_cong ids_inv_cong)
  moreover have "?same (filter (\<lambda>s. sr_run_id s = rid) (wf_steps w)) (update_run rid f w)" for f
    using assms ids_row_unique[of mnt w] by (auto simp: order_ids_def update_run_def)
  ultimately show ?thesis using assms steps by (auto simp: cancel_workflow_run_def split: option.splits)
qed

lemma expiry_ordered:
  assumes "order_ids mnt w"
  shows "order_ids mnt (snd (tick_approval_expiry now w))"
proof -
  have block: "order_ids mnt (block_step_and_run sid v)" if "order_ids mnt v" for sid v
  proof -
    define v1 where "v1 = v\<lparr>wf_steps := sql_update
       (\<lambda>s. sr_id s = sid \<and> sr_status s \<notin> {StepSucceeded, StepFailed, StepBlocked, StepSkipped})
       (\<lambda>s. s\<lparr>sr_status := StepBlocked\<rparr>) (wf_steps v)\<rparr>"
    have "order_ids mnt v1"
      unfolding v1_def order_ids_def
      by (rule order_write) (use that in \<open>auto simp: order_ids_def step_ident_def started_def\<close>)
    then show ?thesis
      unfolding block_step_and_run_def v1_def[symmetric] Let_def
      by (auto simp: order_ids_def intro: order_inv_cong ids_inv_cong split: option.split)
  qed
  have "order_ids mnt (snd acc) \<Longrightarrow> order_ids mnt (snd (expire_one now ap acc))" for ap acc
    by (auto simp: expire_one_def intro!: order_ids_store block split: prod.splits bool.splits option.splits)
  then have "order_ids mnt (snd acc) \<Longrightarrow> order_ids mnt (snd (fold (expire_one now) aps acc))" for aps acc
    by (induction aps arbitrary: acc) simp_all
  then show ?thesis using assms by (simp add: tick_approval_expiry_def)
qed

interpretation order: wf_moves mnt "\<lambda>w. inj mnt \<longrightarrow> order_ids mnt w" for mnt
  by unfold_locales (use tick_ordered cancel_ordered expiry_ordered in auto)

text \<open>C17: dependency order. In every reachable state of the workflow engine, whatever mix of
  ticks, plan approvals, cancellations, expiries, schedules and task outcomes led there, a step
  of a run without verifiers that is running, succeeded or failed has every one of its
  dependencies succeeded, and each of them is a step of the same run.\<close>

theorem dependencies_first:
  assumes "inj mnt" "wf_reach mnt w" "\<forall>s \<in> set (wf_steps w). sr_run_id s = rid \<longrightarrow> ws_role (sr_step s) \<noteq> Verifier"
    and "s \<in> set (wf_steps w)" "sr_run_id s = rid" "sr_status s \<in> {StepRunning, StepSucceeded, StepFailed}"
    and "d \<in> set (ws_depends_on (sr_step s))"
  shows "\<exists>r \<in> set (wf_steps w). sr_run_id r = rid \<and> ws_id (sr_step r) = d \<and> sr_status r = StepSucceeded"
proof -
  have inv: "ids_inv mnt w" "order_inv w"
    using order.reach_keeps[OF assms(2)] assms(1) by (simp_all add: order_ids_def)
  have "verifier_free rid w" using assms(3) by (auto simp: verifier_free_def run_graph_def step_rows_def)
  then have "ordered (run_graph rid w) (status_map rid w)" using inv(2) by (simp add: order_inv_def)
  moreover have "sr_step s \<in> set (run_graph rid w)" using assms(4, 5) by (auto simp: run_graph_def step_rows_def)
  ultimately have "status_map rid w d = Some StepSucceeded"
    using status_map_row[OF inv(1) assms(4)] assms(5-7) unfolding ordered_def started_def by blast
  then show ?thesis using status_map_iff[OF inv(1)] by blast
qed

end
