(* ===== verification/WorkflowLive.thy ===== *)
theory WorkflowLive
  imports WorkflowOrder
begin

text \<open>
  A run makes progress. While tasks succeed, a tick acts on the statuses of its run as a fold
  of one small function over the steps, every tick lowers a potential, and a run of a
  validated template ends after at most two ticks per step.
\<close>

section \<open>The abstract tick\<close>

definition advance :: "workflow_step \<Rightarrow> statuses \<Rightarrow> statuses" where
  "advance st M =
     (case M (ws_id st) of
        Some StepRunning \<Rightarrow> M(ws_id st \<mapsto> StepSucceeded)
      | Some StepPending \<Rightarrow>
          if list_all (\<lambda>d. M d = Some StepSucceeded) (ws_depends_on st)
          then M(ws_id st \<mapsto> StepRunning) else M
      | _ \<Rightarrow> M)"

fun rank :: "workflow_step_status option \<Rightarrow> nat" where
  "rank (Some StepPending) = 2"
| "rank (Some StepRunning) = 1"
| "rank _ = 0"

definition potential :: "workflow_step list \<Rightarrow> statuses \<Rightarrow> nat" where
  "potential G M = sum_list (map (\<lambda>st. rank (M (ws_id st))) G)"

definition lively :: "workflow_step list \<Rightarrow> statuses \<Rightarrow> bool" where
  "lively G M \<longleftrightarrow> (\<forall>st \<in> set G. M (ws_id st) \<in> Some ` {StepPending, StepRunning, StepSucceeded})"

lemma advance_other: "k \<noteq> ws_id st \<Longrightarrow> advance st M k = M k"
  by (simp add: advance_def split: option.split workflow_step_status.split)

lemma advance_rank: "rank (advance st M k) \<le> rank (M k)"
  by (auto simp: advance_def split: option.split workflow_step_status.split)

lemma advance_succeeded: "M k = Some StepSucceeded \<Longrightarrow> advance st M k = Some StepSucceeded"
  by (auto simp: advance_def split: option.split workflow_step_status.split)

lemma advance_lively: "lively G M \<Longrightarrow> lively G (advance st M)"
  by (auto simp: lively_def advance_def split: option.split workflow_step_status.split)

lemma advance_moves:
  assumes "M (ws_id st) = Some StepRunning \<or>
      M (ws_id st) = Some StepPending \<and> (\<forall>d \<in> set (ws_depends_on st). M d = Some StepSucceeded)"
  shows "rank (advance st M (ws_id st)) < rank (M (ws_id st))"
  using assms by (auto simp: advance_def list_all_iff)

lemma fold_advance_rank: "rank (fold advance G M k) \<le> rank (M k)"
  by (induction G arbitrary: M) (auto intro: order_trans advance_rank)

lemma fold_advance_lively: "lively G M \<Longrightarrow> lively G (fold advance ss M)"
  by (induction ss arbitrary: M) (simp_all add: advance_lively)

text \<open>A step that can move when the fold starts, moves: nothing before it changes its status
  and its dependencies stay succeeded.\<close>

lemma fold_advance_moves:
  assumes "st \<in> set G" "distinct (map ws_id G)"
    "M (ws_id st) = Some StepRunning \<or>
     M (ws_id st) = Some StepPending \<and> (\<forall>d \<in> set (ws_depends_on st). M d = Some StepSucceeded)"
  shows "rank (fold advance G M (ws_id st)) < rank (M (ws_id st))"
  using assms
proof (induction G arbitrary: M)
  case (Cons g G)
  show ?case
  proof (cases "g = st")
    case True
    have "rank (fold advance G (advance st M) (ws_id st)) \<le> rank (advance st M (ws_id st))"
      by (rule fold_advance_rank)
    also have "\<dots> < rank (M (ws_id st))" by (rule advance_moves[OF Cons.prems(3)])
    finally show ?thesis using True by simp
  next
    case False
    then have "st \<in> set G" using Cons.prems(1) by simp
    moreover from this have "ws_id st \<noteq> ws_id g" using Cons.prems(2) by (metis distinct.simps(2) image_eqI list.simps(9) list.set_map)
    ultimately show ?thesis using Cons.IH[of "advance g M"] Cons.prems(2, 3)
      by (auto simp: advance_other advance_succeeded)
  qed
qed simp

text \<open>In an acyclic graph something can move until everything has succeeded.\<close>

lemma something_moves:
  assumes "well_formed_dag G" "lively G M" "\<not> (\<forall>st \<in> set G. M (ws_id st) = Some StepSucceeded)"
  shows "\<exists>st \<in> set G. M (ws_id st) = Some StepRunning \<or>
     M (ws_id st) = Some StepPending \<and> (\<forall>d \<in> set (ws_depends_on st). M d = Some StepSucceeded)"
proof (rule ccontr)
  assume stuck: "\<not> ?thesis"
  let ?I = "ws_id ` set G" and ?V = "{i \<in> ws_id ` set G. M i = Some StepSucceeded}"
  have known: "\<forall>s \<in> set G. set (ws_depends_on s) \<subseteq> ?I" "acyclic (dep_rel G)"
    using assms(1) by (simp_all add: well_formed_dag_def)
  have "?V = ?I"
  proof (rule settled_maximal[OF _ dep_rel_within[OF known(1)] known(2)])
    fix n assume "n \<in> ?I" and deps: "\<And>d. (d, n) \<in> dep_rel G \<Longrightarrow> d \<in> ?V"
    then obtain st where st: "st \<in> set G" "n = ws_id st" by auto
    then have "\<forall>d \<in> set (ws_depends_on st). M d = Some StepSucceeded"
      using deps by (auto simp: dep_rel_iff)
    then show "n \<in> ?V" using stuck st assms(2) by (auto simp: lively_def)
  qed auto
  then show False using assms(3) by blast
qed

lemma sum_list_less:
  fixes f g :: "'a \<Rightarrow> nat"
  assumes "x \<in> set xs" "f x < g x" "\<And>y. f y \<le> g y"
  shows "sum_list (map f xs) < sum_list (map g xs)"
  using assms(1)
proof (induction xs)
  case (Cons a xs)
  have "sum_list (map f xs) \<le> sum_list (map g xs)" using assms(3) by (simp add: sum_list_mono)
  with Cons assms(2) assms(3)[of a] show ?case by (auto intro: add_less_le_mono add_le_less_mono)
qed simp

lemma sum_list_map_eq_0: "\<forall>x \<in> set xs. f x = (0::nat) \<Longrightarrow> sum_list (map f xs) = 0"
  by (induction xs) auto

lemma tick_lowers_potential:
  assumes "well_formed_dag G" "lively G M" "0 < potential G M" "mset ss = mset G"
  shows "potential G (fold advance ss M) < potential G M"
proof -
  have "\<not> (\<forall>st \<in> set G. M (ws_id st) = Some StepSucceeded)"
  proof
    assume "\<forall>st \<in> set G. M (ws_id st) = Some StepSucceeded"
    then have "\<forall>st \<in> set G. rank (M (ws_id st)) = 0" by simp
    then show False using assms(3) by (metis potential_def sum_list_map_eq_0 less_irrefl)
  qed
  then obtain st where st: "st \<in> set G" "M (ws_id st) = Some StepRunning \<or>
     M (ws_id st) = Some StepPending \<and> (\<forall>d \<in> set (ws_depends_on st). M d = Some StepSucceeded)"
    using something_moves[OF assms(1, 2)] by blast
  have "distinct (map ws_id ss)"
    using mset_eq_imp_distinct_iff[of "map ws_id ss" "map ws_id G"] assms(1, 4)
    by (simp add: well_formed_dag_def)
  then have "rank (fold advance ss M (ws_id st)) < rank (M (ws_id st))"
    using st mset_eq_setD[OF assms(4)] by (intro fold_advance_moves) auto
  then show ?thesis
    unfolding potential_def using st(1) by (intro sum_list_less[of st]) (auto intro: fold_advance_rank)
qed

lemma potential_mono: "potential G (fold advance ss M) \<le> potential G M"
  unfolding potential_def by (simp add: sum_list_mono fold_advance_rank)

lemma potential_zero:
  assumes "lively G M"
  shows "potential G M = 0 \<longleftrightarrow> (\<forall>st \<in> set G. M (ws_id st) = Some StepSucceeded)"
  using assms by (force simp: potential_def lively_def)

lemma rank_bound: "rank x \<le> 2"
  by (cases x rule: rank.cases) auto

lemma potential_bound: "potential G M \<le> 2 * length G"
  unfolding potential_def
proof (induction G)
  case (Cons a G)
  then show ?case using rank_bound[of "M (ws_id a)"] by simp
qed simp

section \<open>The tick refines it\<close>

text \<open>\<open>calm\<close>: the step may have been given a task, nothing else about the run changed, and no
  succeeded task lost its status.\<close>

definition run_key :: "id \<Rightarrow> wf \<Rightarrow> (workflow_run_status \<times> id) option" where
  "run_key rid w = map_option (\<lambda>r. (wr_status r, wr_template_id r)) (get_workflow_run w rid)"

definition calm :: "id \<Rightarrow> step_run \<Rightarrow> wf \<Rightarrow> wf \<Rightarrow> bool" where
  "calm rid s w0 w \<longleftrightarrow>
     (\<forall>t. get_task_status w0 t = Some TaskSucceeded \<longrightarrow> get_task_status w t = Some TaskSucceeded) \<and>
     (\<forall>i. i \<noteq> sr_id s \<longrightarrow> step_task_id w i = step_task_id w0 i) \<and>
     run_key rid w = run_key rid w0 \<and> wf_templates w = wf_templates w0"

named_theorems calming

lemma calm_refl: "calm rid s w w"
  by (simp add: calm_def)

lemma calm_frame:
  assumes "calm rid s w0 w" "tasks (wf_store w') = tasks (wf_store w)" "wf_role_runs w' = wf_role_runs w"
    "wf_runs w' = wf_runs w" "wf_templates w' = wf_templates w"
  shows "calm rid s w0 w'"
  using assms by (simp add: calm_def get_task_status_def find_task_def step_task_id_def run_key_def get_workflow_run_def)

lemma calm_cas_status: "calm rid s w0 w \<Longrightarrow> cas_status i x f w = (b, w') \<Longrightarrow> calm rid s w0 w'"
  by (erule calm_frame) (auto simp: cas_status_def)

lemma sql_first_sql_update_other:
  "(\<And>r. q (f r) = q r) \<Longrightarrow> (\<And>r. q r \<Longrightarrow> h (f r) = h r) \<Longrightarrow>
     map_option h (sql_first q (sql_update p f rows)) = map_option h (sql_first q rows)"
  by (induction rows) (auto simp: sql_first_def)

lemma step_task_id_via: "step_task_id w i =
    Option.bind (map_option rr_task_id (sql_first (\<lambda>rr. rr_step_run_id rr = i) (wf_role_runs w))) id"
  by (cases "sql_first (\<lambda>rr. rr_step_run_id rr = i) (wf_role_runs w)") (auto simp: step_task_id_def)

lemma role_status_task [simp]: "step_task_id (set_role_run_status_by_step j st w) i = step_task_id w i"
  unfolding step_task_id_via
  by (simp add: set_role_run_status_by_step_def sql_first_sql_update_other[where h = rr_task_id])

lemma role_task_other: "i \<noteq> j \<Longrightarrow> step_task_id (set_role_run_task j t w) i = step_task_id w i"
proof -
  assume "i \<noteq> j"
  have "map_option rr_task_id (sql_first (\<lambda>rr. rr_step_run_id rr = i)
      (sql_update (\<lambda>rr. rr_step_run_id rr = j) (\<lambda>rr. rr\<lparr>rr_task_id := Some t\<rparr>) rows)) =
    map_option rr_task_id (sql_first (\<lambda>rr. rr_step_run_id rr = i) rows)" for rows :: "role_run list"
    using \<open>i \<noteq> j\<close> by (induction rows) (auto simp: sql_first_def)
  then show ?thesis unfolding step_task_id_via by (simp add: set_role_run_task_def Let_def)
qed

lemma role_task_same:
  "j \<in> rr_step_run_id ` set (wf_role_runs w) \<Longrightarrow> step_task_id (set_role_run_task j t w) j = Some t"
proof -
  have "j \<in> rr_step_run_id ` set rows \<Longrightarrow> \<exists>r. sql_first (\<lambda>rr. rr_step_run_id rr = j)
      (sql_update (\<lambda>rr. rr_step_run_id rr = j) (\<lambda>rr. rr\<lparr>rr_task_id := Some t\<rparr>) rows) = Some r \<and>
      rr_task_id r = Some t" for rows :: "role_run list"
    by (induction rows) (auto simp: sql_first_def)
  then show "j \<in> rr_step_run_id ` set (wf_role_runs w) \<Longrightarrow> ?thesis"
    by (fastforce simp: step_task_id_def set_role_run_task_def Let_def)
qed

lemma calm_role_status [calming]: "calm rid s w0 w \<Longrightarrow> calm rid s w0 (set_role_run_status_by_step i st w)"
  by (simp add: calm_def run_key_def get_workflow_run_def get_task_status_def)
     (simp add: set_role_run_status_by_step_def)

lemma calm_role_task [calming]: "calm rid s w0 w \<Longrightarrow> calm rid s w0 (set_role_run_task (sr_id s) t w)"
  using role_task_other[of _ "sr_id s" t w]
  by (auto simp: calm_def run_key_def get_workflow_run_def get_task_status_def find_task_def
      set_role_run_task_def Let_def)

lemma spawnD:
  assumes "spawn env req w = Some (t, w')"
  shows "get_task_status w i = Some x \<Longrightarrow> get_task_status w' i = Some x"
    and "wf_role_runs w' = wf_role_runs w" "wf_runs w' = wf_runs w" "wf_templates w' = wf_templates w"
  using assms by (auto simp: spawn_def mint_def create_task_def Let_def get_task_status_def find_task_def
      intro!: exI sql_first_append split: if_splits)

lemma calm_spawn: "calm rid s w0 w \<Longrightarrow> spawn env req w = Some (t, w') \<Longrightarrow> calm rid s w0 w'"
  using spawnD[of env req w t w'] by (simp add: calm_def step_task_id_def run_key_def get_workflow_run_def)

lemma emit_run_key [simp]: "run_key rid (emit_workflow_message i fr tt k p w) = run_key rid w"
proof (cases "sql_first (\<lambda>r. wr_id r = i) (wf_runs w)")
  case (Some r0)
  have "map_option (\<lambda>r. (wr_status r, wr_template_id r)) (map_option run_view (sql_first (\<lambda>r. wr_id r = rid)
      (map (\<lambda>r. if wr_id r = i then advance_streak fr tt (r\<lparr>wr_message_sequence := wr_message_sequence r + 1\<rparr>) else r) rs)))
    = map_option (\<lambda>r. (wr_status r, wr_template_id r)) (map_option run_view (sql_first (\<lambda>r. wr_id r = rid) rs))" for rs
    by (induction rs) (auto simp: sql_first_def advance_streak_def run_view_def)
  then show ?thesis by (simp add: run_key_def get_workflow_run_def emit_some(1)[OF Some])
qed (simp add: emit_none)

lemma calm_emit [calming]: "calm rid s w0 w \<Longrightarrow> calm rid s w0 (emit_workflow_message i fr tt k p w)"
  by (simp add: calm_def get_task_status_def step_task_id_def)

text \<open>What the tick of a thriving run relies on: tasks can be created, and the task of a
  running step has succeeded.\<close>

definition expands :: "workflow_step \<Rightarrow> bool" where
  "expands st \<longleftrightarrow> ws_expandable st = Some True \<and> ws_role st = Architect"

definition thriving :: "wf \<Rightarrow> step_run \<Rightarrow> bool" where
  "thriving w s \<longleftrightarrow> sr_status s \<in> {StepPending, StepRunning, StepSucceeded} \<and> \<not> expands (sr_step s) \<and>
     (sr_status s = StepRunning \<longrightarrow>
        (\<exists>t. step_task_id w (sr_id s) = Some t \<and> get_task_status w t = Some TaskSucceeded))"

definition linked :: "id \<Rightarrow> wf \<Rightarrow> bool" where
  "linked rid w \<longleftrightarrow> (\<forall>r \<in> set (wf_steps w). sr_run_id r = rid \<longrightarrow> sr_status r = StepRunning \<longrightarrow>
     step_task_id w (sr_id r) \<noteq> None)"

lemma at_role_row: "step_at mnt rid s w0 x w \<Longrightarrow> sr_id s \<in> rr_step_run_id ` set (wf_role_runs w)"
proof -
  assume at: "step_at mnt rid s w0 x w"
  then have "set (map rr_step_run_id (wf_role_runs w)) = set (map sr_id (wf_steps w))"
    by (simp add: step_at_def ids_inv_def)
  moreover have "sr_id s \<in> sr_id ` set (wf_steps w)"
    using at unfolding step_at_def by (metis image_eqI)
  ultimately show ?thesis by simp
qed

lemma happy_step:
  assumes "ids_inv mnt w" "current rid w s" "thriving w s" "\<And>req. we_create_ok env req" "wr_id run = rid"
  shows "\<exists>created' w' x. tick_step env run snap s (status_map rid w, created, w) =
      Go (advance (sr_step s) (status_map rid w), created', w') \<and> step_at mnt rid s w x w' \<and>
      status_map rid w' = advance (sr_step s) (status_map rid w) \<and> calm rid s w w' \<and>
      (x = StepRunning \<longrightarrow> step_task_id w' (sr_id s) \<noteq> None)"
proof -
  note at = current_at(1)[OF assms(1, 2)] and st = current_at(2)[OF assms(1, 2)]
  let ?M = "status_map rid w" and ?k = "ws_id (sr_step s)"
  have to: "step_at mnt rid s w x w' \<Longrightarrow> status_map rid w' = ?M(?k \<mapsto> x)" for x w' by (simp add: step_at_def)
  consider "sr_status s = StepSucceeded" | "sr_status s = StepPending" "\<not> deps_done ?M s"
    | "sr_status s = StepRunning" | "sr_status s = StepPending" "deps_done ?M s"
    using assms(3) by (auto simp: thriving_def)
  then show ?thesis
  proof cases
    case 1
    with at st calm_refl show ?thesis by (auto simp: tick_step_def advance_def)
  next
    case 2
    with at st calm_refl show ?thesis
      by (auto simp: tick_step_def tick_pending_def advance_def deps_done_def)
  next
    case 3
    then obtain t where t: "step_task_id w (sr_id s) = Some t" "get_task_status w t = Some TaskSucceeded"
      using assms(3) by (auto simp: thriving_def)
    obtain w1 where w1: "cas_status (sr_id s) StepRunning (\<lambda>r. r\<lparr>sr_status := StepSucceeded,
        sr_finished_at := coalesce (sr_finished_at r) (we_now env)\<rparr>) w = (True, w1)"
        "step_at mnt rid s w StepSucceeded w1"
      using claim[OF at, of "\<lambda>r. r\<lparr>sr_status := StepSucceeded,
          sr_finished_at := coalesce (sr_finished_at r) (we_now env)\<rparr>" StepSucceeded] 3
      by (auto simp: step_ident_def)
    let ?w2 = "set_role_run_status_by_step (sr_id s) StepSucceeded w1"
    let ?w3 = "emit_workflow_message (wr_id run) ?k ''*'' Output (build_handoff_payload
        (''step `'' @ ?k @ ''` succeeded (task '' @ t @ '')'') (attempt_commit_for_task ?w2 t) []) ?w2"
    have at3: "step_at mnt rid s w StepSucceeded ?w3" by (intro triples w1(2))
    moreover have "calm rid s w ?w3" by (intro calming calm_cas_status[OF calm_refl w1(1)])
    moreover have "tick_step env run snap s (?M, created, w) = Go (?M(?k \<mapsto> StepSucceeded), created, ?w3)"
      using 3 t w1(1) assms(3) 
      by (auto simp: tick_step_def tick_running_def tick_succeeded_def thriving_def expands_def Let_def)
    moreover have "advance (sr_step s) ?M = ?M(?k \<mapsto> StepSucceeded)" using 3 st by (simp add: advance_def)
    ultimately show ?thesis using to by fastforce
  next
    case 4
    obtain w1 where w1: "cas_status (sr_id s) StepPending (\<lambda>r. r\<lparr>sr_status := StepRunning,
        sr_started_at := coalesce (sr_started_at r) (we_now env)\<rparr>) w = (True, w1)"
        "step_at mnt rid s w StepRunning w1"
      using claim[OF at, of "\<lambda>r. r\<lparr>sr_status := StepRunning,
          sr_started_at := coalesce (sr_started_at r) (we_now env)\<rparr>" StepRunning] 4
      by (auto simp: step_ident_def)
    let ?req = "step_request run (render_handoff_block env (ws_prompt (sr_step s))
        (messages_for_step w (wr_id run) ?k)) (sr_step s) (ws_role (sr_step s) = Collector)"
    obtain t w2 where w2: "spawn env ?req w1 = Some (t, w2)"
      using assms(4)[of ?req] by (simp add: spawn_def mint_def)
    let ?w3 = "set_role_run_status_by_step (sr_id s) StepRunning (set_role_run_task (sr_id s) t w2)"
    note at2 = at_spawn[OF w1(2) w2]
    have at3: "step_at mnt rid s w StepRunning ?w3" by (intro triples at2)
    moreover have "calm rid s w ?w3" by (intro calming calm_spawn[OF calm_cas_status[OF calm_refl w1(1)] w2])
    moreover have "step_task_id ?w3 (sr_id s) = Some t" using role_task_same[OF at_role_row[OF at2]] by simp
    moreover have "tick_step env run snap s (?M, created, w) = Go (?M(?k \<mapsto> StepRunning), created @ [t], ?w3)"
      using 4 w1(1) w2 by (simp add: tick_step_def tick_pending_def Let_def)
    moreover have "advance (sr_step s) ?M = ?M(?k \<mapsto> StepRunning)"
      using 4 st by (simp add: advance_def deps_done_def)
    ultimately show ?thesis using to by fastforce
  qed
qed

lemma ids_name_unique:
  "ids_inv mnt w \<Longrightarrow> r \<in> set (wf_steps w) \<Longrightarrow> r' \<in> set (wf_steps w) \<Longrightarrow> sr_run_id r = sr_run_id r' \<Longrightarrow>
     ws_id (sr_step r) = ws_id (sr_step r') \<Longrightarrow> r = r'"
  by (auto simp: ids_inv_def distinct_map dest: inj_onD)

lemma at_row:
  assumes at: "step_at mnt rid s w0 x w" and inv: "ids_inv mnt w0" and r: "r \<in> set (wf_steps w)" "sr_run_id r = rid"
  shows "if sr_id r = sr_id s then sr_status r = x
    else \<exists>r0 \<in> set (wf_steps w0). step_ident r0 = step_ident r \<and> sr_status r0 = sr_status r"
proof -
  from at obtain v where v: "v \<in> set (wf_steps w)" "sr_id v = sr_id s" "sr_run_id v = rid"
      "ws_id (sr_step v) = ws_id (sr_step s)" "sr_status v = x" and inv': "ids_inv mnt w"
    and M: "status_map rid w = (status_map rid w0)(ws_id (sr_step s) \<mapsto> x)"
    by (auto simp: step_at_def)
  show ?thesis
  proof (cases "sr_id r = sr_id s")
    case True
    then show ?thesis using ids_row_unique[OF inv' r(1) v(1)] v(2, 5) by auto
  next
    case False
    then have "ws_id (sr_step r) \<noteq> ws_id (sr_step s)"
      using ids_name_unique[OF inv' r(1) v(1)] r(2) v(2-4) by auto
    then have same: "status_map rid w0 (ws_id (sr_step r)) = Some (sr_status r)"
      using M status_map_row[OF inv' r(1)] r(2) by simp
    have "set (map step_ident (wf_steps w)) = set (map step_ident (wf_steps w0))"
      using at by (simp add: step_at_def)
    then have "step_ident r \<in> step_ident ` set (wf_steps w0)" using r(1) by auto
    then obtain r0 where r0: "r0 \<in> set (wf_steps w0)" "step_ident r0 = step_ident r" by auto
    then have "sr_status r0 = sr_status r"
      using same status_map_row[OF inv r0(1)] r(2) by (simp add: step_ident_def)
    with r0 False show ?thesis by auto
  qed
qed

lemma linked_step:
  assumes "step_at mnt rid s w0 x w" "ids_inv mnt w0" "linked rid w0" "calm rid s w0 w"
    "x = StepRunning \<longrightarrow> step_task_id w (sr_id s) \<noteq> None"
  shows "linked rid w"
  unfolding linked_def
proof (intro ballI impI)
  fix r assume r: "r \<in> set (wf_steps w)" "sr_run_id r = rid" "sr_status r = StepRunning"
  show "step_task_id w (sr_id r) \<noteq> None"
  proof (cases "sr_id r = sr_id s")
    case True
    then show ?thesis using at_row[OF assms(1, 2) r(1, 2)] r(3) assms(5) by simp
  next
    case False
    then obtain r0 where "r0 \<in> set (wf_steps w0)" "step_ident r0 = step_ident r" "sr_status r0 = sr_status r"
      using at_row[OF assms(1, 2) r(1, 2)] by auto
    then have "step_task_id w0 (sr_id r) \<noteq> None"
      using assms(3) r(2, 3) unfolding linked_def step_ident_def by (metis Pair_inject)
    then show ?thesis using assms(4) False by (simp add: calm_def)
  qed
qed

lemma happy_loop:
  assumes "\<And>req. we_create_ok env req" "wr_id run = rid"
  shows "ids_inv mnt w \<Longrightarrow> linked rid w \<Longrightarrow> list_all (\<lambda>s. current rid w s \<and> thriving w s) ss \<Longrightarrow>
    distinct (map (\<lambda>s. ws_id (sr_step s)) ss) \<Longrightarrow> distinct (map sr_id ss) \<Longrightarrow>
    \<exists>created' w'. tick_steps env run snap ss (status_map rid w, created, w) =
        Go (status_map rid w', created', w') \<and>
      status_map rid w' = fold advance (map sr_step ss) (status_map rid w) \<and>
      ids_inv mnt w' \<and> linked rid w' \<and> map step_ident (wf_steps w') = map step_ident (wf_steps w) \<and>
      run_key rid w' = run_key rid w \<and> wf_templates w' = wf_templates w"
proof (induction ss arbitrary: w created)
  case (Cons s ss)
  then have cur: "current rid w s" and thr: "thriving w s" by simp_all
  obtain created1 w1 x where step: "tick_step env run snap s (status_map rid w, created, w) =
      Go (advance (sr_step s) (status_map rid w), created1, w1)" and at: "step_at mnt rid s w x w1"
    and M: "status_map rid w1 = advance (sr_step s) (status_map rid w)" and calm: "calm rid s w w1"
    and link: "x = StepRunning \<longrightarrow> step_task_id w1 (sr_id s) \<noteq> None"
    using happy_step[OF Cons.prems(1) cur thr assms] by metis
  have inv1: "ids_inv mnt w1" "map step_ident (wf_steps w1) = map step_ident (wf_steps w)"
    using at by (simp_all add: step_at_def)
  have "list_all (\<lambda>s. current rid w1 s \<and> thriving w1 s) ss"
    unfolding list_all_iff
  proof
    fix s' assume s': "s' \<in> set ss"
    then have "ws_id (sr_step s') \<noteq> ws_id (sr_step s)" "sr_id s' \<noteq> sr_id s" "current rid w s'" "thriving w s'"
      using Cons.prems(3, 4, 5) by (auto simp: list_all_iff image_iff)
    then show "current rid w1 s' \<and> thriving w1 s'"
      using at_current[OF at Cons.prems(1)] calm by (auto simp: thriving_def calm_def)
  qed
  from Cons.IH[OF inv1(1) linked_step[OF at Cons.prems(1, 2) calm link] this, of created1] Cons.prems(4, 5)
  show ?case using step M inv1(2) calm by (simp add: calm_def)
qed simp

section \<open>Progress of a run\<close>

definition live_inv :: "(nat \<Rightarrow> id) \<Rightarrow> id \<Rightarrow> workflow_step list \<Rightarrow> wf \<Rightarrow> bool" where
  "live_inv mnt rid G w \<longleftrightarrow> ids_inv mnt w \<and> linked rid w \<and> run_graph rid w = G \<and>
     lively G (status_map rid w) \<and>
     (\<exists>st tid. run_key rid w = Some (st, tid) \<and> st \<in> {RunPending, RunRunning} \<and>
        (\<forall>tpl. get_workflow_template w tid = Some tpl \<longrightarrow> wt_budget tpl = None))"

definition run_done :: "id \<Rightarrow> workflow_step list \<Rightarrow> wf \<Rightarrow> bool" where
  "run_done rid G w \<longleftrightarrow> map_option wr_status (get_workflow_run w rid) = Some RunSucceeded \<and>
     run_graph rid w = G \<and> (\<forall>s \<in> set (step_rows rid w). sr_status s = StepSucceeded)"

text \<open>Every task of a running step has succeeded in the store \<open>st\<close>.\<close>

definition served :: "id \<Rightarrow> wf \<Rightarrow> store \<Rightarrow> bool" where
  "served rid w st \<longleftrightarrow> (\<forall>r \<in> set (wf_steps w). sr_run_id r = rid \<longrightarrow> sr_status r = StepRunning \<longrightarrow>
     (\<forall>t. step_task_id w (sr_id r) = Some t \<longrightarrow> map_option t_status (find_task st t) = Some TaskSucceeded))"

lemma run_key_status:
  "run_key rid (set_workflow_run_status rid st fin w) = map_option (\<lambda>(_, tid). (st, tid)) (run_key rid w)"
  by (simp add: run_key_def get_workflow_run_def set_workflow_run_status_def update_run_def
      sql_first_after_update option.map_comp comp_def run_view_def)

lemma set_status_frame [simp]:
  "wf_steps (set_workflow_run_status rid st fin w) = wf_steps w"
  "wf_role_runs (set_workflow_run_status rid st fin w) = wf_role_runs w"
  "wf_templates (set_workflow_run_status rid st fin w) = wf_templates w"
  "wf_store (set_workflow_run_status rid st fin w) = wf_store w"
  "wf_minted (set_workflow_run_status rid st fin w) = wf_minted w"
  by (simp_all add: set_workflow_run_status_def update_run_def)

lemma fold_advance_view: "fold advance (map (\<lambda>s. sr_step (step_view s)) ss) M = fold advance (map sr_step ss) M"
proof -
  have "ws_id (sr_step (step_view s)) = ws_id (sr_step s)"
      "ws_depends_on (sr_step (step_view s)) = ws_depends_on (sr_step s)" for s
    by (simp_all add: step_view_def)
  then have "advance (sr_step (step_view s)) = advance (sr_step s)" for s
    unfolding advance_def by presburger
  then show ?thesis by (induction ss arbitrary: M) simp_all
qed

lemma snapshot_sorted:
  "get_workflow_run_steps w rid = map step_view (sort_key sr_created_at (step_rows rid w))"
  by (simp add: get_workflow_run_steps_def step_rows_def)

lemma snapshot_statuses_set:
  assumes "ids_inv mnt w"
  shows "set (map sr_status (get_workflow_run_steps w rid)) =
    {x. \<exists>st \<in> set (run_graph rid w). status_map rid w (ws_id st) = Some x}"
proof -
  have "status_map rid w (ws_id (sr_step r)) = Some (sr_status r)" if "r \<in> set (step_rows rid w)" for r
    using status_map_row[OF assms, of r] that by (auto simp: step_rows_iff)
  then show ?thesis by (auto simp: snapshot_sorted run_graph_def step_view_def image_iff)
qed

lemma settle_live:
  assumes "ids_inv mnt w" "run_graph rid w = G" "lively G (status_map rid w)"
  shows "settle_run env rid w = (if potential G (status_map rid w) = 0
    then set_workflow_run_status rid RunSucceeded (Some (we_now env)) w else w)"
proof -
  let ?sts = "map sr_status (get_workflow_run_steps w rid)"
  have sts: "set ?sts = {x. \<exists>st \<in> set G. status_map rid w (ws_id st) = Some x}"
    using snapshot_statuses_set[OF assms(1)] assms(2) by simp
  then have "StepBlocked \<notin> set ?sts" "StepFailed \<notin> set ?sts" "StepCancelled \<notin> set ?sts"
    using assms(3) by (auto simp: lively_def)
  moreover have "list_all step_terminal ?sts \<longleftrightarrow> potential G (status_map rid w) = 0"
    unfolding potential_zero[OF assms(3)] list_all_iff sts
    using assms(3) by (auto simp: lively_def step_terminal_def)
  ultimately show ?thesis unfolding settle_run_def Let_def by simp
qed

lemma snapshot_thriving:
  assumes inv: "live_inv mnt rid G w" and "served rid w (wf_store w)" "\<forall>st \<in> set G. \<not> expands st"
    and s: "s \<in> set (get_workflow_run_steps w rid)"
  shows "thriving w s"
proof -
  obtain r where r: "r \<in> set (wf_steps w)" "sr_run_id r = rid" "s = step_view r"
    using s by (auto simp: snapshot_sorted step_rows_iff)
  have g: "sr_step r \<in> set G" using r inv by (auto simp: live_inv_def run_graph_def step_rows_def)
  have "status_map rid w (ws_id (sr_step r)) = Some (sr_status r)"
    using inv r status_map_row[of mnt w r] by (simp add: live_inv_def)
  then have "sr_status r \<in> {StepPending, StepRunning, StepSucceeded}"
    using inv g by (force simp: live_inv_def lively_def)
  moreover have "\<not> expands (sr_step r)" using g assms(3) by blast
  moreover have "\<exists>t. step_task_id w (sr_id r) = Some t \<and> get_task_status w t = Some TaskSucceeded"
    if "sr_status r = StepRunning"
    using that r inv assms(2) by (fastforce simp: live_inv_def linked_def served_def get_task_status_def)
  ultimately show ?thesis by (simp add: thriving_def r(3) step_view_def expands_def)
qed

lemma live_loop:
  assumes inv: "live_inv mnt rid G w" and "served rid w (wf_store w)" "\<forall>st \<in> set G. \<not> expands st"
    and "\<And>req. we_create_ok env req" "wr_id run = rid" "well_formed_dag G"
  defines "w' \<equiv> snd (tick_loop env run w)"
  shows "run_done rid G w' \<or> live_inv mnt rid G w' \<and> 0 < potential G (status_map rid w') \<and>
     potential G (status_map rid w') < potential G (status_map rid w)"
proof -
  let ?ss = "get_workflow_run_steps w rid"
  have ids: "ids_inv mnt w" "linked rid w" and graph: "run_graph rid w = G" and lively: "lively G (status_map rid w)"
    using inv by (simp_all add: live_inv_def)
  have "mset (map (\<lambda>s. ws_id (sr_step s)) ?ss) = mset (map (\<lambda>s. ws_id (sr_step s)) (step_rows rid w))"
      "mset (map sr_id ?ss) = mset (map sr_id (step_rows rid w))"
    by (simp_all add: snapshot_sorted step_view_def comp_def)
  note mset_eq_imp_distinct_iff[OF this(1)] mset_eq_imp_distinct_iff[OF this(2)]
  moreover have "distinct (map sr_id (step_rows rid w))"
    using ids(1) by (simp add: ids_inv_def step_rows_def distinct_map_filter)
  ultimately have distinct: "distinct (map (\<lambda>s. ws_id (sr_step s)) ?ss)" "distinct (map sr_id ?ss)"
    using step_names_distinct[OF ids(1)] by blast+
  have all: "list_all (\<lambda>s. current rid w s \<and> thriving w s) ?ss"
    using snapshot_current snapshot_thriving[OF assms(1-3)] by (simp add: list_all_iff)
  obtain created v where loop: "tick_steps env run ?ss ?ss (status_map rid w, [], w) =
        Go (status_map rid v, created, v)"
      and M: "status_map rid v = fold advance (map sr_step ?ss) (status_map rid w)"
      and v: "ids_inv mnt v" "linked rid v" "map step_ident (wf_steps v) = map step_ident (wf_steps w)"
        "run_key rid v = run_key rid w" "wf_templates v = wf_templates w"
    using happy_loop[OF assms(4, 5) ids all distinct] by blast
  have w': "w' = settle_run env rid v"
    using loop by (simp add: w'_def tick_loop_def Let_def assms(5) snapshot_statuses[OF ids(1)])
  have fold: "status_map rid v = fold advance (map sr_step (sort_key sr_created_at (step_rows rid w))) (status_map rid w)"
    unfolding M by (simp add: snapshot_sorted comp_def fold_advance_view)
  have "mset (map sr_step (sort_key sr_created_at (step_rows rid w))) = mset G"
    using graph by (auto simp: run_graph_def)
  from tick_lowers_potential[OF assms(6) lively _ this]
  have less: "0 < potential G (status_map rid v) \<Longrightarrow> potential G (status_map rid v) < potential G (status_map rid w)"
    using potential_mono[of G "map sr_step (sort_key sr_created_at (step_rows rid w))" "status_map rid w"]
    unfolding fold by linarith
  have graph': "run_graph rid v = G" using run_graph_ident[OF v(3)] graph by simp
  have lively': "lively G (status_map rid v)" unfolding M by (rule fold_advance_lively[OF lively])
  show ?thesis
  proof (cases "potential G (status_map rid v) = 0")
    case True
    have succ: "w' = set_workflow_run_status rid RunSucceeded (Some (we_now env)) v"
      using True by (simp add: w' settle_live[OF v(1) graph' lively'])
    have "run_key rid v \<noteq> None" using v(4) inv by (auto simp: live_inv_def)
    with succ have "map_option wr_status (get_workflow_run w' rid) = Some RunSucceeded"
      using run_key_status[of rid RunSucceeded "Some (we_now env)" v] by (auto simp: run_key_def)
    moreover have "sr_status s = StepSucceeded" if "s \<in> set (step_rows rid v)" for s
    proof -
      have "sr_step s \<in> set G" using that graph' by (auto simp: run_graph_def)
      then have "status_map rid v (ws_id (sr_step s)) = Some StepSucceeded"
        using True potential_zero[OF lively'] by blast
      then show ?thesis using status_map_row[OF v(1), of s] that by (auto simp: step_rows_iff)
    qed
    ultimately show ?thesis
      using succ graph' by (simp add: run_done_def run_graph_def step_rows_def)
  next
    case False
    then have "w' = v" by (simp add: w' settle_live[OF v(1) graph' lively'])
    obtain st tid where "run_key rid w = Some (st, tid)" "st \<in> {RunPending, RunRunning}"
        "\<forall>tpl. get_workflow_template w tid = Some tpl \<longrightarrow> wt_budget tpl = None"
      using inv by (auto simp: live_inv_def)
    then have "run_key rid v = Some (st, tid)" "st \<in> {RunPending, RunRunning}"
        "\<forall>tpl. get_workflow_template v tid = Some tpl \<longrightarrow> wt_budget tpl = None"
      using v(4, 5) by (simp_all add: get_workflow_template_def)
    then have "live_inv mnt rid G v" unfolding live_inv_def using v(1, 2) graph' lively' by blast
    then show ?thesis using False less \<open>w' = v\<close> by simp
  qed
qed

lemma live_tick:
  assumes inv: "live_inv mnt rid G w" and "served rid w (wf_store w)" "\<forall>st \<in> set G. \<not> expands st"
    and "\<And>req. we_create_ok env req" "well_formed_dag G"
  defines "w' \<equiv> snd (tick_workflow_run env rid w)"
  shows "run_done rid G w' \<or> live_inv mnt rid G w' \<and> 0 < potential G (status_map rid w') \<and>
     potential G (status_map rid w') < potential G (status_map rid w)"
proof -
  obtain st tid where key: "run_key rid w = Some (st, tid)" "st \<in> {RunPending, RunRunning}"
      "\<forall>tpl. get_workflow_template w tid = Some tpl \<longrightarrow> wt_budget tpl = None"
    using inv by (auto simp: live_inv_def)
  then obtain run where run: "get_workflow_run w rid = Some run" "wr_status run = st" "wr_template_id run = tid"
    by (auto simp: run_key_def)
  have id: "wr_id run = rid" by (rule ids.own.run_view_id[OF run(1)])
  define w1 where "w1 = (if wr_status run = RunPending then set_workflow_run_status rid RunRunning None w else w)"
  have same: "wf_steps w1 = wf_steps w" "wf_role_runs w1 = wf_role_runs w" "wf_templates w1 = wf_templates w"
      "wf_store w1 = wf_store w" "wf_minted w1 = wf_minted w"
    by (simp_all add: w1_def)
  have "get_workflow_template w1 tid = get_workflow_template w tid"
    by (simp add: get_workflow_template_def same)
  then have "budget_breached env run w1 = None"
    using key(3) run(3) by (simp add: budget_breached_def split: option.split)
  then have w': "w' = snd (tick_loop env run w1)"
    using run key(2) id by (auto simp: w'_def tick_workflow_run_def tick_active_def w1_def Let_def)
  have M: "status_map rid w1 = status_map rid w" by (rule status_map_cong[OF same(1)])
  have "ids_inv mnt w1"
    by (rule ids_inv_cong[of w1 w]) (use inv in \<open>simp_all add: same live_inv_def\<close>)
  moreover have "linked rid w1" "run_graph rid w1 = G" "lively G (status_map rid w1)"
    using inv by (simp_all add: live_inv_def linked_def step_task_id_def run_graph_def step_rows_def same M)
  moreover have "\<exists>st'. run_key rid w1 = Some (st', tid) \<and> st' \<in> {RunPending, RunRunning}"
    using key(1, 2) by (auto simp: w1_def run_key_status)
  moreover have "\<forall>tpl. get_workflow_template w1 tid = Some tpl \<longrightarrow> wt_budget tpl = None"
    using key(3) by (simp add: get_workflow_template_def same)
  ultimately have "live_inv mnt rid G w1" unfolding live_inv_def by blast
  moreover have "served rid w1 (wf_store w1)"
    using assms(2) by (simp add: served_def step_task_id_def same)
  ultimately show ?thesis
    using live_loop[of mnt rid G w1 env run] assms(3-5) id by (simp add: w' M)
qed

text \<open>Rounds of a run: between two ticks the store changes as it will.\<close>

fun rounds :: "(wf_env \<times> store) list \<Rightarrow> id \<Rightarrow> wf \<Rightarrow> wf" where
  "rounds [] rid w = w"
| "rounds ((env, st) # xs) rid w = rounds xs rid (snd (tick_workflow_run env rid (w\<lparr>wf_store := st\<rparr>)))"

text \<open>Every task succeeds before the next tick, and tasks can be created.\<close>

fun all_succeed :: "(nat \<Rightarrow> id) \<Rightarrow> (wf_env \<times> store) list \<Rightarrow> id \<Rightarrow> wf \<Rightarrow> bool" where
  "all_succeed mnt [] rid w = True"
| "all_succeed mnt ((env, st) # xs) rid w \<longleftrightarrow> we_mint env = mnt \<and> (\<forall>req. we_create_ok env req) \<and>
     served rid w st \<and> all_succeed mnt xs rid (snd (tick_workflow_run env rid (w\<lparr>wf_store := st\<rparr>)))"

lemma done_stays: "run_done rid G w \<Longrightarrow> run_done rid G (rounds xs rid w)"
proof (induction xs arbitrary: w)
  case (Cons x xs)
  obtain env st where x: "x = (env, st)" by (cases x)
  let ?w = "w\<lparr>wf_store := st\<rparr>"
  obtain run where run: "get_workflow_run ?w rid = Some run" "wr_status run = RunSucceeded"
    using Cons.prems by (auto simp: run_done_def get_workflow_run_def)
  then have "snd (tick_workflow_run env rid ?w) = ?w"
    by (simp add: tick_workflow_run_def tick_active_def)
  moreover have "run_done rid G ?w"
    using Cons.prems by (simp add: run_done_def get_workflow_run_def run_graph_def step_rows_def)
  ultimately show ?case using Cons.IH x by simp
qed simp

lemma rounds_finish:
  assumes "well_formed_dag G" "\<forall>st \<in> set G. \<not> expands st"
  shows "live_inv mnt rid G w \<Longrightarrow> all_succeed mnt xs rid w \<Longrightarrow> xs \<noteq> [] \<Longrightarrow>
    potential G (status_map rid w) \<le> length xs \<Longrightarrow> run_done rid G (rounds xs rid w)"
proof (induction xs arbitrary: w)
  case (Cons x xs)
  obtain env st where x: "x = (env, st)" by (cases x)
  let ?w = "w\<lparr>wf_store := st\<rparr>" and ?w' = "snd (tick_workflow_run env rid (w\<lparr>wf_store := st\<rparr>))"
  have M: "status_map rid ?w = status_map rid w" by (rule status_map_cong) simp
  have "live_inv mnt rid G ?w"
    using Cons.prems(1) ids_inv_cong[of ?w w mnt]
    by (simp add: live_inv_def linked_def step_task_id_def run_graph_def step_rows_def M
        run_key_def get_workflow_run_def get_workflow_template_def)
  moreover have "served rid ?w (wf_store ?w)"
    using Cons.prems(2) x by (simp add: served_def step_task_id_def)
  moreover have "we_create_ok env req" for req using Cons.prems(2) x by simp
  ultimately have "run_done rid G ?w' \<or> live_inv mnt rid G ?w' \<and> 0 < potential G (status_map rid ?w') \<and>
      potential G (status_map rid ?w') < potential G (status_map rid w)"
    using live_tick[of mnt rid G ?w env] assms unfolding M by blast
  then show ?case
  proof
    assume "run_done rid G ?w'"
    then show ?thesis using done_stays x by simp
  next
    assume "live_inv mnt rid G ?w' \<and> 0 < potential G (status_map rid ?w') \<and>
      potential G (status_map rid ?w') < potential G (status_map rid w)"
    moreover from this have "xs \<noteq> []" using Cons.prems(4) by auto
    ultimately show ?thesis using Cons.IH Cons.prems(2, 4) x by simp
  qed
qed simp

lemma run_completes:
  assumes "inj mnt" "wf_reach mnt w" "get_workflow_run w rid = Some run" "wr_status run \<in> {RunPending, RunRunning}"
    and valid: "validate_workflow_dag order (run_graph rid w) = Some (Inr ())" "\<And>ys. mset (order ys) = mset ys"
    and budget: "\<forall>tpl. get_workflow_template w (wr_template_id run) = Some tpl \<longrightarrow> wt_budget tpl = None"
    and steps: "\<forall>s \<in> set (step_rows rid w). \<not> expands (sr_step s) \<and>
      (sr_status s \<in> {StepPending, StepSucceeded} \<or> sr_status s = StepRunning \<and> step_task_id w (sr_id s) \<noteq> None)"
    and "all_succeed mnt xs rid w" "2 * length (run_graph rid w) \<le> length xs"
  shows "run_done rid (run_graph rid w) (rounds xs rid w)"
proof -
  let ?G = "run_graph rid w"
  have G: "?G \<noteq> []" "well_formed_dag ?G" using validate_workflow_dag_spec[OF valid(2), of ?G] valid(1) by auto
  have ids: "ids_inv mnt w" using ids.reach_keeps[OF assms(2)] assms(1) by blast
  have "lively ?G (status_map rid w)"
    unfolding lively_def
  proof
    fix st assume "st \<in> set ?G"
    then obtain r where r: "r \<in> set (step_rows rid w)" "st = sr_step r" by (auto simp: run_graph_def)
    then have "status_map rid w (ws_id st) = Some (sr_status r)"
      using status_map_row[OF ids, of r] by (auto simp: step_rows_iff)
    then show "status_map rid w (ws_id st) \<in> Some ` {StepPending, StepRunning, StepSucceeded}"
      using steps r by auto
  qed
  moreover have "linked rid w" unfolding linked_def using steps by (force simp: step_rows_iff)
  moreover have "run_key rid w = Some (wr_status run, wr_template_id run)" using assms(3) by (simp add: run_key_def)
  ultimately have "live_inv mnt rid ?G w" unfolding live_inv_def using ids assms(4) budget by blast
  moreover have "xs \<noteq> []" using G(1) assms(10) by auto
  moreover have "potential ?G (status_map rid w) \<le> length xs" using potential_bound assms(10) order_trans by blast
  moreover have "\<forall>st \<in> set ?G. \<not> expands st" using steps by (auto simp: run_graph_def)
  ultimately show ?thesis using rounds_finish[OF G(2)] assms(9) by blast
qed

text \<open>C16: progress. From any reachable state, an active run whose graph passes validation, with
  no budget and no plan step, every step pending, running with a task, or succeeded, is
  succeeded with all its steps after at most two ticks per step, provided the tasks in flight
  succeed before each tick and tasks can be created.\<close>

theorem validated_run_completes:
  assumes "inj mnt" "wf_reach mnt w" "get_workflow_run w rid = Some run" "wr_status run \<in> {RunPending, RunRunning}"
    and "validate_workflow_dag order (run_graph rid w) = Some (Inr ())" "\<And>ys. mset (order ys) = mset ys"
    and "\<forall>tpl. get_workflow_template w (wr_template_id run) = Some tpl \<longrightarrow> wt_budget tpl = None"
    and "\<forall>s \<in> set (step_rows rid w). \<not> expands (sr_step s) \<and>
      (sr_status s \<in> {StepPending, StepSucceeded} \<or> sr_status s = StepRunning \<and> step_task_id w (sr_id s) \<noteq> None)"
    and "all_succeed mnt xs rid w" "2 * length (run_graph rid w) \<le> length xs"
  shows "map_option wr_status (get_workflow_run (rounds xs rid w) rid) = Some RunSucceeded \<and>
    map sr_step (step_rows rid (rounds xs rid w)) = map sr_step (step_rows rid w) \<and>
    (\<forall>s \<in> set (step_rows rid (rounds xs rid w)). sr_status s = StepSucceeded)"
  using run_completes[OF assms] by (auto simp: run_done_def run_graph_def)

section \<open>A run of two steps\<close>

definition finish_all :: "store \<Rightarrow> store" where
  "finish_all st = st\<lparr>tasks := map (\<lambda>t. t\<lparr>t_status := TaskSucceeded\<rparr>) (tasks st)\<rparr>"

definition demo_round :: "wf \<Rightarrow> wf" where
  "demo_round w = snd (tick_workflow_run (demo_env 1) demo_run (w\<lparr>wf_store := finish_all (wf_store w)\<rparr>))"

fun demo_rounds :: "nat \<Rightarrow> wf \<Rightarrow> (wf_env \<times> store) list" where
  "demo_rounds 0 w = []"
| "demo_rounds (Suc n) w = (demo_env 1, finish_all (wf_store w)) # demo_rounds n (demo_round w)"

text \<open>Every task a step is linked to is in the store.\<close>

definition tasks_exist :: "wf \<Rightarrow> bool" where
  "tasks_exist w \<longleftrightarrow> list_all (\<lambda>r. case step_task_id w (sr_id r) of None \<Rightarrow> True
      | Some t \<Rightarrow> find_task (wf_store w) t \<noteq> None) (wf_steps w)"

fun tasks_exist_during :: "nat \<Rightarrow> wf \<Rightarrow> bool" where
  "tasks_exist_during 0 w = True"
| "tasks_exist_during (Suc n) w \<longleftrightarrow> tasks_exist w \<and> tasks_exist_during n (demo_round w)"

lemma finish_all_task:
  "find_task st t \<noteq> None \<Longrightarrow> map_option t_status (find_task (finish_all st) t) = Some TaskSucceeded"
proof -
  have "sql_first (\<lambda>x. t_id x = t) ts \<noteq> None \<Longrightarrow>
      map_option t_status (sql_first (\<lambda>x. t_id x = t) (map (\<lambda>x. x\<lparr>t_status := TaskSucceeded\<rparr>) ts)) = Some TaskSucceeded"
    for ts :: "task_row list"
    by (induction ts) (auto simp: sql_first_def)
  then show "find_task st t \<noteq> None \<Longrightarrow> ?thesis" by (simp add: find_task_def finish_all_def)
qed

lemma demo_rounds_succeed: "tasks_exist_during n w \<Longrightarrow> all_succeed demo_mint (demo_rounds n w) demo_run w"
proof (induction n arbitrary: w)
  case (Suc n)
  have "served demo_run w (finish_all (wf_store w))"
    using Suc.prems finish_all_task[of "wf_store w"]
    by (auto simp: served_def tasks_exist_def list_all_iff)
  then show ?case using Suc by (simp add: demo_round_def) (simp add: demo_env_def)
qed simp

lemma demo_rounds_length: "length (demo_rounds n w) = n"
  by (induction n arbitrary: w) simp_all

lemma demo_rounds_reach: "wf_reach demo_mint w \<Longrightarrow> wf_reach demo_mint (rounds (demo_rounds n w) demo_run w)"
proof (induction n arbitrary: w)
  case (Suc n)
  have "wf_reach demo_mint (demo_round w)"
    unfolding demo_round_def
    by (rule reach_move[OF reach_move[OF Suc.prems move_store] move_tick[OF demo_env_mint surjective_pairing]])
  then show ?case using Suc.IH by (simp add: demo_round_def)
qed simp

definition duo :: "workflow_step list" where
  "duo = [plain_step ''a'' [], plain_step ''b'' [''a'']]"

definition duo_defined :: wf where
  "duo_defined = snd (create_workflow_template (demo_env 0) ''duo'' duo None (wf_init empty_store))"

definition duo_created :: wf where
  "duo_created = snd (create_workflow_run_full (demo_env 0) ''wft-'' default_request duo_defined)"

lemma duo_reach: "wf_reach demo_mint duo_created"
  unfolding duo_created_def duo_defined_def
  by (rule reach_move[OF reach_move[OF reach_init move_template[OF demo_env_mint surjective_pairing]]
        move_run[OF demo_env_mint surjective_pairing]])

lemma duo_valid: "validate_workflow_dag (\<lambda>xs. xs) duo = Some (Inr ())"
  by (simp add: duo_def validate_workflow_dag_def edges_def bump_counter_def drop_counter_def push_adj_def)

lemma duo_defined_eq: "duo_defined = (wf_init empty_store)\<lparr>wf_minted := 1, wf_templates :=
    [\<lparr>wt_id = ''wft-'', wt_name = ''duo'', wt_steps = duo, wt_budget = None, wt_created_at = 0\<rparr>]\<rparr>"
  using duo_valid
  by (simp add: duo_defined_def create_workflow_template_def mint_def demo_mint_def demo_env_def wf_init_def Let_def)

lemma duo_created_eq: "duo_created = \<lparr>wf_store = empty_store,
    wf_templates = [\<lparr>wt_id = ''wft-'', wt_name = ''duo'', wt_steps = duo, wt_budget = None, wt_created_at = 0\<rparr>],
    wf_runs = [demo_row],
    wf_steps = [fresh_row ''wfs-xx'' (plain_step ''a'' []), fresh_row ''wfs-xxxx'' (plain_step ''b'' [''a''])],
    wf_role_runs = [fresh_role ''wrr-xxx'' ''wfs-xx'', fresh_role ''wrr-xxxxx'' ''wfs-xxxx''],
    wf_messages = [], wf_schedules = [], wf_minted = 6\<rparr>"
  unfolding duo_created_def duo_defined_eq
  by (simp add: create_workflow_run_full_def new_run_def validate_github_refs_def
      default_request_def get_workflow_template_def sql_first_def insert_step_def mint_def Let_def duo_def
      wf_init_def demo_env_def demo_mint_def fresh_row_def fresh_role_def demo_row_def demo_run_def numeral_eq_Suc)

lemma duo_rows: "step_rows demo_run duo_created =
    [fresh_row ''wfs-xx'' (plain_step ''a'' []), fresh_row ''wfs-xxxx'' (plain_step ''b'' [''a''])]"
  by (simp add: step_rows_def duo_created_eq fresh_row_def)

lemma duo_tasks: "tasks_exist_during 4 duo_created"
  by code_simp

lemma duo_run: "get_workflow_run duo_created demo_run = Some (run_view demo_row)"
  by (simp add: get_workflow_run_def duo_created_eq sql_first_def demo_row_def)

lemma duo_premises:
  "validate_workflow_dag (\<lambda>xs. xs) (run_graph demo_run duo_created) = Some (Inr ())"
  "wr_status (run_view demo_row) \<in> {RunPending, RunRunning}"
  "\<forall>tpl. get_workflow_template duo_created (wr_template_id (run_view demo_row)) = Some tpl \<longrightarrow> wt_budget tpl = None"
  "\<forall>s \<in> set (step_rows demo_run duo_created). \<not> expands (sr_step s) \<and> (sr_status s \<in> {StepPending, StepSucceeded} \<or>
     sr_status s = StepRunning \<and> step_task_id duo_created (sr_id s) \<noteq> None)"
  "all_succeed demo_mint (demo_rounds 4 duo_created) demo_run duo_created"
  "2 * length (run_graph demo_run duo_created) \<le> length (demo_rounds 4 duo_created)"
proof -
  have graph: "run_graph demo_run duo_created = duo"
    by (simp add: run_graph_def duo_rows duo_def fresh_row_def)
  show "validate_workflow_dag (\<lambda>xs. xs) (run_graph demo_run duo_created) = Some (Inr ())"
    "2 * length (run_graph demo_run duo_created) \<le> length (demo_rounds 4 duo_created)"
    unfolding graph by (simp_all add: duo_valid demo_rounds_length) (simp add: duo_def)
  show "\<forall>tpl. get_workflow_template duo_created (wr_template_id (run_view demo_row)) = Some tpl \<longrightarrow> wt_budget tpl = None"
    by (simp add: get_workflow_template_def duo_created_eq sql_first_def)
qed (simp_all add: duo_rows fresh_row_def run_view_def demo_row_def expands_def demo_rounds_succeed[OF duo_tasks])

definition duo_done :: wf where
  "duo_done = rounds (demo_rounds 4 duo_created) demo_run duo_created"

lemmas duo_args = demo_mint_inj duo_reach duo_run duo_premises(2, 1) refl duo_premises(3-6)

theorem validated_run_completes_witness:
  "inj demo_mint \<and> wf_reach demo_mint duo_created \<and> map_option wr_status (get_workflow_run duo_done demo_run) = Some RunSucceeded"
  using validated_run_completes[OF duo_args] demo_mint_inj duo_reach unfolding duo_done_def by blast

text \<open>At the end of that run the second step has succeeded, and so has its dependency.\<close>

theorem dependencies_first_witness:
  "wf_reach demo_mint duo_done \<and> (\<exists>s \<in> set (wf_steps duo_done). sr_step s = plain_step ''b'' [''a''] \<and>
     sr_status s = StepSucceeded) \<and>
   (\<exists>r \<in> set (wf_steps duo_done). sr_run_id r = demo_run \<and> ws_id (sr_step r) = ''a'' \<and> sr_status r = StepSucceeded)"
proof -
  have rch: "wf_reach demo_mint duo_done" unfolding duo_done_def by (rule demo_rounds_reach[OF duo_reach])
  have fin: "run_done demo_run (run_graph demo_run duo_created) duo_done"
    unfolding duo_done_def by (rule run_completes[OF duo_args])
  then have graph: "map sr_step (step_rows demo_run duo_done) = duo"
    by (simp add: run_done_def run_graph_def duo_rows duo_def fresh_row_def)
  then have "sr_step ` set (step_rows demo_run duo_done) = set duo" by (metis list.set_map)
  then have roles: "\<forall>s \<in> set (wf_steps duo_done). sr_run_id s = demo_run \<longrightarrow> ws_role (sr_step s) \<noteq> Verifier"
    and "\<exists>s \<in> set (step_rows demo_run duo_done). sr_step s = plain_step ''b'' [''a'']"
    unfolding step_rows_def duo_def by (auto simp: image_iff set_eq_iff) (metis plain_step_simps(3) workflow_role.distinct)+
  then obtain s where s: "s \<in> set (wf_steps duo_done)" "sr_run_id s = demo_run" "sr_step s = plain_step ''b'' [''a'']"
      "sr_status s = StepSucceeded"
    using fin by (auto simp: run_done_def step_rows_iff)
  with dependencies_first[OF demo_mint_inj rch roles s(1, 2), of "''a''"] rch show ?thesis by auto
qed

end
