(* ===== verification/NodeOutbox.thy ===== *)
theory NodeOutbox
  imports StoreOps
begin

text \<open>
  The durable spools of a node (\<open>node-daemon/src/outbox.rs\<close>): one file of events per
  attempt, and one file of completion reports. A line of a file stands for the value its JSON
  text parses to; text that does not parse is kept as it is. Blank lines, which every reader
  skips, are left out. The outcome of a disk operation and the readings of the clocks are
  arguments. A write that fails may leave the first part of its bytes behind; the last line of a
  file is then without its newline, and what is appended next continues it. The text of a line is
  ASCII here: a write cut inside a longer character, after which the whole file cannot be read as
  text, is left out.
\<close>

section \<open>The event spool\<close>

record event_line =
  el_seq :: "64 word"
  el_type :: "event_type option"
  el_payload :: string
  el_enqueued_at :: "64 word"

datatype event_spool_line = EventLine event_line | TornEvent string

datatype push_error = SpoolFull | Other

record outbox_cfg =
  oc_text :: "event_line \<Rightarrow> string"
  oc_spool_limit :: nat
  oc_quota :: nat
  oc_fsync_interval :: time

record outbox =
  ob_file :: "event_spool_line list option"
  ob_open :: bool
  ob_quarantine :: "event_spool_line list"
  ob_last_fsync :: time
  ob_quota_cache :: "time \<times> nat"

text \<open>What a push meets: the clocks, the scan of the spool directory, the fate of the append (the
  file cannot be opened, the write stops after some bytes, or all is written) and whether the sync
  succeeds.\<close>

datatype append_io = OpenFails | WriteStops nat | Written

record push_env =
  pe_now :: time
  pe_epoch_ms :: "64 word"
  pe_total :: "nat option"
  pe_write :: append_io
  pe_sync_ok :: bool

text \<open>The file that is found when the spool is opened, if any, with its lines and whether the last of
  them is without a newline.\<close>

definition open_outbox :: "time \<Rightarrow> (event_spool_line list \<times> bool) option \<Rightarrow> outbox" where
  "open_outbox now file =
     \<lparr>ob_file = map_option fst file, ob_open = (case file of None \<Rightarrow> False | Some (ls, unterminated) \<Rightarrow> unterminated),
      ob_quarantine = [], ob_last_fsync = now, ob_quota_cache = (now, 0)\<rparr>"

definition terminal_reserved :: nat where
  "terminal_reserved = 64 * 1024"

definition spool_terminal :: "event_type \<Rightarrow> bool" where
  "spool_terminal ty \<longleftrightarrow> ty \<in> {EvtStatus, EvtTool, EvtArtifact, EvtResult, EvtError}"

definition effective_limit :: "outbox_cfg \<Rightarrow> event_type \<Rightarrow> nat" where
  "effective_limit cfg ty =
     (if spool_terminal ty then min (oc_spool_limit cfg + terminal_reserved) (2 ^ 64 - 1)
      else oc_spool_limit cfg)"

fun line_text :: "outbox_cfg \<Rightarrow> event_spool_line \<Rightarrow> string" where
  "line_text cfg (EventLine l) = oc_text cfg l"
| "line_text cfg (TornEvent s) = s"

definition line_len :: "outbox_cfg \<Rightarrow> event_spool_line \<Rightarrow> nat" where
  "line_len cfg l = length (line_text cfg l) + 1"

definition file_len :: "outbox_cfg \<Rightarrow> bool \<Rightarrow> event_spool_line list \<Rightarrow> nat" where
  "file_len cfg unterminated ls = sum_list (map (line_len cfg) ls) - (if unterminated then 1 else 0)"

definition rescan :: "push_env \<Rightarrow> time \<times> nat \<Rightarrow> time \<times> nat" where
  "rescan pe cache =
     (if secs 1 \<le> pe_now pe - fst cache
      then (case pe_total pe of Some n \<Rightarrow> (pe_now pe, n) | None \<Rightarrow> cache) else cache)"

definition line_of :: "push_env \<Rightarrow> ingest_event \<Rightarrow> event_spool_line" where
  "line_of pe ev = EventLine \<lparr>el_seq = ie_sequence ev, el_type = Some (ie_type ev),
     el_payload = ie_payload ev, el_enqueued_at = pe_epoch_ms pe\<rparr>"

definition sync_due :: "outbox_cfg \<Rightarrow> push_env \<Rightarrow> outbox \<Rightarrow> bool" where
  "sync_due cfg pe ob \<longleftrightarrow> oc_fsync_interval cfg = 0 \<or> oc_fsync_interval cfg \<le> pe_now pe - ob_last_fsync ob"

text \<open>Appending text: on a file whose last line is not terminated the new text continues that line,
  and the two together are not the JSON of an event. A part of a line is no event either; the whole
  line without its newline is.\<close>

definition append_text :: "outbox_cfg \<Rightarrow> event_spool_line \<Rightarrow> bool \<Rightarrow> outbox \<Rightarrow> outbox" where
  "append_text cfg l terminated ob =
     (let ls = (case ob_file ob of None \<Rightarrow> [] | Some ls \<Rightarrow> ls)
      in ob\<lparr>ob_file := Some (if ob_open ob then butlast ls @ [TornEvent (line_text cfg (last ls) @ line_text cfg l)] else ls @ [l]),
            ob_open := \<not> terminated\<rparr>)"

definition partial_write :: "outbox_cfg \<Rightarrow> event_spool_line \<Rightarrow> nat \<Rightarrow> outbox \<Rightarrow> outbox" where
  "partial_write cfg l n ob =
     (if n = 0 then ob\<lparr>ob_file := Some (case ob_file ob of None \<Rightarrow> [] | Some ls \<Rightarrow> ls)\<rparr>
      else append_text cfg (if n < length (line_text cfg l) then TornEvent (take n (line_text cfg l)) else l) False ob)"

definition append_line :: "outbox_cfg \<Rightarrow> push_env \<Rightarrow> event_spool_line \<Rightarrow> outbox \<Rightarrow> (push_error + unit) \<times> outbox" where
  "append_line cfg pe l ob =
     (case pe_write pe of
        OpenFails \<Rightarrow> (Inl Other, ob)
      | WriteStops n \<Rightarrow> (Inl Other, partial_write cfg l n ob)
      | Written \<Rightarrow>
          (let ob1 = (append_text cfg l True ob)\<lparr>ob_quota_cache := (if 0 < oc_quota cfg
                 then (fst (ob_quota_cache ob), snd (ob_quota_cache ob) + line_len cfg l)
                 else ob_quota_cache ob)\<rparr>
           in if \<not> sync_due cfg pe ob then (Inr (), ob1)
              else if \<not> pe_sync_ok pe then (Inl Other, ob1)
              else (Inr (), ob1\<lparr>ob_last_fsync := pe_now pe\<rparr>)))"

definition outbox_push :: "outbox_cfg \<Rightarrow> push_env \<Rightarrow> ingest_event \<Rightarrow> outbox \<Rightarrow> (push_error + unit) \<times> outbox" where
  "outbox_push cfg pe ev ob =
     (let cache = (if 0 < oc_quota cfg then rescan pe (ob_quota_cache ob) else ob_quota_cache ob);
          ob1 = ob\<lparr>ob_quota_cache := cache\<rparr>
      in if 0 < oc_quota cfg \<and> oc_quota cfg \<le> snd cache then (Inl SpoolFull, ob1)
         else if 0 < oc_spool_limit cfg \<and>
           (case ob_file ob of None \<Rightarrow> False | Some ls \<Rightarrow> effective_limit cfg (ie_type ev) \<le> file_len cfg (ob_open ob) ls)
         then (Inl SpoolFull, ob1)
         else append_line cfg pe (line_of pe ev) ob1)"

definition discard :: "outbox \<Rightarrow> outbox" where
  "discard ob = ob\<lparr>ob_file := None, ob_open := False\<rparr>"

fun event_of_line :: "event_spool_line \<Rightarrow> ingest_event option" where
  "event_of_line (EventLine l) = Some \<lparr>ie_sequence = el_seq l,
     ie_type = (case el_type l of Some ty \<Rightarrow> ty | None \<Rightarrow> EvtStatus), ie_payload = el_payload l\<rparr>"
| "event_of_line (TornEvent s) = None"

definition spooled :: "outbox \<Rightarrow> ingest_event list" where
  "spooled ob = (case ob_file ob of None \<Rightarrow> [] | Some ls \<Rightarrow> List.map_filter event_of_line ls)"

text \<open>The events on terminated lines, which nothing appended later can touch.\<close>

definition settled :: "outbox \<Rightarrow> ingest_event list" where
  "settled ob = (case ob_file ob of None \<Rightarrow> []
     | Some ls \<Rightarrow> List.map_filter event_of_line (if ob_open ob then butlast ls else ls))"

text \<open>Reading the spool moves the lines that do not parse to the quarantine and then terminates
  every line that is left.\<close>

definition outbox_pending :: "outbox \<Rightarrow> ingest_event list \<times> outbox" where
  "outbox_pending ob =
     (case ob_file ob of
        None \<Rightarrow> ([], ob)
      | Some ls \<Rightarrow>
          (let torn = filter (\<lambda>l. event_of_line l = None) ls
           in (List.map_filter event_of_line ls,
               if torn = [] then ob
               else ob\<lparr>ob_file := Some (filter (\<lambda>l. event_of_line l \<noteq> None) ls), ob_open := False,
                       ob_quarantine := ob_quarantine ob @ torn\<rparr>)))"

fun acked_line :: "64 word list \<Rightarrow> event_spool_line \<Rightarrow> bool" where
  "acked_line acked (EventLine l) = (el_seq l \<in> set acked)"
| "acked_line acked (TornEvent s) = False"

definition outbox_ack :: "bool \<Rightarrow> 64 word list \<Rightarrow> outbox \<Rightarrow> outbox" where
  "outbox_ack io_ok acked ob =
     (case ob_file ob of
        None \<Rightarrow> ob
      | Some ls \<Rightarrow> if io_ok then ob\<lparr>ob_file := Some (filter (\<lambda>l. \<not> acked_line acked l) ls), ob_open := False\<rparr> else ob)"

definition pending_rows :: "outbox list \<Rightarrow> nat" where
  "pending_rows obs = sum_list (map (\<lambda>ob. case ob_file ob of None \<Rightarrow> 0 | Some ls \<Rightarrow> length ls) obs)"

definition total_bytes :: "(string \<times> bool \<times> nat) list \<Rightarrow> nat" where
  "total_bytes dir = sum_list (map (\<lambda>(name, regular, n). n)
     (filter (\<lambda>(name, regular, n). regular \<and> suffix ''.jsonl'' name) dir))"

section \<open>The completion spool\<close>

record completion_line =
  cl_attempt_id :: id
  cl_exit_code :: int
  cl_commit_sha :: "string option"
  cl_error_code :: "string option"
  cl_acp_session_id :: "string option"
  cl_fencing_token :: string
  cl_resolved_base_sha :: "string option"
  cl_remote_head_at_start :: "string option"
  cl_remote_head_at_finish :: "string option"
  cl_plan :: "string option"
  cl_provenance :: "provenance option"
  cl_pending_artifacts :: "string list"
  cl_validation_rounds :: nat

text \<open>A line of the file: a record, a marker that drops an attempt, a JSON object with a
  \<open>drop\<close> field that is no string, or text that parses to neither.\<close>

datatype completion_spool_line =
  Completion completion_line | Dropped id | DropOther string | TornCompletion string

text \<open>The file with its lines, whether its last line is without a newline, and the quarantine.\<close>

record completion_outbox =
  co_file :: "completion_spool_line list"
  co_open :: bool
  co_quarantine :: "completion_spool_line list"

definition completion_line_of :: "id \<Rightarrow> complete_request \<Rightarrow> string \<Rightarrow> completion_line" where
  "completion_line_of aid req token =
     \<lparr>cl_attempt_id = aid, cl_exit_code = cr_exit_code req, cl_commit_sha = cr_commit_sha req,
      cl_error_code = cr_error_code req, cl_acp_session_id = cr_acp_session_id req,
      cl_fencing_token = token, cl_resolved_base_sha = cr_resolved_base_sha req,
      cl_remote_head_at_start = cr_remote_head_at_start req,
      cl_remote_head_at_finish = cr_remote_head_at_finish req, cl_plan = cr_plan req,
      cl_provenance = cr_provenance req, cl_pending_artifacts = cr_pending_artifacts req,
      cl_validation_rounds = cr_validation_rounds req\<rparr>"

definition to_request :: "completion_line \<Rightarrow> complete_request" where
  "to_request l =
     \<lparr>cr_exit_code = cl_exit_code l, cr_commit_sha = cl_commit_sha l,
      cr_resolved_base_sha = cl_resolved_base_sha l, cr_remote_head_at_start = cl_remote_head_at_start l,
      cr_remote_head_at_finish = cl_remote_head_at_finish l, cr_error_code = cl_error_code l,
      cr_acp_session_id = cl_acp_session_id l, cr_plan = cl_plan l, cr_provenance = cl_provenance l,
      cr_pending_artifacts = cl_pending_artifacts l, cr_validation_rounds = cl_validation_rounds l\<rparr>"

fun line_for :: "id \<Rightarrow> completion_spool_line \<Rightarrow> bool" where
  "line_for aid (Completion l) = (cl_attempt_id l = aid)"
| "line_for aid _ = False"

text \<open>Recording reads the file, puts the survivors and the new line into another one and renames it
  over the first. When the file cannot be read the survivors are taken to be none; when the other
  file cannot be written or renamed the first one stays.\<close>

datatype record_io = RecordOk | RecordUnread | RecordFails

definition completion_record ::
    "record_io \<Rightarrow> id \<Rightarrow> complete_request \<Rightarrow> string \<Rightarrow> completion_outbox \<Rightarrow> completion_outbox" where
  "completion_record io aid req token co =
     (let new = Completion (completion_line_of aid req token)
      in case io of
           RecordOk \<Rightarrow> co\<lparr>co_file := filter (\<lambda>l. \<not> line_for aid l) (co_file co) @ [new], co_open := False\<rparr>
         | RecordUnread \<Rightarrow> co\<lparr>co_file := [new], co_open := False\<rparr>
         | RecordFails \<Rightarrow> co)"

fun drop_of :: "completion_spool_line \<Rightarrow> id option" where
  "drop_of (Dropped a) = Some a"
| "drop_of _ = None"

definition dropped_attempts :: "completion_spool_line list \<Rightarrow> id set" where
  "dropped_attempts ls = set (List.map_filter drop_of ls)"

fun compact_keeps :: "id set \<Rightarrow> completion_spool_line \<Rightarrow> bool" where
  "compact_keeps gone (Completion l) = (cl_attempt_id l \<notin> gone)"
| "compact_keeps gone (TornCompletion s) = True"
| "compact_keeps gone _ = False"

definition compact :: "completion_outbox \<Rightarrow> completion_outbox" where
  "compact co = co\<lparr>co_file := filter (compact_keeps (dropped_attempts (co_file co))) (co_file co), co_open := False\<rparr>"

fun completion_text :: "(completion_line \<Rightarrow> string) \<Rightarrow> completion_spool_line \<Rightarrow> string" where
  "completion_text tx (Completion l) = tx l"
| "completion_text tx (Dropped a) = ''{'' @ CHR 0x22 # ''drop'' @ CHR 0x22 # '':'' @ CHR 0x22 # a @ CHR 0x22 # ''}''"
| "completion_text tx (DropOther s) = s"
| "completion_text tx (TornCompletion s) = s"

definition append_marker :: "(completion_line \<Rightarrow> string) \<Rightarrow> completion_spool_line \<Rightarrow> bool \<Rightarrow> completion_outbox \<Rightarrow> completion_outbox" where
  "append_marker tx l terminated co =
     co\<lparr>co_file := (if co_open co
          then butlast (co_file co) @ [TornCompletion (completion_text tx (last (co_file co)) @ completion_text tx l)]
          else co_file co @ [l]), co_open := \<not> terminated\<rparr>"

text \<open>An acknowledgement appends a marker and, when the file has grown past the threshold, compacts
  it. The file may fail to open, the write may stop after some bytes, the sync may fail, and so may
  the compaction; each of these errors is returned, and the callers only log it.\<close>

datatype ack_io = AckNotOpened | AckStops nat | AckUnsynced | AckWritten bool

definition completion_ack ::
    "(completion_line \<Rightarrow> string) \<Rightarrow> nat \<Rightarrow> ack_io \<Rightarrow> id \<Rightarrow> completion_outbox \<Rightarrow> completion_outbox" where
  "completion_ack tx threshold io aid co =
     (let marker = Dropped aid; bytes = completion_text tx marker; co1 = append_marker tx marker True co
      in case io of
           AckNotOpened \<Rightarrow> co
         | AckStops n \<Rightarrow>
             if n = 0 then co
             else append_marker tx (if n < length bytes then TornCompletion (take n bytes) else marker) False co
         | AckUnsynced \<Rightarrow> co1
         | AckWritten compacts \<Rightarrow>
             if compacts \<and> threshold < sum_list (map (\<lambda>l. length (completion_text tx l) + 1) (co_file co1))
             then compact co1 else co1)"

fun record_of :: "completion_spool_line \<Rightarrow> completion_line option" where
  "record_of (Completion l) = Some l"
| "record_of _ = None"

fun torn_completion :: "completion_spool_line \<Rightarrow> bool" where
  "torn_completion (TornCompletion s) = True"
| "torn_completion _ = False"

definition completion_pending :: "completion_outbox \<Rightarrow> completion_line list \<times> completion_outbox" where
  "completion_pending co =
     (let gone = dropped_attempts (co_file co);
          records = List.map_filter record_of (co_file co);
          torn = filter torn_completion (co_file co)
      in (filter (\<lambda>l. cl_attempt_id l \<notin> gone) records,
          if torn = [] then co
          else co\<lparr>co_file := map Completion records, co_open := False, co_quarantine := co_quarantine co @ torn\<rparr>))"

definition completion_rows :: "completion_outbox \<Rightarrow> nat" where
  "completion_rows co = length (filter (\<lambda>l. cl_attempt_id l \<notin> dropped_attempts (co_file co))
     (List.map_filter record_of (co_file co)))"

end
