(* ===== verification/NodeSink.thy ===== *)
theory NodeSink
  imports NodeOutbox
begin

text \<open>
  The event sink of an attempt on a node (\<open>node-daemon/src/event_sink.rs\<close>): numbering,
  spooling and buffering of events, the accounting of usage, and the three paths that send
  them. The control plane is a function \<open>post\<close> on an unknown state, which
  answers whether a batch was accepted; the retries of \<open>polling.rs\<close> are around it.
\<close>

section \<open>JSON values\<close>

datatype json =
  JNull
| JBool bool
| JU64 "64 word"
| JNumber string
| JStr string
| JArr "json list"
| JObj "(string \<times> json) list"

fun json_get :: "json \<Rightarrow> string \<Rightarrow> json option" where
  "json_get (JObj fs) k = map_of fs k"
| "json_get _ k = None"

fun as_u64 :: "json \<Rightarrow> 64 word option" where
  "as_u64 (JU64 n) = Some n"
| "as_u64 _ = None"

fun as_bool :: "json \<Rightarrow> bool option" where
  "as_bool (JBool b) = Some b"
| "as_bool _ = None"

definition u64_field :: "json \<Rightarrow> string \<Rightarrow> 64 word" where
  "u64_field v k = (case Option.bind (json_get v k) as_u64 of Some n \<Rightarrow> n | None \<Rightarrow> 0)"

definition flag :: "json \<Rightarrow> string \<Rightarrow> bool" where
  "flag v k \<longleftrightarrow> Option.bind (json_get v k) as_bool = Some True"

definition obj_remove :: "string \<Rightarrow> (string \<times> json) list \<Rightarrow> (string \<times> json) list" where
  "obj_remove k fs = filter (\<lambda>(i, v). i \<noteq> k) fs"

definition obj_insert :: "string \<Rightarrow> json \<Rightarrow> (string \<times> json) list \<Rightarrow> (string \<times> json) list" where
  "obj_insert k v fs = (k, v) # obj_remove k fs"

section \<open>The sink\<close>

record sink =
  sk_buf :: "ingest_event list"
  sk_next :: "64 word"
  sk_adapter_events :: "64 word"
  sk_outbox :: outbox
  sk_buf_bytes :: "64 word"
  sk_buf_cap :: "64 word"
  sk_truncated_warned :: bool
  sk_dropped_count :: "64 word"
  sk_dropped_bytes :: "64 word"
  sk_spool_full :: bool
  sk_plan :: "string option"
  sk_tokens_total :: "64 word"
  sk_cost_total :: "64 word"
  sk_last_cost :: "64 word"
  sk_last_gauge :: "64 word"
  sk_budget :: "64 word option \<times> 64 word option"
  sk_guard_block :: "(string \<times> string) option"

definition new_sink :: "64 word \<Rightarrow> outbox \<Rightarrow> sink" where
  "new_sink cap ob = \<lparr>sk_buf = [], sk_next = 1, sk_adapter_events = 0, sk_outbox = ob, sk_buf_bytes = 0,
     sk_buf_cap = cap, sk_truncated_warned = False, sk_dropped_count = 0, sk_dropped_bytes = 0,
     sk_spool_full = False, sk_plan = None, sk_tokens_total = 0, sk_cost_total = 0, sk_last_cost = 0,
     sk_last_gauge = 0, sk_budget = (None, None), sk_guard_block = None\<rparr>"

section \<open>Usage\<close>

definition saturating_sub :: "64 word \<Rightarrow> 64 word \<Rightarrow> 64 word" where
  "saturating_sub a b = (if b \<le> a then a - b else 0)"

definition metric_delta :: "json \<Rightarrow> sink \<Rightarrow> (64 word \<times> 64 word) \<times> sink" where
  "metric_delta payload sk =
     (let tokens = u64_field payload ''tokens'';
          cost = u64_field payload ''cost_cents'';
          gauge = flag payload ''tokens_gauge'';
          cumulative = flag payload ''cost_cumulative''
      in ((if gauge then saturating_sub tokens (sk_last_gauge sk) else tokens,
           if cumulative then saturating_sub cost (sk_last_cost sk) else cost),
          sk\<lparr>sk_last_gauge := (if gauge then tokens else sk_last_gauge sk),
             sk_last_cost := (if cumulative then cost else sk_last_cost sk)\<rparr>))"

fun delta_payload :: "json \<Rightarrow> 64 word \<Rightarrow> 64 word \<Rightarrow> json" where
  "delta_payload (JObj fs) tokens cost =
     (let gauge = flag (JObj fs) ''tokens_gauge'';
          cumulative = flag (JObj fs) ''cost_cumulative'';
          fs1 = obj_remove ''cost_cumulative'' (obj_remove ''tokens_gauge'' fs);
          fs2 = (if gauge then obj_insert ''tokens'' (JU64 tokens) fs1 else fs1);
          fs3 = (if cumulative
                 then obj_insert ''cost_cents'' (JU64 cost)
                   (case map_of fs2 ''cost_cents'' of
                      Some raw \<Rightarrow> obj_insert ''cost_cumulative_cents'' raw fs2 | None \<Rightarrow> fs2)
                 else fs2)
      in JObj fs3)"
| "delta_payload v tokens cost = v"

definition count_usage :: "event_type \<Rightarrow> json \<Rightarrow> sink \<Rightarrow> json \<times> sink" where
  "count_usage ty payload sk =
     (if ty \<noteq> EvtMetric then (payload, sk)
      else
        (let ((tokens, cost), sk1) = metric_delta payload sk
         in (delta_payload payload tokens cost,
             sk1\<lparr>sk_tokens_total := sk_tokens_total sk1 + tokens, sk_cost_total := sk_cost_total sk1 + cost\<rparr>)))"

definition sink_budget_breach :: "sink \<Rightarrow> string option" where
  "sink_budget_breach sk =
     (case sk_budget sk of (max_tokens, max_cost) \<Rightarrow>
       if (case max_tokens of Some l \<Rightarrow> l < sk_tokens_total sk | None \<Rightarrow> False) then Some ''max_tokens''
       else if (case max_cost of Some l \<Rightarrow> l < sk_cost_total sk | None \<Rightarrow> False) then Some ''max_cost_cents''
       else None)"

definition set_budget :: "64 word option \<Rightarrow> 64 word option \<Rightarrow> sink \<Rightarrow> sink" where
  "set_budget mt mc sk = sk\<lparr>sk_budget := (mt, mc)\<rparr>"

definition has_budget :: "sink \<Rightarrow> bool" where
  "has_budget sk \<longleftrightarrow> fst (sk_budget sk) \<noteq> None \<or> snd (sk_budget sk) \<noteq> None"

definition note_plan :: "string \<Rightarrow> sink \<Rightarrow> sink" where
  "note_plan t sk = sk\<lparr>sk_plan := Some t\<rparr>"

definition take_plan :: "sink \<Rightarrow> string option \<times> sink" where
  "take_plan sk = (sk_plan sk, sk\<lparr>sk_plan := None\<rparr>)"

definition note_guard_block :: "string \<Rightarrow> string \<Rightarrow> sink \<Rightarrow> sink" where
  "note_guard_block command reason sk =
     (if sk_guard_block sk = None then sk\<lparr>sk_guard_block := Some (command, reason)\<rparr> else sk)"

definition note_adapter_event :: "sink \<Rightarrow> sink" where
  "note_adapter_event sk = sk\<lparr>sk_adapter_events := sk_adapter_events sk + 1\<rparr>"

section \<open>Producing events\<close>

text \<open>The serialiser of JSON values is an argument. A push numbers the event, spools it and
  buffers it; between these parts other producers and the sender may run.\<close>

definition payload_bytes :: "ingest_event \<Rightarrow> 64 word" where
  "payload_bytes ev = of_nat (length (ie_payload ev))"

definition reserve :: "(json \<Rightarrow> string) \<Rightarrow> event_type \<Rightarrow> json \<Rightarrow> sink \<Rightarrow> ingest_event \<times> sink" where
  "reserve show_json ty payload sk =
     (\<lparr>ie_sequence = sk_next sk, ie_type = ty, ie_payload = show_json payload\<rparr>,
      sk\<lparr>sk_next := sk_next sk + 1\<rparr>)"

definition spool :: "outbox_cfg \<Rightarrow> push_env \<Rightarrow> ingest_event \<Rightarrow> sink \<Rightarrow> (push_error + unit) \<times> sink" where
  "spool cfg pe ev sk = (case outbox_push cfg pe ev (sk_outbox sk) of (r, ob) \<Rightarrow> (r, sk\<lparr>sk_outbox := ob\<rparr>))"

definition buffer :: "ingest_event \<Rightarrow> sink \<Rightarrow> sink" where
  "buffer ev sk = sk\<lparr>sk_buf_bytes := sk_buf_bytes sk + payload_bytes ev, sk_buf := sk_buf sk @ [ev]\<rparr>"

definition emit_notice ::
    "(json \<Rightarrow> string) \<Rightarrow> outbox_cfg \<Rightarrow> push_env \<Rightarrow> event_type \<Rightarrow> json \<Rightarrow> sink \<Rightarrow> sink" where
  "emit_notice show_json cfg pe ty payload sk =
     (let (ev, sk1) = reserve show_json ty payload sk;
          (r, sk2) = spool cfg pe ev sk1
      in buffer ev sk2)"

definition emit_truncated_notice :: "(json \<Rightarrow> string) \<Rightarrow> outbox_cfg \<Rightarrow> push_env \<Rightarrow> sink \<Rightarrow> sink" where
  "emit_truncated_notice show_json cfg pe sk =
     emit_notice show_json cfg pe EvtStatus
       (JObj [(''event'', JStr ''output_truncated''), (''reason'', JStr ''event buffer over cap''),
              (''cap_bytes'', JU64 (sk_buf_cap sk)), (''dropped_count'', JU64 (sk_dropped_count sk)),
              (''dropped_bytes'', JU64 (sk_dropped_bytes sk))]) sk"

definition emit_spool_full_error :: "(json \<Rightarrow> string) \<Rightarrow> outbox_cfg \<Rightarrow> push_env \<Rightarrow> sink \<Rightarrow> sink" where
  "emit_spool_full_error show_json cfg pe sk =
     emit_notice show_json cfg pe EvtError
       (JObj [(''error_code'', JStr ''spool_full''),
              (''error'', JStr ''event outbox spool full; attempt failed to avoid data loss'')]) sk"

definition emit_budget_exceeded_error ::
    "(json \<Rightarrow> string) \<Rightarrow> outbox_cfg \<Rightarrow> push_env \<Rightarrow> string \<Rightarrow> sink \<Rightarrow> sink" where
  "emit_budget_exceeded_error show_json cfg pe field sk =
     emit_notice show_json cfg pe EvtError
       (JObj [(''error_code'', JStr ''budget_exceeded''), (''field'', JStr field),
              (''tokens_total'', JU64 (sk_tokens_total sk)), (''cost_total'', JU64 (sk_cost_total sk)),
              (''error'', JStr (''per-task cost ceiling breached ('' @ field @ ''); attempt killed''))]) sk"

definition droppable :: "event_type \<Rightarrow> bool" where
  "droppable ty \<longleftrightarrow> ty \<in> {EvtStdout, EvtStderr, EvtMetric}"

definition drop_event ::
    "(json \<Rightarrow> string) \<Rightarrow> outbox_cfg \<Rightarrow> push_env \<Rightarrow> json \<Rightarrow> sink \<Rightarrow> sink" where
  "drop_event show_json cfg pe payload sk =
     (let sk1 = sk\<lparr>sk_dropped_count := sk_dropped_count sk + 1,
                   sk_dropped_bytes := sk_dropped_bytes sk + of_nat (length (show_json payload))\<rparr>
      in if sk_truncated_warned sk then sk1
         else emit_truncated_notice show_json cfg pe (sk1\<lparr>sk_truncated_warned := True\<rparr>))"

text \<open>The whole push, when nothing interleaves; the second environment is that of a notice.\<close>

definition push ::
    "(json \<Rightarrow> string) \<Rightarrow> outbox_cfg \<Rightarrow> push_env \<Rightarrow> push_env \<Rightarrow> event_type \<Rightarrow> json \<Rightarrow> sink \<Rightarrow> sink" where
  "push show_json cfg pe pe2 ty payload0 sk0 =
     (let (payload, sk) = count_usage ty payload0 sk0
      in if droppable ty \<and> sk_buf_cap sk \<le> sk_buf_bytes sk
         then drop_event show_json cfg pe2 payload sk
         else if sk_spool_full sk then sk
         else
           (let (ev, sk1) = reserve show_json ty payload sk
            in case spool cfg pe ev sk1 of
                 (Inl SpoolFull, sk2) \<Rightarrow>
                   if sk_spool_full sk2 then sk2
                   else emit_spool_full_error show_json cfg pe2 (sk2\<lparr>sk_spool_full := True\<rparr>)
               | (_, sk2) \<Rightarrow> buffer ev sk2))"

definition requeue :: "ingest_event list \<Rightarrow> sink \<Rightarrow> sink" where
  "requeue pending sk =
     (if pending = [] then sk
      else sk\<lparr>sk_next := max (sk_next sk) (Max (ie_sequence ` set pending) + 1),
              sk_buf_bytes := sk_buf_bytes sk + sum_list (map payload_bytes pending),
              sk_buf := pending @ sk_buf sk\<rparr>)"

section \<open>Sending\<close>

datatype reply = Status nat | TransportError bool

definition is_retryable_status :: "nat \<Rightarrow> bool" where
  "is_retryable_status s \<longleftrightarrow> 500 \<le> s \<and> s < 600 \<or> s = 429"

fun retryable :: "reply \<Rightarrow> bool" where
  "retryable (Status s) = is_retryable_status s"
| "retryable (TransportError again) = again"

fun send_with_retry :: "nat \<Rightarrow> ('s \<Rightarrow> reply \<times> 's) \<Rightarrow> 's \<Rightarrow> reply \<times> 's" where
  "send_with_retry 0 send s = send s"
| "send_with_retry (Suc n) send s =
     (let (r, s1) = send s in if 0 < n \<and> retryable r then send_with_retry n send s1 else (r, s1))"

fun is_success :: "reply \<Rightarrow> bool" where
  "is_success (Status s) = (200 \<le> s \<and> s < 300)"
| "is_success (TransportError again) = False"

definition in_sequence_order :: "ingest_event list \<Rightarrow> ingest_event list" where
  "in_sequence_order evs = sort_key ie_sequence evs"

fun split_from :: "nat \<Rightarrow> nat \<Rightarrow> ingest_event list \<Rightarrow> nat \<Rightarrow> ingest_event list \<Rightarrow> ingest_event list list" where
  "split_from max_events max_bytes cur n [] = (if cur = [] then [] else [cur])"
| "split_from max_events max_bytes cur n (e # es) =
     (let sz = length (ie_payload e) + 64
      in if cur \<noteq> [] \<and> max_events \<le> length cur \<or> cur \<noteq> [] \<and> max_bytes < n + sz
         then cur # split_from max_events max_bytes [e] sz es
         else split_from max_events max_bytes (cur @ [e]) (n + sz) es)"

definition split_batch :: "nat \<Rightarrow> nat \<Rightarrow> ingest_event list \<Rightarrow> ingest_event list list" where
  "split_batch max_events max_bytes evs = split_from max_events max_bytes [] 0 evs"

type_synonym 's post = "'s \<Rightarrow> ingest_event list \<Rightarrow> bool \<times> 's"

definition send_events :: "'s post \<Rightarrow> bool \<Rightarrow> ingest_event list \<Rightarrow> sink \<Rightarrow> 's \<Rightarrow> bool \<times> sink \<times> 's" where
  "send_events post io_ok batch sk s =
     (if batch = [] then (True, sk, s)
      else
        (case post s batch of
           (True, s1) \<Rightarrow>
             (True, sk\<lparr>sk_buf_bytes := sk_buf_bytes sk - sum_list (map payload_bytes batch),
                       sk_outbox := outbox_ack io_ok (map ie_sequence batch) (sk_outbox sk)\<rparr>, s1)
         | (False, s1) \<Rightarrow> (False, sk, s1)))"

fun send_chunks :: "'s post \<Rightarrow> bool \<Rightarrow> ingest_event list list \<Rightarrow> sink \<Rightarrow> 's \<Rightarrow> sink \<times> 's" where
  "send_chunks post io_ok [] sk s = (sk, s)"
| "send_chunks post io_ok (c # cs) sk s =
     (case send_events post io_ok c sk s of
        (True, sk1, s1) \<Rightarrow> send_chunks post io_ok cs sk1 s1
      | (False, sk1, s1) \<Rightarrow> (sk1\<lparr>sk_buf := c @ concat cs @ sk_buf sk1\<rparr>, s1))"

definition flush :: "nat \<times> nat \<Rightarrow> 's post \<Rightarrow> bool \<Rightarrow> sink \<Rightarrow> 's \<Rightarrow> sink \<times> 's" where
  "flush caps post io_ok sk s =
     (let batch = in_sequence_order (sk_buf sk); sk1 = sk\<lparr>sk_buf := []\<rparr>
      in if batch = [] then (sk1, s)
         else send_chunks post io_ok (split_batch (fst caps) (snd caps) batch) sk1 s)"

text \<open>The drain reads the spool itself. Its deadline is given as the number of times it is
  found not to have passed yet.\<close>

fun drain_chunks :: "'s post \<Rightarrow> bool \<Rightarrow> nat \<Rightarrow> ingest_event list list \<Rightarrow> outbox \<Rightarrow> 's \<Rightarrow> nat option \<times> outbox \<times> 's" where
  "drain_chunks post io_ok n [] ob s = (Some n, ob, s)"
| "drain_chunks post io_ok n (c # cs) ob s =
     (case post s c of
        (False, s1) \<Rightarrow> (None, ob, s1)
      | (True, s1) \<Rightarrow>
          (let ob1 = outbox_ack io_ok (map ie_sequence c) ob
           in case n of 0 \<Rightarrow> (None, ob1, s1) | Suc m \<Rightarrow> drain_chunks post io_ok m cs ob1 s1))"

lemma drain_chunks_le: "drain_chunks post io_ok n cs ob s = (Some m, ob1, s1) \<Longrightarrow> m \<le> n"
proof (induction cs arbitrary: n ob s)
  case (Cons c cs)
  obtain b s2 where p: "post s c = (b, s2)" by (cases "post s c")
  show ?case
  proof (cases b)
    case True
    then obtain k where k: "n = Suc k" using Cons.prems p by (cases n) (auto simp: Let_def)
    then have "drain_chunks post io_ok k cs (outbox_ack io_ok (map ie_sequence c) ob) s2 = (Some m, ob1, s1)"
      using Cons.prems p True by (simp add: Let_def)
    from Cons.IH[OF this] k show ?thesis by simp
  qed (use Cons.prems p in simp)
qed simp

function drain_spool :: "nat \<times> nat \<Rightarrow> 's post \<Rightarrow> bool \<Rightarrow> nat \<Rightarrow> outbox \<Rightarrow> 's \<Rightarrow> outbox \<times> 's" where
  "drain_spool caps post io_ok 0 ob s = (ob, s)"
| "drain_spool caps post io_ok (Suc n) ob s =
     (case outbox_pending ob of (evs, ob1) \<Rightarrow>
        if evs = [] then (ob1, s)
        else (case drain_chunks post io_ok n (split_batch (fst caps) (snd caps) (in_sequence_order evs)) ob1 s of
                (Some m, ob2, s2) \<Rightarrow> drain_spool caps post io_ok m ob2 s2
              | (None, ob2, s2) \<Rightarrow> (ob2, s2)))"
  by pat_completeness auto
termination
proof (relation "measure (\<lambda>(caps, post, io_ok, n, ob, s). n)", goal_cases)
  case (2 caps post io_ok n ob s evs ob1 x y m ob2 s2)
  then show ?case using drain_chunks_le[of post io_ok n _ ob1 s m ob2 s2] by (simp add: le_imp_less_Suc)
qed simp

definition drain_outbox :: "nat \<times> nat \<Rightarrow> 's post \<Rightarrow> bool \<Rightarrow> nat \<Rightarrow> sink \<Rightarrow> 's \<Rightarrow> sink \<times> 's" where
  "drain_outbox caps post io_ok n sk s =
     (case drain_spool caps post io_ok n (sk_outbox sk) s of (ob, s1) \<Rightarrow> (sk\<lparr>sk_outbox := ob\<rparr>, s1))"

end
