(* ===== verification/RateLimits.thy ===== *)
theory RateLimits
  imports StoreOps "HOL-Library.AList"
begin

text \<open>
  The rate limiters of the control plane (\<open>control-plane/src/config.rs\<close>): the bounded map of
  fixed windows, the login limiter with its two buckets, and the limiter of event batches. A
  hash map is the list of its entries; the order of the list is the order of iteration, which
  no property below depends on. Times are seconds.
\<close>

section \<open>Windows\<close>

type_synonym window_entry = "int \<times> 32 word"
type_synonym window_entries = "(string \<times> window_entry) list"

record window_map =
  wm_entries :: window_entries
  wm_cap :: nat

definition new_window_map :: "nat \<Rightarrow> window_map" where
  "new_window_map cap = \<lparr>wm_entries = [], wm_cap = cap\<rparr>"

definition retain_live :: "int \<Rightarrow> int \<Rightarrow> window_entries \<Rightarrow> window_entries" where
  "retain_live now window es = filter (\<lambda>(k, start, n). now - start < window) es"

definition evict_oldest :: "window_entries \<Rightarrow> window_entries" where
  "evict_oldest es =
     (if es = [] then es else AList.delete (fst (arg_min_list (\<lambda>(k, start, n). start) es)) es)"

text \<open>One request against the entry of its key: a window that has passed starts again.\<close>

definition tick_entry :: "int \<Rightarrow> int \<Rightarrow> window_entry \<Rightarrow> window_entry" where
  "tick_entry now window e = (let (start, n) = (if now - fst e \<ge> window then (now, 0) else e) in (start, n + 1))"

definition check_and_record :: "string \<Rightarrow> int \<Rightarrow> int \<Rightarrow> 32 word \<Rightarrow> window_map \<Rightarrow> bool \<times> window_map" where
  "check_and_record key now window limit wm =
     (let es = wm_entries wm;
          es1 = (if map_of es key = None \<and> wm_cap wm \<le> length es
                 then (let live = retain_live now window es
                       in if wm_cap wm \<le> length live then evict_oldest live else live)
                 else es);
          entry = tick_entry now window (case map_of es1 key of Some e \<Rightarrow> e | None \<Rightarrow> (0, 0))
      in (snd entry \<le> limit, wm\<lparr>wm_entries := AList.update key entry es1\<rparr>))"

definition window_reset :: "string \<Rightarrow> window_map \<Rightarrow> window_map" where
  "window_reset key wm = wm\<lparr>wm_entries := AList.delete key (wm_entries wm)\<rparr>"

section \<open>The login limiter\<close>

record login_rate =
  lr_per_ip :: window_map
  lr_per_user :: window_map
  lr_ip_max :: "32 word"
  lr_user_max :: "32 word"
  lr_window_secs :: int

definition new_login_rate :: login_rate where
  "new_login_rate = \<lparr>lr_per_ip = new_window_map 4096, lr_per_user = new_window_map 4096,
     lr_ip_max = 30, lr_user_max = 10, lr_window_secs = 60\<rparr>"

definition login_admit :: "string option \<Rightarrow> int \<Rightarrow> login_rate \<Rightarrow> bool \<times> login_rate" where
  "login_admit client now lr =
     (case client of
        None \<Rightarrow> (True, lr)
      | Some ip \<Rightarrow>
          (case check_and_record ip now (lr_window_secs lr) (lr_ip_max lr) (lr_per_ip lr) of
             (ok, wm) \<Rightarrow> (ok, lr\<lparr>lr_per_ip := wm\<rparr>)))"

definition note_failure :: "(string \<Rightarrow> string) \<Rightarrow> string \<Rightarrow> int \<Rightarrow> login_rate \<Rightarrow> bool \<times> login_rate" where
  "note_failure lower user now lr =
     (case check_and_record (lower user) now (lr_window_secs lr) (lr_user_max lr) (lr_per_user lr) of
        (ok, wm) \<Rightarrow> (ok, lr\<lparr>lr_per_user := wm\<rparr>))"

definition note_success :: "(string \<Rightarrow> string) \<Rightarrow> string \<Rightarrow> login_rate \<Rightarrow> login_rate" where
  "note_success lower user lr = lr\<lparr>lr_per_user := window_reset (lower user) (lr_per_user lr)\<rparr>"

section \<open>The event limiter\<close>

record event_rate =
  er_per_node :: window_entries
  er_max :: "32 word"
  er_window_secs :: int

definition with_limits :: "32 word \<Rightarrow> int \<Rightarrow> event_rate" where
  "with_limits limit window = \<lparr>er_per_node = [], er_max = limit, er_window_secs = window\<rparr>"

definition event_admit :: "id \<Rightarrow> int \<Rightarrow> event_rate \<Rightarrow> bool \<times> event_rate" where
  "event_admit nid now er =
     (let es = er_per_node er;
          es1 = (if 1024 < length es then retain_live now (er_window_secs er) es else es);
          entry = tick_entry now (er_window_secs er) (case map_of es1 nid of Some e \<Rightarrow> e | None \<Rightarrow> (now, 0))
      in (snd entry \<le> er_max er, er\<lparr>er_per_node := AList.update nid entry es1\<rparr>))"

section \<open>The maps stay bounded\<close>

definition window_ok :: "window_map \<Rightarrow> bool" where
  "window_ok wm \<longleftrightarrow> distinct (map fst (wm_entries wm)) \<and> length (wm_entries wm) \<le> max 1 (wm_cap wm)"

lemma length_update:
  "length (AList.update k v es) = (if map_of es k = None then Suc (length es) else length es)"
  by (induction es) auto

lemma arg_min_list_mem: "es \<noteq> [] \<Longrightarrow> arg_min_list f es \<in> set es"
  by (rule arg_min_list_in)

lemma delete_present:
  "distinct (map fst es) \<Longrightarrow> e \<in> set es \<Longrightarrow> Suc (length (AList.delete (fst e) es)) = length es"
proof (induction es)
  case (Cons x es)
  have "fst x \<notin> fst ` set es \<Longrightarrow> AList.delete (fst x) es = es" by (simp add: AList.delete_idem)
  then show ?case using Cons by (auto simp: image_iff)
qed simp

lemma evict_oldest_length:
  "distinct (map fst es) \<Longrightarrow> length (evict_oldest es) = length es - 1"
  using delete_present[OF _ arg_min_list_mem, of es "\<lambda>(k, start, n). start"]
  by (cases "es = []") (auto simp: evict_oldest_def)

lemma distinct_delete: "distinct (map fst es) \<Longrightarrow> distinct (map fst (AList.delete k es))"
  by (rule AList.distinct_delete)

lemma retain_live_props:
  "distinct (map fst es) \<Longrightarrow> distinct (map fst (retain_live now window es))"
  "length (retain_live now window es) \<le> length es"
  by (auto simp: retain_live_def distinct_map inj_on_def)

lemma check_and_record_ok:
  assumes "window_ok wm"
  shows "window_ok (snd (check_and_record key now window limit wm))"
proof -
  define es where "es = wm_entries wm"
  define live where "live = retain_live now window es"
  define es1 where "es1 = (if map_of es key = None \<and> wm_cap wm \<le> length es
      then (if wm_cap wm \<le> length live then evict_oldest live else live) else es)"
  define entry where "entry = tick_entry now window (case map_of es1 key of Some e \<Rightarrow> e | None \<Rightarrow> (0, 0))"
  have eq: "snd (check_and_record key now window limit wm) = wm\<lparr>wm_entries := AList.update key entry es1\<rparr>"
    by (simp add: check_and_record_def Let_def es_def live_def es1_def entry_def)
  have d: "distinct (map fst es)" and l: "length es \<le> max 1 (wm_cap wm)"
    using assms by (simp_all add: window_ok_def es_def)
  have dl: "distinct (map fst live)" "length live \<le> length es"
    using retain_live_props d by (auto simp: live_def)
  have "distinct (map fst es1)"
    using d dl(1) by (auto simp: es1_def evict_oldest_def intro: AList.distinct_delete)
  moreover have "length (AList.update key entry es1) \<le> max 1 (wm_cap wm)"
    using l dl evict_oldest_length[OF dl(1)] by (auto simp: length_update es1_def)
  ultimately show ?thesis by (simp add: eq window_ok_def AList.distinct_update)
qed

lemma window_reset_ok: "window_ok wm \<Longrightarrow> window_ok (window_reset key wm)"
proof -
  have "length (AList.delete key es) \<le> length es" for es :: window_entries
    by (simp add: AList.delete_eq)
  then show "window_ok wm \<Longrightarrow> ?thesis"
    by (auto simp: window_ok_def window_reset_def AList.distinct_delete intro: le_trans)
qed

section \<open>Bursts of event batches\<close>

text \<open>A sequence of calls of the event limiter, each with its node and time.\<close>

fun event_calls :: "(id \<times> int) list \<Rightarrow> event_rate \<Rightarrow> bool list \<times> event_rate" where
  "event_calls [] er = ([], er)"
| "event_calls ((nid, now) # cs) er =
     (let (ok, er1) = event_admit nid now er; (oks, er2) = event_calls cs er1 in (ok # oks, er2))"

definition admitted :: "id \<Rightarrow> (id \<times> int) list \<Rightarrow> event_rate \<Rightarrow> nat" where
  "admitted nid cs er = length (filter (\<lambda>((i, t), ok). i = nid \<and> ok) (zip cs (fst (event_calls cs er))))"

definition entry_of :: "event_rate \<Rightarrow> id \<Rightarrow> window_entry option" where
  "entry_of er nid = map_of (er_per_node er) nid"

definition rate_ok :: "event_rate \<Rightarrow> bool" where
  "rate_ok er \<longleftrightarrow> distinct (map fst (er_per_node er))"

lemma admitted_Nil [simp]: "admitted nid [] er = 0"
  by (simp add: admitted_def)

lemma admitted_Cons [simp]:
  "admitted nid ((i, t) # cs) er =
     (if i = nid \<and> fst (event_admit i t er) then 1 else 0) + admitted nid cs (snd (event_admit i t er))"
  by (auto simp: admitted_def case_prod_beta Let_def)

lemma map_of_retain:
  "distinct (map fst es) \<Longrightarrow>
   map_of (retain_live now window es) k =
     (case map_of es k of Some (s, n) \<Rightarrow> if now - s < window then Some (s, n) else None | None \<Rightarrow> None)"
  by (induction es) (auto simp: retain_live_def split: option.split dest!: map_of_SomeD, force)

lemma event_admit_frame [simp]:
  "er_max (snd (event_admit i t er)) = er_max er"
  "er_window_secs (snd (event_admit i t er)) = er_window_secs er"
  by (simp_all add: event_admit_def Let_def)

lemma event_admit_ok: "rate_ok er \<Longrightarrow> rate_ok (snd (event_admit i t er))"
  by (simp add: rate_ok_def event_admit_def Let_def AList.distinct_update retain_live_props)

text \<open>Seen from one node, pruning cannot be told from the start of a new window.\<close>

lemma event_admit_own:
  assumes "rate_ok er"
  shows "entry_of (snd (event_admit i t er)) i =
      Some (tick_entry t (er_window_secs er) (case entry_of er i of Some e \<Rightarrow> e | None \<Rightarrow> (t, 0)))"
    and "fst (event_admit i t er) \<longleftrightarrow>
      snd (tick_entry t (er_window_secs er) (case entry_of er i of Some e \<Rightarrow> e | None \<Rightarrow> (t, 0))) \<le> er_max er"
  using assms
  by (auto simp: event_admit_def Let_def entry_of_def rate_ok_def AList.update_conv' map_of_retain tick_entry_def
      split: option.splits if_splits)

lemma event_admit_other:
  assumes "rate_ok er" "i \<noteq> nid"
  shows "entry_of (snd (event_admit i t er)) nid = entry_of er nid \<or>
    (\<exists>s n. entry_of er nid = Some (s, n) \<and> t - s \<ge> er_window_secs er \<and>
       entry_of (snd (event_admit i t er)) nid = None)"
  using assms
  by (auto simp: event_admit_def Let_def entry_of_def rate_ok_def AList.update_conv' map_of_retain
      split: option.splits)

fun budget :: "nat \<Rightarrow> int \<Rightarrow> window_entry option \<Rightarrow> nat" where
  "budget m T None = m"
| "budget m T (Some (s, n)) = (m - unat n) + (if s < T then m else 0)"

fun spent :: "window_entry option \<Rightarrow> nat" where
  "spent None = 0"
| "spent (Some (s, n)) = unat n"

lemma unat_inc: "unat n < 2 ^ 32 - 1 \<Longrightarrow> unat (n + 1) = Suc (unat n)" for n :: "32 word"
  by (simp add: unat_word_ariths)

lemma spent_step:
  assumes "rate_ok er" "spent (entry_of er nid) < 2 ^ 32 - 1"
  shows "spent (entry_of (snd (event_admit i t er)) nid) \<le> Suc (spent (entry_of er nid))"
proof (cases "i = nid")
  case True
  then show ?thesis using assms
    by (cases "entry_of er nid") (auto simp: event_admit_own tick_entry_def unat_inc)
next
  case False
  from event_admit_other[OF assms(1) False, of t] show ?thesis by auto
qed

lemma budget_step:
  assumes "rate_ok er" "spent (entry_of er nid) < 2 ^ 32 - 1" "T \<le> t" "t < T + er_window_secs er"
  shows "(if i = nid \<and> fst (event_admit i t er) then 1 else 0) +
      budget (unat (er_max er)) T (entry_of (snd (event_admit i t er)) nid)
    \<le> budget (unat (er_max er)) T (entry_of er nid)"
proof (cases "i = nid")
  case True
  then show ?thesis using assms
    by (cases "entry_of er nid") (auto simp: event_admit_own tick_entry_def unat_inc word_le_nat_alt)
next
  case False
  from event_admit_other[OF assms(1) False, of t] show ?thesis using False assms(3, 4) by auto
qed

lemma admitted_budget:
  "rate_ok er \<Longrightarrow> spent (entry_of er nid) + length cs < 2 ^ 32 \<Longrightarrow>
   \<forall>(i, t)\<in>set cs. T \<le> t \<and> t < T + er_window_secs er \<Longrightarrow>
   admitted nid cs er \<le> budget (unat (er_max er)) T (entry_of er nid)"
proof (induction cs arbitrary: er)
  case (Cons c cs)
  obtain i t where c: "c = (i, t)" by (cases c)
  let ?er = "snd (event_admit i t er)"
  have sp: "spent (entry_of er nid) < 2 ^ 32 - 1" using Cons.prems(2) by simp
  have "spent (entry_of ?er nid) + length cs < 2 ^ 32"
    using spent_step[OF Cons.prems(1) sp, of i t] Cons.prems(2) by simp
  then have "admitted nid cs ?er \<le> budget (unat (er_max er)) T (entry_of ?er nid)"
    using Cons.IH[OF event_admit_ok[OF Cons.prems(1)]] Cons.prems(3) by simp
  moreover have "(if i = nid \<and> fst (event_admit i t er) then 1 else 0) +
      budget (unat (er_max er)) T (entry_of ?er nid) \<le> budget (unat (er_max er)) T (entry_of er nid)"
    using budget_step[OF Cons.prems(1) sp] Cons.prems(3) by (simp add: c)
  ultimately show ?case by (simp add: c)
qed simp

lemma event_calls_keep:
  "rate_ok er \<Longrightarrow> spent (entry_of er nid) + length cs < 2 ^ 32 \<Longrightarrow>
   rate_ok (snd (event_calls cs er)) \<and> er_max (snd (event_calls cs er)) = er_max er \<and>
   er_window_secs (snd (event_calls cs er)) = er_window_secs er \<and>
   spent (entry_of (snd (event_calls cs er)) nid) \<le> spent (entry_of er nid) + length cs"
proof (induction cs arbitrary: er)
  case (Cons c cs)
  obtain i t where c: "c = (i, t)" by (cases c)
  let ?er = "snd (event_admit i t er)"
  have "spent (entry_of ?er nid) \<le> Suc (spent (entry_of er nid))"
    using spent_step[OF Cons.prems(1), of nid i t] Cons.prems(2) by simp
  then show ?case using Cons.IH[OF event_admit_ok[OF Cons.prems(1), of i t]] Cons.prems(2)
    by (auto simp: c Let_def case_prod_beta)
qed simp

text \<open>A node gets at most twice its budget of event batches admitted within any window's
  length of time, whatever it and the other nodes sent before and however the map of counters
  was pruned in between. The counter itself does not wrap: fewer than \<open>2^32\<close> requests.\<close>

theorem event_burst_is_bounded:
  assumes "\<forall>(i, t)\<in>set cs. T \<le> t \<and> t < T + window" "length history + length cs < 2 ^ 32"
  shows "admitted nid cs (snd (event_calls history (with_limits limit window))) \<le> 2 * unat limit"
proof -
  let ?start = "with_limits limit window"
  let ?er = "snd (event_calls history ?start)"
  have z: "rate_ok ?start" "spent (entry_of ?start nid) = 0" by (simp_all add: with_limits_def rate_ok_def entry_of_def)
  have k: "rate_ok ?er" "er_max ?er = limit" "er_window_secs ?er = window" "spent (entry_of ?er nid) \<le> length history"
    using event_calls_keep[OF z(1), of nid history] z(2) assms(2) by (simp_all add: with_limits_def)
  have "admitted nid cs ?er \<le> budget (unat limit) T (entry_of ?er nid)"
    using admitted_budget[OF k(1), of nid cs T] k(2-4) assms by simp
  also have "\<dots> \<le> 2 * unat limit" by (cases "entry_of ?er nid") auto
  finally show ?thesis .
qed

theorem event_burst_witness:
  "admitted ''n1'' [(''n1'', 10), (''n1'', 11), (''n1'', 12), (''n1'', 13)]
     (snd (event_calls [(''n1'', 1), (''n2'', 3)] (with_limits 1 10))) \<le> 2"
  using event_burst_is_bounded[of "[(''n1'', 10), (''n1'', 11), (''n1'', 12), (''n1'', 13)]" 10 10
    "[(''n1'', 1), (''n2'', 3)]" "''n1''" 1] by simp

end
