(* ===== verification/AttemptRoutes.thy ===== *)
theory AttemptRoutes
  imports NodeOps RateLimits
begin

text \<open>
  The routes a node calls for an attempt (\<open>control-plane/src/routes/attempts.rs\<close>, with the two
  checks of \<open>auth.rs\<close> in front of them). A response is its HTTP status. The failures of the
  database, which every handler answers with 500, are not part of the store's model.
\<close>

section \<open>The state behind the routes\<close>

record limits =
  lm_prompt :: nat
  lm_event :: nat
  lm_artifact :: nat
  lm_event_batch_count :: nat
  lm_event_batch_bytes :: nat
  lm_artifact_quota_bytes :: "64 word"

record app_state =
  app_store :: store
  app_limits :: limits
  app_event_rate :: event_rate
  app_cross_node_rejects :: "64 word"
  app_stale_fencing_tokens :: "64 word"
  app_event_rejections :: "64 word"
  app_event_gaps :: "64 word"

fun status_code :: "http_status \<Rightarrow> nat" where
  "status_code NOT_FOUND = 404"
| "status_code CONFLICT = 409"

definition check_attempt_owner :: "id \<Rightarrow> id \<Rightarrow> app_state \<Rightarrow> (nat + unit) \<times> app_state" where
  "check_attempt_owner nid aid app =
     (case attempt_owner (app_store app) aid of
        None \<Rightarrow> (Inl 404, app)
      | Some owner \<Rightarrow>
          if owner = nid then (Inr (), app)
          else (Inl 403, app\<lparr>app_cross_node_rejects := app_cross_node_rejects app + 1\<rparr>))"

definition fencing_check :: "id \<Rightarrow> string option \<Rightarrow> app_state \<Rightarrow> (nat + unit) \<times> app_state" where
  "fencing_check aid presented app =
     (case check_fencing_token (app_store app) aid presented of
        Inr _ \<Rightarrow> (Inr (), app)
      | Inl CONFLICT \<Rightarrow> (Inl 409, app\<lparr>app_stale_fencing_tokens := app_stale_fencing_tokens app + 1\<rparr>)
      | Inl e \<Rightarrow> (Inl (status_code e), app))"

definition authorize_attempt_mutation :: "id \<Rightarrow> id \<Rightarrow> string option \<Rightarrow> app_state \<Rightarrow> (nat + unit) \<times> app_state" where
  "authorize_attempt_mutation nid aid presented app =
     (case check_attempt_owner nid aid app of
        (Inl code, app1) \<Rightarrow> (Inl code, app1)
      | (Inr _, app1) \<Rightarrow> fencing_check aid presented app1)"

definition attempt_cancel_handler :: "id \<Rightarrow> id \<Rightarrow> app_state \<Rightarrow> (nat + bool) \<times> app_state" where
  "attempt_cancel_handler nid aid app =
     (case check_attempt_owner nid aid app of
        (Inl code, app1) \<Rightarrow> (Inl code, app1)
      | (Inr _, app1) \<Rightarrow> (Inr (attempt_cancel_requested (app_store app1) aid), app1))"

section \<open>The mutating routes\<close>

definition reject_events :: "nat \<Rightarrow> app_state \<Rightarrow> nat \<times> app_state" where
  "reject_events code app = (code, app\<lparr>app_event_rejections := app_event_rejections app + 1\<rparr>)"

definition payload_total :: "ingest_event list \<Rightarrow> nat" where
  "payload_total evs = sum_list (map (\<lambda>e. length (ie_payload e)) evs)"

definition accept_events :: "time \<Rightarrow> id \<Rightarrow> ingest_event list \<Rightarrow> app_state \<Rightarrow> nat \<times> app_state" where
  "accept_events now aid evs app =
     (let (ack, st) = ingest_events now aid evs (app_store app); app1 = app\<lparr>app_store := st\<rparr>
      in if 0 < ack_accepted ack \<or> ack_highest ack \<noteq> None
         then (200,
           case ack_highest ack of
             Some p \<Rightarrow> if evs \<noteq> [] \<and> (word_of_int p :: 64 word) < Max (ie_sequence ` set evs)
               then app1\<lparr>app_event_gaps := app_event_gaps app1 + 1\<rparr> else app1
           | None \<Rightarrow> app1)
         else reject_events 404 app1)"

definition ingest_route ::
    "time \<Rightarrow> id \<Rightarrow> id \<Rightarrow> string option \<Rightarrow> ingest_event list \<Rightarrow> app_state \<Rightarrow> nat \<times> app_state" where
  "ingest_route now nid aid presented evs app0 =
     (case authorize_attempt_mutation nid aid presented app0 of
        (Inl code, app) \<Rightarrow> (code, app)
      | (Inr _, app) \<Rightarrow>
          if \<exists>e\<in>set evs. lm_event (app_limits app) < length (ie_payload e) then reject_events 413 app
          else
            (let (allowed, er) = event_admit nid (int (now div secs 1)) (app_event_rate app);
                 app1 = app\<lparr>app_event_rate := er\<rparr>
             in if \<not> allowed then reject_events 429 app1
                else if lm_event_batch_count (app_limits app1) < length evs then reject_events 413 app1
                else if lm_event_batch_bytes (app_limits app1) < payload_total evs then reject_events 413 app1
                else accept_events now aid evs app1))"

text \<open>The completion route answers with the outcome of the store; the follow-up work of the
  lifecycle service (scans, notifications, the workflow of the task) runs after the commit and
  does not change it.\<close>

fun complete_code :: "store_error + bool \<Rightarrow> nat" where
  "complete_code (Inr True) = 200"
| "complete_code (Inr False) = 404"
| "complete_code (Inl (TransitionError e)) = 409"
| "complete_code (Inl e) = 500"

definition complete_route ::
    "externals \<Rightarrow> time \<Rightarrow> id \<Rightarrow> id \<Rightarrow> id \<Rightarrow> string option \<Rightarrow> complete_request \<Rightarrow> app_state \<Rightarrow> nat \<times> app_state" where
  "complete_route ex now apid nid aid presented req app0 =
     (case authorize_attempt_mutation nid aid presented app0 of
        (Inl code, app) \<Rightarrow> (code, app)
      | (Inr _, app) \<Rightarrow>
          (case complete_attempt ex now apid aid req (app_store app) of
             (r, st) \<Rightarrow> (complete_code r, app\<lparr>app_store := st\<rparr>)))"

definition ack_attempt_handler :: "time \<Rightarrow> id \<Rightarrow> id \<Rightarrow> string option \<Rightarrow> app_state \<Rightarrow> nat \<times> app_state" where
  "ack_attempt_handler now nid aid presented app0 =
     (case authorize_attempt_mutation nid aid presented app0 of
        (Inl code, app) \<Rightarrow> (code, app)
      | (Inr _, app) \<Rightarrow>
          (case ack_attempt now aid (app_store app) of
             (ok, st) \<Rightarrow> (if ok then 200 else 404, app\<lparr>app_store := st\<rparr>)))"

definition begin_validate_handler :: "time \<Rightarrow> id \<Rightarrow> id \<Rightarrow> string option \<Rightarrow> app_state \<Rightarrow> nat \<times> app_state" where
  "begin_validate_handler now nid aid presented app0 =
     (case authorize_attempt_mutation nid aid presented app0 of
        (Inl code, app) \<Rightarrow> (code, app)
      | (Inr _, app) \<Rightarrow> (200, app\<lparr>app_store := snd (begin_validate now aid (app_store app))\<rparr>))"

definition create_agent_session_handler ::
    "time \<Rightarrow> id \<Rightarrow> id \<Rightarrow> string option \<Rightarrow> string \<Rightarrow> app_state \<Rightarrow> nat \<times> app_state" where
  "create_agent_session_handler now nid aid presented adapter app0 =
     (case authorize_attempt_mutation nid aid presented app0 of
        (Inl code, app) \<Rightarrow> (code, app)
      | (Inr _, app) \<Rightarrow> (200, app\<lparr>app_store := create_agent_session now aid adapter (app_store app)\<rparr>))"

section \<open>The gate in front of the mutations\<close>

text \<open>A mutation request passes the gate exactly when it comes from the owner of the attempt
  and carries the token of its row, or none where the row has none.\<close>

definition authorized :: "id \<Rightarrow> id \<Rightarrow> string option \<Rightarrow> store \<Rightarrow> bool" where
  "authorized nid aid presented st \<longleftrightarrow>
     (case find_attempt st aid of
        None \<Rightarrow> False
      | Some a \<Rightarrow> a_node_id a = nid \<and>
          (if a_fencing_token a = [] then presented \<in> {None, Some []} else presented = Some (a_fencing_token a)))"

lemma authorize_store [simp]:
  "app_store (snd (authorize_attempt_mutation nid aid presented app)) = app_store app"
  "app_limits (snd (authorize_attempt_mutation nid aid presented app)) = app_limits app"
  "app_event_rate (snd (authorize_attempt_mutation nid aid presented app)) = app_event_rate app"
  by (auto simp: authorize_attempt_mutation_def check_attempt_owner_def fencing_check_def
      split: option.splits sum.splits http_status.splits)

lemma authorize_iff:
  "fst (authorize_attempt_mutation nid aid presented app) = Inr () \<longleftrightarrow> authorized nid aid presented (app_store app)"
  by (auto simp: authorize_attempt_mutation_def check_attempt_owner_def fencing_check_def authorized_def
      attempt_owner_def check_fencing_token_def split: option.splits sum.splits http_status.splits if_splits)

lemma authorize_code:
  "fst (authorize_attempt_mutation nid aid presented app) = Inl code \<Longrightarrow> code \<in> {403, 404, 409}"
  by (auto simp: authorize_attempt_mutation_def check_attempt_owner_def fencing_check_def
      split: option.splits sum.splits http_status.splits if_splits)

lemma authorize_ok: "authorized nid aid presented (app_store app) \<Longrightarrow>
  authorize_attempt_mutation nid aid presented app = (Inr (), app)"
  by (auto simp: authorize_attempt_mutation_def check_attempt_owner_def fencing_check_def authorized_def
      attempt_owner_def check_fencing_token_def split: option.splits sum.splits if_splits)

lemma authorize_refused:
  assumes "\<not> authorized nid aid presented (app_store app)"
  obtains code app' where "authorize_attempt_mutation nid aid presented app = (Inl code, app')"
    "code \<in> {403, 404, 409}" "app_store app' = app_store app"
    "app_limits app' = app_limits app" "app_event_rate app' = app_event_rate app"
proof -
  obtain r app' where eq: "authorize_attempt_mutation nid aid presented app = (r, app')" by fastforce
  then have "app_store app' = app_store app" "app_limits app' = app_limits app"
    "app_event_rate app' = app_event_rate app"
    using authorize_store[of nid aid presented app] by auto
  moreover obtain code where "r = Inl code"
    using authorize_iff[of nid aid presented app] assms eq by (cases r) auto
  ultimately show thesis using that[of code app'] eq authorize_code[of nid aid presented app code] by simp
qed

text \<open>C22: Nothing about an attempt changes by a request of a node that is not its owner or does
  not carry its current fencing token: each of the five mutating routes answers 403, 404 or 409
  and leaves the store and the limiter as they were.\<close>

theorem foreign_requests_change_nothing:
  assumes "\<not> authorized nid aid presented (app_store app)"
    and "r \<in> {ingest_route now nid aid presented evs app, complete_route ex now apid nid aid presented req app,
              ack_attempt_handler now nid aid presented app, begin_validate_handler now nid aid presented app,
              create_agent_session_handler now nid aid presented adapter app}"
  shows "fst r \<in> {403, 404, 409} \<and> app_store (snd r) = app_store app \<and>
    app_event_rate (snd r) = app_event_rate app"
proof -
  obtain code app' where "authorize_attempt_mutation nid aid presented app = (Inl code, app')"
    "code \<in> {403, 404, 409}" "app_store app' = app_store app" "app_event_rate app' = app_event_rate app"
    by (rule authorize_refused[OF assms(1)])
  then show ?thesis using assms(2)
    by (auto simp: ingest_route_def complete_route_def ack_attempt_handler_def begin_validate_handler_def
        create_agent_session_handler_def)
qed

section \<open>The answers of the ingest route\<close>

lemma ingest_live:
  assumes "find_attempt st aid = Some a" "\<not> attempt_terminal (a_status a)"
  shows "ack_highest (fst (ingest_events now aid evs st)) \<noteq> None"
  using assms by (auto simp: ingest_events_def Let_def case_prod_beta split: option.split)

lemma ingest_closed:
  assumes "case find_attempt st aid of None \<Rightarrow> True | Some a \<Rightarrow> attempt_terminal (a_status a)"
  shows "ingest_events now aid evs st = (\<lparr>ack_accepted = 0, ack_highest = None\<rparr>, st)"
  using assms by (auto simp: ingest_events_def split: option.splits)

definition open_attempt :: "id \<Rightarrow> store \<Rightarrow> bool" where
  "open_attempt aid st \<longleftrightarrow> (case find_attempt st aid of None \<Rightarrow> False | Some a \<Rightarrow> \<not> attempt_terminal (a_status a))"

definition batch_fits :: "limits \<Rightarrow> ingest_event list \<Rightarrow> bool" where
  "batch_fits lm evs \<longleftrightarrow> (\<forall>e\<in>set evs. length (ie_payload e) \<le> lm_event lm) \<and>
     length evs \<le> lm_event_batch_count lm \<and> payload_total evs \<le> lm_event_batch_bytes lm"

lemma accept_events_cases:
  "app_store (snd (accept_events now aid evs app)) = snd (ingest_events now aid evs (app_store app))"
  "fst (accept_events now aid evs app) = (if open_attempt aid (app_store app) then 200 else 404)"
proof -
  show "app_store (snd (accept_events now aid evs app)) = snd (ingest_events now aid evs (app_store app))"
    by (auto simp: accept_events_def reject_events_def Let_def case_prod_beta split: option.split)
  show "fst (accept_events now aid evs app) = (if open_attempt aid (app_store app) then 200 else 404)"
  proof (cases "open_attempt aid (app_store app)")
    case True
    then obtain a where "find_attempt (app_store app) aid = Some a" "\<not> attempt_terminal (a_status a)"
      by (auto simp: open_attempt_def split: option.splits)
    from ingest_live[OF this] show ?thesis using True
      by (auto simp: accept_events_def Let_def case_prod_beta)
  next
    case False
    then show ?thesis
      by (subst accept_events_def) (simp add: ingest_closed open_attempt_def reject_events_def split: option.splits)
  qed
qed

text \<open>The route either hands the batch to the store and answers by the state of the attempt, or
  refuses it with another status and leaves the store alone.\<close>

lemma ingest_route_effect:
  obtains (refused) "fst (ingest_route now nid aid presented evs app) \<in> {403, 404, 409, 413, 429}"
    "app_store (snd (ingest_route now nid aid presented evs app)) = app_store app"
  | (ingested) "batch_fits (app_limits app) evs" "authorized nid aid presented (app_store app)"
    "fst (ingest_route now nid aid presented evs app) = (if open_attempt aid (app_store app) then 200 else 404)"
    "app_store (snd (ingest_route now nid aid presented evs app)) = snd (ingest_events now aid evs (app_store app))"
proof (cases "authorized nid aid presented (app_store app)")
  case False
  then obtain code app' where "authorize_attempt_mutation nid aid presented app = (Inl code, app')"
    "code \<in> {403, 404, 409}" "app_store app' = app_store app" by (rule authorize_refused)
  then show thesis using refused by (auto simp: ingest_route_def)
next
  case True
  note au = authorize_ok[OF True]
  obtain allowed er where "event_admit nid (int (now div secs 1)) (app_event_rate app) = (allowed, er)" by fastforce
  then have ad: "event_admit nid (int (now div secs (Suc 0))) (app_event_rate app) = (allowed, er)" by simp
  let ?app = "app\<lparr>app_event_rate := er\<rparr>"
  have eq: "ingest_route now nid aid presented evs app =
      (if \<exists>e\<in>set evs. lm_event (app_limits app) < length (ie_payload e) then reject_events 413 app
       else if \<not> allowed then reject_events 429 ?app
       else if \<not> batch_fits (app_limits app) evs then reject_events 413 ?app
       else accept_events now aid evs ?app)"
    by (auto simp: ingest_route_def au ad Let_def batch_fits_def not_less)
  show thesis
  proof (cases "(\<forall>e\<in>set evs. \<not> lm_event (app_limits app) < length (ie_payload e)) \<and> allowed \<and> batch_fits (app_limits app) evs")
    case True
    then have "ingest_route now nid aid presented evs app = accept_events now aid evs ?app" using eq by auto
    with True \<open>authorized nid aid presented (app_store app)\<close> show thesis
      using ingested accept_events_cases[of now aid evs ?app] by simp
  next
    case False
    then show thesis using refused eq by (auto simp: reject_events_def split: if_splits)
  qed
qed

end
