(* ===== verification/NodeDelivery.thy ===== *)
theory NodeDelivery
  imports NodeSink AttemptRoutes
begin

text \<open>
  The sink and the control plane together. The control plane is seen through the locale
  \<open>event_log\<close>: a post either absorbs its batch, dropping events whose number the log holds, or
  fails; a failed post may have been absorbed all the same, when only the answer was lost. Once the
  attempt is over every post fails, and the control plane adds events of its own. Inside the
  locale, the interleavings of producers, sender and drain are a step relation, and no event that
  was spooled on a line of its own is lost.
\<close>

section \<open>Absorbing a batch\<close>

text \<open>What the log keeps of an event: the number as the signed column of the table, the type
  and the payload.\<close>

type_synonym stored = "int \<times> event_type \<times> string"

definition stored_of :: "ingest_event \<Rightarrow> stored" where
  "stored_of e = (sint (ie_sequence e), ie_type e, ie_payload e)"

fun absorb :: "stored list \<Rightarrow> ingest_event list \<Rightarrow> stored list" where
  "absorb l [] = l"
| "absorb l (e # es) = absorb (if sint (ie_sequence e) \<in> fst ` set l then l else l @ [stored_of e]) es"

definition uniquely_numbered :: "ingest_event set \<Rightarrow> bool" where
  "uniquely_numbered A \<longleftrightarrow> inj_on ie_sequence A"

lemma fst_stored_of [simp]: "fst (stored_of e) = sint (ie_sequence e)"
  by (simp add: stored_of_def)

lemma sint_number: "sint x = sint y \<longleftrightarrow> x = y" for x y :: "64 word"
  by (metis signed_word_eqI)

lemma absorb_extends: "\<exists>m. absorb l es = l @ m \<and> set m \<subseteq> stored_of ` set es"
proof (induction es arbitrary: l)
  case (Cons e es)
  from Cons[of "if sint (ie_sequence e) \<in> fst ` set l then l else l @ [stored_of e]"] show ?case
    by (auto split: if_splits)
qed simp

lemma absorb_numbers: "fst ` set (absorb l es) = fst ` set l \<union> (\<lambda>e. sint (ie_sequence e)) ` set es"
  by (induction es arbitrary: l) auto

lemma absorb_distinct: "distinct (map fst l) \<Longrightarrow> distinct (map fst (absorb l es))"
  by (induction es arbitrary: l) auto

lemma absorb_present: "(\<lambda>e. sint (ie_sequence e)) ` set es \<subseteq> fst ` set l \<Longrightarrow> absorb l es = l"
  by (induction es) auto

lemma absorb_twice: "absorb (absorb l es) es = absorb l es"
  by (rule absorb_present) (simp add: absorb_numbers)

lemma absorb_set:
  assumes "uniquely_numbered A" "set l \<subseteq> stored_of ` A" "set es \<subseteq> A"
  shows "set (absorb l es) = set l \<union> stored_of ` set es"
proof
  show "set (absorb l es) \<subseteq> set l \<union> stored_of ` set es" using absorb_extends[of l es] by auto
  have "stored_of e \<in> set (absorb l es)" if "e \<in> set es" for e
  proof -
    have "sint (ie_sequence e) \<in> fst ` set (absorb l es)" using that by (simp add: absorb_numbers)
    then obtain x where x: "x \<in> set (absorb l es)" "fst x = sint (ie_sequence e)" by (metis imageE)
    obtain m where "absorb l es = l @ m" "set m \<subseteq> stored_of ` set es" using absorb_extends by blast
    then have "set (absorb l es) \<subseteq> stored_of ` A" using assms(2, 3) by (simp add: subset_iff image_iff) blast
    then have "x \<in> stored_of ` A" using x(1) by blast
    then obtain e' where "e' \<in> A" "x = stored_of e'" by blast
    moreover from this have "e' = e"
      using x(2) assms(1, 3) that by (auto simp: sint_number uniquely_numbered_def dest: inj_onD)
    ultimately show ?thesis using x(1) by simp
  qed
  then show "set l \<union> stored_of ` set es \<subseteq> set (absorb l es)" using absorb_extends[of l es] by auto
qed

section \<open>The spool as a list of events\<close>

lemma map_filter_snoc [simp]:
  "List.map_filter f (xs @ ys) = List.map_filter f xs @ List.map_filter f ys"
  by (simp add: List.map_filter_def)

lemma line_of_event [simp]: "event_of_line (line_of pe ev) = Some ev"
  by (simp add: line_of_def)

lemma settled_spooled: "set (settled ob) \<subseteq> set (spooled ob)"
proof -
  have "set (List.map_filter event_of_line (butlast ls)) \<subseteq> set (List.map_filter event_of_line ls)" for ls
    by (auto simp: List.map_filter_def dest: in_set_butlastD)
  then show ?thesis by (auto simp: settled_def spooled_def split: option.split)
qed

text \<open>On a file whose last line is terminated, a push that succeeds adds its event and settles it. A
  push that fails leaves the settled events alone; at most it leaves its own event behind. On a file
  whose last line is not terminated, what is pushed is never settled.\<close>

lemma append_text_spool:
  assumes "event_of_line l \<in> {None, Some ev}"
  shows "set (spooled (append_text cfg l t ob)) \<subseteq> insert ev (set (spooled ob))"
    and "set (settled ob) \<subseteq> set (settled (append_text cfg l t ob))"
    and "ob_open ob \<Longrightarrow> spooled (append_text cfg l t ob) = settled ob"
proof -
  have but: "set (List.map_filter event_of_line (butlast ls)) \<subseteq> set (List.map_filter event_of_line ls)" for ls
    by (auto simp: List.map_filter_def dest: in_set_butlastD)
  show "set (spooled (append_text cfg l t ob)) \<subseteq> insert ev (set (spooled ob))"
    using assms but by (auto simp: spooled_def append_text_def Let_def map_filter_simps split: option.splits)
  show "set (settled ob) \<subseteq> set (settled (append_text cfg l t ob))"
    by (auto simp: settled_def append_text_def Let_def split: option.splits)
  show "ob_open ob \<Longrightarrow> spooled (append_text cfg l t ob) = settled ob"
    by (auto simp: settled_def spooled_def append_text_def Let_def map_filter_simps split: option.splits)
qed

lemma spool_same_file:
  assumes "ob_file ob' = ob_file ob" "ob_open ob' = ob_open ob"
  shows "spooled ob' = spooled ob" "settled ob' = settled ob"
  unfolding spooled_def settled_def assms by (rule refl)+

lemma push_cases:
  assumes "outbox_push cfg pe ev ob = (r, ob')"
  obtains (full) "ob_file ob' = ob_file ob" "ob_open ob' = ob_open ob" "r \<noteq> Inr ()"
    | (stopped) n ob1 where "ob_file ob1 = ob_file ob" "ob_open ob1 = ob_open ob"
        "ob' = partial_write cfg (line_of pe ev) n ob1" "r \<noteq> Inr ()"
    | (appended) ob1 where "ob_file ob1 = ob_file ob" "ob_open ob1 = ob_open ob"
        "ob_file ob' = ob_file (append_text cfg (line_of pe ev) True ob1)"
        "ob_open ob' = ob_open (append_text cfg (line_of pe ev) True ob1)"
proof -
  define ob1 where "ob1 = ob\<lparr>ob_quota_cache := (if 0 < oc_quota cfg then rescan pe (ob_quota_cache ob) else ob_quota_cache ob)\<rparr>"
  have same: "ob_file ob1 = ob_file ob" "ob_open ob1 = ob_open ob" by (simp_all add: ob1_def)
  consider "r = Inl SpoolFull" "ob' = ob1" | "append_line cfg pe (line_of pe ev) ob1 = (r, ob')"
    using assms by (auto simp: outbox_push_def ob1_def Let_def split: if_splits)
  then show thesis
  proof cases
    case 1
    then show thesis using full same by simp
  next
    case a: 2
    show thesis
    proof (cases "pe_write pe")
      case OpenFails
      then show thesis using full a same by (auto simp: append_line_def)
    next
      case (WriteStops n)
      then show thesis using stopped[OF same] a by (auto simp: append_line_def)
    next
      case Written
      then show thesis using appended[OF same] a by (auto simp: append_line_def Let_def split: if_splits)
    qed
  qed
qed

lemma spooled_push:
  assumes "outbox_push cfg pe ev ob = (r, ob')"
  shows "set (spooled ob') \<subseteq> insert ev (set (spooled ob))" "set (settled ob) \<subseteq> set (settled ob')"
    and "r = Inr () \<Longrightarrow> \<not> ob_open ob \<Longrightarrow> ev \<in> set (settled ob')"
    and "r = Inr () \<Longrightarrow> ob_open ob \<Longrightarrow> spooled ob' = settled ob"
proof -
  let ?l = "line_of pe ev"
  have l: "event_of_line ?l \<in> {None, Some ev}" by simp
  from assms have "set (spooled ob') \<subseteq> insert ev (set (spooled ob)) \<and> set (settled ob) \<subseteq> set (settled ob') \<and>
    (r = Inr () \<longrightarrow> \<not> ob_open ob \<longrightarrow> ev \<in> set (settled ob')) \<and> (r = Inr () \<longrightarrow> ob_open ob \<longrightarrow> spooled ob' = settled ob)"
  proof (cases rule: push_cases)
    case full
    then show ?thesis using spool_same_file[of ob' ob] by auto
  next
    case (stopped n ob1)
    note 2 = stopped
    note same = spool_same_file[OF 2(1, 2)]
    show ?thesis
    proof (cases "n = 0")
      case True
      then have "spooled ob' = spooled ob" "settled ob' = settled ob"
        using 2(1-3) by (auto simp: partial_write_def spooled_def settled_def map_filter_simps split: option.splits)
      then show ?thesis using 2(4) by auto
    next
      case False
      let ?p = "if n < length (line_text cfg ?l) then TornEvent (take n (line_text cfg ?l)) else ?l"
      have "event_of_line ?p \<in> {None, Some ev}" by simp
      from append_text_spool(1, 2)[OF this, where cfg = cfg and t = False and ob = ob1] show ?thesis
        using 2(3, 4) False same by (auto simp: partial_write_def)
    qed
  next
    case (appended ob1)
    note same = spool_same_file[OF appended(1, 2)] spool_same_file[OF appended(3, 4)]
    have "ev \<in> set (settled (append_text cfg ?l True ob1))" if "\<not> ob_open ob1"
      using that by (auto simp: settled_def append_text_def Let_def map_filter_simps split: option.splits)
    then show ?thesis using append_text_spool[OF l, where cfg = cfg and t = True and ob = ob1] same appended(2) by auto
  qed
  then show "set (spooled ob') \<subseteq> insert ev (set (spooled ob))" "set (settled ob) \<subseteq> set (settled ob')"
    "r = Inr () \<Longrightarrow> \<not> ob_open ob \<Longrightarrow> ev \<in> set (settled ob')" "r = Inr () \<Longrightarrow> ob_open ob \<Longrightarrow> spooled ob' = settled ob"
    by auto
qed

text \<open>A write that was cut takes the next event with it: the push of that event succeeds, but its
  line continues the cut one, and no reader of the spool finds it.\<close>

lemma torn_tail_destroys_next:
  assumes "\<not> ob_open ob" "outbox_push cfg pe ev ob = (Inl Other, ob1)" "pe_write pe = WriteStops n" "0 < n"
    and "outbox_push cfg pe2 ev2 ob1 = (Inr (), ob2)"
  shows "spooled ob2 = spooled ob"
proof -
  have "ob_open ob1 \<and> settled ob1 = spooled ob"
    using assms(1-4) by (auto simp: outbox_push_def append_line_def partial_write_def append_text_def settled_def spooled_def
        Let_def map_filter_simps split: if_splits option.splits)
  then show ?thesis using spooled_push(4)[OF assms(5)] by simp
qed

lemma map_filter_filter:
  "(\<And>l e. l \<in> set ls \<Longrightarrow> f l = Some e \<Longrightarrow> p l = q e) \<Longrightarrow>
     List.map_filter f (filter p ls) = filter q (List.map_filter f ls)"
  by (induction ls) (auto simp: map_filter_simps split: option.split)

lemma spooled_ack:
  "spooled (outbox_ack ok acked ob) =
     (if ok then filter (\<lambda>e. ie_sequence e \<notin> set acked) (spooled ob) else spooled ob)"
proof -
  have "List.map_filter event_of_line (filter (\<lambda>l. \<not> acked_line acked l) ls) =
      filter (\<lambda>e. ie_sequence e \<notin> set acked) (List.map_filter event_of_line ls)" for ls
  proof (rule map_filter_filter)
    fix l e assume "event_of_line l = Some e"
    then show "(\<not> acked_line acked l) = (ie_sequence e \<notin> set acked)" by (cases l) auto
  qed
  then show ?thesis by (simp add: outbox_ack_def spooled_def split: option.split)
qed

lemma settled_ack:
  "settled (outbox_ack ok acked ob) = (if ok then spooled (outbox_ack ok acked ob) else settled ob)"
  by (simp add: outbox_ack_def settled_def spooled_def split: option.split)

lemma spooled_pending:
  assumes "outbox_pending ob = (evs, ob')"
  shows "evs = spooled ob" "spooled ob' = spooled ob"
proof -
  have "List.map_filter event_of_line (filter (\<lambda>l. event_of_line l \<noteq> None) ls) =
      filter (\<lambda>e. True) (List.map_filter event_of_line ls)" for ls
    by (rule map_filter_filter) auto
  then show "evs = spooled ob" "spooled ob' = spooled ob"
    using assms by (auto simp: outbox_pending_def spooled_def Let_def split: option.splits if_splits)
qed

lemma settled_pending: "outbox_pending ob = (evs, ob') \<Longrightarrow> set (settled ob) \<subseteq> set (settled ob')"
proof -
  assume p: "outbox_pending ob = (evs, ob')"
  have "ob' = ob \<or> settled ob' = spooled ob'"
    using p by (auto simp: outbox_pending_def settled_def spooled_def Let_def split: option.splits if_splits)
  then show ?thesis using settled_spooled[of ob] spooled_pending(2)[OF p] by auto
qed

lemma spooled_discard [simp]: "spooled (discard ob) = []"
  by (simp add: discard_def spooled_def)

lemma split_from_concat: "concat (split_from me mb cur n es) = cur @ es"
  by (induction me mb cur n es rule: split_from.induct) (auto simp: Let_def)

lemma split_batch_concat: "concat (split_batch me mb es) = es"
  by (simp add: split_batch_def split_from_concat)

lemma split_from_bounds:
  "c \<in> set (split_from me mb cur n es) \<Longrightarrow> length cur \<le> max me 1 \<Longrightarrow> c \<noteq> [] \<and> length c \<le> max me 1"
proof (induction me mb cur n es rule: split_from.induct)
  case (2 me mb cur n e es)
  show ?case
  proof (cases "cur \<noteq> [] \<and> me \<le> length cur \<or> cur \<noteq> [] \<and> mb < n + (length (ie_payload e) + 64)")
    case True
    then show ?thesis using 2(1)[OF refl True] 2(3, 4) by (auto simp: Let_def)
  next
    case False
    then have "length (cur @ [e]) \<le> max me 1" by (cases "cur = []") auto
    then show ?thesis using 2(2)[OF refl False] 2(3) False by (simp add: Let_def)
  qed
qed (auto split: if_splits)

text \<open>The batches of a send: together they are the events in order of their numbers, none is
  empty and none is longer than the cap.\<close>

lemma batch_bounds:
  "c \<in> set (split_batch me mb es) \<Longrightarrow> c \<noteq> [] \<and> length c \<le> max me 1"
  using split_from_bounds[of c me mb "[]" 0 es] by (simp add: split_batch_def)

section \<open>Nothing durable is lost\<close>

text \<open>The spool and the log together, over the events \<open>A\<close> that were ever numbered: each of the
  durable events \<open>D\<close> is in one of them.\<close>

definition safe :: "ingest_event set \<Rightarrow> ingest_event set \<Rightarrow> outbox \<Rightarrow> bool \<Rightarrow> stored list \<Rightarrow> bool" where
  "safe A D ob over l \<longleftrightarrow> set (spooled ob) \<subseteq> A \<and> (\<not> over \<longrightarrow> set l \<subseteq> stored_of ` A \<and> distinct (map fst l)) \<and>
     (\<forall>e\<in>D. e \<in> set (settled ob) \<or> stored_of e \<in> set l)"

lemma safe_absorb:
  assumes "uniquely_numbered A" "safe A D ob False l" "set es \<subseteq> A"
  shows "safe A D ob c (absorb l es)" "stored_of ` set es \<subseteq> set (absorb l es)"
  using assms absorb_set[OF assms(1) _ assms(3), of l] absorb_distinct[of l es]
  by (auto simp: safe_def)

lemma safe_ack:
  assumes "uniquely_numbered A" "safe A D ob c l" "set es \<subseteq> A" "stored_of ` set es \<subseteq> set l"
  shows "safe A D (outbox_ack ok (map ie_sequence es) ob) c l"
proof -
  have "stored_of e \<in> set l" if "e \<in> D" "e \<in> set (spooled ob)" "ie_sequence e \<in> ie_sequence ` set es" for e
  proof -
    from that(3) obtain e' where "e' \<in> set es" "ie_sequence e = ie_sequence e'" by blast
    moreover from this have "e = e'"
      using assms(1, 2, 3) that(2) by (auto simp: uniquely_numbered_def safe_def dest: inj_onD)
    ultimately show ?thesis using assms(4) by blast
  qed
  then show ?thesis using assms(2) settled_spooled[of ob] by (auto simp: safe_def spooled_ack settled_ack)
qed

lemma safe_grows: "safe A D ob c l \<Longrightarrow> (c \<Longrightarrow> c') \<Longrightarrow> m = [] \<or> c' \<Longrightarrow> safe A D ob c' (l @ m)"
  by (auto simp: safe_def)

section \<open>Steps of the delivery\<close>

text \<open>The producers hold an event between numbering and spooling it, and again between spooling
  and buffering it; \<open>issued\<close> and \<open>durable\<close> are histories, the events that were numbered and
  those whose spooling succeeded on a file without an unterminated line.\<close>

record 's delivery =
  dl_sink :: sink
  dl_cp :: 's
  dl_held :: "ingest_event list"
  dl_ready :: "ingest_event list"
  dl_issued :: "ingest_event list"
  dl_durable :: "ingest_event list"

text \<open>A send is one step: what producers do meanwhile lands behind the events that are put back
  and commutes with it. An aborted flusher drops events of the buffer. The numbers do not run
  out, which would take \<open>2^64\<close> events.\<close>

inductive delivery_step ::
    "(nat \<Rightarrow> 's post) \<Rightarrow> ('s \<Rightarrow> 's \<Rightarrow> bool) \<Rightarrow> nat \<times> nat \<Rightarrow> outbox_cfg \<Rightarrow> 's delivery \<Rightarrow> 's delivery \<Rightarrow> bool"
  for post other caps cfg where
  ds_account: "sk_next sk = sk_next (dl_sink d) \<Longrightarrow> sk_buf sk = sk_buf (dl_sink d) \<Longrightarrow>
    sk_outbox sk = sk_outbox (dl_sink d) \<Longrightarrow> delivery_step post other caps cfg d (d\<lparr>dl_sink := sk\<rparr>)"
| ds_reserve: "reserve show_json ty payload (dl_sink d) = (ev, sk) \<Longrightarrow> sk_next (dl_sink d) \<noteq> - 1 \<Longrightarrow>
    delivery_step post other caps cfg d
      (d\<lparr>dl_sink := sk, dl_held := ev # dl_held d, dl_issued := ev # dl_issued d\<rparr>)"
| ds_spool: "ev \<in> set (dl_held d) \<Longrightarrow> spool cfg pe ev (dl_sink d) = (r, sk) \<Longrightarrow> keep \<or> r = Inl SpoolFull \<Longrightarrow>
    delivery_step post other caps cfg d
      (d\<lparr>dl_sink := sk, dl_held := remove1 ev (dl_held d),
         dl_ready := (if keep then ev # dl_ready d else dl_ready d),
         dl_durable := (if r = Inr () \<and> \<not> ob_open (sk_outbox (dl_sink d)) then ev # dl_durable d else dl_durable d)\<rparr>)"
| ds_buffer: "ev \<in> set (dl_ready d) \<Longrightarrow>
    delivery_step post other caps cfg d
      (d\<lparr>dl_sink := buffer ev (dl_sink d), dl_ready := remove1 ev (dl_ready d)\<rparr>)"
| ds_flush: "flush caps (post n) io_ok (dl_sink d) (dl_cp d) = (sk, s) \<Longrightarrow>
    delivery_step post other caps cfg d (d\<lparr>dl_sink := sk, dl_cp := s\<rparr>)"
| ds_drain: "drain_outbox caps (post n) io_ok k (dl_sink d) (dl_cp d) = (sk, s) \<Longrightarrow>
    delivery_step post other caps cfg d (d\<lparr>dl_sink := sk, dl_cp := s\<rparr>)"
| ds_abort: "set buf \<subseteq> set (sk_buf (dl_sink d)) \<Longrightarrow>
    delivery_step post other caps cfg d (d\<lparr>dl_sink := (dl_sink d)\<lparr>sk_buf := buf\<rparr>\<rparr>)"
| ds_other: "other (dl_cp d) s \<Longrightarrow> delivery_step post other caps cfg d (d\<lparr>dl_cp := s\<rparr>)"

text \<open>The start of an attempt's run: the spool file that is found is read and its events are
  queued again.\<close>

definition start_sink :: "64 word \<Rightarrow> outbox \<Rightarrow> sink" where
  "start_sink cap ob = (case outbox_pending ob of (evs, ob1) \<Rightarrow> requeue evs (new_sink cap ob1))"

definition delivery_init :: "('s \<Rightarrow> bool) \<Rightarrow> ('s \<Rightarrow> stored list) \<Rightarrow> 's delivery \<Rightarrow> bool" where
  "delivery_init valid logged d \<longleftrightarrow> (\<exists>cap ob. dl_sink d = start_sink cap ob \<and> uniquely_numbered (set (spooled ob)) \<and>
     (\<forall>e\<in>set (spooled ob). ie_sequence e \<noteq> - 1) \<and> dl_issued d = spooled ob \<and> dl_durable d = settled ob) \<and>
     dl_held d = [] \<and> dl_ready d = [] \<and> valid (dl_cp d) \<and> logged (dl_cp d) = []"

definition delivery_inv ::
    "('s \<Rightarrow> bool) \<Rightarrow> ('s \<Rightarrow> bool) \<Rightarrow> ('s \<Rightarrow> stored list) \<Rightarrow> 's delivery \<Rightarrow> bool" where
  "delivery_inv valid over logged d \<longleftrightarrow> valid (dl_cp d) \<and>
     uniquely_numbered (set (dl_issued d)) \<and> (\<forall>e\<in>set (dl_issued d). ie_sequence e < sk_next (dl_sink d)) \<and>
     set (dl_held d) \<union> set (dl_ready d) \<union> set (sk_buf (dl_sink d)) \<union> set (dl_durable d) \<subseteq> set (dl_issued d) \<and>
     safe (set (dl_issued d)) (set (dl_durable d)) (sk_outbox (dl_sink d)) (over (dl_cp d)) (logged (dl_cp d))"

lemma word_less_succ:
  fixes x y :: "64 word"
  assumes "x \<le> y" "y \<noteq> - 1"
  shows "x < y + 1"
proof -
  have "1 + y \<noteq> 0" using assms(2) by (metis add.commute add_eq_0_iff)
  then have "unat (y + 1) = Suc (unat y)" using unatSuc[of y] by (simp add: add.commute)
  then show ?thesis using assms(1) by (simp add: word_less_nat_alt word_le_nat_alt)
qed

lemma delivery_init_inv: "delivery_init valid logged d \<Longrightarrow> delivery_inv valid over logged d"
proof -
  assume "delivery_init valid logged d"
  then obtain cap ob where i: "dl_sink d = start_sink cap ob" "uniquely_numbered (set (spooled ob))"
    "\<forall>e\<in>set (spooled ob). ie_sequence e \<noteq> - 1" "dl_issued d = spooled ob" "dl_durable d = settled ob"
    and z: "dl_held d = []" "dl_ready d = []" "valid (dl_cp d)" "logged (dl_cp d) = []"
    by (auto simp: delivery_init_def)
  obtain evs ob1 where pe: "outbox_pending ob = (evs, ob1)" by fastforce
  note sp = spooled_pending[OF pe]
  have n: "ie_sequence e < sk_next (dl_sink d)" if "e \<in> set (spooled ob)" for e
  proof -
    let ?m = "Max (ie_sequence ` set evs)"
    have "?m \<in> ie_sequence ` set evs" using that sp(1) by (intro Max_in) auto
    then have "?m \<noteq> - 1" using i(3) sp(1) by auto
    moreover have "ie_sequence e \<le> ?m" using that sp(1) by simp
    ultimately have "ie_sequence e < ?m + 1" by (intro word_less_succ)
    then show ?thesis using that sp(1) by (auto simp: i(1) start_sink_def pe requeue_def less_max_iff_disj)
  qed
  have b: "set (sk_buf (dl_sink d)) = set (spooled ob)" "spooled (sk_outbox (dl_sink d)) = spooled ob"
    using sp by (auto simp: i(1) start_sink_def pe requeue_def new_sink_def)
  have "set (settled ob) \<subseteq> set (settled (sk_outbox (dl_sink d)))"
    using settled_pending[OF pe] by (simp add: i(1) start_sink_def pe requeue_def new_sink_def)
  then show ?thesis using i(2) n settled_spooled[of ob] by (auto simp: delivery_inv_def i(4, 5) z b safe_def)
qed

locale event_log =
  fixes post :: "nat \<Rightarrow> 's post" and other :: "'s \<Rightarrow> 's \<Rightarrow> bool" and logged :: "'s \<Rightarrow> stored list"
    and valid :: "'s \<Rightarrow> bool" and over :: "'s \<Rightarrow> bool"
  assumes other_log: "valid s \<Longrightarrow> other s s' \<Longrightarrow>
      valid s' \<and> (over s \<longrightarrow> over s') \<and> (\<exists>m. logged s' = logged s @ m \<and> (m = [] \<or> over s'))"
    and post_log: "post n s es = (b, s') \<Longrightarrow> logged s' = absorb (logged s) es \<or> \<not> b \<and> logged s' = logged s"
    and post_valid: "valid s \<Longrightarrow> post n s es = (b, s') \<Longrightarrow> valid s'"
    and post_refused: "over s \<Longrightarrow> post n s es = (b, s') \<Longrightarrow> \<not> b \<and> logged s' = logged s \<and> over s'"
begin

abbreviation guarded :: "ingest_event set \<Rightarrow> ingest_event set \<Rightarrow> outbox \<Rightarrow> 's \<Rightarrow> bool" where
  "guarded A D ob s \<equiv> valid s \<and> safe A D ob (over s) (logged s)"

lemma safe_post:
  assumes "uniquely_numbered A" "guarded A D ob s" "set es \<subseteq> A" "post n s es = (b, s')"
  shows "guarded A D ob s'" "b \<Longrightarrow> guarded A D (outbox_ack ok (map ie_sequence es) ob) s'"
proof -
  note v = post_valid[OF conjunct1[OF assms(2)] assms(4)]
  have "guarded A D ob s' \<and> (b \<longrightarrow> guarded A D (outbox_ack ok (map ie_sequence es) ob) s')"
  proof (cases "over s")
    case True
    then show ?thesis using post_refused[OF True assms(4)] assms(2) v by (auto simp: safe_def)
  next
    case False
    then have s: "safe A D ob False (logged s)" using assms(2) by simp
    from post_log[OF assms(4)] show ?thesis
    proof
      assume l: "logged s' = absorb (logged s) es"
      note a = safe_absorb[OF assms(1) s assms(3), folded l]
      show ?thesis using a(1) safe_ack[OF assms(1) a(1) assms(3) a(2)] v by blast
    next
      assume "\<not> b \<and> logged s' = logged s"
      then show ?thesis using s v by (auto simp: safe_def)
    qed
  qed
  then show "guarded A D ob s'" "b \<Longrightarrow> guarded A D (outbox_ack ok (map ie_sequence es) ob) s'" by blast+
qed

lemma safe_chunks:
  "uniquely_numbered A \<Longrightarrow> guarded A D (sk_outbox sk) s \<Longrightarrow> \<Union> (set ` set cs) \<subseteq> A \<Longrightarrow>
   send_chunks (post n) ok cs sk s = (sk', s') \<Longrightarrow>
   guarded A D (sk_outbox sk') s' \<and> sk_next sk' = sk_next sk \<and>
   set (sk_buf sk') \<subseteq> set (sk_buf sk) \<union> \<Union> (set ` set cs)"
proof (induction cs arbitrary: sk s)
  case (Cons c cs)
  show ?case
  proof (cases "c = []")
    case True
    then show ?thesis using Cons by (auto simp: send_events_def)
  next
    case False
    obtain b s1 where p: "post n s c = (b, s1)" by fastforce
    have c: "set c \<subseteq> A" using Cons.prems(3) by auto
    note sp = safe_post[OF Cons.prems(1, 2) c p]
    show ?thesis
    proof (cases b)
      case True
      let ?sk = "sk\<lparr>sk_buf_bytes := sk_buf_bytes sk - sum_list (map payload_bytes c),
                    sk_outbox := outbox_ack ok (map ie_sequence c) (sk_outbox sk)\<rparr>"
      have "send_chunks (post n) ok cs ?sk s1 = (sk', s')"
        using Cons.prems(4) False True p by (simp add: send_events_def)
      from Cons.IH[OF Cons.prems(1) _ _ this] sp(2)[OF True] Cons.prems(3) show ?thesis by auto
    next
      case nb: False
      then have "sk' = sk\<lparr>sk_buf := c @ concat cs @ sk_buf sk\<rparr>" "s' = s1"
        using Cons.prems(4) False p by (auto simp: send_events_def)
      then show ?thesis using sp(1) by auto
    qed
  qed
qed simp

lemma safe_flush:
  assumes "uniquely_numbered A" "guarded A D (sk_outbox sk) s" "set (sk_buf sk) \<subseteq> A"
    and "flush caps (post n) ok sk s = (sk', s')"
  shows "guarded A D (sk_outbox sk') s' \<and> sk_next sk' = sk_next sk \<and> set (sk_buf sk') \<subseteq> A"
proof (cases "sk_buf sk = []")
  case True
  then show ?thesis using assms by (auto simp: flush_def in_sequence_order_def)
next
  case False
  let ?b = "in_sequence_order (sk_buf sk)"
  have b: "set ?b = set (sk_buf sk)" by (simp add: in_sequence_order_def)
  have cs: "\<Union> (set ` set (split_batch (fst caps) (snd caps) ?b)) = set (sk_buf sk)"
    by (metis b set_concat split_batch_concat)
  have "?b \<noteq> []" using False b by (metis set_empty)
  then have "send_chunks (post n) ok (split_batch (fst caps) (snd caps) ?b) (sk\<lparr>sk_buf := []\<rparr>) s = (sk', s')"
    using assms(4) by (simp add: flush_def Let_def)
  from safe_chunks[OF assms(1) _ _ this] assms(2, 3) cs show ?thesis by auto
qed

lemma safe_drain_chunks:
  "uniquely_numbered A \<Longrightarrow> guarded A D ob s \<Longrightarrow> \<Union> (set ` set cs) \<subseteq> A \<Longrightarrow>
   drain_chunks (post n) ok k cs ob s = (r, ob', s') \<Longrightarrow> guarded A D ob' s'"
proof (induction cs arbitrary: k ob s)
  case (Cons c cs)
  obtain b s1 where p: "post n s c = (b, s1)" by fastforce
  have "set c \<subseteq> A" using Cons.prems(3) by auto
  note sp = safe_post[OF Cons.prems(1, 2) this p]
  show ?case using Cons p sp by (cases b; cases k) (auto simp: Let_def)
qed simp

lemma safe_drain_spool:
  "uniquely_numbered A \<Longrightarrow> guarded A D ob s \<Longrightarrow> drain_spool caps (post n) ok k ob s = (ob', s') \<Longrightarrow>
   guarded A D ob' s'"
proof (induction caps "post n" ok k ob s rule: drain_spool.induct)
  case (2 caps ok k ob s)
  obtain evs ob1 where pe: "outbox_pending ob = (evs, ob1)" by fastforce
  note sp = spooled_pending[OF pe]
  have s1: "guarded A D ob1 s" using 2(3) settled_pending[OF pe] by (auto simp: safe_def sp)
  show ?case
  proof (cases "evs = []")
    case False
    let ?cs = "split_batch (fst caps) (snd caps) (in_sequence_order evs)"
    obtain r ob2 s2 where dc: "drain_chunks (post n) ok k ?cs ob1 s = (r, ob2, s2)"
      by (metis prod_cases3)
    have "\<Union> (set ` set ?cs) = set evs"
      by (metis in_sequence_order_def set_concat set_sort split_batch_concat)
    then have s2: "guarded A D ob2 s2"
      using safe_drain_chunks[OF 2(2) s1 _ dc] 2(3) by (simp add: safe_def sp)
    show ?thesis
    proof (cases r)
      case (Some m)
      then show ?thesis using 2(1)[OF pe[symmetric] False dc[symmetric] Some refl 2(2) s2] 2(4) pe False dc by simp
    qed (use 2(4) pe False dc s2 in simp)
  qed (use 2(4) pe s1 in simp)
qed simp

lemma step_keeps:
  "delivery_step post other caps cfg d d' \<Longrightarrow> delivery_inv valid over logged d \<Longrightarrow> delivery_inv valid over logged d'"
proof (induction rule: delivery_step.induct)
  case (ds_account sk d)
  then show ?case by (simp add: delivery_inv_def)
next
  case (ds_reserve show_json ty payload d ev sk)
  then have ev: "ie_sequence ev = sk_next (dl_sink d)" "sk = (dl_sink d)\<lparr>sk_next := sk_next (dl_sink d) + 1\<rparr>"
    by (auto simp: reserve_def)
  have i: "delivery_inv valid over logged d" by fact
  have "uniquely_numbered (insert ev (set (dl_issued d)))"
    using i ev(1) by (force simp: delivery_inv_def uniquely_numbered_def)
  moreover have "\<forall>e\<in>insert ev (set (dl_issued d)). ie_sequence e < sk_next sk"
    using i ev ds_reserve.hyps(2) by (auto simp: delivery_inv_def intro!: word_less_succ)
  ultimately show ?case using i ev(2) by (auto simp: delivery_inv_def safe_def)
next
  case (ds_spool ev d pe r sk keep)
  have i: "delivery_inv valid over logged d" by fact
  obtain ob where ob: "outbox_push cfg pe ev (sk_outbox (dl_sink d)) = (r, ob)" "sk = (dl_sink d)\<lparr>sk_outbox := ob\<rparr>"
    using ds_spool.hyps(2) by (auto simp: spool_def split: prod.splits)
  have ev: "ev \<in> set (dl_issued d)" using i ds_spool.hyps(1) by (auto simp: delivery_inv_def)
  have "set (remove1 ev (dl_held d)) \<subseteq> set (dl_held d)" by (rule set_remove1_subset)
  then show ?case using i ev spooled_push[OF ob(1)] ob(2) by (auto simp: delivery_inv_def safe_def)
next
  case (ds_buffer ev d)
  moreover have "set (remove1 ev (dl_ready d)) \<subseteq> set (dl_ready d)" by (rule set_remove1_subset)
  ultimately show ?case by (auto simp: delivery_inv_def buffer_def)
next
  case (ds_flush n io_ok d sk s)
  then show ?case using safe_flush[OF _ _ _ ds_flush.hyps, of "set (dl_issued d)" "set (dl_durable d)"]
    by (auto simp: delivery_inv_def)
next
  case (ds_drain n io_ok k d sk s)
  then obtain ob where ob: "drain_spool caps (post n) io_ok k (sk_outbox (dl_sink d)) (dl_cp d) = (ob, s)"
    "sk = (dl_sink d)\<lparr>sk_outbox := ob\<rparr>" by (auto simp: drain_outbox_def split: prod.splits)
  from ds_drain.prems safe_drain_spool[OF _ _ ob(1), of "set (dl_issued d)" "set (dl_durable d)"] ob(2)
  show ?case by (auto simp: delivery_inv_def)
next
  case (ds_abort buf d)
  then show ?case by (auto simp: delivery_inv_def)
next
  case (ds_other d s)
  then have i: "delivery_inv valid over logged d" and v: "valid (dl_cp d)" by (simp_all add: delivery_inv_def)
  obtain m where m: "valid s" "over (dl_cp d) \<longrightarrow> over s" "logged s = logged (dl_cp d) @ m" "m = [] \<or> over s"
    using other_log[OF v ds_other.hyps] by blast
  then show ?case using i safe_grows[of _ _ _ "over (dl_cp d)" _ "over s" m] by (auto simp: delivery_inv_def)
qed

sublocale delivery: invariant_system "delivery_init valid logged" "delivery_step post other caps cfg" "delivery_inv valid over logged"
  by unfold_locales (auto intro: delivery_init_inv step_keeps)

end

end
