(* ===== verification/NodeWire.thy ===== *)
theory NodeWire
  imports NodeDelivery
begin

text \<open>
  What a node sends to the control plane for an attempt, over a network that may lose a request
  or an answer: posts of events, the report of a completion
  (\<open>node-daemon/src/completion.rs\<close>), its redelivery (\<open>recovery.rs\<close>), and the end of an attempt
  (\<open>attempt_runner.rs\<close>). The fate of each request and the clock of the control plane are a
  script; when it is used up, requests arrive.
\<close>

section \<open>The network\<close>

datatype net = Delivered | RequestLost bool | ReplyLost bool | BadGateway | GatewayTimeout

record wire =
  wi_app :: app_state
  wi_script :: "(net \<times> time) list"
  wi_now :: time

definition handle :: "(time \<Rightarrow> app_state \<Rightarrow> nat \<times> app_state) \<Rightarrow> wire \<Rightarrow> nat \<times> wire" where
  "handle h w = (case h (wi_now w) (wi_app w) of (code, app) \<Rightarrow> (code, w\<lparr>wi_app := app\<rparr>))"

definition transmit :: "(time \<Rightarrow> app_state \<Rightarrow> nat \<times> app_state) \<Rightarrow> wire \<Rightarrow> reply \<times> wire" where
  "transmit h w =
     (case wi_script w of
        [] \<Rightarrow> (case handle h w of (code, w1) \<Rightarrow> (Status code, w1))
      | (fate, now) # rest \<Rightarrow>
          (let w0 = w\<lparr>wi_script := rest, wi_now := now\<rparr>
           in case fate of
                Delivered \<Rightarrow> (case handle h w0 of (code, w1) \<Rightarrow> (Status code, w1))
              | RequestLost again \<Rightarrow> (TransportError again, w0)
              | ReplyLost again \<Rightarrow> (TransportError again, snd (handle h w0))
              | BadGateway \<Rightarrow> (Status 502, w0)
              | GatewayTimeout \<Rightarrow> (Status 504, w0)))"

definition fence_header :: "string \<Rightarrow> string option" where
  "fence_header fence = (if fence = [] then None else Some fence)"

definition post_events :: "id \<Rightarrow> id \<Rightarrow> string \<Rightarrow> nat \<Rightarrow> wire post" where
  "post_events nid aid fence n w batch =
     (case send_with_retry n (transmit (\<lambda>now. ingest_route now nid aid (fence_header fence) batch)) w of
        (r, w1) \<Rightarrow> (is_success r, w1))"

text \<open>What holds of a request through all its retries: \<open>Q\<close> is kept by the handler, \<open>R\<close> relates an
  answer to the state behind it.\<close>

lemma transmit_rule:
  assumes handler: "\<And>now app. Q app \<Longrightarrow> Q (snd (h now app)) \<and> R (Status (fst (h now app))) (snd (h now app))"
    and lost: "\<And>again app. Q app \<Longrightarrow> R (TransportError again) app"
    and gateway: "\<And>app. Q app \<Longrightarrow> R (Status 502) app \<and> R (Status 504) app"
    and start: "Q (wi_app w)"
    and sent: "transmit h w = (r, w')"
  shows "Q (wi_app w') \<and> R r (wi_app w')"
proof -
  have hd: "Q (wi_app (snd (handle h v))) \<and> R (Status (fst (handle h v))) (wi_app (snd (handle h v)))"
    if "wi_app v = wi_app w" for v
    using handler[OF start, of "wi_now v"] that by (simp add: handle_def case_prod_beta)
  show ?thesis
  proof (cases "wi_script w")
    case Nil
    then show ?thesis using hd[of w] sent by (auto simp: transmit_def case_prod_beta)
  next
    case (Cons x rest)
    obtain fate now where x: "x = (fate, now)" by (cases x)
    let ?w = "w\<lparr>wi_script := rest, wi_now := now\<rparr>"
    have h: "Q (wi_app (snd (handle h ?w)))" "R (Status (fst (handle h ?w))) (wi_app (snd (handle h ?w)))"
      using hd[of ?w] by simp_all
    show ?thesis
      using sent Cons x start h lost[OF start] lost[OF h(1)] gateway[OF start]
      by (cases fate) (auto simp: transmit_def Let_def case_prod_beta)
  qed
qed

lemma retry_rule:
  assumes handler: "\<And>now app. Q app \<Longrightarrow> Q (snd (h now app)) \<and> R (Status (fst (h now app))) (snd (h now app))"
    and lost: "\<And>again app. Q app \<Longrightarrow> R (TransportError again) app"
    and gateway: "\<And>app. Q app \<Longrightarrow> R (Status 502) app \<and> R (Status 504) app"
  shows "send_with_retry n (transmit h) w = (r, w') \<Longrightarrow> Q (wi_app w) \<Longrightarrow> Q (wi_app w') \<and> R r (wi_app w')"
proof (induction n arbitrary: w)
  case 0
  from 0(1) have t: "transmit h w = (r, w')" by simp
  show ?case by (rule transmit_rule[of Q h R, OF handler lost gateway 0(2) t])
next
  case (Suc n)
  obtain r1 w1 where t: "transmit h w = (r1, w1)" by (cases "transmit h w")
  note t1 = transmit_rule[of Q h R, OF handler lost gateway Suc.prems(2) t]
  show ?case
  proof (cases "0 < n \<and> retryable r1")
    case True
    then have "send_with_retry n (transmit h) w1 = (r, w')" using Suc.prems(1) t by simp
    from Suc.IH[OF this] t1 show ?thesis by blast
  next
    case False
    then have "r = r1" "w' = w1" using Suc.prems(1) t by (auto split: if_splits)
    then show ?thesis using t1 by blast
  qed
qed

section \<open>Reporting a completion\<close>

text \<open>The environment of the completion handler on the control plane (its external functions
  and the id it may draw), the text of a record and the compaction policy of the spool, and the fate
  of the disk operations: of the record, and of the acknowledgement of each attempt.\<close>

record completion_env =
  ce_externals :: externals
  ce_approval_id :: id
  ce_text :: "completion_line \<Rightarrow> string"
  ce_threshold :: nat
  ce_record_io :: record_io
  ce_ack_io :: "id \<Rightarrow> ack_io"

definition definitive :: "reply \<Rightarrow> bool" where
  "definitive r \<longleftrightarrow> (\<exists>s\<in>{400, 401, 404, 409, 412, 413, 422}. r = Status s)"

definition post_completion ::
    "completion_env \<Rightarrow> id \<Rightarrow> id \<Rightarrow> string \<Rightarrow> complete_request \<Rightarrow> wire \<Rightarrow> reply \<times> wire" where
  "post_completion ce nid aid fence req w =
     send_with_retry 20 (transmit (\<lambda>now. complete_route (ce_externals ce) now (ce_approval_id ce) nid aid
       (fence_header fence) req)) w"

text \<open>The report is recorded before it is posted. A record that fails is only logged, and so is an
  acknowledgement that fails.\<close>

definition ack_completion :: "completion_env \<Rightarrow> id \<Rightarrow> completion_outbox \<Rightarrow> completion_outbox" where
  "ack_completion ce aid = completion_ack (ce_text ce) (ce_threshold ce) (ce_ack_io ce aid) aid"

definition report_complete ::
    "completion_env \<Rightarrow> id \<Rightarrow> id \<Rightarrow> string \<Rightarrow> complete_request \<Rightarrow> completion_outbox \<Rightarrow> wire
      \<Rightarrow> completion_outbox \<times> wire" where
  "report_complete ce nid aid fence req co w =
     (let co1 = completion_record (ce_record_io ce) aid req fence co
      in case post_completion ce nid aid fence req w of
           (r, w1) \<Rightarrow>
             (if is_success r \<or> definitive r
              then ack_completion ce aid co1 else co1, w1))"

definition deliver_completion ::
    "completion_env \<Rightarrow> id \<Rightarrow> completion_line \<Rightarrow> completion_outbox \<times> wire \<Rightarrow> completion_outbox \<times> wire" where
  "deliver_completion ce nid c = (\<lambda>(co, w).
     case post_completion ce nid (cl_attempt_id c) (cl_fencing_token c) (to_request c) w of
       (r, w1) \<Rightarrow>
         (if is_success r \<or> definitive r
          then ack_completion ce (cl_attempt_id c) co else co, w1))"

definition redeliver_completion ::
    "completion_env \<Rightarrow> id \<Rightarrow> id \<Rightarrow> completion_outbox \<times> wire \<Rightarrow> completion_outbox \<times> wire" where
  "redeliver_completion ce nid aid = (\<lambda>(co, w).
     case completion_pending co of (cs, co1) \<Rightarrow>
       (case find (\<lambda>c. cl_attempt_id c = aid) cs of
          None \<Rightarrow> (co1, w)
        | Some c \<Rightarrow> deliver_completion ce nid c (co1, w)))"

definition recover_completions ::
    "completion_env \<Rightarrow> id \<Rightarrow> completion_outbox \<times> wire \<Rightarrow> completion_outbox \<times> wire" where
  "recover_completions ce nid = (\<lambda>(co, w).
     case completion_pending co of (cs, co1) \<Rightarrow> fold (deliver_completion ce nid) cs (co1, w))"

section \<open>The end of an attempt\<close>

text \<open>The spool is drained, the completion is reported, the spool is drained again and its file
  is removed. The two numbers are the deadlines of the drains.\<close>

definition finish_attempt ::
    "nat \<times> nat \<Rightarrow> completion_env \<Rightarrow> id \<Rightarrow> id \<Rightarrow> string \<Rightarrow> nat \<Rightarrow> nat \<Rightarrow> complete_request \<Rightarrow>
      sink \<Rightarrow> completion_outbox \<Rightarrow> wire \<Rightarrow> sink \<times> completion_outbox \<times> wire" where
  "finish_attempt caps ce nid aid fence n1 n2 req sk co w =
     (let post = post_events nid aid fence 2;
          (sk1, w1) = drain_outbox caps post True n1 sk w;
          (plan, sk2) = take_plan sk1;
          (co1, w2) = report_complete ce nid aid fence (req\<lparr>cr_plan := plan\<rparr>) co w1;
          (sk3, w3) = drain_outbox caps post True n2 sk2 w2
      in (sk3\<lparr>sk_outbox := discard (sk_outbox sk3)\<rparr>, co1, w3))"

section \<open>The log behind the route\<close>

definition attempt_log :: "id \<Rightarrow> store \<Rightarrow> stored list" where
  "attempt_log aid st = map (\<lambda>r. (e_sequence r, e_type r, e_payload r))
     (filter (\<lambda>r. e_attempt_id r = aid) (task_events st))"

definition wire_log :: "id \<Rightarrow> wire \<Rightarrow> stored list" where
  "wire_log aid w = attempt_log aid (app_store (wi_app w))"

lemma attempt_log_insert:
  "attempt_log aid (snd (insert_event \<lparr>e_attempt_id = aid, e_sequence = s, e_type = ty, e_payload = p,
      e_created_at = t, e_ingest_id = c\<rparr> st)) =
   (if s \<in> fst ` set (attempt_log aid st) then attempt_log aid st else attempt_log aid st @ [(s, ty, p)])"
  by (auto simp: insert_event_def attempt_log_def sql_count_def filter_empty_conv image_image image_iff)

lemma attempt_log_inserts:
  "attempt_log aid (snd (insert_events now aid c evs st)) = absorb (attempt_log aid st) evs"
  by (induction evs arbitrary: c st)
     (simp_all add: case_prod_beta Let_def attempt_log_insert stored_of_def)

lemma ingest_events_attempt_log:
  "attempt_log aid (snd (ingest_events now aid evs st)) =
     (if open_attempt aid st then absorb (attempt_log aid st) evs else attempt_log aid st)"
proof (cases "open_attempt aid st")
  case True
  then obtain a where a: "find_attempt st aid = Some a" "\<not> attempt_terminal (a_status a)"
    by (auto simp: open_attempt_def split: option.splits)
  have frame: "attempt_log aid (s\<lparr>ingest_next := n\<rparr>) = attempt_log aid s"
    "attempt_log aid (s\<lparr>attempts := as, tasks := ts\<rparr>) = attempt_log aid s"
    for s :: store and n as ts by (simp_all add: attempt_log_def)
  show ?thesis using a True
    by (simp add: ingest_events_def Let_def case_prod_beta attempt_log_inserts frame)
next
  case False
  then show ?thesis by (subst ingest_closed) (auto simp: open_attempt_def split: option.splits)
qed

end
