(* ===== verification/NodeCompletion.thy ===== *)
theory NodeCompletion
  imports NodeWire EventProps
begin

text \<open>
  The completion of an attempt, from the node's spool to the control plane's store. The spool
  file with its drop markers and compactions refines a map from attempts to the reports still
  owed; a report is recorded before it is sent and forgotten only when the control plane has
  settled the attempt or will never take it.
\<close>

section \<open>The spool as a map\<close>

definition pending_lines :: "completion_outbox \<Rightarrow> completion_line list" where
  "pending_lines co = fst (completion_pending co)"

definition owed :: "completion_outbox \<Rightarrow> id \<rightharpoonup> complete_request \<times> string" where
  "owed co = map_of (map (\<lambda>l. (cl_attempt_id l, (to_request l, cl_fencing_token l))) (pending_lines co))"

definition clean :: "completion_outbox \<Rightarrow> bool" where
  "clean co \<longleftrightarrow> (\<forall>l\<in>set (co_file co). \<not> torn_completion l)"

lemma pending_lines_def2:
  "pending_lines co = filter (\<lambda>l. cl_attempt_id l \<notin> dropped_attempts (co_file co)) (List.map_filter record_of (co_file co))"
  by (simp add: pending_lines_def completion_pending_def Let_def)

lemma map_filter_append: "List.map_filter f (xs @ ys) = List.map_filter f xs @ List.map_filter f ys"
  by (simp add: List.map_filter_def)

lemma dropped_append [simp]: "dropped_attempts (xs @ ys) = dropped_attempts xs \<union> dropped_attempts ys"
  by (simp add: dropped_attempts_def map_filter_append)

lemma dropped_single [simp]:
  "dropped_attempts [] = {}" "dropped_attempts [Dropped a] = {a}" "dropped_attempts [Completion l] = {}"
  by (simp_all add: dropped_attempts_def List.map_filter_simps)

lemma dropped_filter:
  "(\<And>a. p (Dropped a)) \<Longrightarrow> dropped_attempts (filter p ls) = dropped_attempts ls"
  by (induction ls) (auto simp: dropped_attempts_def List.map_filter_simps elim: drop_of.elims split: option.splits)

lemma records_filter:
  "List.map_filter record_of (filter p ls) = filter (\<lambda>l. p (Completion l)) (List.map_filter record_of ls)"
  by (induction ls) (auto simp: List.map_filter_simps elim: record_of.elims split: option.splits)

text \<open>The line a completion is recorded as gives the request back.\<close>

lemma to_request_line [simp]:
  "to_request (completion_line_of aid req token) = req"
  "cl_attempt_id (completion_line_of aid req token) = aid"
  "cl_fencing_token (completion_line_of aid req token) = token"
  by (simp_all add: to_request_def completion_line_of_def)

lemma pending_record:
  "pending_lines (completion_record RecordOk aid req token co) =
    (if aid \<in> dropped_attempts (co_file co) then pending_lines co
     else filter (\<lambda>l. cl_attempt_id l \<noteq> aid) (pending_lines co) @ [completion_line_of aid req token])"
proof -
  have "dropped_attempts (filter (\<lambda>l. \<not> line_for aid l) (co_file co)) = dropped_attempts (co_file co)"
    by (rule dropped_filter) simp
  then show ?thesis
    by (auto simp: pending_lines_def2 completion_record_def map_filter_append records_filter List.map_filter_simps
        conj_commute intro: filter_cong)
qed

lemma pending_compact: "pending_lines (compact co) = pending_lines co" "dropped_attempts (co_file (compact co)) = {}"
proof -
  have "drop_of l = None" if "compact_keeps g l" for g l using that by (cases l) auto
  then have d: "List.map_filter drop_of (filter (compact_keeps g) ls) = []" for g ls
    by (induction ls) (auto simp: List.map_filter_simps split: option.split)
  then show "dropped_attempts (co_file (compact co)) = {}" by (simp add: compact_def dropped_attempts_def)
  then show "pending_lines (compact co) = pending_lines co"
    by (simp add: pending_lines_def2 compact_def records_filter)
qed

text \<open>An acknowledgement lands when its whole marker reaches the file, with or without the newline.\<close>

definition ack_lands :: "(completion_line \<Rightarrow> string) \<Rightarrow> ack_io \<Rightarrow> id \<Rightarrow> bool" where
  "ack_lands tx io aid \<longleftrightarrow>
     (case io of AckNotOpened \<Rightarrow> False | AckStops n \<Rightarrow> length (completion_text tx (Dropped aid)) \<le> n | _ \<Rightarrow> True)"

lemma pending_marker:
  assumes "\<not> co_open co"
  shows "pending_lines (append_marker tx (Dropped aid) t co) = filter (\<lambda>l. cl_attempt_id l \<noteq> aid) (pending_lines co)"
    and "pending_lines (append_marker tx (TornCompletion s) t co) = pending_lines co"
proof -
  have torn: "dropped_attempts [TornCompletion s] = {}" by (simp add: dropped_attempts_def List.map_filter_simps)
  show "pending_lines (append_marker tx (Dropped aid) t co) = filter (\<lambda>l. cl_attempt_id l \<noteq> aid) (pending_lines co)"
    using assms by (simp add: pending_lines_def2 append_marker_def map_filter_append List.map_filter_simps) (metis (lifting))
  show "pending_lines (append_marker tx (TornCompletion s) t co) = pending_lines co"
    using assms by (simp add: pending_lines_def2 append_marker_def map_filter_append List.map_filter_simps torn)
qed

lemma pending_ack:
  assumes "\<not> co_open co"
  shows "pending_lines (completion_ack tx threshold io aid co) =
    (if ack_lands tx io aid then filter (\<lambda>l. cl_attempt_id l \<noteq> aid) (pending_lines co) else pending_lines co)"
  by (cases io) (simp_all add: completion_ack_def Let_def ack_lands_def pending_compact pending_marker[OF assms])

lemma map_of_without:
  "map_of (map (\<lambda>l. (k l, v l)) (filter (\<lambda>l. k l \<noteq> a) ls)) = (map_of (map (\<lambda>l. (k l, v l)) ls))(a := None)"
  by (induction ls) auto

locale report_spool =
  fixes record_it :: "id \<Rightarrow> complete_request \<Rightarrow> string \<Rightarrow> 's \<Rightarrow> 's"
    and ack_it :: "'o \<Rightarrow> id \<Rightarrow> 's \<Rightarrow> 's"
    and reports :: "'s \<Rightarrow> id \<rightharpoonup> complete_request \<times> string"
    and spent :: "'s \<Rightarrow> id \<Rightarrow> bool" and torn :: "'s \<Rightarrow> bool" and lands :: "'o \<Rightarrow> id \<Rightarrow> bool"
  assumes record_law: "reports (record_it aid req token s) =
      (if spent s aid then reports s else (reports s)(aid \<mapsto> (req, token)))"
    and record_whole: "\<not> torn (record_it aid req token s)"
    and ack_law: "\<not> torn s \<Longrightarrow> reports (ack_it out aid s) = (if lands out aid then (reports s)(aid := None) else reports s)"
begin

text \<open>A client that records first and acknowledges only a settled report.\<close>

lemma recorded_until_settled:
  "\<not> spent s aid \<Longrightarrow>
   reports (if final then ack_it out aid (record_it aid req token s) else record_it aid req token s) =
     (reports s)(aid := if final \<and> lands out aid then None else Some (req, token))"
  by (simp add: record_law ack_law record_whole)

end

interpretation report: report_spool "completion_record RecordOk" "completion_ack tx threshold" owed
  "\<lambda>co aid. aid \<in> dropped_attempts (co_file co)" co_open "ack_lands tx" for tx threshold
proof unfold_locales
  show "\<not> co_open (completion_record RecordOk aid req token s)" for aid req token s
    by (simp add: completion_record_def)
qed (simp_all add: owed_def pending_record pending_ack map_of_without map_add_def fun_eq_iff split: option.split)

text \<open>C20: The completion spool, a file of records and drop markers that is compacted now and then,
  implements a map from attempts to owed reports, with these laws. Recording puts the report under
  its attempt with every field of the request and its token, unless the file still holds a drop
  marker of that attempt, which hides the new record; a record that fails changes nothing, and one
  that cannot read the old file keeps the new report alone. Acknowledging on a file whose last line
  is terminated removes the report when the whole marker is written and changes nothing otherwise.
  Neither compaction nor reading a file without torn lines changes the map.\<close>

theorem completion_spool_refines_map:
  "owed (completion_record RecordOk aid req token co) =
      (if aid \<in> dropped_attempts (co_file co) then owed co else (owed co)(aid \<mapsto> (req, token))) \<and>
   owed (completion_record RecordFails aid req token co) = owed co \<and>
   owed (completion_record RecordUnread aid req token co) = [aid \<mapsto> (req, token)] \<and>
   (\<not> co_open co \<longrightarrow> owed (completion_ack tx threshold io aid co) =
      (if ack_lands tx io aid then (owed co)(aid := None) else owed co)) \<and>
   owed (compact co) = owed co \<and>
   (clean co \<longrightarrow> owed (snd (completion_pending co)) = owed co)"
proof -
  have "owed (compact co) = owed co" by (simp add: owed_def pending_compact)
  moreover have "clean co \<Longrightarrow> snd (completion_pending co) = co"
    by (simp add: clean_def completion_pending_def Let_def filter_empty_conv)
  moreover have "owed (completion_record RecordUnread aid req token co) = [aid \<mapsto> (req, token)]"
    by (simp add: owed_def pending_lines_def2 completion_record_def List.map_filter_simps)
  moreover have "owed (completion_record RecordFails aid req token co) = owed co" by (simp add: completion_record_def)
  ultimately show ?thesis
    using report.record_law[of aid req token co] report.ack_law[of co tx threshold io aid] by simp
qed

text \<open>Reading a damaged spool brings settled reports back. The rewrite that moves torn lines to
  the quarantine keeps the records but not the drop markers, so a report that was acknowledged and
  no longer owed is owed again afterwards.\<close>

theorem quarantine_revives_settled_reports:
  assumes "Completion l \<in> set (co_file co)" "Dropped (cl_attempt_id l) \<in> set (co_file co)"
    and "TornCompletion s \<in> set (co_file co)"
  shows "owed co (cl_attempt_id l) = None \<and> owed (snd (completion_pending co)) (cl_attempt_id l) \<noteq> None"
proof
  have "cl_attempt_id l \<in> dropped_attempts (co_file co)"
    using assms(2) by (force simp: dropped_attempts_def List.map_filter_def)
  then show "owed co (cl_attempt_id l) = None"
    by (auto simp: owed_def pending_lines_def2 map_of_eq_None_iff)
  let ?rs = "List.map_filter record_of (co_file co)"
  have "l \<in> set ?rs" using assms(1) by (force simp: List.map_filter_def)
  moreover have "filter torn_completion (co_file co) \<noteq> []" using assms(3) by (force simp: filter_empty_conv)
  then have "co_file (snd (completion_pending co)) = map Completion ?rs"
    by (simp add: completion_pending_def Let_def)
  moreover have "List.map_filter record_of (map Completion xs) = xs" "dropped_attempts (map Completion xs) = {}" for xs
    by (induction xs) (simp_all add: List.map_filter_simps dropped_attempts_def)
  ultimately show "owed (snd (completion_pending co)) (cl_attempt_id l) \<noteq> None"
    by (auto simp: owed_def pending_lines_def2 map_of_eq_None_iff image_iff)
qed

section \<open>The report and the store\<close>

lemma next_attempt_finished:
  "e \<in> {ASucceed, AFail, ACancel} \<Longrightarrow> next_attempt_status s e = Inr s' \<Longrightarrow> attempt_terminal s'"
  by (cases s) (auto simp: attempt_terminal.simps)

lemma targets_terminal:
  assumes "completion_targets a t b = Inr (ats, tt)"
  shows "attempt_terminal ats"
proof -
  have "\<exists>e\<in>{ASucceed, AFail, ACancel}. next_attempt_status (a_status a) e = Inr ats"
    using assms by (auto simp: completion_targets_def split: sum.splits if_splits)
  then show ?thesis using next_attempt_finished by blast
qed

lemma commit_attempts:
  "attempts (complete_commit now apid a t req ats tt st) = sql_update (\<lambda>r. a_id r = a_id a)
     (\<lambda>r. r\<lparr>a_status := ats, a_finished_at := Some now, a_report := apply_report req (a_report r)\<rparr>) (attempts st)"
proof -
  have n: "attempts (insert_verification_note now i msg s) = attempts s" for i msg s
    by (simp add: insert_verification_note_def)
  have m: "attempts (record_metrics now a req s) = attempts s" for s
    by (simp add: record_metrics_def Let_def split: option.split)
  show ?thesis
    by (simp add: complete_commit_def Let_def n m finish_agent_session_def update_attempt_def dec_active_def)
qed

lemma complete_settles:
  assumes "complete_attempt ex now apid aid req st = (Inr True, st')"
  shows "\<not> open_attempt aid st'"
proof (cases "find_attempt st aid")
  case None
  then show ?thesis using assms by (simp add: complete_attempt_def)
next
  case (Some a)
  show ?thesis
  proof (cases "attempt_terminal (a_status a)")
    case True
    then have "attempts st' = attempts st" using assms Some by (auto simp: complete_attempt_def audit_def)
    then have "find_attempt st' aid = Some a" using Some by (simp add: find_attempt_def)
    then show ?thesis using True by (simp add: open_attempt_def)
  next
    case False
    obtain t ats tt where t: "find_task st (a_task_id a) = Some t"
      "completion_targets a t (req_success req) = Inr (ats, tt)"
      using assms Some False by (auto simp: complete_attempt_def split: option.splits sum.splits)
    have id: "a_id a = aid" using find_attempt_core[OF Some] by simp
    have "find_attempt (complete_commit now apid a t req ats tt st) aid =
        Some (a\<lparr>a_status := ats, a_finished_at := Some now, a_report := apply_report req (a_report a)\<rparr>)"
      using Some by (simp add: find_attempt_def commit_attempts id sql_first_update[where key = a_id])
    moreover have "same_core (complete_commit now apid a t req ats tt st) st'"
      using complete_attempt_core[OF Some False t] assms by (metis snd_conv)
    then have "map_option (\<lambda>a. (a_task_id a, a_node_id a, a_status a)) (find_attempt st' aid) =
        map_option (\<lambda>a. (a_task_id a, a_node_id a, a_status a)) (find_attempt (complete_commit now apid a t req ats tt st) aid)"
      by (simp only: find_by_core(2) same_core_def)
    ultimately have "map_option (\<lambda>a. (a_task_id a, a_node_id a, a_status a)) (find_attempt st' aid) =
        Some (a_task_id a, a_node_id a, ats)" by simp
    then show ?thesis using targets_terminal[OF t(2)] by (auto simp: open_attempt_def)
  qed
qed

lemma complete_refused:
  assumes "store_inv st" "complete_attempt ex now apid aid req st = (Inl (TransitionError e), st')"
  shows "st' = st \<and> (\<exists>a. find_attempt st aid = Some a \<and> a_status a = AttemptAssigned)"
proof -
  obtain a where a: "find_attempt st aid = Some a" "\<not> attempt_terminal (a_status a)"
    using assms(2) by (auto simp: complete_attempt_def split: option.splits if_splits)
  have act: "attempt_active (a_status a)" using a(2) by (cases "a_status a") (auto simp: attempt_terminal.simps attempt_active.simps)
  obtain t where t: "find_task st (a_task_id a) = Some t" "t_status t = task_of_attempt (a_status a)"
  proof -
    obtain k where "table_map t_id task_val (tasks st) (a_task_id a) = Some (task_of_attempt (a_status a), Some aid)"
      using live_attempt[OF assms(1) _ act, of aid "a_task_id a" "a_node_id a"] find_attempt_core[OF a(1)] by blast
    then have "map_option (\<lambda>t. (t_status t, t_assigned_attempt_id t)) (find_task st (a_task_id a)) =
        Some (task_of_attempt (a_status a), Some aid)"
      by (simp add: find_by_core(1) core_of_def)
    then show thesis using that by auto
  qed
  have "a_status a = AttemptAssigned"
  proof (rule ccontr)
    assume "a_status a \<noteq> AttemptAssigned"
    then have "a_status a \<in> {AttemptRunning, AttemptValidating}"
      using a(2) by (cases "a_status a") (auto simp: attempt_terminal.simps)
    from running_targets[OF this t(2)] have "\<exists>x. completion_targets a t (req_success req) = Inr x" by blast
    then show False using assms(2) a t(1) by (auto simp: complete_attempt_def Let_def)
  qed
  then show ?thesis using assms(2) a t(1) by (auto simp: complete_attempt_def Let_def split: sum.splits)
qed

text \<open>When the control plane needs no report of this node any more: the attempt is over, or it is
  not this node's, or it was never acknowledged.\<close>

definition report_pointless :: "id \<Rightarrow> id \<Rightarrow> string \<Rightarrow> store \<Rightarrow> bool" where
  "report_pointless nid aid fence st \<longleftrightarrow> \<not> open_attempt aid st \<or> \<not> authorized nid aid (fence_header fence) st \<or>
     (\<exists>a. find_attempt st aid = Some a \<and> a_status a = AttemptAssigned)"

lemma route_settles:
  assumes "store_reachable (app_store app)"
    and "complete_route ex now apid nid aid (fence_header fence) req app = (code, app')"
  shows "store_reachable (app_store app') \<and>
    (is_success (Status code) \<or> definitive (Status code) \<longrightarrow> report_pointless nid aid fence (app_store app'))"
proof (cases "authorized nid aid (fence_header fence) (app_store app)")
  case False
  then obtain c a where "authorize_attempt_mutation nid aid (fence_header fence) app = (Inl c, a)" "app_store a = app_store app"
    by (rule authorize_refused) blast
  then have "app_store app' = app_store app" using assms(2) by (simp add: complete_route_def)
  then show ?thesis using assms(1) False by (simp add: report_pointless_def)
next
  case True
  obtain r st where c: "complete_attempt ex now apid aid req (app_store app) = (r, st)" by fastforce
  have eq: "code = complete_code r" "app_store app' = st"
    using assms(2) authorize_ok[OF True] c by (auto simp: complete_route_def)
  have "store_reachable st" using reach_step[OF assms(1) s_complete] c by (metis snd_conv)
  moreover have "report_pointless nid aid fence st" if "is_success (Status code) \<or> definitive (Status code)"
  proof (cases r)
    case (Inl e)
    with that eq have "\<exists>e'. e = TransitionError e'" by (cases e) (auto simp: definitive_def)
    then show ?thesis using complete_refused[OF store_sys.reachable_inv[OF assms(1)]] c Inl
      by (fastforce simp: report_pointless_def)
  next
    case (Inr b)
    show ?thesis
    proof (cases b)
      case True
      then show ?thesis using complete_settles c Inr by (fastforce simp: report_pointless_def)
    next
      case False
      then have "find_attempt (app_store app) aid = None \<and> st = app_store app"
        using c Inr by (auto simp: complete_attempt_def Let_def split: option.splits sum.splits if_splits)
      then show ?thesis by (simp add: report_pointless_def open_attempt_def)
    qed
  qed
  ultimately show ?thesis using eq by simp
qed

lemma post_settles:
  assumes "store_reachable (app_store (wi_app w))" "post_completion ce nid aid fence req w = (r, w')"
  shows "is_success r \<or> definitive r \<Longrightarrow> report_pointless nid aid fence (app_store (wi_app w'))"
proof -
  have "store_reachable (app_store (wi_app w')) \<and>
      (is_success r \<or> definitive r \<longrightarrow> report_pointless nid aid fence (app_store (wi_app w')))"
    by (rule retry_rule[where Q = "\<lambda>app. store_reachable (app_store app)"
          and R = "\<lambda>r app. is_success r \<or> definitive r \<longrightarrow> report_pointless nid aid fence (app_store app)",
          OF _ _ _ assms(2)[unfolded post_completion_def] assms(1)])
       (use route_settles[OF _ prod.collapse[symmetric]] in \<open>auto simp: definitive_def\<close>)
  then show "is_success r \<or> definitive r \<Longrightarrow> report_pointless nid aid fence (app_store (wi_app w'))" by blast
qed


text \<open>Without the record there is nothing to fall back on: when it fails and no request gets an
  answer that settles the report, the spool is what it was before.\<close>

lemma unrecorded_report_is_dropped:
  assumes "ce_record_io ce = RecordFails" "post_completion ce nid aid fence req w = (r, w')"
    and "\<not> is_success r" "\<not> definitive r"
  shows "report_complete ce nid aid fence req co w = (co, w')"
  using assms by (simp add: report_complete_def completion_record_def)

text \<open>A report of failure adds nothing to the event log.\<close>

lemma failed_report_keeps_log:
  assumes "\<not> req_success req"
  shows "attempt_log i (snd (complete_attempt ex now apid aid req st)) = attempt_log i st"
proof -
  have fail: "tt \<noteq> TaskSucceeded" if "completion_targets a t (req_success req) = Inr (ats, tt)" for a t ats tt
    using that assms by (cases "t_status t") (auto simp: completion_targets_def split: sum.splits if_splits)
  have commit: "frame_view (complete_commit now apid a t req ats tt st) = frame_view st" if "tt \<noteq> TaskSucceeded" for a t ats tt
    using that by (simp add: complete_commit_def Let_def)
  have "frame_view (snd (complete_attempt ex now apid aid req st)) = frame_view st"
    using fail commit by (auto simp: complete_attempt_def Let_def split: option.split sum.split)
  then show ?thesis by (simp add: frame_view_def log_view_def attempt_log_def)
qed

section \<open>Examples\<close>

definition demo_limits :: limits where
  "demo_limits = \<lparr>lm_prompt = 100, lm_event = 4, lm_artifact = 100, lm_event_batch_count = 2,
     lm_event_batch_bytes = 200, lm_artifact_quota_bytes = 0\<rparr>"

definition demo_app :: app_state where
  "demo_app = \<lparr>app_store = demo_running, app_limits = demo_limits, app_event_rate = with_limits 60 10,
     app_cross_node_rejects = 0, app_stale_fencing_tokens = 0, app_event_rejections = 0, app_event_gaps = 0\<rparr>"

definition demo_wire :: "(net \<times> time) list \<Rightarrow> wire" where
  "demo_wire script = \<lparr>wi_app = demo_app, wi_script = script, wi_now = 25\<rparr>"

definition demo_ce :: completion_env where
  "demo_ce = \<lparr>ce_externals = demo_externals, ce_approval_id = ''r1'', ce_text = (\<lambda>l. []), ce_threshold = 100,
     ce_record_io = RecordOk, ce_ack_io = (\<lambda>a. AckWritten True)\<rparr>"

definition demo_spool :: completion_outbox where
  "demo_spool = \<lparr>co_file = [], co_open = False, co_quarantine = []\<rparr>"

lemma demo_attempt:
  "find_attempt demo_running ''a-t1'' = Some ((new_attempt 10 ''a-t1'' ''t1'' 1 ''n1'' ''f-t1'')\<lparr>a_status := AttemptRunning,
     a_ack_deadline := None, a_started_at := 20\<rparr>)"
  by (simp add: find_attempt_def demo_running_eq sql_first_def new_attempt_def)

theorem completion_spool_refines_map_witness:
  "owed (completion_record RecordOk ''a-t1'' demo_report ''f-t1'' demo_spool) = (owed demo_spool)(''a-t1'' \<mapsto> (demo_report, ''f-t1''))
   \<and> owed (completion_ack (\<lambda>l. []) 100 (AckStops 3) ''a-t1'' demo_spool) = owed demo_spool
   \<and> owed (snd (completion_pending demo_spool)) = owed demo_spool"
  using completion_spool_refines_map[of "''a-t1''" demo_report "''f-t1''" demo_spool "\<lambda>l. []" 100 "AckStops 3"]
  by (simp add: demo_spool_def clean_def ack_lands_def)

theorem quarantine_revives_settled_reports_witness:
  "let l = completion_line_of ''a-t1'' demo_report ''f-t1'';
       co = demo_spool\<lparr>co_file := [Completion l, Dropped ''a-t1'', TornCompletion ''half a li'']\<rparr>
   in owed co ''a-t1'' = None \<and> owed (snd (completion_pending co)) ''a-t1'' \<noteq> None"
  using quarantine_revives_settled_reports[of "completion_line_of ''a-t1'' demo_report ''f-t1''"
    "demo_spool\<lparr>co_file := [Completion (completion_line_of ''a-t1'' demo_report ''f-t1''), Dropped ''a-t1'',
       TornCompletion ''half a li'']\<rparr>" "''half a li''"]
  by (simp add: Let_def)


end
