(* ===== verification/DeliveryProps.thy ===== *)
theory DeliveryProps
  imports NodeCompletion
begin

text \<open>
  Events from node to control plane, end to end: the route and the network provide the laws of
  \<open>event_log\<close>, so no spooled event is lost while an attempt runs; a drain against a control plane
  that answers empties the spool; and two ways in which the stream is nevertheless cut.
\<close>

section \<open>The route keeps the laws of the log\<close>

lemma route_log:
  "attempt_log aid (app_store (snd (ingest_route now nid aid h batch app))) =
     (if fst (ingest_route now nid aid h batch app) = 200
      then absorb (attempt_log aid (app_store app)) batch else attempt_log aid (app_store app))"
proof (cases rule: ingest_route_effect[of now nid aid h batch app])
  case refused
  then show ?thesis by auto
next
  case ingested
  then show ?thesis by (auto simp: ingest_events_attempt_log)
qed

lemma retry_log:
  assumes "send_with_retry n (transmit (\<lambda>now. ingest_route now nid aid h batch)) w = (r, w')"
  shows "wire_log aid w' = absorb (wire_log aid w) batch \<or> \<not> is_success r \<and> wire_log aid w' = wire_log aid w"
proof -
  let ?l = "wire_log aid w"
  have ok: "is_success (Status c) \<longrightarrow> c = 200" if "c \<in> {200, 403, 404, 409, 413, 429}" for c
    using that by auto
  have code: "fst (ingest_route now nid aid h batch app) \<in> {200, 403, 404, 409, 413, 429}" for now app
    by (cases rule: ingest_route_effect[of now nid aid h batch app]) auto
  have "attempt_log aid (app_store (wi_app w')) \<in> {?l, absorb ?l batch} \<and>
      (is_success r \<longrightarrow> attempt_log aid (app_store (wi_app w')) = absorb ?l batch)"
    by (rule retry_rule[where Q = "\<lambda>app. attempt_log aid (app_store app) \<in> {?l, absorb ?l batch}"
          and R = "\<lambda>r app. is_success r \<longrightarrow> attempt_log aid (app_store app) = absorb ?l batch", OF _ _ _ assms])
       (use ok[OF code] in \<open>auto simp: route_log absorb_twice wire_log_def\<close>)
  then show ?thesis by (auto simp: wire_log_def)
qed

lemma post_closed:
  assumes "\<not> open_attempt aid (app_store (wi_app w))" "post_events nid aid fence n w batch = (b, w')"
  shows "\<not> b \<and> app_store (wi_app w') = app_store (wi_app w)"
proof -
  let ?h = "\<lambda>now. ingest_route now nid aid (fence_header fence) batch"
  let ?st = "app_store (wi_app w)"
  obtain r where r: "send_with_retry n (transmit ?h) w = (r, w')" "b = is_success r"
    using assms(2) by (auto simp: post_events_def split: prod.splits)
  have cl: "ingest_events now aid batch ?st = (\<lparr>ack_accepted = 0, ack_highest = None\<rparr>, ?st)" for now
    by (rule ingest_closed) (use assms(1) in \<open>auto simp: open_attempt_def split: option.splits\<close>)
  have refuse: "\<not> is_success (Status (fst (?h now app))) \<and> app_store (snd (?h now app)) = ?st"
    if "app_store app = ?st" for now app
    by (cases rule: ingest_route_effect[of now nid aid "fence_header fence" batch app]) (use that assms(1) cl in auto)
  have "app_store (wi_app w') = ?st \<and> \<not> is_success r"
    by (rule retry_rule[where Q = "\<lambda>app. app_store app = ?st" and R = "\<lambda>r app. \<not> is_success r", OF _ _ _ r(1)])
       (use refuse in auto)
  then show ?thesis using r(2) by simp
qed

lemma retry_reachable:
  assumes "store_reachable (app_store (wi_app w))"
    and "send_with_retry n (transmit (\<lambda>now. ingest_route now nid aid h batch)) w = (r, w')"
  shows "store_reachable (app_store (wi_app w'))"
proof -
  have "store_reachable (app_store (snd (ingest_route now nid aid h batch app)))" if "store_reachable (app_store app)" for now app
    by (cases rule: ingest_route_effect[of now nid aid h batch app]) (use that in \<open>auto intro: reach_step s_ingest\<close>)
  then show ?thesis
    using retry_rule[where Q = "\<lambda>app. store_reachable (app_store app)" and R = "\<lambda>r app. True", OF _ _ _ assms(2) assms(1)]
    by blast
qed

text \<open>What the control plane does besides: any step of the store that leaves the events of this
  attempt alone, or after which the attempt is over. The control plane writes events of its own
  into an attempt's stream when the attempt is completed and later.\<close>

definition attempt_over :: "id \<Rightarrow> wire \<Rightarrow> bool" where
  "attempt_over aid w \<longleftrightarrow>
     (case find_attempt (app_store (wi_app w)) aid of None \<Rightarrow> False | Some a \<Rightarrow> attempt_terminal (a_status a))"

definition cp_other :: "id \<Rightarrow> wire \<Rightarrow> wire \<Rightarrow> bool" where
  "cp_other aid w w' \<longleftrightarrow> (wire_log aid w' = wire_log aid w \<or> attempt_over aid w') \<and>
     (app_store (wi_app w') = app_store (wi_app w) \<or> store_step (app_store (wi_app w)) (app_store (wi_app w')))"

definition cp_valid :: "wire \<Rightarrow> bool" where
  "cp_valid w \<longleftrightarrow> store_reachable (app_store (wi_app w))"

lemma over_not_open: "attempt_over aid w \<Longrightarrow> \<not> open_attempt aid (app_store (wi_app w))"
  by (auto simp: attempt_over_def open_attempt_def split: option.splits)

lemma step_keeps_over:
  assumes "cp_valid w" "store_step (app_store (wi_app w)) (app_store (wi_app w'))" "attempt_over aid w"
  shows "attempt_over aid w'"
proof -
  obtain a where a: "find_attempt (app_store (wi_app w)) aid = Some a" "attempt_terminal (a_status a)"
    using assms(3) by (auto simp: attempt_over_def split: option.splits)
  have "c_attempts (core_of (app_store (wi_app w))) aid = Some (a_task_id a, a_node_id a, a_status a)"
    using find_by_core(2)[of "app_store (wi_app w)" aid, symmetric] a(1) by simp
  from terminal_attempt_stays[OF r_into_rtranclp[of store_step, OF assms(2)] store_sys.reachable_inv[OF assms(1)[unfolded cp_valid_def]] this a(2)]
  have "map_option (\<lambda>a. (a_task_id a, a_node_id a, a_status a)) (find_attempt (app_store (wi_app w')) aid) =
      Some (a_task_id a, a_node_id a, a_status a)" by (simp only: find_by_core(2))
  then obtain b where "find_attempt (app_store (wi_app w')) aid = Some b" "a_status b = a_status a" by auto
  then show ?thesis using a(2) by (simp add: attempt_over_def)
qed

lemma step_log_extends: "store_step st st' \<Longrightarrow> \<exists>m. attempt_log aid st' = attempt_log aid st @ m"
  using store_step_log_grows[of st st'] by (auto simp: attempt_log_def elim!: prefixE)

interpretation cp: event_log "post_events nid aid fence" "cp_other aid" "wire_log aid" cp_valid "attempt_over aid" for nid aid fence
proof unfold_locales
  show "cp_valid s' \<and> (attempt_over aid s \<longrightarrow> attempt_over aid s') \<and>
      (\<exists>m. wire_log aid s' = wire_log aid s @ m \<and> (m = [] \<or> attempt_over aid s'))" if "cp_valid s" "cp_other aid s s'" for s s'
  proof (cases "app_store (wi_app s') = app_store (wi_app s)")
    case True
    then show ?thesis using that by (simp add: cp_valid_def attempt_over_def wire_log_def)
  next
    case False
    then have st: "store_step (app_store (wi_app s)) (app_store (wi_app s'))" using that(2) by (simp add: cp_other_def)
    obtain m where "wire_log aid s' = wire_log aid s @ m" using step_log_extends[OF st, of aid] by (auto simp: wire_log_def)
    moreover have "cp_valid s'" using that(1) st by (auto simp: cp_valid_def intro: reach_step)
    ultimately show ?thesis using step_keeps_over[OF that(1) st] that(2) by (auto simp: cp_other_def)
  qed
  show "wire_log aid s' = absorb (wire_log aid s) es \<or> \<not> b \<and> wire_log aid s' = wire_log aid s"
    if "post_events nid aid fence n s es = (b, s')" for n s es b s'
    using that retry_log[of n nid aid "fence_header fence" es s] by (auto simp: post_events_def split: prod.splits)
  show "cp_valid s'" if "cp_valid s" "post_events nid aid fence n s es = (b, s')" for n s es b s'
    using that retry_reachable[of s n nid aid "fence_header fence" es] by (auto simp: cp_valid_def post_events_def split: prod.splits)
  show "\<not> b \<and> wire_log aid s' = wire_log aid s \<and> attempt_over aid s'"
    if "attempt_over aid s" "post_events nid aid fence n s es = (b, s')" for n s es b s'
    using post_closed[OF over_not_open[OF that(1)] that(2)] that(1) by (simp add: wire_log_def attempt_over_def)
qed

text \<open>C18: No event that reached the disk of the node is lost while its attempt runs. Whatever the
  interleaving of producers, flusher, drain, aborted flushes and control plane, whatever requests and
  answers the network loses, and whatever disk operations fail or stop half-way: every event that was
  spooled with success while the last line of the file was terminated, and every event that stood on
  a terminated line of the file found at the start, is still in the spool or in the control plane's
  log. Until the attempt is over the log holds only events the node numbered, and none twice. The
  run starts with no event of the attempt in the log and with a spool file that can be read. The
  condition on the last line is needed: an event that is spooled behind a line cut by a failed write
  is lost from the disk although its push succeeds (\<open>torn_tail_destroys_next\<close>), and the removal of
  the file at the end of the attempt is not one of these steps.\<close>

theorem no_durable_event_lost:
  assumes "reachable (delivery_init cp_valid (wire_log aid))
    (delivery_step (post_events nid aid fence) (cp_other aid) caps cfg) d"
  shows "(\<forall>e\<in>set (dl_durable d). e \<in> set (spooled (sk_outbox (dl_sink d))) \<or> stored_of e \<in> set (wire_log aid (dl_cp d)))
    \<and> (\<not> attempt_over aid (dl_cp d) \<longrightarrow> set (wire_log aid (dl_cp d)) \<subseteq> stored_of ` set (dl_issued d)
        \<and> distinct (map fst (wire_log aid (dl_cp d)))) \<and> uniquely_numbered (set (dl_issued d))"
  using cp.delivery.reachable_inv[OF assms] settled_spooled[of "sk_outbox (dl_sink d)"]
  by (auto simp: delivery_inv_def safe_def)

section \<open>A drain that is answered\<close>

lemma absorb_append: "absorb l (a @ b) = absorb (absorb l a) b"
  by (induction a arbitrary: l) auto

locale answering_log = event_log post other logged valid over
  for post :: "nat \<Rightarrow> 's post" and other and logged and valid and over +
  fixes up :: "nat \<Rightarrow> 's \<Rightarrow> bool" and fits :: "ingest_event list \<Rightarrow> bool"
  assumes up_post: "up (Suc k) s \<Longrightarrow> fits es \<Longrightarrow> fst (post n s es) \<and> up k (snd (post n s es))"
begin

lemma chunks_delivered:
  "up (length cs) s \<Longrightarrow> \<forall>c\<in>set cs. fits c \<Longrightarrow> length cs \<le> k \<Longrightarrow>
   \<exists>ob' s'. drain_chunks (post n) True k cs ob s = (Some (k - length cs), ob', s') \<and>
     spooled ob' = filter (\<lambda>e. ie_sequence e \<notin> ie_sequence ` set (concat cs)) (spooled ob) \<and>
     logged s' = absorb (logged s) (concat cs)"
proof (induction cs arbitrary: k ob s)
  case (Cons c cs)
  obtain b s1 where p: "post n s c = (b, s1)" by fastforce
  have u: "b" "up (length cs) s1" using up_post[of "length cs" s c n] Cons.prems p by auto
  have l: "logged s1 = absorb (logged s) c" using post_log[OF p] u(1) by simp
  obtain k' where k: "k = Suc k'" using Cons.prems(3) by (cases k) auto
  let ?ob = "outbox_ack True (map ie_sequence c) ob"
  obtain ob' s' where "drain_chunks (post n) True k' cs ?ob s1 = (Some (k' - length cs), ob', s')"
    "spooled ob' = filter (\<lambda>e. ie_sequence e \<notin> ie_sequence ` set (concat cs)) (spooled ?ob)"
    "logged s' = absorb (logged s1) (concat cs)"
    using Cons.IH[OF u(2), of k' ?ob] Cons.prems(2, 3) k by auto
  then show ?case using p u(1) k by (auto simp: spooled_ack l absorb_append image_Un conj_commute)
qed simp

lemma drain_empties:
  assumes "up (length cs) s" "\<forall>c\<in>set cs. fits c" "length cs < k"
    and cs: "cs = split_batch (fst caps) (snd caps) (in_sequence_order (spooled ob))"
    and d: "drain_spool caps (post n) True k ob s = (ob', s')"
  shows "spooled ob' = [] \<and> logged s' = absorb (logged s) (in_sequence_order (spooled ob))"
proof -
  obtain k' where k: "k = Suc k'" using assms(3) by (cases k) auto
  obtain evs ob1 where pe: "outbox_pending ob = (evs, ob1)" by fastforce
  note sp = spooled_pending[OF pe]
  show ?thesis
  proof (cases "evs = []")
    case True
    then show ?thesis using d k pe sp by (simp add: in_sequence_order_def)
  next
    case False
    have "length cs \<le> k'" using assms(3) k by simp
    then obtain ob2 s2 where c: "drain_chunks (post n) True k' cs ob1 s = (Some (k' - length cs), ob2, s2)"
      "spooled ob2 = filter (\<lambda>e. ie_sequence e \<notin> ie_sequence ` set (concat cs)) (spooled ob1)"
      "logged s2 = absorb (logged s) (concat cs)"
      using chunks_delivered[OF assms(1, 2), of k' n ob1] by blast
    have cc: "concat cs = in_sequence_order evs" by (simp add: cs split_batch_concat sp(1))
    have z: "spooled ob2 = []" by (simp add: c(2) cc sp in_sequence_order_def)
    have "drain_spool caps (post n) True (k' - length cs) ob2 s2 = (ob', s')"
      using d k pe False c(1) by (simp add: cs sp(1))
    moreover have "spooled ob' = [] \<and> s' = s2"
      if "drain_spool caps (post n) True m ob2 s2 = (ob', s')" for m
    proof (cases m)
      case (Suc j)
      obtain e2 o2 where "outbox_pending ob2 = (e2, o2)" by fastforce
      then show ?thesis using that Suc spooled_pending[of ob2 e2 o2] z by simp
    qed (use that z in simp)
    ultimately show ?thesis using c(3) cc sp(1) by auto
  qed
qed

end

definition batch_size :: "ingest_event list \<Rightarrow> nat" where
  "batch_size es = sum_list (map (\<lambda>e. length (ie_payload e) + 64) es)"

lemma batch_size_simps [simp]:
  "batch_size [] = 0" "batch_size [e] = length (ie_payload e) + 64"
  "batch_size (es @ es') = batch_size es + batch_size es'"
  by (simp_all add: batch_size_def)

lemma split_from_bytes:
  "c \<in> set (split_from me mb cur n es) \<Longrightarrow> n = batch_size cur \<Longrightarrow> n \<le> mb \<or> length cur \<le> 1 \<Longrightarrow>
   batch_size c \<le> mb \<or> length c \<le> 1"
proof (induction me mb cur n es rule: split_from.induct)
  case (2 me mb cur n e es)
  let ?full = "cur \<noteq> [] \<and> me \<le> length cur \<or> cur \<noteq> [] \<and> mb < n + (length (ie_payload e) + 64)"
  show ?case
  proof (cases ?full)
    case True
    then consider "c = cur" | "c \<in> set (split_from me mb [e] (length (ie_payload e) + 64) es)"
      using 2(3) by (auto simp: Let_def)
    then show ?thesis
    proof cases
      case 1
      then show ?thesis using 2(4, 5) by simp
    next
      case c: 2
      from 2(1)[OF refl True c] show ?thesis by simp
    qed
  next
    case False
    then have "c \<in> set (split_from me mb (cur @ [e]) (n + (length (ie_payload e) + 64)) es)"
      using 2(3) by (auto simp: Let_def split: if_splits)
    moreover have "n + (length (ie_payload e) + 64) \<le> mb \<or> length (cur @ [e]) \<le> 1"
      using False by (cases "cur = []") auto
    ultimately show ?thesis using 2(2)[OF refl False] 2(4) by simp
  qed
qed (auto split: if_splits)

text \<open>The caps of the node are no larger than those of the control plane, and no single event is
  too large: then every batch of a send fits.\<close>

definition caps_fit :: "nat \<times> nat \<Rightarrow> limits \<Rightarrow> bool" where
  "caps_fit caps lm \<longleftrightarrow> max (fst caps) 1 \<le> lm_event_batch_count lm \<and> snd caps \<le> lm_event_batch_bytes lm \<and>
     lm_event lm \<le> lm_event_batch_bytes lm"

lemma chunks_fit:
  assumes "caps_fit caps lm" "\<forall>e\<in>set es. length (ie_payload e) \<le> lm_event lm"
    and "c \<in> set (split_batch (fst caps) (snd caps) es)"
  shows "batch_fits lm c"
proof -
  have sub: "set c \<subseteq> set es" using assms(3) split_batch_concat[of "fst caps" "snd caps" es] by (metis UN_upper set_concat)
  have pt: "payload_total c \<le> batch_size c"
    by (simp add: payload_total_def batch_size_def sum_list_mono)
  have "payload_total c \<le> lm_event_batch_bytes lm"
  proof (cases "length c \<le> 1")
    case True
    then consider "c = []" | e where "c = [e]" by (cases c) auto
    then show ?thesis
      by cases (use assms(1, 2) sub in \<open>auto simp: payload_total_def caps_fit_def intro: order_trans\<close>)
  next
    case False
    then have "batch_size c \<le> snd caps"
      using split_from_bytes[of c "fst caps" "snd caps" "[]" 0 es] assms(3) by (simp add: split_batch_def)
    then show ?thesis using pt assms(1) by (simp add: caps_fit_def)
  qed
  moreover have "length c \<le> lm_event_batch_count lm"
    using batch_bounds[OF assms(3)] assms(1) unfolding caps_fit_def by linarith
  ultimately show ?thesis using assms(2) sub by (auto simp: batch_fits_def)
qed

text \<open>A control plane that answers: the network delivers, the node owns a running attempt, and the
  rate limiter has \<open>k\<close> requests left in its window.\<close>

definition rate_left :: "event_rate \<Rightarrow> id \<Rightarrow> int \<Rightarrow> nat" where
  "rate_left er nid now =
     (case entry_of er nid of
        None \<Rightarrow> unat (er_max er)
      | Some (start, n) \<Rightarrow> if er_window_secs er \<le> now - start then unat (er_max er) else unat (er_max er) - unat n)"

definition cp_ready :: "id \<Rightarrow> id \<Rightarrow> string \<Rightarrow> limits \<Rightarrow> nat \<Rightarrow> wire \<Rightarrow> bool" where
  "cp_ready nid aid fence lm k w \<longleftrightarrow>
     wi_script w = [] \<and> app_limits (wi_app w) = lm \<and>
     rate_ok (app_event_rate (wi_app w)) \<and> 0 < er_window_secs (app_event_rate (wi_app w)) \<and>
     k \<le> rate_left (app_event_rate (wi_app w)) nid (int (wi_now w div secs 1)) \<and>
     authorized nid aid (fence_header fence) (app_store (wi_app w)) \<and> open_attempt aid (app_store (wi_app w))"

lemma rate_left_admit:
  assumes "rate_ok er" "0 < er_window_secs er" "Suc k \<le> rate_left er nid now"
  shows "fst (event_admit nid now er)" "k \<le> rate_left (snd (event_admit nid now er)) nid now"
proof -
  have inc: "unat (n + 1) = Suc (unat n)" if "unat n < unat (er_max er)" for n :: "32 word"
    using that unsigned_less[where ?'a = nat, of "er_max er"] by (intro unat_inc) simp
  show "fst (event_admit nid now er)" "k \<le> rate_left (snd (event_admit nid now er)) nid now"
    using assms inc
    by (auto simp: rate_left_def event_admit_own tick_entry_def word_le_nat_alt split: option.splits if_splits)
qed

lemma ingest_keeps_open:
  assumes "open_attempt aid st" "authorized nid aid h st"
  shows "open_attempt aid (snd (ingest_events now aid evs st)) \<and> authorized nid aid h (snd (ingest_events now aid evs st))"
proof -
  obtain a where a: "find_attempt st aid = Some a" "\<not> attempt_terminal (a_status a)"
    using assms(1) by (auto simp: open_attempt_def split: option.splits)
  have "find_attempt (snd (ingest_events now aid evs st)) aid =
      Some (if a_status a = AttemptAssigned then a\<lparr>a_status := AttemptRunning\<rparr> else a)"
  proof -
    have "attempts (snd (ingest_events now aid evs st)) = (if a_status a = AttemptAssigned
        then sql_update (\<lambda>r. a_id r = aid) (\<lambda>r. r\<lparr>a_status := AttemptRunning\<rparr>) (attempts st) else attempts st)"
      using a by (simp add: ingest_events_def Let_def case_prod_beta)
    moreover have "a_id a = aid" using a(1) by (auto simp: find_attempt_def sql_first_def find_Some_iff)
    ultimately show ?thesis using a(1) by (simp add: find_attempt_def sql_first_update[where key = a_id])
  qed
  then show ?thesis using a assms(2) by (auto simp: open_attempt_def authorized_def attempt_terminal.simps)
qed

lemma ready_post:
  assumes "cp_ready nid aid fence lm (Suc k) w" "batch_fits lm es"
  shows "fst (post_events nid aid fence n w es) \<and> cp_ready nid aid fence lm k (snd (post_events nid aid fence n w es))"
proof -
  let ?h = "\<lambda>now. ingest_route now nid aid (fence_header fence) es"
  let ?app = "wi_app w" let ?now = "int (wi_now w div secs 1)"
  note r = assms(1)[unfolded cp_ready_def]
  obtain er where ad: "event_admit nid ?now (app_event_rate ?app) = (True, er)"
    "k \<le> rate_left er nid ?now" "rate_ok er" "er_window_secs er = er_window_secs (app_event_rate ?app)"
    using rate_left_admit[of "app_event_rate ?app" k nid ?now] r event_admit_ok[of "app_event_rate ?app" nid ?now]
      event_admit_frame(2)[of nid ?now "app_event_rate ?app"] by (metis prod.collapse)
  let ?app1 = "?app\<lparr>app_event_rate := er\<rparr>"
  have route: "?h (wi_now w) ?app = accept_events (wi_now w) aid es ?app1"
    using assms(2) r ad(1) by (auto simp: ingest_route_def authorize_ok batch_fits_def Let_def not_less)
  obtain app2 where acc: "accept_events (wi_now w) aid es ?app1 = (200, app2)"
    using accept_events_cases(2)[of "wi_now w" aid es ?app1] r by (cases "accept_events (wi_now w) aid es ?app1") auto
  have t: "transmit ?h w = (Status 200, w\<lparr>wi_app := app2\<rparr>)"
    using r by (simp add: transmit_def handle_def route acc)
  have "send_with_retry n (transmit ?h) w = (Status 200, w\<lparr>wi_app := app2\<rparr>)"
    by (cases n) (simp_all add: t is_retryable_status_def)
  then have p: "post_events nid aid fence n w es = (True, w\<lparr>wi_app := app2\<rparr>)"
    by (simp add: post_events_def)
  have "app_limits app2 = app_limits ?app" "app_event_rate app2 = er"
    using acc by (auto simp: accept_events_def reject_events_def Let_def split: prod.splits if_splits option.splits)
  moreover have "app_store app2 = snd (ingest_events (wi_now w) aid es (app_store ?app))"
    using accept_events_cases(1)[of "wi_now w" aid es ?app1] by (simp add: acc)
  ultimately show ?thesis
    using r ad(2-4) p ingest_keeps_open[of aid "app_store ?app" nid "fence_header fence" "wi_now w" es]
    by (simp add: cp_ready_def)
qed

interpretation ready: answering_log "post_events nid aid fence" "cp_other aid" "wire_log aid" cp_valid "attempt_over aid"
  "cp_ready nid aid fence lm" "batch_fits lm" for nid aid fence lm
  by unfold_locales (rule ready_post)

text \<open>C21: A drain gets through. When the control plane answers, the attempt is running on this node,
  no event is larger than the control plane takes, and the deadline and the rate budget leave one
  request per batch, a drain empties the spool and the log has absorbed every event in it, in order
  of their numbers.\<close>

theorem drain_delivers_everything:
  assumes "cp_ready nid aid fence lm (length (split_batch (fst caps) (snd caps) (in_sequence_order (spooled ob)))) w"
    and "caps_fit caps lm" "\<forall>e\<in>set (spooled ob). length (ie_payload e) \<le> lm_event lm"
    and "length (split_batch (fst caps) (snd caps) (in_sequence_order (spooled ob))) < k"
    and "drain_spool caps (post_events nid aid fence n) True k ob w = (ob', w')"
  shows "spooled ob' = [] \<and> wire_log aid w' = absorb (wire_log aid w) (in_sequence_order (spooled ob))"
proof (rule ready.drain_empties[OF assms(1) _ assms(4) refl assms(5)])
  show "\<forall>c\<in>set (split_batch (fst caps) (snd caps) (in_sequence_order (spooled ob))). batch_fits lm c"
    using chunks_fit[OF assms(2), of "in_sequence_order (spooled ob)"] assms(3)
    by (simp add: in_sequence_order_def)
qed

section \<open>An event that is too large\<close>

lemma ingest_route_limits [simp]: "app_limits (snd (ingest_route now nid aid h es app)) = app_limits app"
proof -
  have "app_limits (snd (accept_events now aid es a)) = app_limits a" for a
    by (auto simp: accept_events_def reject_events_def Let_def split: prod.splits option.splits)
  then show ?thesis
    using authorize_store(2)[of nid aid h app]
    by (auto simp: ingest_route_def reject_events_def Let_def case_prod_beta split: prod.splits sum.splits)
qed

lemma oversized_refused:
  assumes "e \<in> set batch" "lm_event (app_limits app) < length (ie_payload e)"
  shows "fst (ingest_route now nid aid h batch app) \<in> {403, 404, 409, 413, 429} \<and>
    app_store (snd (ingest_route now nid aid h batch app)) = app_store app"
proof (cases rule: ingest_route_effect[of now nid aid h batch app])
  case ingested
  then have False using assms by (auto simp: batch_fits_def)
  then show ?thesis ..
qed simp

lemma post_oversized:
  assumes "e \<in> set batch" "lm_event (app_limits (wi_app w)) < length (ie_payload e)"
    and "post_events nid aid fence n w batch = (b, w')"
  shows "\<not> b \<and> wire_log aid w' = wire_log aid w"
proof -
  let ?h = "\<lambda>now. ingest_route now nid aid (fence_header fence) batch"
  let ?Q = "\<lambda>app. lm_event (app_limits app) < length (ie_payload e) \<and> app_store app = app_store (wi_app w)"
  obtain r where r: "send_with_retry n (transmit ?h) w = (r, w')" "b = is_success r"
    using assms(3) by (auto simp: post_events_def split: prod.splits)
  have refuse: "\<not> is_success (Status (fst (?h now app))) \<and> app_store (snd (?h now app)) = app_store app"
    if "lm_event (app_limits app) < length (ie_payload e)" for now app
    using oversized_refused[OF assms(1) that, of now nid aid "fence_header fence"] by auto
  have "?Q (wi_app w') \<and> \<not> is_success r"
    by (rule retry_rule[where Q = ?Q and R = "\<lambda>r app. \<not> is_success r", OF _ _ _ r(1)])
       (use refuse assms(2) in auto)
  then show ?thesis using r(2) by (simp add: wire_log_def)
qed

lemma post_limits:
  assumes "post_events nid aid fence n w batch = (b, w')"
  shows "app_limits (wi_app w') = app_limits (wi_app w)"
proof -
  obtain r where r: "send_with_retry n (transmit (\<lambda>now. ingest_route now nid aid (fence_header fence) batch)) w = (r, w')"
    using assms by (auto simp: post_events_def split: prod.splits)
  from retry_rule[where Q = "\<lambda>app. app_limits app = app_limits (wi_app w)" and R = "\<lambda>r app. True", OF _ _ _ r]
  show ?thesis by simp
qed

lemma chunks_stop_at_oversized:
  "e \<in> set (concat cs) \<Longrightarrow> lm_event (app_limits (wi_app w)) < length (ie_payload e) \<Longrightarrow>
   sorted (map ie_sequence (concat cs)) \<Longrightarrow>
   send_chunks (post_events nid aid fence n) ok cs sk w = (sk', w') \<Longrightarrow>
   e \<in> set (sk_buf sk') \<and>
   (\<forall>x\<in>set (wire_log aid w') - set (wire_log aid w). \<exists>y\<in>set (concat cs). x = stored_of y \<and> ie_sequence y \<le> ie_sequence e)"
proof (induction cs arbitrary: sk w)
  case (Cons c cs)
  show ?case
  proof (cases "c = []")
    case True
    then show ?thesis using Cons by (simp add: send_events_def)
  next
    case ne: False
    obtain b w1 where p: "post_events nid aid fence n w c = (b, w1)" by fastforce
    show ?thesis
    proof (cases b)
      case False
      then have "sk' = sk\<lparr>sk_buf := c @ concat cs @ sk_buf sk\<rparr>" "w' = w1"
        using Cons.prems(4) ne p by (auto simp: send_events_def)
      moreover have "\<forall>x\<in>set (wire_log aid w1) - set (wire_log aid w). \<exists>y\<in>set c. x = stored_of y \<and> ie_sequence y \<le> ie_sequence e"
      proof (cases "e \<in> set c")
        case True
        then show ?thesis using post_oversized[OF True Cons.prems(2) p] by simp
      next
        case out: False
        obtain m where "wire_log aid w1 = wire_log aid w @ m" "set m \<subseteq> stored_of ` set c"
          using cp.post_log[OF p] absorb_extends[of "wire_log aid w" c] by auto
        moreover have "\<forall>y\<in>set c. ie_sequence y \<le> ie_sequence e"
          using Cons.prems(1, 3) out by (auto simp: sorted_append)
        ultimately show ?thesis by auto
      qed
      ultimately show ?thesis using Cons.prems(1) by auto
    next
      case True
      have out: "e \<notin> set c" using post_oversized[OF _ Cons.prems(2) p] True by auto
      let ?sk = "sk\<lparr>sk_buf_bytes := sk_buf_bytes sk - sum_list (map payload_bytes c),
                    sk_outbox := outbox_ack ok (map ie_sequence c) (sk_outbox sk)\<rparr>"
      have "send_chunks (post_events nid aid fence n) ok cs ?sk w1 = (sk', w')"
        using Cons.prems(4) ne True p by (simp add: send_events_def)
      from Cons.IH[OF _ _ _ this] Cons.prems(1-3) out post_limits[OF p]
      have ih: "e \<in> set (sk_buf sk')" "\<forall>x\<in>set (wire_log aid w') - set (wire_log aid w1).
          \<exists>y\<in>set (concat cs). x = stored_of y \<and> ie_sequence y \<le> ie_sequence e"
        by (auto simp: sorted_append)
      obtain m where m: "wire_log aid w1 = wire_log aid w @ m" "set m \<subseteq> stored_of ` set c"
        using cp.post_log[OF p] absorb_extends[of "wire_log aid w" c] by auto
      have le: "\<forall>y\<in>set c. ie_sequence y \<le> ie_sequence e"
        using Cons.prems(1, 3) out by (auto simp: sorted_append)
      have "\<exists>y\<in>set (c @ concat cs). x = stored_of y \<and> ie_sequence y \<le> ie_sequence e"
        if x: "x \<in> set (wire_log aid w') - set (wire_log aid w)" for x
      proof (cases "x \<in> set m")
        case True
        then obtain y where "y \<in> set c" "x = stored_of y" using m(2) by blast
        then show ?thesis using le by auto
      next
        case False
        then have "x \<in> set (wire_log aid w') - set (wire_log aid w1)" using x m(1) by simp
        from bspec[OF ih(2) this] show ?thesis unfolding set_append by blast
      qed
      then show ?thesis using ih(1) by simp
    qed
  qed
qed simp

text \<open>One event that is larger than the control plane takes blocks the stream behind it for good.
  Every flush refuses its batch with 413, which is not retried into pieces: the event goes back to
  the buffer, and what the flush adds to the log are events numbered before it.\<close>

theorem oversized_event_blocks_stream:
  assumes "e \<in> set (sk_buf sk)" "lm_event (app_limits (wi_app w)) < length (ie_payload e)"
    and "flush caps (post_events nid aid fence n) ok sk w = (sk', w')"
  shows "e \<in> set (sk_buf sk') \<and>
    (\<forall>x\<in>set (wire_log aid w') - set (wire_log aid w).
       \<exists>y\<in>set (sk_buf sk). x = stored_of y \<and> ie_sequence y \<le> ie_sequence e)"
proof -
  let ?b = "in_sequence_order (sk_buf sk)"
  have b: "set ?b = set (sk_buf sk)" "?b \<noteq> []" "sorted (map ie_sequence ?b)"
    using assms(1) by (auto simp: in_sequence_order_def simp flip: set_empty)
  then have "send_chunks (post_events nid aid fence n) ok (split_batch (fst caps) (snd caps) ?b) (sk\<lparr>sk_buf := []\<rparr>) w = (sk', w')"
    using assms(3) by (simp add: flush_def Let_def)
  from chunks_stop_at_oversized[OF _ assms(2) _ this] assms(1) b show ?thesis
    by (simp add: split_batch_concat)
qed

section \<open>The end of an attempt\<close>

lemma drain_closed:
  "\<not> open_attempt aid (app_store (wi_app w)) \<Longrightarrow>
   drain_spool caps (post_events nid aid fence n) ok k ob w = (ob', w') \<Longrightarrow>
   app_store (wi_app w') = app_store (wi_app w)"
proof (induction caps "post_events nid aid fence n" ok k ob w rule: drain_spool.induct)
  case (2 caps ok k ob w)
  obtain evs ob1 where pe: "outbox_pending ob = (evs, ob1)" by fastforce
  show ?case
  proof (cases "split_batch (fst caps) (snd caps) (in_sequence_order evs)")
    case Nil
    then have "in_sequence_order evs = []" using split_batch_concat by (metis concat.simps(1))
    then have "evs = []" by (metis in_sequence_order_def set_empty set_sort)
    then show ?thesis using 2(3) pe by simp
  next
    case (Cons c cs)
    obtain b w1 where p: "post_events nid aid fence n w c = (b, w1)" by fastforce
    then show ?thesis using 2(3) pe Cons post_closed[OF 2(2) p] by (auto split: if_splits)
  qed
qed simp

text \<open>The end of an attempt throws away what it could not deliver. An event that is still in the
  spool when the completion is reported cannot be delivered any more: the control plane refuses the
  events of a finished attempt, so the second drain adds nothing, and the file is then removed
  whether it was drained or not. The event is in neither place.\<close>

theorem undelivered_tail_is_discarded:
  assumes "finish_attempt caps ce nid aid fence n1 n2 req sk co w = (sk', co', w')"
    and "drain_outbox caps (post_events nid aid fence 2) True n1 sk w = (sk1, w1)"
    and "e \<in> set (spooled (sk_outbox sk1))"
    and "report_complete ce nid aid fence (req\<lparr>cr_plan := sk_plan sk1\<rparr>) co w1 = (co1, w2)"
    and "\<not> open_attempt aid (app_store (wi_app w2))" "stored_of e \<notin> set (wire_log aid w2)"
  shows "spooled (sk_outbox sk') = [] \<and> stored_of e \<notin> set (wire_log aid w')"
proof -
  obtain ob3 w3 where d: "drain_spool caps (post_events nid aid fence 2) True n2 (sk_outbox sk1) w2 = (ob3, w3)"
    by fastforce
  then have fin: "w' = w3" "sk_outbox sk' = discard ob3"
    using assms(1, 2, 4) by (auto simp: finish_attempt_def drain_outbox_def take_plan_def Let_def split: prod.splits)
  have "app_store (wi_app w3) = app_store (wi_app w2)" by (rule drain_closed[OF assms(5) d])
  then show ?thesis using assms(6) fin by (simp add: wire_log_def)
qed

section \<open>Examples\<close>

definition demo_event :: "64 word \<Rightarrow> string \<Rightarrow> ingest_event" where
  "demo_event n s = \<lparr>ie_sequence = n, ie_type = EvtStdout, ie_payload = s\<rparr>"

definition demo_line :: "64 word \<Rightarrow> string \<Rightarrow> event_spool_line" where
  "demo_line n s = EventLine \<lparr>el_seq = n, el_type = Some EvtStdout, el_payload = s, el_enqueued_at = 0\<rparr>"

lemma demo_line_event [simp]: "event_of_line (demo_line n s) = Some (demo_event n s)"
  by (simp add: demo_line_def demo_event_def)

definition demo_outbox :: outbox where
  "demo_outbox = open_outbox 0 (Some ([demo_line 2 ''b'', demo_line 1 ''a'', demo_line 3 ''c''], False))"

lemma demo_spooled: "spooled demo_outbox = [demo_event 2 ''b'', demo_event 1 ''a'', demo_event 3 ''c'']"
  by (simp add: demo_outbox_def open_outbox_def spooled_def List.map_filter_simps)

lemma demo_sorted:
  "in_sequence_order (spooled demo_outbox) = [demo_event 1 ''a'', demo_event 2 ''b'', demo_event 3 ''c'']"
  by (simp add: demo_spooled in_sequence_order_def demo_event_def word_le_nat_alt)

lemma demo_authorized: "authorized ''n1'' ''a-t1'' (Some ''f-t1'') demo_running" "open_attempt ''a-t1'' demo_running"
  by (simp_all add: authorized_def open_attempt_def demo_attempt new_attempt_def attempt_terminal.simps)

lemma demo_split: "length (split_batch 2 200 [demo_event 1 ''a'', demo_event 2 ''b'', demo_event 3 ''c'']) = 2"
  by (simp add: split_batch_def demo_event_def Let_def)

theorem foreign_requests_witness:
  "fst (ack_attempt_handler 30 ''n2'' ''a-t1'' (Some ''f-t1'') demo_app) \<in> {403, 404, 409} \<and>
   app_store (snd (ack_attempt_handler 30 ''n2'' ''a-t1'' (Some ''f-t1'') demo_app)) = demo_running"
proof -
  have "\<not> authorized ''n2'' ''a-t1'' (Some ''f-t1'') (app_store demo_app)"
    by (simp add: demo_app_def authorized_def demo_attempt new_attempt_def)
  from foreign_requests_change_nothing[OF this, of "ack_attempt_handler 30 ''n2'' ''a-t1'' (Some ''f-t1'') demo_app" 30]
  show ?thesis by (simp add: demo_app_def)
qed

theorem drain_delivers_everything_witness:
  "\<exists>ob' w'. drain_spool (2, 200) (post_events ''n1'' ''a-t1'' ''f-t1'' 2) True 3 demo_outbox (demo_wire []) = (ob', w') \<and>
     spooled ob' = [] \<and>
     wire_log ''a-t1'' w' = [(1, EvtStdout, ''a''), (2, EvtStdout, ''b''), (3, EvtStdout, ''c'')]"
proof -
  obtain ob' w' where d: "drain_spool (2, 200) (post_events ''n1'' ''a-t1'' ''f-t1'' 2) True 3 demo_outbox (demo_wire []) = (ob', w')"
    by fastforce
  have "cp_ready ''n1'' ''a-t1'' ''f-t1'' demo_limits
      (length (split_batch (fst (2, 200)) (snd (2, 200)) (in_sequence_order (spooled demo_outbox)))) (demo_wire [])"
    using demo_authorized demo_split
    by (simp add: cp_ready_def demo_wire_def demo_app_def demo_sorted fence_header_def rate_ok_def rate_left_def
        entry_of_def with_limits_def)
  moreover have "wire_log ''a-t1'' (demo_wire []) = []"
    by (simp add: wire_log_def demo_wire_def demo_app_def attempt_log_def demo_running_eq empty_store_def)
  moreover have "caps_fit (2, 200) demo_limits" by (simp add: caps_fit_def demo_limits_def)
  moreover have "\<forall>e\<in>set (spooled demo_outbox). length (ie_payload e) \<le> lm_event demo_limits"
    by (simp add: demo_spooled demo_event_def demo_limits_def)
  moreover have "length (split_batch (fst (2, 200)) (snd (2, 200)) (in_sequence_order (spooled demo_outbox))) < 3"
    by (simp add: demo_sorted demo_split)
  ultimately have "spooled ob' = [] \<and> wire_log ''a-t1'' w' = absorb [] (in_sequence_order (spooled demo_outbox))"
    using drain_delivers_everything[of "''n1''" "''a-t1''" "''f-t1''" demo_limits "(2, 200)" demo_outbox "demo_wire []" 3 2 ob' w'] d
    by simp
  then show ?thesis using d by (simp add: demo_sorted demo_event_def stored_of_def)
qed

text \<open>The limit is four bytes.\<close>

theorem oversized_event_blocks_stream_witness:
  "\<exists>sk' w'. flush (2, 200) (post_events ''n1'' ''a-t1'' ''f-t1'' 10) True
      ((new_sink 100 demo_outbox)\<lparr>sk_buf := [demo_event 1 ''far too long'', demo_event 2 ''b'']\<rparr>) (demo_wire []) = (sk', w') \<and>
     demo_event 1 ''far too long'' \<in> set (sk_buf sk')"
proof -
  let ?sk = "(new_sink 100 demo_outbox)\<lparr>sk_buf := [demo_event 1 ''far too long'', demo_event 2 ''b'']\<rparr>"
  obtain sk' w' where f: "flush (2, 200) (post_events ''n1'' ''a-t1'' ''f-t1'' 10) True ?sk (demo_wire []) = (sk', w')" by fastforce
  from oversized_event_blocks_stream[OF _ _ f, of "demo_event 1 ''far too long''"] f show ?thesis
    by (simp add: demo_event_def demo_wire_def demo_app_def demo_limits_def)
qed

text \<open>One event is numbered and spooled, then the flusher is aborted.\<close>

definition demo_cfg :: outbox_cfg where
  "demo_cfg = \<lparr>oc_text = (\<lambda>l. []), oc_spool_limit = 0, oc_quota = 0, oc_fsync_interval = 0\<rparr>"

definition demo_push_env :: push_env where
  "demo_push_env = \<lparr>pe_now = 1, pe_epoch_ms = 1, pe_total = None, pe_write = Written, pe_sync_ok = True\<rparr>"

definition demo_start :: "wire delivery" where
  "demo_start = \<lparr>dl_sink = start_sink 100 (open_outbox 0 None), dl_cp = demo_wire [], dl_held = [], dl_ready = [],
     dl_issued = [], dl_durable = []\<rparr>"

theorem no_durable_event_lost_witness:
  "\<exists>d :: wire delivery. demo_event 1 ''x'' \<in> set (dl_durable d) \<and>
     (demo_event 1 ''x'' \<in> set (spooled (sk_outbox (dl_sink d))) \<or> stored_of (demo_event 1 ''x'') \<in> set (wire_log ''a-t1'' (dl_cp d)))"
proof -
  let ?init = "delivery_init cp_valid (wire_log ''a-t1'') :: wire delivery \<Rightarrow> bool"
  let ?step = "delivery_step (post_events ''n1'' ''a-t1'' ''f-t1'') (cp_other ''a-t1'') (2, 200) demo_cfg"
  let ?ob = "open_outbox 0 None"
  let ?ev = "demo_event 1 ''x''"
  have empty: "spooled ?ob = []" "outbox_pending ?ob = ([], ?ob)"
    by (simp_all add: open_outbox_def spooled_def outbox_pending_def)
  have empty2: "settled ?ob = []" by (simp add: open_outbox_def settled_def)
  have sk: "start_sink 100 ?ob = new_sink 100 ?ob" by (simp add: start_sink_def empty requeue_def)
  have "?init demo_start"
    unfolding delivery_init_def
    by (rule conjI, rule exI[of _ 100], rule exI[of _ ?ob])
       (simp_all add: demo_start_def empty empty2 uniquely_numbered_def wire_log_def demo_wire_def demo_app_def
          attempt_log_def cp_valid_def demo_running_reachable, simp add: demo_running_eq empty_store_def)
  then have 0: "reachable ?init ?step demo_start" by (rule reach_init)
  obtain sk1 where r: "reserve (\<lambda>j. ''x'') EvtStdout JNull (dl_sink demo_start) = (?ev, sk1)" "sk_outbox sk1 = ?ob"
    by (simp add: reserve_def demo_start_def sk new_sink_def demo_event_def)
  have "sk_next (dl_sink demo_start) \<noteq> - 1" by (simp add: demo_start_def sk new_sink_def)
  from r(1) this have "?step demo_start
      (demo_start\<lparr>dl_sink := sk1, dl_held := ?ev # dl_held demo_start, dl_issued := ?ev # dl_issued demo_start\<rparr>)"
    by (rule ds_reserve)
  then obtain d1 where d1: "?step demo_start d1" "dl_sink d1 = sk1" "dl_held d1 = [?ev]" "dl_ready d1 = []" "dl_durable d1 = []"
    by (auto simp: demo_start_def)
  obtain sk2 where "spool demo_cfg demo_push_env ?ev (dl_sink d1) = (Inr (), sk2)"
    by (simp add: spool_def outbox_push_def append_line_def append_text_def d1(2) r(2) demo_cfg_def demo_push_env_def
        open_outbox_def sync_due_def Let_def)
  moreover have "?ev \<in> set (dl_held d1)" by (simp add: d1(3))
  ultimately have "?step d1 (d1\<lparr>dl_sink := sk2, dl_held := remove1 ?ev (dl_held d1),
      dl_ready := (if True then ?ev # dl_ready d1 else dl_ready d1),
      dl_durable := (if (Inr () :: push_error + unit) = Inr () \<and> \<not> ob_open (sk_outbox (dl_sink d1))
        then ?ev # dl_durable d1 else dl_durable d1)\<rparr>)"
    by (intro ds_spool) auto
  moreover have "\<not> ob_open (sk_outbox (dl_sink d1))" by (simp add: d1(2) r(2) open_outbox_def)
  ultimately obtain d2 where d2: "?step d1 d2" "?ev \<in> set (dl_durable d2)" by auto
  have more: "reachable ?init ?step t" if "reachable ?init ?step s" "?step s t" for s t
    using that(1) by (rule reach_step) (rule that(2))
  have "reachable ?init ?step d2" by (rule more[OF more[OF 0 d1(1)] d2(1)])
  from conjunct1[OF no_durable_event_lost[OF this]] d2(2) show ?thesis by blast
qed

text \<open>The gateway answers the two requests of the first drain; the report then gets through.\<close>

definition demo_outage :: wire where
  "demo_outage = demo_wire [(BadGateway, 30), (BadGateway, 31)]"

definition demo_back :: wire where
  "demo_back = (demo_wire [])\<lparr>wi_now := 31\<rparr>"

lemma demo_outage_drain:
  "drain_outbox (2, 200) (post_events ''n1'' ''a-t1'' ''f-t1'' 2) True 1 (new_sink 100 demo_outbox) demo_outage =
     (new_sink 100 demo_outbox, demo_back)"
proof -
  have post: "post_events nid aid fence 2 demo_outage c = (False, demo_back)" for nid aid fence c
    by (simp add: post_events_def numeral_2_eq_2 demo_outage_def demo_wire_def demo_back_def transmit_def Let_def
        is_retryable_status_def)
  have pe: "outbox_pending demo_outbox = ([demo_event 2 ''b'', demo_event 1 ''a'', demo_event 3 ''c''], demo_outbox)"
    by (simp add: demo_outbox_def open_outbox_def outbox_pending_def List.map_filter_simps)
  obtain c cs where "split_batch 2 200 (in_sequence_order (spooled demo_outbox)) = c # cs"
    using demo_split demo_sorted by (cases "split_batch 2 200 (in_sequence_order (spooled demo_outbox))") auto
  then have "drain_spool (2, 200) (post_events ''n1'' ''a-t1'' ''f-t1'' 2) True 1 demo_outbox demo_outage = (demo_outbox, demo_back)"
    by (simp add: pe post demo_spooled)
  then show ?thesis by (simp add: drain_outbox_def new_sink_def)
qed

lemma demo_back_report:
  assumes "report_complete demo_ce ''n1'' ''a-t1'' ''f-t1'' demo_report demo_spool demo_back = (co', w')"
  shows "app_store (wi_app w') = snd (complete_attempt demo_externals 31 ''r1'' ''a-t1'' demo_report demo_running)"
    and "\<not> open_attempt ''a-t1'' (app_store (wi_app w'))"
proof -
  let ?c = "complete_attempt demo_externals 31 ''r1'' ''a-t1'' demo_report demo_running"
  obtain a t where rows: "find_attempt demo_running ''a-t1'' = Some a" "find_task demo_running (a_task_id a) = Some t"
    "a_status a = AttemptRunning" "t_status t = TaskRunning"
  proof -
    have "\<exists>t. find_task demo_running ''t1'' = Some t \<and> t_status t = TaskRunning"
      by (simp add: find_task_def demo_running_eq sql_first_def demo_task_def queued_task_def)
    then show thesis using that demo_attempt by (auto simp: new_attempt_def)
  qed
  have ok: "fst ?c = Inr True"
    using complete_attempt_core[OF rows(1) _ rows(2)] running_targets[of a t "req_success demo_report"] rows(3, 4)
    by (simp add: attempt_terminal.simps split: if_splits)
  have au: "authorized ''n1'' ''a-t1'' (fence_header ''f-t1'') (app_store demo_app)"
    using demo_authorized(1) by (simp add: demo_app_def fence_header_def)
  have "transmit (\<lambda>now. complete_route demo_externals now ''r1'' ''n1'' ''a-t1'' (fence_header ''f-t1'') demo_report) demo_back =
      (Status 200, demo_back\<lparr>wi_app := demo_app\<lparr>app_store := snd ?c\<rparr>\<rparr>)"
    using ok by (cases ?c) (simp add: transmit_def handle_def demo_back_def demo_wire_def complete_route_def
        authorize_ok[OF au], simp add: demo_app_def)
  then have "w' = demo_back\<lparr>wi_app := demo_app\<lparr>app_store := snd ?c\<rparr>\<rparr>"
    using assms by (simp add: report_complete_def post_completion_def demo_ce_def is_retryable_status_def Let_def
        eval_nat_numeral split: prod.splits)
  then show st: "app_store (wi_app w') = snd ?c" by simp
  show "\<not> open_attempt ''a-t1'' (app_store (wi_app w'))"
    using complete_settles[of demo_externals 31 "''r1''" "''a-t1''" demo_report demo_running "snd ?c"] ok st
    by (metis prod.collapse)
qed

theorem undelivered_tail_is_discarded_witness:
  "\<exists>sk' co' w'. finish_attempt (2, 200) demo_ce ''n1'' ''a-t1'' ''f-t1'' 1 1 demo_report (new_sink 100 demo_outbox)
      demo_spool demo_outage = (sk', co', w') \<and>
     demo_event 1 ''a'' \<in> set (spooled demo_outbox) \<and>
     spooled (sk_outbox sk') = [] \<and> stored_of (demo_event 1 ''a'') \<notin> set (wire_log ''a-t1'' w')"
proof -
  obtain sk' co' w' where f: "finish_attempt (2, 200) demo_ce ''n1'' ''a-t1'' ''f-t1'' 1 1 demo_report
      (new_sink 100 demo_outbox) demo_spool demo_outage = (sk', co', w')" by (metis prod_cases3)
  obtain co1 w2 where rc: "report_complete demo_ce ''n1'' ''a-t1'' ''f-t1'' demo_report demo_spool demo_back = (co1, w2)" by fastforce
  have req: "demo_report\<lparr>cr_plan := sk_plan (new_sink 100 demo_outbox)\<rparr> = demo_report"
    by (simp add: demo_report_def new_sink_def)
  have "\<not> req_success demo_report" by (simp add: req_success_def demo_report_def)
  then have "wire_log ''a-t1'' w2 = []"
    by (simp add: wire_log_def demo_back_report(1)[OF rc] failed_report_keeps_log)
       (simp add: attempt_log_def demo_running_eq empty_store_def)
  moreover have "demo_event 1 ''a'' \<in> set (spooled (sk_outbox (new_sink 100 demo_outbox)))"
    by (simp add: new_sink_def demo_spooled)
  ultimately show ?thesis
    using undelivered_tail_is_discarded[OF f demo_outage_drain _ _ demo_back_report(2)[OF rc], of "demo_event 1 ''a''" co1] f rc
    by (simp add: req demo_spooled)
qed

end
