(* ===== verification/UserAuth.thy ===== *)
theory UserAuth
  imports AttemptRoutes
begin

text \<open>
  Users and their sessions: the table of \<open>store/users.rs\<close>, the tokens of \<open>lib.rs\<close>, the
  middleware and routes of \<open>auth.rs\<close>, and the administration of \<open>routes/users.rs\<close>. Argon2, the
  JWT codec and the lower case of a name are parameters; times are nanoseconds as elsewhere,
  and the drawn ids and salts are arguments. The failures of the database are not modelled.
\<close>

section \<open>State\<close>

record user_row =
  u_id :: id
  u_username :: string
  u_password_hash :: string
  u_role :: string
  u_created_at :: time
  u_sessions_gen :: int

record claims =
  jc_sub :: string
  jc_exp :: nat
  jc_iat :: nat
  jc_gen :: int
  jc_jti :: id
  jc_role :: string

record auth_lib =
  al_hash :: "string \<Rightarrow> string \<Rightarrow> string"
  al_verify :: "string \<Rightarrow> string \<Rightarrow> bool"
  al_encode :: "claims \<Rightarrow> string"
  al_decode :: "time \<Rightarrow> string \<Rightarrow> claims option"
  al_lower :: "string \<Rightarrow> string"

record user_state =
  us_users :: "user_row list"
  us_revoked :: "(id \<times> string \<times> time) list"
  us_setup_token :: "(string \<times> time) option"
  us_login_rate :: login_rate
  us_audits :: "audit_row list"

definition ROLE_ADMIN :: string where
  "ROLE_ADMIN = ''admin''"

definition ROLE_OPERATOR :: string where
  "ROLE_OPERATOR = ''operator''"

definition is_valid_role :: "string \<Rightarrow> bool" where
  "is_valid_role r \<longleftrightarrow> r = ROLE_ADMIN \<or> r = ROLE_OPERATOR"

section \<open>The table of users\<close>

definition find_user :: "user_state \<Rightarrow> string \<Rightarrow> user_row option" where
  "find_user us name = sql_first (\<lambda>u. u_username u = name) (us_users us)"

definition user_count :: "user_state \<Rightarrow> nat" where
  "user_count us = length (us_users us)"

definition create_user ::
    "auth_lib \<Rightarrow> time \<Rightarrow> id \<Rightarrow> string \<Rightarrow> string \<Rightarrow> string \<Rightarrow> string \<Rightarrow> user_state \<Rightarrow> bool \<times> user_state" where
  "create_user lib now uid salt name password role us =
     (if find_user us name \<noteq> None then (False, us)
      else (True, us\<lparr>us_users := us_users us @ [\<lparr>u_id = uid, u_username = name,
              u_password_hash = al_hash lib salt password, u_role = role, u_created_at = now,
              u_sessions_gen = 0\<rparr>]\<rparr>))"

definition user_auth_state :: "user_state \<Rightarrow> string \<Rightarrow> (string \<times> int) option" where
  "user_auth_state us name = map_option (\<lambda>u. (u_role u, u_sessions_gen u)) (find_user us name)"

definition delete_user :: "string \<Rightarrow> user_state \<Rightarrow> bool \<times> user_state" where
  "delete_user name us =
     (0 < sql_count (\<lambda>u. u_username u = name) (us_users us),
      us\<lparr>us_users := filter (\<lambda>u. u_username u \<noteq> name) (us_users us)\<rparr>)"

definition update_user :: "string \<Rightarrow> (user_row \<Rightarrow> user_row) \<Rightarrow> user_state \<Rightarrow> bool \<times> user_state" where
  "update_user name f us =
     (0 < sql_count (\<lambda>u. u_username u = name) (us_users us),
      us\<lparr>us_users := sql_update (\<lambda>u. u_username u = name) f (us_users us)\<rparr>)"

definition set_user_role :: "string \<Rightarrow> string \<Rightarrow> user_state \<Rightarrow> bool \<times> user_state" where
  "set_user_role name role = update_user name (\<lambda>u. u\<lparr>u_role := role\<rparr>)"

definition set_user_password :: "auth_lib \<Rightarrow> string \<Rightarrow> string \<Rightarrow> string \<Rightarrow> user_state \<Rightarrow> bool \<times> user_state" where
  "set_user_password lib salt name password = update_user name (\<lambda>u. u\<lparr>u_password_hash := al_hash lib salt password\<rparr>)"

definition bump_sessions_gen :: "string \<Rightarrow> user_state \<Rightarrow> user_state" where
  "bump_sessions_gen name us = snd (update_user name (\<lambda>u. u\<lparr>u_sessions_gen := u_sessions_gen u + 1\<rparr>) us)"

definition admin_count :: "user_state \<Rightarrow> nat" where
  "admin_count us = sql_count (\<lambda>u. u_role u = ROLE_ADMIN) (us_users us)"

definition verify_user :: "auth_lib \<Rightarrow> string \<Rightarrow> string \<Rightarrow> user_state \<Rightarrow> (id \<times> string \<times> int) option" where
  "verify_user lib name password us =
     (case find_user us name of
        None \<Rightarrow> None
      | Some u \<Rightarrow> if al_verify lib password (u_password_hash u)
                  then Some (u_id u, u_role u, u_sessions_gen u) else None)"

definition user_audit ::
    "time \<Rightarrow> string option \<Rightarrow> string \<Rightarrow> string option \<Rightarrow> user_state \<Rightarrow> user_state" where
  "user_audit now actor action subject us =
     us\<lparr>us_audits := us_audits us @ [\<lparr>au_actor_type = ''user'', au_actor_id = actor, au_action = action,
        au_subject = subject, au_payload = None, au_created_at = now\<rparr>]\<rparr>"

section \<open>Sessions\<close>

definition is_session_revoked :: "user_state \<Rightarrow> id \<Rightarrow> bool" where
  "is_session_revoked us jti \<longleftrightarrow> jti \<in> fst ` set (us_revoked us)"

definition revoke_session :: "time \<Rightarrow> id \<Rightarrow> string \<Rightarrow> user_state \<Rightarrow> user_state" where
  "revoke_session now jti name us =
     (if is_session_revoked us jti then us else us\<lparr>us_revoked := us_revoked us @ [(jti, name, now)]\<rparr>)"

definition issue_token :: "auth_lib \<Rightarrow> time \<Rightarrow> id \<Rightarrow> string \<Rightarrow> string \<Rightarrow> int \<Rightarrow> string" where
  "issue_token lib now jti name role gen = al_encode lib
     \<lparr>jc_sub = name, jc_exp = (now + secs 43200) div secs 1, jc_iat = now div secs 1, jc_gen = gen,
      jc_jti = jti, jc_role = role\<rparr>"

definition verify_token :: "auth_lib \<Rightarrow> time \<Rightarrow> string \<Rightarrow> user_state \<Rightarrow> (string \<times> string) option" where
  "verify_token lib now token us =
     (case al_decode lib now token of
        None \<Rightarrow> None
      | Some c \<Rightarrow>
          if is_session_revoked us (jc_jti c) then None
          else (case user_auth_state us (jc_sub c) of
                  None \<Rightarrow> None
                | Some (role, gen) \<Rightarrow> if jc_gen c < gen then None else Some (jc_sub c, role)))"

section \<open>The middleware\<close>

record http_request =
  rq_method :: string
  rq_path :: string
  rq_authorization :: "string option"
  rq_cookie :: "string option"

definition auth_token_from_headers :: "http_request \<Rightarrow> string option" where
  "auth_token_from_headers rq =
     (case Option.bind (rq_authorization rq) (\<lambda>h. strip_prefix ''Bearer '' h) of
        Some t \<Rightarrow> Some t
      | None \<Rightarrow> Option.bind (rq_cookie rq) (\<lambda>c.
          case List.map_filter (\<lambda>p. strip_prefix ''agentgrid_token='' (trim p)) (split_on (CHR '';'') c) of
            [] \<Rightarrow> None | t # _ \<Rightarrow> Some t))"

definition OPERATOR_READ :: "string list" where
  "OPERATOR_READ = [''/v1/agents'', ''/v1/agents/{id}/actions'', ''/v1/approvals'', ''/v1/approvals/{id}'',
     ''/v1/attempts/{id}'', ''/v1/attempts/{id}/annotations'', ''/v1/audit'', ''/v1/cluster/status'',
     ''/v1/conversations'', ''/v1/conversations/{id}'', ''/v1/conversations/{id}/messages'', ''/v1/mcp-servers'',
     ''/v1/node-installs'', ''/v1/node-installs/{id}'', ''/v1/nodes'', ''/v1/nodes/{id}'',
     ''/v1/nodes/{id}/accounts/usage'', ''/v1/nodes/{id}/opencode-audit'', ''/v1/opencode-profiles'',
     ''/v1/opencode-profiles/{name}'', ''/v1/profiles'', ''/v1/profiles/{id}'', ''/v1/provisioning'',
     ''/v1/repos/{repo}/learnings'', ''/v1/repositories'', ''/v1/search'', ''/v1/search/events'', ''/v1/skills'',
     ''/v1/skills/{name}'', ''/v1/stream'', ''/v1/task-groups/{id}/context'', ''/v1/task-groups/{id}/context/{key}'',
     ''/v1/tasks'', ''/v1/tasks/{id}'', ''/v1/tasks/{id}/artifacts'', ''/v1/tasks/{id}/artifacts/{name}'',
     ''/v1/tasks/{id}/eligibility'', ''/v1/tasks/{id}/events'', ''/v1/tasks/{id}/events/stream'',
     ''/v1/tasks/{id}/review-approval'', ''/v1/tasks/{id}/tags'', ''/v1/users'', ''/v1/workflow-runs'',
     ''/v1/workflow-runs/{id}'', ''/v1/workflow-runs/{id}/plan'', ''/v1/workflow-runs/{id}/projection'',
     ''/v1/workflows'', ''/v1/workflows/{id}'', ''/v1/workflows/{id}/schedules'']"

definition OPERATOR_READ_DENIED :: "string list" where
  "OPERATOR_READ_DENIED = [''/v1/adapter-env'', ''/v1/proxies'']"

definition is_param :: "string \<Rightarrow> bool" where
  "is_param t \<longleftrightarrow> starts_with t ''{'' \<and> ends_with t ''}''"

fun segments_match :: "string list \<Rightarrow> string list \<Rightarrow> bool" where
  "segments_match [] [] = True"
| "segments_match (t # ts) (p # ps) = ((if is_param t then p \<noteq> [] else t = p) \<and> segments_match ts ps)"
| "segments_match _ _ = False"

definition path_matches :: "string \<Rightarrow> string \<Rightarrow> bool" where
  "path_matches template path = segments_match (split_on (CHR ''/'') template) (split_on (CHR ''/'') path)"

definition operator_allowed :: "string \<Rightarrow> string \<Rightarrow> bool" where
  "operator_allowed method path =
     (if method = ''GET'' \<or> method = ''HEAD''
      then \<not> list_ex (\<lambda>t. path_matches t path) OPERATOR_READ_DENIED \<and> list_ex (\<lambda>t. path_matches t path) OPERATOR_READ
      else method = ''POST'' \<and>
        (path = ''/v1/auth/logout'' \<or>
         starts_with path ''/v1/approvals/'' \<and> (ends_with path ''/allow'' \<or> ends_with path ''/deny'') \<or>
         starts_with path ''/v1/workflow-runs/'' \<and> ends_with path ''/approve-plan''))"

definition user_protected :: "string \<Rightarrow> bool" where
  "user_protected path \<longleftrightarrow>
     \<not> (starts_with path ''/health'' \<or> path = ''/metrics'' \<or> path = ''/v1/version'' \<or> starts_with path ''/v1/node/'' \<or>
        starts_with path ''/v1/webhooks/'' \<or> starts_with path ''/v1/ha/'' \<or>
        path \<in> {''/v1/auth/login'', ''/v1/auth/setup'', ''/v1/auth/logout''})"

text \<open>The answer is the status of a refusal, or the identity with which the handler runs.\<close>

definition require_user_auth ::
    "auth_lib \<Rightarrow> time \<Rightarrow> http_request \<Rightarrow> user_state \<Rightarrow> nat + (string \<times> string) option" where
  "require_user_auth lib now rq us =
     (if \<not> user_protected (rq_path rq) then Inr None
      else if user_count us = 0
      then (if starts_with (rq_path rq) ''/v1/'' then Inl 503 else Inr None)
      else
        (case auth_token_from_headers rq of
           None \<Rightarrow> Inl 401
         | Some token \<Rightarrow>
             (case verify_token lib now token us of
                None \<Rightarrow> Inl 401
              | Some (name, role) \<Rightarrow>
                  if role \<noteq> ROLE_ADMIN \<and> \<not> operator_allowed (rq_method rq) (rq_path rq) then Inl 403
                  else Inr (Some (name, role)))))"

definition node_route_is_public :: "string \<Rightarrow> bool" where
  "node_route_is_public path \<longleftrightarrow>
     path \<in> {''/v1/node/enroll'', ''/v1/node/join.sh'', ''/v1/node/install.sh'', ''/v1/node/bundle''} \<or>
     starts_with path ''/v1/node/bundle/''"

definition require_node_auth :: "codec \<Rightarrow> http_request \<Rightarrow> store \<Rightarrow> nat + id option" where
  "require_node_auth cd rq st =
     (if starts_with (rq_path rq) ''/v1/node/'' \<and> \<not> node_route_is_public (rq_path rq)
      then (case Option.bind (rq_authorization rq) (\<lambda>h. strip_prefix ''Bearer '' h) of
              None \<Rightarrow> Inl 401
            | Some c \<Rightarrow> (case node_id_for_credential cd st c of Some nid \<Rightarrow> Inr (Some nid) | None \<Rightarrow> Inl 401))
      else Inr None)"

section \<open>Setup, login, logout\<close>

text \<open>The length of a password counts characters: bytes that do not continue a UTF-8 sequence.\<close>

definition char_count :: "string \<Rightarrow> nat" where
  "char_count s = length (filter (\<lambda>c. \<not> ((128 :: nat) \<le> of_char c \<and> of_char c < (192 :: nat))) s)"

definition password_is_acceptable :: "string \<Rightarrow> bool" where
  "password_is_acceptable p \<longleftrightarrow> 12 \<le> char_count p"

definition SETUP_TOKEN_TTL :: time where
  "SETUP_TOKEN_TTL = secs 900"

definition setup_token_ok :: "time \<Rightarrow> string option \<Rightarrow> user_state \<Rightarrow> bool" where
  "setup_token_ok now presented us =
     (case us_setup_token us of
        Some (t, issued) \<Rightarrow> now - issued < SETUP_TOKEN_TTL \<and> t = (case presented of Some p \<Rightarrow> p | None \<Rightarrow> [])
      | None \<Rightarrow> False)"

definition auth_setup ::
    "auth_lib \<Rightarrow> time \<Rightarrow> id \<Rightarrow> string \<Rightarrow> id \<Rightarrow> string \<Rightarrow> string \<Rightarrow> string option \<Rightarrow> user_state
      \<Rightarrow> (nat + string) \<times> user_state" where
  "auth_setup lib now uid salt jti name password token us =
     (if name = [] \<or> password = [] then (Inl 400, us)
      else if \<not> password_is_acceptable password then (Inl 400, us)
      else if user_count us \<noteq> 0 then (Inl 409, us)
      else if \<not> setup_token_ok now token us then (Inl 403, us)
      else
        (case create_user lib now uid salt name password ROLE_ADMIN us of
           (False, us1) \<Rightarrow> (Inl 409, us1)
         | (True, us1) \<Rightarrow>
             (Inr (issue_token lib now jti name ROLE_ADMIN 0),
              user_audit now (Some name) ''user.create'' None (us1\<lparr>us_setup_token := None\<rparr>))))"

definition auth_login ::
    "auth_lib \<Rightarrow> time \<Rightarrow> id \<Rightarrow> string option \<Rightarrow> string \<Rightarrow> string \<Rightarrow> user_state \<Rightarrow> (nat + string) \<times> user_state" where
  "auth_login lib now jti client name password us0 =
     (let secs_now = int (now div secs 1);
          (admitted, lr) = login_admit client secs_now (us_login_rate us0);
          us = us0\<lparr>us_login_rate := lr\<rparr>
      in if \<not> admitted then (Inl 429, us)
         else
           (case verify_user lib name password us of
              None \<Rightarrow>
                (let (ok, lr1) = note_failure (al_lower lib) name secs_now (us_login_rate us)
                 in (Inl (if ok then 401 else 429), us\<lparr>us_login_rate := lr1\<rparr>))
            | Some (uid, role, gen) \<Rightarrow>
                (Inr (issue_token lib now jti name role gen),
                 user_audit now (Some name) ''login'' None
                   (us\<lparr>us_login_rate := note_success (al_lower lib) name (us_login_rate us)\<rparr>))))"

definition auth_logout :: "auth_lib \<Rightarrow> time \<Rightarrow> http_request \<Rightarrow> user_state \<Rightarrow> user_state" where
  "auth_logout lib now rq us =
     (case auth_token_from_headers rq of
        None \<Rightarrow> us
      | Some token \<Rightarrow>
          (case al_decode lib now token of
             None \<Rightarrow> us
           | Some c \<Rightarrow> revoke_session now (jc_jti c) (jc_sub c) us))"

section \<open>Administration\<close>

type_synonym authed_user = "string \<times> string"

definition create_user_handler ::
    "auth_lib \<Rightarrow> time \<Rightarrow> id \<Rightarrow> string \<Rightarrow> authed_user \<Rightarrow> string \<Rightarrow> string \<Rightarrow> string \<Rightarrow> user_state \<Rightarrow> nat \<times> user_state" where
  "create_user_handler lib now uid salt auth name password role us =
     (if snd auth \<noteq> ROLE_ADMIN then (403, us)
      else if name = [] \<or> password = [] then (400, us)
      else if \<not> password_is_acceptable password then (400, us)
      else if \<not> is_valid_role role then (400, us)
      else
        (case create_user lib now uid salt name password role us of
           (False, us1) \<Rightarrow> (409, us1)
         | (True, us1) \<Rightarrow>
             (201, user_audit now (Some (fst auth)) ''user.create''
                (Some (''username='' @ name @ '' role='' @ role)) us1)))"

text \<open>Deletion in its two database accesses: the checks, and the statement.\<close>

definition delete_user_check :: "authed_user \<Rightarrow> string \<Rightarrow> user_state \<Rightarrow> nat + string" where
  "delete_user_check auth name us =
     (if snd auth \<noteq> ROLE_ADMIN then Inl 403
      else
        (case user_auth_state us name of
           None \<Rightarrow> Inl 404
         | Some (role, gen) \<Rightarrow> if role = ROLE_ADMIN \<and> admin_count us \<le> 1 then Inl 409 else Inr role))"

definition delete_user_commit :: "time \<Rightarrow> authed_user \<Rightarrow> string \<Rightarrow> string \<Rightarrow> user_state \<Rightarrow> nat \<times> user_state" where
  "delete_user_commit now auth name role us =
     (case delete_user name us of
        (False, us1) \<Rightarrow> (404, us1)
      | (True, us1) \<Rightarrow>
          (200, user_audit now (Some (fst auth)) ''user.delete''
             (Some (''username='' @ name @ '' role='' @ role)) us1))"

definition delete_user_handler :: "time \<Rightarrow> authed_user \<Rightarrow> string \<Rightarrow> user_state \<Rightarrow> nat \<times> user_state" where
  "delete_user_handler now auth name us =
     (case delete_user_check auth name us of
        Inl code \<Rightarrow> (code, us)
      | Inr role \<Rightarrow> delete_user_commit now auth name role us)"

definition update_user_handler ::
    "auth_lib \<Rightarrow> time \<Rightarrow> string \<Rightarrow> authed_user \<Rightarrow> string \<Rightarrow> string option \<Rightarrow> string option \<Rightarrow> user_state
      \<Rightarrow> nat \<times> user_state" where
  "update_user_handler lib now salt auth name new_role password us =
     (if snd auth \<noteq> ROLE_ADMIN then (403, us)
      else if new_role = None \<and> password = None then (400, us)
      else if (case new_role of Some r \<Rightarrow> \<not> is_valid_role r | None \<Rightarrow> False) then (400, us)
      else if (case password of Some p \<Rightarrow> \<not> password_is_acceptable p | None \<Rightarrow> False) then (400, us)
      else
        (case user_auth_state us name of
           None \<Rightarrow> (404, us)
         | Some (role, gen) \<Rightarrow>
             if new_role = Some ROLE_OPERATOR \<and> role = ROLE_ADMIN \<and> admin_count us \<le> 1 then (409, us)
             else
               (let role_change = (case new_role of Some r \<Rightarrow> if r \<noteq> role then Some r else None | None \<Rightarrow> None);
                    us1 = (case role_change of Some r \<Rightarrow> snd (set_user_role name r us) | None \<Rightarrow> us);
                    us2 = (case password of Some p \<Rightarrow> snd (set_user_password lib salt name p us1) | None \<Rightarrow> us1);
                    changed = (case role_change of Some r \<Rightarrow> [''role='' @ r] | None \<Rightarrow> []) @
                      (case password of Some p \<Rightarrow> [''password=changed''] | None \<Rightarrow> [])
                in if changed = [] then (200, us2)
                   else (200, user_audit now (Some (fst auth)) ''user.update''
                           (Some (''username='' @ name @ '' '' @ join '' '' changed)) (bump_sessions_gen name us2)))))"

definition list_users :: "user_state \<Rightarrow> (string \<times> string) list" where
  "list_users us = map (\<lambda>u. (u_username u, u_role u)) (sort_key u_created_at (us_users us))"

end
