(* ===== verification/UserProps.thy ===== *)
theory UserProps
  imports UserAuth SchedProps
begin

text \<open>
  What the session and administration code guarantees: a change of role or password ends every
  session of the user for good, as long as the account is not deleted; the setup token makes one
  first admin; requests handled one after the other leave an admin. And two ways around it: an
  account that is deleted and created again takes back the sessions of its predecessor, and two
  deletions that overlap leave no admin.
\<close>

section \<open>Steps\<close>

text \<open>The requests that change users or sessions, one after the other. Administration runs with
  the identity the middleware established.\<close>

inductive user_step :: "auth_lib \<Rightarrow> user_state \<Rightarrow> user_state \<Rightarrow> bool" for lib where
  us_setup: "user_step lib us (snd (auth_setup lib now uid salt jti name password token us))"
| us_login: "user_step lib us (snd (auth_login lib now jti client name password us))"
| us_logout: "user_step lib us (auth_logout lib now rq us)"
| us_create: "require_user_auth lib now rq us = Inr (Some auth) \<Longrightarrow>
    user_step lib us (snd (create_user_handler lib now uid salt auth name password role us))"
| us_delete: "require_user_auth lib now rq us = Inr (Some auth) \<Longrightarrow>
    user_step lib us (snd (delete_user_handler now auth name us))"
| us_update: "require_user_auth lib now rq us = Inr (Some auth) \<Longrightarrow>
    user_step lib us (snd (update_user_handler lib now salt auth name new_role password us))"

definition fresh_install :: "user_state \<Rightarrow> bool" where
  "fresh_install us \<longleftrightarrow> us_users us = []"

section \<open>An admin remains\<close>

definition names_ok :: "user_state \<Rightarrow> bool" where
  "names_ok us \<longleftrightarrow> distinct (map u_username (us_users us))"

definition has_admin :: "user_state \<Rightarrow> bool" where
  "has_admin us \<longleftrightarrow> us_users us = [] \<or> 0 < admin_count us"

lemma user_audit_users [simp]: "us_users (user_audit now a b c us) = us_users us"
  by (simp add: user_audit_def)

lemma login_users [simp]: "us_users (snd (auth_login lib now jti client name password us)) = us_users us"
  by (simp add: auth_login_def Let_def case_prod_beta split: option.split)

lemma logout_users [simp]: "us_users (auth_logout lib now rq us) = us_users us"
  by (auto simp: auth_logout_def revoke_session_def split: option.split)

lemma find_user_None: "find_user us name = None \<longleftrightarrow> name \<notin> u_username ` set (us_users us)"
  by (auto simp: find_user_def sql_first_def find_None_iff)

lemma create_user_cases:
  assumes "create_user lib now uid salt name password role us = (ok, us')"
  shows "ok \<longleftrightarrow> find_user us name = None"
    and "ok \<Longrightarrow> \<exists>u. us_users us' = us_users us @ [u] \<and> u_username u = name \<and> u_role u = role \<and> u_sessions_gen u = 0"
    and "\<not> ok \<Longrightarrow> us' = us"
  using assms by (auto simp: create_user_def split: if_splits)

lemma count_filter: "sql_count p (filter q rows) = sql_count (\<lambda>r. q r \<and> p r) rows"
  by (simp add: sql_count_def conj_commute)

lemma count_without_one:
  "distinct (map u_username rows) \<Longrightarrow>
   sql_count p rows \<le> Suc (sql_count (\<lambda>u. u_username u \<noteq> name \<and> p u) rows)"
proof (induction rows)
  case (Cons r rows)
  show ?case
  proof (cases "u_username r = name")
    case True
    then have "\<forall>u\<in>set rows. u_username u \<noteq> name" using Cons.prems by (metis distinct.simps(2) image_eqI list.simps(9) set_map)
    then have "sql_count (\<lambda>u. u_username u \<noteq> name \<and> p u) rows = sql_count p rows"
      by (auto simp: sql_count_def intro!: arg_cong[of _ _ length] filter_cong)
    then show ?thesis using True by (simp add: sql_count_def)
  qed (use Cons in \<open>auto simp: sql_count_def\<close>)
qed (simp add: sql_count_def)

lemma count_same:
  "(\<And>u. u \<in> set rows \<Longrightarrow> p u = q u) \<Longrightarrow> sql_count p rows = sql_count q rows"
  by (auto simp: sql_count_def intro!: arg_cong[of _ _ length] filter_cong)

lemma find_user_row: "find_user us name = Some u \<Longrightarrow> u \<in> set (us_users us) \<and> u_username u = name"
  by (auto simp: find_user_def sql_first_def find_Some_iff)

lemma same_name: "names_ok us \<Longrightarrow> find_user us name = Some u \<Longrightarrow> v \<in> set (us_users us) \<Longrightarrow> u_username v = name \<Longrightarrow> v = u"
  using find_user_row[of us name u] by (auto simp: names_ok_def distinct_map dest: inj_onD)

lemma setup_inv: "names_ok us \<and> has_admin us \<Longrightarrow>
  names_ok (snd (auth_setup lib now uid salt jti name password token us)) \<and>
  has_admin (snd (auth_setup lib now uid salt jti name password token us))"
  by (auto simp: auth_setup_def create_user_def names_ok_def has_admin_def admin_count_def user_count_def sql_count_def
      split: prod.splits)

lemma create_inv:
  assumes "names_ok us" "has_admin us" "us_users us \<noteq> []"
  shows "names_ok (snd (create_user_handler lib now uid salt auth name password role us)) \<and>
    has_admin (snd (create_user_handler lib now uid salt auth name password role us))"
  using assms
  by (auto simp: create_user_handler_def create_user_def find_user_None names_ok_def has_admin_def admin_count_def
      sql_count_def split: prod.splits)

lemma delete_inv:
  assumes "names_ok us" "has_admin us"
  shows "names_ok (snd (delete_user_handler now auth name us)) \<and> has_admin (snd (delete_user_handler now auth name us))"
proof (cases "delete_user_check auth name us")
  case (Inl code)
  then show ?thesis using assms by (simp add: delete_user_handler_def)
next
  case (Inr role)
  then obtain u where u: "find_user us name = Some u" "u_role u = role" "role = ROLE_ADMIN \<Longrightarrow> 1 < admin_count us"
    by (auto simp: delete_user_check_def user_auth_state_def split: if_splits option.splits)
  have users: "us_users (snd (delete_user_handler now auth name us)) = filter (\<lambda>u. u_username u \<noteq> name) (us_users us)"
    using Inr by (simp add: delete_user_handler_def delete_user_commit_def delete_user_def split: bool.split)
  have "0 < sql_count (\<lambda>v. u_username v \<noteq> name \<and> u_role v = ROLE_ADMIN) (us_users us)"
  proof (cases "role = ROLE_ADMIN")
    case True
    then show ?thesis
      using u(3) count_without_one[of "us_users us" "\<lambda>v. u_role v = ROLE_ADMIN" name] assms(1)
      by (simp add: admin_count_def names_ok_def)
  next
    case False
    have "sql_count (\<lambda>v. u_username v \<noteq> name \<and> u_role v = ROLE_ADMIN) (us_users us) = admin_count us"
      unfolding admin_count_def by (rule count_same) (use same_name[OF assms(1) u(1)] u(2) False in auto)
    moreover have "us_users us \<noteq> []" using find_user_row[OF u(1)] by auto
    ultimately show ?thesis using assms(2) by (simp add: has_admin_def)
  qed
  then show ?thesis using assms(1)
    by (simp add: names_ok_def has_admin_def admin_count_def users count_filter distinct_map_filter)
qed

text \<open>What an update does to the table: the rows of the name get one generation more, and
  perhaps another role.\<close>

lemma update_effect:
  assumes "update_user_handler lib now salt auth name new_role password us = (code, us')"
  obtains (same) "us_users us' = us_users us" "us_revoked us' = us_revoked us" "us_setup_token us' = us_setup_token us"
      "code = 200 \<longrightarrow> password = None \<and> new_role = map_option fst (user_auth_state us name)"
  | (changed) role gen f new where "code = 200" "user_auth_state us name = Some (role, gen)"
      "us_users us' = sql_update (\<lambda>u. u_username u = name) f (us_users us)"
      "\<And>u. u_username (f u) = u_username u" "\<And>u. u_sessions_gen (f u) = u_sessions_gen u + 1"
      "\<And>u. u_role (f u) = (case new of None \<Rightarrow> u_role u | Some r \<Rightarrow> r)"
      "\<And>r. new = Some r \<Longrightarrow> r \<noteq> role \<and> is_valid_role r \<and> \<not> (r = ROLE_OPERATOR \<and> role = ROLE_ADMIN \<and> admin_count us \<le> 1)"
      "us_revoked us' = us_revoked us" "us_setup_token us' = us_setup_token us"
proof -
  have twice: "sql_update (\<lambda>u. u_username u = name) g (sql_update (\<lambda>u. u_username u = name) f rows) =
      sql_update (\<lambda>u. u_username u = name) (g \<circ> f) rows" if "\<And>u. u_username (f u) = u_username u" for f g rows
    using that by (simp add: sql_update_def)
  define new where "new = (case user_auth_state us name of None \<Rightarrow> None | Some (role, gen) \<Rightarrow>
      (case new_role of Some r \<Rightarrow> if r \<noteq> role then Some r else None | None \<Rightarrow> None))"
  define f1 where "f1 = (case new of None \<Rightarrow> id | Some r \<Rightarrow> (\<lambda>u::user_row. u\<lparr>u_role := r\<rparr>))"
  define f2 where "f2 = (case password of None \<Rightarrow> id | Some p \<Rightarrow> (\<lambda>u::user_row. u\<lparr>u_password_hash := al_hash lib salt p\<rparr>))"
  define f where "f = (\<lambda>u::user_row. u\<lparr>u_sessions_gen := u_sessions_gen u + 1\<rparr>) \<circ> (f2 \<circ> f1)"
  have f: "u_username (f1 u) = u_username u" "u_username (f2 u) = u_username u" "u_sessions_gen (f2 (f1 u)) = u_sessions_gen u"
    "u_role (f2 (f1 u)) = (case new of None \<Rightarrow> u_role u | Some r \<Rightarrow> r)" for u
    by (simp_all add: f1_def f2_def split: option.split)
  have idu: "sql_update (\<lambda>u. u_username u = name) id rows = rows" for rows by (simp add: sql_update_def map_idI)
  show thesis
  proof (cases "us_users us' = us_users us \<and> us_revoked us' = us_revoked us \<and> us_setup_token us' = us_setup_token us \<and>
      (code = 200 \<longrightarrow> password = None \<and> new_role = map_option fst (user_auth_state us name))")
    case True
    then show thesis using same by blast
  next
    case False
    then obtain role gen where ua: "user_auth_state us name = Some (role, gen)" "snd auth = ROLE_ADMIN"
      "\<not> (new_role = Some ROLE_OPERATOR \<and> role = ROLE_ADMIN \<and> admin_count us \<le> 1)"
      "\<not> (case new_role of Some r \<Rightarrow> \<not> is_valid_role r | None \<Rightarrow> False)"
      "\<not> (case password of Some p \<Rightarrow> \<not> password_is_acceptable p | None \<Rightarrow> False)" "\<not> (new_role = None \<and> password = None)"
      using assms unfolding update_user_handler_def by (auto split: if_splits option.splits)
    define us1 where "us1 = (case new of Some r \<Rightarrow> snd (set_user_role name r us) | None \<Rightarrow> us)"
    define us2 where "us2 = (case password of Some p \<Rightarrow> snd (set_user_password lib salt name p us1) | None \<Rightarrow> us1)"
    have u2: "us_users us2 = sql_update (\<lambda>u. u_username u = name) (f2 \<circ> f1) (us_users us)"
      "us_revoked us2 = us_revoked us" "us_setup_token us2 = us_setup_token us"
      by (auto simp: us2_def us1_def f1_def f2_def set_user_role_def set_user_password_def update_user_def twice idu
          sql_update_def map_idI split: option.split)
    have res: "(code, us') = (if new = None \<and> password = None then (200, us2)
        else (200, user_audit now (Some (fst auth)) ''user.update'' (Some (''username='' @ name @ '' '' @ join '' ''
          ((case new of Some r \<Rightarrow> [''role='' @ r] | None \<Rightarrow> []) @ (case password of Some p \<Rightarrow> [''password=changed''] | None \<Rightarrow> []))))
          (bump_sessions_gen name us2)))"
      unfolding assms[symmetric] update_user_handler_def us2_def us1_def
      using ua by (auto simp: new_def Let_def split: option.split)
    have "\<not> (new = None \<and> password = None)"
    proof
      assume n: "new = None \<and> password = None"
      then have "us' = us" "code = 200" using res by (auto simp: us2_def us1_def)
      moreover have "new_role = Some role" using n ua(1, 6) by (auto simp: new_def split: option.splits if_splits)
      ultimately show False using False n ua(1) by simp
    qed
    then have fin: "code = 200" "us_users us' = us_users (bump_sessions_gen name us2)"
      "us_revoked us' = us_revoked us2" "us_setup_token us' = us_setup_token us2"
      using res by (auto simp: user_audit_def bump_sessions_gen_def update_user_def)
    have "us_users us' = sql_update (\<lambda>u. u_username u = name) f (us_users us)"
      by (simp add: fin(2) bump_sessions_gen_def update_user_def u2 twice f f_def comp_assoc)
    moreover have "r \<noteq> role \<and> is_valid_role r \<and> \<not> (r = ROLE_OPERATOR \<and> role = ROLE_ADMIN \<and> admin_count us \<le> 1)"
      if "new = Some r" for r
      using that ua by (auto simp: new_def split: option.splits if_splits)
    ultimately show thesis
      using changed[of role gen f new] fin u2(2, 3) ua(1) f by (simp add: f_def)
  qed
qed

lemma map_update_names:
  "(\<And>u. u_username (f u) = u_username u) \<Longrightarrow>
   map u_username (sql_update (\<lambda>u. u_username u = name) f rows) = map u_username rows"
  by (simp add: sql_update_def)

lemma update_inv:
  assumes "names_ok us" "has_admin us"
  shows "names_ok (snd (update_user_handler lib now salt auth name new_role password us)) \<and>
    has_admin (snd (update_user_handler lib now salt auth name new_role password us))"
proof -
  obtain code us' where h: "update_user_handler lib now salt auth name new_role password us = (code, us')" by fastforce
  from h have "names_ok us' \<and> has_admin us'"
  proof (cases rule: update_effect)
    case same
    then show ?thesis using assms by (simp add: names_ok_def has_admin_def admin_count_def)
  next
    case (changed role gen f new)
    obtain u where u: "find_user us name = Some u" "u_role u = role"
      using changed(2) by (auto simp: user_auth_state_def)
    have rows: "u \<in> set (us_users us)" "u_username u = name" using find_user_row[OF u(1)] by auto
    let ?adm = "\<lambda>v. u_role v = ROLE_ADMIN"
    have "0 < sql_count ?adm (us_users us')"
    proof (cases "new = Some ROLE_OPERATOR \<and> role = ROLE_ADMIN")
      case True
      then have "1 < admin_count us" using changed(7) by fastforce
      then have "0 < sql_count (\<lambda>v. u_username v \<noteq> name \<and> ?adm v) (us_users us)"
        using count_without_one[of "us_users us" ?adm name] assms(1) by (simp add: admin_count_def names_ok_def)
      then obtain v where "v \<in> set (us_users us)" "u_username v \<noteq> name" "?adm v"
        by (auto simp: sql_count_def filter_empty_conv)
      then have "v \<in> set (us_users us') \<and> ?adm v" by (auto simp: changed(3) sql_update_def image_iff)
      then show ?thesis by (auto simp: sql_count_def filter_empty_conv)
    next
      case False
      obtain v where v: "v \<in> set (us_users us)" "?adm v"
        using assms(2) rows(1) by (auto simp: has_admin_def admin_count_def sql_count_def filter_empty_conv)
      let ?v = "if u_username v = name then f v else v"
      have "?v \<in> set (us_users us')" using v(1) by (auto simp: changed(3) sql_update_def)
      moreover have "?adm ?v"
      proof (cases "u_username v = name")
        case True
        then have "v = u" using same_name[OF assms(1) u(1) v(1)] by simp
        then have "role = ROLE_ADMIN" using v(2) u(2) by simp
        then have "new = None" using False changed(7) by (cases new) (auto simp: is_valid_role_def)
        then show ?thesis using True v(2) changed(6) by simp
      qed (use v(2) in simp)
      ultimately show ?thesis by (auto simp: sql_count_def filter_empty_conv)
    qed
    then show ?thesis using assms(1) changed(4) by (simp add: names_ok_def has_admin_def admin_count_def changed(3) map_update_names)
  qed
  then show ?thesis using h by simp
qed

lemma authenticated_install: "require_user_auth lib now rq us = Inr (Some auth) \<Longrightarrow> us_users us \<noteq> []"
  by (auto simp: require_user_auth_def user_count_def split: if_splits)

lemma user_step_inv: "user_step lib us us' \<Longrightarrow> names_ok us \<and> has_admin us \<Longrightarrow> names_ok us' \<and> has_admin us'"
proof (induction rule: user_step.induct)
  case (us_setup us now uid salt jti name password token)
  then show ?case by (rule setup_inv)
next
  case (us_create now rq us auth uid salt name password role)
  then show ?case using create_inv authenticated_install by blast
next
  case (us_delete now rq us auth name)
  then show ?case using delete_inv by blast
next
  case (us_update now rq us auth salt name new_role password)
  then show ?case using update_inv by blast
qed (simp_all add: names_ok_def has_admin_def admin_count_def)

interpretation user_sys: invariant_system fresh_install "user_step lib" "\<lambda>us. names_ok us \<and> has_admin us" for lib
proof unfold_locales
  show "names_ok us \<and> has_admin us" if "fresh_install us" for us
    using that by (simp add: fresh_install_def names_ok_def has_admin_def)
qed (rule user_step_inv)

text \<open>C31: An install that has users has an admin. Whatever sequence of setups, logins, logouts and
  administration requests a fresh install serves, one after the other, user names stay unique, and
  once there is a user there is one with the admin role: the last admin can be neither deleted nor
  demoted.\<close>

theorem an_admin_remains:
  assumes "reachable fresh_install (user_step lib) us"
  shows "distinct (map u_username (us_users us)) \<and> (us_users us \<noteq> [] \<longrightarrow> (\<exists>u\<in>set (us_users us). u_role u = ROLE_ADMIN))"
  using user_sys.reachable_inv[OF assms]
  by (auto simp: names_ok_def has_admin_def admin_count_def sql_count_def filter_empty_conv)

text \<open>Two deletions whose checks both run before either statement, as the handlers of two parallel
  requests may: both admins are deleted.\<close>

lemma overlapping_deletions_leave_no_admin:
  assumes "\<forall>u\<in>set (us_users us). u_role u = ROLE_ADMIN \<longrightarrow> u_username u \<in> {a, b}"
    and "delete_user_check x a us = Inr ra" "delete_user_check y b us = Inr rb"
  shows "admin_count (snd (delete_user_commit now' y b rb (snd (delete_user_commit now x a ra us)))) = 0"
  using assms(1)
  by (auto simp: delete_user_commit_def delete_user_def admin_count_def sql_count_def filter_empty_conv split: bool.split)

section \<open>Sessions end with a change\<close>

definition gen_of :: "user_state \<Rightarrow> string \<Rightarrow> int option" where
  "gen_of us name = map_option u_sessions_gen (find_user us name)"

lemma gen_of_users: "us_users us' = us_users us \<Longrightarrow> gen_of us' name = gen_of us name"
  by (simp add: gen_of_def find_user_def)

lemma gen_of_append: "gen_of us name = Some g \<Longrightarrow> us_users us' = us_users us @ rows \<Longrightarrow> gen_of us' name = Some g"
  by (auto simp: gen_of_def find_user_def sql_first_append)

lemma gen_of_update:
  assumes "us_users us' = sql_update (\<lambda>u. u_username u = i) f (us_users us)"
    and "\<And>u. u_username (f u) = u_username u" "\<And>u. u_sessions_gen (f u) = u_sessions_gen u + 1"
  shows "gen_of us' name = map_option (\<lambda>g. if i = name then g + 1 else g) (gen_of us name)"
proof -
  have "find_user us' name = map_option (\<lambda>u. if u_username u = i then f u else u) (find_user us name)"
    by (simp add: find_user_def assms(1, 2) sql_first_update[where key = u_username])
  then show ?thesis using find_user_row[of us name]
    by (cases "find_user us name") (auto simp: gen_of_def assms(3))
qed

text \<open>As long as the account exists, its generation never goes back.\<close>

lemma gen_step:
  assumes "user_step lib us us'" "gen_of us name = Some g" "gen_of us' name \<noteq> None"
  shows "\<exists>g'\<ge>g. gen_of us' name = Some g'"
  using assms
proof (induction rule: user_step.induct)
  case (us_setup us now uid salt jti n password token)
  then have "user_count us \<noteq> 0" by (auto simp: gen_of_def find_user_def user_count_def sql_first_def)
  then show ?case using us_setup.prems by (auto simp: auth_setup_def)
next
  case (us_create now rq us auth uid salt n password role)
  let ?us = "snd (create_user_handler lib now uid salt auth n password role us)"
  have "us_users ?us = us_users us @ [] \<or> (\<exists>u. us_users ?us = us_users us @ [u])"
    by (auto simp: create_user_handler_def create_user_def)
  then show ?case using gen_of_append[OF us_create.prems(1)] by blast
next
  case (us_delete now rq us auth n)
  let ?us = "snd (delete_user_handler now auth n us)"
  have "us_users ?us = us_users us \<or> us_users ?us = filter (\<lambda>u. u_username u \<noteq> n) (us_users us)"
    by (auto simp: delete_user_handler_def delete_user_commit_def delete_user_def split: sum.split bool.split)
  then have "gen_of ?us name = gen_of us name \<or> gen_of ?us name = None"
  proof
    assume f: "us_users ?us = filter (\<lambda>u. u_username u \<noteq> n) (us_users us)"
    show ?thesis
    proof (cases "n = name")
      case True
      then have "find_user ?us name = None" unfolding find_user_None f by auto
      then show ?thesis by (simp add: gen_of_def)
    next
      case False
      have "find (\<lambda>u. u_username u = name) (filter (\<lambda>u. u_username u \<noteq> n) rows) = find (\<lambda>u. u_username u = name) rows" for rows :: "user_row list"
        using False by (induction rows) auto
      then show ?thesis by (simp add: gen_of_def find_user_def sql_first_def f)
    qed
  qed (use gen_of_users[of ?us us name] in blast)
  then show ?case using us_delete.prems by auto
next
  case (us_update now rq us auth salt n new_role password)
  obtain code us1 where h: "update_user_handler lib now salt auth n new_role password us = (code, us1)" by fastforce
  from h have "\<exists>g'\<ge>g. gen_of us1 name = Some g'"
  proof (cases rule: update_effect)
    case same
    then show ?thesis using us_update.prems(1) gen_of_users[of us1 us name] by auto
  next
    case (changed role gen f new)
    then show ?thesis using us_update.prems(1) gen_of_update[of us1 n f us name] by auto
  qed
  then show ?case using h by simp
qed (auto simp: gen_of_def find_user_def)

lemma gen_run:
  assumes "(\<lambda>a b. user_step lib a b \<and> gen_of b name \<noteq> None)\<^sup>*\<^sup>* us us'" "gen_of us name = Some g"
  shows "\<exists>g'\<ge>g. gen_of us' name = Some g'"
  using assms
proof (induction rule: rtranclp_induct)
  case (step x y)
  then obtain h where "h \<ge> g" "gen_of x name = Some h" by blast
  with gen_step[of lib x y name h] step.hyps(2) show ?case by (meson order_trans)
qed blast

lemma stale_refused:
  assumes "al_decode lib now token = Some c" "gen_of us (jc_sub c) = Some g" "jc_gen c < g"
  shows "verify_token lib now token us = None"
  using assms by (auto simp: verify_token_def user_auth_state_def gen_of_def)

text \<open>C32: A change of role or password ends every session of the user. Once an update that changes
  something succeeded, a token of an earlier generation is refused in every state that is reached
  while the account exists, whatever else happens, until it expires.\<close>

theorem sessions_end_with_change:
  assumes "update_user_handler lib now salt auth name new_role password us = (200, us1)"
    and "password \<noteq> None \<or> new_role \<noteq> map_option fst (user_auth_state us name)"
    and "al_decode lib later token = Some c" "jc_sub c = name" "gen_of us name = Some g" "jc_gen c \<le> g"
    and "(\<lambda>a b. user_step lib a b \<and> gen_of b name \<noteq> None)\<^sup>*\<^sup>* us1 us2"
  shows "verify_token lib later token us2 = None"
proof -
  from assms(1) have "gen_of us1 name = Some (g + 1)"
  proof (cases rule: update_effect)
    case same
    then show ?thesis using assms(2) by simp
  next
    case (changed role gen f new)
    then show ?thesis using gen_of_update[of us1 name f us name] assms(5) by simp
  qed
  from gen_run[OF assms(7) this] obtain g' where "g + 1 \<le> g'" "gen_of us2 name = Some g'" by blast
  then show ?thesis using stale_refused[OF assms(3), of us2 g'] assms(4, 6) by simp
qed

lemma sql_first_appended: "sql_first p xs = None \<Longrightarrow> p r \<Longrightarrow> sql_first p (xs @ [r]) = Some r"
  by (induction xs) (auto simp: sql_first_def split: if_splits)

lemma find_user_appended:
  "us_users us' = us_users us @ [u] \<Longrightarrow> find_user us (u_username u) = None \<Longrightarrow> find_user us' (u_username u) = Some u"
  by (simp add: find_user_def sql_first_appended)

text \<open>C33: Deleting an account does not end its sessions for good. The generation is a column of the
  row and starts again at zero, so when an account of the same name is created after the deletion,
  every token of the deleted one that was not logged out is accepted again, now with the role of the
  new account.\<close>

theorem deleted_sessions_revive:
  assumes "al_decode lib later token = Some c" "jc_sub c = name" "0 \<le> jc_gen c" "\<not> is_session_revoked us (jc_jti c)"
    and "delete_user_handler now auth name us = (200, us1)"
    and "create_user_handler lib now' uid salt auth' name password role us1 = (201, us2)"
  shows "verify_token lib later token us2 = Some (name, role)"
proof -
  have "us_revoked us1 = us_revoked us"
    using assms(5) by (auto simp: delete_user_handler_def delete_user_commit_def delete_user_def user_audit_def
        split: sum.splits bool.splits)
  moreover obtain us' where c: "create_user lib now' uid salt name password role us1 = (True, us')"
    and "us_users us2 = us_users us'" "us_revoked us2 = us_revoked us'"
    using assms(6) by (auto simp: create_user_handler_def user_audit_def split: if_splits prod.splits bool.splits)
  moreover have "us_revoked us' = us_revoked us1" using c by (auto simp: create_user_def split: if_splits)
  moreover obtain u where "us_users us' = us_users us1 @ [u]" "u_username u = name" "u_role u = role" "u_sessions_gen u = 0"
    using create_user_cases(2)[OF c] by auto
  moreover have "find_user us1 name = None" using create_user_cases(1)[OF c] by blast
  ultimately have "find_user us2 name = Some u" "\<not> is_session_revoked us2 (jc_jti c)" "u_role u = role" "u_sessions_gen u = 0"
    using assms(4) find_user_appended[of us2 us1 u] by (simp_all add: is_session_revoked_def)
  then show ?thesis using assms(1-3) by (simp add: verify_token_def user_auth_state_def)
qed

section \<open>Setup happens once\<close>

lemma setup_token_step: "user_step lib us us' \<Longrightarrow> us_setup_token us = None \<Longrightarrow> us_setup_token us' = None"
proof (induction rule: user_step.induct)
  case (us_update now rq us auth salt name new_role password)
  obtain code us1 where h: "update_user_handler lib now salt auth name new_role password us = (code, us1)" by fastforce
  from h have "us_setup_token us1 = us_setup_token us" by (cases rule: update_effect) simp_all
  then show ?case using h us_update.prems by simp
qed (auto simp: auth_setup_def setup_token_ok_def auth_login_def auth_logout_def revoke_session_def create_user_handler_def
    create_user_def delete_user_handler_def delete_user_commit_def delete_user_def user_audit_def Let_def case_prod_beta
    split: option.split sum.split bool.split)

text \<open>The bootstrap of an install succeeds at most once: after a setup that made the first admin,
  every later setup request to the same process is refused and changes nothing, whatever requests
  it has served in between.\<close>

theorem setup_happens_once:
  assumes "auth_setup lib now uid salt jti name password token us = (Inr session, us1)" "(user_step lib)\<^sup>*\<^sup>* us1 us2"
  shows "\<exists>code. auth_setup lib now' uid' salt' jti' name' password' token' us2 = (Inl code, us2)"
proof -
  have "us_setup_token us1 = None"
    using assms(1) by (auto simp: auth_setup_def user_audit_def split: if_splits prod.splits bool.splits)
  with assms(2) have "us_setup_token us2 = None" by (induction rule: rtranclp_induct) (auto intro: setup_token_step)
  then show ?thesis by (auto simp: auth_setup_def setup_token_ok_def)
qed

section \<open>Instances\<close>

text \<open>A codec whose only token is decoded into claims of generation zero, and an install with its
  setup token.\<close>

definition lib0 :: auth_lib where
  "lib0 = \<lparr>al_hash = (\<lambda>salt p. salt @ p), al_verify = (\<lambda>p h. False), al_encode = jc_sub,
     al_decode = (\<lambda>now t. Some \<lparr>jc_sub = t, jc_exp = 0, jc_iat = 0, jc_gen = 0, jc_jti = ''j'', jc_role = ''operator''\<rparr>),
     al_lower = id\<rparr>"

definition us0 :: user_state where
  "us0 = \<lparr>us_users = [], us_revoked = [], us_setup_token = Some (''tok'', 0),
     us_login_rate = new_login_rate, us_audits = []\<rparr>"

definition admin0 :: http_request where
  "admin0 = \<lparr>rq_method = ''POST'', rq_path = ''/v1/users'', rq_authorization = Some ''Bearer root'', rq_cookie = None\<rparr>"

definition us_root :: user_state where
  "us_root = snd (auth_setup lib0 0 ''u1'' ''s'' ''j1'' ''root'' ''long enough password'' (Some ''tok'') us0)"

definition us_two :: user_state where
  "us_two = snd (create_user_handler lib0 0 ''u2'' ''s'' (''root'', ''admin'') ''bob'' ''long enough password'' ''operator'' us_root)"

lemmas user_ops = auth_setup_def create_user_handler_def create_user_def password_is_acceptable_def char_count_def
  user_count_def setup_token_ok_def SETUP_TOKEN_TTL_def user_audit_def is_valid_role_def ROLE_ADMIN_def ROLE_OPERATOR_def
  find_user_def sql_first_def secs_def issue_token_def

lemma us_root_eval: "us_users us_root = [\<lparr>u_id = ''u1'', u_username = ''root'', u_password_hash = ''slong enough password'',
    u_role = ''admin'', u_created_at = 0, u_sessions_gen = 0\<rparr>]" "us_revoked us_root = []"
  by (simp_all add: us_root_def us0_def lib0_def user_ops)

lemma us_two_eval: "us_users us_two = us_users us_root @ [\<lparr>u_id = ''u2'', u_username = ''bob'',
    u_password_hash = ''slong enough password'', u_role = ''operator'', u_created_at = 0, u_sessions_gen = 0\<rparr>]"
    "us_revoked us_two = []"
  by (simp_all add: us_two_def us_root_eval lib0_def user_ops)

lemma root_is_authenticated: "require_user_auth lib0 0 admin0 us_root = Inr (Some (''root'', ''admin''))"
  by (simp add: require_user_auth_def user_protected_def user_count_def us_root_eval admin0_def auth_token_from_headers_def
      verify_token_def lib0_def is_session_revoked_def user_auth_state_def find_user_def sql_first_def ROLE_ADMIN_def
      strip_prefix_def starts_with_def)

lemma us_two_reachable: "reachable fresh_install (user_step lib0) us_two"
proof -
  have "fresh_install us0" by (simp add: fresh_install_def us0_def)
  then have "reachable fresh_install (user_step lib0) us_root"
    unfolding us_root_def by (blast intro: reachable.intros us_setup)
  then show ?thesis unfolding us_two_def by (blast intro: reachable.intros us_create root_is_authenticated)
qed

theorem an_admin_remains_witness:
  "us_users us_two \<noteq> [] \<and> (\<exists>u\<in>set (us_users us_two). u_role u = ROLE_ADMIN)"
  using an_admin_remains[OF us_two_reachable] by (simp add: us_two_eval)

definition us_promoted :: user_state where
  "us_promoted = snd (update_user_handler lib0 0 ''s'' (''root'', ''admin'') ''bob'' (Some ''admin'') None us_two)"

theorem sessions_end_with_change_witness:
  "verify_token lib0 0 ''bob'' us_two = Some (''bob'', ''operator'') \<and> verify_token lib0 0 ''bob'' us_promoted = None"
proof
  show "verify_token lib0 0 ''bob'' us_two = Some (''bob'', ''operator'')"
    by (simp add: verify_token_def lib0_def is_session_revoked_def user_auth_state_def find_user_def us_two_eval us_root_eval
        sql_first_def)
  have "update_user_handler lib0 0 ''s'' (''root'', ''admin'') ''bob'' (Some ''admin'') None us_two = (200, us_promoted)"
    unfolding us_promoted_def
    by (simp add: update_user_handler_def user_auth_state_def us_two_eval us_root_eval user_ops Let_def)
  then show "verify_token lib0 0 ''bob'' us_promoted = None"
    by (rule sessions_end_with_change[where g = 0 and name = "''bob''" and
          c = "\<lparr>jc_sub = ''bob'', jc_exp = 0, jc_iat = 0, jc_gen = 0, jc_jti = ''j'', jc_role = ''operator''\<rparr>"])
      (simp_all add: lib0_def gen_of_def find_user_def user_auth_state_def us_two_eval us_root_eval sql_first_def)
qed

definition us_gone :: user_state where
  "us_gone = snd (delete_user_handler 1 (''root'', ''admin'') ''bob'' us_two)"

definition us_again :: user_state where
  "us_again = snd (create_user_handler lib0 2 ''u3'' ''s'' (''root'', ''admin'') ''bob'' ''another long password'' ''admin'' us_gone)"

lemma us_gone_eval: "us_users us_gone = us_users us_root" "us_revoked us_gone = []"
  "delete_user_handler 1 (''root'', ''admin'') ''bob'' us_two = (200, us_gone)"
  by (simp_all add: us_gone_def delete_user_handler_def delete_user_check_def delete_user_commit_def delete_user_def
      user_auth_state_def sql_count_def us_two_eval us_root_eval user_ops)

theorem deleted_sessions_revive_witness:
  "verify_token lib0 0 ''bob'' us_gone = None \<and> verify_token lib0 0 ''bob'' us_again = Some (''bob'', ''admin'')"
proof
  show "verify_token lib0 0 ''bob'' us_gone = None"
    by (simp add: verify_token_def lib0_def is_session_revoked_def user_auth_state_def find_user_def us_gone_eval us_root_eval
        sql_first_def)
  have "create_user_handler lib0 2 ''u3'' ''s'' (''root'', ''admin'') ''bob'' ''another long password'' ''admin'' us_gone =
      (201, us_again)"
    unfolding us_again_def by (simp add: us_gone_eval us_root_eval user_ops)
  with us_gone_eval(3) show "verify_token lib0 0 ''bob'' us_again = Some (''bob'', ''admin'')"
    by (intro deleted_sessions_revive[where token = "''bob''" and lib = lib0 and us = us_two and
          c = "\<lparr>jc_sub = ''bob'', jc_exp = 0, jc_iat = 0, jc_gen = 0, jc_jti = ''j'', jc_role = ''operator''\<rparr>"])
      (simp_all add: lib0_def is_session_revoked_def us_two_eval)
qed

theorem setup_happens_once_witness:
  "\<exists>code. auth_setup lib0 1 ''u9'' ''s'' ''j9'' ''eve'' ''yet another password'' (Some ''tok'') us_root = (Inl code, us_root)"
proof (rule setup_happens_once)
  show "auth_setup lib0 0 ''u1'' ''s'' ''j1'' ''root'' ''long enough password'' (Some ''tok'') us0 = (Inr ''root'', us_root)"
    by (simp add: us_root_def us0_def lib0_def user_ops)
qed blast

end
