(* ===== verification/Redactor.thy ===== *)
theory Redactor
  imports NodeSink
begin

text \<open>
  The streaming redactor of a node (\<open>node-daemon/src/secret_redactor.rs\<close>): it cuts the output
  of an agent into lines, splits lines that reach the cap, and masks every secret with its base64
  and percent encodings. Bytes are characters; the decoding of UTF-8 with replacement characters,
  which the standard library does, is written out.
\<close>

section \<open>Text of the standard library\<close>

definition byte :: "char \<Rightarrow> nat" where
  "byte c = of_char c"

definition is_cont :: "char \<Rightarrow> bool" where
  "is_cont c \<longleftrightarrow> 128 \<le> byte c \<and> byte c < 192"

text \<open>The first chunk of a byte string: how many bytes it has, and whether they are a character.\<close>

definition second_ok :: "nat \<Rightarrow> char \<Rightarrow> bool" where
  "second_ok a c \<longleftrightarrow> (if a = 0xE0 then 0xA0 else if a = 0xF0 then 0x90 else 0x80) \<le> byte c \<and>
     byte c \<le> (if a = 0xED then 0x9F else if a = 0xF4 then 0x8F else 0xBF)"

definition utf8_width :: "nat \<Rightarrow> nat" where
  "utf8_width a = (if a < 0x80 then 1 else if 0xC2 \<le> a \<and> a \<le> 0xDF then 2 else if 0xE0 \<le> a \<and> a \<le> 0xEF then 3
     else if 0xF0 \<le> a \<and> a \<le> 0xF4 then 4 else 0)"

fun utf8_chunk :: "string \<Rightarrow> nat \<times> bool" where
  "utf8_chunk [] = (0, True)"
| "utf8_chunk (a # cs) =
     (let w = utf8_width (byte a)
      in if w = 0 then (1, False)
         else if w = 1 then (1, True)
         else (case cs of
                 [] \<Rightarrow> (1, False)
               | b # cs1 \<Rightarrow>
                   if \<not> second_ok (byte a) b then (1, False)
                   else if w = 2 then (2, True)
                   else (case cs1 of
                           [] \<Rightarrow> (2, False)
                         | c # cs2 \<Rightarrow>
                             if \<not> is_cont c then (2, False)
                             else if w = 3 then (3, True)
                             else (case cs2 of
                                     [] \<Rightarrow> (3, False)
                                   | d # _ \<Rightarrow> if is_cont d then (4, True) else (3, False)))))"

lemma utf8_chunk_pos: "s \<noteq> [] \<Longrightarrow> 0 < fst (utf8_chunk s)"
  by (cases s) (auto simp: Let_def split: list.split)

definition replacement_char :: string where
  "replacement_char = [CHR 0xEF, CHR 0xBF, CHR 0xBD]"

function from_utf8_lossy :: "string \<Rightarrow> string" where
  "from_utf8_lossy s =
     (if s = [] then []
      else (case utf8_chunk s of (n, ok) \<Rightarrow>
        (if ok then take n s else replacement_char) @ from_utf8_lossy (drop n s)))"
  by pat_completeness auto

termination
proof (relation "measure length")
  fix s :: string and n ok
  assume "s \<noteq> []" "(n, ok) = utf8_chunk s"
  then show "(drop n s, s) \<in> measure length" using utf8_chunk_pos[of s] by (cases "utf8_chunk s") simp
qed simp

declare from_utf8_lossy.simps [simp del]

text \<open>\<open>str::replace\<close>: the leftmost occurrences that do not overlap; an empty pattern is found at
  every character boundary.\<close>

function replace_all :: "string \<Rightarrow> string \<Rightarrow> string \<Rightarrow> string" where
  "replace_all pat to s =
     (if pat = [] then concat (map (\<lambda>c. if is_cont c then [c] else to @ [c]) s) @ to
      else if s = [] then []
      else if prefix pat s then to @ replace_all pat to (drop (length pat) s)
      else hd s # replace_all pat to (tl s))"
  by pat_completeness auto

termination
  by (relation "measure (\<lambda>(from, to, s). length s)") auto

declare replace_all.simps [simp del]

section \<open>Encodings of a secret\<close>

definition TBL :: string where
  "TBL = ''ABCDEFGHIJKLMNOPQRSTUVWXYZabcdefghijklmnopqrstuvwxyz0123456789+/''"

definition sextet :: "nat \<Rightarrow> nat \<Rightarrow> char" where
  "sextet n shift = TBL ! (n div 2 ^ shift mod 64)"

fun base64_encode :: "string \<Rightarrow> string" where
  "base64_encode [] = []"
| "base64_encode [a] = (let n = byte a * 65536 in [sextet n 18, sextet n 12, CHR ''='', CHR ''=''])"
| "base64_encode [a, b] =
     (let n = byte a * 65536 + byte b * 256 in [sextet n 18, sextet n 12, sextet n 6, CHR ''=''])"
| "base64_encode (a # b # c # cs) =
     (let n = byte a * 65536 + byte b * 256 + byte c
      in [sextet n 18, sextet n 12, sextet n 6, sextet n 0] @ base64_encode cs)"

definition hex_digit :: "nat \<Rightarrow> char" where
  "hex_digit n = ''0123456789ABCDEF'' ! n"

definition url_encode :: "string \<Rightarrow> string" where
  "url_encode s = concat (map (\<lambda>b. if is_alnum b \<or> b \<in> set ''-_.~'' then [b]
     else [CHR ''%'', hex_digit (byte b div 16), hex_digit (byte b mod 16)]) s)"

definition MASK :: string where
  "MASK = ''***''"

definition mask_one :: "nat \<Rightarrow> string \<Rightarrow> string \<Rightarrow> string" where
  "mask_one min_len s sec =
     (if min_len \<le> length sec
      then replace_all (url_encode sec) MASK (replace_all (base64_encode sec) MASK (replace_all sec MASK s))
      else s)"

definition mask_secrets :: "string \<Rightarrow> string list \<Rightarrow> nat \<Rightarrow> string" where
  "mask_secrets line secrets min_len = foldl (mask_one min_len) line secrets"

definition mask_line :: "string \<Rightarrow> string list \<Rightarrow> nat \<Rightarrow> string" where
  "mask_line line secrets min_len = mask_secrets (from_utf8_lossy line) secrets min_len"

section \<open>The redactor\<close>

record redactor =
  rd_secrets :: "string list"
  rd_min_len :: nat
  rd_line_cap :: nat
  rd_buf :: string

definition new_redactor :: "string list \<Rightarrow> nat \<Rightarrow> nat \<Rightarrow> redactor" where
  "new_redactor secrets min_len cap = \<lparr>rd_secrets = secrets, rd_min_len = min_len, rd_line_cap = cap, rd_buf = []\<rparr>"

definition overlap_len :: "redactor \<Rightarrow> nat" where
  "overlap_len r = min (fold max (map length (rd_secrets r)) 0) (rd_line_cap r - 1)"

definition newline :: char where
  "newline = CHR 0x0A"

definition newline_pos :: "string \<Rightarrow> nat option" where
  "newline_pos s = (if newline \<in> set s then Some (length (takeWhile (\<lambda>c. c \<noteq> newline) s)) else None)"

definition TRUNCATED :: string where
  "TRUNCATED = ''... [truncated]''"

definition masked :: "redactor \<Rightarrow> string \<Rightarrow> string" where
  "masked r line = mask_line line (rd_secrets r) (rd_min_len r)"

partial_function (option) feed_loop :: "redactor \<Rightarrow> string \<Rightarrow> (string list \<times> string) option" where
  "feed_loop r buf =
     (case newline_pos buf of
        Some nl \<Rightarrow>
          if rd_line_cap r \<le> nl
          then Option.bind (feed_loop r (drop (rd_line_cap r - overlap_len r) buf))
                 (\<lambda>(ls, b). Some ((masked r (take (rd_line_cap r) buf) @ TRUNCATED) # ls, b))
          else Option.bind (feed_loop r (drop (nl + 1) buf)) (\<lambda>(ls, b). Some (masked r (take nl buf) # ls, b))
      | None \<Rightarrow>
          if rd_line_cap r \<le> length buf
          then Option.bind (feed_loop r (drop (rd_line_cap r - overlap_len r) buf))
                 (\<lambda>(ls, b). Some ((masked r (take (rd_line_cap r) buf) @ TRUNCATED) # ls, b))
          else Some ([], buf))"

definition feed :: "string \<Rightarrow> redactor \<Rightarrow> (string list \<times> redactor) option" where
  "feed chunk r = map_option (\<lambda>(ls, b). (ls, r\<lparr>rd_buf := b\<rparr>)) (feed_loop r (rd_buf r @ chunk))"

definition finish :: "redactor \<Rightarrow> string option" where
  "finish r =
     (if rd_buf r \<noteq> []
      then Some (if rd_line_cap r \<le> length (rd_buf r) then masked r (take (rd_line_cap r) (rd_buf r)) @ TRUNCATED
                 else masked r (rd_buf r))
      else None)"

text \<open>The whole stream, as the reader of \<open>event_sink.rs\<close> drives it.\<close>

fun feed_all :: "string list \<Rightarrow> redactor \<Rightarrow> (string list \<times> redactor) option" where
  "feed_all [] r = Some ([], r)"
| "feed_all (c # cs) r =
     Option.bind (feed c r) (\<lambda>(ls, r1). map_option (\<lambda>(ms, r2). (ls @ ms, r2)) (feed_all cs r1))"

definition redact :: "string list \<Rightarrow> redactor \<Rightarrow> string list option" where
  "redact chunks r =
     map_option (\<lambda>(ls, r1). ls @ (case finish r1 of Some l \<Rightarrow> [l] | None \<Rightarrow> [])) (feed_all chunks r)"

section \<open>One cut\<close>

text \<open>What the first round of the loop emits, and what it leaves: the branches with and without a
  newline cut in the same place.\<close>

definition cut :: "redactor \<Rightarrow> string \<Rightarrow> (string \<times> string) option" where
  "cut r buf =
     (let p = length (takeWhile (\<lambda>c. c \<noteq> newline) buf)
      in if rd_line_cap r \<le> p
         then Some (masked r (take (rd_line_cap r) buf) @ TRUNCATED, drop (rd_line_cap r - overlap_len r) buf)
         else if p < length buf then Some (masked r (take p buf), drop (p + 1) buf)
         else None)"

lemma takeWhile_all_iff: "newline \<notin> set buf \<longleftrightarrow> length (takeWhile (\<lambda>c. c \<noteq> newline) buf) = length buf"
  by (induction buf) auto

lemma feed_loop_cut:
  "feed_loop r buf = (case cut r buf of None \<Rightarrow> Some ([], buf)
     | Some (l, rest) \<Rightarrow> Option.bind (feed_loop r rest) (\<lambda>(ls, b). Some (l # ls, b)))"
proof (cases "newline \<in> set buf")
  case True
  then have "length (takeWhile (\<lambda>c. c \<noteq> newline) buf) < length buf"
    using takeWhile_all_iff[of buf] length_takeWhile_le[of _ buf] by (metis le_neq_implies_less)
  then show ?thesis using True by (subst feed_loop.simps) (simp add: newline_pos_def cut_def Let_def)
next
  case False
  then have "length (takeWhile (\<lambda>c. c \<noteq> newline) buf) = length buf" using takeWhile_all_iff by blast
  then show ?thesis using False by (subst feed_loop.simps) (simp add: newline_pos_def cut_def Let_def del: takeWhile_eq_all_conv)
qed

lemma overlap_less: "0 < rd_line_cap r \<Longrightarrow> overlap_len r < rd_line_cap r"
  unfolding overlap_len_def by linarith

lemma cut_shorter: "0 < rd_line_cap r \<Longrightarrow> cut r buf = Some (l, rest) \<Longrightarrow> length rest < length buf"
  using overlap_less[of r] length_takeWhile_le[of "\<lambda>c. c \<noteq> newline" buf]
  by (auto simp: cut_def Let_def split: if_splits)

lemma cut_append:
  assumes "cut r buf = Some (l, rest)"
  shows "cut r (buf @ c) = Some (l, rest @ c)"
proof -
  let ?w = "takeWhile (\<lambda>c. c \<noteq> newline)"
  have le: "length (?w buf) \<le> length buf" by (rule length_takeWhile_le)
  show ?thesis
  proof (cases "newline \<in> set buf")
    case True
    then have "?w (buf @ c) = ?w buf" by (auto intro: takeWhile_append1)
    then show ?thesis using assms le by (auto simp: cut_def Let_def split: if_splits)
  next
    case False
    then have w: "?w buf = buf" by (metis (mono_tags) takeWhile_eq_all_conv)
    then have "?w (buf @ c) = buf @ ?w c" using False by (metis (mono_tags) takeWhile_append2)
    then show ?thesis using assms w by (auto simp: cut_def Let_def split: if_splits)
  qed
qed

section \<open>Termination and chunking\<close>

lemma feed_loop_returns: "0 < rd_line_cap r \<Longrightarrow> \<exists>ls b. feed_loop r buf = Some (ls, b) \<and> cut r b = None"
proof (induction "length buf" arbitrary: buf rule: less_induct)
  case less
  show ?case
  proof (cases "cut r buf")
    case None
    then show ?thesis by (subst feed_loop_cut) simp
  next
    case (Some x)
    obtain l rest where x: "x = (l, rest)" by fastforce
    then obtain ls b where "feed_loop r rest = Some (ls, b)" "cut r b = None"
      using less.hyps[of rest] cut_shorter[OF less.prems] less.prems Some by blast
    then show ?thesis using Some x by (subst feed_loop_cut) simp
  qed
qed

lemma feed_loop_zero_cap:
  assumes "feed_loop r buf = Some y"
  shows "rd_line_cap r \<noteq> 0"
proof (rule feed_loop.raw_induct[OF _ assms, where P = "\<lambda>r buf y. rd_line_cap r \<noteq> 0"])
  fix f r buf and y :: "string list \<times> string"
  assume IH: "\<And>r buf y. f r buf = Some y \<Longrightarrow> rd_line_cap r \<noteq> 0"
    and body: "(case newline_pos buf of
        Some nl \<Rightarrow>
          if rd_line_cap r \<le> nl
          then Option.bind (f r (drop (rd_line_cap r - overlap_len r) buf))
                 (\<lambda>(ls, b). Some ((masked r (take (rd_line_cap r) buf) @ TRUNCATED) # ls, b))
          else Option.bind (f r (drop (nl + 1) buf)) (\<lambda>(ls, b). Some (masked r (take nl buf) # ls, b))
      | None \<Rightarrow>
          if rd_line_cap r \<le> length buf
          then Option.bind (f r (drop (rd_line_cap r - overlap_len r) buf))
                 (\<lambda>(ls, b). Some ((masked r (take (rd_line_cap r) buf) @ TRUNCATED) # ls, b))
          else Some ([], buf)) = Some y"
  from body show "rd_line_cap r \<noteq> 0"
    by (auto simp: bind_eq_Some_conv dest: IH split: option.splits if_splits)
qed

text \<open>Cutting output into lines ends exactly when the cap is positive. With any positive cap the
  loop over the buffer returns, on every input; with a cap of zero, which the environment variable
  of the node allows, it never does.\<close>

theorem feed_returns_iff_cap: "(\<exists>out. feed chunk r = Some out) \<longleftrightarrow> 0 < rd_line_cap r"
proof
  assume "\<exists>out. feed chunk r = Some out"
  then show "0 < rd_line_cap r" using feed_loop_zero_cap by (auto simp: feed_def)
next
  assume "0 < rd_line_cap r"
  from feed_loop_returns[OF this, of "rd_buf r @ chunk"] show "\<exists>out. feed chunk r = Some out"
    by (auto simp: feed_def)
qed

lemma feed_loop_append:
  assumes "feed_loop r buf = Some (ls, b)" "0 < rd_line_cap r"
  shows "feed_loop r (buf @ c) = map_option (\<lambda>(ms, b'). (ls @ ms, b')) (feed_loop r (b @ c))"
  using assms
proof (induction "length buf" arbitrary: buf ls rule: less_induct)
  case less
  show ?case
  proof (cases "cut r buf")
    case None
    then show ?thesis using less.prems(1) feed_loop_cut[of r buf] by (simp add: option.map_ident split_def)
  next
    case (Some x)
    obtain l rest where x: "cut r buf = Some (l, rest)" using Some by (cases x) simp
    then obtain ls' where ls': "feed_loop r rest = Some (ls', b)" "ls = l # ls'"
      using less.prems(1) feed_loop_cut[of r buf] by (auto simp: bind_eq_Some_conv)
    from less.hyps[OF cut_shorter[OF less.prems(2) x] ls'(1) less.prems(2)]
    show ?thesis using cut_append[OF x, of c] ls'(2)
      by (subst feed_loop_cut) (cases "feed_loop r (b @ c)"; auto)
  qed
qed

lemma same_redactor:
  assumes "0 < rd_line_cap r"
  shows "cut (r\<lparr>rd_buf := b\<rparr>) buf = cut r buf" and "feed_loop (r\<lparr>rd_buf := b\<rparr>) buf = feed_loop r buf"
proof -
  have cut: "cut (r\<lparr>rd_buf := b\<rparr>) buf = cut r buf" for buf
    by (simp add: cut_def masked_def overlap_len_def Let_def)
  then show "cut (r\<lparr>rd_buf := b\<rparr>) buf = cut r buf" .
  show "feed_loop (r\<lparr>rd_buf := b\<rparr>) buf = feed_loop r buf"
  proof (induction "length buf" arbitrary: buf rule: less_induct)
    case less
    show ?case
      unfolding feed_loop_cut[of "r\<lparr>rd_buf := b\<rparr>" buf] feed_loop_cut[of r buf] cut
      using less cut_shorter[OF assms] by (auto split: option.split)
  qed
qed

lemma feed_all_concat:
  assumes "0 < rd_line_cap r" "cut r (rd_buf r) = None"
  shows "feed_all chunks r = feed (concat chunks) r"
  using assms
proof (induction chunks arbitrary: r)
  case Nil
  then show ?case by (simp add: feed_def feed_loop_cut)
next
  case (Cons c cs)
  obtain ls b where f: "feed_loop r (rd_buf r @ c) = Some (ls, b)" "cut r b = None"
    using feed_loop_returns[OF Cons.prems(1)] by blast
  have "feed_all cs (r\<lparr>rd_buf := b\<rparr>) = feed (concat cs) (r\<lparr>rd_buf := b\<rparr>)"
    using Cons.IH[of "r\<lparr>rd_buf := b\<rparr>"] Cons.prems(1) f(2) by (simp add: same_redactor)
  then show ?case using f(1) feed_loop_append[OF f(1) Cons.prems(1), of "concat cs"] Cons.prems(1)
    by (simp add: feed_def same_redactor option.map_comp comp_def split_def)
qed

text \<open>Without a line that reaches the cap the redactor masks line by line.\<close>

definition lines_of :: "string \<Rightarrow> string list" where
  "lines_of s = (let ps = split_on newline s in if last ps = [] then butlast ps else ps)"

lemma split_on_newline:
  "split_on d s = (let p = length (takeWhile (\<lambda>c. c \<noteq> d) s)
     in if p < length s then take p s # split_on d (drop (p + 1) s) else [s])"
  by (induction s) (auto simp: Let_def split: list.split)

lemma split_on_neq: "split_on d s \<noteq> []"
  by (cases s) (auto split: list.split)

lemma short_lines:
  assumes "0 < rd_line_cap r" "\<forall>l\<in>set (split_on newline buf). length l < rd_line_cap r"
  shows "feed_loop r buf = Some (map (masked r) (butlast (split_on newline buf)), last (split_on newline buf))"
  using assms(2)
proof (induction "length buf" arbitrary: buf rule: less_induct)
  case less
  let ?p = "length (takeWhile (\<lambda>c. c \<noteq> newline) buf)"
  show ?case
  proof (cases "?p < length buf")
    case True
    then have sp: "split_on newline buf = take ?p buf # split_on newline (drop (?p + 1) buf)"
      by (subst split_on_newline) (simp add: Let_def)
    then have "?p < rd_line_cap r" using less.prems True by auto
    moreover have "feed_loop r (drop (?p + 1) buf) = Some (map (masked r) (butlast (split_on newline (drop (?p + 1) buf))),
        last (split_on newline (drop (?p + 1) buf)))"
      using less.hyps[of "drop (?p + 1) buf"] less.prems True sp by auto
    ultimately show ?thesis unfolding sp using True split_on_neq[of newline "drop (?p + 1) buf"]
      by (subst feed_loop_cut) (simp add: cut_def Let_def)
  next
    case False
    then have sp: "split_on newline buf = [buf]" by (subst split_on_newline) (simp add: Let_def)
    have "?p = length buf" using False length_takeWhile_le[of "\<lambda>c. c \<noteq> newline" buf] by linarith
    then have "cut r buf = None" using less.prems unfolding sp by (simp add: cut_def Let_def)
    then show ?thesis unfolding sp by (subst feed_loop_cut) simp
  qed
qed

lemma redact_chunks:
  assumes "0 < cap"
  shows "redact chunks (new_redactor secrets min_len cap) = redact [concat chunks] (new_redactor secrets min_len cap)"
    and "redact chunks (new_redactor secrets min_len cap) \<noteq> None"
proof -
  let ?r = "new_redactor secrets min_len cap"
  have r: "0 < rd_line_cap ?r" "cut ?r (rd_buf ?r) = None" using assms by (simp_all add: new_redactor_def cut_def)
  have all: "feed_all cs ?r = feed (concat cs) ?r" for cs by (rule feed_all_concat[OF r])
  have "feed (concat chunks) ?r \<noteq> None"
    using feed_loop_returns[OF r(1), of "rd_buf ?r @ concat chunks"] by (auto simp: feed_def)
  then show "redact chunks ?r = redact [concat chunks] ?r" "redact chunks ?r \<noteq> None"
    using all[of chunks] all[of "[concat chunks]"] by (auto simp: redact_def)
qed

lemma redact_ready:
  assumes "0 < cap"
  obtains lines where "redact chunks (new_redactor secrets min_len cap) = Some lines"
    "redact [concat chunks] (new_redactor secrets min_len cap) = Some lines"
  using redact_chunks[OF assms] by (metis not_None_eq)

text \<open>C27: How the output arrives does not matter. For every positive cap the redactor returns, and
  the lines it makes of a stream depend only on its bytes, never on the chunks in which they were
  read; when no line reaches the cap they are the lines of the text, each masked as a whole.\<close>

theorem chunking_is_invisible:
  assumes "0 < cap"
  shows "redact chunks (new_redactor secrets min_len cap) = redact [concat chunks] (new_redactor secrets min_len cap) \<and>
    redact chunks (new_redactor secrets min_len cap) \<noteq> None \<and>
    ((\<forall>l\<in>set (split_on newline (concat chunks)). length l < cap) \<longrightarrow>
     redact chunks (new_redactor secrets min_len cap) =
       Some (map (\<lambda>l. mask_line l secrets min_len) (lines_of (concat chunks))))"
proof -
  let ?r = "new_redactor secrets min_len cap"
  have r: "0 < rd_line_cap ?r" "cut ?r (rd_buf ?r) = None" "rd_buf ?r = []" "masked ?r = (\<lambda>l. mask_line l secrets min_len)"
    using assms by (simp_all add: new_redactor_def cut_def masked_def fun_eq_iff)
  have all: "feed_all cs ?r = feed (concat cs) ?r" for cs by (rule feed_all_concat[OF r(1, 2)])
  have "redact chunks ?r = Some (map (masked ?r) (lines_of (concat chunks)))"
    if "\<forall>l\<in>set (split_on newline (concat chunks)). length l < cap"
  proof -
    let ?ps = "split_on newline (concat chunks)"
    have "feed_all chunks ?r = Some (map (masked ?r) (butlast ?ps), ?r\<lparr>rd_buf := last ?ps\<rparr>)"
      using short_lines[OF r(1), of "concat chunks"] that unfolding all feed_def r(3) by (simp add: new_redactor_def)
    moreover have "finish (?r\<lparr>rd_buf := last ?ps\<rparr>) = (if last ?ps = [] then None else Some (masked ?r (last ?ps)))"
    proof -
      have "length (last ?ps) < cap" using that last_in_set[OF split_on_neq] by blast
      then show ?thesis by (simp add: finish_def new_redactor_def masked_def)
    qed
    ultimately show ?thesis using split_on_neq[of newline "concat chunks"]
      by (simp add: redact_def lines_of_def Let_def) (metis append_butlast_last_id list.simps(8,9) map_append)
  qed
  then show ?thesis using redact_chunks[OF assms] r(4) by simp
qed

section \<open>No secret in a line\<close>

definition displays :: "string \<Rightarrow> string \<Rightarrow> bool" where
  "displays line w \<longleftrightarrow> sublist w line"

definition plain :: "string \<Rightarrow> bool" where
  "plain w \<longleftrightarrow> w \<noteq> [] \<and> CHR ''*'' \<notin> set w"

lemma displays_Cons: "displays (c # s) w \<longleftrightarrow> prefix w (c # s) \<or> displays s w"
  by (auto simp: displays_def sublist_Cons_right)

lemma prefix_mask: "CHR ''*'' \<notin> set w \<Longrightarrow> prefix w (MASK @ s) \<longleftrightarrow> w = []"
  by (cases w) (auto simp: MASK_def)

lemma displays_mask: "plain w \<Longrightarrow> displays (MASK @ s) w \<longleftrightarrow> displays s w"
  using prefix_mask[of w s] by (auto simp: MASK_def plain_def displays_Cons prefix_Cons)

lemma displays_drop: "displays (drop n s) w \<Longrightarrow> displays s w"
  unfolding displays_def by (metis sublist_drop sublist_order.order_trans)

lemma replace_Nil: "replace_all pat to [] = (if pat = [] then to else [])"
  by (simp add: replace_all.simps)

lemma replace_Cons:
  obtains (keep) "replace_all pat to (c # cs) = c # replace_all pat to cs" "pat \<noteq> [] \<Longrightarrow> \<not> prefix pat (c # cs)"
  | (insert) "replace_all pat to (c # cs) = to @ c # replace_all pat to cs" "pat = []"
  | (skip) n where "0 < n" "replace_all pat to (c # cs) = to @ replace_all pat to (drop n (c # cs))" "pat \<noteq> []"
  using replace_all.simps[of pat to "c # cs"] replace_all.simps[of pat to cs]
  by (cases "pat = []"; cases "is_cont c"; cases "prefix pat (c # cs)") auto

text \<open>A masking step displays only what its input displays, and nothing of what it masks.\<close>

lemma replace_prefix: "prefix w (replace_all pat MASK s) \<Longrightarrow> CHR ''*'' \<notin> set w \<Longrightarrow> prefix w s"
proof (induction "length s" arbitrary: s w rule: less_induct)
  case less
  show ?case
  proof (cases s)
    case Nil
    then show ?thesis using less.prems prefix_mask[OF less.prems(2), of "[]"] by (auto simp: replace_Nil split: if_splits)
  next
    case (Cons c cs)
    show ?thesis
    proof (cases rule: replace_Cons[of pat MASK c cs])
      case keep
      then show ?thesis using less.prems less.hyps[of cs "tl w"] Cons by (cases w) auto
    qed (use less.prems prefix_mask[OF less.prems(2)] Cons in auto)
  qed
qed

lemma replace_displays:
  assumes "plain w"
  shows "displays (replace_all pat MASK s) w \<Longrightarrow> displays s w"
proof (induction "length s" arbitrary: s rule: less_induct)
  case less
  have star: "CHR ''*'' \<notin> set w" using assms by (simp add: plain_def)
  show ?case
  proof (cases s)
    case Nil
    then show ?thesis using less.prems displays_mask[OF assms, of "[]"] by (auto simp: replace_Nil split: if_splits)
  next
    case (Cons c cs)
    have rest: "displays cs w" if "displays (replace_all pat MASK cs) w" using that less.hyps[of cs] Cons by simp
    have first: "prefix w (c # cs)" if "prefix w (c # replace_all pat MASK cs)"
      using that replace_prefix[of "tl w" pat cs] star by (cases w) auto
    show ?thesis
    proof (cases rule: replace_Cons[of pat MASK c cs])
      case keep
      then show ?thesis using less.prems Cons first rest by (auto simp: displays_Cons)
    next
      case insert
      then show ?thesis using less.prems Cons first rest displays_mask[OF assms] by (auto simp: displays_Cons)
    next
      case (skip n)
      then have "displays (drop n s) w" using less.prems less.hyps[of "drop n s"] Cons displays_mask[OF assms] by simp
      then show ?thesis by (rule displays_drop)
    qed
  qed
qed

lemma replace_masks:
  assumes "plain w"
  shows "\<not> displays (replace_all w MASK s) w"
proof (induction "length s" arbitrary: s rule: less_induct)
  case less
  have w: "w \<noteq> []" "CHR ''*'' \<notin> set w" using assms by (simp_all add: plain_def)
  show ?case
  proof (cases s)
    case Nil
    then show ?thesis using w by (simp add: replace_Nil displays_def)
  next
    case (Cons c cs)
    show ?thesis
    proof (cases rule: replace_Cons[of w MASK c cs])
      case keep
      then have "\<not> prefix w (replace_all w MASK s)" using replace_prefix[OF _ w(2), of w s] w(1) Cons by blast
      then show ?thesis using keep less.hyps[of cs] Cons by (simp add: displays_Cons)
    next
      case (skip n)
      then show ?thesis using less.hyps[of "drop n s"] displays_mask[OF assms] Cons by simp
    qed (use w in simp)
  qed
qed

lemma mask_one_displays: "plain w \<Longrightarrow> displays (mask_one min_len s sec) w \<Longrightarrow> displays s w"
  by (auto simp: mask_one_def dest: replace_displays split: if_splits)

definition encodings :: "string \<Rightarrow> string list" where
  "encodings sec = [sec, base64_encode sec, url_encode sec]"

lemma mask_one_masks: "plain w \<Longrightarrow> w \<in> set (encodings sec) \<Longrightarrow> min_len \<le> length sec \<Longrightarrow> \<not> displays (mask_one min_len s sec) w"
  by (auto simp: mask_one_def encodings_def dest: replace_displays replace_masks)

lemma foldl_mask_displays: "plain w \<Longrightarrow> displays (foldl (mask_one min_len) s secrets) w \<Longrightarrow> displays s w"
  by (induction secrets arbitrary: s) (auto dest: mask_one_displays)

lemma mask_secrets_masks:
  assumes "plain w" "w \<in> set (encodings sec)" "min_len \<le> length sec" "sec \<in> set secrets"
  shows "\<not> displays (mask_secrets s secrets min_len) w"
proof -
  obtain xs ys where "secrets = xs @ sec # ys" using assms(4) by (meson split_list)
  then show ?thesis
    using foldl_mask_displays[OF assms(1)] mask_one_masks[OF assms(1-3)] by (auto simp: mask_secrets_def)
qed

lemma sextet_char: "sextet n k \<in> set TBL"
proof -
  have "n div 2 ^ k mod 64 < length TBL" by (simp add: TBL_def)
  then show ?thesis unfolding sextet_def by (rule nth_mem)
qed

lemma sextet_plain: "sextet n k \<noteq> CHR ''*''"
  using sextet_char[of n k] by (auto simp: TBL_def)

lemma base64_plain: "s \<noteq> [] \<Longrightarrow> plain (base64_encode s)"
proof (induction s rule: base64_encode.induct)
  case (4 a b c cs)
  then show ?case by (cases "cs = []") (auto simp: plain_def Let_def sextet_plain[symmetric])
qed (auto simp: plain_def Let_def sextet_plain[symmetric])

lemma hex_digit_plain: "n < 16 \<Longrightarrow> hex_digit n \<noteq> CHR ''*''"
proof -
  assume "n < 16"
  then have "hex_digit n \<in> set ''0123456789ABCDEF''" unfolding hex_digit_def by (intro nth_mem) simp
  then show ?thesis by auto
qed

lemma byte_less: "byte c < 256"
  by (simp add: byte_def)

lemma url_plain: "s \<noteq> [] \<Longrightarrow> plain (url_encode s)"
proof -
  assume "s \<noteq> []"
  then have "url_encode s \<noteq> []" by (cases s) (auto simp: url_encode_def)
  moreover have "CHR ''*'' \<notin> set (url_encode s)"
    by (auto simp: url_encode_def is_alnum_def is_digit_def ascii_upper_def ascii_lower_def
        hex_digit_plain[OF less_mult_imp_div_less, of _ 16, simplified, symmetric] byte_less hex_digit_plain[symmetric] split: if_splits)
  ultimately show ?thesis by (simp add: plain_def)
qed

lemma encodings_plain: "plain sec \<Longrightarrow> w \<in> set (encodings sec) \<Longrightarrow> plain w"
  by (auto simp: encodings_def base64_plain url_plain) (auto simp: plain_def base64_plain[unfolded plain_def] url_plain[unfolded plain_def])

text \<open>Where the lines come from: each is a masked piece, perhaps with the marker of a forced split.\<close>

definition line_ok :: "redactor \<Rightarrow> string \<Rightarrow> bool" where
  "line_ok r line \<longleftrightarrow> (\<exists>piece. line = masked r piece \<or> line = masked r piece @ TRUNCATED)"

lemma cut_line: "cut r buf = Some (l, rest) \<Longrightarrow> line_ok r l"
  by (auto simp: cut_def Let_def line_ok_def split: if_splits)

lemma feed_loop_lines:
  assumes "feed_loop r buf = Some (ls, b)" "0 < rd_line_cap r"
  shows "\<forall>l\<in>set ls. line_ok r l"
  using assms
proof (induction "length buf" arbitrary: buf ls rule: less_induct)
  case less
  show ?case
  proof (cases "cut r buf")
    case None
    then show ?thesis using less.prems(1) feed_loop_cut[of r buf] by simp
  next
    case (Some x)
    obtain l rest where x: "cut r buf = Some (l, rest)" using Some by (cases x) simp
    then obtain ls' where ls': "feed_loop r rest = Some (ls', b)" "ls = l # ls'"
      using less.prems(1) feed_loop_cut[of r buf] by (auto simp: bind_eq_Some_conv)
    then show ?thesis using less.hyps[OF cut_shorter[OF less.prems(2) x] ls'(1) less.prems(2)] cut_line[OF x] by simp
  qed
qed

lemma redact_lines:
  assumes "redact chunks (new_redactor secrets min_len cap) = Some ls" "0 < cap" "l \<in> set ls"
  shows "line_ok (new_redactor secrets min_len cap) l"
proof -
  let ?r = "new_redactor secrets min_len cap"
  have r: "0 < rd_line_cap ?r" "cut ?r (rd_buf ?r) = None" using assms(2) by (simp_all add: new_redactor_def cut_def)
  obtain ms b where f: "feed_loop ?r (rd_buf ?r @ concat chunks) = Some (ms, b)"
    "ls = ms @ (case finish (?r\<lparr>rd_buf := b\<rparr>) of Some l \<Rightarrow> [l] | None \<Rightarrow> [])"
    using assms(1) by (auto simp: redact_def feed_all_concat[OF r] feed_def)
  have "line_ok ?r l" if "finish (?r\<lparr>rd_buf := b\<rparr>) = Some l"
    using that by (auto simp: finish_def line_ok_def masked_def split: if_splits)
  then show ?thesis using assms(3) f feed_loop_lines[OF f(1) r(1)] by (auto split: option.splits)
qed

text \<open>C26: No line that leaves the redactor shows a secret. Whatever the stream and its chunks, a
  line is a masked text, perhaps followed by the marker of a forced split, and the masked text
  contains neither the secret nor its base64 or percent encoding, for every secret of at least
  the configured length that has no asterisk of its own.\<close>

theorem no_line_displays_a_secret:
  assumes "redact chunks (new_redactor secrets min_len cap) = Some ls" "0 < cap" "line \<in> set ls"
    and "sec \<in> set secrets" "min_len \<le> length sec" "plain sec"
  shows "\<exists>text. (line = text \<or> line = text @ TRUNCATED) \<and> (\<forall>w\<in>set (encodings sec). \<not> displays text w)"
proof -
  obtain piece where "line = mask_line piece secrets min_len \<or> line = mask_line piece secrets min_len @ TRUNCATED"
    using redact_lines[OF assms(1-3)] by (auto simp: line_ok_def masked_def new_redactor_def)
  moreover have "\<not> displays (mask_line piece secrets min_len) w" if "w \<in> set (encodings sec)" for w
    unfolding mask_line_def by (rule mask_secrets_masks[OF encodings_plain[OF assms(6) that] that assms(5, 4)])
  ultimately show ?thesis by blast
qed

section \<open>Forced splits\<close>

text \<open>The overlap keeps a secret that a forced split cuts in two whole for the next piece.\<close>

lemma straddling_secret_is_kept:
  assumes "cut r buf = Some (l, rest)" "rd_line_cap r \<le> length (takeWhile (\<lambda>c. c \<noteq> newline) buf)"
    and "prefix sec (drop p buf)" "p \<le> rd_line_cap r" "rd_line_cap r \<le> p + length sec" "length sec \<le> overlap_len r"
  shows "displays rest sec"
proof -
  have rest: "rest = drop (rd_line_cap r - overlap_len r) buf"
    using assms(1, 2) by (simp add: cut_def Let_def)
  have "drop p buf = drop (p - (rd_line_cap r - overlap_len r)) rest"
    using assms(5, 6) by (simp add: rest)
  then show ?thesis using assms(3) by (metis displays_def displays_drop prefix_imp_sublist)
qed

lemma lossy_ascii: "\<forall>c\<in>set s. byte c < 128 \<Longrightarrow> from_utf8_lossy s = s"
proof (induction s)
  case (Cons c cs)
  then have "utf8_chunk (c # cs) = (1, True)" by (simp add: utf8_width_def)
  then show ?case using Cons by (subst from_utf8_lossy.simps) simp
qed (simp add: from_utf8_lossy.simps)

lemma replace_eval:
  "replace_all (p # ps) to [] = []"
  "replace_all (p # ps) to (c # cs) =
     (if prefix (p # ps) (c # cs) then to @ replace_all (p # ps) to (drop (length ps) cs)
      else c # replace_all (p # ps) to cs)"
  by (subst replace_all.simps, simp)+

lemma secret123_encodings: "base64_encode ''secret123'' = ''c2VjcmV0MTIz''" "url_encode ''secret123'' = ''secret123''"
  by (simp_all add: byte_def sextet_def TBL_def Let_def url_encode_def is_alnum_def is_digit_def ascii_lower_def ascii_upper_def)

lemmas mask_eval = masked_def mask_line_def mask_secrets_def mask_one_def secret123_encodings lossy_ascii replace_eval
  byte_def MASK_def

lemma mask_samples:
  "mask_line ''key=secret123'' [''secret123''] 6 = ''key=***''"
  "mask_line ''xxxxxxxxsecret12'' [''secret123''] 6 = ''xxxxxxxxsecret12''"
  "mask_line ''xsecret123'' [''secret123''] 6 = ''x***''"
  "mask_line ''xxxxxc2VjcmV0MTI'' [''secret123''] 6 = ''xxxxxc2VjcmV0MTI''"
  "mask_line ''VjcmV0MTIz'' [''secret123''] 6 = ''VjcmV0MTIz''"
  by (simp_all add: mask_eval del: base64_encode.simps)

lemmas feed_eval = redact_def feed_def feed_loop.simps newline_pos_def newline_def overlap_len_def new_redactor_def finish_def
  masked_def mask_samples TRUNCATED_def

text \<open>But the piece before the split still shows the beginning of the secret, here all of it but the
  last byte; and an encoding, which is longer than the overlap, leaks in full: the two pieces
  together show all its bytes.\<close>

lemma secret_prefix_leaks:
  "redact [''xxxxxxxxsecret123''] (new_redactor [''secret123''] 6 16) =
     Some [''xxxxxxxxsecret12... [truncated]'', ''x***'']"
  by (simp add: feed_eval)

lemma encoded_secret_leaks:
  "redact [''xxxxx'' @ base64_encode ''secret123''] (new_redactor [''secret123''] 6 16) =
     Some [''xxxxxc2VjcmV0MTI... [truncated]'', ''VjcmV0MTIz'']"
  unfolding secret123_encodings by (simp add: feed_eval)

theorem no_line_displays_a_secret_witness:
  "\<exists>text. (''key=***'' = text \<or> ''key=***'' = text @ TRUNCATED) \<and> (\<forall>w\<in>set (encodings ''secret123''). \<not> displays text w)"
proof -
  have "redact [''key=sec'', ''ret123''] (new_redactor [''secret123''] 6 100) = Some [''key=***'']"
    by (simp add: feed_eval)
  from no_line_displays_a_secret[OF this, of "''key=***''" "''secret123''"] show ?thesis by (simp add: plain_def)
qed

theorem chunking_is_invisible_witness:
  "redact [''key=sec'', ''ret123'', [CHR 0x0A]] (new_redactor [''secret123''] 6 100) = Some [''key=***'']"
  using chunking_is_invisible[of 100 "[''key=sec'', ''ret123'', [CHR 0x0A]]" "[''secret123'']" 6]
  by (auto simp: lines_of_def newline_def mask_samples simp del: base64_encode.simps)
end
