(* ===== verification/CommandGuard.thy ===== *)
theory CommandGuard
  imports Redactor
begin

text \<open>
  The command guard of a node (\<open>node-daemon/src/command_guard.rs\<close>): a small shell lexer, deny
  patterns matched against the words of every command of a chain, and an optional allow list.
  Commands are ASCII here; white space beyond ASCII, which also separates words in the code, is
  left out.
\<close>

section \<open>The lexer\<close>

datatype guard_decision = Allowed | DeniedMatch | DeniedNotAllowlisted

fun guard_reason :: "guard_decision \<Rightarrow> string" where
  "guard_reason Allowed = ''allowed''"
| "guard_reason DeniedMatch = ''denylist match''"
| "guard_reason DeniedNotAllowlisted = ''not in allowlist''"

record segment =
  sg_tokens :: "string list"
  sg_piped_to_next :: bool

record lexer =
  lx_out :: "segment list"
  lx_tokens :: "string list"
  lx_cur :: string
  lx_has_token :: bool
  lx_in_single :: bool
  lx_in_double :: bool

definition new_lexer :: lexer where
  "new_lexer = \<lparr>lx_out = [], lx_tokens = [], lx_cur = [], lx_has_token = False, lx_in_single = False, lx_in_double = False\<rparr>"

definition flush_token :: "lexer \<Rightarrow> lexer" where
  "flush_token lx =
     (if lx_has_token lx then lx\<lparr>lx_tokens := lx_tokens lx @ [lx_cur lx], lx_cur := [], lx_has_token := False\<rparr> else lx)"

definition flush_segment :: "bool \<Rightarrow> lexer \<Rightarrow> lexer" where
  "flush_segment piped lx =
     (if lx_tokens lx \<noteq> []
      then lx\<lparr>lx_out := lx_out lx @ [\<lparr>sg_tokens = lx_tokens lx, sg_piped_to_next = piped\<rparr>], lx_tokens := []\<rparr>
      else lx)"

definition push_char :: "char \<Rightarrow> lexer \<Rightarrow> lexer" where
  "push_char c lx = lx\<lparr>lx_cur := lx_cur lx @ [c], lx_has_token := True\<rparr>"

definition unquoted :: "lexer \<Rightarrow> bool" where
  "unquoted lx \<longleftrightarrow> \<not> lx_in_single lx \<and> \<not> lx_in_double lx"

text \<open>One round of the loop over the characters: the new state, and the characters left after a
  possible second one was consumed.\<close>

definition lex_char :: "lexer \<Rightarrow> char \<Rightarrow> string \<Rightarrow> lexer \<times> string" where
  "lex_char lx c cs =
     (if c = CHR 0x5C \<and> \<not> lx_in_single lx
      then (case cs of [] \<Rightarrow> (lx, []) | d # ds \<Rightarrow> (push_char d lx, ds))
      else if c = CHR 0x27 \<and> \<not> lx_in_double lx
      then (lx\<lparr>lx_in_single := \<not> lx_in_single lx, lx_has_token := True\<rparr>, cs)
      else if c = CHR 0x22 \<and> \<not> lx_in_single lx
      then (lx\<lparr>lx_in_double := \<not> lx_in_double lx, lx_has_token := True\<rparr>, cs)
      else if c = newline \<and> unquoted lx then (flush_segment False (flush_token lx), cs)
      else if is_ws c \<and> unquoted lx then (flush_token lx, cs)
      else if c = CHR ''|'' \<and> unquoted lx
      then (if starts_with cs ''|'' then (flush_segment False (flush_token lx), drop 1 cs)
            else (flush_segment True (flush_token lx), cs))
      else if c = CHR ''&'' \<and> unquoted lx
      then (flush_segment False (flush_token lx), if starts_with cs ''&'' then drop 1 cs else cs)
      else if c = CHR '';'' \<and> unquoted lx then (flush_segment False (flush_token lx), cs)
      else (push_char c lx, cs))"

lemma lex_char_shorter: "length (snd (lex_char lx c cs)) \<le> length cs"
  by (auto simp: lex_char_def split: list.split)

function lex_from :: "lexer \<Rightarrow> string \<Rightarrow> lexer" where
  "lex_from lx [] = lx"
| "lex_from lx (c # cs) = lex_from (fst (lex_char lx c cs)) (snd (lex_char lx c cs))"
  by pat_completeness auto

termination
  by (relation "measure (\<lambda>(lx, cs). length cs)") (auto simp: le_imp_less_Suc lex_char_shorter case_prod_beta)

definition split_segments :: "string \<Rightarrow> segment list" where
  "split_segments cmd = lx_out (flush_segment False (flush_token (lex_from new_lexer cmd)))"

section \<open>Matching\<close>

definition normalize_token :: "string \<Rightarrow> string" where
  "normalize_token token =
     (if 2 < length token \<and> starts_with token ''-'' \<and> \<not> starts_with token ''--''
      then CHR ''-'' # sort_key byte (drop 1 token) else token)"

definition tokenize :: "string \<Rightarrow> string list" where
  "tokenize cmd = map normalize_token (concat (map sg_tokens (split_segments cmd)))"

definition tokenize_patterns :: "string list \<Rightarrow> string list list" where
  "tokenize_patterns patterns = filter (\<lambda>t. t \<noteq> []) (map tokenize patterns)"

definition basename :: "string \<Rightarrow> string" where
  "basename token = last (split_on (CHR ''/'') token)"

definition token_matches :: "string \<Rightarrow> string \<Rightarrow> bool" where
  "token_matches pat tok \<longleftrightarrow>
     (if pat = tok then True
      else if pat = ''/''
      then (let rest = dropWhile (\<lambda>c. c = CHR ''/'') tok
            in starts_with tok ''/'' \<and> length (split_on (CHR ''/'') rest) = 1 \<and> rest \<noteq> [])
      else if ends_with pat ''/'' \<or> ends_with pat ''.'' \<or> CHR ''='' \<in> set pat then starts_with tok pat
      else False)"

definition WRAPPERS :: "string list" where
  "WRAPPERS = [''sudo'', ''doas'', ''env'', ''nohup'', ''time'', ''command'', ''exec'', ''xargs'', ''nice'', ''ionice'', ''stdbuf'']"

definition is_option :: "string \<Rightarrow> bool" where
  "is_option t \<longleftrightarrow> starts_with t ''-''"

function command_word :: "string list \<Rightarrow> string option" where
  "command_word [] = None"
| "command_word (t # ts) =
     (if basename t \<in> set WRAPPERS then command_word (dropWhile is_option ts) else Some t)"
  by pat_completeness auto

termination
  by (relation "measure length") (auto simp: le_imp_less_Suc length_dropWhile_le)

definition segment_matches :: "string list \<Rightarrow> segment \<Rightarrow> bool" where
  "segment_matches pattern seg \<longleftrightarrow>
     (case pattern of
        [] \<Rightarrow> False
      | first # rest \<Rightarrow>
          (case command_word (sg_tokens seg) of
             None \<Rightarrow> False
           | Some cmd \<Rightarrow>
               (basename (normalize_token cmd) = first \<or> token_matches first (normalize_token cmd)) \<and>
               list_all (\<lambda>p. list_ex (\<lambda>t. token_matches p (normalize_token t)) (sg_tokens seg)) rest))"

definition prefix_matches :: "string list \<Rightarrow> segment \<Rightarrow> bool" where
  "prefix_matches pattern seg \<longleftrightarrow>
     pattern \<noteq> [] \<and> length pattern \<le> length (sg_tokens seg) \<and>
     list_all (\<lambda>(p, t). token_matches p (normalize_token t) \<or> basename (normalize_token t) = p) (zip pattern (sg_tokens seg))"

definition interpreters :: "string list" where
  "interpreters = [''sh'', ''bash'', ''zsh'', ''dash'', ''ksh'', ''fish'', ''python'', ''python3'', ''perl'', ''ruby'', ''node'']"

definition pipes_into_an_interpreter :: "segment list \<Rightarrow> nat \<Rightarrow> bool" where
  "pipes_into_an_interpreter segments i \<longleftrightarrow>
     i < length segments \<and> sg_piped_to_next (segments ! i) \<and>
     (case sg_tokens (segments ! i) of [] \<Rightarrow> False | cmd # _ \<Rightarrow> basename cmd \<in> {''curl'', ''wget''}) \<and>
     i + 1 < length segments \<and>
     (case sg_tokens (segments ! (i + 1)) of [] \<Rightarrow> False | target # _ \<Rightarrow> basename target \<in> set interpreters)"

definition RAW_DENY :: "string list" where
  "RAW_DENY = ['':(){'']"

definition default_deny :: "string list" where
  "default_deny = [''rm -rf /'', ''rm -rf /*'', ''git push --force'', ''git push -f'', ''git reset --hard'', ''dd of=/dev'',
     ''mkfs.'', ''chmod -R 777 /'']"

section \<open>The guard\<close>

record command_guard =
  cg_deny :: "string list list"
  cg_allow :: "string list list"

definition new_guard :: "string list \<Rightarrow> string list \<Rightarrow> command_guard" where
  "new_guard deny allow =
     \<lparr>cg_deny = tokenize_patterns (if deny = [] then default_deny else deny), cg_allow = tokenize_patterns allow\<rparr>"

definition decide :: "command_guard \<Rightarrow> string \<Rightarrow> guard_decision" where
  "decide g cmd =
     (if list_ex (\<lambda>pat. sublist pat (to_ascii_lowercase cmd)) RAW_DENY then DeniedMatch
      else
        (let segments = split_segments cmd
         in if segments = [] then Allowed
            else if list_ex (\<lambda>i. list_ex (\<lambda>pat. segment_matches pat (segments ! i)) (cg_deny g) \<or>
                       pipes_into_an_interpreter segments i) [0..<length segments]
            then DeniedMatch
            else if cg_allow g \<noteq> [] \<and> \<not> list_all (\<lambda>seg. list_ex (\<lambda>pat. prefix_matches pat seg) (cg_allow g)) segments
            then DeniedNotAllowlisted
            else Allowed))"

section \<open>Quoting, chains and wrappers\<close>

text \<open>The ways to write a command line. A word is a sequence of pieces, each a bare character, an
  escaped one, a single-quoted or a double-quoted string; blanks stand between the words, and may
  stand before the first and after the last; every command but the last is closed by a separator.\<close>

datatype separator = Semi | Newline | Amp | AndAnd | OrOr | Pipe | End

fun sep_text :: "separator \<Rightarrow> string" where
  "sep_text Semi = '';''"
| "sep_text Newline = [newline]"
| "sep_text Amp = ''&''"
| "sep_text AndAnd = ''&&''"
| "sep_text OrOr = ''||''"
| "sep_text Pipe = ''|''"
| "sep_text End = []"

datatype piece = Bare char | Escaped char | Single string | Double "(bool \<times> char) list"

definition blank :: "char \<Rightarrow> bool" where
  "blank c \<longleftrightarrow> is_ws c \<and> c \<noteq> newline"

definition bare :: "char \<Rightarrow> bool" where
  "bare c \<longleftrightarrow> \<not> is_ws c \<and> c \<notin> {newline, CHR 0x5C, CHR 0x27, CHR 0x22, CHR ''|'', CHR ''&'', CHR '';''}"

definition double_text :: "(bool \<times> char) list \<Rightarrow> string" where
  "double_text ds = concat (map (\<lambda>(esc, c). if esc then [CHR 0x5C, c] else [c]) ds)"

fun piece_text :: "piece \<Rightarrow> string" where
  "piece_text (Bare c) = [c]"
| "piece_text (Escaped c) = [CHR 0x5C, c]"
| "piece_text (Single t) = CHR 0x27 # t @ [CHR 0x27]"
| "piece_text (Double ds) = CHR 0x22 # double_text ds @ [CHR 0x22]"

fun piece_value :: "piece \<Rightarrow> string" where
  "piece_value (Bare c) = [c]"
| "piece_value (Escaped c) = [c]"
| "piece_value (Single t) = t"
| "piece_value (Double ds) = map snd ds"

fun piece_ok :: "piece \<Rightarrow> bool" where
  "piece_ok (Bare c) \<longleftrightarrow> bare c"
| "piece_ok (Escaped c) \<longleftrightarrow> True"
| "piece_ok (Single t) \<longleftrightarrow> CHR 0x27 \<notin> set t"
| "piece_ok (Double ds) \<longleftrightarrow> list_all (\<lambda>(esc, c). esc \<or> c \<notin> {CHR 0x5C, CHR 0x22}) ds"

record written =
  wr_before :: string
  wr_words :: "(piece list \<times> string) list"
  wr_sep :: separator

definition word_value :: "piece list \<Rightarrow> string" where
  "word_value w = concat (map piece_value w)"

definition words_of :: "written \<Rightarrow> string list" where
  "words_of c = map (word_value \<circ> fst) (wr_words c)"

definition words_text :: "(piece list \<times> string) list \<Rightarrow> string" where
  "words_text ws = concat (map (\<lambda>(w, blanks). concat (map piece_text w) @ blanks) ws)"

definition render :: "written list \<Rightarrow> string" where
  "render cmds = concat (map (\<lambda>c. wr_before c @ words_text (wr_words c) @ sep_text (wr_sep c)) cmds)"

definition word_ok :: "piece list \<times> string \<Rightarrow> bool" where
  "word_ok w \<longleftrightarrow> fst w \<noteq> [] \<and> list_all piece_ok (fst w) \<and> list_all blank (snd w)"

definition written_ok :: "written \<Rightarrow> bool" where
  "written_ok c \<longleftrightarrow> list_all blank (wr_before c) \<and> wr_words c \<noteq> [] \<and> list_all word_ok (wr_words c) \<and>
     list_all (\<lambda>w. snd w \<noteq> []) (butlast (wr_words c))"

definition line_ok :: "written list \<Rightarrow> bool" where
  "line_ok cmds \<longleftrightarrow> list_all written_ok cmds \<and> list_all (\<lambda>c. wr_sep c \<noteq> End) (butlast cmds)"

text \<open>Each piece adds its value to the token, whatever the state of the token was.\<close>

definition add_text :: "string \<Rightarrow> lexer \<Rightarrow> lexer" where
  "add_text t lx = lx\<lparr>lx_cur := lx_cur lx @ t, lx_has_token := True\<rparr>"

lemma add_text_simps [simp]:
  "unquoted (add_text t lx) = unquoted lx" "add_text u (add_text t lx) = add_text (t @ u) lx"
  "lx_in_single (add_text t lx) = lx_in_single lx" "lx_in_double (add_text t lx) = lx_in_double lx"
  by (simp_all add: add_text_def unquoted_def)

lemma add_nothing: "lx_has_token lx \<Longrightarrow> add_text [] lx = lx"
  by (cases lx) (simp add: add_text_def)

lemma push_char_add: "push_char c lx = add_text [c] lx"
  by (simp add: push_char_def add_text_def)

lemma lex_single:
  "lx_in_single lx \<Longrightarrow> \<not> lx_in_double lx \<Longrightarrow> CHR 0x27 \<notin> set t \<Longrightarrow> lx_has_token lx \<Longrightarrow>
   lex_from lx (t @ rest) = lex_from (add_text t lx) rest"
proof (induction t arbitrary: lx)
  case Nil
  then show ?case by (simp add: add_nothing)
next
  case (Cons c t)
  then have "lex_from lx ((c # t) @ rest) = lex_from (add_text [c] lx) (t @ rest)"
    by (auto simp: unquoted_def lex_char_def push_char_add)
  then show ?case using Cons by (simp add: add_text_def)
qed

lemma lex_double:
  "\<not> lx_in_single lx \<Longrightarrow> lx_in_double lx \<Longrightarrow> piece_ok (Double ds) \<Longrightarrow> lx_has_token lx \<Longrightarrow>
   lex_from lx (double_text ds @ rest) = lex_from (add_text (map snd ds) lx) rest"
proof (induction ds arbitrary: lx)
  case Nil
  then show ?case by (simp add: add_nothing double_text_def)
next
  case (Cons d ds)
  obtain esc c where d: "d = (esc, c)" by fastforce
  have "lex_from lx (double_text (d # ds) @ rest) = lex_from (add_text [c] lx) (double_text ds @ rest)"
    using Cons.prems d by (auto simp: unquoted_def lex_char_def push_char_add double_text_def)
  then show ?case using Cons.prems Cons.IH[of "add_text [c] lx"] d by (simp add: add_text_def)
qed

lemma lex_piece:
  assumes "unquoted lx" "piece_ok p"
  shows "lex_from lx (piece_text p @ rest) = lex_from (add_text (piece_value p) lx) rest"
proof (cases p)
  case (Bare c)
  then show ?thesis using assms by (auto simp: lex_char_def bare_def push_char_add)
next
  case (Escaped c)
  then show ?thesis using assms by (auto simp: lex_char_def unquoted_def push_char_add)
next
  case (Single t)
  let ?lx = "lx\<lparr>lx_in_single := True, lx_has_token := True\<rparr>"
  have "lex_from lx (piece_text p @ rest) = lex_from ?lx (t @ CHR 0x27 # rest)"
    using assms(1) Single by (simp add: unquoted_def lex_char_def)
  also have "\<dots> = lex_from (add_text t ?lx) (CHR 0x27 # rest)"
    using assms Single by (intro lex_single) (simp_all add: unquoted_def)
  also have "\<dots> = lex_from (add_text t lx) rest"
    using assms(1) by (cases lx) (simp add: unquoted_def lex_char_def add_text_def)
  finally show ?thesis using Single by simp
next
  case (Double ds)
  let ?lx = "lx\<lparr>lx_in_double := True, lx_has_token := True\<rparr>"
  have "lex_from lx (piece_text p @ rest) = lex_from ?lx (double_text ds @ CHR 0x22 # rest)"
    using assms(1) Double by (simp add: unquoted_def lex_char_def)
  also have "\<dots> = lex_from (add_text (map snd ds) ?lx) (CHR 0x22 # rest)"
    using assms Double by (intro lex_double) (simp_all add: unquoted_def)
  also have "\<dots> = lex_from (add_text (map snd ds) lx) rest"
    using assms(1) by (cases lx) (simp add: unquoted_def lex_char_def add_text_def)
  finally show ?thesis using Double by simp
qed

lemma lex_word:
  assumes "unquoted lx" "list_all piece_ok w" "w \<noteq> []"
  shows "lex_from lx (concat (map piece_text w) @ rest) = lex_from (add_text (word_value w) lx) rest"
  using assms
proof (induction w arbitrary: lx)
  case (Cons p w)
  then show ?case
    using lex_piece[of lx p "concat (map piece_text w) @ rest"]
    by (cases "w = []") (simp_all add: word_value_def)
qed simp

text \<open>Between two commands the lexer holds no token.\<close>

definition at_rest :: "lexer \<Rightarrow> bool" where
  "at_rest lx \<longleftrightarrow> unquoted lx \<and> lx_cur lx = [] \<and> \<not> lx_has_token lx"

lemma flush_token_twice [simp]: "flush_token (flush_token lx) = flush_token lx" "unquoted (flush_token lx) = unquoted lx"
  by (simp_all add: flush_token_def unquoted_def)

lemma flush_at_rest: "at_rest lx \<Longrightarrow> flush_token lx = lx"
  by (simp add: flush_token_def at_rest_def)

lemma lex_blanks:
  "unquoted lx \<Longrightarrow> list_all blank bs \<Longrightarrow>
   lex_from lx (bs @ rest) = lex_from (if bs = [] then lx else flush_token lx) rest"
  by (induction bs arbitrary: lx)
    (auto simp: lex_char_def blank_def is_ws_def newline_def unquoted_def flush_token_def)

lemma lex_words:
  assumes "at_rest lx" "ws \<noteq> []" "list_all word_ok ws" "list_all (\<lambda>w. snd w \<noteq> []) (butlast ws)"
  shows "\<exists>lx'. lex_from lx (words_text ws @ rest) = lex_from lx' rest \<and> unquoted lx' \<and>
    flush_token lx' = lx\<lparr>lx_tokens := lx_tokens lx @ map (word_value \<circ> fst) ws\<rparr>"
  using assms
proof (induction ws arbitrary: lx)
  case (Cons wb ws)
  obtain w b where wb: "wb = (w, b)" by fastforce
  let ?lx = "add_text (word_value w) lx"
  have w: "unquoted ?lx" "list_all blank b" "list_all piece_ok w" "w \<noteq> []" "unquoted lx"
    using Cons.prems wb by (simp_all add: at_rest_def word_ok_def)
  have fl: "flush_token ?lx = lx\<lparr>lx_tokens := lx_tokens lx @ [word_value w]\<rparr>"
    using Cons.prems(1) by (cases lx) (simp add: flush_token_def at_rest_def add_text_def)
  have eq: "lex_from lx (words_text (wb # ws) @ rest) =
      lex_from (if b = [] then ?lx else flush_token ?lx) (words_text ws @ rest)"
    using lex_word[OF w(5, 3, 4)] lex_blanks[OF w(1, 2)] by (simp add: words_text_def wb)
  show ?case
  proof (cases "ws = []")
    case True
    have "flush_token (if b = [] then ?lx else flush_token ?lx) = flush_token ?lx" by simp
    then show ?thesis using True eq fl w(1) wb
      by (intro exI[of _ "if b = [] then ?lx else flush_token ?lx"]) (simp add: words_text_def unquoted_def)
  next
    case False
    then have b: "b \<noteq> []" using Cons.prems(4) wb by simp
    let ?lx' = "lx\<lparr>lx_tokens := lx_tokens lx @ [word_value w]\<rparr>"
    have "at_rest ?lx'" using Cons.prems(1) by (simp add: at_rest_def unquoted_def)
    then obtain lx' where "lex_from ?lx' (words_text ws @ rest) = lex_from lx' rest" "unquoted lx'"
      "flush_token lx' = ?lx'\<lparr>lx_tokens := lx_tokens ?lx' @ map (word_value \<circ> fst) ws\<rparr>"
      using Cons.IH[of ?lx'] Cons.prems(3, 4) False by auto
    then show ?thesis using eq b fl wb by (intro exI[of _ lx']) simp
  qed
qed simp

lemma lex_separator:
  assumes "unquoted lx" "rest = [] \<or> hd rest \<notin> {CHR ''|'', CHR ''&''}" "sep \<noteq> End"
  shows "lex_from lx (sep_text sep @ rest) = lex_from (flush_segment (sep = Pipe) (flush_token lx)) rest"
  using assms by (cases sep; cases rest) (auto simp: lex_char_def newline_def is_ws_def starts_with_def unquoted_def)

lemma piece_start: "piece_ok p \<Longrightarrow> piece_text p \<noteq> [] \<and> hd (piece_text p) \<notin> {CHR ''|'', CHR ''&''}"
  by (cases p) (auto simp: bare_def)

lemma written_start:
  assumes "written_ok c"
  shows "wr_before c @ words_text (wr_words c) \<noteq> [] \<and> hd (wr_before c @ words_text (wr_words c) @ rest) \<notin> {CHR ''|'', CHR ''&''}"
proof -
  obtain p w b ws where ws: "wr_words c = (p # w, b) # ws" "piece_ok p"
    using assms by (cases "wr_words c"; cases "fst (hd (wr_words c))") (auto simp: written_ok_def word_ok_def)
  have "hd (words_text (wr_words c) @ rest) \<notin> {CHR ''|'', CHR ''&''}" "words_text (wr_words c) \<noteq> []"
    using piece_start[OF ws(2)] by (auto simp: words_text_def ws(1))
  then show ?thesis using assms by (cases "wr_before c") (auto simp: written_ok_def blank_def is_ws_def)
qed

lemma render_start:
  assumes "list_all written_ok cmds"
  shows "render cmds = [] \<or> hd (render cmds) \<notin> {CHR ''|'', CHR ''&''}"
proof (cases cmds)
  case (Cons c cs)
  then show ?thesis using assms written_start[of c "sep_text (wr_sep c) @ render cs"] by (simp add: render_def)
qed (simp add: render_def)

definition segment_of :: "written \<Rightarrow> segment" where
  "segment_of c = \<lparr>sg_tokens = words_of c, sg_piped_to_next = (wr_sep c = Pipe)\<rparr>"

lemma lex_render:
  assumes "at_rest lx" "lx_tokens lx = []" "line_ok cmds"
  shows "flush_segment False (flush_token (lex_from lx (render cmds))) = lx\<lparr>lx_out := lx_out lx @ map segment_of cmds\<rparr>"
  using assms
proof (induction cmds arbitrary: lx)
  case Nil
  then show ?case by (simp add: render_def flush_at_rest flush_segment_def)
next
  case (Cons c cmds)
  have c: "list_all blank (wr_before c)" "wr_words c \<noteq> []" "list_all word_ok (wr_words c)"
    "list_all (\<lambda>w. snd w \<noteq> []) (butlast (wr_words c))"
    using Cons.prems(3) by (simp_all add: line_ok_def written_ok_def)
  have start: "lex_from lx (render (c # cmds)) = lex_from lx (words_text (wr_words c) @ sep_text (wr_sep c) @ render cmds)"
    using lex_blanks[OF _ c(1), of lx] flush_at_rest[OF Cons.prems(1)] Cons.prems(1) by (simp add: render_def at_rest_def)
  obtain lx' where lx': "lex_from lx (render (c # cmds)) = lex_from lx' (sep_text (wr_sep c) @ render cmds)" "unquoted lx'"
    "flush_token lx' = lx\<lparr>lx_tokens := words_of c\<rparr>"
    using lex_words[OF Cons.prems(1) c(2-4)] Cons.prems(2) unfolding start words_of_def by fastforce
  have fl: "flush_segment p (flush_token lx') = lx\<lparr>lx_out := lx_out lx @ [\<lparr>sg_tokens = words_of c, sg_piped_to_next = p\<rparr>]\<rparr>" for p
    using c(2) Cons.prems(2) by (cases lx) (simp add: lx'(3) flush_segment_def words_of_def)
  show ?case
  proof (cases "wr_sep c = End")
    case True
    then have "cmds = []" using Cons.prems(3) by (cases cmds) (simp_all add: line_ok_def)
    then show ?thesis using lx'(1) True fl by (simp add: render_def segment_of_def)
  next
    case False
    let ?lx = "lx\<lparr>lx_out := lx_out lx @ [segment_of c]\<rparr>"
    have "list_all written_ok cmds" using Cons.prems(3) by (simp add: line_ok_def)
    then have "lex_from lx (render (c # cmds)) = lex_from ?lx (render cmds)"
      unfolding lx'(1) using lex_separator[OF lx'(2) render_start False] fl by (simp add: segment_of_def)
    moreover have "at_rest ?lx" "lx_tokens ?lx = []" "line_ok cmds"
      using Cons.prems by (simp_all add: at_rest_def unquoted_def line_ok_def split: if_splits)
    ultimately show ?thesis using Cons.IH[of ?lx] by simp
  qed
qed

text \<open>The lexer reads back what was written.\<close>

lemma split_render: "line_ok cmds \<Longrightarrow> split_segments (render cmds) = map segment_of cmds"
  using lex_render[of new_lexer cmds] by (simp add: split_segments_def new_lexer_def at_rest_def unquoted_def)

definition wrapped :: "(string \<times> string list) list \<Rightarrow> string list \<Rightarrow> string list" where
  "wrapped ws ts = concat (map (\<lambda>(w, os). w # os) ws) @ ts"

definition wrappers_ok :: "(string \<times> string list) list \<Rightarrow> bool" where
  "wrappers_ok ws \<longleftrightarrow> list_all (\<lambda>(w, os). basename w \<in> set WRAPPERS \<and> \<not> is_option w \<and> list_all is_option os) ws"

lemma dropWhile_options: "list_all is_option os \<Longrightarrow> rest = [] \<or> \<not> is_option (hd rest) \<Longrightarrow> dropWhile is_option (os @ rest) = rest"
  by (induction os) (auto simp: dropWhile_eq_self_iff)

lemma command_word_wrapped:
  assumes "wrappers_ok ws" "basename c \<notin> set WRAPPERS" "\<not> is_option c"
  shows "command_word (wrapped ws (c # args)) = Some c"
  using assms(1)
proof (induction ws)
  case Nil
  then show ?case using assms(2) by (simp add: wrapped_def)
next
  case (Cons b ws)
  obtain w os where b: "b = (w, os)" by fastforce
  have "\<not> is_option (hd (wrapped ws (c # args)))"
    using Cons.prems assms(3) by (cases ws) (auto simp: wrapped_def wrappers_ok_def)
  then have "dropWhile is_option (os @ wrapped ws (c # args)) = wrapped ws (c # args)"
    using Cons.prems b by (intro dropWhile_options) (auto simp: wrappers_ok_def)
  then show ?case using Cons b by (simp add: wrapped_def wrappers_ok_def)
qed

lemma decide_denies:
  assumes "seg \<in> set (split_segments cmd)" "pat \<in> set (cg_deny g)" "segment_matches pat seg"
  shows "decide g cmd = DeniedMatch"
proof -
  obtain i where i: "i < length (split_segments cmd)" "split_segments cmd ! i = seg"
    using assms(1) by (auto simp: in_set_conv_nth)
  then have "list_ex (\<lambda>i. list_ex (\<lambda>pat. segment_matches pat (split_segments cmd ! i)) (cg_deny g) \<or>
      pipes_into_an_interpreter (split_segments cmd) i) [0..<length (split_segments cmd)]"
    using assms(2, 3) by (auto simp: list_ex_iff intro!: bexI[of _ i])
  then show ?thesis using assms(1) by (auto simp: decide_def Let_def)
qed

text \<open>C23: A denied command cannot hide behind its spelling. In whatever place of a chain it
  stands, with any separators and blanks, with its words plain, escaped, quoted or pieced together
  from all three, with a path before the program and its arguments in any order, behind wrapper
  programs that are given dash options alone: when the program and the words of a deny pattern are
  among the words of one command, the guard refuses the line. An option with a value of its own
  (\<open>sudo -u root\<close>), an assignment after \<open>env\<close> and a command inside a substitution or another
  shell's argument are not seen through (\<open>guard_evasions\<close>).\<close>

theorem denied_command_cannot_hide:
  assumes "line_ok cmds" "cmd \<in> set cmds" "words_of cmd = wrapped ws (c # args)"
    and "wrappers_ok ws" "basename c \<notin> set WRAPPERS" "\<not> is_option c"
    and "first # rest \<in> set (cg_deny g)" "basename c = first \<or> token_matches first c"
    and "\<forall>p\<in>set rest. \<exists>t\<in>set (words_of cmd). token_matches p (normalize_token t)"
  shows "decide g (render cmds) = DeniedMatch"
proof -
  have "normalize_token c = c" using assms(6) by (simp add: normalize_token_def is_option_def)
  then have "segment_matches (first # rest) (segment_of cmd)"
    using assms(3, 8, 9) command_word_wrapped[OF assms(4-6)]
    by (simp add: segment_matches_def segment_of_def list_all_iff list_ex_iff)
  moreover have "segment_of cmd \<in> set (split_segments (render cmds))"
    unfolding split_render[OF assms(1)] using assms(2) by force
  ultimately show ?thesis using decide_denies[OF _ assms(7)] by blast
qed

text \<open>With an allow list, every command of an accepted line is covered by an entry.\<close>

lemma allowed_chain_is_covered:
  assumes "decide g cmd = Allowed" "cg_allow g \<noteq> []" "seg \<in> set (split_segments cmd)"
  shows "\<exists>pat\<in>set (cg_allow g). prefix_matches pat seg"
  using assms by (auto simp: decide_def Let_def list_all_iff list_ex_iff split: if_splits)

section \<open>Forms the guard misses\<close>

definition default_guard :: command_guard where
  "default_guard = new_guard [] []"

lemma default_guard_eval:
  "default_guard = \<lparr>cg_deny = [[''rm'', ''-fr'', ''/''], [''rm'', ''-fr'', ''/*''], [''git'', ''push'', ''--force''],
     [''git'', ''push'', ''-f''], [''git'', ''reset'', ''--hard''], [''dd'', ''of=/dev''], [''mkfs.''],
     [''chmod'', ''-R'', ''777'', ''/'']], cg_allow = []\<rparr>"
  by code_simp

text \<open>The value of a wrapper's option is taken for the command, so the example of the comment on
  \<open>command_word\<close> is not seen through; flags given one by one or in a larger cluster are not the
  cluster of the pattern, a trailing slash makes a directory under the root a deeper path, and a
  command inside a substitution or handed to another shell is not looked at.\<close>

lemma guard_evasions:
  "decide default_guard ''sudo rm -rf /'' = DeniedMatch"
  "decide default_guard ''sudo -u root rm -rf /'' = Allowed"
  "decide default_guard ''env A=1 rm -rf /'' = Allowed"
  "decide default_guard ''rm -r -f /'' = Allowed"
  "decide default_guard ''rm -rfv /'' = Allowed"
  "decide default_guard ''rm -rf /etc'' = DeniedMatch"
  "decide default_guard ''rm -rf /etc/'' = Allowed"
  "decide default_guard ''echo $(rm -rf /)'' = Allowed"
  "decide default_guard (''bash -c '' @ CHR 0x27 # ''rm -rf /'' @ [CHR 0x27]) = Allowed"
  unfolding default_guard_eval by code_simp+

text \<open>A line with a plain command, then one with its words spelt in every way.\<close>

definition plain :: "string \<Rightarrow> piece list" where
  "plain t = map Bare t"

definition demo_line :: "written list" where
  "demo_line = [\<lparr>wr_before = [], wr_words = [(plain ''ls'', '' '')], wr_sep = AndAnd\<rparr>,
     \<lparr>wr_before = '' '', wr_words = [(plain ''sudo'', '' ''), (plain ''-n'', '' ''), (plain ''/bin/'' @ [Escaped CHR ''r'', Single ''m''], '' ''),
        ([Double [(False, CHR ''/'')]], '' ''), (plain ''-fr'', [])], wr_sep = End\<rparr>]"

lemma demo_line_text: "render demo_line = ''ls && sudo -n /bin/'' @ CHR 0x5C # ''r'' @ CHR 0x27 # ''m'' @ CHR 0x27 # '' '' @ CHR 0x22 # ''/'' @ CHR 0x22 # '' -fr''"
  by (simp add: render_def demo_line_def plain_def words_text_def double_text_def)

theorem denied_command_cannot_hide_witness: "decide default_guard (render demo_line) = DeniedMatch"
  by (rule denied_command_cannot_hide[where cmd = "last demo_line" and ws = "[(''sudo'', [''-n''])]" and c = "''/bin/rm''" and
        args = "[''/'', ''-fr'']" and first = "''rm''" and rest = "[''-fr'', ''/'']"])
    (simp_all add: demo_line_def plain_def default_guard_eval line_ok_def written_ok_def word_ok_def words_of_def word_value_def
      blank_def bare_def is_ws_def newline_def wrapped_def wrappers_ok_def WRAPPERS_def is_option_def basename_def
      starts_with_def token_matches_def normalize_token_def byte_def)

end
