(* ===== verification/StreamReader.thy ===== *)
theory StreamReader
  imports CommandGuard
begin

text \<open>
  How a node reads the output of an agent (\<open>read_stream\<close> and \<open>emit_line_masked\<close> of
  \<open>node-daemon/src/event_sink.rs\<close>): every masked line becomes an event, tool calls go through the
  command guard, and a refusal is latched for the supervisor. With it the translation of one of
  the adapters (\<open>adapters/src/bin/adapter-codex.rs\<close>), which writes those lines. The JSON reader and
  the conversion of a cost in dollars to cents are arguments.
\<close>

section \<open>Events on the wire\<close>

fun as_str :: "json \<Rightarrow> string option" where
  "as_str (JStr s) = Some s"
| "as_str _ = None"

definition str_field :: "json \<Rightarrow> string \<Rightarrow> string option" where
  "str_field v k = Option.bind (json_get v k) as_str"

datatype event_kind =
  KPlan | KToolCall | KToolResult | KFileChange | KPermissionRequest | KUsage | KHandoff | KCancel | KStatus | KLog
| KProgress | KResult | KError | KOther string

definition event_kind_of :: "string \<Rightarrow> event_kind" where
  "event_kind_of s =
     (if s = ''plan'' then KPlan else if s = ''tool_call'' then KToolCall else if s = ''tool_result'' then KToolResult
      else if s = ''file_change'' then KFileChange else if s = ''permission_request'' then KPermissionRequest
      else if s = ''usage'' then KUsage else if s = ''handoff'' then KHandoff else if s = ''cancel'' then KCancel
      else if s = ''status'' then KStatus else if s = ''log'' then KLog else if s = ''progress'' then KProgress
      else if s = ''result'' then KResult else if s = ''error'' then KError else KOther s)"

fun event_kind_name :: "event_kind \<Rightarrow> string" where
  "event_kind_name KPlan = ''plan''"
| "event_kind_name KToolCall = ''tool_call''"
| "event_kind_name KToolResult = ''tool_result''"
| "event_kind_name KFileChange = ''file_change''"
| "event_kind_name KPermissionRequest = ''permission_request''"
| "event_kind_name KUsage = ''usage''"
| "event_kind_name KHandoff = ''handoff''"
| "event_kind_name KCancel = ''cancel''"
| "event_kind_name KStatus = ''status''"
| "event_kind_name KLog = ''log''"
| "event_kind_name KProgress = ''progress''"
| "event_kind_name KResult = ''result''"
| "event_kind_name KError = ''error''"
| "event_kind_name (KOther s) = s"

fun kind_event_type :: "event_kind \<Rightarrow> event_type" where
  "kind_event_type KPlan = EvtStatus"
| "kind_event_type KHandoff = EvtStatus"
| "kind_event_type KStatus = EvtStatus"
| "kind_event_type KCancel = EvtStatus"
| "kind_event_type KToolCall = EvtTool"
| "kind_event_type KToolResult = EvtTool"
| "kind_event_type KFileChange = EvtArtifact"
| "kind_event_type KPermissionRequest = EvtStdout"
| "kind_event_type KLog = EvtStdout"
| "kind_event_type KUsage = EvtMetric"
| "kind_event_type KProgress = EvtMetric"
| "kind_event_type KResult = EvtResult"
| "kind_event_type KError = EvtError"
| "kind_event_type (KOther s) = EvtStdout"

definition to_event_type :: "string \<Rightarrow> event_type" where
  "to_event_type t =
     (if t = ''log'' then EvtStdout else if t = ''tool_call'' then EvtTool else if t = ''file_change'' then EvtArtifact
      else if t = ''progress'' then EvtMetric else if t = ''result'' then EvtResult else if t = ''error'' then EvtError
      else EvtStdout)"

text \<open>The derived readers of the two structures: an object with the fields, or an array of them in order.\<close>

record envelope =
  ee_version :: "64 word"
  ee_kind :: event_kind
  ee_payload :: json
  ee_raw_ref :: "string option"

definition make_envelope :: "json \<Rightarrow> json \<Rightarrow> json \<Rightarrow> json \<Rightarrow> envelope option" where
  "make_envelope version kind payload raw_ref =
     (case (version, kind) of
        (JU64 n, JStr k) \<Rightarrow>
          if n < 256
          then (case raw_ref of
                  JNull \<Rightarrow> Some \<lparr>ee_version = n, ee_kind = event_kind_of k, ee_payload = payload, ee_raw_ref = None\<rparr>
                | JStr r \<Rightarrow> Some \<lparr>ee_version = n, ee_kind = event_kind_of k, ee_payload = payload, ee_raw_ref = Some r\<rparr>
                | _ \<Rightarrow> None)
          else None
      | _ \<Rightarrow> None)"

fun envelope_of_json :: "json \<Rightarrow> envelope option" where
  "envelope_of_json (JObj fs) =
     (case (map_of fs ''version'', map_of fs ''kind'', map_of fs ''payload'') of
        (Some v, Some k, Some p) \<Rightarrow> make_envelope v k p (case map_of fs ''raw_ref'' of Some r \<Rightarrow> r | None \<Rightarrow> JNull)
      | _ \<Rightarrow> None)"
| "envelope_of_json (JArr xs) =
     (case xs of [v, k, p] \<Rightarrow> make_envelope v k p JNull | [v, k, p, r] \<Rightarrow> make_envelope v k p r | _ \<Rightarrow> None)"
| "envelope_of_json _ = None"

fun adapter_event_of_json :: "json \<Rightarrow> (string \<times> json) option" where
  "adapter_event_of_json (JObj fs) =
     (case map_of fs ''type'' of
        Some (JStr t) \<Rightarrow> Some (t, case map_of fs ''payload'' of Some p \<Rightarrow> p | None \<Rightarrow> JNull)
      | _ \<Rightarrow> None)"
| "adapter_event_of_json (JArr xs) =
     (case xs of [JStr t] \<Rightarrow> Some (t, JNull) | [JStr t, p] \<Rightarrow> Some (t, p) | _ \<Rightarrow> None)"
| "adapter_event_of_json _ = None"

section \<open>Reading a stream\<close>

text \<open>A line takes at most two pushes, each with the surroundings of its event and of a notice.\<close>

type_synonym push_envs = "push_env \<times> push_env"

record stream_env =
  se_parse :: "string \<Rightarrow> json option"
  se_show :: "json \<Rightarrow> string"
  se_cfg :: outbox_cfg

definition push_in :: "stream_env \<Rightarrow> push_envs \<Rightarrow> event_type \<Rightarrow> json \<Rightarrow> sink \<Rightarrow> sink" where
  "push_in se e ty payload sk = push (se_show se) (se_cfg se) (fst e) (snd e) ty payload sk"

definition tool_command :: "json \<Rightarrow> string option" where
  "tool_command payload =
     (case str_field payload ''input'' of Some c \<Rightarrow> Some c | None \<Rightarrow> str_field payload ''tool'')"

definition forward_event ::
    "stream_env \<Rightarrow> push_envs \<times> push_envs \<Rightarrow> command_guard \<Rightarrow> bool \<Rightarrow> bool \<Rightarrow> event_type \<Rightarrow> json \<Rightarrow> sink \<Rightarrow> sink" where
  "forward_event se e g is_plan is_tool_call ty payload sk0 =
     (let sk = (if is_plan then (case str_field payload ''text'' of Some t \<Rightarrow> note_plan t sk0 | None \<Rightarrow> sk0) else sk0);
          sk1 = push_in se (fst e) ty payload sk
      in case (if is_tool_call then tool_command payload else None) of
           None \<Rightarrow> note_adapter_event sk1
         | Some cmd \<Rightarrow>
             (let decision = decide g cmd
              in if decision = Allowed then note_adapter_event sk1
                 else note_adapter_event (note_guard_block cmd (guard_reason decision)
                   (push_in se (snd e) EvtError
                     (JObj [(''kind'', JStr ''guard_blocked''), (''command'', JStr cmd),
                            (''reason'', JStr (guard_reason decision)), (''enforced'', JBool True)]) sk1))))"

definition emit_line_masked ::
    "stream_env \<Rightarrow> push_envs \<times> push_envs \<Rightarrow> string \<Rightarrow> command_guard \<Rightarrow> string
      \<Rightarrow> string list option \<times> sink \<Rightarrow> string list option \<times> sink" where
  "emit_line_masked se e stream g line rs =
     (case rs of (raw, sk) \<Rightarrow>
        (map_option (\<lambda>ls. ls @ [line]) raw,
         let s = from_utf8_lossy line
         in case Option.bind (se_parse se s) envelope_of_json of
              Some env \<Rightarrow>
                forward_event se e g (ee_kind env = KPlan) (ee_kind env = KToolCall) (kind_event_type (ee_kind env))
                  (ee_payload env) sk
            | None \<Rightarrow>
                (case Option.bind (se_parse se s) adapter_event_of_json of
                   Some (t, payload) \<Rightarrow>
                     forward_event se e g (t = ''plan'') (t = ''tool_call'') (to_event_type t) payload sk
                 | None \<Rightarrow>
                     note_adapter_event (push_in se (fst e) (if stream = ''stderr'' then EvtStderr else EvtStdout)
                       (JObj [(''text'', JStr s)]) sk))))"

fun emit_all ::
    "stream_env \<Rightarrow> (nat \<Rightarrow> push_envs \<times> push_envs) \<Rightarrow> string \<Rightarrow> command_guard \<Rightarrow> nat \<Rightarrow> string list
      \<Rightarrow> string list option \<times> sink \<Rightarrow> string list option \<times> sink" where
  "emit_all se es stream g n [] rs = rs"
| "emit_all se es stream g n (l # ls) rs = emit_all se es stream g (Suc n) ls (emit_line_masked se (es n) stream g l rs)"

fun read_chunks ::
    "stream_env \<Rightarrow> (nat \<Rightarrow> push_envs \<times> push_envs) \<Rightarrow> string \<Rightarrow> command_guard \<Rightarrow> nat \<Rightarrow> string list \<Rightarrow> redactor
      \<Rightarrow> string list option \<times> sink \<Rightarrow> (string list option \<times> sink) option" where
  "read_chunks se es stream g n [] r rs =
     Some (case finish r of Some l \<Rightarrow> emit_line_masked se (es n) stream g l rs | None \<Rightarrow> rs)"
| "read_chunks se es stream g n (c # cs) r rs =
     Option.bind (feed c r)
       (\<lambda>(ls, r1). read_chunks se es stream g (n + length ls) cs r1 (emit_all se es stream g n ls rs))"

definition read_stream ::
    "stream_env \<Rightarrow> (nat \<Rightarrow> push_envs \<times> push_envs) \<Rightarrow> nat \<Rightarrow> nat \<Rightarrow> string \<Rightarrow> string list \<Rightarrow> command_guard \<Rightarrow> string list
      \<Rightarrow> string list option \<times> sink \<Rightarrow> (string list option \<times> sink) option" where
  "read_stream se es min_len line_cap stream secrets g chunks rs =
     read_chunks se es stream g 0 chunks (new_redactor secrets min_len line_cap) rs"

section \<open>The latch\<close>

lemma event_kind_roundtrip: "event_kind_of (event_kind_name k) = k \<longleftrightarrow> (\<forall>s. k = KOther s \<longrightarrow> event_kind_of s = KOther s)"
  by (cases k) (auto simp: event_kind_of_def)

lemma emit_all_append:
  "emit_all se es stream g n (xs @ ys) rs = emit_all se es stream g (n + length xs) ys (emit_all se es stream g n xs rs)"
  by (induction xs arbitrary: n rs) simp_all

text \<open>The reader emits the lines of the redactor, in order.\<close>

lemma read_chunks_lines:
  "read_chunks se es stream g n chunks r rs =
     map_option (\<lambda>ls. emit_all se es stream g n ls rs) (redact chunks r)"
proof (induction chunks arbitrary: n r rs)
  case Nil
  then show ?case by (simp add: redact_def split: option.split)
next
  case (Cons c cs)
  show ?case
    by (cases "feed c r") (auto simp: Cons redact_def option.map_comp comp_def split_def emit_all_append)
qed

definition refusal :: "stream_env \<Rightarrow> command_guard \<Rightarrow> string \<Rightarrow> (string \<times> string) option" where
  "refusal se g line =
     (let s = from_utf8_lossy line;
          call = (case Option.bind (se_parse se s) envelope_of_json of
                    Some env \<Rightarrow> if ee_kind env = KToolCall then Some (ee_payload env) else None
                  | None \<Rightarrow>
                      (case Option.bind (se_parse se s) adapter_event_of_json of
                         Some (t, payload) \<Rightarrow> if t = ''tool_call'' then Some payload else None
                       | None \<Rightarrow> None))
      in case Option.bind call tool_command of
           Some cmd \<Rightarrow> if decide g cmd = Allowed then None else Some (cmd, guard_reason (decide g cmd))
         | None \<Rightarrow> None)"

lemma notice_guard_block: "sk_guard_block (emit_notice sh cfg pe ty payload sk) = sk_guard_block sk"
  by (simp add: emit_notice_def reserve_def spool_def buffer_def Let_def split_def)

lemma sink_parts_guard_block:
  "sk_guard_block (snd (count_usage ty payload sk)) = sk_guard_block sk"
  "sk_guard_block (snd (reserve sh ty payload sk)) = sk_guard_block sk"
  "sk_guard_block (snd (spool cfg pe ev sk)) = sk_guard_block sk"
  "sk_guard_block (buffer ev sk) = sk_guard_block sk"
  "sk_guard_block (drop_event sh cfg pe payload sk) = sk_guard_block sk"
  "sk_guard_block (emit_spool_full_error sh cfg pe sk) = sk_guard_block sk"
  by (simp_all add: count_usage_def metric_delta_def reserve_def spool_def buffer_def drop_event_def emit_truncated_notice_def
      emit_spool_full_error_def notice_guard_block Let_def split_def)

lemma push_guard_block [simp]: "sk_guard_block (push_in se e ty payload sk) = sk_guard_block sk"
proof -
  obtain p sk0 where p: "count_usage ty payload sk = (p, sk0)" by fastforce
  obtain ev sk1 where ev: "reserve (se_show se) ty p sk0 = (ev, sk1)" by fastforce
  obtain r sk2 where r: "spool (se_cfg se) (fst e) ev sk1 = (r, sk2)" by fastforce
  have "sk_guard_block sk0 = sk_guard_block sk" "sk_guard_block sk1 = sk_guard_block sk" "sk_guard_block sk2 = sk_guard_block sk"
    using sink_parts_guard_block(1)[of ty payload sk] sink_parts_guard_block(2)[of "se_show se" ty p sk0]
      sink_parts_guard_block(3)[of "se_cfg se" "fst e" ev sk1] p ev r by simp_all
  then show ?thesis
    by (simp add: push_in_def push_def p ev r sink_parts_guard_block split: sum.split push_error.split)
qed

lemma note_guard_block_small [simp]:
  "sk_guard_block (note_adapter_event sk) = sk_guard_block sk"
  "sk_guard_block (note_plan t sk) = sk_guard_block sk"
  "sk_guard_block (note_guard_block c r sk) = (case sk_guard_block sk of Some b \<Rightarrow> Some b | None \<Rightarrow> Some (c, r))"
  by (auto simp: note_adapter_event_def note_plan_def note_guard_block_def split: option.split)

lemma emit_line_block:
  "sk_guard_block (snd (emit_line_masked se e stream g line rs)) =
     (case sk_guard_block (snd rs) of Some b \<Rightarrow> Some b | None \<Rightarrow> refusal se g line)"
  by (cases rs)
    (auto simp: emit_line_masked_def refusal_def forward_event_def Let_def split: option.split prod.split)

lemma emit_all_block:
  "sk_guard_block (snd (emit_all se es stream g n ls rs)) =
     (case sk_guard_block (snd rs) of Some b \<Rightarrow> Some b
      | None \<Rightarrow> (case List.map_filter (refusal se g) ls of [] \<Rightarrow> None | b # _ \<Rightarrow> Some b))"
  by (induction ls arbitrary: n rs) (auto simp: emit_line_block List.map_filter_simps split: option.split)

text \<open>C24: The first refused command is latched, and nothing else is. After the whole output of an
  agent was read, in whatever chunks, the latch that makes the supervisor kill the attempt holds
  what it held before, or else the command and reason of the first line whose tool call the guard
  refuses; it is empty exactly when no line has such a call.\<close>

theorem first_refusal_is_latched:
  assumes "0 < line_cap"
  shows "\<exists>lines raw' sk'. redact [concat chunks] (new_redactor secrets min_len line_cap) = Some lines \<and>
    read_stream se es min_len line_cap stream secrets g chunks (raw, sk) = Some (raw', sk') \<and>
    raw' = map_option (\<lambda>old. old @ lines) raw \<and>
    sk_guard_block sk' = (case sk_guard_block sk of Some b \<Rightarrow> Some b
      | None \<Rightarrow> (case List.map_filter (refusal se g) lines of [] \<Rightarrow> None | b # _ \<Rightarrow> Some b))"
proof -
  let ?r = "new_redactor secrets min_len line_cap"
  obtain lines where lines: "redact chunks ?r = Some lines" "redact [concat chunks] ?r = Some lines"
    using redact_ready[OF assms] by metis
  have raw: "fst (emit_all se es stream g n ls rs) = map_option (\<lambda>old. old @ ls) (fst rs)" for n ls rs
    by (induction ls arbitrary: n rs) (auto simp: emit_line_masked_def option.map_comp comp_def split_def option.map_ident)
  obtain raw' sk' where e: "emit_all se es stream g 0 lines (raw, sk) = (raw', sk')" by fastforce
  have "read_stream se es min_len line_cap stream secrets g chunks (raw, sk) = Some (raw', sk')"
    by (simp add: read_stream_def read_chunks_lines lines e)
  then show ?thesis
    using lines(2) raw[of 0 lines "(raw, sk)"] emit_all_block[of se es stream g 0 lines "(raw, sk)"] e by auto
qed

end
