(* ===== verification/AdapterCodex.thy ===== *)
theory AdapterCodex
  imports StreamReader
begin

text \<open>
  The translation of the Codex adapter (\<open>adapters/src/bin/adapter-codex.rs\<close>) and the plan blocks of
  \<open>adapters/src/lib.rs\<close>, and what the command guard of the node makes of the events it writes.
\<close>

section \<open>Plan blocks\<close>

definition strip_cr :: "string \<Rightarrow> string" where
  "strip_cr l = (if ends_with l [CHR 0x0D] then butlast l else l)"

definition str_lines :: "string \<Rightarrow> string list" where
  "str_lines s = (let ps = split_on newline s in map strip_cr (butlast ps) @ (if last ps = [] then [] else [last ps]))"

definition fence :: string where
  "fence = replicate 3 (CHR 0x60)"

fun plan_lines :: "bool \<Rightarrow> string \<Rightarrow> string list \<Rightarrow> string list" where
  "plan_lines in_plan cur [] = []"
| "plan_lines in_plan cur (l # ls) =
     (let t = trim l
      in if \<not> in_plan \<and> (t = fence @ ''plan'' \<or> starts_with t (fence @ ''plan '')) then plan_lines True [] ls
         else if in_plan \<and> t = fence then trim cur # plan_lines False cur ls
         else if in_plan then plan_lines True ((if cur \<noteq> [] then cur @ [newline] else cur) @ l) ls
         else plan_lines in_plan cur ls)"

definition plan_blocks :: "string \<Rightarrow> string list" where
  "plan_blocks text = filter (\<lambda>p. p \<noteq> []) (plan_lines False [] (str_lines text))"

section \<open>Translation\<close>

fun as_i64 :: "json \<Rightarrow> int option" where
  "as_i64 (JU64 n) = (if unat n < 2 ^ 63 then Some (int (unat n)) else None)"
| "as_i64 (JNumber s) =
     (case s of
        [] \<Rightarrow> None
      | c # ds \<Rightarrow>
          if c = CHR ''-'' \<and> ds \<noteq> [] \<and> hd ds \<noteq> CHR ''0''
          then (case digits_val 0 ds of Some n \<Rightarrow> if n \<le> 2 ^ 63 then Some (- int n) else None | None \<Rightarrow> None)
          else None)"
| "as_i64 _ = None"

definition event :: "string \<Rightarrow> (string \<times> json) list \<Rightarrow> json" where
  "event ty payload = JObj [(''type'', JStr ty), (''payload'', JObj payload)]"

definition str_or :: "json \<Rightarrow> string \<Rightarrow> string \<Rightarrow> string" where
  "str_or v k d = (case str_field v k of Some s \<Rightarrow> s | None \<Rightarrow> d)"

definition translate_item :: "json \<Rightarrow> bool \<Rightarrow> string \<Rightarrow> json list \<times> bool \<times> string" where
  "translate_item item saw_error last_msg =
     (case str_field item ''type'' of
        None \<Rightarrow> ([], saw_error, last_msg)
      | Some t \<Rightarrow>
          if t = ''agent_message''
          then (let text = str_or item ''text'' []
                in (map (\<lambda>p. event ''plan'' [(''text'', JStr p)]) (plan_blocks text) @ [event ''log'' [(''text'', JStr text)]],
                    saw_error, text))
          else if t = ''command_execution''
          then (let cmd = str_or item ''command'' [];
                    exit_json = (case json_get item ''exit_code'' of Some v \<Rightarrow> v | None \<Rightarrow> JNull);
                    exit_code = as_i64 exit_json
                in ([event ''tool_call'' [(''name'', JStr ''shell''), (''input'', JObj [(''command'', JStr cmd)]),
                      (''exit_code'', if exit_code = None then JNull else exit_json)]],
                    saw_error \<or> (case exit_code of Some c \<Rightarrow> c \<noteq> 0 | None \<Rightarrow> False), last_msg))
          else if t = ''file_change''
          then ([event ''file_change'' [(''kind'', case json_get item ''kind'' of Some k \<Rightarrow> k | None \<Rightarrow> JNull)]], saw_error, last_msg)
          else if t = ''reasoning''
          then (let text = str_or item ''text'' []
                in (if text \<noteq> [] then [event ''log'' [(''text'', JStr text)]] else [], saw_error, last_msg))
          else ([], saw_error, last_msg))"

definition turn_tokens :: "json \<Rightarrow> 64 word" where
  "turn_tokens v =
     (case json_get v ''usage'' of
        Some usage \<Rightarrow> u64_field usage ''input_tokens'' + u64_field usage ''output_tokens'' +
          u64_field usage ''cached_input_tokens'' + u64_field usage ''reasoning_output_tokens''
      | None \<Rightarrow> 0)"

text \<open>The floating point field \<open>cost_usd\<close>, as the rounded number of cents, is an argument.\<close>

definition codex_translate ::
    "(string \<Rightarrow> json option) \<Rightarrow> (json \<Rightarrow> 64 word option) \<Rightarrow> string \<Rightarrow> bool \<Rightarrow> string \<Rightarrow> json list \<times> bool \<times> string" where
  "codex_translate parse_json cents line saw_error last_msg =
     (case parse_json line of
        None \<Rightarrow> ([event ''log'' [(''text'', JStr line)]], saw_error, last_msg)
      | Some v \<Rightarrow>
          (let t = str_or v ''type'' []
           in if t = ''item.completed''
              then translate_item (case json_get v ''item'' of Some i \<Rightarrow> i | None \<Rightarrow> JNull) saw_error last_msg
              else if t = ''turn.completed''
              then (let tokens = turn_tokens v
                    in (case Option.bind (json_get v ''cost_usd'') cents of
                          Some c \<Rightarrow> [event ''progress'' [(''tokens'', JU64 tokens), (''cost_cents'', JU64 c)]]
                        | None \<Rightarrow> if 0 < tokens then [event ''progress'' [(''tokens'', JU64 tokens)]] else [],
                        saw_error, last_msg))
              else if t = ''error''
              then ([event ''error'' [(''message'', JStr (str_or v ''message'' line))]], True, last_msg)
              else if t \<in> {''thread.started'', ''turn.started'', ''item.started'', ''item.delta''}
              then ([], saw_error, last_msg)
              else ([event ''log'' [(''text'', JStr line)]], saw_error, last_msg)))"

section \<open>The guard does not see the commands\<close>

text \<open>An event of the adapter is never an envelope, and a tool call of it has an object as input.\<close>

definition unguarded :: "json \<Rightarrow> bool" where
  "unguarded ev \<longleftrightarrow> (\<exists>ty fs. ev = event ty fs \<and> (ty = ''tool_call'' \<longrightarrow> tool_command (JObj fs) = None))"

lemma unguarded_refusal: "unguarded ev \<Longrightarrow> se_parse se (from_utf8_lossy line) = Some ev \<Longrightarrow> refusal se g line = None"
  by (auto simp: unguarded_def refusal_def event_def Let_def)

lemma unguarded_event:
  "ty \<noteq> ''tool_call'' \<Longrightarrow> unguarded (event ty fs)"
  "unguarded (event ''tool_call'' [(''name'', n), (''input'', JObj i), (''exit_code'', x)])"
proof -
  show "ty \<noteq> ''tool_call'' \<Longrightarrow> unguarded (event ty fs)" by (auto simp: unguarded_def)
  have "tool_command (JObj [(''name'', n), (''input'', JObj i), (''exit_code'', x)]) = None"
    by (simp add: tool_command_def str_field_def)
  then show "unguarded (event ''tool_call'' [(''name'', n), (''input'', JObj i), (''exit_code'', x)])"
    unfolding unguarded_def by blast
qed

lemma translate_unguarded: "ev \<in> set (fst (codex_translate parse_json cents line saw_error last_msg)) \<Longrightarrow> unguarded ev"
  by (auto simp: codex_translate_def translate_item_def Let_def unguarded_event split: option.splits if_splits)

text \<open>C25: The command guard never sees a command of the Codex adapter. The adapter reports a command
  it executed as a tool call whose input is an object with the command in it, and the node asks the
  guard only about an input that is a string. So whatever line the adapter translates, whatever the
  guard denies and whatever else the attempt does, reading the event leaves the latch of the guard
  as it was, and a command such as \<open>rm -rf /\<close> runs on.\<close>

theorem codex_commands_are_not_guarded:
  assumes "ev \<in> set (fst (codex_translate parse_json cents line saw_error last_msg))"
    and "se_parse se (from_utf8_lossy out) = Some ev"
  shows "sk_guard_block (snd (emit_line_masked se e stream g out rs)) = sk_guard_block (snd rs)"
  using unguarded_refusal[OF translate_unguarded[OF assms(1)] assms(2)] by (simp add: emit_line_block split: option.split)

definition rm_item :: json where
  "rm_item = JObj [(''type'', JStr ''item.completed''), (''item'', JObj [(''type'', JStr ''command_execution''),
     (''command'', JStr ''rm -rf /''), (''exit_code'', JU64 0)])]"

definition rm_call :: json where
  "rm_call = event ''tool_call'' [(''name'', JStr ''shell''), (''input'', JObj [(''command'', JStr ''rm -rf /'')]), (''exit_code'', JU64 0)]"

definition reader_of :: "json \<Rightarrow> stream_env" where
  "reader_of v = \<lparr>se_parse = (\<lambda>s. if s = ''call'' then Some v else None), se_show = (\<lambda>v. ''v''),
     se_cfg = \<lparr>oc_text = (\<lambda>l. []), oc_spool_limit = 1000, oc_quota = 1000, oc_fsync_interval = 0\<rparr>\<rparr>"

definition calm :: push_envs where
  "calm = (\<lparr>pe_now = 0, pe_epoch_ms = 0, pe_total = None, pe_write = Written, pe_sync_ok = True\<rparr>,
     \<lparr>pe_now = 0, pe_epoch_ms = 0, pe_total = None, pe_write = Written, pe_sync_ok = True\<rparr>)"

theorem codex_commands_are_not_guarded_witness:
  "decide default_guard ''rm -rf /'' = DeniedMatch \<and>
   sk_guard_block (snd (emit_line_masked (reader_of rm_call) (calm, calm) ''stdout'' default_guard ''call'' (None, new_sink 0 (open_outbox 0 None)))) = None"
proof
  show "decide default_guard ''rm -rf /'' = DeniedMatch" unfolding default_guard_eval by code_simp
  have "rm_call \<in> set (fst (codex_translate (\<lambda>s. Some rm_item) (\<lambda>v. None) ''line'' False []))"
    by (simp add: codex_translate_def translate_item_def rm_item_def rm_call_def str_or_def str_field_def Let_def)
  moreover have "se_parse (reader_of rm_call) (from_utf8_lossy ''call'') = Some rm_call"
    by (simp add: reader_of_def lossy_ascii byte_def)
  ultimately show "sk_guard_block (snd (emit_line_masked (reader_of rm_call) (calm, calm) ''stdout'' default_guard ''call''
      (None, new_sink 0 (open_outbox 0 None)))) = None"
    using codex_commands_are_not_guarded[of rm_call "\<lambda>s. Some rm_item" "\<lambda>v. None" "''line''" False "[]" "reader_of rm_call" "''call''"]
    by (simp add: new_sink_def)
qed

text \<open>The same command as a string is refused, and the block is latched.\<close>

definition rm_text :: json where
  "rm_text = event ''tool_call'' [(''input'', JStr ''rm -rf /'')]"

theorem first_refusal_is_latched_witness:
  "\<exists>raw' sk'. read_stream (reader_of rm_text) (\<lambda>n. (calm, calm)) 6 100 ''stdout'' [] default_guard [''ca'', ''ll'']
      (None, new_sink 0 (open_outbox 0 None)) = Some (raw', sk') \<and> sk_guard_block sk' = Some (''rm -rf /'', ''denylist match'')"
proof -
  have "decide default_guard ''rm -rf /'' = DeniedMatch" unfolding default_guard_eval by code_simp
  then have ref: "refusal (reader_of rm_text) default_guard ''call'' = Some (''rm -rf /'', ''denylist match'')"
    by (simp add: refusal_def reader_of_def lossy_ascii byte_def rm_text_def event_def tool_command_def str_field_def)
  have "redact [concat [''ca'', ''ll'']] (new_redactor [] 6 100) = Some [''call'']"
    by (simp add: redact_def feed_def feed_loop.simps newline_pos_def newline_def overlap_len_def new_redactor_def finish_def
        masked_def mask_line_def mask_secrets_def lossy_ascii byte_def)
  with first_refusal_is_latched[of 100 "[''ca'', ''ll'']" "[]" 6 "reader_of rm_text" "\<lambda>n. (calm, calm)" "''stdout''" default_guard None
      "new_sink 0 (open_outbox 0 None)"] ref
  show ?thesis by (auto simp: new_sink_def List.map_filter_simps)
qed

end
