(* ===== verification/CommandPolicy.thy ===== *)
theory CommandPolicy
  imports StreamReader
begin

text \<open>
  The command policy (\<open>common/src/policy.rs\<close>) and the answer of a node to a permission request of
  an agent (\<open>policy_decision\<close> and \<open>request_permission\<close> of \<open>node-daemon/src/main.rs\<close>): a heuristic
  classifier, a matrix of decisions per autonomy level, an optional external program, and the
  approval of an operator where neither decides. Commands are ASCII; what the external program
  prints and what the control plane answers are arguments.
\<close>

section \<open>Risk classes and levels\<close>

datatype risk_class = Read | EditWorkspace | ExecuteLocal | NetworkWrite | GitRemote | PackageInstall | Destructive

datatype autonomy_level = L0 | L1 | L2 | L3 | L4

datatype policy_decision = PolicyAllow | PolicyAsk | PolicyDeny | PolicyRewrite

fun risk_rank :: "risk_class \<Rightarrow> nat" where
  "risk_rank Read = 0"
| "risk_rank EditWorkspace = 1"
| "risk_rank ExecuteLocal = 2"
| "risk_rank NetworkWrite = 3"
| "risk_rank GitRemote = 4"
| "risk_rank PackageInstall = 5"
| "risk_rank Destructive = 6"

fun level_rank :: "autonomy_level \<Rightarrow> nat" where
  "level_rank L0 = 0"
| "level_rank L1 = 1"
| "level_rank L2 = 2"
| "level_rank L3 = 3"
| "level_rank L4 = 4"

lemma rank_inj: "risk_rank c = risk_rank d \<longleftrightarrow> c = d" "level_rank l = level_rank m \<longleftrightarrow> l = m"
  by (cases c; cases d; simp) (cases l; cases m; simp)

instantiation risk_class :: linorder
begin

definition less_eq_risk_class :: "risk_class \<Rightarrow> risk_class \<Rightarrow> bool" where
  "less_eq_risk_class c d \<longleftrightarrow> risk_rank c \<le> risk_rank d"

definition less_risk_class :: "risk_class \<Rightarrow> risk_class \<Rightarrow> bool" where
  "less_risk_class c d \<longleftrightarrow> risk_rank c < risk_rank d"

instance
  by standard (auto simp: less_eq_risk_class_def less_risk_class_def rank_inj)

end

instantiation autonomy_level :: linorder
begin

definition less_eq_autonomy_level :: "autonomy_level \<Rightarrow> autonomy_level \<Rightarrow> bool" where
  "less_eq_autonomy_level l m \<longleftrightarrow> level_rank l \<le> level_rank m"

definition less_autonomy_level :: "autonomy_level \<Rightarrow> autonomy_level \<Rightarrow> bool" where
  "less_autonomy_level l m \<longleftrightarrow> level_rank l < level_rank m"

instance
  by standard (auto simp: less_eq_autonomy_level_def less_autonomy_level_def rank_inj)

end

definition default_level :: autonomy_level where
  "default_level = L2"

record policy_verdict =
  pv_decision :: policy_decision
  pv_risk_class :: risk_class
  pv_reason :: string
  pv_matched_rules :: "string list"

definition fail_closed :: "string \<Rightarrow> policy_verdict" where
  "fail_closed why = \<lparr>pv_decision = PolicyAsk, pv_risk_class = Destructive,
     pv_reason = ''policy provider unavailable ('' @ why @ ''): defaulting to ask'', pv_matched_rules = [''fail-closed'']\<rparr>"

definition decide_for :: "autonomy_level \<Rightarrow> risk_class \<Rightarrow> policy_decision" where
  "decide_for level c =
     (case level of
        L0 \<Rightarrow> if c = Destructive then PolicyDeny else PolicyAsk
      | L1 \<Rightarrow> (case c of Read \<Rightarrow> PolicyAllow | Destructive \<Rightarrow> PolicyDeny | _ \<Rightarrow> PolicyAsk)
      | L2 \<Rightarrow> if c \<in> {Read, EditWorkspace, ExecuteLocal} then PolicyAllow
              else if c \<in> {NetworkWrite, GitRemote, PackageInstall} then PolicyAsk else PolicyDeny
      | L3 \<Rightarrow> if c \<in> {Read, EditWorkspace, ExecuteLocal, NetworkWrite, GitRemote} then PolicyAllow
              else if c = PackageInstall then PolicyAsk else PolicyDeny
      | L4 \<Rightarrow> PolicyAllow)"

section \<open>The builtin classifier\<close>

fun policy_tokens :: "string list \<Rightarrow> string \<Rightarrow> char option \<Rightarrow> bool \<Rightarrow> string \<Rightarrow> string list option" where
  "policy_tokens out cur q had [] =
     (if q \<noteq> None then None else Some (if cur \<noteq> [] \<or> had then out @ [cur] else out))"
| "policy_tokens out cur (Some q) had (c # cs) =
     (if c = q then policy_tokens out cur None had cs else policy_tokens out (cur @ [c]) (Some q) had cs)"
| "policy_tokens out cur None had (c # cs) =
     (if c = CHR 0x27 \<or> c = CHR 0x22 then policy_tokens out cur (Some c) True cs
      else if is_ws c
      then (if cur \<noteq> [] \<or> had then policy_tokens (out @ [cur]) [] None False cs else policy_tokens out cur None had cs)
      else policy_tokens out (cur @ [c]) None had cs)"

definition policy_tokenize :: "string \<Rightarrow> string list option" where
  "policy_tokenize s = policy_tokens [] [] None False s"

definition second_token :: "string list \<Rightarrow> string \<Rightarrow> bool" where
  "second_token tokens w \<longleftrightarrow> 1 < length tokens \<and> tokens ! 1 = w"

definition classify :: "string list \<Rightarrow> risk_class" where
  "classify tokens =
     (let head = hd tokens; joined = join '' '' tokens
      in if head = ''rm'' \<and> list_ex (\<lambda>t. t \<in> {''-rf'', ''-fr'', ''-r'', ''-f'', ''--recursive'', ''--force''}) tokens then Destructive
         else if head \<in> {''dd'', ''mkfs'', ''shutdown'', ''reboot'', ''halt'', ''fdisk'', ''parted'', ''mkswap'', ''truncate''}
         then Destructive
         else if sublist ''> /dev/'' joined \<or> sublist '':/dev/'' joined then Destructive
         else if (head = ''chmod'' \<or> head = ''chown'') \<and> list_ex (\<lambda>t. t = ''-R'' \<or> t = ''-r'') tokens then Destructive
         else if head \<in> {''apt'', ''apt-get'', ''yum'', ''dnf'', ''apk'', ''brew'', ''pip'', ''pip3''} \<or>
           head = ''npm'' \<and> (second_token tokens ''install'' \<or> second_token tokens ''i'') \<or>
           head = ''cargo'' \<and> (second_token tokens ''install'' \<or> second_token tokens ''add'')
         then PackageInstall
         else if head = ''git''
         then (if list_ex (second_token tokens) [''push'', ''fetch'', ''pull'', ''clone'', ''submodule'', ''remote'']
               then GitRemote else EditWorkspace)
         else if head \<in> {''curl'', ''scp'', ''rsync'', ''sftp'', ''wget'', ''ftp''} then NetworkWrite
         else if head \<in> {''bash'', ''sh'', ''zsh'', ''python'', ''python3'', ''node'', ''deno'', ''bun'', ''ruby'', ''perl'',
             ''make'', ''cmake'', ''cargo'', ''go'', ''npm'', ''npx'', ''yarn'', ''pnpm'', ''tsc'', ''javac'', ''java'', ''gcc'', ''cc'',
             ''g++'', ''clang'', ''zig'', ''./'', ''source''} \<or> starts_with head ''./'' \<or> starts_with head ''../''
         then ExecuteLocal
         else if head \<in> {''sed'', ''awk'', ''mv'', ''cp'', ''ln'', ''touch'', ''mkdir'', ''rmdir'', ''tee'', ''vim'', ''nvim'', ''nano'',
             ''echo'', ''printf''}
         then EditWorkspace
         else if head \<in> {''cat'', ''ls'', ''head'', ''tail'', ''grep'', ''rg'', ''find'', ''pwd'', ''which'', ''whoami'', ''env'', ''wc'',
             ''sort'', ''uniq'', ''diff'', ''file'', ''stat'', ''date''}
         then Read
         else ExecuteLocal)"

fun risk_name :: "risk_class \<Rightarrow> string" where
  "risk_name Read = ''Read''"
| "risk_name EditWorkspace = ''EditWorkspace''"
| "risk_name ExecuteLocal = ''ExecuteLocal''"
| "risk_name NetworkWrite = ''NetworkWrite''"
| "risk_name GitRemote = ''GitRemote''"
| "risk_name PackageInstall = ''PackageInstall''"
| "risk_name Destructive = ''Destructive''"

fun level_name :: "autonomy_level \<Rightarrow> string" where
  "level_name L0 = ''L0''"
| "level_name L1 = ''L1''"
| "level_name L2 = ''L2''"
| "level_name L3 = ''L3''"
| "level_name L4 = ''L4''"

definition evaluate_with :: "autonomy_level \<Rightarrow> string \<Rightarrow> policy_verdict" where
  "evaluate_with level command =
     (case policy_tokenize command of
        None \<Rightarrow> fail_closed ''command tokenization failed''
      | Some tokens \<Rightarrow>
          if tokens = [] then fail_closed ''empty command''
          else
            (let c = classify tokens
             in \<lparr>pv_decision = decide_for level c, pv_risk_class = c,
                 pv_reason = ''builtin classifier '' @ [CHR 0xE2, CHR 0x86, CHR 0x92] @ '' '' @ risk_name c @ '' @ '' @ level_name level,
                 pv_matched_rules = [''class:'' @ risk_name c]\<rparr>))"

text \<open>The external program: it cannot be started, it fails, or it prints something.\<close>

datatype external_run = NotStarted string | ExitCode int | Printed string

definition external_evaluate ::
    "(string \<Rightarrow> external_run) \<Rightarrow> (string \<Rightarrow> string + policy_verdict) \<Rightarrow> (int \<Rightarrow> string) \<Rightarrow> string \<Rightarrow> string + policy_verdict" where
  "external_evaluate run parse_verdict show_int command =
     (case run command of
        NotStarted why \<Rightarrow> Inl (''external policy binary failed: '' @ why)
      | ExitCode c \<Rightarrow> Inr (fail_closed (''external policy exited '' @ show_int c))
      | Printed out \<Rightarrow>
          (case parse_verdict out of
             Inr v \<Rightarrow> Inr v
           | Inl why \<Rightarrow> Inr (fail_closed (''external policy unparseable output: '' @ why))))"

section \<open>Permission requests\<close>

definition eq_ignore_ascii_case :: "string \<Rightarrow> string \<Rightarrow> bool" where
  "eq_ignore_ascii_case a b \<longleftrightarrow> to_ascii_lowercase a = to_ascii_lowercase b"

text \<open>The external provider, when one is configured, is an argument.\<close>

definition local_policy ::
    "(string \<Rightarrow> string + policy_verdict) option \<Rightarrow> json \<Rightarrow> autonomy_level \<Rightarrow> (policy_decision \<times> string \<times> string) option" where
  "local_policy external permission autonomy =
     (case str_field permission ''tool'' of
        None \<Rightarrow> None
      | Some tool \<Rightarrow>
          if \<not> eq_ignore_ascii_case tool ''bash'' then None
          else
            (case str_field permission ''input'' of
               None \<Rightarrow> None
             | Some cmd \<Rightarrow>
                 (case (case external of Some ext \<Rightarrow> ext cmd | None \<Rightarrow> Inr (evaluate_with autonomy cmd)) of
                    Inl e \<Rightarrow> None
                  | Inr v \<Rightarrow>
                      if pv_decision v = PolicyAsk then None
                      else Some (pv_decision v, risk_name (pv_risk_class v), pv_reason v))))"

datatype poll_answer = PollStatus approval_status | PollFailed

fun await_approval :: "nat \<Rightarrow> (nat \<Rightarrow> poll_answer) \<Rightarrow> nat \<Rightarrow> bool" where
  "await_approval 0 answers i = False"
| "await_approval (Suc n) answers i =
     (case answers i of
        PollStatus ApprovalAllowed \<Rightarrow> True
      | PollStatus ApprovalPending \<Rightarrow> await_approval n answers (Suc i)
      | _ \<Rightarrow> False)"

fun decision_name :: "policy_decision \<Rightarrow> string" where
  "decision_name PolicyAllow = ''allow''"
| "decision_name PolicyAsk = ''ask''"
| "decision_name PolicyDeny = ''deny''"
| "decision_name PolicyRewrite = ''rewrite''"

definition request_permission ::
    "stream_env \<Rightarrow> push_envs \<Rightarrow> (string \<Rightarrow> string + policy_verdict) option \<Rightarrow> json \<Rightarrow> autonomy_level \<Rightarrow> string option
      \<Rightarrow> (nat \<Rightarrow> poll_answer) \<Rightarrow> sink \<Rightarrow> bool \<times> sink" where
  "request_permission se e external permission autonomy created answers sk =
     (case local_policy external permission autonomy of
        Some (d, risk, reason) \<Rightarrow>
          (d = PolicyAllow,
           push_in se e EvtStatus
             (JObj [(''kind'', JStr ''permission_decision''), (''decision'', JStr (decision_name d)), (''risk_class'', JStr risk),
                    (''reason'', JStr reason), (''source'', JStr ''local_policy''),
                    (''autonomy'', JStr (to_ascii_lowercase (level_name autonomy)))]) sk)
      | None \<Rightarrow>
          (case created of
             None \<Rightarrow> (False, sk)
           | Some i \<Rightarrow> if i = [] then (False, sk) else (await_approval 150 answers 0, sk)))"

section \<open>What the matrix promises\<close>

fun strictness :: "policy_decision \<Rightarrow> nat" where
  "strictness PolicyAllow = 0"
| "strictness PolicyRewrite = 1"
| "strictness PolicyAsk = 2"
| "strictness PolicyDeny = 3"

text \<open>More autonomy never makes a decision stricter, more risk never makes it laxer; nothing
  destructive is allowed below the highest level, and the lowest allows nothing.\<close>

lemma decisions_are_monotone:
  "l \<le> m \<Longrightarrow> d \<le> c \<Longrightarrow> strictness (decide_for m d) \<le> strictness (decide_for l c)"
  by (cases l; cases m; cases c; cases d)
    (simp_all add: less_eq_autonomy_level_def less_eq_risk_class_def decide_for_def)

lemma destructive_needs_L4: "decide_for l Destructive = PolicyAllow \<longleftrightarrow> l = L4"
  by (cases l) (simp_all add: decide_for_def)

lemma L0_allows_nothing: "decide_for L0 c \<noteq> PolicyAllow"
  by (simp add: decide_for_def)

lemma fail_closed_asks [simp]: "pv_decision (fail_closed why) = PolicyAsk"
  by (simp add: fail_closed_def)

section \<open>A permission needs a yes\<close>

lemma await_approval_iff:
  "await_approval n answers i \<longleftrightarrow>
     (\<exists>k<n. answers (i + k) = PollStatus ApprovalAllowed \<and> (\<forall>j<k. answers (i + j) = PollStatus ApprovalPending))"
proof (induction n arbitrary: i)
  case (Suc n)
  show ?case
  proof (cases "answers i = PollStatus ApprovalPending")
    case True
    then have "await_approval (Suc n) answers i \<longleftrightarrow> await_approval n answers (Suc i)" by simp
    also have "\<dots> \<longleftrightarrow> (\<exists>k<Suc n. answers (i + k) = PollStatus ApprovalAllowed \<and> (\<forall>j<k. answers (i + j) = PollStatus ApprovalPending))"
      unfolding Suc.IH using True by (simp add: Ex_less_Suc2 All_less_Suc2)
    finally show ?thesis .
  next
    case False
    then have "await_approval (Suc n) answers i \<longleftrightarrow> answers i = PollStatus ApprovalAllowed"
      by (auto split: poll_answer.split approval_status.split)
    then show ?thesis using False by (auto simp: less_Suc_eq_0_disj)
  qed
qed simp

text \<open>C28: An agent gets a permission only from a policy or an operator who said yes. The request is
  granted exactly when the local policy decides to allow the shell command, or when it leaves the
  decision open, an approval was recorded and one of the first hundred and fifty answers says
  allowed after only pending ones. An unknown tool, an unreadable command, an external program
  that fails or prints nonsense, a refused or failed request and a timeout all end in a refusal.\<close>

theorem permission_needs_consent:
  "fst (request_permission se e external permission autonomy created answers sk) \<longleftrightarrow>
     (\<exists>cmd tool v. str_field permission ''tool'' = Some tool \<and> to_ascii_lowercase tool = ''bash'' \<and>
        str_field permission ''input'' = Some cmd \<and> pv_decision v = PolicyAllow \<and>
        (case external of Some ext \<Rightarrow> ext cmd = Inr v | None \<Rightarrow> evaluate_with autonomy cmd = v)) \<or>
     (local_policy external permission autonomy = None \<and> created \<noteq> None \<and> created \<noteq> Some [] \<and>
      (\<exists>k<150. answers k = PollStatus ApprovalAllowed \<and> (\<forall>j<k. answers j = PollStatus ApprovalPending)))"
proof -
  have lower: "to_ascii_lowercase ''bash'' = ''bash''" by (simp add: to_ascii_lowercase_def to_lower_def ascii_upper_def)
  have allow: "(\<exists>risk reason. local_policy external permission autonomy = Some (PolicyAllow, risk, reason)) \<longleftrightarrow>
     (\<exists>cmd tool v. str_field permission ''tool'' = Some tool \<and> to_ascii_lowercase tool = ''bash'' \<and>
        str_field permission ''input'' = Some cmd \<and> pv_decision v = PolicyAllow \<and>
        (case external of Some ext \<Rightarrow> ext cmd = Inr v | None \<Rightarrow> evaluate_with autonomy cmd = v))"
    by (auto simp: local_policy_def eq_ignore_ascii_case_def lower split: option.splits sum.splits if_splits)
  show ?thesis
  proof (cases "local_policy external permission autonomy")
    case None
    then show ?thesis unfolding allow[symmetric]
      by (auto simp: request_permission_def await_approval_iff split: option.split simp del: await_approval.simps)
  next
    case (Some x)
    then show ?thesis unfolding allow[symmetric] by (cases x) (auto simp: request_permission_def)
  qed
qed

text \<open>A push to a remote is asked about, and granted when the second answer of the operator is yes.\<close>

definition demo_reader :: stream_env where
  "demo_reader = \<lparr>se_parse = (\<lambda>s. None), se_show = (\<lambda>v. ''v''),
     se_cfg = \<lparr>oc_text = (\<lambda>l. []), oc_spool_limit = 1000, oc_quota = 1000, oc_fsync_interval = 0\<rparr>\<rparr>"

definition demo_env :: push_envs where
  "demo_env = (\<lparr>pe_now = 0, pe_epoch_ms = 0, pe_total = None, pe_write = Written, pe_sync_ok = True\<rparr>,
     \<lparr>pe_now = 0, pe_epoch_ms = 0, pe_total = None, pe_write = Written, pe_sync_ok = True\<rparr>)"

definition demo_push :: json where
  "demo_push = JObj [(''tool'', JStr ''Bash''), (''input'', JStr ''git push'')]"

definition demo_answers :: "nat \<Rightarrow> poll_answer" where
  "demo_answers i = (if i = 0 then PollStatus ApprovalPending else PollStatus ApprovalAllowed)"

theorem permission_needs_consent_witness:
  "fst (request_permission demo_reader demo_env None demo_push L2 (Some ''a'') demo_answers (new_sink 0 (open_outbox 0 None))) \<and>
   \<not> fst (request_permission demo_reader demo_env None demo_push L2 None demo_answers (new_sink 0 (open_outbox 0 None)))"
proof -
  have "policy_tokenize ''git push'' = Some [''git'', ''push'']" by code_simp
  then have "pv_decision (evaluate_with L2 ''git push'') = PolicyAsk"
    by (simp add: evaluate_with_def classify_def second_token_def decide_for_def starts_with_def sublist_Cons_right)
  moreover from this have "local_policy None demo_push L2 = None"
    by (simp add: local_policy_def demo_push_def str_field_def)
  moreover have "\<exists>k<150. demo_answers k = PollStatus ApprovalAllowed \<and> (\<forall>j<k. demo_answers j = PollStatus ApprovalPending)"
    by (intro exI[of _ 1]) (simp add: demo_answers_def)
  ultimately show ?thesis unfolding permission_needs_consent by (auto simp: demo_push_def str_field_def)
qed

section \<open>Only the first word counts\<close>

definition read_words :: "string list" where
  "read_words = [''cat'', ''ls'', ''head'', ''tail'', ''grep'', ''rg'', ''find'', ''pwd'', ''which'', ''whoami'', ''env'', ''wc'',
     ''sort'', ''uniq'', ''diff'', ''file'', ''stat'', ''date'']"

lemma policy_tokens_out: "policy_tokens out cur q had s = map_option (\<lambda>ts. out @ ts) (policy_tokens [] cur q had s)"
proof (induction s arbitrary: out cur q had)
  case (Cons c s)
  show ?case
    using Cons.IH[of "out @ [cur]" "[]" None False] Cons.IH[of "[cur]" "[]" None False] Cons.IH[of out cur None had]
      Cons.IH[of out "cur @ [c]" q had] Cons.IH[of out cur "Some c" True]
    by (cases q) (auto simp: option.map_comp comp_def)
qed simp

lemma read_word_token: "w \<in> set read_words \<Longrightarrow> policy_tokenize (w @ '' '' @ rest) = map_option (\<lambda>ts. w # ts) (policy_tokenize rest)"
  using policy_tokens_out[of "[w]" "[]" None False rest]
  by (auto simp: policy_tokenize_def read_words_def is_ws_def)

lemma read_word_class:
  assumes "w \<in> set read_words" "\<not> sublist ''> /dev/'' (join '' '' (w # ts))" "\<not> sublist '':/dev/'' (join '' '' (w # ts))"
  shows "classify (w # ts) = Read"
proof -
  let ?special = "[''rm'', ''chmod'', ''chown'', ''npm'', ''cargo'', ''git'', ''dd'', ''mkfs'', ''shutdown'', ''reboot'', ''halt'', ''fdisk'',
    ''parted'', ''mkswap'', ''truncate'', ''apt'', ''apt-get'', ''yum'', ''dnf'', ''apk'', ''brew'', ''pip'', ''pip3'', ''curl'', ''scp'', ''rsync'',
    ''sftp'', ''wget'', ''ftp'', ''bash'', ''sh'', ''zsh'', ''python'', ''python3'', ''node'', ''deno'', ''bun'', ''ruby'', ''perl'', ''make'',
    ''cmake'', ''go'', ''npx'', ''yarn'', ''pnpm'', ''tsc'', ''javac'', ''java'', ''gcc'', ''cc'', ''g++'', ''clang'', ''zig'', ''./'', ''source'',
    ''sed'', ''awk'', ''mv'', ''cp'', ''ln'', ''touch'', ''mkdir'', ''rmdir'', ''tee'', ''vim'', ''nvim'', ''nano'', ''echo'', ''printf'']"
  have "list_all (\<lambda>w. w \<notin> set ?special \<and> \<not> starts_with w ''./'' \<and> \<not> starts_with w ''../'') read_words" by code_simp
  then have "w \<notin> set ?special" "\<not> starts_with w ''./''" "\<not> starts_with w ''../''" using assms(1) by (auto simp: list_all_iff)
  moreover have "w \<in> {''cat'', ''ls'', ''head'', ''tail'', ''grep'', ''rg'', ''find'', ''pwd'', ''which'', ''whoami'', ''env'', ''wc'',
             ''sort'', ''uniq'', ''diff'', ''file'', ''stat'', ''date''}" using assms(1) unfolding read_words_def by simp
  ultimately show ?thesis using assms(2, 3) unfolding classify_def Let_def list.sel(1) by simp
qed

text \<open>The builtin policy judges a line by its first word. When that word is one of the reading
  commands, a line whose quotes are closed and that names no device is allowed from level L1 on,
  whatever follows: a second command after a semicolon, a pipe or an ampersand is never looked at,
  though L1 means to ask about everything but reads.\<close>

theorem read_prefix_is_allowed:
  assumes "w \<in> set read_words" "policy_tokenize rest = Some ts" "L1 \<le> level"
    and "\<not> sublist ''> /dev/'' (join '' '' (w # ts))" "\<not> sublist '':/dev/'' (join '' '' (w # ts))"
  shows "pv_decision (evaluate_with level (w @ '' '' @ rest)) = PolicyAllow"
proof -
  have "policy_tokenize (w @ '' '' @ rest) = Some (w # ts)" using read_word_token[OF assms(1), of rest] assms(2) by simp
  moreover have "decide_for level Read = PolicyAllow"
    using assms(3) by (cases level) (simp_all add: decide_for_def less_eq_autonomy_level_def)
  ultimately show ?thesis using read_word_class[OF assms(1, 4, 5)] by (simp add: evaluate_with_def Let_def)
qed

theorem read_prefix_is_allowed_witness:
  "pv_decision (evaluate_with L1 ''cat x; rm -rf ~'') = PolicyAllow"
proof -
  have "policy_tokenize ''x; rm -rf ~'' = Some [''x;'', ''rm'', ''-rf'', ''~'']" by code_simp
  from read_prefix_is_allowed[OF _ this, of "''cat''" L1] show ?thesis
    by (simp add: read_words_def less_eq_autonomy_level_def sublist_Cons_right)
qed

end
