(* ===== verification/CredGateway.thy ===== *)
theory CredGateway
  imports AttemptRoutes
begin

unbundle bit_operations_syntax

text \<open>
  The credential gateway (\<open>cred-gateway/src/lib.rs\<close>): a sandbox holds a capability for one route,
  with a time to live and a quota, and the gateway swaps it for the real key on its way to the
  provider. Modelled are the configuration, minting, revocation and the proxy with the request it
  sends and the response it passes on. Hash maps are maps, header names are lower case as the HTTP
  library keeps them; what the provider of an exchange route answers, the drawn tokens, the size
  of the body and the reply of the upstream are arguments.
\<close>

section \<open>Configuration\<close>

record cred_route =
  cr_upstream :: string
  cr_header :: string

definition trim_end_slashes :: "string \<Rightarrow> string" where
  "trim_end_slashes s = rev (dropWhile (\<lambda>c. c = CHR ''/'') (rev s))"

definition entries :: "string \<Rightarrow> string list" where
  "entries spec = filter (\<lambda>s. s \<noteq> []) (map trim (split_on (CHR '','') spec))"

datatype gateway_error =
  BadFields nat | EmptyNameOrUpstream | NotHttp | AdminEmpty | NoRoutes | NoKey string | TwoModes string

definition parse_route :: "string \<Rightarrow> gateway_error + (string \<times> cred_route)" where
  "parse_route entry =
     (case map trim (split_on (CHR ''|'') entry) of
        [name, header, upstream] \<Rightarrow>
          if name = [] \<or> upstream = [] then Inl EmptyNameOrUpstream
          else if \<not> (starts_with upstream ''https://'' \<or> starts_with upstream ''http://'') then Inl NotHttp
          else Inr (name, \<lparr>cr_upstream = trim_end_slashes upstream, cr_header = to_ascii_lowercase header\<rparr>)
      | parts \<Rightarrow> Inl (BadFields (length parts)))"

fun insert_routes :: "string list \<Rightarrow> (string \<rightharpoonup> cred_route) \<Rightarrow> gateway_error + (string \<rightharpoonup> cred_route)" where
  "insert_routes [] out = Inr out"
| "insert_routes (e # es) out =
     try_bind (parse_route e) (\<lambda>(name, r). insert_routes es (out(name \<mapsto> r)))"

definition parse_routes :: "string \<Rightarrow> gateway_error + (string \<rightharpoonup> cred_route)" where
  "parse_routes spec = insert_routes (entries spec) Map.empty"

definition parse_keys :: "string \<Rightarrow> string \<rightharpoonup> string" where
  "parse_keys spec = map_of (rev (filter (\<lambda>(k, v). k \<noteq> [] \<and> v \<noteq> [])
     (map (\<lambda>(k, v). (trim k, trim v)) (List.map_filter (split_once (CHR ''='')) (entries spec)))))"

section \<open>State\<close>

record cap =
  cp_attempt_id :: id
  cp_route :: string
  cp_expires :: time
  cp_quota :: "32 word option"
  cp_used :: "32 word"

record exchange_handle =
  xh_route :: string
  xh_expires :: time

record gateway =
  gw_routes :: "string \<rightharpoonup> cred_route"
  gw_keys :: "string \<rightharpoonup> string"
  gw_exchange :: "string set"
  gw_admin :: string
  gw_caps :: "string \<rightharpoonup> cap"
  gw_exchanges :: "string \<rightharpoonup> exchange_handle"

text \<open>The names of the routes are listed in the order in which the hash maps are walked.\<close>

definition build_gateway ::
    "string list \<Rightarrow> string list \<Rightarrow> (string \<rightharpoonup> cred_route) \<Rightarrow> (string \<rightharpoonup> string) \<Rightarrow> string \<Rightarrow> gateway_error + gateway" where
  "build_gateway route_names exchange_names routes keys admin =
     (if trim admin = [] then Inl AdminEmpty
      else if route_names = [] \<and> exchange_names = [] then Inl NoRoutes
      else
        (case List.find (\<lambda>n. keys n = None) route_names of
           Some n \<Rightarrow> Inl (NoKey n)
         | None \<Rightarrow>
             (case List.find (\<lambda>n. routes n \<noteq> None) exchange_names of
                Some n \<Rightarrow> Inl (TwoModes n)
              | None \<Rightarrow> Inr \<lparr>gw_routes = routes, gw_keys = keys, gw_exchange = set exchange_names, gw_admin = admin,
                          gw_caps = Map.empty, gw_exchanges = Map.empty\<rparr>)))"

section \<open>Headers\<close>

type_synonym headers = "(string \<times> string) list"

definition HOP_BY_HOP :: "string list" where
  "HOP_BY_HOP = [''connection'', ''keep-alive'', ''proxy-authenticate'', ''proxy-authorization'', ''te'', ''trailer'', ''trailers'',
     ''transfer-encoding'', ''upgrade'', ''host'', ''content-length'']"

definition visible :: "char \<Rightarrow> bool" where
  "visible c \<longleftrightarrow> c = CHR 0x09 \<or> 32 \<le> (of_char c :: nat) \<and> (of_char c :: nat) < 127"

definition header_str :: "headers \<Rightarrow> string \<Rightarrow> string option" where
  "header_str hs name = Option.bind (map_of hs name) (\<lambda>v. if list_all visible v then Some v else None)"

definition nonempty :: "string \<Rightarrow> string option" where
  "nonempty v = (if v = [] then None else Some v)"

definition capability_from :: "headers \<Rightarrow> string \<Rightarrow> string option" where
  "capability_from hs route_header =
     (let direct = Option.bind (header_str hs route_header) (\<lambda>v. nonempty (trim v));
          bearer = Option.bind (Option.bind (header_str hs ''authorization'') (strip_prefix ''Bearer '')) (\<lambda>v. nonempty (trim v))
      in if route_header = ''authorization''
         then (case bearer of Some c \<Rightarrow> Some c | None \<Rightarrow> direct)
         else (case direct of Some c \<Rightarrow> Some c | None \<Rightarrow> bearer))"

definition credential_value :: "string \<Rightarrow> string \<Rightarrow> string" where
  "credential_value header secret = (if header = ''authorization'' then ''Bearer '' @ secret else secret)"

definition byte8 :: "char \<Rightarrow> 8 word" where
  "byte8 c = of_nat (of_char c)"

definition constant_time_eq :: "string \<Rightarrow> string \<Rightarrow> bool" where
  "constant_time_eq a b \<longleftrightarrow>
     (if length a \<noteq> length b then False
      else fold (\<lambda>(x, y) diff. diff OR (byte8 x XOR byte8 y)) (zip a b) 0 = 0)"

definition admin_ok :: "gateway \<Rightarrow> headers \<Rightarrow> bool" where
  "admin_ok gw hs =
     (case Option.bind (header_str hs ''authorization'') (strip_prefix ''Bearer '') of
        Some t \<Rightarrow> constant_time_eq t (gw_admin gw)
      | None \<Rightarrow> False)"

section \<open>Minting and revoking\<close>

record mint_request =
  mr_attempt_id :: id
  mr_route :: string
  mr_ttl_secs :: nat
  mr_quota :: "32 word option"

definition retain_caps :: "time \<Rightarrow> (string \<rightharpoonup> cap) \<Rightarrow> string \<rightharpoonup> cap" where
  "retain_caps now caps = (\<lambda>t. case caps t of Some c \<Rightarrow> if now < cp_expires c then Some c else None | None \<Rightarrow> None)"

definition retain_exchanges :: "time \<Rightarrow> (string \<rightharpoonup> exchange_handle) \<Rightarrow> string \<rightharpoonup> exchange_handle" where
  "retain_exchanges now xs = (\<lambda>t. case xs t of Some h \<Rightarrow> if now < xh_expires h then Some h else None | None \<Rightarrow> None)"

datatype response = Problem nat string | Minted string string nat | NoContent | NotFound

definition clamp_ttl :: "nat \<Rightarrow> nat" where
  "clamp_ttl n = min (max n 1) (24 * 60 * 60)"

text \<open>The answer of the provider of an exchange route is a token with its remaining seconds, or a failure.\<close>

definition mint ::
    "time \<Rightarrow> string \<Rightarrow> (string + string \<times> nat) \<Rightarrow> headers \<Rightarrow> mint_request \<Rightarrow> gateway \<Rightarrow> response \<times> gateway" where
  "mint now token provider hs req gw =
     (if \<not> admin_ok gw hs then (Problem 401 ''admin token required'', gw)
      else if mr_route req \<in> gw_exchange gw
      then (case provider of
              Inl why \<Rightarrow> (Problem 502 (''exchange failed: '' @ why), gw)
            | Inr (t, expires_in) \<Rightarrow>
                (Minted t (mr_route req) expires_in,
                 gw\<lparr>gw_exchanges := (retain_exchanges now (gw_exchanges gw))
                      (t \<mapsto> \<lparr>xh_route = mr_route req, xh_expires = now + secs (max expires_in 1)\<rparr>)\<rparr>))
      else if gw_routes gw (mr_route req) = None then (Problem 404 ''unknown route'', gw)
      else
        (Minted token (mr_route req) (clamp_ttl (mr_ttl_secs req)),
         gw\<lparr>gw_caps := (retain_caps now (gw_caps gw))
              (token \<mapsto> \<lparr>cp_attempt_id = mr_attempt_id req, cp_route = mr_route req,
                 cp_expires = now + secs (clamp_ttl (mr_ttl_secs req)), cp_quota = mr_quota req, cp_used = 0\<rparr>)\<rparr>))"

definition revoke :: "headers \<Rightarrow> string \<Rightarrow> gateway \<Rightarrow> response \<times> gateway" where
  "revoke hs token gw =
     (if \<not> admin_ok gw hs then (Problem 401 ''admin token required'', gw)
      else if gw_exchanges gw token \<noteq> None then (NoContent, gw\<lparr>gw_exchanges := (gw_exchanges gw)(token := None)\<rparr>)
      else if gw_caps gw token \<noteq> None then (NoContent, gw\<lparr>gw_caps := (gw_caps gw)(token := None)\<rparr>)
      else (NotFound, gw))"

section \<open>The proxy\<close>

record proxy_request =
  pr_route :: string
  pr_rest :: string
  pr_query :: "string option"
  pr_method :: string
  pr_headers :: headers
  pr_body :: "string option"

record outbound =
  ob_method :: string
  ob_url :: string
  ob_headers :: headers
  ob_body :: string

text \<open>A body above the limit is no body here.\<close>

definition admit_capability :: "time \<Rightarrow> string \<Rightarrow> string \<Rightarrow> gateway \<Rightarrow> (response + cap) \<times> gateway" where
  "admit_capability now route_name capability gw =
     (case gw_caps gw capability of
        None \<Rightarrow> (Inl (Problem 401 ''unknown capability''), gw)
      | Some c \<Rightarrow>
          if cp_expires c \<le> now
          then (Inl (Problem 401 ''capability expired''), gw\<lparr>gw_caps := (gw_caps gw)(capability := None)\<rparr>)
          else if cp_route c \<noteq> route_name then (Inl (Problem 403 ''capability is for another route''), gw)
          else if (case cp_quota c of Some q \<Rightarrow> q \<le> cp_used c | None \<Rightarrow> False)
          then (Inl (Problem 429 ''attempt quota exhausted''), gw)
          else (Inr c, gw\<lparr>gw_caps := (gw_caps gw)(capability \<mapsto> c\<lparr>cp_used := cp_used c + 1\<rparr>)\<rparr>))"

definition outbound_url :: "cred_route \<Rightarrow> proxy_request \<Rightarrow> string" where
  "outbound_url r rq = trim_end_slashes (cr_upstream r) @ ''/'' @ pr_rest rq @
     (case pr_query rq of Some q \<Rightarrow> if q = [] then [] else ''?'' @ q | None \<Rightarrow> [])"

definition outbound_headers :: "cred_route \<Rightarrow> string \<Rightarrow> headers \<Rightarrow> headers" where
  "outbound_headers r secret hs =
     filter (\<lambda>(n, v). n \<notin> set HOP_BY_HOP \<and> n \<noteq> cr_header r) hs @ [(cr_header r, credential_value (cr_header r) secret)]"

definition proxy :: "time \<Rightarrow> proxy_request \<Rightarrow> gateway \<Rightarrow> (response + outbound) \<times> gateway" where
  "proxy now rq gw =
     (case gw_routes gw (pr_route rq) of
        None \<Rightarrow> (Inl (Problem 404 ''unknown route''), gw)
      | Some r \<Rightarrow>
          (case capability_from (pr_headers rq) (cr_header r) of
             None \<Rightarrow> (Inl (Problem 401 ''capability required''), gw)
           | Some capability \<Rightarrow>
               (case admit_capability now (pr_route rq) capability gw of
                  (Inl p, gw1) \<Rightarrow> (Inl p, gw1)
                | (Inr c, gw1) \<Rightarrow>
                    (case gw_keys gw1 (pr_route rq) of
                       None \<Rightarrow> (Inl (Problem 500 ''route has no key''), gw1)
                     | Some secret \<Rightarrow>
                         (case pr_body rq of
                            None \<Rightarrow> (Inl (Problem 413 ''request body too large''), gw1)
                          | Some body \<Rightarrow>
                              (Inr \<lparr>ob_method = pr_method rq, ob_url = outbound_url r rq,
                                 ob_headers = outbound_headers r secret (pr_headers rq), ob_body = body\<rparr>, gw1))))))"

text \<open>What the sandbox gets back, given the reply of the upstream.\<close>

datatype upstream_reply = UpFailed | UpReply nat headers string

datatype client_response = Refused response | Passed nat headers string

definition proxy_response :: "upstream_reply \<Rightarrow> client_response" where
  "proxy_response up =
     (case up of
        UpFailed \<Rightarrow> Refused (Problem 502 ''upstream request failed'')
      | UpReply status hs body \<Rightarrow> Passed status (filter (\<lambda>(n, v). n \<notin> set HOP_BY_HOP) hs) body)"

definition serve :: "(outbound \<Rightarrow> upstream_reply) \<Rightarrow> time \<Rightarrow> proxy_request \<Rightarrow> gateway \<Rightarrow> client_response \<times> gateway" where
  "serve upstream now rq gw =
     (case proxy now rq gw of (Inl p, gw1) \<Rightarrow> (Refused p, gw1) | (Inr out, gw1) \<Rightarrow> (proxy_response (upstream out), gw1))"

end
