(* ===== verification/CredProps.thy ===== *)
theory CredProps
  imports CredGateway
begin

text \<open>
  What the credential gateway guarantees: a capability works for its route only, until it expires
  or is revoked and within its quota, over every interleaving of requests; the provider key has no
  influence on anything the sandbox sees. And one gap: a capability presented as a bearer token on
  a route with another header travels on to the provider.
\<close>

section \<open>Comparison in constant time\<close>

lemma or_zero: "(a OR b = (0 :: 8 word)) \<longleftrightarrow> a = 0 \<and> b = 0"
  by (auto simp: or_eq_0_iff)

lemma xor_zero: "(a XOR b = (0 :: 8 word)) \<longleftrightarrow> a = b"
  by (auto simp: bit_eq_iff bit_xor_iff)

lemma byte8_inj: "byte8 x XOR byte8 y = 0 \<longleftrightarrow> x = y"
proof -
  have "byte8 x = byte8 y \<longleftrightarrow> x = y"
  proof
    assume "byte8 x = byte8 y"
    then have "(of_char x :: nat) mod 256 = of_char y mod 256" by (simp add: byte8_def word_unat_eq_iff unat_of_nat)
    then show "x = y" by simp
  qed simp
  then show ?thesis by (simp add: xor_zero)
qed

lemma fold_diff:
  "fold (\<lambda>(x, y) diff. diff OR (byte8 x XOR byte8 y)) ps d = 0 \<longleftrightarrow> d = 0 \<and> (\<forall>(x, y)\<in>set ps. x = y)"
  by (induction ps arbitrary: d) (auto simp: or_zero byte8_inj)

text \<open>The comparison without early exit decides equality.\<close>

lemma constant_time_eq_iff: "constant_time_eq a b \<longleftrightarrow> a = b"
  by (auto simp: constant_time_eq_def fold_diff list_eq_iff_nth_eq set_zip)

section \<open>Configuration\<close>

lemma built_gateway_wf:
  assumes "build_gateway rs es routes keys admin = Inr gw" "dom routes = set rs"
  shows "dom (gw_routes gw) \<subseteq> dom (gw_keys gw) \<and> gw_exchange gw \<inter> dom (gw_routes gw) = {} \<and> trim (gw_admin gw) \<noteq> []"
proof -
  have "trim admin \<noteq> []" "\<forall>n\<in>set rs. keys n \<noteq> None" "\<forall>n\<in>set es. routes n = None"
    "gw_routes gw = routes" "gw_keys gw = keys" "gw_exchange gw = set es" "gw_admin gw = admin"
    using assms(1) by (auto simp: build_gateway_def find_None_iff split: if_splits option.splits)
  then show ?thesis using assms(2) by auto
qed

text \<open>So the branch for a route without a key is dead in a gateway that started.\<close>

lemma routed_has_key:
  assumes "dom (gw_routes gw) \<subseteq> dom (gw_keys gw)"
  shows "fst (proxy now rq gw) \<noteq> Inl (Problem 500 ''route has no key'')"
proof (cases "gw_routes gw (pr_route rq)")
  case (Some r)
  then have "gw_keys gw (pr_route rq) \<noteq> None" using assms by auto
  then show ?thesis using Some
    by (auto simp: proxy_def admit_capability_def split: option.splits if_splits)
qed (simp add: proxy_def)

section \<open>Runs\<close>

text \<open>A run remembers what was minted and what was forwarded.\<close>

record gw_run =
  gr_gw :: gateway
  gr_now :: time
  gr_minted :: "string \<rightharpoonup> cap"
  gr_log :: "(string \<times> string \<times> time) list"

definition used_capability :: "gateway \<Rightarrow> proxy_request \<Rightarrow> string" where
  "used_capability gw rq =
     the (Option.bind (gw_routes gw (pr_route rq)) (\<lambda>r. capability_from (pr_headers rq) (cr_header r)))"

definition after_mint :: "time \<Rightarrow> string \<Rightarrow> gateway \<Rightarrow> gw_run \<Rightarrow> gw_run" where
  "after_mint now token gw r =
     r\<lparr>gr_gw := gw, gr_now := now,
       gr_minted := (if gw_caps gw token = None then gr_minted r else (gr_minted r)(token := gw_caps gw token))\<rparr>"

definition after_proxy :: "time \<Rightarrow> proxy_request \<Rightarrow> (response + outbound) \<times> gateway \<Rightarrow> gw_run \<Rightarrow> gw_run" where
  "after_proxy now rq res r =
     r\<lparr>gr_gw := snd res, gr_now := now,
       gr_log := gr_log r @ (case fst res of Inr out \<Rightarrow> [(used_capability (gr_gw r) rq, pr_route rq, now)] | Inl p \<Rightarrow> [])\<rparr>"

text \<open>Tokens are drawn at random; a run draws each at most once.\<close>

inductive gw_step :: "gw_run \<Rightarrow> gw_run \<Rightarrow> bool" where
  gs_mint: "gr_now r \<le> now \<Longrightarrow> token \<notin> dom (gr_minted r) \<Longrightarrow>
    gw_step r (after_mint now token (snd (mint now token provider hs req (gr_gw r))) r)"
| gs_revoke: "gw_step r (r\<lparr>gr_gw := snd (revoke hs token (gr_gw r))\<rparr>)"
| gs_proxy: "gr_now r \<le> now \<Longrightarrow> gw_step r (after_proxy now rq (proxy now rq (gr_gw r)) r)"

definition fresh_gateway :: "gw_run \<Rightarrow> bool" where
  "fresh_gateway r \<longleftrightarrow> gw_caps (gr_gw r) = Map.empty \<and> gr_minted r = Map.empty \<and> gr_log r = []"

definition uses :: "gw_run \<Rightarrow> string \<Rightarrow> nat" where
  "uses r t = length (filter (\<lambda>(u, _). u = t) (gr_log r))"

definition in_quota :: "gw_run \<Rightarrow> string \<Rightarrow> cap \<Rightarrow> bool" where
  "in_quota r t c \<longleftrightarrow> (\<forall>q. cp_quota c = Some q \<longrightarrow> uses r t \<le> unat (cp_used c) \<and> cp_used c \<le> q)"

definition cap_of :: "cap \<Rightarrow> cap \<Rightarrow> bool" where
  "cap_of m c \<longleftrightarrow> cp_route c = cp_route m \<and> cp_expires c = cp_expires m \<and> cp_quota c = cp_quota m"

definition gw_inv :: "gw_run \<Rightarrow> bool" where
  "gw_inv r \<longleftrightarrow>
     (\<forall>t c. gw_caps (gr_gw r) t = Some c \<longrightarrow> (\<exists>m. gr_minted r t = Some m \<and> cap_of m c) \<and> in_quota r t c) \<and>
     (\<forall>t m q. gr_minted r t = Some m \<longrightarrow> cp_quota m = Some q \<longrightarrow> uses r t \<le> unat q) \<and>
     (\<forall>(t, route, time)\<in>set (gr_log r). \<exists>m. gr_minted r t = Some m \<and> cp_route m = route \<and> time < cp_expires m)"

text \<open>A minted capability is new, everything else stays or is dropped.\<close>

lemma mint_caps:
  assumes "gw_caps (snd (mint now token provider hs req gw)) t = Some c"
  shows "gw_caps gw t = Some c \<or> t = token \<and> cp_used c = 0"
  using assms by (auto simp: mint_def retain_caps_def split: if_splits sum.splits option.splits)

lemma revoke_caps: "gw_caps (snd (revoke hs token gw)) t = Some c \<Longrightarrow> gw_caps gw t = Some c"
  by (auto simp: revoke_def split: if_splits)

lemma proxy_caps:
  "gw_caps (snd (proxy now rq gw)) t = Some c \<Longrightarrow>
   gw_caps gw t = Some c \<or> (\<exists>d. gw_caps gw t = Some d \<and> t = used_capability gw rq \<and> c = d\<lparr>cp_used := cp_used d + 1\<rparr> \<and>
     (\<forall>q. cp_quota d = Some q \<longrightarrow> cp_used d < q))"
  by (auto simp: proxy_def admit_capability_def used_capability_def split: option.splits if_splits prod.splits sum.splits)

lemma proxy_forwards:
  assumes "fst (proxy now rq gw) = Inr out"
  obtains d where "gw_caps gw (used_capability gw rq) = Some d" "now < cp_expires d" "cp_route d = pr_route rq"
    "\<And>q. cp_quota d = Some q \<Longrightarrow> cp_used d < q"
    "gw_caps (snd (proxy now rq gw)) (used_capability gw rq) = Some (d\<lparr>cp_used := cp_used d + 1\<rparr>)"
  using assms
  by (auto simp: proxy_def admit_capability_def used_capability_def split: option.splits if_splits prod.splits sum.splits)

lemma next_use:
  fixes u q :: "32 word"
  assumes "u < q"
  shows "unat (u + 1) = Suc (unat u)" "u + 1 \<le> q"
proof -
  have "unat u < unat q" "unat q < 2 ^ 32"
    using assms unsigned_less[of q] by (simp_all add: word_less_nat_alt)
  then show "unat (u + 1) = Suc (unat u)" by (simp add: unat_word_ariths)
  then show "u + 1 \<le> q" using \<open>unat u < unat q\<close> by (simp add: word_le_nat_alt)
qed

lemma gw_invI:
  assumes "\<And>t c. gw_caps (gr_gw r) t = Some c \<Longrightarrow> (\<exists>m. gr_minted r t = Some m \<and> cap_of m c) \<and> in_quota r t c"
    and "\<And>t m q. gr_minted r t = Some m \<Longrightarrow> cp_quota m = Some q \<Longrightarrow> uses r t \<le> unat q"
    and "\<And>t route time. (t, route, time) \<in> set (gr_log r) \<Longrightarrow>
      \<exists>m. gr_minted r t = Some m \<and> cp_route m = route \<and> time < cp_expires m"
  shows "gw_inv r"
  using assms by (auto simp: gw_inv_def)

lemma gw_invD:
  assumes "gw_inv r"
  shows "gw_caps (gr_gw r) t = Some c \<Longrightarrow> (\<exists>m. gr_minted r t = Some m \<and> cap_of m c) \<and> in_quota r t c"
    and "gr_minted r t = Some m \<Longrightarrow> cp_quota m = Some q \<Longrightarrow> uses r t \<le> unat q"
    and "(t, route, time) \<in> set (gr_log r) \<Longrightarrow> \<exists>m. gr_minted r t = Some m \<and> cp_route m = route \<and> time < cp_expires m"
  using assms by (auto simp: gw_inv_def)

lemma mint_step_inv:
  assumes inv: "gw_inv r" and fresh: "token \<notin> dom (gr_minted r)"
  shows "gw_inv (after_mint now token (snd (mint now token provider hs req (gr_gw r))) r)"
proof -
  let ?gw = "snd (mint now token provider hs req (gr_gw r))"
  let ?r = "after_mint now token ?gw r"
  have r: "gr_gw ?r = ?gw" "gr_log ?r = gr_log r" "\<And>t. t \<noteq> token \<Longrightarrow> gr_minted ?r t = gr_minted r t"
    "\<And>c. gw_caps ?gw token = Some c \<Longrightarrow> gr_minted ?r token = Some c" by (simp_all add: after_mint_def)
  have "uses r token = 0" using gw_invD(3)[OF inv] fresh by (fastforce simp: uses_def filter_empty_conv)
  then have uses: "uses ?r token = 0" "\<And>t. uses ?r t = uses r t" by (simp_all add: uses_def r(2))
  have none: "gw_caps (gr_gw r) token = None" using gw_invD(1)[OF inv, of token] fresh by fastforce
  show ?thesis
  proof (rule gw_invI)
    fix t c
    assume c: "gw_caps (gr_gw ?r) t = Some c"
    show "(\<exists>m. gr_minted ?r t = Some m \<and> cap_of m c) \<and> in_quota ?r t c"
    proof (cases "t = token")
      case True
      then have "cp_used c = 0" using c mint_caps[of now token provider hs req "gr_gw r" t c] none r(1) by simp
      then show ?thesis using True c r(1, 4) uses(1) by (simp add: cap_of_def in_quota_def)
    next
      case False
      then have "gw_caps (gr_gw r) t = Some c" using c mint_caps[of now token provider hs req "gr_gw r" t c] r(1) by simp
      from gw_invD(1)[OF inv this] show ?thesis using False r(3) uses(2) by (simp add: in_quota_def)
    qed
  next
    fix t m q
    assume "gr_minted ?r t = Some m" "cp_quota m = Some q"
    then show "uses ?r t \<le> unat q" using gw_invD(2)[OF inv] uses r(3) by (cases "t = token") auto
  next
    fix t route time
    assume "(t, route, time) \<in> set (gr_log ?r)"
    then obtain m where "gr_minted r t = Some m" "cp_route m = route" "time < cp_expires m"
      using gw_invD(3)[OF inv] r(2) by fastforce
    then show "\<exists>m. gr_minted ?r t = Some m \<and> cp_route m = route \<and> time < cp_expires m" using fresh r(3) by (cases "t = token") auto
  qed
qed

lemma revoke_step_inv: "gw_inv r \<Longrightarrow> gw_inv (r\<lparr>gr_gw := snd (revoke hs token (gr_gw r))\<rparr>)"
  by (auto simp: gw_inv_def in_quota_def uses_def dest!: revoke_caps)

lemma uses_log: "gr_log r' = gr_log r @ xs \<Longrightarrow> uses r' t = uses r t + length (filter (\<lambda>(u, _). u = t) xs)"
  by (simp add: uses_def)

lemma proxy_step_inv:
  assumes inv: "gw_inv r"
  shows "gw_inv (after_proxy now rq (proxy now rq (gr_gw r)) r)"
proof -
  let ?gw = "gr_gw r" and ?r = "after_proxy now rq (proxy now rq (gr_gw r)) r" and ?u = "used_capability (gr_gw r) rq"
  have old: "\<exists>m. gr_minted r t = Some m \<and> cap_of m c" "in_quota r t c" if "gw_caps ?gw t = Some c" for t c
    using inv that by (auto simp: gw_inv_def)
  have minted: "gr_minted ?r = gr_minted r" by (simp add: after_proxy_def)
  show ?thesis
  proof (cases "fst (proxy now rq ?gw)")
    case (Inl p)
    have log: "gr_log ?r = gr_log r" using Inl by (simp add: after_proxy_def)
    have "in_quota ?r t c \<and> (\<exists>m. gr_minted r t = Some m \<and> cap_of m c)" if c: "gw_caps (gr_gw ?r) t = Some c" for t c
    proof -
      from proxy_caps[of now rq ?gw t c] c consider "gw_caps ?gw t = Some c"
        | d where "gw_caps ?gw t = Some d" "c = d\<lparr>cp_used := cp_used d + 1\<rparr>" "\<And>q. cp_quota d = Some q \<Longrightarrow> cp_used d < q"
        by (auto simp: after_proxy_def)
      then show ?thesis
      proof cases
        case 1
        then show ?thesis using old[OF 1] log by (simp add: in_quota_def uses_def)
      next
        case (2 d)
        then show ?thesis using old[OF 2(1)] log next_use by (fastforce simp: in_quota_def uses_def cap_of_def)
      qed
    qed
    then show ?thesis using inv log minted by (auto simp: gw_inv_def uses_def)
  next
    case (Inr out)
    then obtain d where d: "gw_caps ?gw ?u = Some d" "now < cp_expires d" "cp_route d = pr_route rq"
      "\<And>q. cp_quota d = Some q \<Longrightarrow> cp_used d < q"
      "gw_caps (snd (proxy now rq ?gw)) ?u = Some (d\<lparr>cp_used := cp_used d + 1\<rparr>)"
      by (rule proxy_forwards) blast
    obtain m where m: "gr_minted r ?u = Some m" "cap_of m d" using old(1)[OF d(1)] by blast
    have log: "gr_log ?r = gr_log r @ [(?u, pr_route rq, now)]" using Inr by (simp add: after_proxy_def)
    have uses: "uses ?r t = uses r t + (if t = ?u then 1 else 0)" for t using uses_log[OF log, of t] by auto
    have "in_quota ?r t c \<and> (\<exists>m. gr_minted r t = Some m \<and> cap_of m c)" if c: "gw_caps (gr_gw ?r) t = Some c" for t c
    proof (cases "t = ?u")
      case True
      then have "c = d\<lparr>cp_used := cp_used d + 1\<rparr>" using c d(5) by (simp add: after_proxy_def)
      then show ?thesis using True old(2)[OF d(1)] d(4) next_use m uses[of t]
        by (fastforce simp: in_quota_def cap_of_def)
    next
      case False
      then have "gw_caps ?gw t = Some c" using c proxy_caps[of now rq ?gw t c] by (auto simp: after_proxy_def)
      then show ?thesis using old[of t c] False uses[of t] by (simp add: in_quota_def)
    qed
    moreover have "uses ?r t \<le> unat q" if "gr_minted r t = Some m'" "cp_quota m' = Some q" for t m' q
    proof (cases "t = ?u")
      case True
      then have q: "cp_quota d = Some q" using that m by (simp add: cap_of_def)
      then have "uses r t \<le> unat (cp_used d)" "cp_used d < q" using old(2)[OF d(1)] d(4) True by (auto simp: in_quota_def)
      then show ?thesis using uses[of t] True by (simp add: word_less_nat_alt)
    next
      case False
      then show ?thesis using uses[of t] inv that by (simp add: gw_inv_def)
    qed
    moreover have "\<forall>(t, route, time)\<in>set (gr_log ?r). \<exists>m. gr_minted r t = Some m \<and> cp_route m = route \<and> time < cp_expires m"
      using inv m d(2, 3) log by (auto simp: gw_inv_def cap_of_def)
    ultimately show ?thesis using minted by (auto simp: gw_inv_def)
  qed
qed

lemma gw_step_inv: "gw_step r r' \<Longrightarrow> gw_inv r \<Longrightarrow> gw_inv r'"
  by (induction rule: gw_step.induct) (auto intro: mint_step_inv revoke_step_inv proxy_step_inv)

interpretation gateway_sys: invariant_system fresh_gateway gw_step gw_inv
proof unfold_locales
  show "gw_inv r" if "fresh_gateway r" for r using that by (simp add: fresh_gateway_def gw_inv_def)
qed (rule gw_step_inv)

text \<open>C29: A capability never does more than it was minted for. In every interleaving of minting,
  revoking and proxied requests, each request that was forwarded to a provider used a minted
  capability, on its own route and before it expired; and no capability with a quota was ever used
  more often than its quota.\<close>

theorem capability_is_bounded:
  assumes "reachable fresh_gateway gw_step r"
  shows "(\<forall>(t, route, time)\<in>set (gr_log r). \<exists>m. gr_minted r t = Some m \<and> cp_route m = route \<and> time < cp_expires m) \<and>
    (\<forall>t m q. gr_minted r t = Some m \<longrightarrow> cp_quota m = Some q \<longrightarrow>
      length (filter (\<lambda>(u, _). u = t) (gr_log r)) \<le> unat q)"
  using gateway_sys.reachable_inv[OF assms] by (auto simp: gw_inv_def uses_def)

section \<open>Revocation\<close>

definition dead :: "string \<Rightarrow> gw_run \<Rightarrow> bool" where
  "dead t r \<longleftrightarrow> gw_caps (gr_gw r) t = None \<and> t \<in> dom (gr_minted r)"

lemma dead_step:
  assumes "gw_step r r'" "dead t r"
  shows "dead t r' \<and> uses r' t = uses r t"
  using assms
proof (induction rule: gw_step.induct)
  case (gs_mint r now token provider hs req)
  then have "t \<noteq> token" by (auto simp: dead_def)
  then show ?case using gs_mint mint_caps[of now token provider hs req "gr_gw r" t]
    by (cases "gw_caps (snd (mint now token provider hs req (gr_gw r))) t") (auto simp: dead_def after_mint_def uses_def)
next
  case (gs_revoke r hs token)
  then show ?case using revoke_caps[of hs token "gr_gw r" t]
    by (cases "gw_caps (snd (revoke hs token (gr_gw r))) t") (auto simp: dead_def uses_def)
next
  case (gs_proxy r now rq)
  have "used_capability (gr_gw r) rq \<noteq> t" if "fst (proxy now rq (gr_gw r)) = Inr out" for out
    using proxy_forwards[OF that] gs_proxy by (metis dead_def option.distinct(1))
  then show ?case using gs_proxy proxy_caps[of now rq "gr_gw r" t]
    by (cases "gw_caps (snd (proxy now rq (gr_gw r))) t") (auto simp: dead_def after_proxy_def uses_def split: sum.split)
qed

text \<open>A revoked capability is never used again.\<close>

lemma revoked_capability_is_dead:
  assumes "gw_step\<^sup>*\<^sup>* (r\<lparr>gr_gw := snd (revoke hs t (gr_gw r))\<rparr>) r'" "fst (revoke hs t (gr_gw r)) = NoContent"
    and "gw_exchanges (gr_gw r) t = None" "gw_inv r"
  shows "uses r' t = uses r t"
proof -
  let ?r = "r\<lparr>gr_gw := snd (revoke hs t (gr_gw r))\<rparr>"
  obtain c where c: "gw_caps (gr_gw r) t = Some c" "gw_caps (snd (revoke hs t (gr_gw r))) t = None"
    using assms(2, 3) by (auto simp: revoke_def split: if_splits)
  moreover have "t \<in> dom (gr_minted r)" using assms(4) c(1) unfolding gw_inv_def by blast
  ultimately have "dead t ?r" by (simp add: dead_def)
  with assms(1) have "dead t r' \<and> uses r' t = uses ?r t"
    by (induction rule: rtranclp_induct) (auto dest: dead_step)
  then show ?thesis by (simp add: uses_def)
qed

section \<open>The key stays behind\<close>

text \<open>What a client of the gateway sees of a sequence of requests, for an upstream whose answer
  depends on all of a request but the credential.\<close>

datatype gw_op =
  OpMint time string "string + string \<times> nat" headers mint_request
| OpRevoke headers string
| OpProxy time proxy_request

type_synonym outbound_view = "string \<times> string \<times> headers \<times> string"

definition hide_credential :: "outbound \<Rightarrow> outbound_view" where
  "hide_credential out = (ob_method out, ob_url out, butlast (ob_headers out), ob_body out)"

fun exec_op :: "(outbound_view \<Rightarrow> upstream_reply) \<Rightarrow> gw_op \<Rightarrow> gateway \<Rightarrow> (response + client_response) \<times> gateway" where
  "exec_op up (OpMint now token provider hs req) gw = (case mint now token provider hs req gw of (a, gw1) \<Rightarrow> (Inl a, gw1))"
| "exec_op up (OpRevoke hs token) gw = (case revoke hs token gw of (a, gw1) \<Rightarrow> (Inl a, gw1))"
| "exec_op up (OpProxy now rq) gw = (case serve (\<lambda>out. up (hide_credential out)) now rq gw of (a, gw1) \<Rightarrow> (Inr a, gw1))"

fun exec_ops :: "(outbound_view \<Rightarrow> upstream_reply) \<Rightarrow> gw_op list \<Rightarrow> gateway \<Rightarrow> (response + client_response) list" where
  "exec_ops up [] gw = []"
| "exec_ops up (op # ops) gw = (case exec_op up op gw of (a, gw1) \<Rightarrow> a # exec_ops up ops gw1)"

lemma admit_keys:
  "admit_capability now n c (gw\<lparr>gw_keys := k\<rparr>) = (fst (admit_capability now n c gw), snd (admit_capability now n c gw)\<lparr>gw_keys := k\<rparr>)"
  "gw_keys (snd (admit_capability now n c gw)) = gw_keys gw"
  by (simp_all add: admit_capability_def split: option.split)

lemma admit_same: "admit_capability now n c gw = (x, gw1) \<Longrightarrow> gw_keys gw1 = gw_keys gw"
  using admit_keys(2)[of now n c gw] by simp

lemma serve_keys:
  assumes "dom k = dom (gw_keys gw)"
  shows "serve (\<lambda>out. up (hide_credential out)) now rq (gw\<lparr>gw_keys := k\<rparr>) =
    (case serve (\<lambda>out. up (hide_credential out)) now rq gw of (a, gw1) \<Rightarrow> (a, gw1\<lparr>gw_keys := k\<rparr>))"
proof -
  consider "k (pr_route rq) = None" "gw_keys gw (pr_route rq) = None"
    | x y where "k (pr_route rq) = Some x" "gw_keys gw (pr_route rq) = Some y"
    using assms by (cases "k (pr_route rq)"; cases "gw_keys gw (pr_route rq)") blast+
  then show ?thesis
    by cases (auto simp: serve_def proxy_def admit_keys hide_credential_def outbound_headers_def dest!: admit_same
        split: option.splits prod.splits sum.splits)
qed

lemma mint_keys: "mint now token provider hs req (gw\<lparr>gw_keys := k\<rparr>) =
    (case mint now token provider hs req gw of (a, gw1) \<Rightarrow> (a, gw1\<lparr>gw_keys := k\<rparr>))"
  by (simp add: mint_def admin_ok_def split: option.split sum.split)

lemma revoke_keys: "revoke hs token (gw\<lparr>gw_keys := k\<rparr>) = (case revoke hs token gw of (a, gw1) \<Rightarrow> (a, gw1\<lparr>gw_keys := k\<rparr>))"
  by (simp add: revoke_def admin_ok_def split: option.split)

lemma exec_op_keys:
  assumes "dom k = dom (gw_keys gw)"
  shows "exec_op up op (gw\<lparr>gw_keys := k\<rparr>) = (case exec_op up op gw of (a, gw1) \<Rightarrow> (a, gw1\<lparr>gw_keys := k\<rparr>))"
  by (cases op) (simp_all add: mint_keys revoke_keys serve_keys[OF assms] split: prod.split)

lemma exec_op_same_keys: "gw_keys (snd (exec_op up op gw)) = gw_keys gw"
  by (cases op)
    (auto simp: mint_def revoke_def serve_def proxy_def admit_capability_def split: prod.splits option.splits sum.splits if_splits)

text \<open>C30: The provider key never reaches the sandbox. Run any sequence of mint, revoke and proxy
  requests on two gateways that differ in nothing but the keys of their routes, against an
  upstream that answers every request alike whatever credential it carries: every answer the
  clients get, errors and headers included, is the same. So nothing but the outbound credential
  header depends on a key.\<close>

theorem key_never_reaches_client:
  assumes "dom keys = dom (gw_keys gw)"
  shows "exec_ops upstream ops (gw\<lparr>gw_keys := keys\<rparr>) = exec_ops upstream ops gw"
  using assms
proof (induction ops arbitrary: gw)
  case (Cons op ops)
  obtain a gw1 where e: "exec_op upstream op gw = (a, gw1)" by fastforce
  then have "dom keys = dom (gw_keys gw1)" using exec_op_same_keys[of upstream op gw] Cons.prems by simp
  then show ?case using Cons.IH[of gw1] exec_op_keys[OF Cons.prems, of upstream op] e by simp
qed simp

text \<open>The credential header of a forwarded request is the key of its route and nothing else, and
  the request goes to the upstream of the route.\<close>

lemma forwarded_request_shape:
  assumes "fst (proxy now rq gw) = Inr out"
  obtains r secret where "gw_routes gw (pr_route rq) = Some r" "gw_keys gw (pr_route rq) = Some secret"
    "filter (\<lambda>(n, v). n = cr_header r) (ob_headers out) = [(cr_header r, credential_value (cr_header r) secret)]"
    "prefix (trim_end_slashes (cr_upstream r) @ ''/'') (ob_url out)"
  using assms
  by (auto simp: proxy_def outbound_headers_def outbound_url_def filter_empty_conv dest!: admit_same
      split: option.splits prod.splits sum.splits)

section \<open>Instances and a gap\<close>

definition demo_gateway :: gateway where
  "demo_gateway = \<lparr>gw_routes = [''anthropic'' \<mapsto> \<lparr>cr_upstream = ''https://api'', cr_header = ''x-api-key''\<rparr>],
     gw_keys = [''anthropic'' \<mapsto> ''sk''], gw_exchange = {}, gw_admin = ''adm'', gw_caps = Map.empty, gw_exchanges = Map.empty\<rparr>"

definition admin_headers :: headers where
  "admin_headers = [(''authorization'', ''Bearer adm'')]"

definition demo_mint :: mint_request where
  "demo_mint = \<lparr>mr_attempt_id = ''a1'', mr_route = ''anthropic'', mr_ttl_secs = 60, mr_quota = Some 1\<rparr>"

definition demo_call :: "headers \<Rightarrow> proxy_request" where
  "demo_call hs = \<lparr>pr_route = ''anthropic'', pr_rest = ''v1'', pr_query = None, pr_method = ''POST'', pr_headers = hs, pr_body = Some ''b''\<rparr>"

definition demo_start :: gw_run where
  "demo_start = \<lparr>gr_gw = demo_gateway, gr_now = 0, gr_minted = Map.empty, gr_log = []\<rparr>"

definition demo_minted :: gw_run where
  "demo_minted = after_mint 0 ''c'' (snd (mint 0 ''c'' (Inl []) admin_headers demo_mint (gr_gw demo_start))) demo_start"

definition demo_used :: gw_run where
  "demo_used = after_proxy 1 (demo_call [(''x-api-key'', ''c'')])
     (proxy 1 (demo_call [(''x-api-key'', ''c'')]) (gr_gw demo_minted)) demo_minted"

lemmas demo_eval = demo_used_def demo_minted_def demo_start_def demo_call_def demo_mint_def demo_gateway_def admin_headers_def
  after_mint_def after_proxy_def mint_def proxy_def admit_capability_def used_capability_def capability_from_def header_str_def
  nonempty_def visible_def admin_ok_def constant_time_eq_iff strip_prefix_def clamp_ttl_def secs_def trim_def trim_start_def
  trim_end_def is_ws_def retain_caps_def

lemma demo_used_log: "gr_log demo_used = [(''c'', ''anthropic'', 1)]" "\<exists>m. gr_minted demo_used ''c'' = Some m \<and> cp_quota m = Some 1"
  by (simp_all add: demo_eval)

theorem capability_is_bounded_witness:
  "gr_log demo_used = [(''c'', ''anthropic'', 1)] \<and>
   (\<exists>m. gr_minted demo_used ''c'' = Some m \<and> cp_quota m = Some 1 \<and> length (filter (\<lambda>(u, _). u = ''c'') (gr_log demo_used)) \<le> unat (1 :: 32 word))"
proof -
  have "fresh_gateway demo_start" by (simp add: fresh_gateway_def demo_start_def demo_gateway_def)
  then have "reachable fresh_gateway gw_step demo_start" by (rule reach_init)
  then have "reachable fresh_gateway gw_step demo_minted"
    unfolding demo_minted_def by (rule reach_step) (rule gs_mint; simp add: demo_start_def)
  then have "reachable fresh_gateway gw_step demo_used"
    unfolding demo_used_def by (rule reach_step) (rule gs_proxy, simp add: demo_minted_def demo_start_def after_mint_def)
  from capability_is_bounded[OF this] show ?thesis using demo_used_log by blast
qed

theorem key_never_reaches_client_witness:
  "exec_ops (\<lambda>v. UpReply 200 [] ''ok'')
     [OpMint 0 ''c'' (Inl []) admin_headers demo_mint, OpProxy 1 (demo_call [(''x-api-key'', ''c'')])]
     (demo_gateway\<lparr>gw_keys := [''anthropic'' \<mapsto> ''other'']\<rparr>) =
   exec_ops (\<lambda>v. UpReply 200 [] ''ok'')
     [OpMint 0 ''c'' (Inl []) admin_headers demo_mint, OpProxy 1 (demo_call [(''x-api-key'', ''c'')])] demo_gateway"
  by (rule key_never_reaches_client) (simp add: demo_gateway_def)

text \<open>A client that only speaks bearer tokens: the capability is accepted, but its header is not the
  one of the route, so it is forwarded beside the real key.\<close>

lemma bearer_capability_is_forwarded:
  "\<exists>out gw. proxy 1 (demo_call [(''authorization'', ''Bearer c'')]) (gr_gw demo_minted) = (Inr out, gw) \<and>
     ob_headers out = [(''authorization'', ''Bearer c''), (''x-api-key'', ''sk'')]"
  by (simp add: demo_eval outbound_headers_def credential_value_def HOP_BY_HOP_def)

end
