(* ===== verification/CredClient.thy ===== *)
theory CredClient
  imports CredProps
begin

text \<open>
  The node's side of the credential gateway (\<open>node-daemon/src/cred_gateway.rs\<close>), composed with the
  gateway itself: the refusal of attempts whose surroundings cannot protect a credential, minting
  for every entry of the environment, and revocation at the end of the attempt.
\<close>

section \<open>Refusal\<close>

datatype sandbox_kind = SandboxNone | Docker | Systemd | Bwrap

definition resolved_network_mode :: "string option \<Rightarrow> string option \<Rightarrow> string \<Rightarrow> string" where
  "resolved_network_mode proxy_network proxy_url mode =
     (if mode = ''restricted''
      then (case (proxy_network, proxy_url) of (Some net, Some _) \<Rightarrow> net | _ \<Rightarrow> ''none'')
      else if mode = ''unrestricted'' then ''bridge''
      else ''none'')"

record gw_settings =
  gs_admin :: string
  gs_ttl_secs :: nat
  gs_quota :: "32 word option"

datatype refusal = NotConfigured | NeedsDocker | NeedsEgressExchange | NeedsEgress

definition refusal_for ::
    "string option \<Rightarrow> string option \<Rightarrow> nat \<Rightarrow> nat \<Rightarrow> sandbox_kind \<Rightarrow> string option \<Rightarrow> gw_settings option \<Rightarrow> refusal option" where
  "refusal_for proxy_network proxy_url inject exchange sandbox network_mode settings =
     (if inject = 0 \<and> exchange = 0 then None
      else if settings = None then Some NotConfigured
      else if sandbox \<noteq> Docker then Some NeedsDocker
      else if resolved_network_mode proxy_network proxy_url (case network_mode of Some m \<Rightarrow> m | None \<Rightarrow> ''restricted'') = ''none''
      then Some (if 0 < exchange then NeedsEgressExchange else NeedsEgress)
      else None)"

section \<open>Minting for an attempt\<close>

text \<open>What a mint request meets: the clock and the draws of the gateway, and whether the request and
  its answer get through.\<close>

datatype fate = Unreachable | AnswerLost | Answered

record mint_env =
  me_now :: time
  me_token :: string
  me_provider :: "string + string \<times> nat"
  me_fate :: fate

datatype apply_error = GatewayUnreachable | GatewayRefused string nat string

definition mint_for :: "gw_settings \<Rightarrow> id \<Rightarrow> string \<Rightarrow> mint_env \<Rightarrow> gateway \<Rightarrow> response \<times> gateway" where
  "mint_for s attempt route me gw =
     mint (me_now me) (me_token me) (me_provider me) [(''authorization'', ''Bearer '' @ gs_admin s)]
       \<lparr>mr_attempt_id = attempt, mr_route = route, mr_ttl_secs = gs_ttl_secs s, mr_quota = gs_quota s\<rparr> gw"

fun apply_entries ::
    "gw_settings \<Rightarrow> id \<Rightarrow> (string \<times> string) list \<Rightarrow> (nat \<Rightarrow> mint_env) \<Rightarrow> nat \<Rightarrow> (string \<times> string) list \<Rightarrow> string list \<Rightarrow> gateway
      \<Rightarrow> (apply_error + (string \<times> string) list \<times> string list) \<times> gateway" where
  "apply_entries s attempt [] es n env minted gw = (Inr (env, minted), gw)"
| "apply_entries s attempt ((name, route) # rest) es n env minted gw =
     (if me_fate (es n) = Unreachable then (Inl GatewayUnreachable, gw)
      else
        (case mint_for s attempt route (es n) gw of (resp, gw1) \<Rightarrow>
           if me_fate (es n) = AnswerLost then (Inl GatewayUnreachable, gw1)
           else
             (case resp of
                Minted token r expires_in \<Rightarrow>
                  apply_entries s attempt rest es (Suc n) (env @ [(name, token)]) (minted @ [token]) gw1
              | Problem code body \<Rightarrow> (Inl (GatewayRefused route code body), gw1)
              | _ \<Rightarrow> (Inl (GatewayRefused route 0 []), gw1))))"

definition apply_with ::
    "gw_settings \<Rightarrow> id \<Rightarrow> (string \<times> string) list \<Rightarrow> (string \<times> string) list \<Rightarrow> (nat \<Rightarrow> mint_env) \<Rightarrow> (string \<times> string) list \<Rightarrow> gateway
      \<Rightarrow> (apply_error + (string \<times> string) list \<times> string list) \<times> gateway" where
  "apply_with s attempt gateway_env exchange_env es env gw = apply_entries s attempt (gateway_env @ exchange_env) es 0 env [] gw"

text \<open>Revocation is best effort: a request that does not arrive is skipped.\<close>

fun revoke_with :: "gw_settings \<Rightarrow> (string \<times> bool) list \<Rightarrow> gateway \<Rightarrow> gateway" where
  "revoke_with s [] gw = gw"
| "revoke_with s ((token, arrives) # ts) gw =
     revoke_with s ts (if arrives then snd (revoke [(''authorization'', ''Bearer '' @ gs_admin s)] token gw) else gw)"

section \<open>What an attempt leaves behind\<close>

lemma admin_header: "list_all visible a \<Longrightarrow> gw_admin gw = a \<Longrightarrow> admin_ok gw [(''authorization'', ''Bearer '' @ a)]"
  by (simp add: admin_ok_def header_str_def visible_def strip_prefix_def constant_time_eq_iff)

lemma mint_admin: "gw_admin (snd (mint now token provider hs req gw)) = gw_admin gw"
  by (auto simp: mint_def split: sum.split)

lemma apply_mints:
  assumes "apply_entries s attempt ents es n env minted gw = (Inr (env', minted'), gw')"
  shows "\<exists>toks. minted' = minted @ toks \<and> env' = env @ zip (map fst ents) toks \<and> length toks = length ents \<and>
    gw_admin gw' = gw_admin gw"
  using assms
proof (induction s attempt ents es n env minted gw rule: apply_entries.induct)
  case (2 s attempt name route rest es n env minted gw)
  obtain resp gw1 where m: "mint_for s attempt route (es n) gw = (resp, gw1)" by fastforce
  then obtain token r x where resp: "resp = Minted token r x" and f: "me_fate (es n) = Answered"
    and rec: "apply_entries s attempt rest es (Suc n) (env @ [(name, token)]) (minted @ [token]) gw1 = (Inr (env', minted'), gw')"
    using 2(2) by (cases "me_fate (es n)"; cases resp) auto
  have "gw_admin gw1 = gw_admin gw" using m mint_admin by (metis mint_for_def snd_conv)
  moreover obtain toks where "minted' = (minted @ [token]) @ toks" "env' = (env @ [(name, token)]) @ zip (map fst rest) toks"
    "length toks = length rest" "gw_admin gw' = gw_admin gw1"
    using 2(1)[OF _ m[symmetric] _ resp] f rec by (auto simp: m)
  ultimately show ?case by (intro exI[of _ "token # toks"]) simp
qed simp

lemma revoke_drops: "admin_ok gw hs \<Longrightarrow> gw_exchanges gw t = None \<Longrightarrow> gw_caps (snd (revoke hs t gw)) t = None"
  by (simp add: revoke_def)

lemma revoke_keeps:
  "gw_exchanges gw t = None \<Longrightarrow> gw_exchanges (snd (revoke hs u gw)) t = None"
  "gw_caps gw t = None \<Longrightarrow> gw_caps (snd (revoke hs u gw)) t = None"
  "gw_admin (snd (revoke hs u gw)) = gw_admin gw"
  by (auto simp: revoke_def)

lemma revoke_with_dead: "gw_caps gw t = None \<Longrightarrow> gw_caps (revoke_with s ts gw) t = None"
  by (induction s ts gw rule: revoke_with.induct) (auto simp: revoke_keeps)

text \<open>When the attempt started with its credentials and the revocations arrive, none of its
  capabilities is left in the gateway.\<close>

lemma finished_attempt_leaves_nothing:
  assumes "(t, True) \<in> set ts" "list_all visible (gs_admin s)" "gw_admin gw = gs_admin s" "gw_exchanges gw t = None"
  shows "gw_caps (revoke_with s ts gw) t = None"
  using assms
proof (induction s ts gw rule: revoke_with.induct)
  case (2 s token arrives ts gw)
  let ?hs = "[(''authorization'', ''Bearer '' @ gs_admin s)]"
  let ?gw = "if arrives then snd (revoke ?hs token gw) else gw"
  have gw: "gw_admin ?gw = gs_admin s" "gw_exchanges ?gw t = None" using 2(4, 5) by (simp_all add: revoke_keeps)
  show ?case
  proof (cases "(t, True) \<in> set ts")
    case True
    then show ?thesis using 2(1)[OF True 2(3) gw] by simp
  next
    case False
    then have "token = t" "arrives" using 2(2) by auto
    then have "gw_caps ?gw t = None" using revoke_drops[OF admin_header[OF 2(3, 4)] 2(5)] by simp
    then show ?thesis using revoke_with_dead by simp
  qed
qed simp

text \<open>But when a later entry fails, the attempt is refused and the tokens minted so far are
  forgotten: they stay valid until they expire, and the node no longer knows them.\<close>

lemma failed_start_leaves_tokens:
  assumes "mint_for s attempt route (es 0) gw = (Minted token route x, gw1)" "me_fate (es 0) = Answered" "me_fate (es 1) = Unreachable"
  shows "apply_with s attempt ((name, route) # (name2, route2) # rest) [] es env gw = (Inl GatewayUnreachable, gw1)"
  using assms by (simp add: apply_with_def)

text \<open>And an attempt with unrestricted networking is not refused, though an exchanged token is real
  and the refusal says that it needs the restricted mode with an egress proxy.\<close>

lemma unrestricted_exchange_not_refused:
  "refusal_for proxy_network proxy_url inject exchange Docker (Some ''unrestricted'') (Some settings) = None"
  by (simp add: refusal_for_def resolved_network_mode_def)

end
