(* ===== verification/Consensus.thy ===== *)
theory Consensus
  imports StoreProps
begin

text \<open>
  Groups of tasks that solve or review the same thing (\<open>maybe_collapse_consensus\<close> and
  \<open>collapse_review_consensus\<close> of \<open>store/attempts.rs\<close>). A group that solves asks a human when two
  patches differ; a group that reviews answers the pending patch review when every reviewer
  approves. Upper case is that of ASCII letters. The reader of the \<open>text\<close> field of a JSON payload
  is an argument.
\<close>

section \<open>Text\<close>

definition to_upper :: "char \<Rightarrow> char" where
  "to_upper c = (if ascii_lower c then char_of (of_char c - 32 :: nat) else c)"

definition to_uppercase :: "string \<Rightarrow> string" where
  "to_uppercase s = map to_upper s"

text \<open>A byte that begins a character of UTF-8 text.\<close>

definition char_start :: "char \<Rightarrow> bool" where
  "char_start c \<longleftrightarrow> (of_char c :: nat) div 64 \<noteq> 2"

fun take_chars :: "nat \<Rightarrow> string \<Rightarrow> string" where
  "take_chars n [] = []"
| "take_chars n (c # cs) =
     (if char_start c then (case n of 0 \<Rightarrow> [] | Suc m \<Rightarrow> c # take_chars m cs) else c # take_chars n cs)"

text \<open>The operator \<open>LIKE\<close> of SQLite: \<open>%\<close> stands for any text, \<open>_\<close> for one character, and ASCII
  letters match without regard to case.\<close>

function like :: "string \<Rightarrow> string \<Rightarrow> bool" where
  "like [] s \<longleftrightarrow> s = []"
| "like (p # ps) s \<longleftrightarrow>
     (if p = CHR ''%'' then like ps s \<or> (case s of [] \<Rightarrow> False | c # cs \<Rightarrow> like (p # ps) cs)
      else case s of
             [] \<Rightarrow> False
           | c # cs \<Rightarrow>
               if p = CHR ''_'' then like ps (dropWhile (\<lambda>b. \<not> char_start b) cs)
               else to_lower p = to_lower c \<and> like ps cs)"
  by pat_completeness auto

termination
  by (relation "measure (\<lambda>(p, s). length p + length s)") (auto simp: le_imp_less_Suc le_SucI add_le_mono length_dropWhile_le)

declare like.simps [simp del]

section \<open>Reading the members\<close>

record artifact_meta =
  am_name :: string
  am_size_bytes :: nat
  am_media_type :: "string option"
  am_sha256 :: "string option"

definition read_artifact_meta :: "store \<Rightarrow> id \<Rightarrow> string \<Rightarrow> artifact_meta option" where
  "read_artifact_meta st tid name =
     Option.bind (latest_attempt_id st tid) (\<lambda>aid.
       map_option (\<lambda>r. \<lparr>am_name = name, am_size_bytes = ar_size_bytes r, am_media_type = ar_media_type r, am_sha256 = ar_sha256 r\<rparr>)
         (sql_first (\<lambda>r. ar_attempt_id r = aid \<and> ar_name r = name) (artifacts st)))"

definition latest_result_text :: "(string \<Rightarrow> string option) \<Rightarrow> store \<Rightarrow> id \<Rightarrow> string option" where
  "latest_result_text json_text st aid =
     (case sort_key (\<lambda>e. - e_sequence e) (filter (\<lambda>e. e_attempt_id e = aid \<and> e_type e = EvtResult) (task_events st)) of
        [] \<Rightarrow> None
      | e # _ \<Rightarrow> Some (take_chars 2000 (case json_text (e_payload e) of Some t \<Rightarrow> t | None \<Rightarrow> e_payload e)))"

definition group_of :: "store \<Rightarrow> id \<Rightarrow> string option" where
  "group_of st tid = Option.bind (find_task st tid) (\<lambda>t. ts_consensus_group_id (t_spec t))"

definition group_rows :: "store \<Rightarrow> string \<Rightarrow> task_row list" where
  "group_rows st g = sort_key t_id (filter (\<lambda>t. ts_consensus_group_id (t_spec t) = Some g) (tasks st))"

definition decided :: "task_row \<Rightarrow> bool" where
  "decided t \<longleftrightarrow> t_status t \<in> {TaskSucceeded, TaskFailed, TaskCancelled}"

definition or_empty :: "string option \<Rightarrow> string" where
  "or_empty m = (case m of Some s \<Rightarrow> s | None \<Rightarrow> [])"

section \<open>Solving groups\<close>

definition member_patch :: "store \<Rightarrow> task_row \<Rightarrow> (string \<times> string) option" where
  "member_patch st t =
     (if t_status t \<noteq> TaskSucceeded then None
      else Option.bind (read_artifact_meta st (t_id t) ''changes.patch'') (\<lambda>meta.
             map_option (\<lambda>sha. (or_empty (ts_consensus_member (t_spec t)), sha)) (am_sha256 meta)))"

definition patch_shas :: "store \<Rightarrow> task_row list \<Rightarrow> (string \<times> string) list" where
  "patch_shas st rows = List.map_filter (member_patch st) rows"

definition disagreement :: "(string \<times> string) list \<Rightarrow> bool" where
  "disagreement shas \<longleftrightarrow> \<not> length shas < 2 \<and> list_ex (\<lambda>(_, s). s \<noteq> snd (hd shas)) shas"

definition disagreement_permission :: "string \<Rightarrow> string list \<Rightarrow> string" where
  "disagreement_permission g members =
     ''{'' @ json_str ''group'' @ '':'' @ json_str g @ '','' @ json_str ''kind'' @ '':'' @ json_str ''consensus_disagreement'' @
     '','' @ json_str ''members'' @ '':['' @ join '','' (map json_str members) @ '']}''"

definition group_mentioned :: "string \<Rightarrow> store \<Rightarrow> bool" where
  "group_mentioned g st \<longleftrightarrow>
     0 < sql_count (\<lambda>r. like ([CHR ''%''] @ g @ [CHR ''%'']) (ap_permission r) \<and>
           (\<exists>t\<in>set (tasks st). t_id t = ap_task_id r \<and> ts_consensus_group_id (t_spec t) = Some g)) (approvals st)"

definition collapse_solve :: "time \<Rightarrow> id \<Rightarrow> id \<Rightarrow> string \<Rightarrow> task_row list \<Rightarrow> store \<Rightarrow> store" where
  "collapse_solve now apid tid g rows st =
     (let shas = patch_shas st rows
      in if \<not> disagreement shas \<or> group_mentioned g st then st
         else st\<lparr>approvals := approvals st @
           [\<lparr>ap_id = apid, ap_task_id = tid, ap_attempt_id = None, ap_session_id = None,
             ap_permission = disagreement_permission g (map fst shas), ap_status = ApprovalPending, ap_reason = None,
             ap_actor = None, ap_created_at = now, ap_expires_at = now + secs 86400, ap_decided_at = None,
             ap_step_run_id = None, ap_scope = ''consensus_disagreement''\<rparr>]\<rparr>)"

section \<open>Reviewing groups\<close>

datatype verdict = Absent | Reject | Approve | Unclear

fun verdict_str :: "verdict \<Rightarrow> string" where
  "verdict_str Absent = ''absent''"
| "verdict_str Reject = ''reject''"
| "verdict_str Approve = ''approve''"
| "verdict_str Unclear = ''unclear''"

definition verdict_of :: "string \<Rightarrow> verdict" where
  "verdict_of text =
     (let upper = to_uppercase text
      in if sublist ''REJECT'' upper then Reject else if sublist ''APPROVE'' upper then Approve else Unclear)"

definition member_verdict :: "(string \<Rightarrow> string option) \<Rightarrow> store \<Rightarrow> task_row \<Rightarrow> string \<times> verdict" where
  "member_verdict json_text st t =
     (or_empty (ts_consensus_member (t_spec t)),
      if t_status t \<noteq> TaskSucceeded then Absent
      else verdict_of (or_empty (Option.bind (latest_attempt_id st (t_id t)) (latest_result_text json_text st))))"

definition review_marked :: "string \<Rightarrow> store \<Rightarrow> bool" where
  "review_marked g st \<longleftrightarrow>
     0 < sql_count (\<lambda>r. au_actor_id r = Some g \<and> like ''review_consensus.%'' (au_action r)) (audits st)"

definition collapse_review_consensus :: "(string \<Rightarrow> string option) \<Rightarrow> time \<Rightarrow> string \<Rightarrow> task_row list \<Rightarrow> store \<Rightarrow> store" where
  "collapse_review_consensus json_text now g rows st =
     (case List.map_filter (\<lambda>t. ts_review_of (t_spec t)) rows of
        [] \<Rightarrow> st
      | review_of # _ \<Rightarrow>
          (let verdicts = map (member_verdict json_text st) rows;
               all_approve = list_all (\<lambda>(_, v). v = Approve) verdicts;
               summary = join '','' (map (\<lambda>(m, v). m @ ''='' @ verdict_str v) verdicts)
           in if verdicts = [] \<or> review_marked g st then st
              else
                (let st1 = audit now ''consensus_group'' (Some g)
                       (if all_approve then ''review_consensus.approved'' else ''review_consensus.disagreement'')
                       (Some review_of) (Some summary) st
                 in if \<not> all_approve then st1
                    else
                      (case find_pending_patch_review st1 review_of of
                         None \<Rightarrow> st1
                       | Some ap \<Rightarrow>
                           snd (answer_approval now (ap_id ap) EvAllow (Some (''consensus review: '' @ summary))
                             ''consensus-review'' st1)))))"

definition maybe_collapse_consensus :: "(string \<Rightarrow> string option) \<Rightarrow> time \<Rightarrow> id \<Rightarrow> id \<Rightarrow> store \<Rightarrow> store" where
  "maybe_collapse_consensus json_text now apid tid st =
     (case group_of st tid of
        None \<Rightarrow> st
      | Some g \<Rightarrow>
          (let rows = group_rows st g
           in if rows = [] \<or> \<not> list_all decided rows then st
              else if ts_consensus_mode (t_spec (hd rows)) = ''review''
              then collapse_review_consensus json_text now g rows st
              else collapse_solve now apid tid g rows st))"

end
