(* ===== verification/ConsensusProps.thy ===== *)
theory ConsensusProps
  imports Consensus
begin

text \<open>
  What a consensus group decides and how often. A group that solves asks a human exactly when two
  successful members delivered different patches; a group that reviews allows the patch exactly
  when every member succeeded and approved; and whatever happens to the store afterwards, a group
  decides once. The last rests on the fact that every store operation keeps the rows of the tables
  involved. Two ways around the intention: a refusal that contains the word, and group names that
  JSON escapes.
\<close>

section \<open>Rows are kept\<close>

definition ap_view :: "store \<Rightarrow> (id \<times> string) list" where
  "ap_view st = map (\<lambda>r. (ap_task_id r, ap_permission r)) (approvals st)"

definition t_view :: "store \<Rightarrow> (id \<times> task_spec) list" where
  "t_view st = map (\<lambda>t. (t_id t, t_spec t)) (tasks st)"

definition grows :: "store \<Rightarrow> store \<Rightarrow> bool" where
  "grows st st' \<longleftrightarrow> prefix (ap_view st) (ap_view st') \<and> prefix (audits st) (audits st') \<and> prefix (t_view st) (t_view st')"

lemma grows_refl [simp]: "grows st st"
  by (simp add: grows_def)

lemma grows_trans: "grows st st1 \<Longrightarrow> grows st1 st2 \<Longrightarrow> grows st st2"
  by (auto simp: grows_def intro: prefix_order.trans)

lemma grows_same: "ap_view st' = ap_view st \<Longrightarrow> audits st' = audits st \<Longrightarrow> t_view st' = t_view st \<Longrightarrow> grows st st'"
  by (simp add: grows_def)

lemma grows_audit [simp]: "grows st (audit now ty ac an su pl st)"
  by (simp add: grows_def audit_def ap_view_def t_view_def)

lemma grows_tasks: "(\<And>t. t_id (f t) = t_id t \<and> t_spec (f t) = t_spec t) \<Longrightarrow> grows st (st\<lparr>tasks := sql_update p f (tasks st)\<rparr>)"
  by (simp add: grows_def ap_view_def t_view_def map_sql_update)

lemma grows_approvals: "(\<And>r. ap_task_id (f r) = ap_task_id r \<and> ap_permission (f r) = ap_permission r) \<Longrightarrow>
    grows st (st\<lparr>approvals := sql_update p f (approvals st)\<rparr>)"
  by (simp add: grows_def ap_view_def t_view_def map_sql_update)

lemmas grows_defs = grows_def ap_view_def t_view_def

lemma grows_fields [simp]:
  "grows st (st\<lparr>capacity_pressure := cp\<rparr>)"
  "grows st (st\<lparr>attempts := as\<rparr>)"
  "grows st (st\<lparr>nodes := ns\<rparr>)"
  by (simp_all add: grows_defs)

lemma grows_helpers [simp]:
  "grows st (update_attempt i f st)"
  "grows st (dec_active nid m st)"
  "grows st (inc_active nid m st)"
  "grows st (finish_agent_session now aid s ec st)"
  "grows st (record_metrics now a req st)"
  "grows st (snd (save_artifact_bytes cd now aid name b mt sha st))"
  "grows st (snd (insert_event row st))"
  "grows st (append_event now aid payload st)"
  "grows st (append_audit_event now aid kind txt st)"
  "grows st (insert_verification_note now aid txt st)"
  by (simp_all add: update_attempt_def dec_active_def inc_active_def finish_agent_session_def record_metrics_def
      save_artifact_bytes_def insert_event_def append_event_def append_audit_event_def insert_verification_note_def
      Let_def grows_defs split: option.split sum.split)

lemma grows_stamp [simp]: "grows st (stamp_eval_case ex now aid sha cmd st)"
  by (simp add: stamp_eval_case_def split: option.split)

lemma grows_bake [simp]: "grows st (bake_resume_digest ex now tid prompt st)"
proof -
  have "grows st st1" if "save_artifact_bytes cd now aid name b mt sha st = (r, st1)" for cd aid name b mt sha r st1
    using grows_helpers(6)[of st cd now aid name b mt sha] that by simp
  then show ?thesis
    by (auto simp: bake_resume_digest_def Let_def intro: grows_trans[OF _ grows_helpers(1)] split: option.split sum.split prod.split)
qed

lemma grows_insert_events [simp]: "grows st (snd (insert_events now aid c evs st))"
proof (induction evs arbitrary: c st)
  case (Cons ev evs)
  then show ?case by (auto simp: case_prod_beta intro: grows_trans[OF grows_helpers(7)])
qed simp

lemma grows_ingest [simp]: "grows st (snd (ingest_events now aid evs st))"
  by (auto simp: ingest_events_def Let_def case_prod_beta intro!: grows_trans[OF _ grows_insert_events] split: option.split)
    (simp_all add: grows_defs map_sql_update)

lemma grows_requeue [simp]: "grows st (snd (requeue_lost_attempt tid aid nid now reason pol st))"
  by (auto simp: requeue_lost_attempt_def Let_def intro: grows_trans[OF grows_tasks grows_audit] grows_tasks)

lemma grows_lose_one [simp]: "grows st (lose_one nid now r st)"
  by (cases r) (auto simp: lose_one_def Let_def case_prod_beta
      intro!: grows_trans[OF grows_helpers(1) grows_requeue] grows_trans[OF grows_trans[OF grows_helpers(1) grows_requeue] grows_tasks])

lemma grows_fold: "(\<And>x s. grows s (f x s)) \<Longrightarrow> grows st (fold f xs st)"
  by (induction xs arbitrary: st) (auto intro: grows_trans)

lemma grows_fold_snd: "(\<And>x s. grows (snd s) (snd (f x s))) \<Longrightarrow> grows (snd st) (snd (fold f xs st))"
  by (induction xs arbitrary: st) (simp, metis fold_simps(2) grows_trans)

lemma grows_lose [simp]: "grows st (lose_node_attempts now nid st)"
  by (auto simp: lose_node_attempts_def Let_def intro: grows_trans[OF grows_fold grows_helpers(2)])

lemma grows_revert [simp]: "grows st (snd (revert_expired_leases now fence st))"
proof -
  have "grows (snd acc) (snd (revert_one now fence a acc))" for a acc
    by (cases acc) (auto simp: revert_one_def Let_def grows_defs dec_active_def map_sql_update)
  then show ?thesis using grows_fold_snd[of "revert_one now fence" "(0, st)"] by (simp add: revert_expired_leases_def)
qed

lemma grows_lose_offline [simp]: "grows st (lose_node_attempts_if_offline now nid st)"
  by (simp add: lose_node_attempts_if_offline_def split: option.split)

lemma grows_assign [simp]: "grows st (snd (try_assign_batch env now draw nid limit st))"
proof -
  have "grows (snd acc) (snd (assign_one now draw nid st0 t acc))" for st0 t acc
    by (cases acc; cases "draw (t_id t)") (auto simp: assign_one_def Let_def grows_defs inc_active_def map_sql_update)
  then have f: "grows (snd acc) (snd (fold (assign_one now draw nid st0) el acc))" for st0 el acc
    by (rule grows_fold_snd)
  have "grows st st1" if "fold (assign_one now draw nid st) el ([], st) = (b, st1)" for el b st1
    using f[of "([], st)" st el] that by simp
  then show ?thesis
    by (auto simp: try_assign_batch_def Let_def intro: grows_trans[OF _ grows_helpers(3)] split: option.split gate_result.split prod.split)
qed

lemma grows_commit [simp]: "grows st (complete_commit now apid a t req ats tt st)"
proof -
  define st1 where "st1 = update_attempt (a_id a)
      (\<lambda>r. r\<lparr>a_status := ats, a_finished_at := Some now, a_report := apply_report req (a_report r)\<rparr>)
      (finish_agent_session now (a_id a) (if req_success req then ''done'' else ''failed'') (cr_error_code req) st)"
  define st2 where "st2 = (if tt = TaskSucceeded \<and> cr_commit_sha req \<noteq> None
      \<and> sql_count (\<lambda>e. e_attempt_id e = a_id a \<and> e_type e = EvtResult) (task_events st1) = 0
      then insert_verification_note now (a_id a) silent_success_note st1 else st1)"
  have "grows st st1" unfolding st1_def by (rule grows_trans[OF grows_helpers(4) grows_helpers(1)])
  moreover have "grows st1 st2" by (simp add: st2_def)
  moreover have "grows st2 (complete_commit now apid a t req ats tt st)"
    unfolding complete_commit_def Let_def st1_def [symmetric] st2_def [symmetric]
    by (auto simp: grows_defs dec_active_def completed_task_def record_metrics_def Let_def map_sql_update split: option.split)
  ultimately show ?thesis by (blast intro: grows_trans)
qed

lemma grows_complete [simp]: "grows st (snd (complete_attempt ex now apid aid req st))"
  by (auto simp: complete_attempt_def Let_def split: option.split sum.split
      intro: grows_trans[OF grows_commit grows_stamp]
        grows_trans[OF grows_trans[OF grows_trans[OF grows_commit grows_stamp] grows_bake] grows_audit])

lemma grows_lifecycle [simp]:
  "grows st (snd (create_task now tid req st))"
  "grows st (snd (insert_task_tx now tid req st))"
  "grows st (snd (ack_attempt now aid st))"
  "grows st (snd (begin_validate now aid st))"
  "grows st (snd (cancel_task now tid st))"
  "grows st (create_agent_session now aid adapter st)"
  "grows st (create_approval now apid tid aid session perm ttl step scope st)"
  "grows st (snd (answer_approval now apid ev reason2 actor st))"
  by (simp_all add: create_task_def insert_task_tx_def ack_attempt_def begin_validate_def
      cancel_task_def create_agent_session_def create_approval_def answer_approval_def
      request_cancel_def Let_def case_prod_beta grows_defs map_sql_update split: option.split sum.split)

lemma grows_retry [simp]: "grows st (snd (retry_task ex now tid st))"
  by (auto simp: retry_task_def intro!: grows_trans[OF grows_tasks grows_bake] split: option.split)

lemma grows_reject [simp]: "grows st (snd (reject_assignment now aid reason st))"
proof -
  have r: "grows st st2" if "requeue_lost_attempt tid i nid now why pol (st\<lparr>attempts := as\<rparr>) = (b, st2)" for tid i nid why pol as st2 b
    using grows_trans[OF grows_fields(2) grows_requeue[of "st\<lparr>attempts := as\<rparr>" tid i nid now why pol]] that by simp
  show ?thesis
    by (auto simp: reject_assignment_def Let_def split: option.split prod.split
      intro!: grows_trans[OF _ grows_audit] grows_trans[OF _ grows_helpers(2)] grows_trans[OF _ grows_tasks] intro: r)
qed

lemma grows_offline [simp]:
  "grows st (mark_offline_nodes now st)"
  "grows st (snd (mark_node_offline now nid st))"
proof -
  have "grows st (offline_one now n st)" for n st
    by (auto simp: offline_one_def Let_def intro: grows_trans[OF grows_fields(3) grows_lose])
  then show "grows st (mark_offline_nodes now st)" by (simp add: mark_offline_nodes_def grows_fold)
  show "grows st (snd (mark_node_offline now nid st))"
    by (auto simp: mark_node_offline_def Let_def intro: grows_trans[OF grows_fields(3) grows_lose])
qed

lemma grows_nodes [simp]:
  "grows st (register_or_touch_node now preq st)"
  "grows st (snd (enroll_node cd now cred nid ereq st))"
  "grows st (set_node_degraded nid st)"
  "grows st (snd (set_node_drained now nid d st))"
  "grows st (snd (reconcile_active_attempts st))"
  "grows st (snd (create_enrollment_token cd now i tok st))"
  "grows st (snd (create_rekey_token cd now i tok nid st))"
  by (simp_all add: register_or_touch_node_def enroll_node_def use_token_def set_node_degraded_def set_node_drained_def
      reconcile_active_attempts_def create_enrollment_token_def create_rekey_token_def Let_def audit_def grows_defs
      split: option.split)

lemma grows_revoke [simp]: "grows st (snd (revoke_node now nid st))"
  by (auto simp: revoke_node_def Let_def intro: grows_trans[OF grows_trans[OF grows_fields(3) grows_audit] grows_lose])

lemma grows_heartbeat [simp]: "grows st (snd (heartbeat now nid hreq st))"
  by (auto simp: heartbeat_def Let_def intro!: grows_trans[OF grows_fields(3) grows_lose_offline] grows_trans[OF _ grows_audit]
      grows_trans[OF _ grows_fields(3)] split: option.split prod.split)

lemma store_step_grows: "store_step st st' \<Longrightarrow> grows st st'"
  by (induction rule: store_step.induct) simp_all

lemma grows_collapse [simp]: "grows st (maybe_collapse_consensus json_text now apid tid st)"
proof -
  have "grows st (collapse_solve now apid tid g rows st)" for g rows
    by (simp add: collapse_solve_def Let_def grows_defs)
  moreover have "grows st (collapse_review_consensus json_text now g rows st)" for g rows
    by (auto simp: collapse_review_consensus_def Let_def intro: grows_trans[OF grows_audit grows_lifecycle(8)] split: list.split option.split)
  ultimately show ?thesis by (simp add: maybe_collapse_consensus_def Let_def split: option.split)
qed

text \<open>The store with the decisions of groups.\<close>

inductive group_step :: "store \<Rightarrow> store \<Rightarrow> bool" where
  g_store: "store_step st st' \<Longrightarrow> group_step st st'"
| g_collapse: "group_step st (maybe_collapse_consensus json_text now apid tid st)"

lemma group_steps_grow: "group_step\<^sup>*\<^sup>* st st' \<Longrightarrow> grows st st'"
  by (induction rule: rtranclp_induct) (auto elim!: group_step.cases intro: grows_trans store_step_grows)

section \<open>Finding the marker again\<close>

definition plain :: "char \<Rightarrow> bool" where
  "plain c \<longleftrightarrow> 32 \<le> (of_char c :: nat) \<and> (of_char c :: nat) < 127 \<and> c \<noteq> CHR 0x22 \<and> c \<noteq> CHR 0x5C"

lemma plain_char: "plain c \<Longrightarrow> json_char c = [c]" "plain c \<Longrightarrow> char_start c"
  by (auto simp: plain_def json_char_def char_start_def Let_def)

lemma plain_json: "list_all plain s \<Longrightarrow> json_str s = CHR 0x22 # s @ [CHR 0x22]"
proof -
  have "list_all plain s \<Longrightarrow> concat (map json_char s) = s" by (induction s) (auto simp: plain_char)
  then show "list_all plain s \<Longrightarrow> ?thesis" by (simp add: json_str_def)
qed

lemma like_percent: "like ps s \<Longrightarrow> like (CHR ''%'' # ps) (a @ s)"
  by (induction a) (simp_all add: like.simps)

lemma like_start: "list_all plain g \<Longrightarrow> b = [] \<or> char_start (hd b) \<Longrightarrow> like (g @ ''%'') (g @ b)"
proof (induction g)
  case Nil
  then show ?case using like_percent[of "[]" "[]" b] by (simp add: like.simps(1))
next
  case (Cons c g)
  have "dropWhile (\<lambda>b. \<not> char_start b) (g @ b) = g @ b"
    using Cons.prems by (cases g; cases b) (auto simp: plain_char)
  then show ?case using Cons by (cases "c = CHR ''%''") (auto simp: like.simps)
qed

lemma like_inside: "list_all plain g \<Longrightarrow> b = [] \<or> char_start (hd b) \<Longrightarrow> like ([CHR ''%''] @ g @ ''%'') (a @ g @ b)"
  using like_percent[OF like_start] by simp

lemma group_in_permission:
  assumes "list_all plain g"
  shows "like ([CHR ''%''] @ g @ [CHR ''%'']) (disagreement_permission g ms)"
proof -
  define rest where "rest = CHR 0x22 # '','' @ json_str ''kind'' @ '':'' @ json_str ''consensus_disagreement'' @
     '','' @ json_str ''members'' @ '':['' @ join '','' (map json_str ms) @ '']}''"
  have "disagreement_permission g ms = (''{'' @ json_str ''group'' @ '':'' @ [CHR 0x22]) @ g @ rest"
    by (simp add: disagreement_permission_def rest_def plain_json[OF assms])
  then show ?thesis using like_inside[OF assms, of rest "''{'' @ json_str ''group'' @ '':'' @ [CHR 0x22]"]
    by (simp add: rest_def char_start_def)
qed

lemma marker_action: "like ''review_consensus.%'' (''review_consensus.'' @ b)" if "b = [] \<or> char_start (hd b)" for b
  using like_start[of "''review_consensus.''" b] that by (simp add: plain_def)

lemma review_marked_iff:
  "review_marked g st \<longleftrightarrow> (\<exists>r\<in>set (audits st). au_actor_id r = Some g \<and> like ''review_consensus.%'' (au_action r))"
  by (simp add: review_marked_def sql_count_pos)

lemma group_mentioned_iff:
  "group_mentioned g st \<longleftrightarrow> (\<exists>(tid, perm)\<in>set (ap_view st). like ([CHR ''%''] @ g @ [CHR ''%'']) perm \<and>
     (\<exists>spec. (tid, spec) \<in> set (t_view st) \<and> ts_consensus_group_id spec = Some g))"
proof -
  have "(\<exists>t\<in>set (tasks st). t_id t = tid \<and> ts_consensus_group_id (t_spec t) = Some g) \<longleftrightarrow>
      (\<exists>spec. (tid, spec) \<in> set (t_view st) \<and> ts_consensus_group_id spec = Some g)" for tid
    by (auto simp: t_view_def)
  then show ?thesis by (simp add: group_mentioned_def sql_count_pos ap_view_def)
qed

lemma marked_persists: "review_marked g st \<Longrightarrow> grows st st' \<Longrightarrow> review_marked g st'"
  using set_mono_prefix[of "audits st" "audits st'"] by (auto simp: review_marked_iff grows_def)

lemma mentioned_persists:
  assumes "group_mentioned g st" "grows st st'"
  shows "group_mentioned g st'"
proof -
  have "set (ap_view st) \<subseteq> set (ap_view st')" "set (t_view st) \<subseteq> set (t_view st')"
    using assms(2) by (simp_all add: grows_def set_mono_prefix)
  then show ?thesis using assms(1) unfolding group_mentioned_iff by blast
qed

lemma group_of_view: "group_of st tid = Some g \<Longrightarrow> \<exists>spec. (tid, spec) \<in> set (t_view st) \<and> ts_consensus_group_id spec = Some g"
  by (force simp: group_of_def t_view_def find_task_def dest: sql_first_SomeD split: Option.bind_split_asm)

lemma answer_audits: "audits (snd (answer_approval now apid ev why actor st)) = audits st"
  by (simp add: answer_approval_def Let_def split: option.split sum.split)

lemma review_leaves_marker:
  assumes "collapse_review_consensus jt now g rows st \<noteq> st"
  shows "review_marked g (collapse_review_consensus jt now g rows st)"
proof -
  have "like ''review_consensus.%'' ''review_consensus.approved''" "like ''review_consensus.%'' ''review_consensus.disagreement''"
    using marker_action[of "''approved''"] marker_action[of "''disagreement''"] by (simp_all add: char_start_def)
  moreover have "audits (collapse_review_consensus jt now g rows st) = audits st @
      [last (audits (collapse_review_consensus jt now g rows st))] \<and>
      au_actor_id (last (audits (collapse_review_consensus jt now g rows st))) = Some g \<and>
      au_action (last (audits (collapse_review_consensus jt now g rows st))) \<in> {''review_consensus.approved'', ''review_consensus.disagreement''}"
    using assms by (auto simp: collapse_review_consensus_def Let_def audit_def answer_audits split: list.splits option.splits if_splits)
  ultimately show ?thesis unfolding review_marked_iff
    by (metis insertE list.set_intros(1) set_append singletonD Un_iff)
qed

lemma solve_leaves_mention:
  assumes "collapse_solve now apid tid g rows st \<noteq> st" "group_of st tid = Some g" "list_all plain g"
  shows "group_mentioned g (collapse_solve now apid tid g rows st)"
proof -
  have "t_view (collapse_solve now apid tid g rows st) = t_view st" by (simp add: collapse_solve_def Let_def t_view_def)
  moreover have "(tid, disagreement_permission g (map fst (patch_shas st rows))) \<in> set (ap_view (collapse_solve now apid tid g rows st))"
    using assms(1) by (auto simp: collapse_solve_def Let_def ap_view_def split: if_splits)
  ultimately show ?thesis
    using group_in_permission[OF assms(3)] group_of_view[OF assms(2)] unfolding group_mentioned_iff by fastforce
qed

lemma decided_review: "review_marked g st \<Longrightarrow> collapse_review_consensus jt now g rows st = st"
  by (simp add: collapse_review_consensus_def Let_def split: list.split)

lemma decided_solve: "group_mentioned g st \<Longrightarrow> collapse_solve now apid tid g rows st = st"
  by (simp add: collapse_solve_def Let_def)

definition one_mode :: "string \<Rightarrow> string \<Rightarrow> store \<Rightarrow> bool" where
  "one_mode mode g st \<longleftrightarrow> (\<forall>(_, spec)\<in>set (t_view st). ts_consensus_group_id spec = Some g \<longrightarrow> ts_consensus_mode spec = mode)"

lemma group_rows_mode: "one_mode mode g st \<Longrightarrow> group_rows st g \<noteq> [] \<Longrightarrow> ts_consensus_mode (t_spec (hd (group_rows st g))) = mode"
proof -
  assume "one_mode mode g st" "group_rows st g \<noteq> []"
  moreover have "hd (group_rows st g) \<in> set (group_rows st g)" using calculation(2) by simp
  ultimately show ?thesis by (auto simp: one_mode_def t_view_def group_rows_def)
qed

lemma one_mode_before: "one_mode mode g st' \<Longrightarrow> grows st st' \<Longrightarrow> one_mode mode g st"
  using set_mono_prefix by (fastforce simp: one_mode_def grows_def)

lemma collapse_leaves_trace:
  assumes "group_of st tid = Some g" "list_all plain g" "one_mode mode g st" "maybe_collapse_consensus jt now apid tid st \<noteq> st"
  shows "if mode = ''review'' then review_marked g (maybe_collapse_consensus jt now apid tid st)
    else group_mentioned g (maybe_collapse_consensus jt now apid tid st)"
  using assms(1, 4) group_rows_mode[OF assms(3)] review_leaves_marker solve_leaves_mention[OF _ assms(1, 2)]
  by (auto simp: maybe_collapse_consensus_def Let_def split: if_splits)

text \<open>C40: A consensus group decides once. After a completion made the group decide (a human was
  asked about differing patches, or the verdicts of a review were recorded), no later completion
  of any member decides again, whatever operations of the store and whatever other groups'
  decisions lie between, redelivered completions included. The name of the group must be plain
  text, and its tasks must be of one mode.\<close>

theorem group_decides_once:
  assumes "group_of st tid = Some g" "list_all plain g"
    and "maybe_collapse_consensus jt now apid tid st \<noteq> st"
    and "group_step\<^sup>*\<^sup>* (maybe_collapse_consensus jt now apid tid st) st2"
    and "one_mode mode g st2" "group_of st2 tid2 = Some g"
  shows "maybe_collapse_consensus jt2 now2 apid2 tid2 st2 = st2"
proof -
  let ?st1 = "maybe_collapse_consensus jt now apid tid st"
  have g: "grows ?st1 st2" using assms(4) by (rule group_steps_grow)
  then have "one_mode mode g st" using assms(5) one_mode_before grows_trans grows_collapse by blast
  then have "if mode = ''review'' then review_marked g ?st1 else group_mentioned g ?st1"
    using collapse_leaves_trace[OF assms(1, 2)] assms(3) by blast
  then have "if mode = ''review'' then review_marked g st2 else group_mentioned g st2"
    using marked_persists[OF _ g] mentioned_persists[OF _ g] by (simp split: if_splits)
  then show ?thesis using assms(6) group_rows_mode[OF assms(5)] decided_review decided_solve
    by (auto simp: maybe_collapse_consensus_def Let_def split: if_splits)
qed

section \<open>What is decided\<close>

lemma group_rows_set: "set (group_rows st g) = {t \<in> set (tasks st). ts_consensus_group_id (t_spec t) = Some g}"
  by (auto simp: group_rows_def)

definition patch_of :: "store \<Rightarrow> task_row \<Rightarrow> string option" where
  "patch_of st t = Option.bind (read_artifact_meta st (t_id t) ''changes.patch'') am_sha256"

lemma map_filter_set: "set (List.map_filter f xs) = {y. \<exists>x\<in>set xs. f x = Some y}"
  by (force simp: List.map_filter_def)

lemma patch_shas_set:
  "snd ` set (patch_shas st rows) = {s. \<exists>t\<in>set rows. t_status t = TaskSucceeded \<and> patch_of st t = Some s}"
proof -
  have "(\<exists>m. member_patch st t = Some (m, s)) \<longleftrightarrow> t_status t = TaskSucceeded \<and> patch_of st t = Some s" for t s
    by (cases "read_artifact_meta st (t_id t) ''changes.patch''") (simp_all add: patch_of_def member_patch_def)
  moreover have "snd ` set (patch_shas st rows) = {s. \<exists>t\<in>set rows. \<exists>m. member_patch st t = Some (m, s)}"
    unfolding patch_shas_def map_filter_set by (auto simp: image_def)
  ultimately show ?thesis by simp
qed

lemma disagreement_iff: "disagreement shas \<longleftrightarrow> (\<exists>s\<in>snd ` set shas. \<exists>s'\<in>snd ` set shas. s \<noteq> s')"
proof (cases shas)
  case (Cons x xs)
  have "(\<exists>s\<in>A. \<exists>s'\<in>A. s \<noteq> s') \<longleftrightarrow> (\<exists>s\<in>A. s \<noteq> a)" if "a \<in> A" for A and a :: string
    using that by metis
  from this[of "snd x" "snd ` set shas"] have "(\<exists>s\<in>snd ` set shas. \<exists>s'\<in>snd ` set shas. s \<noteq> s') \<longleftrightarrow> (\<exists>p\<in>set shas. snd p \<noteq> snd x)"
    by (simp add: Cons)
  moreover have "disagreement shas \<longleftrightarrow> (\<exists>p\<in>set shas. snd p \<noteq> snd x)"
    by (cases xs) (simp_all add: disagreement_def list_ex_iff Cons split_def)
  ultimately show ?thesis by simp
qed (simp add: disagreement_def)

text \<open>A group of solvers asks a human exactly when it should. When every task of the group has
  ended and no approval mentions the group yet, a completion adds one pending approval on the
  completed task if two members that succeeded delivered patches with different hashes, and
  leaves the store as it is if they agree or fewer than two patches exist.\<close>

theorem solvers_ask_on_difference:
  assumes "group_of st tid = Some g" "\<forall>t\<in>set (tasks st). ts_consensus_group_id (t_spec t) = Some g \<longrightarrow> decided t"
    and "one_mode mode g st" "mode \<noteq> ''review''" "\<not> group_mentioned g st"
  shows "if \<exists>t\<in>set (group_rows st g). \<exists>u\<in>set (group_rows st g). \<exists>s s'. t_status t = TaskSucceeded \<and> t_status u = TaskSucceeded \<and>
      patch_of st t = Some s \<and> patch_of st u = Some s' \<and> s \<noteq> s'
    then \<exists>r. maybe_collapse_consensus jt now apid tid st = st\<lparr>approvals := approvals st @ [r]\<rparr> \<and> ap_task_id r = tid \<and>
      ap_status r = ApprovalPending \<and> ap_scope r = ''consensus_disagreement'' \<and> ap_expires_at r = now + secs 86400
    else maybe_collapse_consensus jt now apid tid st = st"
proof -
  have rows: "group_rows st g \<noteq> []" using assms(1) group_rows_set[of st g]
    by (auto simp: group_of_def find_task_def dest: sql_first_SomeD split: Option.bind_split_asm)
  have "maybe_collapse_consensus jt now apid tid st = collapse_solve now apid tid g (group_rows st g) st"
    using assms(1, 2, 4) rows group_rows_mode[OF assms(3) rows]
    by (auto simp: maybe_collapse_consensus_def Let_def list_all_iff group_rows_set)
  moreover have "disagreement (patch_shas st (group_rows st g)) \<longleftrightarrow>
      (\<exists>t\<in>set (group_rows st g). \<exists>u\<in>set (group_rows st g). \<exists>s s'. t_status t = TaskSucceeded \<and> t_status u = TaskSucceeded \<and>
      patch_of st t = Some s \<and> patch_of st u = Some s' \<and> s \<noteq> s')"
    unfolding disagreement_iff patch_shas_set by blast
  ultimately show ?thesis using assms(5) by (auto simp: collapse_solve_def Let_def)
qed

lemma answer_effect:
  assumes "r' \<in> set (approvals (snd (answer_approval now i EvAllow why actor st)))" "r' \<notin> set (approvals st)"
  shows "ap_id r' = i \<and> ap_status r' = ApprovalAllowed"
proof -
  have "nxt = ApprovalAllowed" if "next_approval s EvAllow = Inr nxt" for s nxt
    using that by (cases s) auto
  then show ?thesis using assms
    by (auto simp: answer_approval_def Let_def set_sql_update split: option.splits sum.splits)
qed

lemma pending_review:
  assumes "find_pending_patch_review st tid = Some ap"
  shows "ap \<in> set (approvals st) \<and> ap_task_id ap = tid \<and> ap_scope ap = ''task_patch_review'' \<and> ap_status ap = ApprovalPending"
proof -
  let ?rows = "filter (\<lambda>r. ap_task_id r = tid \<and> ap_scope r = ''task_patch_review'' \<and> ap_status r = ApprovalPending) (approvals st)"
  have "ap \<in> set (sort_key (\<lambda>r. - int (ap_created_at r)) ?rows)"
    using assms unfolding find_pending_patch_review_def Let_def by (auto split: list.splits simp del: set_sort)
  then show ?thesis by simp
qed

lemma review_change:
  assumes "r' \<in> set (approvals (collapse_review_consensus jt now g rows st))" "r' \<notin> set (approvals st)"
  shows "list_all (\<lambda>t. snd (member_verdict jt st t) = Approve) rows \<and> ap_status r' = ApprovalAllowed \<and>
    (\<exists>ap\<in>set (approvals st). ap_id ap = ap_id r' \<and> ap_scope ap = ''task_patch_review'' \<and> ap_status ap = ApprovalPending \<and>
      (\<exists>t\<in>set rows. ts_review_of (t_spec t) = Some (ap_task_id ap)))"
proof -
  obtain review_of rest where o: "List.map_filter (\<lambda>t. ts_review_of (t_spec t)) rows = review_of # rest"
    using assms by (cases "List.map_filter (\<lambda>t. ts_review_of (t_spec t)) rows") (auto simp: collapse_review_consensus_def)
  define summary where "summary = join '','' (map (\<lambda>(m, v). m @ ''='' @ verdict_str v) (map (member_verdict jt st) rows))"
  define st1 where "st1 = audit now ''consensus_group'' (Some g) ''review_consensus.approved'' (Some review_of) (Some summary) st"
  have st1: "approvals (audit now ty ac an su pl st) = approvals st" for ty ac an su pl by (simp add: audit_def)
  have all: "list_all (\<lambda>(_, v). v = Approve) (map (member_verdict jt st) rows)" and "\<not> review_marked g st"
    "map (member_verdict jt st) rows \<noteq> []"
    using assms by (auto simp: collapse_review_consensus_def o Let_def st1 split: if_splits)
  then have "collapse_review_consensus jt now g rows st = (case find_pending_patch_review st1 review_of of None \<Rightarrow> st1
      | Some ap \<Rightarrow> snd (answer_approval now (ap_id ap) EvAllow (Some (''consensus review: '' @ summary)) ''consensus-review'' st1))"
    unfolding collapse_review_consensus_def o list.case Let_def summary_def[symmetric] st1_def by simp
  then obtain ap where ap: "find_pending_patch_review st1 review_of = Some ap"
    "r' \<in> set (approvals (snd (answer_approval now (ap_id ap) EvAllow (Some (''consensus review: '' @ summary)) ''consensus-review'' st1)))"
    using assms st1 by (auto simp: st1_def split: option.splits)
  have "review_of \<in> set (List.map_filter (\<lambda>t. ts_review_of (t_spec t)) rows)" by (simp add: o)
  then have "\<exists>t\<in>set rows. ts_review_of (t_spec t) = Some review_of" by (simp add: map_filter_set)
  moreover have "approvals st1 = approvals st" by (simp add: st1_def st1)
  ultimately show ?thesis using pending_review[OF ap(1)] answer_effect[OF ap(2)] assms(2) all
    by (auto simp: list_all_iff split_def)
qed

lemma approving_member:
  assumes "snd (member_verdict jt st t) = Approve"
  shows "t_status t = TaskSucceeded \<and> (\<exists>aid text. latest_attempt_id st (t_id t) = Some aid \<and> latest_result_text jt st aid = Some text \<and>
    sublist ''APPROVE'' (to_uppercase text) \<and> \<not> sublist ''REJECT'' (to_uppercase text))"
proof -
  have v: "verdict_of r = Approve \<longleftrightarrow> sublist ''APPROVE'' (to_uppercase r) \<and> \<not> sublist ''REJECT'' (to_uppercase r)" for r
    by (simp add: verdict_of_def Let_def)
  have "verdict_of [] \<noteq> Approve" by (simp add: v to_uppercase_def)
  then show ?thesis using assms
    by (auto simp: member_verdict_def or_empty_def v[symmetric] split: if_splits option.splits Option.bind_splits)
qed

text \<open>Reviewers can only allow a patch together. If a completion changes any approval of a
  reviewing group, then what changed is a pending patch review of the reviewed task, which is now
  allowed; every task of the group succeeded, and the last result of each says APPROVE and nowhere
  REJECT, in any case of letters.\<close>

theorem reviewers_allow_together:
  assumes "group_of st tid = Some g" "one_mode ''review'' g st"
    and "r' \<in> set (approvals (maybe_collapse_consensus jt now apid tid st))" "r' \<notin> set (approvals st)"
  shows "(\<exists>r\<in>set (approvals st). ap_id r = ap_id r' \<and> ap_scope r = ''task_patch_review'' \<and> ap_status r = ApprovalPending \<and>
      (\<exists>t\<in>set (group_rows st g). ts_review_of (t_spec t) = Some (ap_task_id r))) \<and>
    ap_status r' = ApprovalAllowed \<and>
    (\<forall>t\<in>set (group_rows st g). t_status t = TaskSucceeded \<and>
      (\<exists>aid text. latest_attempt_id st (t_id t) = Some aid \<and> latest_result_text jt st aid = Some text \<and>
        sublist ''APPROVE'' (to_uppercase text) \<and> \<not> sublist ''REJECT'' (to_uppercase text)))"
proof -
  have "maybe_collapse_consensus jt now apid tid st = collapse_review_consensus jt now g (group_rows st g) st"
    using assms group_rows_mode[OF assms(2)] by (auto simp: maybe_collapse_consensus_def Let_def split: if_splits)
  then have "r' \<in> set (approvals (collapse_review_consensus jt now g (group_rows st g) st))" using assms(3) by simp
  from review_change[OF this assms(4)] show ?thesis using approving_member by (simp add: list_all_iff) blast
qed

section \<open>Examples\<close>

definition member :: "string \<Rightarrow> id option \<Rightarrow> id \<Rightarrow> task_row" where
  "member mode review_of i = (queued_task 5 i (demo_spec\<lparr>ts_consensus_group_id := Some ''g1'', ts_consensus_member := Some i,
     ts_consensus_mode := mode, ts_review_of := review_of\<rparr>))\<lparr>t_status := TaskSucceeded\<rparr>"

definition patch_row :: "id \<Rightarrow> string \<Rightarrow> artifact_row" where
  "patch_row i sha = \<lparr>ar_attempt_id = i, ar_name = ''changes.patch'', ar_size_bytes = 9, ar_stored_at = 0, ar_media_type = None,
     ar_sha256 = Some sha, ar_stored_compressed = False, ar_stored_sha256 = Some sha\<rparr>"

definition result_row :: "id \<Rightarrow> string \<Rightarrow> event_row" where
  "result_row i says = \<lparr>e_attempt_id = i, e_sequence = 1, e_type = EvtResult, e_payload = says, e_created_at = 0, e_ingest_id = 1\<rparr>"

definition solvers :: store where
  "solvers = empty_store\<lparr>tasks := map (member ''solve'' None) [''t1'', ''t2''],
     attempts := map (\<lambda>i. new_attempt 10 (''a-'' @ i) i 1 ''n1'' ''f'') [''t1'', ''t2''],
     artifacts := [patch_row ''a-t1'' ''s1'', patch_row ''a-t2'' ''s2'']\<rparr>"

definition reviewers :: "string \<Rightarrow> store" where
  "reviewers says = empty_store\<lparr>tasks := map (member ''review'' (Some ''t0'')) [''r1'', ''r2''],
     attempts := map (\<lambda>i. new_attempt 10 (''a-'' @ i) i 1 ''n1'' ''f'') [''r1'', ''r2''],
     task_events := [result_row ''a-r1'' ''approved'', result_row ''a-r2'' says],
     approvals := [patch_review 0 ''ap0'' ''t0'' ''a0'']\<rparr>"

lemma demo_rows:
  "group_rows solvers ''g1'' = [member ''solve'' None ''t1'', member ''solve'' None ''t2'']"
  "group_rows (reviewers says) ''g1'' = [member ''review'' (Some ''t0'') ''r1'', member ''review'' (Some ''t0'') ''r2'']"
  by (simp_all add: group_rows_def solvers_def reviewers_def member_def queued_task_def less_char_def)

lemma demo_groups:
  "group_of solvers ''t1'' = Some ''g1''" "group_of solvers ''t2'' = Some ''g1''" "group_of (reviewers says) ''r1'' = Some ''g1''"
  "one_mode ''solve'' ''g1'' solvers" "one_mode ''review'' ''g1'' (reviewers says)" "\<not> group_mentioned ''g1'' solvers"
  "\<forall>t\<in>set (tasks solvers). ts_consensus_group_id (t_spec t) = Some ''g1'' \<longrightarrow> decided t"
  by (simp_all add: group_of_def one_mode_def t_view_def group_mentioned_iff ap_view_def find_task_def sql_first_def solvers_def
      reviewers_def member_def queued_task_def decided_def empty_store_def)

lemma demo_patches: "patch_of solvers (member ''solve'' None ''t1'') = Some ''s1''" "patch_of solvers (member ''solve'' None ''t2'') = Some ''s2''"
  by (simp_all add: patch_of_def read_artifact_meta_def latest_attempt_id_def solvers_def new_attempt_def member_def queued_task_def
      patch_row_def sql_first_def)

theorem solvers_ask_on_difference_witness:
  "\<exists>r. maybe_collapse_consensus Some 7 ''ap1'' ''t1'' solvers = solvers\<lparr>approvals := approvals solvers @ [r]\<rparr> \<and> ap_task_id r = ''t1''"
  using solvers_ask_on_difference[OF demo_groups(1, 7, 4) _ demo_groups(6), of Some 7 "''ap1''"] demo_patches
  by (auto simp: demo_rows member_def split: if_splits)

lemma demo_collapse: "\<exists>r. maybe_collapse_consensus Some 7 ''ap1'' ''t1'' solvers = solvers\<lparr>approvals := [r]\<rparr>"
proof -
  have "member_patch solvers (member ''solve'' None ''t1'') = Some (''t1'', ''s1'')"
    "member_patch solvers (member ''solve'' None ''t2'') = Some (''t2'', ''s2'')"
    by (simp_all add: member_patch_def read_artifact_meta_def latest_attempt_id_def solvers_def new_attempt_def
        member_def queued_task_def patch_row_def sql_first_def or_empty_def)
  then have "patch_shas solvers (group_rows solvers ''g1'') = [(''t1'', ''s1''), (''t2'', ''s2'')]"
    by (simp add: demo_rows patch_shas_def)
  moreover have "maybe_collapse_consensus Some 7 ''ap1'' ''t1'' solvers = collapse_solve 7 ''ap1'' ''t1'' ''g1'' (group_rows solvers ''g1'') solvers"
    by (simp add: maybe_collapse_consensus_def demo_groups(1) demo_rows) (simp add: member_def decided_def queued_task_def)
  moreover have "approvals solvers = []" by (simp add: solvers_def empty_store_def)
  ultimately show ?thesis using demo_groups(6) by (simp add: collapse_solve_def disagreement_def) blast
qed

theorem group_decides_once_witness:
  "maybe_collapse_consensus Some 9 ''ap2'' ''t2'' (maybe_collapse_consensus Some 7 ''ap1'' ''t1'' solvers)
     = maybe_collapse_consensus Some 7 ''ap1'' ''t1'' solvers \<and>
   approvals (maybe_collapse_consensus Some 7 ''ap1'' ''t1'' solvers) \<noteq> []"
proof -
  obtain r where r: "maybe_collapse_consensus Some 7 ''ap1'' ''t1'' solvers = solvers\<lparr>approvals := [r]\<rparr>" using demo_collapse by blast
  have "approvals solvers = []" by (simp add: solvers_def empty_store_def)
  then have ne: "maybe_collapse_consensus Some 7 ''ap1'' ''t1'' solvers \<noteq> solvers" using arg_cong[of _ _ approvals] r by fastforce
  have "one_mode ''solve'' ''g1'' (solvers\<lparr>approvals := [r]\<rparr>)" "group_of (solvers\<lparr>approvals := [r]\<rparr>) ''t2'' = Some ''g1''"
    using demo_groups(2, 4) by (simp_all add: one_mode_def t_view_def group_of_def find_task_def)
  then show ?thesis
    using group_decides_once[OF demo_groups(1) _ ne rtranclp.rtrancl_refl, of "''solve''" "''t2''" Some 9 "''ap2''"] r
    by (simp add: plain_def)
qed

lemma demo_text: "latest_attempt_id (reviewers says) ''r1'' = Some ''a-r1''" "latest_attempt_id (reviewers says) ''r2'' = Some ''a-r2''"
  "latest_result_text (\<lambda>_. None) (reviewers says) ''a-r1'' = Some (take_chars 2000 ''approved'')"
  "latest_result_text (\<lambda>_. None) (reviewers says) ''a-r2'' = Some (take_chars 2000 says)"
  by (simp_all add: latest_attempt_id_def latest_result_text_def reviewers_def new_attempt_def result_row_def)

lemma demo_approved: "verdict_of ''approved'' = Approve" "verdict_of ''I approve'' = Approve"
  by code_simp+

lemma take_chars_short: "length s \<le> n \<Longrightarrow> take_chars n s = s"
proof (induction s arbitrary: n)
  case (Cons c s)
  then show ?case by (cases n) auto
qed simp

lemma demo_review:
  assumes "verdict_of says = Approve" "length says \<le> 2000"
  shows "\<exists>r'. approvals (maybe_collapse_consensus (\<lambda>_. None) 7 ''ap1'' ''r1'' (reviewers says)) = [r'] \<and> ap_status r' = ApprovalAllowed"
proof -
  have v: "map (member_verdict (\<lambda>_. None) (reviewers says)) (group_rows (reviewers says) ''g1'') = [(''r1'', Approve), (''r2'', Approve)]"
    using demo_approved assms
    by (simp add: demo_rows member_verdict_def member_def queued_task_def or_empty_def demo_text take_chars_short)
  have "ts_review_of (t_spec (member ''review'' (Some ''t0'') i)) = Some ''t0''" "decided (member ''review'' (Some ''t0'') i)"
    "ts_consensus_mode (t_spec (member ''review'' (Some ''t0'') i)) = ''review''" for i
    by (simp_all add: member_def queued_task_def decided_def)
  then have "maybe_collapse_consensus (\<lambda>_. None) 7 ''ap1'' ''r1'' (reviewers says) =
      collapse_review_consensus (\<lambda>_. None) 7 ''g1'' (group_rows (reviewers says) ''g1'') (reviewers says)"
    "List.map_filter (\<lambda>t. ts_review_of (t_spec t)) (group_rows (reviewers says) ''g1'') = [''t0'', ''t0'']"
    by (simp_all add: maybe_collapse_consensus_def demo_groups(3) demo_rows)
  moreover have "\<not> review_marked ''g1'' (reviewers says)" by (simp add: review_marked_iff reviewers_def empty_store_def)
  ultimately show ?thesis unfolding collapse_review_consensus_def Let_def v
    by (simp add: reviewers_def find_pending_patch_review_def audit_def patch_review_def answer_approval_def sql_first_def)
qed

theorem reviewers_allow_together_witness:
  "\<exists>r'\<in>set (approvals (maybe_collapse_consensus (\<lambda>_. None) 7 ''ap1'' ''r1'' (reviewers ''I approve''))).
     ap_status r' = ApprovalAllowed \<and> (\<forall>t\<in>set (group_rows (reviewers ''I approve'') ''g1''). t_status t = TaskSucceeded)"
proof -
  obtain r' where r': "approvals (maybe_collapse_consensus (\<lambda>_. None) 7 ''ap1'' ''r1'' (reviewers ''I approve'')) = [r']"
    "ap_status r' = ApprovalAllowed" using demo_review[OF demo_approved(2)] by auto
  then have "r' \<notin> set (approvals (reviewers ''I approve''))" by (auto simp: reviewers_def patch_review_def)
  from reviewers_allow_together[OF demo_groups(3, 5) _ this, of "\<lambda>_. None" 7 "''ap1''"] show ?thesis using r'(1) by simp
qed

text \<open>Two gaps. The verdict looks for words only, so a reviewer who refuses to approve approves.\<close>

lemma refusal_counts_as_approval: "verdict_of ''I do not approve this patch'' = Approve"
  by code_simp

text \<open>And a group name that JSON escapes is not found again: every further completion of a member
  asks the human once more.\<close>

lemma quoted_group_is_not_found:
  "\<not> like ([CHR ''%''] @ [CHR ''a'', CHR 0x22, CHR ''b''] @ [CHR ''%'']) (disagreement_permission [CHR ''a'', CHR 0x22, CHR ''b''] [''m1'', ''m2''])"
  by code_simp

end
