(* ===== verification/Spec2Isabelle.thy ===== *)
theory Spec2Isabelle
  imports AuthProps RewindProps HaRuns WorkflowLive DeliveryProps UserProps AdapterCodex CommandPolicy CredClient
    ConsensusProps
begin

text \<open>
  A verification of agentgrid, a system that hands coding tasks to agents on a fleet of
  nodes: its control plane, and the path on which a node delivers events and results to it.

  \<^bold>\<open>The program.\<close> Clients create tasks; nodes enrol, send heartbeats and poll for
  work; the scheduler turns a queued task into an attempt on one node, under a lease and a
  fencing token; the node acknowledges, streams events and artifacts, and reports
  completion; a reaper reverts leases that expire and declares silent nodes offline. All
  of that state is one SQLite database, the store. On top of it a workflow engine runs
  graphs of steps as tasks. Several control planes may run as a cluster: an elected leader
  alone accepts writes, a gate refuses every write without a live lease, and each committed
  transaction is shipped to the standbys as a changeset.

  \<^bold>\<open>Foundations.\<close> \<open>Prelude\<close> holds the shared vocabulary: results, tables as lists of
  rows with the statements \<open>UPDATE\<close>, \<open>COUNT\<close> and \<open>SELECT ... LIMIT 1\<close>, the map a table
  denotes, the string functions of the Rust library, and the locale \<open>invariant_system\<close>
  that turns a preserved predicate into a fact about reachable states.

  \<^bold>\<open>The task lifecycle.\<close>
  \<^item> \<open>Lifecycle\<close>: the machines of \<open>common/src/state_machine.rs\<close> and \<open>approval.rs\<close>, with
    bounds on the length of their runs.
  \<^item> \<open>StoreModel\<close>, \<open>Artifacts\<close>, \<open>StoreOps\<close>, \<open>NodeOps\<close>, \<open>Scheduler\<close>: the tables of
    \<open>control-plane/src/store.rs\<close> as a record, and one definition per operation of
    \<open>store/attempts.rs\<close>, \<open>tasks.rs\<close>, \<open>events.rs\<close>, \<open>approvals.rs\<close>, \<open>nodes.rs\<close>,
    \<open>artifacts.rs\<close>, \<open>scheduler.rs\<close> and \<open>maintenance.rs\<close>. An operation takes the clock
    reading and the random ids it draws as arguments.
  \<^item> \<open>StoreCore\<close>: an abstract specification with tasks, attempts, nodes and their counters
    only; \<open>StoreInv\<close>, \<open>StoreInv2\<close> and \<open>StoreProps\<close> show that every operation refines
    it, and that a task has at most one live attempt, an idle task owns none, the
    denormalised counters are exact and every status change is a run of the machines.
  \<^item> \<open>OutcomeProps\<close>, \<open>LeaseProps\<close>, \<open>SchedProps\<close>, \<open>LogProps\<close>, \<open>EventProps\<close>,
    \<open>AuthProps\<close>: the complete effect of completion and of node loss, fencing after a
    lease expired, admissibility, capacity and order of a batch, the event log and its
    acknowledged prefix, what a finished attempt can still change, single use of enrolment tokens
    and permanence of revocation.
  \<^item> \<open>Consensus\<close>, \<open>ConsensusProps\<close>: the collapse of groups of tasks that solve or review the same
    thing (\<open>store/attempts.rs\<close>); a group asks a human exactly on differing patches, reviewers allow a
    patch only together, and a group decides once; a refusal that contains the word, and group names
    that JSON escapes, get around it.

  \<^bold>\<open>The workflow engine.\<close>
  \<^item> \<open>WorkflowDag\<close>, \<open>WorkflowDagProps\<close>: the two validators of a step graph, as the loops
    of \<open>common/src/workflow.rs\<close> and \<open>control-plane/src/workflow.rs\<close>; both terminate,
    never panic and decide the same predicate.
  \<^item> \<open>WorkflowStore\<close>, \<open>WorkflowTick\<close>: the tables and operations of
    \<open>store/workflows.rs\<close>, the expiry sweep of \<open>store/approvals.rs\<close> and the background
    ticker; a tick is one definition per branch of the code's loop.
  \<^item> \<open>WorkflowReach\<close>, \<open>WorkflowMail\<close>, \<open>WorkflowIdle\<close>: reachable states, the locales
    \<open>run_closed\<close> and \<open>wf_closed\<close> that carry a predicate through a tick and through every
    operation, the integrity of ids and mailbox, the isolation of runs from each other.
  \<^item> \<open>WorkflowOrder\<close>, \<open>WorkflowLive\<close>: the effect of a tick on the statuses of a run, one triple
    per write; dependencies come first, and a run finishes within two ticks per step.

  \<^bold>\<open>Between node and control plane.\<close>
  \<^item> \<open>NodeOutbox\<close>, \<open>NodeSink\<close>: the durable spools of \<open>node-daemon/src/outbox.rs\<close> and the event
    sink of \<open>event_sink.rs\<close>, with the retries of \<open>polling.rs\<close>. Every disk operation has its
    outcomes: an append may stop at any byte and leave an unterminated line, a record of a completion
    may fail or lose the old file, a drop marker may be cut.
  \<^item> \<open>RateLimits\<close>, \<open>AttemptRoutes\<close>: the limiters of \<open>control-plane/src/config.rs\<close> and the routes
    of \<open>routes/attempts.rs\<close>; bursts are bounded, and foreign requests change nothing.
  \<^item> \<open>NodeDelivery\<close>: the interleavings of producers, sender and drain as a step relation, over
    the locale \<open>event_log\<close> that says what a post does to the log.
  \<^item> \<open>NodeWire\<close>: the network as a script of losses, the report of a completion, its redelivery
    and the end of an attempt (\<open>completion.rs\<close>, \<open>recovery.rs\<close>, \<open>attempt_runner.rs\<close>).
  \<^item> \<open>NodeCompletion\<close>, \<open>DeliveryProps\<close>: the completion spool refines a map of owed reports, a
    completion that was recorded is reported or kept, no event spooled behind a terminated line is
    lost while its attempt runs, a drain that is answered delivers everything; and the ways in which
    data is lost or revived: a line cut by a failed write takes the next event with it, a report
    without a record is dropped, a quarantine revives settled reports, an oversized event blocks the
    stream, the end of the attempt discards what was not delivered.

  \<^bold>\<open>What an agent says and may do.\<close>
  \<^item> \<open>Redactor\<close>: the streaming redactor of \<open>secret_redactor.rs\<close>; it ends, does not depend on how
    the output is chunked, and no line shows a secret or its encodings; two ways in which a forced
    split still leaks.
  \<^item> \<open>CommandGuard\<close>: the shell lexer and the deny and allow lists of \<open>command_guard.rs\<close>; a denied
    command cannot hide behind quotes, escapes, blanks, chains, the order of its arguments or wrappers
    that are given dash options; the forms that do pass are an option with a value, an assignment, a
    substitution and a nested shell.
  \<^item> \<open>StreamReader\<close>, \<open>AdapterCodex\<close>: the reader of \<open>event_sink.rs\<close>, which masks, guards and records
    every line, and the translation of the Codex adapter, whose commands the guard never sees.
  \<^item> \<open>CommandPolicy\<close>: the classifier and decision matrix of \<open>common/src/policy.rs\<close> and the answer to
    a permission request in \<open>node-daemon/src/main.rs\<close>.
  \<^item> \<open>CredGateway\<close>, \<open>CredProps\<close>, \<open>CredClient\<close>: the credential gateway of \<open>cred-gateway/src/lib.rs\<close>
    and its client \<open>node-daemon/src/cred_gateway.rs\<close>. A capability is good for its route, its time
    and its quota only, no answer depends on a provider key, and revoked capabilities stay dead;
    a bearer capability travels on to the provider, and a failed start forgets what it minted.

  \<^bold>\<open>Users.\<close> \<open>UserAuth\<close> models \<open>store/users.rs\<close>, the session tokens of \<open>lib.rs\<close>, the
  middleware, setup, login and logout of \<open>auth.rs\<close> and the administration of
  \<open>routes/users.rs\<close>; Argon2 and the token codec are parameters. \<open>UserProps\<close> shows that an
  install keeps an admin, that a change of role or password ends the sessions of the user and
  that setup works once per process, and exhibits the two gaps: sessions of a deleted account
  revive with its name, and overlapping deletions remove the last admins.

  \<^bold>\<open>High availability.\<close>
  \<^item> \<open>HaGate\<close>: \<open>ha/quorum.rs\<close> and the fencing gate of \<open>ha/role.rs\<close>; quorum
    intersection as a locale. \<open>HaConfig\<close>: parsing and validation of \<open>ha/config.rs\<close>.
  \<^item> \<open>HaRepl\<close>, \<open>HaReplProps\<close>, \<open>RewindProps\<close>: the fenced transaction of \<open>store.rs\<close>,
    \<open>ha/incremental.rs\<close>, \<open>store/ha.rs\<close>, the changeset route and \<open>ha/snapshot.rs\<close>; a
    standby is a prefix of the leader's log, and a rewind restores the last acknowledged state,
    except for writes above the cap on changesets and unless entries of an earlier leadership block it.
  \<^item> \<open>HaElection\<close>, \<open>HaCluster\<close>, \<open>HaClusterProps\<close>, \<open>HaRuns\<close>: votes, pre-votes,
    heartbeats, promotion, demotion and restart of \<open>ha/election.rs\<close>, composed into a
    cluster. The handlers are cut where they wait and where they read the term or the vote and write
    it later, and the parts interleave on every replica. Election safety for timely runs, freshness of
    the winner, and four runs outside them in which two replicas hold one term.

  \<^bold>\<open>Choices.\<close> Ids, tokens and text are strings of bytes; timestamps are nanoseconds;
  counters, terms, epochs and sequence numbers are natural numbers except where the code
  casts or wraps, which is written out (\<open>64 word\<close> for event sequences and metrics,
  \<open>mod 2 ^ 32\<close> for counts cast to \<open>u32\<close>). A transaction of the store is atomic, because
  SQLite runs one writer at a time, and an operation made of several transactions in a row (the
  heartbeat of a node, a consensus collapse) is one step; a request to the credential gateway is
  admitted and forwarded in one step. In the cluster a part of a handler is one step, and so are the
  write of term, vote and vote file and the demotion after a newer term is written, which no lock
  covers. Ticks of one workflow run follow each other. All loops are total functions, so
  no fuel is needed anywhere, except the loop of the redactor, which may run forever and is a
  partial function. Library code enters as arguments: the zstd codec and SHA-256,
  full text search, the SQLite session extension with two laws about the changesets of the log
  (their concatenation applies in sequence, an inverse undoes its changeset), the JSON and YAML readers, the supply of random ids (assumed injective where
  uniqueness matters) and the iteration order of hash maps. Election safety carries the
  proviso \<open>timely\<close>: what was checked before a write of term, vote or gate still holds at the write,
  and nobody promotes by hand; \<open>HaRuns\<close> shows that each part is needed. Its runs use timeouts of a
  few milliseconds. Left out of modelled operations: the failure of the write to the raw mirror of
  a stream, the internal-error answer of the changeset route, and the time between its leader check
  and its lock.

  \<^bold>\<open>Not modelled.\<close> The other HTTP routes, WebSocket and web interface, the command line and
  terminal clients, provisioning and the edge proxy are glue around the store or pure
  input and output. The rest of the node daemon (process supervision, sandboxing, git
  worktrees) acts on processes and file systems; the other adapters translate vendor formats. Of the cluster, byte transport and
  the S3 backend are left out, and of the store the read-only listing, search and projection
  queries and the retention sweeps.
\<close>

end
